(* ===== verification/Prelude.thy ===== *)
theory Prelude
  imports Main "HOL-Library.Word"
begin

text \<open>
  Shared vocabulary of the development: bytes, the results a C++ extension function can
  have (a value, a raised Python exception, or a crash of the process), the sequencing of
  such functions over an explicit state, and the collections of simplification rules the
  component theories extend.
\<close>

unbundle bit_operations_syntax

section \<open>Bytes\<close>

type_synonym byte = "8 word"
type_synonym bytes = "byte list"

text \<open>A C string read back from a \<open>std::string\<close>: it stops at the first NUL.\<close>

definition c_str :: "bytes \<Rightarrow> bytes" where
  "c_str s = takeWhile (\<lambda>c. c \<noteq> 0) s"

section \<open>Results of an extension function\<close>

text \<open>
  \<open>fault\<close> lists the ways in which the process can be lost: a NULL pointer is followed,
  a deleted C++ object is used, a LevelDB iterator is read where its contract requires
  \<open>Valid()\<close>, or \<open>abort()\<close> is called.
\<close>

datatype fault = NullDeref | UseAfterFree | InvalidIterator | Abort

datatype pyexc =
    TypeError
  | ValueError
  | KeyError
  | AttributeError
  | MemoryError
  | LevelDBError bytes

datatype 'a outcome = Ret 'a | Raise pyexc | Crash fault

type_synonym ('w, 'a) py = "'w \<Rightarrow> 'a outcome \<times> 'w"

definition py_ret :: "'a \<Rightarrow> ('w, 'a) py" where
  "py_ret x w = (Ret x, w)"

definition py_raise :: "pyexc \<Rightarrow> ('w, 'a) py" where
  "py_raise e w = (Raise e, w)"

definition py_crash :: "fault \<Rightarrow> ('w, 'a) py" where
  "py_crash f w = (Crash f, w)"

text \<open>
  Sequencing: a C++ function goes on after a call that returned, and returns its own error
  value at once after a call that failed.
\<close>

definition py_bind :: "('w, 'a) py \<Rightarrow> ('a \<Rightarrow> ('w, 'b) py) \<Rightarrow> ('w, 'b) py" where
  "py_bind m f w =
     (case m w of
        (Ret x, w') \<Rightarrow> f x w'
      | (Raise e, w') \<Rightarrow> (Raise e, w')
      | (Crash c, w') \<Rightarrow> (Crash c, w'))"

definition py_get :: "('w \<Rightarrow> 'a) \<Rightarrow> ('w, 'a) py" where
  "py_get f w = (Ret (f w), w)"

definition py_modify :: "('w \<Rightarrow> 'w) \<Rightarrow> ('w, unit) py" where
  "py_modify f w = (Ret (), f w)"

named_theorems py_simps \<open>unfolding of the sequencing operations\<close>

lemmas [py_simps] = py_ret_def py_raise_def py_crash_def py_get_def py_modify_def

lemma py_bind_Ret [py_simps]: "m w = (Ret x, w') \<Longrightarrow> py_bind m f w = f x w'"
  by (simp add: py_bind_def)

lemma py_bind_Raise [py_simps]: "m w = (Raise e, w') \<Longrightarrow> py_bind m f w = (Raise e, w')"
  by (simp add: py_bind_def)

lemma py_bind_Crash [py_simps]: "m w = (Crash c, w') \<Longrightarrow> py_bind m f w = (Crash c, w')"
  by (simp add: py_bind_def)

lemma bind_assoc: "py_bind (py_bind m f) k w = py_bind m (\<lambda>x. py_bind (f x) k) w"
  by (auto simp: py_bind_def split: prod.split outcome.split)

lemma py_bind_assoc: "py_bind (py_bind m f) k = py_bind m (\<lambda>x. py_bind (f x) k)"
  by (rule ext) (rule bind_assoc)

text \<open>
  A Hoare-style triple for functions that may raise but must not lose memory safety: from a
  state that satisfies \<open>P\<close>, a returned value satisfies \<open>Q\<close>, a raised exception leaves a
  state that satisfies \<open>E\<close>, and the process is lost to a deliberate \<open>abort()\<close> at most.
\<close>

definition safe :: "('w \<Rightarrow> bool) \<Rightarrow> ('w, 'a) py \<Rightarrow> ('a \<Rightarrow> 'w \<Rightarrow> bool) \<Rightarrow> ('w \<Rightarrow> bool) \<Rightarrow> bool" where
  "safe P m Q E \<longleftrightarrow>
     (\<forall>w. P w \<longrightarrow>
        (case m w of
           (Ret x, w') \<Rightarrow> Q x w'
         | (Raise e, w') \<Rightarrow> E w'
         | (Crash c, w') \<Rightarrow> c = Abort))"

named_theorems safe_rules \<open>rules of the triple, by the form of the function\<close>

lemma safeI:
  assumes "\<And>w x w'. P w \<Longrightarrow> m w = (Ret x, w') \<Longrightarrow> Q x w'"
    and "\<And>w e w'. P w \<Longrightarrow> m w = (Raise e, w') \<Longrightarrow> E w'"
    and "\<And>w c w'. P w \<Longrightarrow> m w = (Crash c, w') \<Longrightarrow> c = Abort"
  shows "safe P m Q E"
  using assms by (fastforce simp: safe_def split: prod.split outcome.split)

lemma safeD:
  assumes "safe P m Q E" and "P w"
  shows "m w = (Ret x, w') \<Longrightarrow> Q x w'" and "m w = (Raise e, w') \<Longrightarrow> E w'" and "m w = (Crash c, w') \<Longrightarrow> c = Abort"
  using assms by (auto simp: safe_def dest!: spec [of _ w])

lemma safe_ret [safe_rules]: "(\<And>w. P w \<Longrightarrow> Q x w) \<Longrightarrow> safe P (py_ret x) Q E"
  by (simp add: safe_def py_ret_def)

lemma safe_raise [safe_rules]: "(\<And>w. P w \<Longrightarrow> E w) \<Longrightarrow> safe P (py_raise e) Q E"
  by (simp add: safe_def py_raise_def)

lemma safe_get [safe_rules]: "(\<And>w. P w \<Longrightarrow> Q (f w) w) \<Longrightarrow> safe P (py_get f) Q E"
  by (simp add: safe_def py_get_def)

lemma safe_modify [safe_rules]: "(\<And>w. P w \<Longrightarrow> Q () (f w)) \<Longrightarrow> safe P (py_modify f) Q E"
  by (simp add: safe_def py_modify_def)

lemma safe_abort [safe_rules]: "safe P (py_crash Abort) Q E"
  by (simp add: safe_def py_crash_def)

lemma safe_bind:
  assumes "safe P m R E" and "\<And>x. safe (R x) (f x) Q E"
  shows "safe P (py_bind m f) Q E"
proof (rule safeI)
  fix w assume "P w"
  note m = safeD [OF assms(1) this] and f = safeD [OF assms(2)]
  show "py_bind m f w = (Ret x, w') \<Longrightarrow> Q x w'" for x w'
    using m(1) f(1) by (auto simp: py_bind_def split: prod.splits outcome.splits)
  show "py_bind m f w = (Raise e, w') \<Longrightarrow> E w'" for e w'
    using m(1,2) f(2) by (auto simp: py_bind_def split: prod.splits outcome.splits)
  show "py_bind m f w = (Crash c, w') \<Longrightarrow> c = Abort" for c w'
    using m(1,3) f(3) by (auto simp: py_bind_def split: prod.splits outcome.splits)
qed

lemma safe_conseq:
  assumes "safe P' m Q' E'" and "\<And>w. P w \<Longrightarrow> P' w"
    and "\<And>x w. Q' x w \<Longrightarrow> Q x w" and "\<And>w. E' w \<Longrightarrow> E w"
  shows "safe P m Q E"
  using assms by (fastforce simp: safe_def split: prod.splits outcome.splits)

lemma safe_if [safe_rules]:
  assumes "b \<Longrightarrow> safe P m Q E" and "\<not> b \<Longrightarrow> safe P n Q E"
  shows "safe P (if b then m else n) Q E"
  using assms by simp

lemma safe_pre: "(\<And>w. P w \<Longrightarrow> safe (\<lambda>v. v = w) m Q E) \<Longrightarrow> safe P m Q E"
  by (simp add: safe_def)

section \<open>Frames\<close>

text \<open>\<open>keeps R m\<close>: however \<open>m\<close> ends, it moves the state along the relation \<open>R\<close>.\<close>

definition keeps :: "('w \<Rightarrow> 'w \<Rightarrow> bool) \<Rightarrow> ('w, 'a) py \<Rightarrow> bool" where
  "keeps R m \<longleftrightarrow> (\<forall>w. R w (snd (m w)))"

named_theorems keeps_rules \<open>rules of the frame predicate, by the form of the function\<close>

lemma keepsD: "keeps R m \<Longrightarrow> m w = (r, w') \<Longrightarrow> R w w'"
  by (metis keeps_def snd_conv)

lemma keeps_bind:
  assumes "transp R" and "keeps R m" and "\<And>x. keeps R (f x)"
  shows "keeps R (py_bind m f)"
  unfolding keeps_def
proof
  fix w
  obtain r w1 where m: "m w = (r, w1)" by fastforce
  have "R w w1" by (rule keepsD [OF assms(2) m])
  moreover have "R w1 (snd (f x w1))" for x using assms(3) by (simp add: keeps_def)
  ultimately show "R w (snd (py_bind m f w))"
    using m assms(1) by (cases r) (auto simp: py_bind_def dest: transpD)
qed

lemma keeps_ret [keeps_rules]: "reflp R \<Longrightarrow> keeps R (py_ret x)"
  by (simp add: keeps_def py_ret_def reflpD)

lemma keeps_raise [keeps_rules]: "reflp R \<Longrightarrow> keeps R (py_raise e)"
  by (simp add: keeps_def py_raise_def reflpD)

lemma keeps_crash [keeps_rules]: "reflp R \<Longrightarrow> keeps R (py_crash c)"
  by (simp add: keeps_def py_crash_def reflpD)

lemma keeps_if [keeps_rules]: "keeps R m \<Longrightarrow> keeps R n \<Longrightarrow> keeps R (if b then m else n)"
  by simp

end
