(* ===== verification/External.thy ===== *)
theory External
  imports Prelude
begin

text \<open>
  What the extension uses of code that is not part of the repository: the LevelDB library
  (its sources are an empty submodule) and the CPython runtime. Both are parameters: records
  of functions that every definition using them takes as an argument. Nothing is assumed
  about them here; what a property relies on is a named predicate of this theory that
  states the documented behaviour.
\<close>

section \<open>Python values and argument parsing\<close>

type_synonym addr = nat

datatype pytype = T_LevelDB | T_Snapshot | T_WriteBatch | T_Iter | T_bool

datatype pyval =
    PyNone
  | PyBool bool
  | PyLong int
  | PyBytes bytes
  | PyByteArray bytes
  | PyUnicode "int list"
  | PyTuple "pyval list"
  | PyCallable addr
  | PyObj pytype addr

record pyargs =
  posargs :: "pyval list"
  kwargs :: "(string \<times> pyval) list"

text \<open>
  A value the argument parser stores: the object itself (units \<open>O\<close>, \<open>O!\<close>), the bytes of
  an acquired buffer (\<open>y*\<close>), a C string (\<open>s\<close>) or a C int (\<open>i\<close>). An optional argument
  that was not given is \<open>None\<close>: the parser leaves the C variable as it was.
\<close>

datatype parg =
    P_obj pyval
  | P_buf bytes
  | P_str bytes
  | P_int "32 word"

text \<open>
  \<open>parse_tuple\<close> is \<open>PyArg_ParseTuple(AndKeywords)\<close>: the format, the type objects its \<open>O!\<close>
  units are given, the keyword list and the call's arguments; \<open>None\<close> stands for failure.
  \<open>parse_one\<close> is \<open>PyArg_Parse\<close>. \<open>call_object\<close> calls a Python callable on two byte arrays;
  \<open>None\<close> stands for a raised exception.
\<close>

record py_api =
  parse_tuple :: "string \<Rightarrow> pytype list \<Rightarrow> string list \<Rightarrow> pyargs \<Rightarrow> parg option list option"
  parse_one :: "pyval \<Rightarrow> string \<Rightarrow> parg list option"
  call_object :: "addr \<Rightarrow> bytes \<Rightarrow> bytes \<Rightarrow> pyval option"

fun n_bufs :: "parg option list \<Rightarrow> int" where
  "n_bufs [] = 0"
| "n_bufs (Some (P_buf b) # ps) = 1 + n_bufs ps"
| "n_bufs (p # ps) = n_bufs ps"

definition arg_at :: "parg option list \<Rightarrow> nat \<Rightarrow> parg option" where
  "arg_at ps i = (if i < length ps then ps ! i else None)"

definition arg_buf :: "parg option list \<Rightarrow> nat \<Rightarrow> bytes" where
  "arg_buf ps i = (case arg_at ps i of Some (P_buf b) \<Rightarrow> b | _ \<Rightarrow> [])"

definition arg_str :: "parg option list \<Rightarrow> nat \<Rightarrow> bytes" where
  "arg_str ps i = (case arg_at ps i of Some (P_str s) \<Rightarrow> s | _ \<Rightarrow> [])"

definition arg_obj :: "parg option list \<Rightarrow> nat \<Rightarrow> pyval \<Rightarrow> pyval" where
  "arg_obj ps i dflt = (case arg_at ps i of Some (P_obj v) \<Rightarrow> v | _ \<Rightarrow> dflt)"

definition arg_int :: "parg option list \<Rightarrow> nat \<Rightarrow> 32 word \<Rightarrow> 32 word" where
  "arg_int ps i dflt = (case arg_at ps i of Some (P_int n) \<Rightarrow> n | _ \<Rightarrow> dflt)"

definition arg_opt :: "parg option list \<Rightarrow> nat \<Rightarrow> pyval option" where
  "arg_opt ps i = (case arg_at ps i of Some (P_obj v) \<Rightarrow> Some v | _ \<Rightarrow> None)"

lemmas arg_simps =
  arg_at_def arg_buf_def arg_str_def arg_obj_def arg_int_def arg_opt_def

text \<open>
  Documented behaviour of \<open>O!\<close>, for a format that begins with it: the stored object has the
  demanded type and is one of the arguments of the call.
\<close>

definition arg_values :: "pyargs \<Rightarrow> pyval set" where
  "arg_values args = set (posargs args) \<union> set (map snd (kwargs args))"

definition parse_respects_types :: "py_api \<Rightarrow> bool" where
  "parse_respects_types py \<longleftrightarrow>
     (\<forall>fmt ts kws args ps. parse_tuple py (''O!'' @ fmt) ts kws args = Some ps \<longrightarrow>
        (ts \<noteq> [] \<and> hd ts \<noteq> T_bool \<longrightarrow>
           (\<exists>a. arg_at ps 0 = Some (P_obj (PyObj (hd ts) a)) \<and> PyObj (hd ts) a \<in> arg_values args)))"

section \<open>The LevelDB library\<close>

type_synonym handle = nat

datatype status = S_OK | S_NotFound bytes | S_Error bytes

fun status_ok :: "status \<Rightarrow> bool" where
  "status_ok S_OK = True"
| "status_ok _ = False"

fun status_not_found :: "status \<Rightarrow> bool" where
  "status_not_found (S_NotFound _) = True"
| "status_not_found _ = False"

fun status_to_string :: "status \<Rightarrow> bytes" where
  "status_to_string S_OK = [79, 75]"
| "status_to_string (S_NotFound m) = m"
| "status_to_string (S_Error m) = m"

record write_options =
  wo_sync :: bool

record 'sn read_options =
  ro_verify_checksums :: bool
  ro_fill_cache :: bool
  ro_snapshot :: "'sn option"

text \<open>
  A comparator object: LevelDB's bytewise one, or the extension's wrapper around a Python
  callable (its name and the callable).
\<close>

datatype comparator = BytewiseComparator | PythonComparatorWrapper bytes addr

record options =
  o_comparator :: comparator
  o_create_if_missing :: bool
  o_error_if_exists :: bool
  o_paranoid_checks :: bool
  o_write_buffer_size :: "64 word"
  o_max_open_files :: "32 word"
  o_block_cache :: "64 word option"
  o_block_size :: "64 word"
  o_block_restart_interval :: "32 word"
  o_max_file_size :: "64 word"
  o_snappy_compression :: bool

text \<open>A \<open>leveldb::WriteBatch\<close> holds its operations in the order they were added.\<close>

datatype batch_op = BatchPut bytes bytes | BatchDelete bytes

text \<open>
  The library's operations. \<open>'d\<close> is an open database object, \<open>'it\<close> an iterator object,
  \<open>'sn\<close> a snapshot and \<open>'fs\<close> what the file system holds.
\<close>

record ('d, 'it, 'sn, 'fs) leveldb =
  Options0 :: options
  DB_Open :: "options \<Rightarrow> bytes \<Rightarrow> 'fs \<Rightarrow> (status \<times> 'd option) \<times> 'fs"
  DB_Close :: "'d \<Rightarrow> 'fs \<Rightarrow> 'fs"
  DB_Put :: "write_options \<Rightarrow> bytes \<Rightarrow> bytes \<Rightarrow> 'd \<Rightarrow> status \<times> 'd"
  DB_Get :: "'sn read_options \<Rightarrow> bytes \<Rightarrow> 'd \<Rightarrow> (status \<times> bytes) \<times> 'd"
  DB_Delete :: "write_options \<Rightarrow> bytes \<Rightarrow> 'd \<Rightarrow> status \<times> 'd"
  DB_Write :: "write_options \<Rightarrow> batch_op list \<Rightarrow> 'd \<Rightarrow> status \<times> 'd"
  DB_NewIterator :: "'sn read_options \<Rightarrow> 'd \<Rightarrow> 'it option \<times> 'd"
  DB_GetSnapshot :: "'d \<Rightarrow> 'sn \<times> 'd"
  DB_ReleaseSnapshot :: "'sn \<Rightarrow> 'd \<Rightarrow> 'd"
  DB_GetProperty :: "bytes \<Rightarrow> 'd \<Rightarrow> bytes option \<times> 'd"
  DB_CompactRange :: "bytes option \<Rightarrow> bytes option \<Rightarrow> 'd \<Rightarrow> 'd"
  DestroyDB :: "bytes \<Rightarrow> options \<Rightarrow> 'fs \<Rightarrow> status \<times> 'fs"
  RepairDB :: "bytes \<Rightarrow> options \<Rightarrow> 'fs \<Rightarrow> status \<times> 'fs"
  It_Valid :: "'it \<Rightarrow> bool"
  It_SeekToFirst :: "'it \<Rightarrow> 'it"
  It_SeekToLast :: "'it \<Rightarrow> 'it"
  It_Seek :: "bytes \<Rightarrow> 'it \<Rightarrow> 'it"
  It_Next :: "'it \<Rightarrow> 'it"
  It_Prev :: "'it \<Rightarrow> 'it"
  It_key :: "'it \<Rightarrow> bytes"
  It_value :: "'it \<Rightarrow> bytes"
  BytewiseCompare :: "bytes \<Rightarrow> bytes \<Rightarrow> int"

end
