(* ===== verification/Objects.thy ===== *)
theory Objects
  imports External
begin

text \<open>
  The extension's objects (\<open>leveldb_ext.h\<close>), the world they live in, and the object
  lifecycle: reference counts, \<open>tp_new\<close>, the destructors and the C++ objects they delete
  (first part of \<open>leveldb_object.cc\<close>).
\<close>

section \<open>The structs of leveldb_ext.h\<close>

record PyLevelDB =
  db_refcnt :: nat
  db_db :: "handle option"
  db_options :: "options option"
  db_cache :: "64 word option"
  db_comparator :: "comparator option"
  n_snapshots :: int
  n_iterators :: int

record PyLevelDBSnapshot =
  sn_refcnt :: nat
  sn_db :: "addr option"
  sn_snapshot :: "handle option"

record PyLevelDBIter =
  it_refcnt :: nat
  it_ref :: "addr option"
  it_db :: "addr option"
  it_iterator :: "handle option"
  it_bound :: "bytes option"
  it_is_reverse :: bool
  it_include_value :: bool

record PyWriteBatchEntry =
  is_put :: bool
  e_key :: bytes
  e_value :: bytes

record PyWriteBatch =
  wb_refcnt :: nat
  wb_ops :: "PyWriteBatchEntry list"

datatype pyobject =
    ObjDB PyLevelDB
  | ObjSnapshot PyLevelDBSnapshot
  | ObjIter PyLevelDBIter
  | ObjBatch PyWriteBatch

section \<open>The world\<close>

text \<open>
  \<open>heap\<close> holds the Python objects of the extension by address. \<open>dbs\<close>, \<open>its\<close> and \<open>sns\<close>
  are the live C++ objects \<open>leveldb::DB\<close>, \<open>leveldb::Iterator\<close> and \<open>leveldb::Snapshot\<close>,
  the latter two with the database they belong to; a deleted object is no longer in its
  map, so that using it is the fault \<open>UseAfterFree\<close>. \<open>exports\<close> counts the buffers of
  Python objects acquired and not yet released, \<open>foreign\<close> the references the extension
  holds on Python callables. \<open>alloc_fail\<close> says which of the next allocations fail.
\<close>

record ('d, 'it, 'sn, 'fs) world =
  heap :: "addr \<Rightarrow> pyobject option"
  next_addr :: addr
  dbs :: "handle \<Rightarrow> 'd option"
  its :: "handle \<Rightarrow> (handle \<times> 'it) option"
  sns :: "handle \<Rightarrow> (handle \<times> 'sn) option"
  next_handle :: handle
  fsys :: 'fs
  exports :: int
  foreign :: "addr \<Rightarrow> int"
  alloc_fail :: "bool list"

definition py_alloc :: "(('d, 'it, 'sn, 'fs) world, bool) py" where
  "py_alloc w =
     (case alloc_fail w of
        [] \<Rightarrow> (Ret True, w)
      | f # fs \<Rightarrow> (Ret (\<not> f), w\<lparr>alloc_fail := fs\<rparr>))"

text \<open>Access to the objects: a NULL pointer and a dead object are faults.\<close>

definition get_db :: "addr \<Rightarrow> (('d, 'it, 'sn, 'fs) world, PyLevelDB) py" where
  "get_db a w =
     (case heap w a of
        Some (ObjDB p) \<Rightarrow> (Ret p, w)
      | _ \<Rightarrow> (Crash UseAfterFree, w))"

definition set_db :: "addr \<Rightarrow> PyLevelDB \<Rightarrow> (('d, 'it, 'sn, 'fs) world, unit) py" where
  "set_db a p = py_modify (\<lambda>w. w\<lparr>heap := (heap w)(a \<mapsto> ObjDB p)\<rparr>)"

definition get_snapshot :: "addr \<Rightarrow> (('d, 'it, 'sn, 'fs) world, PyLevelDBSnapshot) py" where
  "get_snapshot a w =
     (case heap w a of
        Some (ObjSnapshot s) \<Rightarrow> (Ret s, w)
      | _ \<Rightarrow> (Crash UseAfterFree, w))"

definition set_snapshot :: "addr \<Rightarrow> PyLevelDBSnapshot \<Rightarrow> (('d, 'it, 'sn, 'fs) world, unit) py" where
  "set_snapshot a s = py_modify (\<lambda>w. w\<lparr>heap := (heap w)(a \<mapsto> ObjSnapshot s)\<rparr>)"

definition get_iter :: "addr \<Rightarrow> (('d, 'it, 'sn, 'fs) world, PyLevelDBIter) py" where
  "get_iter a w =
     (case heap w a of
        Some (ObjIter i) \<Rightarrow> (Ret i, w)
      | _ \<Rightarrow> (Crash UseAfterFree, w))"

definition set_iter :: "addr \<Rightarrow> PyLevelDBIter \<Rightarrow> (('d, 'it, 'sn, 'fs) world, unit) py" where
  "set_iter a i = py_modify (\<lambda>w. w\<lparr>heap := (heap w)(a \<mapsto> ObjIter i)\<rparr>)"

definition get_batch :: "addr \<Rightarrow> (('d, 'it, 'sn, 'fs) world, PyWriteBatch) py" where
  "get_batch a w =
     (case heap w a of
        Some (ObjBatch b) \<Rightarrow> (Ret b, w)
      | _ \<Rightarrow> (Crash UseAfterFree, w))"

definition set_batch :: "addr \<Rightarrow> PyWriteBatch \<Rightarrow> (('d, 'it, 'sn, 'fs) world, unit) py" where
  "set_batch a b = py_modify (\<lambda>w. w\<lparr>heap := (heap w)(a \<mapsto> ObjBatch b)\<rparr>)"

definition new_object :: "pyobject \<Rightarrow> (('d, 'it, 'sn, 'fs) world, addr) py" where
  "new_object ob w =
     (Ret (next_addr w), w\<lparr>heap := (heap w)(next_addr w \<mapsto> ob), next_addr := Suc (next_addr w)\<rparr>)"

definition free_object :: "addr \<Rightarrow> (('d, 'it, 'sn, 'fs) world, unit) py" where
  "free_object a = py_modify (\<lambda>w. w\<lparr>heap := (heap w)(a := None)\<rparr>)"

text \<open>A pointer that must not be NULL.\<close>

definition deref :: "'a option \<Rightarrow> ('w, 'a) py" where
  "deref p = (case p of None \<Rightarrow> py_crash NullDeref | Some x \<Rightarrow> py_ret x)"

text \<open>A method call on the \<open>leveldb::DB\<close> behind a handle.\<close>

definition call_db :: "handle \<Rightarrow> ('d \<Rightarrow> 'r \<times> 'd) \<Rightarrow> (('d, 'it, 'sn, 'fs) world, 'r) py" where
  "call_db h f w =
     (case dbs w h of
        None \<Rightarrow> (Crash UseAfterFree, w)
      | Some d \<Rightarrow> (case f d of (r, d') \<Rightarrow> (Ret r, w\<lparr>dbs := (dbs w)(h \<mapsto> d')\<rparr>)))"

text \<open>
  A read or a move of a \<open>leveldb::Iterator\<close>. The iterator uses its database, which must
  still exist.
\<close>

definition read_it :: "handle \<Rightarrow> ('it \<Rightarrow> 'r) \<Rightarrow> (('d, 'it, 'sn, 'fs) world, 'r) py" where
  "read_it h f w =
     (case its w h of
        None \<Rightarrow> (Crash UseAfterFree, w)
      | Some (dh, it) \<Rightarrow>
          (if dbs w dh = None then (Crash UseAfterFree, w) else (Ret (f it), w)))"

definition move_it :: "handle \<Rightarrow> ('it \<Rightarrow> 'it) \<Rightarrow> (('d, 'it, 'sn, 'fs) world, unit) py" where
  "move_it h f w =
     (case its w h of
        None \<Rightarrow> (Crash UseAfterFree, w)
      | Some (dh, it) \<Rightarrow>
          (if dbs w dh = None then (Crash UseAfterFree, w)
           else (Ret (), w\<lparr>its := (its w)(h \<mapsto> (dh, f it))\<rparr>)))"

text \<open>\<open>key()\<close> and \<open>value()\<close>, \<open>Next()\<close> and \<open>Prev()\<close> require \<open>Valid()\<close>.\<close>

definition read_valid_it ::
  "('d, 'it, 'sn, 'fs) leveldb \<Rightarrow> handle \<Rightarrow> ('it \<Rightarrow> 'r) \<Rightarrow> (('d, 'it, 'sn, 'fs) world, 'r) py" where
  "read_valid_it ldb h f =
     py_bind (read_it h (It_Valid ldb)) (\<lambda>v.
       if v then read_it h f else py_crash InvalidIterator)"

definition move_valid_it ::
  "('d, 'it, 'sn, 'fs) leveldb \<Rightarrow> handle \<Rightarrow> ('it \<Rightarrow> 'it) \<Rightarrow> (('d, 'it, 'sn, 'fs) world, unit) py" where
  "move_valid_it ldb h f =
     py_bind (read_it h (It_Valid ldb)) (\<lambda>v.
       if v then move_it h f else py_crash InvalidIterator)"

text \<open>\<open>delete\<close> on an iterator: none on NULL; the database must still exist.\<close>

definition delete_it :: "handle option \<Rightarrow> (('d, 'it, 'sn, 'fs) world, unit) py" where
  "delete_it p w =
     (case p of
        None \<Rightarrow> (Ret (), w)
      | Some h \<Rightarrow>
          (case its w h of
             None \<Rightarrow> (Crash UseAfterFree, w)
           | Some (dh, it) \<Rightarrow>
               (if dbs w dh = None then (Crash UseAfterFree, w)
                else (Ret (), w\<lparr>its := (its w)(h := None)\<rparr>))))"

text \<open>\<open>delete\<close> on a database: closing it writes to the file system.\<close>

definition delete_db ::
  "('d, 'it, 'sn, 'fs) leveldb \<Rightarrow> handle option \<Rightarrow> (('d, 'it, 'sn, 'fs) world, unit) py" where
  "delete_db ldb p w =
     (case p of
        None \<Rightarrow> (Ret (), w)
      | Some h \<Rightarrow>
          (case dbs w h of
             None \<Rightarrow> (Crash UseAfterFree, w)
           | Some d \<Rightarrow>
               (Ret (), w\<lparr>dbs := (dbs w)(h := None), fsys := DB_Close ldb d (fsys w)\<rparr>)))"

text \<open>
  \<open>~PythonComparatorWrapper\<close> drops its reference on the callable; the bytewise comparator
  is never deleted.
\<close>

definition delete_comparator :: "comparator option \<Rightarrow> (('d, 'it, 'sn, 'fs) world, unit) py" where
  "delete_comparator c =
     (case c of
        Some (PythonComparatorWrapper n f) \<Rightarrow>
          py_modify (\<lambda>w. w\<lparr>foreign := (foreign w)(f := foreign w f - 1)\<rparr>)
      | _ \<Rightarrow> py_ret ())"

section \<open>Construction\<close>

definition PyLevelDB_new :: "(('d, 'it, 'sn, 'fs) world, addr option) py" where
  "PyLevelDB_new =
     py_bind py_alloc (\<lambda>self.
       if self then
         py_bind (new_object (ObjDB \<lparr>db_refcnt = 1, db_db = None, db_options = None, db_cache = None,
             db_comparator = None, n_snapshots = 0, n_iterators = 0\<rparr>)) (\<lambda>a. py_ret (Some a))
       else py_ret None)"

definition PyWriteBatch_new :: "(('d, 'it, 'sn, 'fs) world, addr option) py" where
  "PyWriteBatch_new =
     py_bind py_alloc (\<lambda>self.
       if self then
         py_bind (new_object (ObjBatch \<lparr>wb_refcnt = 1, wb_ops = []\<rparr>)) (\<lambda>a. py_ret (Some a))
       else py_ret None)"

definition PyLevelDBSnapshot_new :: "(('d, 'it, 'sn, 'fs) world, addr option) py" where
  "PyLevelDBSnapshot_new =
     py_bind py_alloc (\<lambda>self.
       if self then
         py_bind (new_object (ObjSnapshot \<lparr>sn_refcnt = 1, sn_db = None, sn_snapshot = None\<rparr>))
           (\<lambda>a. py_ret (Some a))
       else py_ret None)"

section \<open>Reference counts and destruction\<close>

definition Py_INCREF_db :: "addr \<Rightarrow> (('d, 'it, 'sn, 'fs) world, unit) py" where
  "Py_INCREF_db a = py_bind (get_db a) (\<lambda>p. set_db a (p\<lparr>db_refcnt := db_refcnt p + 1\<rparr>))"

definition PyLevelDB_dealloc ::
  "('d, 'it, 'sn, 'fs) leveldb \<Rightarrow> addr \<Rightarrow> (('d, 'it, 'sn, 'fs) world, unit) py" where
  "PyLevelDB_dealloc ldb self =
     py_bind (get_db self) (\<lambda>p.
     py_bind (delete_db ldb (db_db p)) (\<lambda>_.
     py_bind (delete_comparator (db_comparator p)) (\<lambda>_.
     py_bind (set_db self (p\<lparr>db_db := None, db_options := None, db_cache := None,
         db_comparator := None, n_iterators := 0, n_snapshots := 0\<rparr>)) (\<lambda>_.
     free_object self))))"

text \<open>
  \<open>Py_DECREF\<close> on a database: the destructor runs when the count reaches zero. A NULL
  pointer is followed.
\<close>

definition Py_DECREF_db ::
  "('d, 'it, 'sn, 'fs) leveldb \<Rightarrow> addr option \<Rightarrow> (('d, 'it, 'sn, 'fs) world, unit) py" where
  "Py_DECREF_db ldb q =
     py_bind (deref q) (\<lambda>a.
     py_bind (get_db a) (\<lambda>p.
       if db_refcnt p \<le> 1 then PyLevelDB_dealloc ldb a
       else set_db a (p\<lparr>db_refcnt := db_refcnt p - 1\<rparr>)))"

definition Py_XDECREF_db ::
  "('d, 'it, 'sn, 'fs) leveldb \<Rightarrow> addr option \<Rightarrow> (('d, 'it, 'sn, 'fs) world, unit) py" where
  "Py_XDECREF_db ldb q = (if q = None then py_ret () else Py_DECREF_db ldb q)"

text \<open>\<open>self->db->_db->ReleaseSnapshot(self->snapshot)\<close>\<close>

definition release_snapshot ::
  "('d, 'it, 'sn, 'fs) leveldb \<Rightarrow> addr \<Rightarrow> handle \<Rightarrow> (('d, 'it, 'sn, 'fs) world, unit) py" where
  "release_snapshot ldb db s =
     py_bind (get_db db) (\<lambda>p.
     py_bind (deref (db_db p)) (\<lambda>h.
     py_bind (py_get (\<lambda>w. sns w s)) (\<lambda>sn.
       case sn of
         None \<Rightarrow> py_crash UseAfterFree
       | Some (dh, v) \<Rightarrow>
           (if dh \<noteq> h then py_crash UseAfterFree
            else
              py_bind (call_db h (\<lambda>d. ((), DB_ReleaseSnapshot ldb v d))) (\<lambda>_.
              py_modify (\<lambda>w. w\<lparr>sns := (sns w)(s := None)\<rparr>))))))"

definition PyLevelDBSnapshot_dealloc ::
  "('d, 'it, 'sn, 'fs) leveldb \<Rightarrow> addr \<Rightarrow> (('d, 'it, 'sn, 'fs) world, unit) py" where
  "PyLevelDBSnapshot_dealloc ldb self =
     py_bind (get_snapshot self) (\<lambda>s.
     py_bind (case (sn_db s, sn_snapshot s) of
                (Some db, Some sn) \<Rightarrow> release_snapshot ldb db sn
              | _ \<Rightarrow> py_ret ()) (\<lambda>_.
     py_bind (case sn_db s of
                Some db \<Rightarrow>
                  py_bind (get_db db) (\<lambda>p. set_db db (p\<lparr>n_snapshots := n_snapshots p - 1\<rparr>))
              | None \<Rightarrow> py_ret ()) (\<lambda>_.
     py_bind (Py_DECREF_db ldb (sn_db s)) (\<lambda>_.
     py_bind (set_snapshot self (s\<lparr>sn_db := None, sn_snapshot := None\<rparr>)) (\<lambda>_.
     free_object self)))))"

definition PyWriteBatch_dealloc :: "addr \<Rightarrow> (('d, 'it, 'sn, 'fs) world, unit) py" where
  "PyWriteBatch_dealloc self = py_bind (get_batch self) (\<lambda>b. free_object self)"

text \<open>\<open>PyLevelDBIter_clean\<close> and the destructor of iterator objects\<close>

definition PyLevelDBIter_clean ::
  "('d, 'it, 'sn, 'fs) leveldb \<Rightarrow> addr \<Rightarrow> (('d, 'it, 'sn, 'fs) world, unit) py" where
  "PyLevelDBIter_clean ldb iter =
     py_bind (get_iter iter) (\<lambda>i.
     py_bind (case it_db i of
                Some db \<Rightarrow>
                  py_bind (get_db db) (\<lambda>p. set_db db (p\<lparr>n_iterators := n_iterators p - 1\<rparr>))
              | None \<Rightarrow> py_ret ()) (\<lambda>_.
     py_bind (delete_it (it_iterator i)) (\<lambda>_.
     py_bind (Py_XDECREF_db ldb (it_ref i)) (\<lambda>_.
     set_iter iter (i\<lparr>it_ref := None, it_db := None, it_iterator := None, it_bound := None,
       it_include_value := False\<rparr>)))))"

definition PyLevelDBIter_dealloc ::
  "('d, 'it, 'sn, 'fs) leveldb \<Rightarrow> addr \<Rightarrow> (('d, 'it, 'sn, 'fs) world, unit) py" where
  "PyLevelDBIter_dealloc ldb iter =
     py_bind (PyLevelDBIter_clean ldb iter) (\<lambda>_. free_object iter)"

text \<open>\<open>Py_DECREF\<close> on an object of any of the four types, as the interpreter calls it\<close>

definition Py_DECREF ::
  "('d, 'it, 'sn, 'fs) leveldb \<Rightarrow> addr \<Rightarrow> (('d, 'it, 'sn, 'fs) world, unit) py" where
  "Py_DECREF ldb a =
     py_bind (py_get (\<lambda>w. heap w a)) (\<lambda>ob.
       case ob of
         None \<Rightarrow> py_crash UseAfterFree
       | Some (ObjDB p) \<Rightarrow> Py_DECREF_db ldb (Some a)
       | Some (ObjSnapshot s) \<Rightarrow>
           (if sn_refcnt s \<le> 1 then PyLevelDBSnapshot_dealloc ldb a
            else set_snapshot a (s\<lparr>sn_refcnt := sn_refcnt s - 1\<rparr>))
       | Some (ObjIter i) \<Rightarrow>
           (if it_refcnt i \<le> 1 then PyLevelDBIter_dealloc ldb a
            else set_iter a (i\<lparr>it_refcnt := it_refcnt i - 1\<rparr>))
       | Some (ObjBatch b) \<Rightarrow>
           (if wb_refcnt b \<le> 1 then PyWriteBatch_dealloc a
            else set_batch a (b\<lparr>wb_refcnt := wb_refcnt b - 1\<rparr>)))"

definition Py_INCREF :: "addr \<Rightarrow> (('d, 'it, 'sn, 'fs) world, unit) py" where
  "Py_INCREF a =
     py_bind (py_get (\<lambda>w. heap w a)) (\<lambda>ob.
       case ob of
         None \<Rightarrow> py_crash UseAfterFree
       | Some (ObjDB p) \<Rightarrow> Py_INCREF_db a
       | Some (ObjSnapshot s) \<Rightarrow> set_snapshot a (s\<lparr>sn_refcnt := sn_refcnt s + 1\<rparr>)
       | Some (ObjIter i) \<Rightarrow> set_iter a (i\<lparr>it_refcnt := it_refcnt i + 1\<rparr>)
       | Some (ObjBatch b) \<Rightarrow> set_batch a (b\<lparr>wb_refcnt := wb_refcnt b + 1\<rparr>))"

end
