(* ===== verification/WriteBatch.thy ===== *)
theory WriteBatch
  imports Objects
begin

text \<open>
  Argument parsing as the handlers use it, and the write-batch objects
  (\<open>PyWriteBatch_*\<close> of \<open>leveldb_object.cc\<close>).
\<close>

section \<open>Parsing and buffers\<close>

text \<open>
  A successful parse acquires one buffer for each \<open>y*\<close> unit; a failed one releases what
  it acquired before it returns.
\<close>

definition PyArg_ParseTupleAndKeywords ::
  "py_api \<Rightarrow> string \<Rightarrow> pytype list \<Rightarrow> string list \<Rightarrow> pyargs \<Rightarrow>
    (('d, 'it, 'sn, 'fs) world, parg option list) py" where
  "PyArg_ParseTupleAndKeywords py fmt ts kws args w =
     (case parse_tuple py fmt ts kws args of
        None \<Rightarrow> (Raise TypeError, w)
      | Some ps \<Rightarrow> (Ret ps, w\<lparr>exports := exports w + n_bufs ps\<rparr>))"

definition PY_LEVELDB_RELEASE_BUFFER :: "(('d, 'it, 'sn, 'fs) world, unit) py" where
  "PY_LEVELDB_RELEASE_BUFFER = py_modify (\<lambda>w. w\<lparr>exports := exports w - 1\<rparr>)"

text \<open>\<open>PyArg_Parse(v, "y*", &n)\<close>\<close>

definition PyArg_Parse_buffer :: "py_api \<Rightarrow> pyval \<Rightarrow> (('d, 'it, 'sn, 'fs) world, bytes) py" where
  "PyArg_Parse_buffer py v w =
     (case parse_one py v ''y*'' of
        Some [P_buf b] \<Rightarrow> (Ret b, w\<lparr>exports := exports w + 1\<rparr>)
      | _ \<Rightarrow> (Raise TypeError, w))"

section \<open>Write batches\<close>

definition PyWriteBatch_init :: "py_api \<Rightarrow> addr \<Rightarrow> pyargs \<Rightarrow> (('d, 'it, 'sn, 'fs) world, unit) py" where
  "PyWriteBatch_init py self args =
     py_bind (get_batch self) (\<lambda>b.
     py_bind (set_batch self (b\<lparr>wb_ops := []\<rparr>)) (\<lambda>_.
     py_bind (PyArg_ParseTupleAndKeywords py [] [] [] args) (\<lambda>_.
     py_ret ())))"

definition PyWriteBatch_Put :: "py_api \<Rightarrow> addr \<Rightarrow> pyargs \<Rightarrow> (('d, 'it, 'sn, 'fs) world, pyval) py" where
  "PyWriteBatch_Put py self args =
     py_bind (PyArg_ParseTupleAndKeywords py ''y*y*'' [] [] args) (\<lambda>ps.
     let op = \<lparr>is_put = True, e_key = arg_buf ps 0, e_value = arg_buf ps 1\<rparr> in
     py_bind PY_LEVELDB_RELEASE_BUFFER (\<lambda>_.
     py_bind PY_LEVELDB_RELEASE_BUFFER (\<lambda>_.
     py_bind (get_batch self) (\<lambda>b.
     py_bind (set_batch self (b\<lparr>wb_ops := wb_ops b @ [op]\<rparr>)) (\<lambda>_.
     py_ret PyNone)))))"

definition PyWriteBatch_Delete :: "py_api \<Rightarrow> addr \<Rightarrow> pyargs \<Rightarrow> (('d, 'it, 'sn, 'fs) world, pyval) py" where
  "PyWriteBatch_Delete py self args =
     py_bind (PyArg_ParseTupleAndKeywords py ''y*'' [] [] args) (\<lambda>ps.
     let op = \<lparr>is_put = False, e_key = arg_buf ps 0, e_value = []\<rparr> in
     py_bind PY_LEVELDB_RELEASE_BUFFER (\<lambda>_.
     py_bind (get_batch self) (\<lambda>b.
     py_bind (set_batch self (b\<lparr>wb_ops := wb_ops b @ [op]\<rparr>)) (\<lambda>_.
     py_ret PyNone))))"

text \<open>
  The loop of \<open>PyLevelDB_Write\<close> that copies the recorded entries into a
  \<open>leveldb::WriteBatch\<close>, by index.
\<close>

function fill_batch :: "PyWriteBatchEntry list \<Rightarrow> nat \<Rightarrow> batch_op list \<Rightarrow> batch_op list" where
  "fill_batch ops i batch =
     (if i < length ops then
        (let op = ops ! i in
           fill_batch ops (Suc i)
             (batch @ [if is_put op then BatchPut (e_key op) (e_value op)
                       else BatchDelete (e_key op)]))
      else batch)"
  by pat_completeness auto
termination
  by (relation "measure (\<lambda>(ops, i, batch). length ops - i)") auto

declare fill_batch.simps [simp del]

definition batch_op_of :: "PyWriteBatchEntry \<Rightarrow> batch_op" where
  "batch_op_of op = (if is_put op then BatchPut (e_key op) (e_value op) else BatchDelete (e_key op))"

lemma fill_batch_eq: "fill_batch ops i batch = batch @ map batch_op_of (drop i ops)"
proof (induction ops i batch rule: fill_batch.induct)
  case (1 ops i batch)
  show ?case
  proof (cases "i < length ops")
    case True
    with "1.IH" show ?thesis
      by (simp add: fill_batch.simps [of ops i] batch_op_of_def Let_def Cons_nth_drop_Suc [symmetric])
  next
    case False
    then show ?thesis by (simp add: fill_batch.simps [of ops i])
  qed
qed

end
