(* ===== verification/Comparator.thy ===== *)
theory Comparator
  imports Objects
begin

text \<open>
  Comparators (\<open>leveldb_object.cc\<close>): the wrapper class around a Python callable, and the
  choice of a comparator from the \<open>comparator\<close> argument.
\<close>

section \<open>PythonComparatorWrapper\<close>

text \<open>
  \<open>GetSign\<close>, Python 3 branch. \<open>bool\<close> is a subtype of \<open>int\<close>, so \<open>PyLong_Check\<close> accepts
  it. \<open>None\<close> stands for the \<open>TypeError\<close> of a value that is no integer.
\<close>

fun GetSign :: "pyval \<Rightarrow> int option" where
  "GetSign (PyLong i) = Some (if i < 0 then -1 else if i > 0 then 1 else 0)"
| "GetSign (PyBool b) = Some (if b then 1 else 0)"
| "GetSign _ = None"

text \<open>\<open>SetError\<close> prints and calls \<open>abort()\<close>.\<close>

definition SetError :: "('w, 'a) py" where
  "SetError = py_crash Abort"

definition PythonComparatorWrapper_Compare ::
  "py_api \<Rightarrow> addr \<Rightarrow> bytes \<Rightarrow> bytes \<Rightarrow> (('d, 'it, 'sn, 'fs) world, int) py" where
  "PythonComparatorWrapper_Compare py callable a b =
     py_bind py_alloc (\<lambda>a_ok.
     py_bind py_alloc (\<lambda>b_ok.
       if \<not> a_ok \<or> \<not> b_ok then SetError
       else
         (case call_object py callable a b of
            None \<Rightarrow> SetError
          | Some c \<Rightarrow>
              (case GetSign c of
                 None \<Rightarrow> SetError
               | Some cmp \<Rightarrow> py_ret cmp))))"

text \<open>\<open>comparator->Compare(a, b)\<close>, dispatched on the comparator object\<close>

definition Compare ::
  "py_api \<Rightarrow> ('d, 'it, 'sn, 'fs) leveldb \<Rightarrow> comparator \<Rightarrow> bytes \<Rightarrow> bytes \<Rightarrow>
    (('d, 'it, 'sn, 'fs) world, int) py" where
  "Compare py ldb c a b =
     (case c of
        BytewiseComparator \<Rightarrow> py_ret (BytewiseCompare ldb a b)
      | PythonComparatorWrapper n f \<Rightarrow> PythonComparatorWrapper_Compare py f a b)"

section \<open>Choosing the comparator\<close>

text \<open>
  The loop of \<open>pyleveldb_str_eq\<close> over two NUL-terminated arrays: \<open>s\<close>, a C string, and
  \<open>c\<close>, the code points of the unicode object. Reading at the length gives the terminator.
\<close>

definition at_nul :: "int list \<Rightarrow> nat \<Rightarrow> int" where
  "at_nul s i = (if i < length s then s ! i else 0)"

function str_eq_loop :: "int list \<Rightarrow> int list \<Rightarrow> nat \<Rightarrow> nat" where
  "str_eq_loop s c i =
     (if at_nul s i \<noteq> 0 \<and> at_nul c i \<noteq> 0 \<and> at_nul s i = at_nul c i
      then str_eq_loop s c (Suc i) else i)"
  by pat_completeness auto
termination
  by (relation "measure (\<lambda>(s, c, i). length s - i)") (auto simp: at_nul_def split: if_splits)

declare str_eq_loop.simps [simp del]

fun pyleveldb_str_eq :: "pyval \<Rightarrow> int list \<Rightarrow> bool" where
  "pyleveldb_str_eq (PyUnicode c) s =
     (let i = str_eq_loop s c 0 in at_nul s i = at_nul c i)"
| "pyleveldb_str_eq _ s = False"

text \<open>The C string \<open>"bytewise"\<close>\<close>

definition bytewise :: "int list" where
  "bytewise = [98, 121, 116, 101, 119, 105, 115, 101]"

fun PyCallable_Check :: "pyval \<Rightarrow> bool" where
  "PyCallable_Check (PyCallable f) = True"
| "PyCallable_Check _ = False"

text \<open>
  \<open>pyleveldb_get_comparator\<close>: no argument or \<open>"bytewise"\<close> gives the bytewise comparator,
  a pair of a name and a callable a new wrapper, which takes a reference on the callable;
  anything else raises \<open>TypeError\<close>.
\<close>

definition pyleveldb_get_comparator ::
  "py_api \<Rightarrow> pyval option \<Rightarrow> (('d, 'it, 'sn, 'fs) world, comparator) py" where
  "pyleveldb_get_comparator py cmp =
     (case cmp of
        None \<Rightarrow> py_ret BytewiseComparator
      | Some v \<Rightarrow>
          if pyleveldb_str_eq v bytewise then py_ret BytewiseComparator
          else
            (case parse_one py v ''(sO)'' of
               Some [P_str cmp_name, P_obj (PyCallable f)] \<Rightarrow>
                 py_bind (py_modify (\<lambda>w. w\<lparr>foreign := (foreign w)(f := foreign w f + 1)\<rparr>))
                   (\<lambda>_. py_ret (PythonComparatorWrapper (c_str cmp_name) f))
             | _ \<Rightarrow> py_raise TypeError))"

section \<open>Properties\<close>

lemma str_eq_loop_stop:
  "str_eq_loop s c i = j \<Longrightarrow>
     i \<le> j \<and> (\<forall>k. i \<le> k \<and> k < j \<longrightarrow> at_nul s k \<noteq> 0 \<and> at_nul s k = at_nul c k) \<and>
     \<not> (at_nul s j \<noteq> 0 \<and> at_nul c j \<noteq> 0 \<and> at_nul s j = at_nul c j)"
proof (induction s c i arbitrary: j rule: str_eq_loop.induct)
  case (1 s c i)
  show ?case
  proof (cases "at_nul s i \<noteq> 0 \<and> at_nul c i \<noteq> 0 \<and> at_nul s i = at_nul c i")
    case True
    with "1.prems" have "str_eq_loop s c (Suc i) = j" by (simp add: str_eq_loop.simps [of s c i])
    from "1.IH" [OF True this] True show ?thesis
      by (metis Suc_leD Suc_leI le_neq_implies_less)
  next
    case False
    with "1.prems" have "j = i" by (simp add: str_eq_loop.simps [of s c i] split: if_splits)
    with False show ?thesis by simp
  qed
qed

lemma nth_takeWhileD: "k < length (takeWhile P t) \<Longrightarrow> P (takeWhile P t ! k)"
  by (meson nth_mem set_takeWhileD)

lemma takeWhile_nul_at:
  "i \<le> length (takeWhile (\<lambda>x. x \<noteq> 0) s) \<Longrightarrow>
   at_nul s i = (if i < length (takeWhile (\<lambda>x. x \<noteq> 0) s) then takeWhile (\<lambda>x. x \<noteq> 0) s ! i else 0)"
proof (induction s arbitrary: i)
  case Nil
  then show ?case by (simp add: at_nul_def)
next
  case (Cons a s)
  show ?case
  proof (cases i)
    case 0
    then show ?thesis by (simp add: at_nul_def)
  next
    case (Suc m)
    with Cons.prems have "a \<noteq> 0" by (auto split: if_splits)
    with Suc Cons.prems Cons.IH [of m] show ?thesis
      by (simp add: at_nul_def split: if_splits)
  qed
qed

text \<open>
  The loop compares the two strings up to their first NUL: it stops at a common end or at
  the first difference.
\<close>

lemma str_eq_loop_correct:
  "at_nul s (str_eq_loop s c 0) = at_nul c (str_eq_loop s c 0) \<longleftrightarrow>
     takeWhile (\<lambda>x. x \<noteq> 0) s = takeWhile (\<lambda>x. x \<noteq> 0) c"
proof -
  let ?s = "takeWhile (\<lambda>x. x \<noteq> 0) s" and ?c = "takeWhile (\<lambda>x. x \<noteq> 0) c"
  let ?j = "str_eq_loop s c 0"
  have low: "\<And>k. k < ?j \<Longrightarrow> at_nul s k \<noteq> 0 \<and> at_nul s k = at_nul c k"
    and stop: "\<not> (at_nul s ?j \<noteq> 0 \<and> at_nul c ?j \<noteq> 0 \<and> at_nul s ?j = at_nul c ?j)"
    using str_eq_loop_stop [of s c 0, OF refl] by auto
  have nz: "k < length (takeWhile (\<lambda>x. x \<noteq> 0) t) \<Longrightarrow> at_nul t k \<noteq> 0" for t k
    using takeWhile_nul_at [of k t] nth_takeWhileD [of k "\<lambda>x. x \<noteq> 0" t] by simp
  have zero: "at_nul t (length (takeWhile (\<lambda>x. x \<noteq> 0) t)) = 0" for t
    using takeWhile_nul_at [of "length (takeWhile (\<lambda>x. x \<noteq> 0) t)" t] by simp
  have js: "?j \<le> length ?s" using low zero [of s] by (metis not_le)
  have jc: "?j \<le> length ?c" using low zero [of c] by (metis not_le)
  have pre: "k < ?j \<Longrightarrow> ?s ! k = ?c ! k" for k
    using low [of k] js jc takeWhile_nul_at [of k s] takeWhile_nul_at [of k c] by simp
  show ?thesis
  proof
    assume eq: "at_nul s ?j = at_nul c ?j"
    with stop have "at_nul s ?j = 0" "at_nul c ?j = 0" by auto
    with nz have "\<not> ?j < length ?s" "\<not> ?j < length ?c" by auto
    with js jc have "length ?s = ?j" "length ?c = ?j" by auto
    with pre show "?s = ?c" by (simp add: list_eq_iff_nth_eq)
  next
    assume eq: "?s = ?c"
    from takeWhile_nul_at [OF js] takeWhile_nul_at [OF jc] eq
    show "at_nul s ?j = at_nul c ?j" by simp
  qed
qed

text \<open>
  A unicode argument selects the bytewise comparator exactly when its characters up to
  the first NUL are the characters of "bytewise"; the reading loop always ends.
\<close>

theorem str_eq_unicode:
  "pyleveldb_str_eq (PyUnicode c) s \<longleftrightarrow>
     takeWhile (\<lambda>x. x \<noteq> 0) s = takeWhile (\<lambda>x. x \<noteq> 0) c"
  using str_eq_loop_correct by (simp add: Let_def)

end
