(* ===== verification/Database.thy ===== *)
theory Database
  imports WriteBatch Comparator
begin

text \<open>
  The \<open>LevelDB\<close> object (\<open>PyLevelDB_*\<close> of \<open>leveldb_object.cc\<close>): opening and re-opening,
  the data operations, and the module-level functions that destroy and repair a database.
  \<open>PyLevelDBIter_New\<close> and \<open>PyLevelDBSnapshot_New\<close> are here too, since the database's
  methods construct those objects.
\<close>

section \<open>Errors\<close>

definition PyLevelDB_set_error :: "status \<Rightarrow> ('w, 'a) py" where
  "PyLevelDB_set_error status = py_raise (LevelDBError (c_str (status_to_string status)))"

definition py_true :: "pyval \<Rightarrow> bool" where
  "py_true v \<longleftrightarrow> v = PyBool True"

section \<open>Opening\<close>

text \<open>Deleting what the object holds: the same five lines in \<open>init\<close>, twice\<close>

definition delete_all ::
  "('d, 'it, 'sn, 'fs) leveldb \<Rightarrow> addr \<Rightarrow> (('d, 'it, 'sn, 'fs) world, unit) py" where
  "delete_all ldb self =
     py_bind (get_db self) (\<lambda>p.
     py_bind (delete_db ldb (db_db p)) (\<lambda>_.
     py_bind (delete_comparator (db_comparator p)) (\<lambda>_.
     set_db self (p\<lparr>db_db := None, db_options := None, db_cache := None, db_comparator := None\<rparr>))))"

text \<open>\<open>leveldb::DB::Open\<close>: a new database object on success.\<close>

definition open_db ::
  "('d, 'it, 'sn, 'fs) leveldb \<Rightarrow> options \<Rightarrow> bytes \<Rightarrow>
    (('d, 'it, 'sn, 'fs) world, status \<times> handle option) py" where
  "open_db ldb opts dir w =
     (case DB_Open ldb opts dir (fsys w) of
        ((st, None), fs') \<Rightarrow> (Ret (st, None), w\<lparr>fsys := fs'\<rparr>)
      | ((st, Some d), fs') \<Rightarrow>
          (Ret (st, Some (next_handle w)),
           w\<lparr>fsys := fs', dbs := (dbs w)(next_handle w \<mapsto> d), next_handle := Suc (next_handle w)\<rparr>))"

definition init_kwlist :: "string list" where
  "init_kwlist =
     [''filename'', ''create_if_missing'', ''error_if_exists'', ''paranoid_checks'',
      ''write_buffer_size'', ''block_size'', ''max_open_files'', ''block_restart_interval'',
      ''block_cache_size'', ''max_file_size'', ''comparator'']"

text \<open>
  The options record \<open>init\<close> fills in. C \<open>int\<close>s that become \<open>size_t\<close> fields are
  sign-extended.
\<close>

definition init_options ::
  "('d, 'it, 'sn, 'fs) leveldb \<Rightarrow> parg option list \<Rightarrow> comparator \<Rightarrow> options" where
  "init_options ldb ps c =
     (Options0 ldb)\<lparr>
       o_create_if_missing := py_true (arg_obj ps 1 (PyBool True)),
       o_error_if_exists := py_true (arg_obj ps 2 (PyBool False)),
       o_paranoid_checks := py_true (arg_obj ps 3 (PyBool False)),
       o_write_buffer_size := scast (arg_int ps 4 (push_bit 20 4)),
       o_block_size := scast (arg_int ps 5 4096),
       o_max_open_files := arg_int ps 6 1000,
       o_block_restart_interval := arg_int ps 7 16,
       o_snappy_compression := True,
       o_block_cache := Some (scast (arg_int ps 8 (8 * push_bit 20 2))),
       o_max_file_size := scast (arg_int ps 9 (push_bit 20 2)),
       o_comparator := c\<rparr>"

definition any_negative :: "parg option list \<Rightarrow> bool" where
  "any_negative ps \<longleftrightarrow>
     sint (arg_int ps 4 (push_bit 20 4)) < 0 \<or> sint (arg_int ps 5 4096) < 0 \<or>
     sint (arg_int ps 6 1000) < 0 \<or> sint (arg_int ps 7 16) < 0 \<or>
     sint (arg_int ps 8 (8 * push_bit 20 2)) < 0"

definition PyLevelDB_init ::
  "py_api \<Rightarrow> ('d, 'it, 'sn, 'fs) leveldb \<Rightarrow> addr \<Rightarrow> pyargs \<Rightarrow> (('d, 'it, 'sn, 'fs) world, unit) py" where
  "PyLevelDB_init py ldb self args =
     py_bind (get_db self) (\<lambda>p.
     py_bind (if db_db p \<noteq> None \<or> db_cache p \<noteq> None \<or> db_comparator p \<noteq> None \<or> db_options p \<noteq> None
              then delete_all ldb self else py_ret ()) (\<lambda>_.
     py_bind (PyArg_ParseTupleAndKeywords py ''s|O!O!O!iiiiiiO'' [T_bool, T_bool, T_bool]
                init_kwlist args) (\<lambda>ps.
     if any_negative ps then py_raise ValueError
     else
     py_bind (pyleveldb_get_comparator py (arg_opt ps 10)) (\<lambda>c.
     let opts = init_options ldb ps c; dir = c_str (arg_str ps 0) in
     py_bind (get_db self) (\<lambda>p.
     py_bind (set_db self (p\<lparr>db_options := Some opts, db_cache := o_block_cache opts,
                db_comparator := Some c\<rparr>)) (\<lambda>_.
     py_bind (open_db ldb opts dir) (\<lambda>(status, h).
     py_bind (get_db self) (\<lambda>p.
     py_bind (set_db self (p\<lparr>db_db := h\<rparr>)) (\<lambda>_.
     if \<not> status_ok status
     then py_bind (delete_all ldb self) (\<lambda>_. PyLevelDB_set_error status)
     else py_ret ())))))))))"

section \<open>Data operations\<close>

text \<open>\<open>self->_db->f(...)\<close>: the object's database pointer is followed.\<close>

definition with_db ::
  "addr \<Rightarrow> ('d \<Rightarrow> 'r \<times> 'd) \<Rightarrow> (('d, 'it, 'sn, 'fs) world, 'r) py" where
  "with_db self f =
     py_bind (get_db self) (\<lambda>p. py_bind (deref (db_db p)) (\<lambda>h. call_db h f))"

definition PyLevelDB_Put ::
  "py_api \<Rightarrow> ('d, 'it, 'sn, 'fs) leveldb \<Rightarrow> addr \<Rightarrow> pyargs \<Rightarrow> (('d, 'it, 'sn, 'fs) world, pyval) py" where
  "PyLevelDB_Put py ldb self args =
     py_bind (PyArg_ParseTupleAndKeywords py ''y*y*|O!'' [T_bool]
                [''key'', ''value'', ''sync''] args) (\<lambda>ps.
     let options = \<lparr>wo_sync = py_true (arg_obj ps 2 (PyBool False))\<rparr> in
     py_bind (with_db self (DB_Put ldb options (arg_buf ps 0) (arg_buf ps 1))) (\<lambda>status.
     py_bind PY_LEVELDB_RELEASE_BUFFER (\<lambda>_.
     py_bind PY_LEVELDB_RELEASE_BUFFER (\<lambda>_.
     if \<not> status_ok status then PyLevelDB_set_error status else py_ret PyNone))))"

text \<open>
  \<open>PyLevelDB_Get_\<close>; \<open>db\<close> is the database pointer, \<open>snapshot\<close> NULL or the snapshot to
  read from, which must still exist.
\<close>

definition read_snapshot ::
  "handle option \<Rightarrow> handle option \<Rightarrow> (('d, 'it, 'sn, 'fs) world, 'sn option) py" where
  "read_snapshot db snapshot =
     (case snapshot of
        None \<Rightarrow> py_ret None
      | Some s \<Rightarrow>
          py_bind (py_get (\<lambda>w. sns w s)) (\<lambda>sn.
            case sn of
              None \<Rightarrow> py_crash UseAfterFree
            | Some (dh, v) \<Rightarrow>
                if Some dh = db then py_ret (Some v) else py_crash UseAfterFree))"

definition PyLevelDB_Get_with ::
  "py_api \<Rightarrow> ('d, 'it, 'sn, 'fs) leveldb \<Rightarrow> handle option \<Rightarrow> handle option \<Rightarrow> pyargs \<Rightarrow>
    (('d, 'it, 'sn, 'fs) world, pyval) py" where
  "PyLevelDB_Get_with py ldb db snapshot args =
     py_bind (PyArg_ParseTupleAndKeywords py ''y*|O!O!O'' [T_bool, T_bool]
                [''key'', ''verify_checksums'', ''fill_cache'', ''default''] args) (\<lambda>ps.
     py_bind (deref db) (\<lambda>h.
     py_bind (read_snapshot db snapshot) (\<lambda>sn.
     let options = \<lparr>ro_verify_checksums = py_true (arg_obj ps 1 (PyBool False)),
                    ro_fill_cache = py_true (arg_obj ps 2 (PyBool True)),
                    ro_snapshot = sn\<rparr>;
         failobj = arg_opt ps 3 in
     py_bind (call_db h (DB_Get ldb options (arg_buf ps 0))) (\<lambda>(status, value).
     py_bind PY_LEVELDB_RELEASE_BUFFER (\<lambda>_.
     if status_not_found status
     then (case failobj of Some v \<Rightarrow> py_ret v | None \<Rightarrow> py_raise KeyError)
     else if \<not> status_ok status then PyLevelDB_set_error status
     else
       py_bind py_alloc (\<lambda>ok.
         if ok then py_ret (PyByteArray value) else py_raise MemoryError))))))"

definition PyLevelDB_Get ::
  "py_api \<Rightarrow> ('d, 'it, 'sn, 'fs) leveldb \<Rightarrow> addr \<Rightarrow> pyargs \<Rightarrow> (('d, 'it, 'sn, 'fs) world, pyval) py" where
  "PyLevelDB_Get py ldb self args =
     py_bind (get_db self) (\<lambda>p. PyLevelDB_Get_with py ldb (db_db p) None args)"

definition PyLevelDBSnapshot_Get ::
  "py_api \<Rightarrow> ('d, 'it, 'sn, 'fs) leveldb \<Rightarrow> addr \<Rightarrow> pyargs \<Rightarrow> (('d, 'it, 'sn, 'fs) world, pyval) py" where
  "PyLevelDBSnapshot_Get py ldb self args =
     py_bind (get_snapshot self) (\<lambda>s.
     py_bind (deref (sn_db s)) (\<lambda>a.
     py_bind (get_db a) (\<lambda>p.
     PyLevelDB_Get_with py ldb (db_db p) (sn_snapshot s) args)))"

definition PyLevelDB_Delete ::
  "py_api \<Rightarrow> ('d, 'it, 'sn, 'fs) leveldb \<Rightarrow> addr \<Rightarrow> pyargs \<Rightarrow> (('d, 'it, 'sn, 'fs) world, pyval) py" where
  "PyLevelDB_Delete py ldb self args =
     py_bind (PyArg_ParseTupleAndKeywords py ''y*|O!'' [T_bool] [''key'', ''sync''] args) (\<lambda>ps.
     let options = \<lparr>wo_sync = py_true (arg_obj ps 1 (PyBool False))\<rparr> in
     py_bind (with_db self (DB_Delete ldb options (arg_buf ps 0))) (\<lambda>status.
     py_bind PY_LEVELDB_RELEASE_BUFFER (\<lambda>_.
     if \<not> status_ok status then PyLevelDB_set_error status else py_ret PyNone)))"

definition PyLevelDB_Write ::
  "py_api \<Rightarrow> ('d, 'it, 'sn, 'fs) leveldb \<Rightarrow> addr \<Rightarrow> pyargs \<Rightarrow> (('d, 'it, 'sn, 'fs) world, pyval) py" where
  "PyLevelDB_Write py ldb self args =
     py_bind (PyArg_ParseTupleAndKeywords py ''O!|O!'' [T_WriteBatch, T_bool]
                [''write_batch'', ''sync''] args) (\<lambda>ps.
     let options = \<lparr>wo_sync = py_true (arg_obj ps 1 (PyBool False))\<rparr> in
     case arg_obj ps 0 PyNone of
       PyObj T_WriteBatch write_batch \<Rightarrow>
         py_bind (get_batch write_batch) (\<lambda>b.
         let batch = fill_batch (wb_ops b) 0 [] in
         py_bind (with_db self (DB_Write ldb options batch)) (\<lambda>status.
         if \<not> status_ok status then PyLevelDB_set_error status else py_ret PyNone))
     | _ \<Rightarrow> py_crash NullDeref)"

definition PyLevelDB_GetStatus ::
  "('d, 'it, 'sn, 'fs) leveldb \<Rightarrow> addr \<Rightarrow> (('d, 'it, 'sn, 'fs) world, pyval) py" where
  "PyLevelDB_GetStatus ldb self =
     py_bind (with_db self (DB_GetProperty ldb
                [108, 101, 118, 101, 108, 100, 98, 46, 115, 116, 97, 116, 115])) (\<lambda>value.
     case value of
       None \<Rightarrow> py_raise ValueError
     | Some v \<Rightarrow>
         py_bind py_alloc (\<lambda>ok.
           if ok then py_ret (PyUnicode (map uint v)) else py_raise MemoryError))"

definition PyLevelDB_CompactRange ::
  "py_api \<Rightarrow> ('d, 'it, 'sn, 'fs) leveldb \<Rightarrow> addr \<Rightarrow> pyargs \<Rightarrow> (('d, 'it, 'sn, 'fs) world, pyval) py" where
  "PyLevelDB_CompactRange py ldb self args =
     py_bind (PyArg_ParseTupleAndKeywords py ''|OO'' [] [''start'', ''end''] args) (\<lambda>ps.
     let start_obj = arg_obj ps 0 PyNone; end_obj = arg_obj ps 1 PyNone in
     py_bind (if start_obj \<noteq> PyNone
              then py_bind (PyArg_Parse_buffer py start_obj) (\<lambda>a. py_ret (Some a))
              else py_ret None) (\<lambda>a.
     py_bind (if end_obj \<noteq> PyNone
              then py_bind (PyArg_Parse_buffer py end_obj) (\<lambda>b. py_ret (Some b))
              else py_ret None) (\<lambda>b.
     py_bind (with_db self (\<lambda>d. ((), DB_CompactRange ldb a b d))) (\<lambda>_.
     py_bind (if a \<noteq> None then PY_LEVELDB_RELEASE_BUFFER else py_ret ()) (\<lambda>_.
     py_bind (if b \<noteq> None then PY_LEVELDB_RELEASE_BUFFER else py_ret ()) (\<lambda>_.
     py_ret PyNone))))))"

section \<open>Snapshots\<close>

definition get_new_snapshot ::
  "('d, 'it, 'sn, 'fs) leveldb \<Rightarrow> addr \<Rightarrow> (('d, 'it, 'sn, 'fs) world, handle) py" where
  "get_new_snapshot ldb self =
     py_bind (get_db self) (\<lambda>p.
     py_bind (deref (db_db p)) (\<lambda>h.
     py_bind (call_db h (DB_GetSnapshot ldb)) (\<lambda>v.
     py_bind (py_get next_handle) (\<lambda>s.
     py_bind (py_modify (\<lambda>w. w\<lparr>sns := (sns w)(s \<mapsto> (h, v)), next_handle := Suc s\<rparr>)) (\<lambda>_.
     py_ret s)))))"

definition PyLevelDBSnapshot_New ::
  "('d, 'it, 'sn, 'fs) leveldb \<Rightarrow> addr \<Rightarrow> handle \<Rightarrow> (('d, 'it, 'sn, 'fs) world, pyval) py" where
  "PyLevelDBSnapshot_New ldb db snapshot =
     py_bind py_alloc (\<lambda>ok.
     if \<not> ok then py_bind (release_snapshot ldb db snapshot) (\<lambda>_. py_raise MemoryError)
     else
       py_bind (Py_INCREF_db db) (\<lambda>_.
       py_bind (new_object (ObjSnapshot \<lparr>sn_refcnt = 1, sn_db = Some db, sn_snapshot = Some snapshot\<rparr>)) (\<lambda>s.
       py_bind (get_db db) (\<lambda>p.
       py_bind (set_db db (p\<lparr>n_snapshots := n_snapshots p + 1\<rparr>)) (\<lambda>_.
       py_ret (PyObj T_Snapshot s))))))"

definition PyLevelDB_CreateSnapshot ::
  "('d, 'it, 'sn, 'fs) leveldb \<Rightarrow> addr \<Rightarrow> (('d, 'it, 'sn, 'fs) world, pyval) py" where
  "PyLevelDB_CreateSnapshot ldb self =
     py_bind (get_new_snapshot ldb self) (\<lambda>snapshot. PyLevelDBSnapshot_New ldb self snapshot)"

definition PyLevelDBSnapshot_init ::
  "py_api \<Rightarrow> ('d, 'it, 'sn, 'fs) leveldb \<Rightarrow> addr \<Rightarrow> pyargs \<Rightarrow> (('d, 'it, 'sn, 'fs) world, unit) py" where
  "PyLevelDBSnapshot_init py ldb self args =
     py_bind (get_snapshot self) (\<lambda>s.
     py_bind (case (sn_db s, sn_snapshot s) of
                (Some db, Some sn) \<Rightarrow>
                  py_bind (get_db db) (\<lambda>p.
                  py_bind (set_db db (p\<lparr>n_snapshots := n_snapshots p - 1\<rparr>)) (\<lambda>_.
                  py_bind (release_snapshot ldb db sn) (\<lambda>_.
                  Py_DECREF_db ldb (Some db))))
              | _ \<Rightarrow> py_ret ()) (\<lambda>_.
     py_bind (set_snapshot self (s\<lparr>sn_db := None, sn_snapshot := None\<rparr>)) (\<lambda>_.
     py_bind (PyArg_ParseTupleAndKeywords py ''O!'' [T_LevelDB] [''db''] args) (\<lambda>ps.
     case arg_obj ps 0 PyNone of
       PyObj T_LevelDB db \<Rightarrow>
         py_bind (get_new_snapshot ldb db) (\<lambda>snapshot.
         py_bind (set_snapshot self (s\<lparr>sn_db := Some db, sn_snapshot := Some snapshot\<rparr>)) (\<lambda>_.
         py_bind (Py_INCREF_db db) (\<lambda>_.
         py_bind (get_db db) (\<lambda>p.
         set_db db (p\<lparr>n_snapshots := n_snapshots p + 1\<rparr>)))))
     | _ \<Rightarrow> py_crash NullDeref))))"

section \<open>Module functions\<close>

definition pyleveldb_destroy_db ::
  "py_api \<Rightarrow> ('d, 'it, 'sn, 'fs) leveldb \<Rightarrow> pyargs \<Rightarrow> (('d, 'it, 'sn, 'fs) world, pyval) py" where
  "pyleveldb_destroy_db py ldb args =
     py_bind (PyArg_ParseTupleAndKeywords py ''s'' [] [] args) (\<lambda>ps.
     py_bind (\<lambda>w. case DestroyDB ldb (c_str (arg_str ps 0)) (Options0 ldb) (fsys w) of
                     (st, fs') \<Rightarrow> (Ret st, w\<lparr>fsys := fs'\<rparr>)) (\<lambda>status.
     if \<not> status_ok status then PyLevelDB_set_error status else py_ret PyNone))"

text \<open>
  A comparator that cannot be loaded raises \<open>LevelDBError\<close>: the message set here replaces
  the \<open>TypeError\<close> of \<open>pyleveldb_get_comparator\<close>.
\<close>

definition pyleveldb_repair_db ::
  "py_api \<Rightarrow> ('d, 'it, 'sn, 'fs) leveldb \<Rightarrow> pyargs \<Rightarrow> (('d, 'it, 'sn, 'fs) world, pyval) py" where
  "pyleveldb_repair_db py ldb args =
     py_bind (PyArg_ParseTupleAndKeywords py ''s|O'' [] [''filename'', ''comparator''] args) (\<lambda>ps.
     py_bind (\<lambda>w. case pyleveldb_get_comparator py (arg_opt ps 1) w of
                     (Raise _, w') \<Rightarrow>
                       (Raise (LevelDBError (map (\<lambda>c. of_nat (of_char c)) ''error loading comparator'')), w')
                   | r \<Rightarrow> r) (\<lambda>c.
     py_bind (\<lambda>w. case RepairDB ldb (c_str (arg_str ps 0)) ((Options0 ldb)\<lparr>o_comparator := c\<rparr>) (fsys w) of
                     (st, fs') \<Rightarrow> (Ret st, w\<lparr>fsys := fs'\<rparr>)) (\<lambda>status.
     if \<not> status_ok status then PyLevelDB_set_error status else py_ret PyNone)))"

end
