(* ===== verification/RangeIter.thy ===== *)
theory RangeIter
  imports Database
begin

text \<open>
  Range iteration (\<open>PyLevelDB_RangeIter_\<close> and \<open>PyLevelDBIter_*\<close> of \<open>leveldb_object.cc\<close>):
  positioning a LevelDB iterator for a range, and the Python iterator that walks it.
\<close>

section \<open>Construction\<close>

definition PyLevelDBIter_New ::
  "addr option \<Rightarrow> addr option \<Rightarrow> handle option \<Rightarrow> bytes option \<Rightarrow> bool \<Rightarrow> bool \<Rightarrow>
    (('d, 'it, 'sn, 'fs) world, pyval) py" where
  "PyLevelDBIter_New ref db iterator bound include_value is_reverse =
     py_bind py_alloc (\<lambda>ok.
     if \<not> ok then py_bind (delete_it iterator) (\<lambda>_. py_raise MemoryError)
     else
       py_bind (case ref of Some a \<Rightarrow> Py_INCREF_db a | None \<Rightarrow> py_ret ()) (\<lambda>_.
       py_bind (new_object (ObjIter \<lparr>it_refcnt = 1, it_ref = ref, it_db = db, it_iterator = iterator,
                  it_bound = bound, it_is_reverse = is_reverse, it_include_value = include_value\<rparr>)) (\<lambda>i.
       py_bind (case db of
                  Some a \<Rightarrow>
                    py_bind (get_db a) (\<lambda>p. set_db a (p\<lparr>n_iterators := n_iterators p + 1\<rparr>))
                | None \<Rightarrow> py_ret ()) (\<lambda>_.
       py_ret (PyObj T_Iter i)))))"

text \<open>\<open>self->_db->NewIterator(read_options)\<close>\<close>

definition new_iterator ::
  "('d, 'it, 'sn, 'fs) leveldb \<Rightarrow> addr \<Rightarrow> 'sn read_options \<Rightarrow>
    (('d, 'it, 'sn, 'fs) world, handle option) py" where
  "new_iterator ldb self options =
     py_bind (get_db self) (\<lambda>p.
     py_bind (deref (db_db p)) (\<lambda>h.
     py_bind (call_db h (DB_NewIterator ldb options)) (\<lambda>r.
     case r of
       None \<Rightarrow> py_ret None
     | Some it \<Rightarrow>
         py_bind (py_get next_handle) (\<lambda>i.
         py_bind (py_modify (\<lambda>w. w\<lparr>its := (its w)(i \<mapsto> (h, it)), next_handle := Suc i\<rparr>)) (\<lambda>_.
         py_ret (Some i))))))"

text \<open>
  Moving the new iterator to its first entry. Forwards: the first entry, or the first one
  not below \<open>key\<close> (the lower bound). Backwards: the last entry, or the last one not above
  \<open>key\<close> (the upper bound), found by seeking to \<open>key\<close> and stepping back unless the entry
  there compares equal.
\<close>

definition position_iterator ::
  "py_api \<Rightarrow> ('d, 'it, 'sn, 'fs) leveldb \<Rightarrow> addr \<Rightarrow> handle \<Rightarrow> bool \<Rightarrow> bool \<Rightarrow> bool \<Rightarrow> bytes \<Rightarrow>
    (('d, 'it, 'sn, 'fs) world, unit) py" where
  "position_iterator py ldb self iter is_reverse is_from is_to key =
     (if \<not> is_reverse then
        (if \<not> is_from then move_it iter (It_SeekToFirst ldb)
         else move_it iter (It_Seek ldb key))
      else
        (if \<not> is_to then move_it iter (It_SeekToLast ldb)
         else
           py_bind (move_it iter (It_Seek ldb key)) (\<lambda>_.
           py_bind (read_it iter (It_Valid ldb)) (\<lambda>valid.
           if \<not> valid then move_it iter (It_SeekToLast ldb)
           else
             py_bind (read_valid_it ldb iter (It_key ldb)) (\<lambda>b.
             py_bind (get_db self) (\<lambda>p.
             py_bind (deref (db_options p)) (\<lambda>opts.
             py_bind (Compare py ldb (o_comparator opts) key b) (\<lambda>c.
             if c \<noteq> 0 then move_valid_it ldb iter (It_Prev ldb) else py_ret ()))))))))"

definition range_kwlist :: "string list" where
  "range_kwlist =
     [''key_from'', ''key_to'', ''verify_checksums'', ''fill_cache'', ''include_value'', ''reverse'']"

definition PyLevelDB_RangeIter_with ::
  "py_api \<Rightarrow> ('d, 'it, 'sn, 'fs) leveldb \<Rightarrow> addr \<Rightarrow> handle option \<Rightarrow> pyargs \<Rightarrow>
    (('d, 'it, 'sn, 'fs) world, pyval) py" where
  "PyLevelDB_RangeIter_with py ldb self snapshot args =
     py_bind (PyArg_ParseTupleAndKeywords py ''|OOO!O!O!O!'' [T_bool, T_bool, T_bool, T_bool]
                range_kwlist args) (\<lambda>ps.
     let a_obj = arg_obj ps 0 PyNone; b_obj = arg_obj ps 1 PyNone;
         include_value = py_true (arg_obj ps 4 (PyBool True));
         is_reverse = py_true (arg_obj ps 5 (PyBool False));
         is_from = (a_obj \<noteq> PyNone); is_to = (b_obj \<noteq> PyNone) in
     py_bind (if is_from then PyArg_Parse_buffer py a_obj else py_ret []) (\<lambda>from.
     py_bind (if is_to then PyArg_Parse_buffer py b_obj else py_ret []) (\<lambda>to.
     let key = (if is_reverse then to else from) in
     py_bind (if is_from then PY_LEVELDB_RELEASE_BUFFER else py_ret ()) (\<lambda>_.
     py_bind (if is_to then PY_LEVELDB_RELEASE_BUFFER else py_ret ()) (\<lambda>_.
     py_bind (get_db self) (\<lambda>p.
     py_bind (read_snapshot (db_db p) snapshot) (\<lambda>sn.
     py_bind (new_iterator ldb self
                \<lparr>ro_verify_checksums = py_true (arg_obj ps 2 (PyBool False)),
                 ro_fill_cache = py_true (arg_obj ps 3 (PyBool True)),
                 ro_snapshot = sn\<rparr>) (\<lambda>iter.
     case iter of
       None \<Rightarrow> py_raise MemoryError
     | Some it \<Rightarrow>
         py_bind (position_iterator py ldb self it is_reverse is_from is_to key) (\<lambda>_.
         py_bind (read_it it (It_Valid ldb)) (\<lambda>valid.
         if \<not> valid then
           py_bind (delete_it (Some it)) (\<lambda>_. PyLevelDBIter_New None None None None False False)
         else
           let s = (if \<not> is_reverse \<and> is_to then Some to
                    else if is_reverse \<and> is_from then Some from else None) in
           PyLevelDBIter_New (Some self) (Some self) (Some it) s include_value is_reverse))))))))))"

definition PyLevelDB_RangeIter ::
  "py_api \<Rightarrow> ('d, 'it, 'sn, 'fs) leveldb \<Rightarrow> addr \<Rightarrow> pyargs \<Rightarrow> (('d, 'it, 'sn, 'fs) world, pyval) py" where
  "PyLevelDB_RangeIter py ldb self args = PyLevelDB_RangeIter_with py ldb self None args"

definition PyLevelDBSnapshot_RangeIter ::
  "py_api \<Rightarrow> ('d, 'it, 'sn, 'fs) leveldb \<Rightarrow> addr \<Rightarrow> pyargs \<Rightarrow> (('d, 'it, 'sn, 'fs) world, pyval) py" where
  "PyLevelDBSnapshot_RangeIter py ldb self args =
     py_bind (get_snapshot self) (\<lambda>s.
     py_bind (deref (sn_db s)) (\<lambda>a.
     PyLevelDB_RangeIter_with py ldb a (sn_snapshot s) args))"

section \<open>Iteration\<close>

text \<open>
  \<open>PyLevelDBIter_next\<close>; \<open>None\<close> is a NULL result with no exception set, which ends the
  iteration.
\<close>

definition iter_past_bound ::
  "py_api \<Rightarrow> ('d, 'it, 'sn, 'fs) leveldb \<Rightarrow> PyLevelDBIter \<Rightarrow> handle \<Rightarrow>
    (('d, 'it, 'sn, 'fs) world, bool) py" where
  "iter_past_bound py ldb i h =
     (case it_bound i of
        None \<Rightarrow> py_ret False
      | Some a \<Rightarrow>
          py_bind (read_valid_it ldb h (It_key ldb)) (\<lambda>b.
          py_bind (deref (it_db i)) (\<lambda>db.
          py_bind (get_db db) (\<lambda>p.
          py_bind (deref (db_options p)) (\<lambda>opts.
          py_bind (Compare py ldb (o_comparator opts) a b) (\<lambda>c.
          py_ret ((\<not> it_is_reverse i \<and> \<not> 0 \<le> c) \<or> (it_is_reverse i \<and> \<not> 0 \<ge> c))))))))"

definition PyLevelDBIter_next ::
  "py_api \<Rightarrow> ('d, 'it, 'sn, 'fs) leveldb \<Rightarrow> addr \<Rightarrow> (('d, 'it, 'sn, 'fs) world, pyval option) py" where
  "PyLevelDBIter_next py ldb iter =
     py_bind (get_iter iter) (\<lambda>i.
     py_bind (if it_ref i = None then py_ret True
              else
                py_bind (deref (it_iterator i)) (\<lambda>h.
                py_bind (read_it h (It_Valid ldb)) (\<lambda>v. py_ret (\<not> v)))) (\<lambda>done.
     if done then py_bind (PyLevelDBIter_clean ldb iter) (\<lambda>_. py_ret None)
     else
     py_bind (deref (it_iterator i)) (\<lambda>h.
     py_bind (iter_past_bound py ldb i h) (\<lambda>past.
     if past then py_bind (PyLevelDBIter_clean ldb iter) (\<lambda>_. py_ret None)
     else
     py_bind (read_valid_it ldb h (It_key ldb)) (\<lambda>k.
     py_bind py_alloc (\<lambda>ok.
     if \<not> ok then py_raise MemoryError
     else
     py_bind (if it_include_value i
              then
                py_bind (read_valid_it ldb h (It_value ldb)) (\<lambda>v.
                py_bind py_alloc (\<lambda>ok.
                if \<not> ok then py_raise MemoryError
                else
                py_bind py_alloc (\<lambda>ok.
                if \<not> ok then py_raise MemoryError
                else py_ret (PyTuple [PyByteArray k, PyByteArray v]))))
              else py_ret (PyByteArray k)) (\<lambda>ret.
     py_bind (if it_is_reverse i then move_valid_it ldb h (It_Prev ldb)
              else move_valid_it ldb h (It_Next ldb)) (\<lambda>_.
     py_ret (Some ret)))))))))"

end
