(* ===== verification/Contract.thy ===== *)
theory Contract
  imports RangeIter
begin

text \<open>
  What the properties rely on of the LevelDB library, as predicates that state its
  documented behaviour (\<open>leveldb/db.h\<close>, \<open>iterator.h\<close>, \<open>comparator.h\<close>,
  \<open>write_batch.h\<close>), and consequences of these predicates the component proofs share.
\<close>

section \<open>Comparators\<close>

text \<open>A comparator's function is a three-way comparison for a total order.\<close>

definition cmp_order :: "(bytes \<Rightarrow> bytes \<Rightarrow> int) \<Rightarrow> bool" where
  "cmp_order cmp \<longleftrightarrow>
     (\<forall>a b. (0 < cmp a b) = (cmp b a < 0)) \<and>
     (\<forall>a b c. cmp a b < 0 \<longrightarrow> cmp b c < 0 \<longrightarrow> cmp a c < 0) \<and>
     (\<forall>a b c. cmp a b \<le> 0 \<longrightarrow> cmp b c < 0 \<longrightarrow> cmp a c < 0) \<and>
     (\<forall>a b c. cmp a b < 0 \<longrightarrow> cmp b c \<le> 0 \<longrightarrow> cmp a c < 0)"

lemma cmp_order_flip: "cmp_order cmp \<Longrightarrow> (0 < cmp a b) = (cmp b a < 0)"
  unfolding cmp_order_def by blast

lemma cmp_order_flip_le: "cmp_order cmp \<Longrightarrow> (0 \<le> cmp a b) = (cmp b a \<le> 0)"
  using cmp_order_flip [of cmp b a] by (metis not_le)

lemma cmp_order_trans: "cmp_order cmp \<Longrightarrow> cmp a b < 0 \<Longrightarrow> cmp b c < 0 \<Longrightarrow> cmp a c < 0"
  unfolding cmp_order_def by blast

lemma cmp_order_le_less: "cmp_order cmp \<Longrightarrow> cmp a b \<le> 0 \<Longrightarrow> cmp b c < 0 \<Longrightarrow> cmp a c < 0"
  unfolding cmp_order_def by blast

lemma cmp_order_less_le: "cmp_order cmp \<Longrightarrow> cmp a b < 0 \<Longrightarrow> cmp b c \<le> 0 \<Longrightarrow> cmp a c < 0"
  unfolding cmp_order_def by blast

text \<open>
  \<open>compare_is py ldb c cmp\<close>: comparing with the object \<open>c\<close> computes \<open>cmp\<close> and has no
  other effect, as long as allocation succeeds.
\<close>

definition compare_is ::
  "py_api \<Rightarrow> ('d, 'it, 'sn, 'fs) leveldb \<Rightarrow> comparator \<Rightarrow> (bytes \<Rightarrow> bytes \<Rightarrow> int) \<Rightarrow> bool" where
  "compare_is py ldb c cmp \<longleftrightarrow>
     (\<forall>a b w. alloc_fail (w :: ('d, 'it, 'sn, 'fs) world) = [] \<longrightarrow>
        Compare py ldb c a b w = (Ret (cmp a b), w))"

lemma compare_is_bytewise: "compare_is py ldb BytewiseComparator (BytewiseCompare ldb)"
  by (simp add: compare_is_def Compare_def py_simps)

text \<open>A Python callable that returns integers is used by the sign of its result.\<close>

lemma compare_is_python:
  assumes "\<And>a b. call_object py f a b = Some (PyLong (g a b))"
  shows "compare_is py ldb (PythonComparatorWrapper n f) (\<lambda>a b. sgn (g a b))"
  using assms
  by (auto simp: compare_is_def Compare_def PythonComparatorWrapper_Compare_def py_alloc_def
      py_simps sgn_if)

section \<open>Iterators\<close>

type_synonym entry = "bytes \<times> bytes"

text \<open>
  \<open>view x\<close> gives the entries the iterator \<open>x\<close> ranges over, sorted by key, and its
  position among them; \<open>None\<close> is an iterator that is not valid. \<open>Seek\<close> goes to the first
  entry whose key is not below the target.
\<close>

definition sorted_entries :: "(bytes \<Rightarrow> bytes \<Rightarrow> int) \<Rightarrow> entry list \<Rightarrow> bool" where
  "sorted_entries cmp es \<longleftrightarrow> sorted_wrt (\<lambda>x y. cmp (fst x) (fst y) < 0) es"

definition below :: "(bytes \<Rightarrow> bytes \<Rightarrow> int) \<Rightarrow> bytes \<Rightarrow> entry \<Rightarrow> bool" where
  "below cmp k e \<longleftrightarrow> cmp (fst e) k < 0"

definition iterator_contract ::
  "('d, 'it, 'sn, 'fs) leveldb \<Rightarrow> (bytes \<Rightarrow> bytes \<Rightarrow> int) \<Rightarrow> ('it \<Rightarrow> entry list \<times> nat option) \<Rightarrow> bool" where
  "iterator_contract ldb cmp view \<longleftrightarrow>
     (\<forall>x. sorted_entries cmp (fst (view x))) \<and>
     (\<forall>x. It_Valid ldb x = (snd (view x) \<noteq> None)) \<and>
     (\<forall>x es i. view x = (es, Some i) \<longrightarrow>
        i < length es \<and> It_key ldb x = fst (es ! i) \<and> It_value ldb x = snd (es ! i) \<and>
        view (It_Next ldb x) = (es, if Suc i < length es then Some (Suc i) else None) \<and>
        view (It_Prev ldb x) = (es, if i = 0 then None else Some (i - 1))) \<and>
     (\<forall>x. view (It_SeekToFirst ldb x) =
        (fst (view x), if fst (view x) = [] then None else Some 0)) \<and>
     (\<forall>x. view (It_SeekToLast ldb x) =
        (fst (view x), if fst (view x) = [] then None else Some (length (fst (view x)) - 1))) \<and>
     (\<forall>x k. view (It_Seek ldb k x) =
        (fst (view x),
         let n = length (takeWhile (below cmp k) (fst (view x)))
         in if n < length (fst (view x)) then Some n else None))"

text \<open>
  The entries still ahead of a position: from it on when walking forwards, from it back to
  the first when walking backwards.
\<close>

definition rest :: "bool \<Rightarrow> entry list \<times> nat option \<Rightarrow> entry list" where
  "rest is_reverse v =
     (case snd v of
        None \<Rightarrow> []
      | Some i \<Rightarrow> if is_reverse then rev (take (Suc i) (fst v)) else drop i (fst v))"

lemma it_at:
  assumes "iterator_contract ldb cmp view" and "view x = (es, Some i)"
  shows "i < length es" and "It_key ldb x = fst (es ! i)" and "It_value ldb x = snd (es ! i)"
    and "view (It_Next ldb x) = (es, if Suc i < length es then Some (Suc i) else None)"
    and "view (It_Prev ldb x) = (es, if i = 0 then None else Some (i - 1))"
  using assms by (simp_all add: iterator_contract_def)

lemma rest_nonempty:
  assumes "iterator_contract ldb cmp view"
  shows "(rest r (view x) \<noteq> []) = (snd (view x) \<noteq> None)"
proof (cases "snd (view x)")
  case None
  then show ?thesis by (simp add: rest_def)
next
  case (Some i)
  then have "view x = (fst (view x), Some i)" by (simp add: prod_eq_iff)
  from it_at(1) [OF assms this] Some show ?thesis by (auto simp: rest_def)
qed

lemma it_valid_rest:
  "iterator_contract ldb cmp view \<Longrightarrow> It_Valid ldb x = (rest r (view x) \<noteq> [])"
  by (simp add: rest_nonempty) (simp add: iterator_contract_def)

lemma hd_rest: "i < length es \<Longrightarrow> hd (rest r (es, Some i)) = es ! i"
  by (simp add: rest_def hd_drop_conv_nth take_Suc_conv_app_nth)

lemma it_key_rest:
  assumes "iterator_contract ldb cmp view" and "rest r (view x) \<noteq> []"
  shows "It_key ldb x = fst (hd (rest r (view x)))"
proof -
  obtain es p where v: "view x = (es, p)" by fastforce
  with assms(2) obtain i where "p = Some i" by (cases p) (auto simp: rest_def)
  with v have "view x = (es, Some i)" by simp
  note at = it_at(1,2) [OF assms(1) this]
  from at v \<open>p = Some i\<close> show ?thesis by (simp add: hd_rest)
qed

lemma it_value_rest:
  assumes "iterator_contract ldb cmp view" and "rest r (view x) \<noteq> []"
  shows "It_value ldb x = snd (hd (rest r (view x)))"
proof -
  obtain es p where v: "view x = (es, p)" by fastforce
  with assms(2) obtain i where "p = Some i" by (cases p) (auto simp: rest_def)
  with v have "view x = (es, Some i)" by simp
  note at = it_at(1,3) [OF assms(1) this]
  from at v \<open>p = Some i\<close> show ?thesis by (simp add: hd_rest)
qed

text \<open>A step in the walking direction drops the first remaining entry.\<close>

lemma rest_step:
  assumes c: "iterator_contract ldb cmp view" and ne: "rest r (view x) \<noteq> []"
  shows "rest r (view (if r then It_Prev ldb x else It_Next ldb x)) = tl (rest r (view x))"
    and "fst (view (if r then It_Prev ldb x else It_Next ldb x)) = fst (view x)"
proof -
  obtain es p where v: "view x = (es, p)" by fastforce
  with ne obtain i where p: "p = Some i" by (cases p) (auto simp: rest_def)
  with v have "view x = (es, Some i)" by simp
  note i = it_at(1) [OF c this] and nxt = it_at(4) [OF c this] and prv = it_at(5) [OF c this]
  have suffix_step: "tl (drop i es) = drop (Suc i) es" by (simp add: drop_Suc tl_drop)
  have prefix_step: "tl (rev (take (Suc i) es)) = rev (take i es)"
    using i by (simp add: take_Suc_conv_app_nth)
  show "rest r (view (if r then It_Prev ldb x else It_Next ldb x)) = tl (rest r (view x))"
    using i v p nxt prv prefix_step suffix_step by (cases i) (auto simp: rest_def)
  show "fst (view (if r then It_Prev ldb x else It_Next ldb x)) = fst (view x)"
    using v nxt prv by simp
qed

lemma rest_seek_first:
  "iterator_contract ldb cmp view \<Longrightarrow> rest False (view (It_SeekToFirst ldb x)) = fst (view x)"
  by (simp add: iterator_contract_def rest_def)

lemma rest_seek_last:
  "iterator_contract ldb cmp view \<Longrightarrow> rest True (view (It_SeekToLast ldb x)) = rev (fst (view x))"
  by (simp add: iterator_contract_def rest_def)

lemma rest_seek:
  assumes "iterator_contract ldb cmp view"
  shows "rest False (view (It_Seek ldb k x)) = dropWhile (below cmp k) (fst (view x))"
  using assms
  by (auto simp: iterator_contract_def rest_def Let_def dropWhile_eq_drop takeWhile_eq_all_conv)

lemma seek_fst [simp]:
  "iterator_contract ldb cmp view \<Longrightarrow> fst (view (It_Seek ldb k x)) = fst (view x)"
  "iterator_contract ldb cmp view \<Longrightarrow> fst (view (It_SeekToFirst ldb x)) = fst (view x)"
  "iterator_contract ldb cmp view \<Longrightarrow> fst (view (It_SeekToLast ldb x)) = fst (view x)"
  by (simp_all add: iterator_contract_def)

section \<open>Sorted entries and ranges\<close>

text \<open>The entries a range asks for; a missing bound does not restrict.\<close>

definition in_range :: "(bytes \<Rightarrow> bytes \<Rightarrow> int) \<Rightarrow> bytes option \<Rightarrow> bytes option \<Rightarrow> entry \<Rightarrow> bool" where
  "in_range cmp from to e \<longleftrightarrow>
     (case from of None \<Rightarrow> True | Some a \<Rightarrow> cmp a (fst e) \<le> 0) \<and>
     (case to of None \<Rightarrow> True | Some b \<Rightarrow> cmp (fst e) b \<le> 0)"

definition range_entries ::
  "(bytes \<Rightarrow> bytes \<Rightarrow> int) \<Rightarrow> bytes option \<Rightarrow> bytes option \<Rightarrow> bool \<Rightarrow> entry list \<Rightarrow> entry list" where
  "range_entries cmp from to is_reverse es =
     (if is_reverse then rev (filter (in_range cmp from to) es) else filter (in_range cmp from to) es)"

lemma sorted_dropWhile_filter:
  assumes "sorted_wrt R xs" and "\<And>x y. R x y \<Longrightarrow> P y \<Longrightarrow> P x"
  shows "dropWhile P xs = filter (\<lambda>x. \<not> P x) xs" and "takeWhile P xs = filter P xs"
proof -
  have "dropWhile P xs = filter (\<lambda>x. \<not> P x) xs \<and> takeWhile P xs = filter P xs"
    using assms(1)
  proof (induction xs)
    case Nil
    then show ?case by simp
  next
    case (Cons x xs)
    show ?case
    proof (cases "P x")
      case True
      with Cons show ?thesis by simp
    next
      case False
      with Cons.prems assms(2) have "\<forall>y\<in>set xs. \<not> P y" by auto
      with False show ?thesis by (simp add: filter_empty_conv)
    qed
  qed
  then show "dropWhile P xs = filter (\<lambda>x. \<not> P x) xs" and "takeWhile P xs = filter P xs" by auto
qed

lemma sorted_entries_below:
  assumes "cmp_order cmp" and "sorted_entries cmp es"
  shows "dropWhile (below cmp k) es = filter (\<lambda>e. cmp k (fst e) \<le> 0) es"
    and "takeWhile (\<lambda>e. cmp (fst e) k \<le> 0) es = filter (\<lambda>e. cmp (fst e) k \<le> 0) es"
proof -
  have eq: "(\<not> below cmp k e) = (cmp k (fst e) \<le> 0)" for e
    using cmp_order_flip_le [OF assms(1), of "fst e" k] by (auto simp: below_def)
  have "dropWhile (below cmp k) es = filter (\<lambda>e. \<not> below cmp k e) es"
    using assms(2) cmp_order_trans [OF assms(1)]
    by (intro sorted_dropWhile_filter(1) [where R = "\<lambda>x y. cmp (fst x) (fst y) < 0"])
      (auto simp: sorted_entries_def below_def)
  then show "dropWhile (below cmp k) es = filter (\<lambda>e. cmp k (fst e) \<le> 0) es" by (simp add: eq)
  show "takeWhile (\<lambda>e. cmp (fst e) k \<le> 0) es = filter (\<lambda>e. cmp (fst e) k \<le> 0) es"
    using assms(2) cmp_order_less_le [OF assms(1)]
    by (intro sorted_dropWhile_filter(2) [where R = "\<lambda>x y. cmp (fst x) (fst y) < 0"])
      (auto simp: sorted_entries_def intro: less_imp_le)
qed

end
