(* ===== verification/Instance.thy ===== *)
theory Instance
  imports Contract
begin

text \<open>
  A concrete instance of the external parameters, used by the witnesses: an in-memory
  LevelDB over sorted entry lists, which satisfies the contracts, and an argument parser
  for the format units the extension uses. It stands for no code of the repository.
\<close>

section \<open>Bytewise order\<close>

fun lex_cmp :: "bytes \<Rightarrow> bytes \<Rightarrow> int" where
  "lex_cmp [] [] = 0"
| "lex_cmp [] (b # bs) = -1"
| "lex_cmp (a # as) [] = 1"
| "lex_cmp (a # as) (b # bs) = (if a < b then -1 else if b < a then 1 else lex_cmp as bs)"

lemma lex_cmp_zero [simp]: "lex_cmp a b = 0 \<longleftrightarrow> a = b"
  by (induction a b rule: lex_cmp.induct) auto

lemma lex_cmp_flip: "lex_cmp b a = - lex_cmp a b"
  by (induction a b rule: lex_cmp.induct) auto

lemma lex_cmp_trans: "lex_cmp a b < 0 \<Longrightarrow> lex_cmp b c < 0 \<Longrightarrow> lex_cmp a c < 0"
proof (induction a b arbitrary: c rule: lex_cmp.induct)
  case (2 b bs)
  then show ?case by (cases c) auto
next
  case (4 a as b bs)
  then show ?case by (cases c) (auto split: if_splits)
qed auto

lemma cmp_order_lex: "cmp_order lex_cmp"
  unfolding cmp_order_def
proof (intro conjI allI impI)
  fix a b c
  show "(0 < lex_cmp a b) = (lex_cmp b a < 0)" using lex_cmp_flip [of b a] by simp
  show "lex_cmp a b < 0 \<Longrightarrow> lex_cmp b c < 0 \<Longrightarrow> lex_cmp a c < 0" by (rule lex_cmp_trans)
  show "lex_cmp a b \<le> 0 \<Longrightarrow> lex_cmp b c < 0 \<Longrightarrow> lex_cmp a c < 0"
    using lex_cmp_trans [of a b c] by (cases "lex_cmp a b = 0") auto
  show "lex_cmp a b < 0 \<Longrightarrow> lex_cmp b c \<le> 0 \<Longrightarrow> lex_cmp a c < 0"
    using lex_cmp_trans [of a b c] by (cases "lex_cmp b c = 0") auto
qed

section \<open>An in-memory LevelDB\<close>

record memdb =
  md_dir :: bytes
  md_entries :: "entry list"

type_synonym mem_it = "entry list \<times> nat option"
type_synonym mem_fs = "(bytes \<times> entry list) list"

fun mem_insert :: "bytes \<Rightarrow> bytes \<Rightarrow> entry list \<Rightarrow> entry list" where
  "mem_insert k v [] = [(k, v)]"
| "mem_insert k v ((a, b) # es) =
     (if lex_cmp k a < 0 then (k, v) # (a, b) # es
      else if lex_cmp k a = 0 then (k, v) # es
      else (a, b) # mem_insert k v es)"

definition mem_remove :: "bytes \<Rightarrow> entry list \<Rightarrow> entry list" where
  "mem_remove k es = filter (\<lambda>e. fst e \<noteq> k) es"

fun mem_apply :: "batch_op \<Rightarrow> entry list \<Rightarrow> entry list" where
  "mem_apply (BatchPut k v) es = mem_insert k v es"
| "mem_apply (BatchDelete k) es = mem_remove k es"

definition mem_view :: "mem_it \<Rightarrow> entry list \<times> nat option" where
  "mem_view x =
     (if sorted_entries lex_cmp (fst x)
      then (fst x, case snd x of None \<Rightarrow> None | Some i \<Rightarrow> if i < length (fst x) then Some i else None)
      else ([], None))"

definition mem_open :: "options \<Rightarrow> bytes \<Rightarrow> mem_fs \<Rightarrow> (status \<times> memdb option) \<times> mem_fs" where
  "mem_open opts dir fs =
     (case map_of fs dir of
        None \<Rightarrow>
          (if o_create_if_missing opts
           then ((S_OK, Some \<lparr>md_dir = dir, md_entries = []\<rparr>), fs)
           else ((S_Error [101], None), fs))
      | Some es \<Rightarrow>
          (if o_error_if_exists opts then ((S_Error [101], None), fs)
           else ((S_OK, Some \<lparr>md_dir = dir, md_entries = es\<rparr>), fs)))"

definition mem_get :: "entry list read_options \<Rightarrow> bytes \<Rightarrow> memdb \<Rightarrow> (status \<times> bytes) \<times> memdb" where
  "mem_get ro k d =
     (case map_of (case ro_snapshot ro of None \<Rightarrow> md_entries d | Some s \<Rightarrow> s) k of
        None \<Rightarrow> ((S_NotFound [110], []), d)
      | Some v \<Rightarrow> ((S_OK, v), d))"

definition mem_options :: options where
  "mem_options =
     \<lparr>o_comparator = BytewiseComparator, o_create_if_missing = False, o_error_if_exists = False,
      o_paranoid_checks = False, o_write_buffer_size = 4194304, o_max_open_files = 1000,
      o_block_cache = None, o_block_size = 4096, o_block_restart_interval = 16,
      o_max_file_size = 2097152, o_snappy_compression = True\<rparr>"

definition mem_ldb :: "(memdb, mem_it, entry list, mem_fs) leveldb" where
  "mem_ldb =
     \<lparr>Options0 = mem_options,
      DB_Open = mem_open,
      DB_Close = (\<lambda>d fs. (md_dir d, md_entries d) # fs),
      DB_Put = (\<lambda>wo k v d. (S_OK, d\<lparr>md_entries := mem_insert k v (md_entries d)\<rparr>)),
      DB_Get = mem_get,
      DB_Delete = (\<lambda>wo k d. (S_OK, d\<lparr>md_entries := mem_remove k (md_entries d)\<rparr>)),
      DB_Write = (\<lambda>wo ops d. (S_OK, d\<lparr>md_entries := foldl (\<lambda>es op. mem_apply op es) (md_entries d) ops\<rparr>)),
      DB_NewIterator = (\<lambda>ro d. (Some (case ro_snapshot ro of None \<Rightarrow> md_entries d | Some s \<Rightarrow> s, None), d)),
      DB_GetSnapshot = (\<lambda>d. (md_entries d, d)),
      DB_ReleaseSnapshot = (\<lambda>s d. d),
      DB_GetProperty = (\<lambda>n d. (Some [111, 107], d)),
      DB_CompactRange = (\<lambda>a b d. d),
      DestroyDB = (\<lambda>dir opts fs. (S_OK, filter (\<lambda>x. fst x \<noteq> dir) fs)),
      RepairDB = (\<lambda>dir opts fs. (S_OK, fs)),
      It_Valid = (\<lambda>x. snd (mem_view x) \<noteq> None),
      It_SeekToFirst = (\<lambda>x. let es = fst (mem_view x) in (es, if es = [] then None else Some 0)),
      It_SeekToLast = (\<lambda>x. let es = fst (mem_view x) in (es, if es = [] then None else Some (length es - 1))),
      It_Seek = (\<lambda>k x. let es = fst (mem_view x); n = length (takeWhile (below lex_cmp k) es)
                       in (es, if n < length es then Some n else None)),
      It_Next = (\<lambda>x. case mem_view x of (es, Some i) \<Rightarrow> (es, Some (Suc i)) | (es, None) \<Rightarrow> (es, None)),
      It_Prev = (\<lambda>x. case mem_view x of (es, Some (Suc i)) \<Rightarrow> (es, Some i) | (es, _) \<Rightarrow> (es, None)),
      It_key = (\<lambda>x. case mem_view x of (es, Some i) \<Rightarrow> fst (es ! i) | _ \<Rightarrow> []),
      It_value = (\<lambda>x. case mem_view x of (es, Some i) \<Rightarrow> snd (es ! i) | _ \<Rightarrow> []),
      BytewiseCompare = lex_cmp\<rparr>"

lemma mem_view_ok:
  "sorted_entries lex_cmp es \<Longrightarrow> (\<And>i. p = Some i \<Longrightarrow> i < length es) \<Longrightarrow> mem_view (es, p) = (es, p)"
  by (cases p) (auto simp: mem_view_def)

lemma sorted_entries_Nil [simp]: "sorted_entries cmp []"
  by (simp add: sorted_entries_def)

lemma mem_view_sorted: "sorted_entries lex_cmp (fst (mem_view x))"
  by (simp add: mem_view_def)

lemma mem_view_pos: "mem_view x = (es, Some i) \<Longrightarrow> i < length es \<and> sorted_entries lex_cmp es"
  by (auto simp: mem_view_def split: if_splits option.splits)

lemma mem_iterator_contract: "iterator_contract mem_ldb lex_cmp mem_view"
  unfolding iterator_contract_def
proof (intro conjI allI impI)
  fix x es i
  assume v: "mem_view x = (es, Some i)"
  then have p: "i < length es" "sorted_entries lex_cmp es" using mem_view_pos by auto
  then show "i < length es" "It_key mem_ldb x = fst (es ! i)" "It_value mem_ldb x = snd (es ! i)"
    using v by (simp_all add: mem_ldb_def)
  show "mem_view (It_Next mem_ldb x) = (es, if Suc i < length es then Some (Suc i) else None)"
    using v p by (simp add: mem_ldb_def mem_view_def)
  show "mem_view (It_Prev mem_ldb x) = (es, if i = 0 then None else Some (i - 1))"
    using v p by (cases i) (auto simp: mem_ldb_def mem_view_def)
next
  fix x k
  note s = mem_view_sorted [of x]
  show "sorted_entries lex_cmp (fst (mem_view x))" by (rule s)
  show "It_Valid mem_ldb x = (snd (mem_view x) \<noteq> None)" by (simp add: mem_ldb_def)
  show "mem_view (It_SeekToFirst mem_ldb x) =
      (fst (mem_view x), if fst (mem_view x) = [] then None else Some 0)"
    using s by (auto simp: mem_ldb_def Let_def intro!: mem_view_ok)
  show "mem_view (It_SeekToLast mem_ldb x) =
      (fst (mem_view x), if fst (mem_view x) = [] then None else Some (length (fst (mem_view x)) - 1))"
    using s by (auto simp: mem_ldb_def Let_def intro!: mem_view_ok)
  show "mem_view (It_Seek mem_ldb k x) =
      (fst (mem_view x), let n = length (takeWhile (below lex_cmp k) (fst (mem_view x)))
        in if n < length (fst (mem_view x)) then Some n else None)"
    using s by (auto simp: mem_ldb_def Let_def intro!: mem_view_ok)
qed

section \<open>An argument parser\<close>

text \<open>One value for one unit\<close>

fun conv_unit :: "char \<Rightarrow> pyval \<Rightarrow> parg option" where
  "conv_unit u (PyBytes b) = (if u = CHR ''y'' then Some (P_buf b) else if u = CHR ''O'' then Some (P_obj (PyBytes b)) else None)"
| "conv_unit u (PyByteArray b) = (if u = CHR ''y'' then Some (P_buf b) else if u = CHR ''O'' then Some (P_obj (PyByteArray b)) else None)"
| "conv_unit u (PyUnicode c) = (if u = CHR ''s'' then Some (P_str (map word_of_int c)) else if u = CHR ''O'' then Some (P_obj (PyUnicode c)) else None)"
| "conv_unit u (PyLong i) = (if u = CHR ''i'' then Some (P_int (word_of_int i)) else if u = CHR ''O'' then Some (P_obj (PyLong i)) else None)"
| "conv_unit u v = (if u = CHR ''O'' then Some (P_obj v) else None)"

fun has_type :: "pytype \<Rightarrow> pyval \<Rightarrow> bool" where
  "has_type T_bool (PyBool b) = True"
| "has_type t (PyObj t' a) = (t = t')"
| "has_type t v = False"

text \<open>The units of a format, with the flag of those after the bar\<close>

fun fmt_units :: "bool \<Rightarrow> string \<Rightarrow> (char \<times> bool \<times> bool) list" where
  "fmt_units opt [] = []"
| "fmt_units opt (c # cs) =
     (if c = CHR ''|'' then fmt_units True cs
      else if c = CHR ''!'' \<or> c = CHR ''*'' then fmt_units opt cs
      else (c, cs \<noteq> [] \<and> hd cs = CHR ''!'', opt) # fmt_units opt cs)"

fun parse_units ::
  "(char \<times> bool \<times> bool) list \<Rightarrow> pytype list \<Rightarrow> string list \<Rightarrow> pyval list \<Rightarrow> (string \<times> pyval) list \<Rightarrow>
    parg option list option" where
  "parse_units [] ts kws pos kw = (if pos = [] \<and> kw = [] then Some [] else None)"
| "parse_units ((c, ty, opt) # us) ts kws pos kw =
     (let k = (if kws = [] then [] else hd kws) in
      case (case (if pos \<noteq> [] then Some (hd pos) else map_of kw k) of
              None \<Rightarrow> if opt then Some None else None
            | Some x \<Rightarrow> if ty \<and> \<not> has_type (hd ts) x then None else map_option Some (conv_unit c x)) of
        None \<Rightarrow> None
      | Some q \<Rightarrow>
          map_option ((#) q)
            (parse_units us (if ty then tl ts else ts) (tl kws) (tl pos)
               (if pos \<noteq> [] then kw else filter (\<lambda>x. fst x \<noteq> k) kw)))"

definition demo_py :: py_api where
  "demo_py =
     \<lparr>parse_tuple = (\<lambda>fmt ts kws args. parse_units (fmt_units False fmt) ts kws (posargs args) (kwargs args)),
      parse_one = (\<lambda>v fmt.
        if fmt = ''y*'' then (case conv_unit CHR ''y'' v of Some p \<Rightarrow> Some [p] | None \<Rightarrow> None)
        else (case v of PyTuple [PyUnicode n, f] \<Rightarrow> Some [P_str (map word_of_int n), P_obj f] | _ \<Rightarrow> None)),
      call_object = (\<lambda>f a b. if f = 0 then Some (PyLong (lex_cmp b a)) else None)\<rparr>"

section \<open>An example world\<close>

text \<open>One open database at address 0, with four entries\<close>

definition demo_entries :: "entry list" where
  "demo_entries = [([97], [1]), ([98], [2]), ([99], [3]), ([100], [4])]"

definition demo_PyLevelDB :: PyLevelDB where
  "demo_PyLevelDB =
     \<lparr>db_refcnt = 1, db_db = Some 0, db_options = Some mem_options, db_cache = Some 0,
      db_comparator = Some BytewiseComparator, n_snapshots = 0, n_iterators = 0\<rparr>"

definition demo_world :: "(memdb, mem_it, entry list, mem_fs) world" where
  "demo_world =
     \<lparr>heap = [0 \<mapsto> ObjDB demo_PyLevelDB], next_addr = 1,
      dbs = [0 \<mapsto> \<lparr>md_dir = [120], md_entries = demo_entries\<rparr>], its = Map.empty, sns = Map.empty,
      next_handle = 1, fsys = [], exports = 0, foreign = (\<lambda>_. 0), alloc_fail = []\<rparr>"

end
