(* ===== verification/RangeSpec.thy ===== *)
theory RangeSpec
  imports Contract Instance
begin

text \<open>
  The range iterator against its specification: whatever its bounds and direction, walking
  it yields exactly the database's entries in the range, in order.
\<close>

section \<open>States of an open database\<close>

definition db_open ::
  "('d, 'it, 'sn, 'fs) world \<Rightarrow> addr \<Rightarrow> PyLevelDB \<Rightarrow> handle \<Rightarrow> options \<Rightarrow> 'd \<Rightarrow> bool" where
  "db_open w self p h opts d \<longleftrightarrow>
     heap w self = Some (ObjDB p) \<and> db_db p = Some h \<and> db_options p = Some opts \<and> dbs w h = Some d"

named_theorems run_simps \<open>evaluation of the operations in a known state\<close>

lemmas [run_simps] = py_simps Let_def split_def

lemma get_db_run [run_simps]: "heap w a = Some (ObjDB p) \<Longrightarrow> get_db a w = (Ret p, w)"
  by (simp add: get_db_def)

lemma get_iter_run [run_simps]: "heap w a = Some (ObjIter i) \<Longrightarrow> get_iter a w = (Ret i, w)"
  by (simp add: get_iter_def)

lemma deref_run [run_simps]: "deref (Some x) w = (Ret x, w)"
  by (simp add: deref_def py_simps)

lemma alloc_run [run_simps]: "alloc_fail w = [] \<Longrightarrow> py_alloc w = (Ret True, w)"
  by (simp add: py_alloc_def)

lemma read_it_run [run_simps]:
  "its w h = Some (dh, x) \<Longrightarrow> dbs w dh = Some d \<Longrightarrow> read_it h f w = (Ret (f x), w)"
  by (simp add: read_it_def)

lemma move_it_run [run_simps]:
  "its w h = Some (dh, x) \<Longrightarrow> dbs w dh = Some d \<Longrightarrow>
     move_it h f w = (Ret (), w\<lparr>its := (its w)(h \<mapsto> (dh, f x))\<rparr>)"
  by (simp add: move_it_def)

lemma read_valid_it_run [run_simps]:
  "its w h = Some (dh, x) \<Longrightarrow> dbs w dh = Some d \<Longrightarrow> It_Valid ldb x \<Longrightarrow>
     read_valid_it ldb h f w = (Ret (f x), w)"
  by (simp add: read_valid_it_def py_bind_def read_it_run)

lemma move_valid_it_run [run_simps]:
  "its w h = Some (dh, x) \<Longrightarrow> dbs w dh = Some d \<Longrightarrow> It_Valid ldb x \<Longrightarrow>
     move_valid_it ldb h f w = (Ret (), w\<lparr>its := (its w)(h \<mapsto> (dh, f x))\<rparr>)"
  by (simp add: move_valid_it_def py_bind_def read_it_run move_it_run)

lemma compare_run:
  "compare_is py ldb c cmp \<Longrightarrow> alloc_fail w = [] \<Longrightarrow> Compare py ldb c a b w = (Ret (cmp a b), w)"
  by (simp add: compare_is_def)

text \<open>The same facts under a sequencing, so that they rewrite a run step by step\<close>

lemma bind_get_db: "heap w a = Some (ObjDB p) \<Longrightarrow> py_bind (get_db a) k w = k p w"
  by (simp add: py_bind_def get_db_def)

lemma bind_get_iter: "heap w a = Some (ObjIter i) \<Longrightarrow> py_bind (get_iter a) k w = k i w"
  by (simp add: py_bind_def get_iter_def)

lemma bind_deref: "py_bind (deref (Some x)) k w = k x w"
  by (simp add: py_bind_def deref_def py_ret_def)

lemma bind_ret: "py_bind (py_ret x) k w = k x w"
  by (simp add: py_bind_def py_ret_def)

lemma bind_get: "py_bind (py_get f) k w = k (f w) w"
  by (simp add: py_bind_def py_get_def)

lemma bind_modify: "py_bind (py_modify f) k w = k () (f w)"
  by (simp add: py_bind_def py_modify_def)

lemma bind_set_db: "py_bind (set_db a p) k w = k () (w\<lparr>heap := (heap w)(a \<mapsto> ObjDB p)\<rparr>)"
  by (simp add: set_db_def bind_modify)

lemma bind_new_object: "py_bind (new_object ob) k w =
    k (next_addr w) (w\<lparr>heap := (heap w)(next_addr w \<mapsto> ob), next_addr := Suc (next_addr w)\<rparr>)"
  by (simp add: py_bind_def new_object_def)

lemma bind_alloc: "alloc_fail w = [] \<Longrightarrow> py_bind py_alloc k w = k True w"
  by (simp add: py_bind_def py_alloc_def)

lemma bind_call_db: "dbs w h = Some d \<Longrightarrow> py_bind (call_db h f) k w =
    k (fst (f d)) (w\<lparr>dbs := (dbs w)(h \<mapsto> snd (f d))\<rparr>)"
  by (simp add: py_bind_def call_db_def split_def)

lemma bind_read_it:
  "its w h = Some (dh, x) \<Longrightarrow> dbs w dh = Some d \<Longrightarrow> py_bind (read_it h f) k w = k (f x) w"
  by (simp add: py_bind_def read_it_def)

lemma bind_move_it:
  "its w h = Some (dh, x) \<Longrightarrow> dbs w dh = Some d \<Longrightarrow>
     py_bind (move_it h f) k w = k () (w\<lparr>its := (its w)(h \<mapsto> (dh, f x))\<rparr>)"
  by (simp add: py_bind_def move_it_def)

lemma bind_read_valid_it:
  "its w h = Some (dh, x) \<Longrightarrow> dbs w dh = Some d \<Longrightarrow> It_Valid ldb x \<Longrightarrow>
     py_bind (read_valid_it ldb h f) k w = k (f x) w"
  by (simp add: py_bind_def read_valid_it_run)

lemma bind_move_valid_it:
  "its w h = Some (dh, x) \<Longrightarrow> dbs w dh = Some d \<Longrightarrow> It_Valid ldb x \<Longrightarrow>
     py_bind (move_valid_it ldb h f) k w = k () (w\<lparr>its := (its w)(h \<mapsto> (dh, f x))\<rparr>)"
  by (simp add: py_bind_def move_valid_it_run)

lemma bind_compare:
  "compare_is py ldb c cmp \<Longrightarrow> alloc_fail w = [] \<Longrightarrow>
     py_bind (Compare py ldb c a b) k w = k (cmp a b) w"
  by (simp add: py_bind_def compare_is_def)

lemmas bind_simps = bind_ret bind_get bind_modify bind_deref bind_assoc bind_set_db bind_new_object

section \<open>Positioning\<close>

text \<open>The bytes of an optional bound; an absent one leaves the C++ string empty\<close>

definition bytes_of :: "bytes option \<Rightarrow> bytes" where
  "bytes_of b = (case b of None \<Rightarrow> [] | Some x \<Rightarrow> x)"

text \<open>The entries ahead of a freshly positioned iterator\<close>

definition start_entries ::
  "(bytes \<Rightarrow> bytes \<Rightarrow> int) \<Rightarrow> bool \<Rightarrow> bool \<Rightarrow> bool \<Rightarrow> bytes \<Rightarrow> entry list \<Rightarrow> entry list" where
  "start_entries cmp is_reverse is_from is_to key es =
     (if \<not> is_reverse then (if is_from then dropWhile (below cmp key) es else es)
      else (if is_to then rev (takeWhile (\<lambda>e. cmp (fst e) key \<le> 0) es) else rev es))"

lemma takeWhile_le_take:
  assumes ord: "cmp_order cmp" and srt: "sorted_entries cmp es"
    and n: "n = length (takeWhile (below cmp k) es)" and less: "n < length es"
  shows "cmp (fst (es ! n)) k \<noteq> 0 \<Longrightarrow> takeWhile (\<lambda>e. cmp (fst e) k \<le> 0) es = take n es"
    and "cmp (fst (es ! n)) k = 0 \<Longrightarrow> takeWhile (\<lambda>e. cmp (fst e) k \<le> 0) es = take (Suc n) es"
proof -
  have low: "i < n \<Longrightarrow> cmp (fst (es ! i)) k < 0" for i
    using nth_takeWhileD [of i "below cmp k" es] n by (simp add: below_def takeWhile_nth)
  have at: "\<not> cmp (fst (es ! n)) k < 0"
    using nth_length_takeWhile [of "below cmp k" es] n less by (simp add: below_def)
  show "takeWhile (\<lambda>e. cmp (fst e) k \<le> 0) es = take n es" if "cmp (fst (es ! n)) k \<noteq> 0"
    using that at low by (intro takeWhile_eq_take_P_nth) (auto intro: less_imp_le)
  show "takeWhile (\<lambda>e. cmp (fst e) k \<le> 0) es = take (Suc n) es" if z: "cmp (fst (es ! n)) k = 0"
  proof (intro takeWhile_eq_take_P_nth)
    fix i assume "i < Suc n"
    with low z show "cmp (fst (es ! i)) k \<le> 0" by (auto simp: less_Suc_eq intro: less_imp_le)
  next
    assume l: "Suc n < length es"
    with srt have "cmp (fst (es ! n)) (fst (es ! Suc n)) < 0"
      by (simp add: sorted_entries_def sorted_wrt_iff_nth_less)
    moreover have "cmp k (fst (es ! n)) \<le> 0"
      using z cmp_order_flip_le [OF ord, of "fst (es ! n)" k] by simp
    ultimately have "cmp k (fst (es ! Suc n)) < 0" by (rule cmp_order_le_less [OF ord, rotated])
    with cmp_order_flip [OF ord, of "fst (es ! Suc n)" k] show "\<not> cmp (fst (es ! Suc n)) k \<le> 0"
      by simp
  qed
qed

lemma seek_back:
  assumes c: "iterator_contract ldb cmp view" and ord: "cmp_order cmp"
    and x1: "x1 = It_Seek ldb k x" and es: "fst (view x) = es"
  shows "\<not> It_Valid ldb x1 \<Longrightarrow>
           rest True (view (It_SeekToLast ldb x1)) = rev (takeWhile (\<lambda>e. cmp (fst e) k \<le> 0) es)"
    and "It_Valid ldb x1 \<Longrightarrow> cmp k (It_key ldb x1) \<noteq> 0 \<Longrightarrow>
           rest True (view (It_Prev ldb x1)) = rev (takeWhile (\<lambda>e. cmp (fst e) k \<le> 0) es)"
    and "It_Valid ldb x1 \<Longrightarrow> cmp k (It_key ldb x1) = 0 \<Longrightarrow>
           rest True (view x1) = rev (takeWhile (\<lambda>e. cmp (fst e) k \<le> 0) es)"
proof -
  let ?n = "length (takeWhile (below cmp k) es)"
  have srt: "sorted_entries cmp es" using c es by (auto simp: iterator_contract_def)
  have v: "view x1 = (es, if ?n < length es then Some ?n else None)"
    using c es x1 by (simp add: iterator_contract_def Let_def)
  have valid: "It_Valid ldb x1 = (?n < length es)"
    using c v by (simp add: iterator_contract_def)
  show "rest True (view (It_SeekToLast ldb x1)) = rev (takeWhile (\<lambda>e. cmp (fst e) k \<le> 0) es)"
    if "\<not> It_Valid ldb x1"
  proof -
    have "?n = length es" using that valid length_takeWhile_le [of "below cmp k" es] by simp
    then have "\<forall>e\<in>set es. cmp (fst e) k < 0"
      by (metis below_def takeWhile_eq_all_conv takeWhile_eq_take take_all_iff order_refl)
    then have all: "takeWhile (\<lambda>e. cmp (fst e) k \<le> 0) es = es"
      by (auto simp: takeWhile_eq_all_conv intro: less_imp_le)
    show ?thesis unfolding all using v rest_seek_last [OF c, of x1] by simp
  qed
  assume val: "It_Valid ldb x1"
  with valid have less: "?n < length es" by simp
  with v have at: "view x1 = (es, Some ?n)" by simp
  note k = it_at(2) [OF c at] and prv = it_at(5) [OF c at]
  have flip: "(cmp k (fst (es ! ?n)) = 0) = (cmp (fst (es ! ?n)) k = 0)"
    using cmp_order_flip [OF ord] by (metis linorder_less_linear order_less_asym less_irrefl)
  show "rest True (view (It_Prev ldb x1)) = rev (takeWhile (\<lambda>e. cmp (fst e) k \<le> 0) es)"
    if "cmp k (It_key ldb x1) \<noteq> 0"
    using takeWhile_le_take(1) [OF ord srt refl less] that k flip prv
    by (cases ?n) (simp_all add: rest_def)
  show "rest True (view x1) = rev (takeWhile (\<lambda>e. cmp (fst e) k \<le> 0) es)"
    if "cmp k (It_key ldb x1) = 0"
    using takeWhile_le_take(2) [OF ord srt refl less] that k flip at by (simp add: rest_def)
qed

text \<open>
  Positioning moves the iterator only, and leaves it at the start of the range.
\<close>

lemma position_iterator_correct:
  assumes c: "iterator_contract ldb cmp view" and ord: "cmp_order cmp"
    and cis: "compare_is py ldb (o_comparator opts) cmp"
    and w: "db_open w self p h opts d" "its w it = Some (h, x)" "alloc_fail w = []"
  shows "\<exists>x'. position_iterator py ldb self it is_reverse is_from is_to key w =
            (Ret (), w\<lparr>its := (its w)(it \<mapsto> (h, x'))\<rparr>) \<and>
          fst (view x') = fst (view x) \<and>
          rest is_reverse (view x') = start_entries cmp is_reverse is_from is_to key (fst (view x))"
proof -
  have d: "dbs w h = Some d" and hp: "heap w self = Some (ObjDB p)" and op: "db_options p = Some opts"
    using w(1) by (auto simp: db_open_def)
  note mv = move_it_run [OF w(2) d]
  consider "\<not> is_reverse" | "is_reverse" "\<not> is_to" | "is_reverse" "is_to" by blast
  then show ?thesis
  proof cases
    case 1
    then show ?thesis using c
      by (cases is_from)
        (auto simp: position_iterator_def mv start_entries_def rest_seek rest_seek_first)
  next
    case 2
    then show ?thesis using c
      by (auto simp: position_iterator_def mv start_entries_def rest_seek_last)
  next
    case 3
    let ?x1 = "It_Seek ldb key x"
    let ?w1 = "w\<lparr>its := (its w)(it \<mapsto> (h, ?x1))\<rparr>"
    have w1: "its ?w1 it = Some (h, ?x1)" "dbs ?w1 h = Some d" "heap ?w1 self = Some (ObjDB p)"
      "alloc_fail ?w1 = []" using d hp w(3) by simp_all
    note bwd = seek_back [OF c ord refl refl, of key x]
    note run = bind_move_it [OF w(2) d] bind_read_it [OF w1(1,2)] bind_read_valid_it [OF w1(1,2)]
      bind_get_db [OF w1(3)] bind_compare [OF cis w1(4)] bind_deref
      move_it_run [OF w1(1,2)] move_valid_it_run [OF w1(1,2)]
    show ?thesis
    proof (cases "It_Valid ldb ?x1")
      case False
      with 3 bwd(1) c show ?thesis
        by (auto simp: position_iterator_def run start_entries_def)
    next
      case True
      have prev: "fst (view (It_Prev ldb ?x1)) = fst (view x)"
        using rest_step(2) [OF c, of True ?x1] it_valid_rest [OF c, of ?x1 True] True c by simp
      from 3 True bwd(2,3) c prev op show ?thesis
        by (cases "cmp key (It_key ldb ?x1) = 0")
          (auto simp: position_iterator_def run start_entries_def py_ret_def)
    qed
  qed
qed

section \<open>Walking\<close>

text \<open>
  \<open>walking\<close>: the iterator object at \<open>i\<close> is attached to the open database \<open>self\<close> and owns
  the LevelDB iterator \<open>it\<close>, whose state is \<open>x\<close>.
\<close>

definition walking ::
  "('d, 'it, 'sn, 'fs) world \<Rightarrow> addr \<Rightarrow> PyLevelDBIter \<Rightarrow> addr \<Rightarrow> PyLevelDB \<Rightarrow> handle \<Rightarrow> options \<Rightarrow> 'd \<Rightarrow>
    handle \<Rightarrow> 'it \<Rightarrow> bool" where
  "walking w i s self p h opts d it x \<longleftrightarrow>
     heap w i = Some (ObjIter s) \<and> it_ref s = Some self \<and> it_db s = Some self \<and>
     it_iterator s = Some it \<and> its w it = Some (h, x) \<and> db_open w self p h opts d \<and> alloc_fail w = []"

definition iter_item :: "bool \<Rightarrow> entry \<Rightarrow> pyval" where
  "iter_item include_value e =
     (if include_value then PyTuple [PyByteArray (fst e), PyByteArray (snd e)]
      else PyByteArray (fst e))"

definition within :: "(bytes \<Rightarrow> bytes \<Rightarrow> int) \<Rightarrow> bool \<Rightarrow> bytes option \<Rightarrow> entry \<Rightarrow> bool" where
  "within cmp is_reverse bound e \<longleftrightarrow>
     (case bound of None \<Rightarrow> True
      | Some b \<Rightarrow> if is_reverse then cmp b (fst e) \<le> 0 else 0 \<le> cmp b (fst e))"

lemma iter_past_bound_run:
  assumes wk: "walking w i s self p h opts d it x"
    and cis: "compare_is py ldb (o_comparator opts) cmp" and v: "It_Valid ldb x"
  shows "iter_past_bound py ldb s it w =
    (Ret (\<not> within cmp (it_is_reverse s) (it_bound s) (It_key ldb x, val)), w)"
proof (cases "it_bound s")
  case None
  then show ?thesis by (simp add: iter_past_bound_def within_def py_ret_def)
next
  case (Some b)
  from wk have w: "its w it = Some (h, x)" "dbs w h = Some d" "heap w self = Some (ObjDB p)"
    "alloc_fail w = []" and s: "it_db s = Some self" "db_options p = Some opts"
    by (auto simp: walking_def db_open_def)
  show ?thesis
    by (simp add: iter_past_bound_def Some s within_def bind_read_valid_it [OF w(1,2) v] bind_deref
        bind_get_db [OF w(3)] bind_compare [OF cis w(4)] py_ret_def not_le)
qed

lemma next_item:
  assumes c: "iterator_contract ldb cmp view" and cis: "compare_is py ldb (o_comparator opts) cmp"
    and wk: "walking w i s self p h opts d it x"
    and r: "rest (it_is_reverse s) (view x) = e # es"
    and inb: "within cmp (it_is_reverse s) (it_bound s) e"
  shows "\<exists>x'. PyLevelDBIter_next py ldb i w =
            (Ret (Some (iter_item (it_include_value s) e)), w\<lparr>its := (its w)(it \<mapsto> (h, x'))\<rparr>) \<and>
          rest (it_is_reverse s) (view x') = es"
proof -
  from wk have w: "its w it = Some (h, x)" "dbs w h = Some d" "heap w i = Some (ObjIter s)"
    "alloc_fail w = []" and s: "it_ref s = Some self" "it_iterator s = Some it"
    by (auto simp: walking_def db_open_def)
  have v: "It_Valid ldb x" using it_valid_rest [OF c, of x "it_is_reverse s"] r by simp
  have k: "It_key ldb x = fst e" and vl: "It_value ldb x = snd e"
    using it_key_rest [OF c, of "it_is_reverse s" x] it_value_rest [OF c, of "it_is_reverse s" x] r
    by simp_all
  let ?x' = "if it_is_reverse s then It_Prev ldb x else It_Next ldb x"
  have r': "rest (it_is_reverse s) (view ?x') = es"
    using rest_step(1) [OF c, of "it_is_reverse s" x] r by simp
  have past: "py_bind (iter_past_bound py ldb s it) f w = f False w" for f :: "bool \<Rightarrow> _"
    using iter_past_bound_run [OF wk cis v, of "snd e"] inb k by (simp add: py_bind_def)
  have "PyLevelDBIter_next py ldb i w =
      (Ret (Some (iter_item (it_include_value s) e)), w\<lparr>its := (its w)(it \<mapsto> (h, ?x'))\<rparr>)"
    by (simp add: PyLevelDBIter_next_def bind_get_iter [OF w(3)] s v bind_assoc bind_deref bind_ret
        bind_read_it [OF w(1,2)] past bind_read_valid_it [OF w(1,2) v] bind_alloc [OF w(4)] k vl
        bind_move_valid_it [OF w(1,2) v] iter_item_def py_ret_def)
  with r' show ?thesis by blast
qed

lemma clean_run:
  assumes "walking w i s self p h opts d it x"
  shows "\<exists>w'. PyLevelDBIter_clean ldb i w = (Ret (), w') \<and> alloc_fail w' = [] \<and>
           (\<exists>s'. heap w' i = Some (ObjIter s') \<and> it_ref s' = None \<and> it_db s' = None \<and> it_iterator s' = None)"
proof -
  from assms have w: "its w it = Some (h, x)" "dbs w h = Some d" "heap w i = Some (ObjIter s)"
    "heap w self = Some (ObjDB p)" "db_db p = Some h" "alloc_fail w = []"
    and s: "it_ref s = Some self" "it_db s = Some self" "it_iterator s = Some it"
    by (auto simp: walking_def db_open_def)
  have ne: "i \<noteq> self" using w(3,4) by auto
  show ?thesis
    using w s ne
    by (auto simp: PyLevelDBIter_clean_def py_bind_def get_iter_def
        delete_it_def Py_XDECREF_db_def Py_DECREF_db_def deref_def get_db_def PyLevelDB_dealloc_def delete_db_def delete_comparator_def set_db_def set_iter_def free_object_def
        py_simps split: option.split comparator.split)
qed

lemma next_end:
  assumes c: "iterator_contract ldb cmp view" and cis: "compare_is py ldb (o_comparator opts) cmp"
    and wk: "walking w i s self p h opts d it x"
    and r: "rest (it_is_reverse s) (view x) = [] \<or>
      \<not> within cmp (it_is_reverse s) (it_bound s) (hd (rest (it_is_reverse s) (view x)))"
  shows "\<exists>w'. PyLevelDBIter_next py ldb i w = (Ret None, w')"
proof -
  from wk have w: "its w it = Some (h, x)" "dbs w h = Some d" "heap w i = Some (ObjIter s)"
    "alloc_fail w = []" and s: "it_ref s = Some self" "it_iterator s = Some it"
    by (auto simp: walking_def db_open_def)
  obtain w' where cl: "PyLevelDBIter_clean ldb i w = (Ret (), w')"
    using clean_run [OF wk] by blast
  show ?thesis
  proof (cases "It_Valid ldb x")
    case False
    then show ?thesis
      by (simp add: PyLevelDBIter_next_def bind_get_iter [OF w(3)] s bind_assoc bind_deref bind_ret
        bind_read_it [OF w(1,2)] py_bind_Ret [where m = "PyLevelDBIter_clean ldb i" and w = w, OF cl] py_ret_def)
  next
    case True
    then have ne: "rest (it_is_reverse s) (view x) \<noteq> []"
      using it_valid_rest [OF c] by blast
    have k: "It_key ldb x = fst (hd (rest (it_is_reverse s) (view x)))"
      by (rule it_key_rest [OF c ne])
    have past: "py_bind (iter_past_bound py ldb s it) f w = f True w" for f :: "bool \<Rightarrow> _"
      using iter_past_bound_run [OF wk cis True, of "snd (hd (rest (it_is_reverse s) (view x)))"] r ne k
      by (simp add: py_bind_def)
    from True show ?thesis
      by (simp add: PyLevelDBIter_next_def bind_get_iter [OF w(3)] s bind_assoc bind_deref bind_ret
        bind_read_it [OF w(1,2)] past py_bind_Ret [where m = "PyLevelDBIter_clean ldb i" and w = w, OF cl] py_ret_def)
  qed
qed

text \<open>
  \<open>list(iterator)\<close>: calls \<open>next\<close> until it ends the iteration; \<open>None\<close> when \<open>n\<close> calls were
  not enough.
\<close>

fun collect ::
  "py_api \<Rightarrow> ('d, 'it, 'sn, 'fs) leveldb \<Rightarrow> nat \<Rightarrow> addr \<Rightarrow> (('d, 'it, 'sn, 'fs) world, pyval list option) py" where
  "collect py ldb 0 i = py_ret None"
| "collect py ldb (Suc n) i =
     py_bind (PyLevelDBIter_next py ldb i) (\<lambda>r.
     case r of
       None \<Rightarrow> py_ret (Some [])
     | Some v \<Rightarrow> py_bind (collect py ldb n i) (\<lambda>vs. py_ret (map_option ((#) v) vs)))"

lemma collect_walking:
  assumes c: "iterator_contract ldb cmp view" and cis: "compare_is py ldb (o_comparator opts) cmp"
  shows "walking w i s self p h opts d it x \<Longrightarrow> rest (it_is_reverse s) (view x) = es \<Longrightarrow>
     length es < n \<Longrightarrow>
     \<exists>w'. collect py ldb n i w =
       (Ret (Some (map (iter_item (it_include_value s))
          (takeWhile (within cmp (it_is_reverse s) (it_bound s)) es))), w')"
proof (induction es arbitrary: w x n)
  case Nil
  then obtain m where n: "n = Suc m" by (cases n) auto
  from next_end [OF c cis Nil.prems(1)] Nil.prems(2)
  obtain w' where "PyLevelDBIter_next py ldb i w = (Ret None, w')" by auto
  then show ?case by (simp add: n py_bind_Ret py_ret_def)
next
  case (Cons e es)
  from Cons.prems(3) obtain m where n: "n = Suc m" "length es < m" by (cases n) auto
  show ?case
  proof (cases "within cmp (it_is_reverse s) (it_bound s) e")
    case False
    with next_end [OF c cis Cons.prems(1)] Cons.prems(2)
    obtain w' where "PyLevelDBIter_next py ldb i w = (Ret None, w')" by auto
    with False show ?thesis by (simp add: n(1) py_bind_Ret py_ret_def)
  next
    case True
    from next_item [OF c cis Cons.prems(1,2) True] obtain x' where
      nx: "PyLevelDBIter_next py ldb i w =
            (Ret (Some (iter_item (it_include_value s) e)), w\<lparr>its := (its w)(it \<mapsto> (h, x'))\<rparr>)"
      and r': "rest (it_is_reverse s) (view x') = es" by blast
    have "walking (w\<lparr>its := (its w)(it \<mapsto> (h, x'))\<rparr>) i s self p h opts d it x'"
      using Cons.prems(1) by (simp add: walking_def db_open_def)
    from Cons.IH [OF this r' n(2)] obtain w' where
      "collect py ldb m i (w\<lparr>its := (its w)(it \<mapsto> (h, x'))\<rparr>) =
        (Ret (Some (map (iter_item (it_include_value s))
          (takeWhile (within cmp (it_is_reverse s) (it_bound s)) es))), w')" by blast
    with True show ?thesis by (simp add: n(1) py_bind_Ret [where m = "PyLevelDBIter_next py ldb i" and w = w, OF nx] py_bind_Ret py_ret_def)
  qed
qed

text \<open>From the start of the range to its bound: exactly the entries in the range\<close>

lemma takeWhile_start_entries:
  assumes ord: "cmp_order cmp" and srt: "sorted_entries cmp es"
  shows "takeWhile (within cmp r (if r then from else to))
      (start_entries cmp r (from \<noteq> None) (to \<noteq> None) (bytes_of (if r then to else from)) es) =
    range_entries cmp from to r es"
proof -
  note flip = cmp_order_flip_le [OF ord]
  let ?R = "\<lambda>x y. cmp (fst x) (fst y) < 0"
  have srt': "sorted_wrt ?R es" using srt by (simp add: sorted_entries_def)
  show ?thesis
  proof (cases r)
    case False
    let ?a = "\<lambda>e. case from of None \<Rightarrow> True | Some a \<Rightarrow> cmp a (fst e) \<le> 0"
    have st: "start_entries cmp r (from \<noteq> None) (to \<noteq> None) (bytes_of (if r then to else from)) es = filter ?a es"
      using False sorted_entries_below(1) [OF ord srt] by (cases "from") (simp_all add: start_entries_def bytes_of_def)
    have "takeWhile (within cmp False to) (filter ?a es) = filter (within cmp False to) (filter ?a es)"
    proof (rule sorted_dropWhile_filter(2) [where R = ?R])
      show "sorted_wrt ?R (filter ?a es)" using srt' by (rule sorted_wrt_filter)
      show "\<And>x y. ?R x y \<Longrightarrow> within cmp False to y \<Longrightarrow> within cmp False to x"
        using cmp_order_less_le [OF ord] flip
        by (auto simp: within_def intro: less_imp_le split: option.splits)
    qed
    with False st show ?thesis
      by (auto simp: range_entries_def within_def in_range_def flip intro!: filter_cong split: option.splits)
  next
    case True
    let ?b = "\<lambda>e. case to of None \<Rightarrow> True | Some b \<Rightarrow> cmp (fst e) b \<le> 0"
    have st: "start_entries cmp r (from \<noteq> None) (to \<noteq> None) (bytes_of (if r then to else from)) es = rev (filter ?b es)"
      using True sorted_entries_below(2) [OF ord srt] by (cases "to") (simp_all add: start_entries_def bytes_of_def)
    have "takeWhile (within cmp True from) (rev (filter ?b es)) =
        filter (within cmp True from) (rev (filter ?b es))"
    proof (rule sorted_dropWhile_filter(2) [where R = "\<lambda>x y. ?R y x"])
      show "sorted_wrt (\<lambda>x y. ?R y x) (rev (filter ?b es))"
        using srt' by (simp add: sorted_wrt_rev sorted_wrt_filter)
      show "\<And>x y. ?R y x \<Longrightarrow> within cmp True from y \<Longrightarrow> within cmp True from x"
        using cmp_order_le_less [OF ord]
        by (auto simp: within_def intro: less_imp_le split: option.splits)
    qed
    with True st show ?thesis
      by (auto simp: range_entries_def within_def in_range_def rev_filter intro!: filter_cong arg_cong [where f = rev] split: option.splits)
  qed
qed

section \<open>The whole call\<close>

text \<open>
  How a call \<open>RangeIter(key_from, key_to, ...)\<close> is parsed: a bound of \<open>None\<close> is absent,
  another one gives its bytes.
\<close>

definition bound_arg :: "py_api \<Rightarrow> pyval \<Rightarrow> bytes option \<Rightarrow> bool" where
  "bound_arg py v b \<longleftrightarrow>
     (case b of
        None \<Rightarrow> v = PyNone
      | Some x \<Rightarrow> v \<noteq> PyNone \<and> parse_one py v ''y*'' = Some [P_buf x])"

definition range_call ::
  "py_api \<Rightarrow> pyargs \<Rightarrow> bytes option \<Rightarrow> bytes option \<Rightarrow> bool \<Rightarrow> bool \<Rightarrow> bool \<Rightarrow> bool \<Rightarrow> bool" where
  "range_call py args from to verify_checksums fill_cache include_value is_reverse \<longleftrightarrow>
     (\<exists>ps. parse_tuple py ''|OOO!O!O!O!'' [T_bool, T_bool, T_bool, T_bool] range_kwlist args = Some ps \<and>
        n_bufs ps = 0 \<and>
        bound_arg py (arg_obj ps 0 PyNone) from \<and> bound_arg py (arg_obj ps 1 PyNone) to \<and>
        py_true (arg_obj ps 2 (PyBool False)) = verify_checksums \<and>
        py_true (arg_obj ps 3 (PyBool True)) = fill_cache \<and>
        py_true (arg_obj ps 4 (PyBool True)) = include_value \<and>
        py_true (arg_obj ps 5 (PyBool False)) = is_reverse)"

lemma bind_bound_arg:
  assumes "bound_arg py v b"
  shows "py_bind (if b \<noteq> None then PyArg_Parse_buffer py v else py_ret []) k w =
    k (bytes_of b) (w\<lparr>exports := exports w + (if b = None then 0 else 1)\<rparr>)"
  using assms
  by (cases b) (auto simp: bound_arg_def PyArg_Parse_buffer_def py_bind_def py_ret_def bytes_of_def)

lemma bind_release:
  "py_bind (if c then PY_LEVELDB_RELEASE_BUFFER else py_ret ()) k w =
    k () (w\<lparr>exports := exports w - (if c then 1 else 0)\<rparr>)"
  by (simp add: PY_LEVELDB_RELEASE_BUFFER_def py_bind_def py_ret_def py_modify_def)

lemma bind_new_iterator:
  assumes "db_open w self p h opts d" and "DB_NewIterator ldb ro d = (Some x, d')"
  shows "py_bind (new_iterator ldb self ro) k w =
    k (Some (next_handle w))
      (w\<lparr>dbs := (dbs w)(h \<mapsto> d'), its := (its w)(next_handle w \<mapsto> (h, x)),
         next_handle := Suc (next_handle w)\<rparr>)"
  using assms
  by (simp add: new_iterator_def db_open_def py_bind_def get_db_def deref_def call_db_def py_simps)

text \<open>An iterator object with nothing to walk ends the iteration at once.\<close>

lemma collect_detached:
  assumes "heap w i = Some (ObjIter s)" "it_ref s = None" "it_db s = None" "it_iterator s = None"
  shows "\<exists>w'. collect py ldb (Suc n) i w = (Ret (Some []), w')"
  using assms
  by (simp add: PyLevelDBIter_next_def PyLevelDBIter_clean_def py_bind_def get_iter_def delete_it_def
      Py_XDECREF_db_def set_iter_def py_simps)

lemma bound_arg_None: "bound_arg py v b \<Longrightarrow> (v \<noteq> PyNone) = (b \<noteq> None)"
  by (cases b) (auto simp: bound_arg_def)

text \<open>
  The state in which \<open>RangeIter\<close> positions its fresh iterator, and what it returns from
  there: an iterator object that walks the range.
\<close>

lemma range_iter_object:
  assumes c: "iterator_contract ldb cmp view" and ord: "cmp_order cmp"
    and cis: "compare_is py ldb (o_comparator opts) cmp"
    and w: "db_open w self p h opts d" "its w it = Some (h, x)" "alloc_fail w = []"
      "heap w (next_addr w) = None"
    and n: "length (fst (view x)) < n"
    and key: "key = bytes_of (if r then to else from)" and bd: "bound = (if r then from else to)"
  shows "\<exists>i w1 w2.
     py_bind (position_iterator py ldb self it r (from \<noteq> None) (to \<noteq> None) key) (\<lambda>_.
     py_bind (read_it it (It_Valid ldb)) (\<lambda>valid.
       if \<not> valid then py_bind (delete_it (Some it)) (\<lambda>_. PyLevelDBIter_New None None None None False False)
       else PyLevelDBIter_New (Some self) (Some self) (Some it) bound inc r)) w =
     (Ret (PyObj T_Iter i), w1) \<and> exports w1 = exports w \<and>
     collect py ldb n i w1 =
       (Ret (Some (map (iter_item inc) (range_entries cmp from to r (fst (view x))))), w2)"
proof -
  have srt: "sorted_entries cmp (fst (view x))" using c by (simp add: iterator_contract_def)
  from position_iterator_correct [OF c ord cis w(1-3)] obtain x' where
    pos: "position_iterator py ldb self it r (from \<noteq> None) (to \<noteq> None) key w =
        (Ret (), w\<lparr>its := (its w)(it \<mapsto> (h, x'))\<rparr>)"
    and r': "rest r (view x') = start_entries cmp r (from \<noteq> None) (to \<noteq> None) key (fst (view x))"
    by blast
  let ?w1 = "w\<lparr>its := (its w)(it \<mapsto> (h, x'))\<rparr>"
  have w1: "its ?w1 it = Some (h, x')" "dbs ?w1 h = Some d" "alloc_fail ?w1 = []"
    "heap ?w1 self = Some (ObjDB p)" and fresh: "next_addr w \<noteq> self"
    using w by (auto simp: db_open_def)
  have walk: "takeWhile (within cmp r bound) (rest r (view x')) =
      range_entries cmp from to r (fst (view x))"
    using takeWhile_start_entries [OF ord srt] r' key bd by simp
  note run = py_bind_Ret [where m = "position_iterator py ldb self it r (from \<noteq> None) (to \<noteq> None) key"
      and w = w, OF pos] bind_read_it [OF w1(1,2)]
  show ?thesis
  proof (cases "It_Valid ldb x'")
    case False
    then have "rest r (view x') = []" using it_valid_rest [OF c] by blast
    with walk have e: "range_entries cmp from to r (fst (view x)) = []" by simp
    obtain m where m: "n = Suc m" using n by (cases n) auto
    from False w1 show ?thesis unfolding run e m
      by (auto simp: py_bind_def delete_it_def PyLevelDBIter_New_def py_alloc_def new_object_def py_ret_def
          simp del: collect.simps intro!: collect_detached)
  next
    case True
    let ?s = "\<lparr>it_refcnt = 1, it_ref = Some self, it_db = Some self, it_iterator = Some it,
        it_bound = bound, it_is_reverse = r, it_include_value = inc\<rparr>"
    let ?p = "p\<lparr>db_refcnt := db_refcnt p + 1, n_iterators := n_iterators p + 1\<rparr>"
    let ?w2 = "?w1\<lparr>next_addr := Suc (next_addr w),
        heap := (heap w)(next_addr w \<mapsto> ObjIter ?s, self \<mapsto> ObjDB ?p)\<rparr>"
    have "walking ?w2 (next_addr w) ?s self ?p h opts d it x'"
      using w fresh by (simp add: walking_def db_open_def)
    moreover have "length (rest r (view x')) < n"
    proof -
      have "length (rest r (view x')) \<le> length (fst (view x))"
        unfolding r' start_entries_def
        by (auto simp: length_dropWhile_le length_takeWhile_le)
      with n show ?thesis by simp
    qed
    ultimately obtain w2 where "collect py ldb n (next_addr w) ?w2 =
        (Ret (Some (map (iter_item inc) (takeWhile (within cmp r bound) (rest r (view x'))))), w2)"
      using collect_walking [OF c cis, of ?w2 "next_addr w" ?s self ?p h d it x' "rest r (view x')" n]
      by auto
    with True w1 w fresh walk show ?thesis unfolding run
      by (auto simp: PyLevelDBIter_New_def py_bind_def py_alloc_def Py_INCREF_db_def get_db_def set_db_def
          new_object_def py_simps)
  qed
qed

text \<open>
  C6: \<open>RangeIter\<close> and its iterator, on an open database: the call returns an iterator, and
  listing it returns exactly the entries whose keys lie between the two inclusive bounds (an
  absent bound does not restrict), in key order, or in reverse key order when \<open>reverse\<close> is
  set, as pairs or as keys alone; every buffer the call acquires is released.
\<close>

theorem range_iter_correct:
  assumes c: "iterator_contract ldb cmp view" and ord: "cmp_order cmp"
    and cis: "compare_is py ldb (o_comparator opts) cmp"
    and w: "db_open w self p h opts d" "alloc_fail w = []" "heap w (next_addr w) = None"
    and args: "range_call py args from to verify fill inc r"
    and nw: "DB_NewIterator ldb
      \<lparr>ro_verify_checksums = verify, ro_fill_cache = fill, ro_snapshot = None\<rparr> d = (Some x, d')"
    and n: "length (fst (view x)) < n"
  shows "\<exists>i w1 w2. PyLevelDB_RangeIter py ldb self args w = (Ret (PyObj T_Iter i), w1) \<and>
     exports w1 = exports w \<and>
     collect py ldb n i w1 =
       (Ret (Some (map (iter_item inc) (range_entries cmp from to r (fst (view x))))), w2)"
proof -
  from args obtain ps where
    ps: "parse_tuple py ''|OOO!O!O!O!'' [T_bool, T_bool, T_bool, T_bool] range_kwlist args = Some ps"
      "n_bufs ps = 0"
    and a: "bound_arg py (arg_obj ps 0 PyNone) from" and b: "bound_arg py (arg_obj ps 1 PyNone) to"
    and fl: "py_true (arg_obj ps 2 (PyBool False)) = verify" "py_true (arg_obj ps 3 (PyBool True)) = fill"
      "py_true (arg_obj ps 4 (PyBool True)) = inc" "py_true (arg_obj ps 5 (PyBool False)) = r"
    unfolding range_call_def by blast
  let ?it = "next_handle w"
  let ?w1 = "w\<lparr>dbs := (dbs w)(h \<mapsto> d'), its := (its w)(?it \<mapsto> (h, x)), next_handle := Suc ?it\<rparr>"
  have hp: "heap w self = Some (ObjDB p)" using w(1) by (simp add: db_open_def)
  have w1: "db_open ?w1 self p h opts d'" "its ?w1 ?it = Some (h, x)" "alloc_fail ?w1 = []"
    "heap ?w1 (next_addr ?w1) = None" using w by (simp_all add: db_open_def)
  have parse: "py_bind (PyArg_ParseTupleAndKeywords py ''|OOO!O!O!O!'' [T_bool, T_bool, T_bool, T_bool]
      range_kwlist args) k w = k ps w" for k :: "_ \<Rightarrow> ('a, 'b, 'c, 'd) world \<Rightarrow> pyval outcome \<times> _"
    using ps by (simp add: py_bind_def PyArg_ParseTupleAndKeywords_def)
  have start: "PyLevelDB_RangeIter py ldb self args w =
     py_bind (position_iterator py ldb self ?it r (from \<noteq> None) (to \<noteq> None) (bytes_of (if r then to else from))) (\<lambda>_.
     py_bind (read_it ?it (It_Valid ldb)) (\<lambda>valid.
       if \<not> valid then py_bind (delete_it (Some ?it)) (\<lambda>_. PyLevelDBIter_New None None None None False False)
       else PyLevelDBIter_New (Some self) (Some self) (Some ?it) (if r then from else to) inc r)) ?w1"
  proof -
    have exp: "w\<lparr>exports := exports w + (if from = None then 0 else 1) + (if to = None then 0 else 1) -
        (if from \<noteq> None then 1 else 0) - (if to \<noteq> None then 1 else 0)\<rparr> = w"
      by (cases "from"; cases "to") simp_all
    have bd: "(if \<not> r \<and> to \<noteq> None then Some (bytes_of to)
        else if r \<and> from \<noteq> None then Some (bytes_of from) else None) = (if r then from else to)"
      by (cases "from"; cases "to") (simp_all add: bytes_of_def)
    have key: "(if r then bytes_of to else bytes_of from) = bytes_of (if r then to else from)"
      by simp
    show ?thesis
      unfolding PyLevelDB_RangeIter_def PyLevelDB_RangeIter_with_def parse Let_def
        bound_arg_None [OF a] bound_arg_None [OF b] bind_bound_arg [OF a] bind_bound_arg [OF b]
        bind_release fl bd key
      by (simp add: exp bind_get_db hp read_snapshot_def bind_ret bind_new_iterator [OF w(1) nw])
  qed
  have same: "exports ?w1 = exports w" by simp
  show ?thesis unfolding start
    by (rule range_iter_object [OF c ord cis w1 n refl refl, unfolded same])
qed

definition demo_range_args :: pyargs where
  "demo_range_args =
     \<lparr>posargs = [PyBytes [98], PyBytes [99]], kwargs = [(''reverse'', PyBool True)]\<rparr>"

theorem range_iter_correct_witness:
  "\<exists>i w1 w2. PyLevelDB_RangeIter demo_py mem_ldb 0 demo_range_args demo_world = (Ret (PyObj T_Iter i), w1) \<and>
     exports w1 = exports demo_world \<and>
     collect demo_py mem_ldb 10 i w1 =
       (Ret (Some [PyTuple [PyByteArray [99], PyByteArray [3]], PyTuple [PyByteArray [98], PyByteArray [2]]]), w2)"
proof -
  let ?x = "(demo_entries, None) :: mem_it" and ?d = "\<lparr>md_dir = [120], md_entries = demo_entries\<rparr>"
  have cis: "compare_is demo_py mem_ldb (o_comparator mem_options) lex_cmp"
    using compare_is_bytewise [of demo_py mem_ldb] by (simp add: mem_options_def mem_ldb_def)
  have op: "db_open demo_world 0 demo_PyLevelDB 0 mem_options ?d"
    by (simp add: db_open_def demo_world_def demo_PyLevelDB_def)
  have al: "alloc_fail demo_world = []" and nx: "heap demo_world (next_addr demo_world) = None"
    by (simp_all add: demo_world_def)
  have call: "range_call demo_py demo_range_args (Some [98]) (Some [99]) False True True True"
    by (simp add: range_call_def bound_arg_def demo_py_def demo_range_args_def range_kwlist_def Let_def
        arg_simps py_true_def)
  have nw: "DB_NewIterator mem_ldb
      \<lparr>ro_verify_checksums = False, ro_fill_cache = True, ro_snapshot = None\<rparr> ?d = (Some ?x, ?d)"
    by (simp add: mem_ldb_def)
  have v: "mem_view ?x = (demo_entries, None)"
    by (rule mem_view_ok) (simp_all add: demo_entries_def sorted_entries_def)
  have n: "length (fst (mem_view ?x)) < 10" unfolding v by (simp add: demo_entries_def)
  have r: "map (iter_item True) (range_entries lex_cmp (Some [98]) (Some [99]) True demo_entries) =
      [PyTuple [PyByteArray [99], PyByteArray [3]], PyTuple [PyByteArray [98], PyByteArray [2]]]"
    by (simp add: range_entries_def in_range_def demo_entries_def iter_item_def)
  from range_iter_correct [OF mem_iterator_contract cmp_order_lex cis op al nx call nw n] v r
  show ?thesis by simp
qed

end
