(* ===== verification/DataSpec.thy ===== *)
theory DataSpec
  imports RangeSpec
begin

text \<open>
  The data operations of the \<open>LevelDB\<close> object against a map: what \<open>Put\<close>, \<open>Get\<close>,
  \<open>Delete\<close>, \<open>Write\<close> and snapshots do to, and say about, the stored contents.
\<close>

section \<open>The store contract\<close>

text \<open>
  \<open>view d\<close> is the map an open database holds, \<open>sview s\<close> the map a snapshot shows. A
  failed write promises nothing about the contents.
\<close>

fun apply_op :: "(bytes \<rightharpoonup> bytes) \<Rightarrow> batch_op \<Rightarrow> (bytes \<rightharpoonup> bytes)" where
  "apply_op m (BatchPut k v) = m(k \<mapsto> v)"
| "apply_op m (BatchDelete k) = m(k := None)"

definition apply_ops :: "(bytes \<rightharpoonup> bytes) \<Rightarrow> batch_op list \<Rightarrow> (bytes \<rightharpoonup> bytes)" where
  "apply_ops m ops = foldl apply_op m ops"

definition store_contract ::
  "('d, 'it, 'sn, 'fs) leveldb \<Rightarrow> ('d \<Rightarrow> bytes \<rightharpoonup> bytes) \<Rightarrow> ('sn \<Rightarrow> bytes \<rightharpoonup> bytes) \<Rightarrow> bool" where
  "store_contract ldb view sview \<longleftrightarrow>
     (\<forall>wo k v d st d'. DB_Put ldb wo k v d = (st, d') \<longrightarrow> status_ok st \<longrightarrow> view d' = (view d)(k \<mapsto> v)) \<and>
     (\<forall>wo k d st d'. DB_Delete ldb wo k d = (st, d') \<longrightarrow> status_ok st \<longrightarrow> view d' = (view d)(k := None)) \<and>
     (\<forall>wo ops d st d'. DB_Write ldb wo ops d = (st, d') \<longrightarrow> status_ok st \<longrightarrow>
        view d' = apply_ops (view d) ops) \<and>
     (\<forall>ro k d st val d'. DB_Get ldb ro k d = ((st, val), d') \<longrightarrow>
        view d' = view d \<and>
        (status_ok st \<longrightarrow> (case ro_snapshot ro of None \<Rightarrow> view d | Some s \<Rightarrow> sview s) k = Some val) \<and>
        (status_not_found st \<longrightarrow> (case ro_snapshot ro of None \<Rightarrow> view d | Some s \<Rightarrow> sview s) k = None)) \<and>
     (\<forall>d s d'. DB_GetSnapshot ldb d = (s, d') \<longrightarrow> view d' = view d \<and> sview s = view d)"

lemma store_put: "store_contract ldb view sview \<Longrightarrow> DB_Put ldb wo k v d = (st, d') \<Longrightarrow> status_ok st \<Longrightarrow>
    view d' = (view d)(k \<mapsto> v)"
  by (simp add: store_contract_def)

lemma store_delete: "store_contract ldb view sview \<Longrightarrow> DB_Delete ldb wo k d = (st, d') \<Longrightarrow> status_ok st \<Longrightarrow>
    view d' = (view d)(k := None)"
  by (simp add: store_contract_def)

lemma store_write: "store_contract ldb view sview \<Longrightarrow> DB_Write ldb wo ops d = (st, d') \<Longrightarrow> status_ok st \<Longrightarrow>
    view d' = apply_ops (view d) ops"
  by (simp add: store_contract_def)

lemma store_get:
  assumes "store_contract ldb view sview" and "DB_Get ldb ro k d = ((st, val), d')"
  shows "view d' = view d"
    and "status_ok st \<Longrightarrow> (case ro_snapshot ro of None \<Rightarrow> view d | Some s \<Rightarrow> sview s) k = Some val"
    and "status_not_found st \<Longrightarrow> (case ro_snapshot ro of None \<Rightarrow> view d | Some s \<Rightarrow> sview s) k = None"
  using assms by (auto simp: store_contract_def)

lemma store_snapshot: "store_contract ldb view sview \<Longrightarrow> DB_GetSnapshot ldb d = (s, d') \<Longrightarrow>
    view d' = view d \<and> sview s = view d"
  by (simp add: store_contract_def)

section \<open>How calls are parsed\<close>

text \<open>
  The arguments give the key, the value, and the flags, which are \<open>True\<close> only when given as
  \<open>True\<close>; \<open>fill_cache\<close> is on by default.
\<close>

definition flag_arg :: "parg option \<Rightarrow> bool \<Rightarrow> bool" where
  "flag_arg q b = py_true (arg_obj [q] 0 (PyBool b))"

definition put_call :: "py_api \<Rightarrow> pyargs \<Rightarrow> bytes \<Rightarrow> bytes \<Rightarrow> bool \<Rightarrow> bool" where
  "put_call py args k v sync \<longleftrightarrow>
     (\<exists>s. parse_tuple py ''y*y*|O!'' [T_bool] [''key'', ''value'', ''sync''] args =
        Some [Some (P_buf k), Some (P_buf v), s] \<and> n_bufs [s] = 0 \<and> sync = flag_arg s False)"

definition delete_call :: "py_api \<Rightarrow> pyargs \<Rightarrow> bytes \<Rightarrow> bool \<Rightarrow> bool" where
  "delete_call py args k sync \<longleftrightarrow>
     (\<exists>s. parse_tuple py ''y*|O!'' [T_bool] [''key'', ''sync''] args = Some [Some (P_buf k), s] \<and>
        n_bufs [s] = 0 \<and> sync = flag_arg s False)"

definition get_call :: "py_api \<Rightarrow> pyargs \<Rightarrow> bytes \<Rightarrow> bool \<Rightarrow> bool \<Rightarrow> pyval option \<Rightarrow> bool" where
  "get_call py args k verify_checksums fill_cache dflt \<longleftrightarrow>
     (\<exists>vc fc. parse_tuple py ''y*|O!O!O'' [T_bool, T_bool]
        [''key'', ''verify_checksums'', ''fill_cache'', ''default''] args =
        Some [Some (P_buf k), vc, fc, map_option P_obj dflt] \<and>
        n_bufs [vc, fc, map_option P_obj dflt] = 0 \<and>
        verify_checksums = flag_arg vc False \<and> fill_cache = flag_arg fc True)"

definition write_call :: "py_api \<Rightarrow> pyargs \<Rightarrow> addr \<Rightarrow> bool \<Rightarrow> bool" where
  "write_call py args b sync \<longleftrightarrow>
     (\<exists>s. parse_tuple py ''O!|O!'' [T_WriteBatch, T_bool] [''write_batch'', ''sync''] args =
        Some [Some (P_obj (PyObj T_WriteBatch b)), s] \<and> n_bufs [s] = 0 \<and> sync = flag_arg s False)"

abbreviation get_options :: "bool \<Rightarrow> bool \<Rightarrow> 'sn option \<Rightarrow> 'sn read_options" where
  "get_options vc fc sv \<equiv> \<lparr>ro_verify_checksums = vc, ro_fill_cache = fc, ro_snapshot = sv\<rparr>"

section \<open>Put, Delete and Get\<close>

text \<open>What a lookup of \<open>k\<close> with the default \<open>dflt\<close> answers\<close>

definition lookup_result :: "(bytes \<rightharpoonup> bytes) \<Rightarrow> bytes \<Rightarrow> pyval option \<Rightarrow> pyval outcome" where
  "lookup_result m k dflt =
     (case m k of
        Some v \<Rightarrow> Ret (PyByteArray v)
      | None \<Rightarrow> (case dflt of Some f \<Rightarrow> Ret f | None \<Rightarrow> Raise KeyError))"

text \<open>\<open>db_holds w self m\<close>: the object is an open database that holds the map \<open>m\<close>.\<close>

definition db_holds ::
  "('d \<Rightarrow> bytes \<rightharpoonup> bytes) \<Rightarrow> ('d, 'it, 'sn, 'fs) world \<Rightarrow> addr \<Rightarrow> (bytes \<rightharpoonup> bytes) \<Rightarrow> bool" where
  "db_holds view w self m \<longleftrightarrow> (\<exists>p h opts d. db_open w self p h opts d \<and> view d = m)"

lemma bind_with_db:
  assumes "db_open w self p h opts d"
  shows "py_bind (with_db self f) k w = k (fst (f d)) (w\<lparr>dbs := (dbs w)(h \<mapsto> snd (f d))\<rparr>)"
  using assms by (simp add: with_db_def db_open_def py_bind_def get_db_def deref_def call_db_def py_ret_def split_def)

lemma bind_release1:
  "py_bind PY_LEVELDB_RELEASE_BUFFER k w = k () (w\<lparr>exports := exports w - 1\<rparr>)"
  by (simp add: PY_LEVELDB_RELEASE_BUFFER_def bind_modify)

lemma bind_parse:
  "parse_tuple py fmt ts kws args = Some ps \<Longrightarrow>
     py_bind (PyArg_ParseTupleAndKeywords py fmt ts kws args) k w =
     k ps (w\<lparr>exports := exports w + n_bufs ps\<rparr>)"
  by (simp add: py_bind_def PyArg_ParseTupleAndKeywords_def)

definition write_outcome :: "status \<Rightarrow> pyval outcome" where
  "write_outcome st =
     (if status_ok st then Ret PyNone else Raise (LevelDBError (c_str (status_to_string st))))"

lemma write_outcome_None: "write_outcome st = Ret PyNone \<longleftrightarrow> status_ok st"
  by (simp add: write_outcome_def)

lemma put_run:
  assumes call: "put_call py args k v sync" and op: "db_open w self p h opts d"
    and f: "DB_Put ldb \<lparr>wo_sync = sync\<rparr> k v d = (st, d')"
  shows "PyLevelDB_Put py ldb self args w = (write_outcome st, w\<lparr>dbs := (dbs w)(h \<mapsto> d')\<rparr>)"
proof -
  from call obtain s where ps: "parse_tuple py ''y*y*|O!'' [T_bool] [''key'', ''value'', ''sync''] args =
      Some [Some (P_buf k), Some (P_buf v), s]" and s: "n_bufs [s] = 0" "sync = flag_arg s False"
    unfolding put_call_def by blast
  have "db_open (w\<lparr>exports := exports w + 2\<rparr>) self p h opts d" using op by (simp add: db_open_def)
  note run = bind_parse [OF ps] bind_with_db [OF this] bind_release1
  show ?thesis
    using f s by (simp add: PyLevelDB_Put_def run Let_def flag_arg_def arg_simps PyLevelDB_set_error_def
        write_outcome_def py_simps)
qed

lemma delete_run:
  assumes call: "delete_call py args k sync" and op: "db_open w self p h opts d"
    and f: "DB_Delete ldb \<lparr>wo_sync = sync\<rparr> k d = (st, d')"
  shows "PyLevelDB_Delete py ldb self args w = (write_outcome st, w\<lparr>dbs := (dbs w)(h \<mapsto> d')\<rparr>)"
proof -
  from call obtain s where ps: "parse_tuple py ''y*|O!'' [T_bool] [''key'', ''sync''] args =
      Some [Some (P_buf k), s]" and s: "n_bufs [s] = 0" "sync = flag_arg s False"
    unfolding delete_call_def by blast
  have "db_open (w\<lparr>exports := exports w + 1\<rparr>) self p h opts d" using op by (simp add: db_open_def)
  note run = bind_parse [OF ps] bind_with_db [OF this] bind_release1
  show ?thesis
    using f s by (simp add: PyLevelDB_Delete_def run Let_def flag_arg_def arg_simps PyLevelDB_set_error_def
        write_outcome_def py_simps)
qed

text \<open>
  What \<open>Get\<close> answers for a status and a value, when the default is \<open>dflt\<close>.
\<close>

definition get_outcome :: "status \<Rightarrow> bytes \<Rightarrow> pyval option \<Rightarrow> pyval outcome" where
  "get_outcome st val dflt =
     (if status_not_found st then (case dflt of Some f \<Rightarrow> Ret f | None \<Rightarrow> Raise KeyError)
      else if status_ok st then Ret (PyByteArray val)
      else Raise (LevelDBError (c_str (status_to_string st))))"

lemma get_with_run:
  assumes call: "get_call py args k vc fc dflt" and d: "dbs w h = Some d"
    and sn: "read_snapshot (Some h) snap (w\<lparr>exports := exports w + 1\<rparr>) = (Ret sv, w\<lparr>exports := exports w + 1\<rparr>)"
    and al: "alloc_fail w = []" and f: "DB_Get ldb (get_options vc fc sv) k d = ((st, val), d')"
  shows "PyLevelDB_Get_with py ldb (Some h) snap args w = (get_outcome st val dflt, w\<lparr>dbs := (dbs w)(h \<mapsto> d')\<rparr>)"
proof -
  from call obtain q r where ps: "parse_tuple py ''y*|O!O!O'' [T_bool, T_bool]
        [''key'', ''verify_checksums'', ''fill_cache'', ''default''] args =
        Some [Some (P_buf k), q, r, map_option P_obj dflt]"
    and s: "n_bufs [q, r, map_option P_obj dflt] = 0" and flags: "vc = flag_arg q False" "fc = flag_arg r True"
    unfolding get_call_def by blast
  let ?ps = "[Some (P_buf k), q, r, map_option P_obj dflt]"
  have k: "arg_buf ?ps 0 = k" and dflt: "arg_opt ?ps 3 = dflt" by (cases dflt; simp add: arg_simps)+
  have flags: "py_true (arg_obj ?ps 1 (PyBool False)) = vc" "py_true (arg_obj ?ps 2 (PyBool True)) = fc"
    using flags by (simp_all add: flag_arg_def arg_simps)
  have d': "dbs (w\<lparr>exports := exports w + 1\<rparr>) h = Some d" using d by simp
  have run: "py_bind (read_snapshot (Some h) snap) g (w\<lparr>exports := exports w + 1\<rparr>) =
      g sv (w\<lparr>exports := exports w + 1\<rparr>)" for g :: "_ \<Rightarrow> _ \<Rightarrow> pyval outcome \<times> _"
    using sn by (simp add: py_bind_def)
  show ?thesis
    using al f
    by (auto simp: PyLevelDB_Get_with_def bind_parse [OF ps] s bind_deref run bind_call_db [OF d'] k dflt flags [simplified]
        Let_def bind_release1 get_outcome_def PyLevelDB_set_error_def bind_alloc py_simps
        split: option.split)
qed

lemma get_run:
  assumes "get_call py args k vc fc dflt" and op: "db_open w self p h opts d" and "alloc_fail w = []"
    and f: "DB_Get ldb (get_options vc fc None) k d = ((st, val), d')"
  shows "PyLevelDB_Get py ldb self args w = (get_outcome st val dflt, w\<lparr>dbs := (dbs w)(h \<mapsto> d')\<rparr>)"
proof -
  have d: "dbs w h = Some d" and hp: "heap w self = Some (ObjDB p)" and h: "db_db p = Some h"
    using op by (simp_all add: db_open_def)
  from get_with_run [OF assms(1) d _ assms(3) f, of None]
  show ?thesis by (simp add: PyLevelDB_Get_def bind_get_db [OF hp] h read_snapshot_def py_ret_def)
qed

lemma db_open_dbs [simp]:
  "db_open w self p h opts d \<Longrightarrow> db_open (w\<lparr>dbs := (dbs w)(h \<mapsto> d')\<rparr>) self p h opts d'"
  by (simp add: db_open_def)

text \<open>
  The answer that the status of the library's \<open>Get\<close> leads to: the lookup, unless the library
  reports another failure, which becomes the \<open>LevelDBError\<close> with its message.
\<close>

definition answer :: "status \<Rightarrow> (bytes \<rightharpoonup> bytes) \<Rightarrow> bytes \<Rightarrow> pyval option \<Rightarrow> pyval outcome" where
  "answer st m k dflt =
     (if status_ok st \<or> status_not_found st then lookup_result m k dflt
      else Raise (LevelDBError (c_str (status_to_string st))))"

lemma get_outcome_answer:
  assumes "store_contract ldb view sview" and "DB_Get ldb (get_options vc fc sv) k d = ((st, val), d')"
  shows "get_outcome st val dflt = answer st (case sv of None \<Rightarrow> view d | Some s \<Rightarrow> sview s) k dflt"
  using store_get(2,3) [OF assms]
  by (auto simp: answer_def get_outcome_def lookup_result_def)

lemma get_answer:
  assumes "store_contract ldb view sview" and "get_call py args k vc fc dflt"
    and "db_open w self p h opts d" and "alloc_fail w = []"
    and "DB_Get ldb (get_options vc fc None) k d = ((st, val), d')"
  shows "PyLevelDB_Get py ldb self args w = (answer st (view d) k dflt, w\<lparr>dbs := (dbs w)(h \<mapsto> d')\<rparr>)"
  using get_run [OF assms(2-5)] get_outcome_answer [OF assms(1,5), of dflt] by simp

lemma answer_update:
  "answer st (m(k \<mapsto> v)) k' dflt =
     (if k' = k then if status_ok st \<or> status_not_found st then Ret (PyByteArray v)
        else Raise (LevelDBError (c_str (status_to_string st)))
      else answer st m k' dflt)"
  by (simp add: answer_def lookup_result_def)

lemma answer_delete:
  "answer st (m(k := None)) k' dflt =
     (if k' = k then if status_ok st \<or> status_not_found st then (case dflt of Some f \<Rightarrow> Ret f | None \<Rightarrow> Raise KeyError)
        else Raise (LevelDBError (c_str (status_to_string st)))
      else answer st m k' dflt)"
  by (simp add: answer_def lookup_result_def)

text \<open>
  C13: \<open>Get\<close> on an open database calls the library with the key and the flags of the arguments. When
  the library finds the key or reports that it does not, it answers with the stored value, or, for an absent key, with
  the \<open>default\<close> argument or \<open>KeyError\<close>; only when the library reports another failure does it
  raise \<open>LevelDBError\<close>, with the message of that status. It leaves the contents and the buffer
  count unchanged.
\<close>

theorem get_correct:
  assumes "store_contract ldb view sview" and "get_call py args k vc fc dflt"
    and "db_open w self p h opts d" and "alloc_fail w = []"
    and "DB_Get ldb \<lparr>ro_verify_checksums = vc, ro_fill_cache = fc, ro_snapshot = None\<rparr> k d = ((st, val), d')"
  shows "\<exists>w'. PyLevelDB_Get py ldb self args w =
       (if status_ok st \<or> status_not_found st then lookup_result (view d) k dflt
        else Raise (LevelDBError (c_str (status_to_string st))), w') \<and>
     db_open w' self p h opts d' \<and> view d' = view d \<and> exports w' = exports w"
  using get_answer [OF assms] store_get(1) [OF assms(1,5)] assms(3) by (simp add: answer_def)

text \<open>
  C11: When the library's write succeeds, \<open>Put\<close> returns and \<open>Get\<close> of the same key then answers
  with the value put (never with \<open>KeyError\<close> or the default), and \<open>Get\<close> of any other key as the contents before the
  \<open>Put\<close> have it; a \<open>Get\<close> raises \<open>LevelDBError\<close> only for a failure the library reports to it.
\<close>

theorem put_then_get:
  assumes "store_contract ldb view sview" and put: "put_call py args k v sync" and get: "get_call py gargs k' vc fc dflt"
    and op: "db_open w self p h opts d" and al: "alloc_fail w = []"
    and f: "DB_Put ldb \<lparr>wo_sync = sync\<rparr> k v d = (st, d1)" and ok: "status_ok st"
    and g: "DB_Get ldb \<lparr>ro_verify_checksums = vc, ro_fill_cache = fc, ro_snapshot = None\<rparr> k' d1 = ((st', val), d2)"
  shows "\<exists>w1. PyLevelDB_Put py ldb self args w = (Ret PyNone, w1) \<and>
     fst (PyLevelDB_Get py ldb self gargs w1) =
       (if status_ok st' \<or> status_not_found st'
        then if k' = k then Ret (PyByteArray v) else lookup_result (view d) k' dflt
        else Raise (LevelDBError (c_str (status_to_string st'))))"
proof -
  let ?w1 = "w\<lparr>dbs := (dbs w)(h \<mapsto> d1)\<rparr>"
  have "PyLevelDB_Put py ldb self args w = (Ret PyNone, ?w1)"
    using put_run [OF put op f] ok by (simp add: write_outcome_def)
  moreover have "db_open ?w1 self p h opts d1" "alloc_fail ?w1 = []" using op al by simp_all
  from get_answer [OF assms(1) get this g] store_put [OF assms(1) f ok]
  have "fst (PyLevelDB_Get py ldb self gargs ?w1) = answer st' ((view d)(k \<mapsto> v)) k' dflt" by simp
  ultimately show ?thesis by (simp add: answer_update) (simp add: answer_def)
qed

text \<open>
  C12: When the library's deletion succeeds, \<open>Delete\<close> returns and \<open>Get\<close> of the same key then gives
  the default or raises \<open>KeyError\<close>, and \<open>Get\<close> of any other key answers as the contents before have it; a \<open>Get\<close>
  raises \<open>LevelDBError\<close> only for a failure the library reports to it.
\<close>

theorem delete_then_get:
  assumes "store_contract ldb view sview" and del: "delete_call py args k sync" and get: "get_call py gargs k' vc fc dflt"
    and op: "db_open w self p h opts d" and al: "alloc_fail w = []"
    and f: "DB_Delete ldb \<lparr>wo_sync = sync\<rparr> k d = (st, d1)" and ok: "status_ok st"
    and g: "DB_Get ldb \<lparr>ro_verify_checksums = vc, ro_fill_cache = fc, ro_snapshot = None\<rparr> k' d1 = ((st', val), d2)"
  shows "\<exists>w1. PyLevelDB_Delete py ldb self args w = (Ret PyNone, w1) \<and>
     fst (PyLevelDB_Get py ldb self gargs w1) =
       (if status_ok st' \<or> status_not_found st'
        then if k' = k then (case dflt of Some f \<Rightarrow> Ret f | None \<Rightarrow> Raise KeyError) else lookup_result (view d) k' dflt
        else Raise (LevelDBError (c_str (status_to_string st'))))"
proof -
  let ?w1 = "w\<lparr>dbs := (dbs w)(h \<mapsto> d1)\<rparr>"
  have "PyLevelDB_Delete py ldb self args w = (Ret PyNone, ?w1)"
    using delete_run [OF del op f] ok by (simp add: write_outcome_def)
  moreover have "db_open ?w1 self p h opts d1" "alloc_fail ?w1 = []" using op al by simp_all
  from get_answer [OF assms(1) get this g] store_delete [OF assms(1) f ok]
  have "fst (PyLevelDB_Get py ldb self gargs ?w1) = answer st' ((view d)(k := None)) k' dflt" by simp
  ultimately show ?thesis by (simp add: answer_delete) (simp add: answer_def)
qed

section \<open>Write batches\<close>

text \<open>A recorded call on a batch object and the operation it stands for\<close>

datatype batch_call = CallPut pyargs | CallDelete pyargs

fun run_batch_call :: "py_api \<Rightarrow> addr \<Rightarrow> batch_call \<Rightarrow> (('d, 'it, 'sn, 'fs) world, pyval) py" where
  "run_batch_call py b (CallPut args) = PyWriteBatch_Put py b args"
| "run_batch_call py b (CallDelete args) = PyWriteBatch_Delete py b args"

fun run_batch_calls :: "py_api \<Rightarrow> addr \<Rightarrow> batch_call list \<Rightarrow> (('d, 'it, 'sn, 'fs) world, unit) py" where
  "run_batch_calls py b [] = py_ret ()"
| "run_batch_calls py b (c # cs) = py_bind (run_batch_call py b c) (\<lambda>_. run_batch_calls py b cs)"

fun batch_call_is :: "py_api \<Rightarrow> batch_call \<Rightarrow> batch_op \<Rightarrow> bool" where
  "batch_call_is py (CallPut args) (BatchPut k v) =
     (parse_tuple py ''y*y*'' [] [] args = Some [Some (P_buf k), Some (P_buf v)])"
| "batch_call_is py (CallDelete args) (BatchDelete k) =
     (parse_tuple py ''y*'' [] [] args = Some [Some (P_buf k)])"
| "batch_call_is py _ _ = False"

lemma bind_get_batch: "heap w a = Some (ObjBatch B) \<Longrightarrow> py_bind (get_batch a) k w = k B w"
  by (simp add: py_bind_def get_batch_def)

lemma run_batch_call_ok:
  assumes "batch_call_is py c op" and "heap w b = Some (ObjBatch B)"
  shows "\<exists>e. batch_op_of e = op \<and> run_batch_call py b c w =
     (Ret PyNone, w\<lparr>heap := (heap w)(b \<mapsto> ObjBatch (B\<lparr>wb_ops := wb_ops B @ [e]\<rparr>))\<rparr>)"
proof (cases "(py, c, op)" rule: batch_call_is.cases)
  case (1 py' args k v)
  then have eq: "c = CallPut args" "op = BatchPut k v" by auto
  with assms(1) have ps: "parse_tuple py ''y*y*'' [] [] args = Some [Some (P_buf k), Some (P_buf v)]" by simp
  note run = bind_parse [OF ps] bind_release1 bind_get_batch [OF assms(2)]
  show ?thesis unfolding eq
    by (intro exI [of _ "\<lparr>is_put = True, e_key = k, e_value = v\<rparr>"])
      (simp add: PyWriteBatch_Put_def run Let_def arg_simps batch_op_of_def set_batch_def bind_modify py_ret_def)
next
  case (2 py' args k)
  then have eq: "c = CallDelete args" "op = BatchDelete k" by auto
  with assms(1) have ps: "parse_tuple py ''y*'' [] [] args = Some [Some (P_buf k)]" by simp
  note run = bind_parse [OF ps] bind_release1 bind_get_batch [OF assms(2)]
  show ?thesis unfolding eq
    by (intro exI [of _ "\<lparr>is_put = False, e_key = k, e_value = []\<rparr>"])
      (simp add: PyWriteBatch_Delete_def run Let_def arg_simps batch_op_of_def set_batch_def bind_modify py_ret_def)
qed (use assms(1) in auto)

lemma run_batch_calls_ok:
  assumes "list_all2 (batch_call_is py) cs ops" and "heap w b = Some (ObjBatch B)"
  shows "\<exists>es. map batch_op_of es = ops \<and> run_batch_calls py b cs w =
     (Ret (), w\<lparr>heap := (heap w)(b \<mapsto> ObjBatch (B\<lparr>wb_ops := wb_ops B @ es\<rparr>))\<rparr>)"
  using assms
proof (induction cs ops arbitrary: w B rule: list_all2_induct)
  case Nil
  then have "(heap w)(b \<mapsto> ObjBatch B) = heap w" by (simp add: fun_upd_idem)
  then show ?case by (intro exI [of _ "[]"]) (simp add: py_ret_def)
next
  case (Cons c cs op ops)
  from run_batch_call_ok [OF Cons.hyps(1) Cons.prems] obtain e where
    e: "batch_op_of e = op" and r: "run_batch_call py b c w =
      (Ret PyNone, w\<lparr>heap := (heap w)(b \<mapsto> ObjBatch (B\<lparr>wb_ops := wb_ops B @ [e]\<rparr>))\<rparr>)" by blast
  let ?B = "B\<lparr>wb_ops := wb_ops B @ [e]\<rparr>"
  let ?w = "w\<lparr>heap := (heap w)(b \<mapsto> ObjBatch ?B)\<rparr>"
  have "heap ?w b = Some (ObjBatch ?B)" by simp
  from Cons.IH [OF this] obtain es where es: "map batch_op_of es = ops" and
    rest: "run_batch_calls py b cs ?w =
      (Ret (), ?w\<lparr>heap := (heap ?w)(b \<mapsto> ObjBatch (?B\<lparr>wb_ops := wb_ops ?B @ es\<rparr>))\<rparr>)" by blast
  have "run_batch_calls py b (c # cs) w = run_batch_calls py b cs ?w"
    by (simp only: run_batch_calls.simps py_bind_def r split_conv outcome.case prod.case)
  also note rest
  also have "?w\<lparr>heap := (heap ?w)(b \<mapsto> ObjBatch (?B\<lparr>wb_ops := wb_ops ?B @ es\<rparr>))\<rparr> =
      w\<lparr>heap := (heap w)(b \<mapsto> ObjBatch (B\<lparr>wb_ops := wb_ops B @ (e # es)\<rparr>))\<rparr>" by simp
  finally have "run_batch_calls py b (c # cs) w =
      (Ret (), w\<lparr>heap := (heap w)(b \<mapsto> ObjBatch (B\<lparr>wb_ops := wb_ops B @ (e # es)\<rparr>))\<rparr>)" .
  moreover have "map batch_op_of (e # es) = op # ops" using e es by simp
  ultimately show ?case by (rule_tac x = "e # es" in exI) (rule conjI)
qed

text \<open>
  C10: A write batch: after any sequence of \<open>Put\<close> and \<open>Delete\<close> calls recorded on a batch object,
  \<open>Write\<close> hands the library, in one call, first the operations the batch held and then the
  recorded ones, in the order of the calls, with the \<open>sync\<close> flag of the arguments. It returns exactly when the library reports
  success, and the stored map then has these operations applied in that order (a later operation on a key wins); otherwise it
  raises \<open>LevelDBError\<close> with the message of the library's status.
\<close>

theorem write_batch_order:
  assumes "store_contract ldb view sview" and calls: "list_all2 (batch_call_is py) cs ops"
    and b: "heap w b = Some (ObjBatch B)" and op: "db_open w self p h opts d"
    and wr: "write_call py args b sync"
    and f: "DB_Write ldb \<lparr>wo_sync = sync\<rparr> (map batch_op_of (wb_ops B) @ ops) d = (st, d2)"
  shows "\<exists>w1 w2. run_batch_calls py b cs w = (Ret (), w1) \<and>
     PyLevelDB_Write py ldb self args w1 =
       (if status_ok st then Ret PyNone else Raise (LevelDBError (c_str (status_to_string st))), w2) \<and>
     db_open w2 self p h opts d2 \<and>
     (status_ok st \<longrightarrow> view d2 = apply_ops (view d) (map batch_op_of (wb_ops B) @ ops))"
proof -
  from run_batch_calls_ok [OF calls b] obtain es where es: "map batch_op_of es = ops"
    and run1: "run_batch_calls py b cs w =
      (Ret (), w\<lparr>heap := (heap w)(b \<mapsto> ObjBatch (B\<lparr>wb_ops := wb_ops B @ es\<rparr>))\<rparr>)" by blast
  let ?w1 = "w\<lparr>heap := (heap w)(b \<mapsto> ObjBatch (B\<lparr>wb_ops := wb_ops B @ es\<rparr>))\<rparr>"
  from wr obtain s where ps: "parse_tuple py ''O!|O!'' [T_WriteBatch, T_bool] [''write_batch'', ''sync''] args =
        Some [Some (P_obj (PyObj T_WriteBatch b)), s]" and s: "n_bufs [s] = 0" "sync = flag_arg s False"
    unfolding write_call_def by blast
  have ne: "b \<noteq> self" using b op by (auto simp: db_open_def)
  have hb: "heap ?w1 b = Some (ObjBatch (B\<lparr>wb_ops := wb_ops B @ es\<rparr>))" by simp
  have op1: "db_open ?w1 self p h opts d" using op ne by (simp add: db_open_def)
  have run2: "PyLevelDB_Write py ldb self args ?w1 = (write_outcome st, ?w1\<lparr>dbs := (dbs ?w1)(h \<mapsto> d2)\<rparr>)"
    using f es s
    by (simp add: PyLevelDB_Write_def bind_parse [OF ps] Let_def flag_arg_def arg_simps bind_get_batch [OF hb]
        bind_with_db [OF op1] fill_batch_eq write_outcome_def PyLevelDB_set_error_def py_simps)
  have "db_open (?w1\<lparr>dbs := (dbs ?w1)(h \<mapsto> d2)\<rparr>) self p h opts d2"
    using op1 by (simp add: db_open_def)
  with run1 run2 store_write [OF assms(1) f] show ?thesis unfolding write_outcome_def by blast
qed

section \<open>The in-memory store\<close>

lemma map_of_mem_insert: "map_of (mem_insert k v es) = (map_of es)(k \<mapsto> v)"
  by (induction k v es rule: mem_insert.induct) (auto simp: fun_eq_iff)

lemma map_of_mem_remove: "map_of (mem_remove k es) = (map_of es)(k := None)"
  by (induction es) (auto simp: mem_remove_def fun_eq_iff)

lemma map_of_mem_apply: "map_of (mem_apply op es) = apply_op (map_of es) op"
  by (cases op) (simp_all add: map_of_mem_insert map_of_mem_remove)

lemma map_of_mem_write:
  "map_of (foldl (\<lambda>es op. mem_apply op es) es ops) = apply_ops (map_of es) ops"
  by (induction ops arbitrary: es) (simp_all add: apply_ops_def map_of_mem_apply)

definition mem_map :: "memdb \<Rightarrow> bytes \<rightharpoonup> bytes" where
  "mem_map d = map_of (md_entries d)"

lemma mem_store_contract: "store_contract mem_ldb mem_map map_of"
  by (auto simp: store_contract_def mem_ldb_def mem_map_def map_of_mem_insert map_of_mem_remove
      map_of_mem_write mem_get_def split: option.splits)

lemma demo_open:
  "db_open demo_world 0 demo_PyLevelDB 0 mem_options \<lparr>md_dir = [120], md_entries = demo_entries\<rparr>"
  "alloc_fail demo_world = []" "heap demo_world (next_addr demo_world) = None"
  by (simp_all add: db_open_def demo_world_def demo_PyLevelDB_def)

definition key_args :: "bytes \<Rightarrow> pyargs" where
  "key_args k = \<lparr>posargs = [PyBytes k], kwargs = []\<rparr>"

definition put_args :: "bytes \<Rightarrow> bytes \<Rightarrow> pyargs" where
  "put_args k v = \<lparr>posargs = [PyBytes k, PyBytes v], kwargs = []\<rparr>"

lemma demo_calls:
  "get_call demo_py (key_args k) k False True None" "delete_call demo_py (key_args k) k False"
  "put_call demo_py (put_args k v) k v False"
  by (simp_all add: get_call_def delete_call_def put_call_def demo_py_def key_args_def put_args_def Let_def
      flag_arg_def arg_simps py_true_def)

definition demo_memdb :: memdb where
  "demo_memdb = \<lparr>md_dir = [120], md_entries = demo_entries\<rparr>"

lemma demo_db_open: "db_open demo_world 0 demo_PyLevelDB 0 mem_options demo_memdb"
  using demo_open(1) by (simp add: demo_memdb_def)

lemma mem_get_ok: "map_of (md_entries d) k = Some v \<Longrightarrow> DB_Get mem_ldb (get_options vc fc None) k d = ((S_OK, v), d)"
  "map_of (md_entries d) k = None \<Longrightarrow> DB_Get mem_ldb (get_options vc fc None) k d = ((S_NotFound [110], []), d)"
  by (simp_all add: mem_ldb_def mem_get_def)

theorem get_correct_witness:
  "\<exists>w'. PyLevelDB_Get demo_py mem_ldb 0 (key_args [98]) demo_world = (Ret (PyByteArray [2]), w') \<and>
     db_open w' 0 demo_PyLevelDB 0 mem_options demo_memdb \<and> exports w' = exports demo_world"
proof -
  have m: "map_of (md_entries demo_memdb) [98] = Some [2]" by (simp add: demo_memdb_def demo_entries_def)
  from get_correct [OF mem_store_contract demo_calls(1) demo_db_open demo_open(2) mem_get_ok(1) [OF m]]
  show ?thesis by (simp add: mem_map_def m lookup_result_def)
qed

theorem put_then_get_witness:
  "\<exists>w1. PyLevelDB_Put demo_py mem_ldb 0 (put_args [98] [7]) demo_world = (Ret PyNone, w1) \<and>
     fst (PyLevelDB_Get demo_py mem_ldb 0 (key_args [98]) w1) = Ret (PyByteArray [7])"
proof -
  let ?d = "demo_memdb\<lparr>md_entries := mem_insert [98] [7] demo_entries\<rparr>"
  have p: "DB_Put mem_ldb \<lparr>wo_sync = False\<rparr> [98] [7] demo_memdb = (S_OK, ?d)"
    by (simp add: mem_ldb_def demo_memdb_def)
  have m: "map_of (md_entries ?d) [98] = Some [7]" by (simp add: map_of_mem_insert)
  from put_then_get [OF mem_store_contract demo_calls(3,1) demo_db_open demo_open(2) p _ mem_get_ok(1) [OF m]]
  show ?thesis by simp
qed

theorem delete_then_get_witness:
  "\<exists>w1. PyLevelDB_Delete demo_py mem_ldb 0 (key_args [98]) demo_world = (Ret PyNone, w1) \<and>
     fst (PyLevelDB_Get demo_py mem_ldb 0 (key_args [98]) w1) = Raise KeyError"
proof -
  let ?d = "demo_memdb\<lparr>md_entries := mem_remove [98] demo_entries\<rparr>"
  have p: "DB_Delete mem_ldb \<lparr>wo_sync = False\<rparr> [98] demo_memdb = (S_OK, ?d)"
    by (simp add: mem_ldb_def demo_memdb_def)
  have m: "map_of (md_entries ?d) [98] = None" by (simp add: map_of_mem_remove)
  from delete_then_get [OF mem_store_contract demo_calls(2,1) demo_db_open demo_open(2) p _ mem_get_ok(2) [OF m]]
  show ?thesis by simp
qed

text \<open>The example world with an empty batch object at address 1\<close>

definition demo_batch_world :: "(memdb, mem_it, entry list, mem_fs) world" where
  "demo_batch_world =
     demo_world\<lparr>heap := (heap demo_world)(1 \<mapsto> ObjBatch \<lparr>wb_refcnt = 1, wb_ops = []\<rparr>), next_addr := 2\<rparr>"

theorem write_batch_order_witness:
  "\<exists>w1 w2 d2. run_batch_calls demo_py 1 [CallPut (put_args [98] [7]), CallDelete (key_args [98])]
       demo_batch_world = (Ret (), w1) \<and>
     PyLevelDB_Write demo_py mem_ldb 0 \<lparr>posargs = [PyObj T_WriteBatch 1], kwargs = []\<rparr> w1 = (Ret PyNone, w2) \<and>
     db_open w2 0 demo_PyLevelDB 0 mem_options d2 \<and> mem_map d2 [98] = None"
proof -
  have cs: "list_all2 (batch_call_is demo_py) [CallPut (put_args [98] [7]), CallDelete (key_args [98])]
      [BatchPut [98] [7], BatchDelete [98]]"
    by (simp add: demo_py_def put_args_def key_args_def Let_def)
  have b: "heap demo_batch_world 1 = Some (ObjBatch \<lparr>wb_refcnt = 1, wb_ops = []\<rparr>)"
    by (simp add: demo_batch_world_def)
  have op: "db_open demo_batch_world 0 demo_PyLevelDB 0 mem_options demo_memdb"
    by (simp add: db_open_def demo_batch_world_def demo_world_def demo_PyLevelDB_def demo_memdb_def)
  have wr: "write_call demo_py \<lparr>posargs = [PyObj T_WriteBatch 1], kwargs = []\<rparr> 1 False"
    by (simp add: write_call_def demo_py_def Let_def flag_arg_def arg_simps py_true_def)
  have f: "\<exists>d2. DB_Write mem_ldb \<lparr>wo_sync = False\<rparr> (map batch_op_of (wb_ops \<lparr>wb_refcnt = 1, wb_ops = []\<rparr>) @
      [BatchPut [98] [7], BatchDelete [98]]) demo_memdb = (S_OK, d2)"
    by (simp add: mem_ldb_def)
  then obtain d2 where d2: "DB_Write mem_ldb \<lparr>wo_sync = False\<rparr> (map batch_op_of (wb_ops \<lparr>wb_refcnt = 1, wb_ops = []\<rparr>) @
      [BatchPut [98] [7], BatchDelete [98]]) demo_memdb = (S_OK, d2)" by blast
  have m: "apply_ops m (map batch_op_of (wb_ops \<lparr>wb_refcnt = 1, wb_ops = []\<rparr>) @ [BatchPut [98] [7], BatchDelete [98]]) [98] = None" for m
    by (simp add: apply_ops_def)
  from write_batch_order [OF mem_store_contract cs b op wr d2] m show ?thesis unfolding status_ok.simps if_True by metis
qed

end
