(* ===== verification/SnapshotSpec.thy ===== *)
theory SnapshotSpec
  imports DataSpec
begin

text \<open>
  Snapshots: what a snapshot object answers after any number of later writes through the
  database object.
\<close>

section \<open>What the writing operations leave alone\<close>

definition same_objects :: "('d, 'it, 'sn, 'fs) world \<Rightarrow> ('d, 'it, 'sn, 'fs) world \<Rightarrow> bool" where
  "same_objects w w' \<longleftrightarrow>
     heap w' = heap w \<and> sns w' = sns w \<and> its w' = its w \<and> dom (dbs w') = dom (dbs w) \<and>
     alloc_fail w' = alloc_fail w"

lemma same_objects_order: "reflp same_objects" "transp same_objects"
  by (auto simp: same_objects_def intro!: reflpI transpI)

lemmas keeps_same =
  keeps_bind [OF same_objects_order(2)] keeps_ret [OF same_objects_order(1)]
  keeps_raise [OF same_objects_order(1)] keeps_crash [OF same_objects_order(1)] keeps_if

lemma keeps_parse: "keeps same_objects (PyArg_ParseTupleAndKeywords py fmt ts kws args)"
  by (auto simp: keeps_def same_objects_def PyArg_ParseTupleAndKeywords_def split: option.split)

lemma keeps_release: "keeps same_objects PY_LEVELDB_RELEASE_BUFFER"
  by (auto simp: keeps_def same_objects_def PY_LEVELDB_RELEASE_BUFFER_def py_modify_def)

lemma keeps_get_db: "keeps same_objects (get_db a)"
  by (auto simp: keeps_def same_objects_def get_db_def split: option.split pyobject.split)

lemma keeps_get_batch: "keeps same_objects (get_batch a)"
  by (auto simp: keeps_def same_objects_def get_batch_def split: option.split pyobject.split)

lemma keeps_call_db: "keeps same_objects (call_db h f)"
  by (auto simp: keeps_def same_objects_def call_db_def split: option.split prod.split)

lemma keeps_deref: "keeps same_objects (deref q)"
  by (cases q) (simp_all add: deref_def keeps_same)

lemma keeps_with_db: "keeps same_objects (with_db a f)"
  unfolding with_db_def by (intro keeps_same keeps_get_db keeps_deref keeps_call_db)

lemmas keeps_steps = keeps_parse keeps_release keeps_get_batch keeps_with_db

lemma keeps_Put: "keeps same_objects (PyLevelDB_Put py ldb self args)"
  unfolding PyLevelDB_Put_def Let_def PyLevelDB_set_error_def by (intro keeps_same keeps_steps)

lemma keeps_Delete: "keeps same_objects (PyLevelDB_Delete py ldb self args)"
  unfolding PyLevelDB_Delete_def Let_def PyLevelDB_set_error_def by (intro keeps_same keeps_steps)

lemma keeps_Write: "keeps same_objects (PyLevelDB_Write py ldb self args)"
  unfolding PyLevelDB_Write_def Let_def PyLevelDB_set_error_def
  by (intro keeps_same keeps_steps) (auto intro!: keeps_same keeps_steps split: pyval.split pytype.split)

text \<open>Calls that write, made one after the other; a caller may go on after an exception.\<close>

datatype write_call_op = WPut pyargs | WDelete pyargs | WWrite pyargs

fun run_write ::
  "py_api \<Rightarrow> ('d, 'it, 'sn, 'fs) leveldb \<Rightarrow> addr \<Rightarrow> write_call_op \<Rightarrow> (('d, 'it, 'sn, 'fs) world, pyval) py" where
  "run_write py ldb self (WPut args) = PyLevelDB_Put py ldb self args"
| "run_write py ldb self (WDelete args) = PyLevelDB_Delete py ldb self args"
| "run_write py ldb self (WWrite args) = PyLevelDB_Write py ldb self args"

fun run_writes ::
  "py_api \<Rightarrow> ('d, 'it, 'sn, 'fs) leveldb \<Rightarrow> addr \<Rightarrow> write_call_op list \<Rightarrow> ('d, 'it, 'sn, 'fs) world \<Rightarrow>
    ('d, 'it, 'sn, 'fs) world" where
  "run_writes py ldb self [] w = w"
| "run_writes py ldb self (c # cs) w = run_writes py ldb self cs (snd (run_write py ldb self c w))"

lemma keeps_run_write: "keeps same_objects (run_write py ldb self c)"
  by (cases c) (simp_all add: keeps_Put keeps_Delete keeps_Write)

lemma run_writes_same: "same_objects w (run_writes py ldb self cs w)"
proof (induction cs arbitrary: w)
  case Nil
  then show ?case by (simp add: same_objects_def)
next
  case (Cons c cs)
  have "same_objects w (snd (run_write py ldb self c w))"
    by (rule keeps_run_write [unfolded keeps_def, rule_format])
  with Cons.IH show ?case using same_objects_order(2) by (auto dest: transpD)
qed

section \<open>Snapshot objects\<close>

definition snapshot_of ::
  "('d, 'it, 'sn, 'fs) world \<Rightarrow> addr \<Rightarrow> addr \<Rightarrow> handle \<Rightarrow> 'sn \<Rightarrow> bool" where
  "snapshot_of w s self h sv \<longleftrightarrow>
     (\<exists>n sh p. heap w s = Some (ObjSnapshot \<lparr>sn_refcnt = n, sn_db = Some self, sn_snapshot = Some sh\<rparr>) \<and>
        sns w sh = Some (h, sv) \<and> heap w self = Some (ObjDB p) \<and> db_db p = Some h \<and> dbs w h \<noteq> None)"

lemma snapshot_of_same: "snapshot_of w s self h sv \<Longrightarrow> same_objects w w' \<Longrightarrow> snapshot_of w' s self h sv"
  by (auto simp: snapshot_of_def same_objects_def) blast

lemma create_snapshot_run:
  assumes "db_open w self p h opts d" and "alloc_fail w = []" and "heap w (next_addr w) = None"
    and g: "DB_GetSnapshot ldb d = (sv, d')"
  shows "\<exists>w1. PyLevelDB_CreateSnapshot ldb self w = (Ret (PyObj T_Snapshot (next_addr w)), w1) \<and>
     snapshot_of w1 (next_addr w) self h sv \<and> alloc_fail w1 = [] \<and> dbs w1 h = Some d'"
proof -
  have hp: "heap w self = Some (ObjDB p)" "db_db p = Some h" "dbs w h = Some d"
    and ne: "next_addr w \<noteq> self" using assms by (auto simp: db_open_def)
  show ?thesis using assms(2) hp ne g
    by (simp add: PyLevelDB_CreateSnapshot_def get_new_snapshot_def PyLevelDBSnapshot_New_def bind_assoc
        bind_get_db bind_simps bind_call_db bind_alloc Py_INCREF_db_def snapshot_of_def py_ret_def)
qed

lemma snapshot_get_answer:
  assumes "store_contract ldb view sview" and "get_call py args k vc fc dflt"
    and s: "snapshot_of w s self h sv" and "alloc_fail w = []" and d: "dbs w h = Some d"
    and g: "DB_Get ldb (get_options vc fc (Some sv)) k d = ((st, val), d')"
  shows "fst (PyLevelDBSnapshot_Get py ldb s args w) = answer st (sview sv) k dflt"
proof -
  from s obtain n sh p where hs: "heap w s = Some (ObjSnapshot \<lparr>sn_refcnt = n, sn_db = Some self, sn_snapshot = Some sh\<rparr>)"
    and sh: "sns w sh = Some (h, sv)" and p: "heap w self = Some (ObjDB p)" "db_db p = Some h"
    unfolding snapshot_of_def by blast
  have "read_snapshot (Some h) (Some sh) (w\<lparr>exports := exports w + 1\<rparr>) = (Ret (Some sv), w\<lparr>exports := exports w + 1\<rparr>)"
    using sh by (simp add: read_snapshot_def bind_get py_ret_def)
  note r = get_with_run [OF assms(2) d this assms(4) g]
  show ?thesis
    using hs p r get_outcome_answer [OF assms(1) g, of dflt]
    by (simp add: PyLevelDBSnapshot_Get_def py_bind_def get_snapshot_def deref_def get_db_def py_ret_def)
qed

text \<open>
  C17: Snapshot isolation of \<open>Get\<close>: \<open>CreateSnapshot\<close> on an open database returns a snapshot object, and
  after any sequence of calls of \<open>Put\<close>, \<open>Delete\<close> and \<open>Write\<close> on the database, with any
  arguments and whether they succeed or raise, the database is still open and \<open>Get\<close> on the snapshot asks the library for the key
  at that snapshot and answers from the contents at the time of the snapshot; it raises \<open>LevelDBError\<close> only for a failure the
  library then reports.
\<close>

theorem snapshot_isolation:
  assumes c: "store_contract ldb view sview" and op: "db_open w self p h opts d"
    and al: "alloc_fail w = []" and fr: "heap w (next_addr w) = None"
    and get: "get_call py args k vc fc dflt" and sn: "DB_GetSnapshot ldb d = (sv, d')"
  shows "\<exists>s w1. PyLevelDB_CreateSnapshot ldb self w = (Ret (PyObj T_Snapshot s), w1) \<and>
     (\<forall>cs. \<exists>d2. dbs (run_writes py ldb self cs w1) h = Some d2 \<and>
        fst (PyLevelDBSnapshot_Get py ldb s args (run_writes py ldb self cs w1)) =
          (case DB_Get ldb \<lparr>ro_verify_checksums = vc, ro_fill_cache = fc, ro_snapshot = Some sv\<rparr> k d2 of ((st, val), d3) \<Rightarrow>
             if status_ok st \<or> status_not_found st then lookup_result (view d) k dflt
             else Raise (LevelDBError (c_str (status_to_string st)))))"
proof -
  have sv: "sview sv = view d" using store_snapshot [OF c sn] by blast
  from create_snapshot_run [OF op al fr sn] obtain w1 where
    w1: "PyLevelDB_CreateSnapshot ldb self w = (Ret (PyObj T_Snapshot (next_addr w)), w1)"
      "snapshot_of w1 (next_addr w) self h sv" "alloc_fail w1 = []" by blast
  have "\<exists>d2. dbs (run_writes py ldb self cs w1) h = Some d2 \<and>
      fst (PyLevelDBSnapshot_Get py ldb (next_addr w) args (run_writes py ldb self cs w1)) =
      (case DB_Get ldb (get_options vc fc (Some sv)) k d2 of ((st, val), d3) \<Rightarrow>
         if status_ok st \<or> status_not_found st then lookup_result (view d) k dflt
         else Raise (LevelDBError (c_str (status_to_string st))))" for cs
  proof -
    let ?w = "run_writes py ldb self cs w1"
    note same = run_writes_same [of w1 py ldb self cs]
    from same w1(3) have al: "alloc_fail ?w = []" by (simp add: same_objects_def)
    have so: "snapshot_of ?w (next_addr w) self h sv" by (rule snapshot_of_same [OF w1(2) same])
    then obtain d2 where d2: "dbs ?w h = Some d2" by (auto simp: snapshot_of_def)
    obtain st val d3 where g: "DB_Get ldb (get_options vc fc (Some sv)) k d2 = ((st, val), d3)" by (metis prod.exhaust)
    show ?thesis using snapshot_get_answer [OF c get so al d2 g] by (simp add: d2 g sv answer_def)
  qed
  with w1(1) show ?thesis by blast
qed

theorem snapshot_isolation_witness:
  "\<exists>s w1. PyLevelDB_CreateSnapshot mem_ldb 0 demo_world = (Ret (PyObj T_Snapshot s), w1) \<and>
     fst (PyLevelDBSnapshot_Get demo_py mem_ldb s (key_args [98])
        (run_writes demo_py mem_ldb 0 [WPut (put_args [98] [7]), WDelete (key_args [98])] w1)) = Ret (PyByteArray [2])"
proof -
  have sn: "DB_GetSnapshot mem_ldb demo_memdb = (demo_entries, demo_memdb)"
    by (simp add: mem_ldb_def demo_memdb_def)
  have g: "DB_Get mem_ldb \<lparr>ro_verify_checksums = False, ro_fill_cache = True, ro_snapshot = Some demo_entries\<rparr> [98] d =
      ((S_OK, [2]), d)" for d
    by (simp add: mem_ldb_def mem_get_def demo_entries_def)
  from snapshot_isolation [OF mem_store_contract demo_db_open demo_open(2,3) demo_calls(1) [of "[98]"] sn]
  obtain s w1 where w1: "PyLevelDB_CreateSnapshot mem_ldb 0 demo_world = (Ret (PyObj T_Snapshot s), w1)"
    and all: "\<forall>cs. fst (PyLevelDBSnapshot_Get demo_py mem_ldb s (key_args [98]) (run_writes demo_py mem_ldb 0 cs w1)) =
      lookup_result (mem_map demo_memdb) [98] None"
    unfolding g by auto
  have "lookup_result (mem_map demo_memdb) [98] None = Ret (PyByteArray [2])"
    by (simp add: lookup_result_def mem_map_def demo_memdb_def demo_entries_def)
  with w1 all show ?thesis by metis
qed

end
