(* ===== verification/Ownership.thy ===== *)
theory Ownership
  imports RangeIter
begin

text \<open>
  Who owns what: an abstract view of a world that keeps, of every Python object of the
  extension, its reference count, the database it depends on and the C++ object it owns;
  the invariant of these views for a program that holds given references; and the changes
  to views from which the operations are made up, each with the proof that it keeps the
  invariant.
\<close>

section \<open>Views\<close>

text \<open>A C++ object: a database, a snapshot or an iterator\<close>

datatype cobj = CDB handle | CSnapshot handle | CIter handle

primrec cobj_handle :: "cobj \<Rightarrow> handle" where
  "cobj_handle (CDB h) = h"
| "cobj_handle (CSnapshot h) = h"
| "cobj_handle (CIter h) = h"

fun is_CDB :: "cobj \<Rightarrow> bool" where
  "is_CDB (CDB h) = True"
| "is_CDB _ = False"

text \<open>
  Of a Python object: its type, its count, the database object it refers to, the C++ object
  it owns, how many objects of each type it counts as dependent on it, whether it has
  options, and whether its fields fit together.
\<close>

record pobj =
  po_type :: pytype
  po_refs :: nat
  po_db :: "addr option"
  po_owns :: "cobj option"
  po_deps :: "pytype \<Rightarrow> int"
  po_opts :: bool
  po_sane :: bool

definition db_counts :: "PyLevelDB \<Rightarrow> pytype \<Rightarrow> int" where
  "db_counts p t = (if t = T_Snapshot then n_snapshots p else if t = T_Iter then n_iterators p else 0)"

lemma db_counts_update [simp]:
  "db_counts (p\<lparr>db_refcnt := n\<rparr>) = db_counts p" "db_counts (p\<lparr>db_db := d\<rparr>) = db_counts p"
  "db_counts (p\<lparr>db_options := q\<rparr>) = db_counts p" "db_counts (p\<lparr>db_cache := c\<rparr>) = db_counts p"
  "db_counts (p\<lparr>db_comparator := e\<rparr>) = db_counts p"
  by (simp_all add: db_counts_def fun_eq_iff)

primrec pobj_of :: "pyobject \<Rightarrow> pobj" where
  "pobj_of (ObjDB p) =
     \<lparr>po_type = T_LevelDB, po_refs = db_refcnt p, po_db = None, po_owns = map_option CDB (db_db p),
      po_deps = db_counts p, po_opts = (db_options p \<noteq> None),
      po_sane = (db_db p \<noteq> None \<longrightarrow> db_options p \<noteq> None)\<rparr>"
| "pobj_of (ObjSnapshot s) =
     \<lparr>po_type = T_Snapshot, po_refs = sn_refcnt s, po_db = sn_db s, po_owns = map_option CSnapshot (sn_snapshot s),
      po_deps = (\<lambda>_. 0), po_opts = False, po_sane = (sn_db s \<noteq> None \<and> sn_snapshot s \<noteq> None)\<rparr>"
| "pobj_of (ObjIter i) =
     \<lparr>po_type = T_Iter, po_refs = it_refcnt i, po_db = it_ref i, po_owns = map_option CIter (it_iterator i),
      po_deps = (\<lambda>_. 0), po_opts = False, po_sane = (it_db i = it_ref i \<and> (it_ref i = None \<longleftrightarrow> it_iterator i = None))\<rparr>"
| "pobj_of (ObjBatch b) =
     \<lparr>po_type = T_WriteBatch, po_refs = wb_refcnt b, po_db = None, po_owns = None, po_deps = (\<lambda>_. 0), po_opts = False,
      po_sane = True\<rparr>"

record shape =
  objs :: "addr \<Rightarrow> pobj option"
  na :: addr
  own :: "cobj \<Rightarrow> handle option"
  nh :: handle

text \<open>\<open>own\<close> gives for a live C++ object the database it belongs to.\<close>

fun owner :: "('d, 'it, 'sn, 'fs) world \<Rightarrow> cobj \<Rightarrow> handle option" where
  "owner w (CDB h) = (if dbs w h = None then None else Some h)"
| "owner w (CSnapshot h) = map_option fst (sns w h)"
| "owner w (CIter h) = map_option fst (its w h)"

definition shape_of :: "('d, 'it, 'sn, 'fs) world \<Rightarrow> shape" where
  "shape_of w = \<lparr>objs = (\<lambda>a. map_option pobj_of (heap w a)), na = next_addr w, own = owner w, nh = next_handle w\<rparr>"

section \<open>The invariant\<close>

text \<open>The objects that depend on the database object at \<open>a\<close>, of the types \<open>P\<close>\<close>

definition dependents :: "shape \<Rightarrow> addr \<Rightarrow> (pytype \<Rightarrow> bool) \<Rightarrow> addr set" where
  "dependents S a P = {b. \<exists>x. objs S b = Some x \<and> po_db x = Some a \<and> P (po_type x)}"

abbreviation holders :: "shape \<Rightarrow> addr \<Rightarrow> addr set" where
  "holders S a \<equiv> dependents S a (\<lambda>_. True)"

text \<open>
  \<open>owned R S\<close>, when the program holds \<open>R a\<close> references on the object at \<open>a\<close>:
  \<^item> an object is alive as long as it has references, and its count is what the program and
    the snapshots and iterators hold together; a database also counts the snapshots and the
    iterators, each kind by itself;
  \<^item> addresses and handles are fresh from the next ones on;
  \<^item> what refers to a database object owns a C++ object of that very database, which is open;
  \<^item> a C++ object is owned by exactly one Python object.
\<close>

definition count_ok :: "addr \<Rightarrow> ((pytype \<Rightarrow> bool) \<Rightarrow> addr set) \<Rightarrow> nat \<Rightarrow> addr \<Rightarrow> pobj \<Rightarrow> bool" where
  "count_ok n D r a x \<longleftrightarrow> a < n \<and> po_refs x \<noteq> 0 \<and> po_refs x = r + card (D (\<lambda>_. True)) \<and>
     (\<forall>t. po_deps x t = int (card (D ((=) t))))"

definition counted :: "(addr \<Rightarrow> nat) \<Rightarrow> shape \<Rightarrow> bool" where
  "counted R S \<longleftrightarrow> finite (dom (objs S)) \<and> (\<forall>a. objs S a = None \<longrightarrow> R a = 0) \<and>
     (\<forall>a x. objs S a = Some x \<longrightarrow> count_ok (na S) (dependents S a) (R a) a x)"

definition handled :: "shape \<Rightarrow> bool" where
  "handled S \<longleftrightarrow> (\<forall>k h. own S k = Some h \<longrightarrow> cobj_handle k < nh S) \<and>
     (\<forall>h h'. own S (CDB h) = Some h' \<longrightarrow> h' = h)"

text \<open>What the object at an address owns, and its open database, as functions\<close>

definition owns :: "shape \<Rightarrow> addr \<Rightarrow> cobj option" where
  "owns S a = Option.bind (objs S a) po_owns"

definition db_of :: "shape \<Rightarrow> addr \<Rightarrow> handle option" where
  "db_of S a = (case owns S a of Some (CDB h) \<Rightarrow> Some h | _ \<Rightarrow> None)"

definition link_ok :: "(cobj \<Rightarrow> handle option) \<Rightarrow> (addr \<Rightarrow> handle option) \<Rightarrow> pobj \<Rightarrow> bool" where
  "link_ok ow db x \<longleftrightarrow>
     (case po_db x of
        None \<Rightarrow> (case po_owns x of None \<Rightarrow> True | Some k \<Rightarrow> is_CDB k)
      | Some a \<Rightarrow> db a \<noteq> None \<and> (case po_owns x of None \<Rightarrow> False | Some k \<Rightarrow> \<not> is_CDB k \<and> ow k = db a))"

definition linked :: "shape \<Rightarrow> bool" where
  "linked S \<longleftrightarrow> (\<forall>a x. objs S a = Some x \<longrightarrow> link_ok (own S) (db_of S) x)"

definition one_owner :: "(cobj \<Rightarrow> handle option) \<Rightarrow> (addr \<Rightarrow> cobj option) \<Rightarrow> bool" where
  "one_owner f g \<longleftrightarrow> (\<forall>k. f k \<noteq> None \<longleftrightarrow> (\<exists>a. g a = Some k)) \<and>
     (\<forall>a b k. g a = Some k \<longrightarrow> g b = Some k \<longrightarrow> a = b)"

definition disown :: "cobj option \<Rightarrow> (cobj \<Rightarrow> handle option) \<Rightarrow> cobj \<Rightarrow> handle option" where
  "disown q f = (case q of None \<Rightarrow> f | Some k \<Rightarrow> f(k := None))"

lemma disown_simps [simp]: "disown None f = f" "disown (Some k) f = f(k := None)"
  by (simp_all add: disown_def)

lemma one_ownerD:
  assumes "one_owner f g"
  shows "f k \<noteq> None \<longleftrightarrow> (\<exists>a. g a = Some k)" and "g a = Some k \<Longrightarrow> g b = Some k \<Longrightarrow> a = b"
  using assms unfolding one_owner_def by blast+

lemma one_owner_add:
  assumes r: "one_owner f g" and b: "g b = None" and k: "f k = None"
  shows "one_owner (f(k \<mapsto> h)) (g(b \<mapsto> k))"
proof -
  have gk: "g a \<noteq> Some k" for a using one_ownerD(1) [OF r, of k] k by blast
  have upd: "(g(b \<mapsto> k)) a = Some k' \<longleftrightarrow> (if k' = k then a = b else g a = Some k')" for a k'
    using gk [of a] b by auto
  then show ?thesis
    using one_ownerD [OF r] unfolding one_owner_def upd by auto
qed

lemma one_owner_del:
  assumes r: "one_owner f g" and b: "g b = q"
  shows "one_owner (disown q f) (g(b := None))"
proof -
  have upd: "(g(b := None)) a = Some k' \<longleftrightarrow> q \<noteq> Some k' \<and> g a = Some k'" for a k'
    using one_ownerD(2) [OF r, of a k' b] b by auto
  have "disown q f k = (if q = Some k then None else f k)" for k by (cases q) auto
  then show ?thesis
    using one_ownerD [OF r] unfolding one_owner_def upd by auto
qed

definition owning :: "shape \<Rightarrow> bool" where
  "owning S \<longleftrightarrow> one_owner (own S) (owns S)"

definition owned :: "(addr \<Rightarrow> nat) \<Rightarrow> shape \<Rightarrow> bool" where
  "owned R S \<longleftrightarrow> counted R S \<and> handled S \<and> linked S \<and> owning S"

definition all_sane :: "shape \<Rightarrow> bool" where
  "all_sane S \<longleftrightarrow> (\<forall>a x. objs S a = Some x \<longrightarrow> po_sane x)"

lemma owned_finite: "owned R S \<Longrightarrow> finite (dom (objs S))"
  by (simp add: owned_def counted_def)

lemma owned_obj:
  assumes "owned R S" "objs S a = Some x"
  shows "a < na S" and "po_refs x \<noteq> 0" and "po_refs x = R a + card (holders S a)"
    and "po_deps x t = int (card (dependents S a ((=) t)))"
  using assms unfolding owned_def counted_def count_ok_def by blast+

lemma owned_count: "owned R S \<Longrightarrow> objs S a = Some x \<Longrightarrow> count_ok (na S) (dependents S a) (R a) a x"
  by (simp add: owned_def counted_def)

lemma owned_none: "owned R S \<Longrightarrow> objs S a = None \<Longrightarrow> R a = 0"
  by (simp add: owned_def counted_def)

lemma owned_fresh: "owned R S \<Longrightarrow> na S \<le> a \<Longrightarrow> objs S a = None"
  using owned_obj(1) [of R S a] by (cases "objs S a") fastforce+

lemma owned_handle:
  assumes "owned R S"
  shows "own S k = Some h \<Longrightarrow> cobj_handle k < nh S" and "own S (CDB h') = Some h \<Longrightarrow> h' = h"
  using assms unfolding owned_def handled_def by blast+

lemma owned_fresh_handle: "owned R S \<Longrightarrow> nh S \<le> cobj_handle k \<Longrightarrow> own S k = None"
  using owned_handle(1) [of R S k] by (cases "own S k") fastforce+

lemma db_of_Some: "db_of S a = Some h \<longleftrightarrow> owns S a = Some (CDB h)"
  by (auto simp: db_of_def split: option.splits cobj.splits)

lemma owns_Some: "owns S a = Some k \<longleftrightarrow> (\<exists>x. objs S a = Some x \<and> po_owns x = Some k)"
  by (auto simp: owns_def bind_eq_Some_conv)

lemma owned_link_ok: "owned R S \<Longrightarrow> objs S b = Some x \<Longrightarrow> link_ok (own S) (db_of S) x"
  by (simp add: owned_def linked_def)

lemma owned_link:
  assumes "owned R S" "objs S b = Some x" "po_db x = Some a"
  obtains y h k where "objs S a = Some y" "po_owns y = Some (CDB h)" "po_owns x = Some k" "\<not> is_CDB k" "own S k = Some h"
  using owned_link_ok [OF assms(1,2)] assms(3)
  by (auto simp: link_ok_def db_of_Some owns_Some split: option.splits)

lemma owned_owns:
  assumes "owned R S" "objs S b = Some x" "po_owns x = Some k"
  shows "own S k \<noteq> None" and "po_db x = None \<Longrightarrow> is_CDB k"
    and "owns S b' = Some k \<Longrightarrow> b = b'"
proof -
  have k: "owns S b = Some k" using assms(2,3) by (simp add: owns_def)
  show "po_db x = None \<Longrightarrow> is_CDB k"
    using owned_link_ok [OF assms(1,2)] assms(3) by (simp add: link_ok_def)
  show "own S k \<noteq> None" using assms(1) k unfolding owned_def owning_def one_owner_def by blast
  show "owns S b' = Some k \<Longrightarrow> b = b'" using assms(1) k unfolding owned_def owning_def one_owner_def by blast
qed

lemma owned_owner:
  assumes "owned R S" "own S k \<noteq> None"
  obtains b x where "objs S b = Some x" "po_owns x = Some k"
  using assms unfolding owned_def owning_def one_owner_def owns_Some by blast

lemma owned_holders_finite: "owned R S \<Longrightarrow> finite (dependents S a P)"
  by (rule finite_subset [OF _ owned_finite]) (auto simp: dependents_def)

text \<open>Only databases have holders.\<close>

lemma owned_dependent:
  assumes "owned R S" "objs S b = Some x" "po_db x \<noteq> None"
  shows "holders S b = {}" and "po_refs x = R b"
proof -
  obtain k where k: "po_owns x = Some k" "\<not> is_CDB k"
    using owned_link [OF assms(1,2)] assms(3) by blast
  show "holders S b = {}"
  proof (rule ccontr)
    assume "holders S b \<noteq> {}"
    then obtain c z where "objs S c = Some z" "po_db z = Some b" by (auto simp: dependents_def)
    with owned_link [OF assms(1)] assms(2) k show False by fastforce
  qed
  with owned_obj(3) [OF assms(1,2)] show "po_refs x = R b" by simp
qed

text \<open>When the program holds nothing, nothing is alive.\<close>

lemma owned_zero:
  assumes o: "owned (\<lambda>_. 0) S"
  shows "objs S a = None" and "own S k = None"
proof -
  have dep: "po_db x = None" if "objs S b = Some x" for b x
    using owned_dependent(2) [OF o that] owned_obj(2) [OF o that] by (cases "po_db x") auto
  then have "holders S b = {}" for b by (fastforce simp: dependents_def)
  then have none: "objs S b = None" for b
    using owned_obj(2,3) [OF o, of b] by (cases "objs S b") fastforce+
  then show "objs S a = None" .
  show "own S k = None" using owned_owner [OF o, of k] none by fastforce
qed

section \<open>Changes\<close>

text \<open>The fields of a view in one order\<close>

lemma shape_norm:
  "S\<lparr>own := f, objs := g\<rparr> = S\<lparr>objs := g, own := f\<rparr>" "S\<lparr>na := n, objs := g\<rparr> = S\<lparr>objs := g, na := n\<rparr>"
  "S\<lparr>nh := m, objs := g\<rparr> = S\<lparr>objs := g, nh := m\<rparr>" "S\<lparr>own := f, na := n\<rparr> = S\<lparr>na := n, own := f\<rparr>"
  "S\<lparr>nh := m, na := n\<rparr> = S\<lparr>na := n, nh := m\<rparr>" "S\<lparr>nh := m, own := f\<rparr> = S\<lparr>own := f, nh := m\<rparr>"
  by simp_all

lemma dependents_put [simp]:
  "dependents (S\<lparr>objs := (objs S)(b \<mapsto> y)\<rparr>) a P =
     (if po_db y = Some a \<and> P (po_type y) then insert b (dependents S a P) else dependents S a P - {b})"
  by (auto simp: dependents_def)

lemma dependents_del [simp]: "dependents (S\<lparr>objs := (objs S)(b := None)\<rparr>) a P = dependents S a P - {b}"
  by (auto simp: dependents_def)

lemma dependents_other [simp]: "dependents (S\<lparr>own := f\<rparr>) = dependents S" "dependents (S\<lparr>nh := n\<rparr>) = dependents S"
  "dependents (S\<lparr>na := n\<rparr>) = dependents S"
  by (simp_all add: dependents_def fun_eq_iff)

lemma owns_put [simp]: "owns (S\<lparr>objs := (objs S)(b \<mapsto> y)\<rparr>) = (owns S)(b := po_owns y)"
  by (auto simp: owns_def)

lemma owns_del [simp]: "owns (S\<lparr>objs := (objs S)(b := None)\<rparr>) = (owns S)(b := None)"
  by (auto simp: owns_def)

lemma owns_other [simp]: "owns (S\<lparr>own := f\<rparr>) = owns S" "owns (S\<lparr>nh := n\<rparr>) = owns S" "owns (S\<lparr>na := n\<rparr>) = owns S"
  by (auto simp: owns_def)

lemma holder_iff: "objs S b = Some x \<Longrightarrow> b \<in> dependents S a P \<longleftrightarrow> po_db x = Some a \<and> P (po_type x)"
  by (simp add: dependents_def)

text \<open>Only the count, or only the local fields, of an object change.\<close>

lemma owned_touch:
  assumes o: "owned R S" and x: "objs S a = Some x"
    and y: "po_db y = po_db x" "po_owns y = po_owns x" "po_deps y = po_deps x"
      "po_type y = po_type x" "po_refs y = r + card (holders S a)" "po_refs y \<noteq> 0"
  shows "owned (R(a := r)) (S\<lparr>objs := (objs S)(a \<mapsto> y)\<rparr>)"
proof -
  let ?S = "S\<lparr>objs := (objs S)(a \<mapsto> y)\<rparr>"
  have "dependents ?S c P = dependents S c P" for c P
    using y(1,4) holder_iff [OF x, of c P] by (auto simp: insert_absorb)
  then have h: "dependents ?S c = dependents S c" for c by (rule ext)
  have w: "owns ?S = owns S" using x y(2) by (simp add: fun_upd_idem owns_def)
  then have db: "db_of ?S = db_of S" by (simp add: db_of_def fun_eq_iff)
  have "link_ok (own S) (db_of S) y = link_ok (own S) (db_of S) x" unfolding link_ok_def y(1,2) by (rule refl)
  then have "linked ?S" using o x unfolding owned_def linked_def db by simp
  moreover have "counted (R(a := r)) ?S"
    using o x y(3,5,6) owned_obj(1,4) [OF o x] unfolding owned_def counted_def h by (simp add: count_ok_def [of _ _ r])
  moreover have "handled ?S" "owning ?S" using o w by (simp_all add: owned_def handled_def owning_def)
  ultimately show ?thesis by (simp add: owned_def)
qed

lemma owned_same: "owned R S \<Longrightarrow> objs S a = Some x \<Longrightarrow> po_db y = po_db x \<Longrightarrow> po_owns y = po_owns x \<Longrightarrow>
  po_deps y = po_deps x \<Longrightarrow> po_type y = po_type x \<Longrightarrow> po_refs y = po_refs x \<Longrightarrow> owned R (S\<lparr>objs := (objs S)(a \<mapsto> y)\<rparr>)"
  using owned_touch [of R S a x y "R a"] owned_obj(2,3) [of R S a x] by simp

lemma db_of_cong: "owns S = owns S' \<Longrightarrow> db_of S = db_of S'"
  by (simp add: db_of_def fun_eq_iff)

lemma count_ok_mono: "count_ok n D r a x \<Longrightarrow> n \<le> m \<Longrightarrow> count_ok m D r a x"
  unfolding count_ok_def by (blast intro: less_le_trans)

lemma handled_mono: "handled S \<Longrightarrow> own S' = own S \<Longrightarrow> nh S \<le> nh S' \<Longrightarrow> handled S'"
  unfolding handled_def by (metis less_le_trans)

lemma owned_grow:
  assumes "owned R S" "nh S \<le> n"
  shows "owned R (S\<lparr>nh := n\<rparr>)"
proof -
  have "handled (S\<lparr>nh := n\<rparr>)" using assms by - (rule handled_mono [of S], simp_all add: owned_def)
  moreover have "db_of (S\<lparr>nh := n\<rparr>) = db_of S" by (rule db_of_cong) simp
  ultimately show ?thesis using assms(1) by (simp add: owned_def counted_def linked_def owning_def)
qed

text \<open>A new object that depends on nothing\<close>

lemma owned_add:
  assumes o: "owned R S" and y: "po_refs y = 1" "po_deps y = (\<lambda>_. 0)" "po_db y = None" "po_owns y = None"
  shows "owned (R(na S := 1)) (S\<lparr>objs := (objs S)(na S \<mapsto> y), na := Suc (na S)\<rparr>)"
proof -
  let ?S = "S\<lparr>objs := (objs S)(na S \<mapsto> y), na := Suc (na S)\<rparr>"
  have fresh: "objs S (na S) = None" using owned_fresh [OF o] by simp
  then have "na S \<notin> dependents S c P" for c P by (simp add: dependents_def)
  then have h: "dependents ?S c = dependents S c" for c using y(3) by (simp add: fun_eq_iff)
  have no: "dependents S (na S) P = {}" for P
    using owned_link [OF o] fresh by (fastforce simp: dependents_def)
  have w: "owns ?S = owns S" using fresh y(4) by (simp add: fun_upd_idem owns_def)
  then have db: "db_of ?S = db_of S" by (simp add: db_of_def fun_eq_iff)
  have "counted (R(na S := 1)) ?S"
    using owned_finite [OF o] owned_none [OF o] owned_count [OF o, THEN count_ok_mono, of _ _ "Suc (na S)"] y no
    unfolding counted_def h by (simp add: count_ok_def [of _ _ _ "na S"])
  moreover have "linked ?S" using o y(3,4) unfolding owned_def linked_def db by (simp add: link_ok_def [of _ _ y])
  moreover have "handled ?S" "owning ?S" using o w by (simp_all add: owned_def handled_def owning_def)
  ultimately show ?thesis by (simp add: owned_def)
qed

definition more_deps :: "pytype \<Rightarrow> pobj \<Rightarrow> pobj" where
  "more_deps t x = x\<lparr>po_deps := (po_deps x)(t := po_deps x t + 1)\<rparr>"

definition less_deps :: "pytype \<Rightarrow> pobj \<Rightarrow> pobj" where
  "less_deps t x = x\<lparr>po_deps := (po_deps x)(t := po_deps x t - 1)\<rparr>"

lemma deps_simps [simp]:
  "po_type (more_deps t x) = po_type x" "po_refs (more_deps t x) = po_refs x" "po_db (more_deps t x) = po_db x"
  "po_owns (more_deps t x) = po_owns x" "po_sane (more_deps t x) = po_sane x" "po_opts (more_deps t x) = po_opts x"
  "po_type (less_deps t x) = po_type x" "po_refs (less_deps t x) = po_refs x" "po_db (less_deps t x) = po_db x"
  "po_owns (less_deps t x) = po_owns x" "po_sane (less_deps t x) = po_sane x" "po_opts (less_deps t x) = po_opts x"
  by (simp_all add: more_deps_def less_deps_def)

lemma deps_refs: "(more_deps t x)\<lparr>po_refs := n\<rparr> = more_deps t (x\<lparr>po_refs := n\<rparr>)"
  "(less_deps t x)\<lparr>po_refs := n\<rparr> = less_deps t (x\<lparr>po_refs := n\<rparr>)"
  by (simp_all add: more_deps_def less_deps_def)

text \<open>The counters of the code as these changes\<close>

lemma count_dependent:
  "pobj_of (ObjDB (p\<lparr>n_snapshots := n_snapshots p + 1\<rparr>)) = more_deps T_Snapshot (pobj_of (ObjDB p))"
  "pobj_of (ObjDB (p\<lparr>n_iterators := n_iterators p + 1\<rparr>)) = more_deps T_Iter (pobj_of (ObjDB p))"
  "pobj_of (ObjDB (p\<lparr>n_snapshots := n_snapshots p - 1\<rparr>)) = less_deps T_Snapshot (pobj_of (ObjDB p))"
  "pobj_of (ObjDB (p\<lparr>n_iterators := n_iterators p - 1\<rparr>)) = less_deps T_Iter (pobj_of (ObjDB p))"
  by (simp_all add: more_deps_def less_deps_def db_counts_def fun_eq_iff)

text \<open>An object comes to depend on a database object and takes over a reference held on it.\<close>

lemma owned_attach:
  assumes o: "owned R S" and x: "objs S a = Some x" "po_owns x = Some (CDB h)" "0 < R a"
    and y0: "objs S b = Some y0" "po_db y0 = None" "po_owns y0 = None"
    and k: "\<not> is_CDB k" "cobj_handle k = nh S"
    and y: "po_refs y = po_refs y0" "po_deps y = po_deps y0" "po_db y = Some a" "po_owns y = Some k"
    and x': "x' = more_deps (po_type y) x"
  shows "owned (R(a := R a - 1)) (S\<lparr>objs := (objs S)(b \<mapsto> y, a \<mapsto> x'), own := (own S)(k \<mapsto> h), nh := Suc (nh S)\<rparr>)"
    (is "owned ?R ?S")
proof -
  have fresh: "own S k = None" using owned_fresh_handle [OF o] k(2) by simp
  have ne: "a \<noteq> b" "b \<noteq> a" using x(1,2) y0(1,3) by auto
  have nk: "owns S c \<noteq> Some k" for c using o fresh unfolding owned_def owning_def one_owner_def by metis
  have pd: "po_db x = None" using owned_link_ok [OF o x(1)] x(2) by (auto simp: link_ok_def split: option.splits)
  have b: "b \<notin> dependents S c P" for c P using holder_iff [OF y0(1)] y0(2) by simp
  have "dependents ?S c P = (if c = a \<and> P (po_type y) then insert b (dependents S a P) else dependents S c P)" for c P
    using b [of c P] holder_iff [OF x(1), of c P] x(1) pd y0(1) y(3) x' ne by (auto simp: dependents_def)
  then have h: "dependents ?S c = (if c = a then (\<lambda>P. if P (po_type y) then insert b (dependents S a P)
      else dependents S a P) else dependents S c)" for c by (simp add: fun_eq_iff)
  have card: "card (insert b (dependents S a P)) = Suc (card (dependents S a P))" for P
    using b owned_holders_finite [OF o] by simp
  have w: "owns ?S = (owns S)(b \<mapsto> k)"
    using x ne y(4) x' by (auto simp: owns_def fun_eq_iff)
  have dbb: "db_of S b = None" using y0 by (simp add: db_of_def owns_def)
  then have db: "db_of ?S c = db_of S c" for c
    using k(1) w by (cases k) (simp_all add: db_of_def)
  have dba: "db_of S a = Some h" using x by (simp add: db_of_def owns_def)
  have "counted ?R ?S"
    using owned_finite [OF o] owned_none [OF o] owned_count [OF o] owned_obj [OF o x(1)] owned_obj [OF o y0(1)]
      x(1,3) y0(1) y(1,2) ne card
    unfolding counted_def h by (auto simp: count_ok_def [of _ _ _ b] count_ok_def [of _ _ _ a] x' more_deps_def)
  moreover have "handled ?S"
    using o k by (cases k) (auto simp: owned_def handled_def less_Suc_eq)
  moreover have "link_ok (own ?S) (db_of ?S) z'" if z: "objs ?S c = Some z'" for c z'
  proof -
    consider (new) "c = b" "z' = y" | (old) z where "objs S c = Some z" "po_db z' = po_db z" "po_owns z' = po_owns z"
      using z x(1) x' ne by (cases "c = b"; cases "c = a") auto
    then show ?thesis
    proof cases
      case new
      with y k(1) dba show ?thesis by (simp add: link_ok_def db)
    next
      case old
      then have "po_owns z \<noteq> Some k" using nk [of c] by (auto simp: owns_def)
      then show ?thesis
        using owned_link_ok [OF o old(1)] unfolding link_ok_def db old(2,3) by (auto split: option.splits)
    qed
  qed
  then have "linked ?S" by (simp add: linked_def)
  moreover have "owns S b = None" using y0 by (simp add: owns_def)
  then have "owning ?S"
    using o fresh unfolding owned_def owning_def w by (simp add: one_owner_add)
  ultimately show ?thesis by (simp add: owned_def)
qed

text \<open>The same for a new object\<close>

lemma owned_attach_new:
  assumes o: "owned R S" and x: "objs S a = Some x" "po_owns x = Some (CDB h)" "0 < R a"
    and k: "\<not> is_CDB k" "cobj_handle k = nh S"
    and y: "po_refs y = 1" "po_deps y = (\<lambda>_. 0)" "po_db y = Some a" "po_owns y = Some k"
    and x': "x' = more_deps (po_type y) x"
  shows "owned (R(a := R a - 1, na S := 1))
    (S\<lparr>objs := (objs S)(na S \<mapsto> y, a \<mapsto> x'), na := Suc (na S), own := (own S)(k \<mapsto> h), nh := Suc (nh S)\<rparr>)"
proof -
  let ?b = "na S" and ?y0 = "y\<lparr>po_db := None, po_owns := None\<rparr>"
  let ?S = "S\<lparr>objs := (objs S)(?b \<mapsto> ?y0), na := Suc ?b\<rparr>"
  have ne: "a \<noteq> ?b" "?b \<noteq> a" using owned_fresh [OF o, of ?b] x(1) by auto
  have "owned (R(?b := 1)) ?S" by (rule owned_add [OF o]) (simp_all add: y)
  from owned_attach [OF this _ x(2) _ _ _ _ k(1), of a ?b ?y0 y x'] x(1,3) k(2) y x' ne
  show ?thesis by (simp add: fun_upd_twist shape_norm)
qed

text \<open>
  The C++ object of a snapshot or iterator is deleted; its reference on the database
  object is now one to be dropped.
\<close>

lemma owned_release:
  assumes o: "owned R S" and x: "objs S b = Some x" "po_db x = Some a" "po_owns x = Some k" and y: "objs S a = Some y"
    and x': "po_refs x' = po_refs x" "po_deps x' = po_deps x" "po_db x' = None" "po_owns x' = None"
    and y': "y' = less_deps (po_type x) y"
  shows "owned (R(a := R a + 1)) (S\<lparr>objs := (objs S)(b \<mapsto> x', a \<mapsto> y'), own := (own S)(k := None)\<rparr>)"
    (is "owned ?R ?S")
proof -
  obtain h where h: "po_owns y = Some (CDB h)" "\<not> is_CDB k" "own S k = Some h"
    using owned_link [OF o x(1,2)] x(3) y by (metis option.inject)
  have ne: "a \<noteq> b" "b \<noteq> a" using x(1,3) y h by auto
  have pd: "po_db y = None" using owned_link_ok [OF o y] h(1) by (auto simp: link_ok_def split: option.splits)
  have b: "b \<in> dependents S c P \<longleftrightarrow> c = a \<and> P (po_type x)" for c P using holder_iff [OF x(1)] x(2) by auto
  have a: "a \<notin> dependents S c P" for c P using holder_iff [OF y] pd by simp
  have "dependents ?S c P = (if c = a \<and> P (po_type x) then dependents S a P - {b} else dependents S c P)" for c P
    using a [of c P] b [of c P] pd x'(3) y' ne by (auto simp: dependents_def)
  then have hold: "dependents ?S c = (if c = a then (\<lambda>P. if P (po_type x) then dependents S a P - {b}
      else dependents S a P) else dependents S c)" for c by (simp add: fun_eq_iff)
  have card: "card (dependents S a P) = Suc (card (dependents S a P - {b}))" if "P (po_type x)" for P
    using card_Suc_Diff1 [of "dependents S a P" b] b [of a P] owned_holders_finite [OF o] that by simp
  have w: "owns ?S = (owns S)(b := None)"
    using y ne x'(4) y' by (auto simp: owns_def fun_eq_iff less_deps_def)
  have wb: "owns S b = Some k" using x by (simp add: owns_def)
  have "db_of ?S c = db_of S c" for c
    unfolding db_of_def w using wb h(2) by (cases k) auto
  then have db: "db_of ?S = db_of S" by (rule ext)
  have "counted ?R ?S"
    using owned_finite [OF o] owned_none [OF o] owned_count [OF o] owned_obj [OF o x(1)] owned_obj [OF o y]
      x(1) y x'(1,2) ne card
    unfolding counted_def hold
    by (auto simp: count_ok_def [of _ _ _ b] count_ok_def [of _ _ _ a] y' less_deps_def)
  moreover have "handled ?S"
    using o h(2) by (auto simp: owned_def handled_def)
  moreover have "link_ok (own ?S) (db_of ?S) z'" if z: "objs ?S c = Some z'" for c z'
  proof (cases "c = b")
    case True
    with z x' ne show ?thesis by (simp add: link_ok_def)
  next
    case False
    then obtain z where old: "objs S c = Some z" "po_db z' = po_db z" "po_owns z' = po_owns z"
      using z y y' by (auto split: if_splits)
    have "po_owns z \<noteq> Some k" using owned_owns(3) [OF o x(1,3), of c] old(1) False by (auto simp: owns_def)
    with owned_link_ok [OF o old(1)] show ?thesis
      unfolding link_ok_def db old(2,3) by (auto split: option.splits)
  qed
  then have "linked ?S" by (simp add: linked_def)
  moreover have "owning ?S"
    using o one_owner_del [of "own S" "owns S" b "Some k"] wb unfolding owned_def owning_def w by simp
  ultimately show ?thesis by (simp add: owned_def)
qed

text \<open>An object that depends on nothing goes with its last reference, and with what it owns.\<close>

lemma owned_close:
  assumes o: "owned R S" and x: "objs S a = Some x" "po_db x = None" and no: "holders S a = {}"
    and y: "po_refs y = po_refs x" "po_deps y = po_deps x" "po_db y = None" "po_owns y = None"
  shows "owned R (S\<lparr>objs := (objs S)(a \<mapsto> y), own := disown (po_owns x) (own S)\<rparr>)" (is "owned R ?S")
proof -
  have "dependents ?S c P = dependents S c P" for c P
    using y(3) x holder_iff [OF x(1), of c P] by (auto simp: dependents_def)
  then have hold: "dependents ?S c = dependents S c" for c by (rule ext)
  have w: "owns ?S = (owns S)(a := None)" using y(4) by (auto simp: owns_def fun_eq_iff)
  have db: "db_of ?S c = (if c = a then None else db_of S c)" for c by (simp add: db_of_def w y(4))
  have o1: "own ?S k = (if po_owns x = Some k then None else own S k)" for k by (cases "po_owns x") auto
  have "counted R ?S"
    using owned_finite [OF o] owned_none [OF o] owned_count [OF o] owned_obj [OF o x(1)] x(1) y(1,2)
    unfolding counted_def hold by (simp add: count_ok_def [of _ _ _ a])
  moreover have "handled ?S"
    using o unfolding owned_def handled_def o1 by simp
  moreover have "link_ok (own ?S) (db_of ?S) z'" if z: "objs ?S c = Some z'" for c z'
  proof (cases "c = a")
    case True
    with z y show ?thesis by (simp add: link_ok_def)
  next
    case False
    with z have old: "objs S c = Some z'" by simp
    have "po_db z' \<noteq> Some a" using no holder_iff [OF old, of a "\<lambda>_. True"] by simp
    moreover have "po_owns z' \<noteq> Some k" if "po_owns x = Some k" for k
      using owned_owns(3) [OF o x(1) that, of c] old False by (auto simp: owns_def)
    ultimately show ?thesis
      using owned_link_ok [OF o old] unfolding link_ok_def db o1 by (auto split: option.splits)
  qed
  then have "linked ?S" by (simp add: linked_def)
  moreover have "owns S a = po_owns x" using x(1) by (simp add: owns_def)
  then have "owning ?S"
    using o one_owner_del [of "own S" "owns S" a] unfolding owned_def owning_def w by simp
  ultimately show ?thesis by (simp add: owned_def)
qed

lemma owned_remove:
  assumes o: "owned R S" and x: "objs S a = Some x" "po_db x = None" "po_refs x = 1" and r: "0 < R a"
  shows "owned (R(a := R a - 1)) (S\<lparr>objs := (objs S)(a := None), own := disown (po_owns x) (own S)\<rparr>)" (is "owned ?R ?S")
proof -
  have "card (holders S a) = 0" and r1: "R a = 1"
    using owned_obj(3) [OF o x(1)] x(3) r by linarith+
  then have no: "holders S a = {}" using owned_holders_finite [OF o, of a] by simp
  let ?y = "x\<lparr>po_owns := None\<rparr>"
  let ?S1 = "S\<lparr>objs := (objs S)(a \<mapsto> ?y), own := disown (po_owns x) (own S)\<rparr>"
  have c: "owned R ?S1" using owned_close [OF o x(1,2) no, of ?y] x(2) by simp
  have "dependents ?S d P = dependents ?S1 d P" for d P
    using x(2) by (auto simp: dependents_def)
  then have hold: "dependents ?S d = dependents ?S1 d" for d by (rule ext)
  have w: "owns ?S = owns ?S1" by (auto simp: owns_def fun_eq_iff)
  have "counted ?R ?S"
    using owned_finite [OF c] owned_none [OF c] owned_count [OF c] r1
    unfolding counted_def hold by (auto split: if_splits)
  moreover have "handled ?S" using c by (simp add: owned_def handled_def)
  moreover have "link_ok (own ?S) (db_of ?S) z" if "objs ?S d = Some z" for d z
    using owned_link_ok [OF c, of d z] that unfolding db_of_cong [OF w] by (simp split: if_splits)
  then have "linked ?S" by (simp add: linked_def)
  moreover have "owning ?S" using c unfolding owned_def owning_def w by simp
  ultimately show ?thesis by (simp add: owned_def)
qed

text \<open>A database object takes a newly opened database.\<close>

lemma owned_open:
  assumes o: "owned R S" and x: "objs S a = Some x" "po_db x = None" "po_owns x = None"
    and y: "po_refs y = po_refs x" "po_deps y = po_deps x" "po_db y = None" "po_owns y = Some (CDB (nh S))"
  shows "owned R (S\<lparr>objs := (objs S)(a \<mapsto> y), own := (own S)(CDB (nh S) \<mapsto> nh S), nh := Suc (nh S)\<rparr>)" (is "owned R ?S")
proof -
  let ?k = "CDB (nh S)"
  have fresh: "own S ?k = None" using owned_fresh_handle [OF o] by simp
  have nk: "owns S c \<noteq> Some ?k" for c using o fresh unfolding owned_def owning_def one_owner_def by metis
  have no: "db_of S a = None" using x by (simp add: db_of_def owns_def)
  have "dependents ?S c P = dependents S c P" for c P
    using y(3) x holder_iff [OF x(1), of c P] by (auto simp: dependents_def)
  then have hold: "dependents ?S c = dependents S c" for c by (rule ext)
  have w: "owns ?S = (owns S)(a \<mapsto> ?k)" using y(4) by (auto simp: owns_def fun_eq_iff)
  have db: "db_of ?S c = (if c = a then Some (nh S) else db_of S c)" for c by (simp add: db_of_def w y(4))
  have "counted R ?S"
    using owned_finite [OF o] owned_none [OF o] owned_count [OF o] owned_obj [OF o x(1)] x(1) y(1,2)
    unfolding counted_def hold by (simp add: count_ok_def [of _ _ _ a])
  moreover have "handled ?S"
    using o unfolding owned_def handled_def by (auto simp: less_Suc_eq)
  moreover have "link_ok (own ?S) (db_of ?S) z'" if z: "objs ?S c = Some z'" for c z'
  proof (cases "c = a")
    case True
    with z y show ?thesis by (simp add: link_ok_def)
  next
    case False
    with z have old: "objs S c = Some z'" by simp
    have "po_owns z' \<noteq> Some ?k" using nk [of c] old by (auto simp: owns_def)
    with owned_link_ok [OF o old] no show ?thesis unfolding link_ok_def db by (auto split: option.splits)
  qed
  then have "linked ?S" by (simp add: linked_def)
  moreover have "owns S a = None" using x by (simp add: owns_def)
  then have "owning ?S"
    using o fresh unfolding owned_def owning_def w by (simp add: one_owner_add)
  ultimately show ?thesis by (simp add: owned_def)
qed

end
