(* ===== verification/Lifecycle.thy ===== *)
theory Lifecycle
  imports Ownership
begin

text \<open>
  Programs that use the extension: the calls a Python program can make, the references it
  holds, and the states it can reach. The rules here execute an operation forwards on the
  view of the world given by \<open>Ownership\<close>.
\<close>

section \<open>Calls\<close>

definition py_catch :: "('w, 'a) py \<Rightarrow> (pyexc \<Rightarrow> ('w, 'a) py) \<Rightarrow> ('w, 'a) py" where
  "py_catch m h w = (case m w of (Raise e, w') \<Rightarrow> h e w' | r \<Rightarrow> r)"

text \<open>Calling a type: \<open>tp_new\<close>, then \<open>tp_init\<close>; if that fails the new object is dropped.\<close>

definition call_type ::
  "('d, 'it, 'sn, 'fs) leveldb \<Rightarrow> (('d, 'it, 'sn, 'fs) world, addr option) py \<Rightarrow>
    (addr \<Rightarrow> (('d, 'it, 'sn, 'fs) world, unit) py) \<Rightarrow> (('d, 'it, 'sn, 'fs) world, addr option) py" where
  "call_type ldb tp_new tp_init =
     py_bind tp_new (\<lambda>q.
       case q of
         None \<Rightarrow> py_raise MemoryError
       | Some a \<Rightarrow>
           py_bind (py_catch (tp_init a) (\<lambda>e. py_bind (Py_DECREF ldb a) (\<lambda>_. py_raise e)))
             (\<lambda>_. py_ret (Some a)))"

datatype call =
    NewDB pyargs | NewSnapshot pyargs | NewBatch pyargs
  | InitDB addr pyargs | InitSnapshot addr pyargs
  | Put addr pyargs | Get addr pyargs | Delete addr pyargs | Write addr pyargs
  | GetStats addr | CompactRange addr pyargs | RangeIter addr pyargs | CreateSnapshot addr
  | SnapshotGet addr pyargs | SnapshotRangeIter addr pyargs
  | IterNext addr
  | BatchInit addr pyargs | BatchPut addr pyargs | BatchDelete addr pyargs
  | Incref addr | Decref addr
  | Destroy pyargs | Repair pyargs

fun new_ref :: "pyval \<Rightarrow> addr option" where
  "new_ref (PyObj t a) = Some a"
| "new_ref _ = None"

text \<open>The result is the object a call has created. Values are dropped at once.\<close>

definition dropping :: "('w, 'a) py \<Rightarrow> ('w, addr option) py" where
  "dropping m = py_bind m (\<lambda>_. py_ret None)"

definition creating :: "('w, pyval) py \<Rightarrow> ('w, addr option) py" where
  "creating m = py_bind m (\<lambda>v. py_ret (new_ref v))"

primrec run_call ::
  "py_api \<Rightarrow> ('d, 'it, 'sn, 'fs) leveldb \<Rightarrow> call \<Rightarrow> (('d, 'it, 'sn, 'fs) world, addr option) py" where
  "run_call py ldb (NewDB args) = call_type ldb PyLevelDB_new (\<lambda>a. PyLevelDB_init py ldb a args)"
| "run_call py ldb (NewSnapshot args) = call_type ldb PyLevelDBSnapshot_new (\<lambda>a. PyLevelDBSnapshot_init py ldb a args)"
| "run_call py ldb (NewBatch args) = call_type ldb PyWriteBatch_new (\<lambda>a. PyWriteBatch_init py a args)"
| "run_call py ldb (InitDB a args) = dropping (PyLevelDB_init py ldb a args)"
| "run_call py ldb (InitSnapshot s args) = dropping (PyLevelDBSnapshot_init py ldb s args)"
| "run_call py ldb (Put a args) = dropping (PyLevelDB_Put py ldb a args)"
| "run_call py ldb (Get a args) = dropping (PyLevelDB_Get py ldb a args)"
| "run_call py ldb (Delete a args) = dropping (PyLevelDB_Delete py ldb a args)"
| "run_call py ldb (Write a args) = dropping (PyLevelDB_Write py ldb a args)"
| "run_call py ldb (GetStats a) = dropping (PyLevelDB_GetStatus ldb a)"
| "run_call py ldb (CompactRange a args) = dropping (PyLevelDB_CompactRange py ldb a args)"
| "run_call py ldb (RangeIter a args) = creating (PyLevelDB_RangeIter py ldb a args)"
| "run_call py ldb (CreateSnapshot a) = creating (PyLevelDB_CreateSnapshot ldb a)"
| "run_call py ldb (SnapshotGet s args) = dropping (PyLevelDBSnapshot_Get py ldb s args)"
| "run_call py ldb (SnapshotRangeIter s args) = creating (PyLevelDBSnapshot_RangeIter py ldb s args)"
| "run_call py ldb (IterNext i) = dropping (PyLevelDBIter_next py ldb i)"
| "run_call py ldb (BatchInit b args) = dropping (PyWriteBatch_init py b args)"
| "run_call py ldb (BatchPut b args) = dropping (PyWriteBatch_Put py b args)"
| "run_call py ldb (BatchDelete b args) = dropping (PyWriteBatch_Delete py b args)"
| "run_call py ldb (Incref a) = dropping (Py_INCREF a)"
| "run_call py ldb (Decref a) = dropping (Py_DECREF ldb a)"
| "run_call py ldb (Destroy args) = dropping (pyleveldb_destroy_db py ldb args)"
| "run_call py ldb (Repair args) = dropping (pyleveldb_repair_db py ldb args)"

text \<open>The references the program holds afterwards\<close>

definition add_ref :: "addr option outcome \<Rightarrow> (addr \<Rightarrow> nat) \<Rightarrow> addr \<Rightarrow> nat" where
  "add_ref r R = (case r of Ret (Some a) \<Rightarrow> R(a := R a + 1) | _ \<Rightarrow> R)"

definition refs_after :: "call \<Rightarrow> addr option outcome \<Rightarrow> (addr \<Rightarrow> nat) \<Rightarrow> addr \<Rightarrow> nat" where
  "refs_after c r R =
     (case c of
        Incref a \<Rightarrow> R(a := R a + 1)
      | Decref a \<Rightarrow> R(a := R a - 1)
      | _ \<Rightarrow> add_ref r R)"

section \<open>What a program may call\<close>

text \<open>It uses objects it holds a reference on, of the right type.\<close>

definition holds :: "(addr \<Rightarrow> nat) \<Rightarrow> ('d, 'it, 'sn, 'fs) world \<Rightarrow> pytype \<Rightarrow> addr \<Rightarrow> bool" where
  "holds R w t a \<longleftrightarrow> 0 < R a \<and> (case heap w a of None \<Rightarrow> False | Some ob \<Rightarrow> po_type (pobj_of ob) = t)"

definition holds_open :: "(addr \<Rightarrow> nat) \<Rightarrow> ('d, 'it, 'sn, 'fs) world \<Rightarrow> addr \<Rightarrow> bool" where
  "holds_open R w a \<longleftrightarrow> 0 < R a \<and> (case heap w a of Some (ObjDB p) \<Rightarrow> db_db p \<noteq> None | _ \<Rightarrow> False)"

definition holds_args :: "(addr \<Rightarrow> nat) \<Rightarrow> ('d, 'it, 'sn, 'fs) world \<Rightarrow> pyargs \<Rightarrow> bool" where
  "holds_args R w args \<longleftrightarrow>
     (\<forall>v\<in>arg_values args. case v of PyObj t a \<Rightarrow> holds R w t a | _ \<Rightarrow> True)"

text \<open>The argument of the constructor of snapshots\<close>

definition snapshot_arg :: "py_api \<Rightarrow> pyargs \<Rightarrow> addr option" where
  "snapshot_arg py args =
     (case parse_tuple py ''O!'' [T_LevelDB] [''db''] args of
        None \<Rightarrow> None
      | Some ps \<Rightarrow> (case arg_obj ps 0 PyNone of PyObj T_LevelDB db \<Rightarrow> Some db | _ \<Rightarrow> None))"

text \<open>
  Three rules of use go beyond that. A database is used while it is open; \<open>__init__\<close> is
  called on it again only while it counts no snapshots and no iterators; a snapshot is
  constructed from an open database, and its \<open>__init__\<close> called again with an open database.
\<close>

primrec permitted :: "py_api \<Rightarrow> call \<Rightarrow> (addr \<Rightarrow> nat) \<Rightarrow> ('d, 'it, 'sn, 'fs) world \<Rightarrow> bool" where
  "permitted py (NewDB args) R w = True"
| "permitted py (NewSnapshot args) R w = (case snapshot_arg py args of None \<Rightarrow> False | Some db \<Rightarrow> holds_open R w db)"
| "permitted py (NewBatch args) R w = True"
| "permitted py (InitDB a args) R w =
     (0 < R a \<and> (case heap w a of Some (ObjDB p) \<Rightarrow> n_snapshots p = 0 \<and> n_iterators p = 0 | _ \<Rightarrow> False))"
| "permitted py (InitSnapshot s args) R w =
     (holds R w T_Snapshot s \<and> (case snapshot_arg py args of None \<Rightarrow> False | Some db \<Rightarrow> holds_open R w db))"
| "permitted py (Write a args) R w = (holds_open R w a \<and> holds_args R w args)"
| "permitted py (Put a args) R w = holds_open R w a"
| "permitted py (Get a args) R w = holds_open R w a"
| "permitted py (Delete a args) R w = holds_open R w a"
| "permitted py (GetStats a) R w = holds_open R w a"
| "permitted py (CompactRange a args) R w = holds_open R w a"
| "permitted py (RangeIter a args) R w = holds_open R w a"
| "permitted py (CreateSnapshot a) R w = holds_open R w a"
| "permitted py (SnapshotGet s args) R w = holds R w T_Snapshot s"
| "permitted py (SnapshotRangeIter s args) R w = holds R w T_Snapshot s"
| "permitted py (IterNext i) R w = holds R w T_Iter i"
| "permitted py (BatchInit b args) R w = holds R w T_WriteBatch b"
| "permitted py (BatchPut b args) R w = holds R w T_WriteBatch b"
| "permitted py (BatchDelete b args) R w = holds R w T_WriteBatch b"
| "permitted py (Incref a) R w = (0 < R a)"
| "permitted py (Decref a) R w = (0 < R a)"
| "permitted py (Destroy args) R w = True"
| "permitted py (Repair args) R w = True"

section \<open>Reachable states\<close>

text \<open>
  The program starts with no objects and makes permitted calls, which may raise. Files,
  buffers and the pattern of failing allocations may be anything.
\<close>

definition initial :: "('d, 'it, 'sn, 'fs) world \<Rightarrow> bool" where
  "initial w \<longleftrightarrow> heap w = Map.empty \<and> dbs w = Map.empty \<and> its w = Map.empty \<and> sns w = Map.empty"

inductive reachable ::
  "py_api \<Rightarrow> ('d, 'it, 'sn, 'fs) leveldb \<Rightarrow> (addr \<Rightarrow> nat) \<Rightarrow> ('d, 'it, 'sn, 'fs) world \<Rightarrow> bool"
  for py ldb where
  start: "initial w \<Longrightarrow> reachable py ldb (\<lambda>_. 0) w"
| step: "reachable py ldb R w \<Longrightarrow> permitted py c R w \<Longrightarrow> run_call py ldb c w = (r, w') \<Longrightarrow>
    (\<And>f. r \<noteq> Crash f) \<Longrightarrow> reachable py ldb (refs_after c r R) w'"

text \<open>What holds in every such state\<close>

definition good :: "(addr \<Rightarrow> nat) \<Rightarrow> ('d, 'it, 'sn, 'fs) world \<Rightarrow> bool" where
  "good R w \<longleftrightarrow> owned R (shape_of w) \<and> all_sane (shape_of w)"

lemma good_initial: "initial w \<Longrightarrow> good (\<lambda>_. 0) w"
proof -
  assume i: "initial w"
  have "owner w k = None" for k using i by (cases k) (simp_all add: initial_def)
  then show ?thesis
    using i by (simp add: good_def initial_def shape_of_def owned_def counted_def handled_def linked_def
        owning_def one_owner_def owns_def all_sane_def)
qed

end
