(* ===== verification/LifecycleSteps.thy ===== *)
theory LifecycleSteps
  imports Lifecycle
begin

text \<open>
  The operations keep the ownership invariant and never use what is not there: symbolic
  execution of each operation on the view of the world.
\<close>

section \<open>Views of changed worlds\<close>

named_theorems shape_simps \<open>views of changed worlds\<close>

lemma owner_cong: "dbs w = dbs v \<Longrightarrow> its w = its v \<Longrightarrow> sns w = sns v \<Longrightarrow> owner w = owner v"
  by (rule ext, rename_tac k, case_tac k) simp_all

lemma owner_upd [shape_simps]:
  "owner (w\<lparr>heap := hp\<rparr>) = owner w" "owner (w\<lparr>next_addr := n\<rparr>) = owner w" "owner (w\<lparr>next_handle := n\<rparr>) = owner w"
  "owner (w\<lparr>fsys := fs\<rparr>) = owner w" "owner (w\<lparr>exports := e\<rparr>) = owner w" "owner (w\<lparr>foreign := g\<rparr>) = owner w"
  "owner (w\<lparr>alloc_fail := al\<rparr>) = owner w"
  by (rule owner_cong; simp)+

lemma owner_cobj [shape_simps]:
  "owner (w\<lparr>dbs := (dbs w)(h \<mapsto> d)\<rparr>) = (owner w)(CDB h \<mapsto> h)"
  "owner (w\<lparr>dbs := (dbs w)(h := None)\<rparr>) = (owner w)(CDB h := None)"
  "owner (w\<lparr>sns := (sns w)(s \<mapsto> v)\<rparr>) = (owner w)(CSnapshot s \<mapsto> fst v)"
  "owner (w\<lparr>sns := (sns w)(s := None)\<rparr>) = (owner w)(CSnapshot s := None)"
  "owner (w\<lparr>its := (its w)(i \<mapsto> x)\<rparr>) = (owner w)(CIter i \<mapsto> fst x)"
  "owner (w\<lparr>its := (its w)(i := None)\<rparr>) = (owner w)(CIter i := None)"
  by (rule ext, rename_tac k, case_tac k, auto)+

lemma shape_sel [simp]:
  "objs (shape_of w) a = map_option pobj_of (heap w a)" "na (shape_of w) = next_addr w"
  "own (shape_of w) = owner w" "nh (shape_of w) = next_handle w"
  by (simp_all add: shape_of_def)

lemma shape_heap [shape_simps]:
  "shape_of (w\<lparr>heap := (heap w)(a \<mapsto> ob)\<rparr>) = (shape_of w)\<lparr>objs := (objs (shape_of w))(a \<mapsto> pobj_of ob)\<rparr>"
  "shape_of (w\<lparr>heap := (heap w)(a := None)\<rparr>) = (shape_of w)\<lparr>objs := (objs (shape_of w))(a := None)\<rparr>"
  by (auto simp: shape_of_def shape_simps)

lemma shape_frame [shape_simps]:
  "shape_of (w\<lparr>fsys := fs\<rparr>) = shape_of w" "shape_of (w\<lparr>exports := e\<rparr>) = shape_of w"
  "shape_of (w\<lparr>foreign := g\<rparr>) = shape_of w" "shape_of (w\<lparr>alloc_fail := al\<rparr>) = shape_of w"
  by (simp_all add: shape_of_def shape_simps)

lemma shape_handles [shape_simps]:
  "shape_of (w\<lparr>dbs := (dbs w)(h \<mapsto> d)\<rparr>) = (shape_of w)\<lparr>own := (own (shape_of w))(CDB h \<mapsto> h)\<rparr>"
  "shape_of (w\<lparr>dbs := (dbs w)(h := None)\<rparr>) = (shape_of w)\<lparr>own := (own (shape_of w))(CDB h := None)\<rparr>"
  "shape_of (w\<lparr>sns := (sns w)(s \<mapsto> v)\<rparr>) = (shape_of w)\<lparr>own := (own (shape_of w))(CSnapshot s \<mapsto> fst v)\<rparr>"
  "shape_of (w\<lparr>sns := (sns w)(s := None)\<rparr>) = (shape_of w)\<lparr>own := (own (shape_of w))(CSnapshot s := None)\<rparr>"
  "shape_of (w\<lparr>its := (its w)(i \<mapsto> x)\<rparr>) = (shape_of w)\<lparr>own := (own (shape_of w))(CIter i \<mapsto> fst x)\<rparr>"
  "shape_of (w\<lparr>its := (its w)(i := None)\<rparr>) = (shape_of w)\<lparr>own := (own (shape_of w))(CIter i := None)\<rparr>"
  by (simp_all add: shape_of_def shape_simps)

lemma shape_next [shape_simps]:
  "shape_of (w\<lparr>next_handle := n\<rparr>) = (shape_of w)\<lparr>nh := n\<rparr>"
  "shape_of (w\<lparr>next_addr := n\<rparr>) = (shape_of w)\<lparr>na := n\<rparr>"
  by (simp_all add: shape_of_def shape_simps)

section \<open>Rules\<close>

text \<open>The view of the world is \<open>S\<close>, and the iterators satisfy \<open>J\<close>.\<close>

definition seen ::
  "shape \<Rightarrow> ((handle \<Rightarrow> (handle \<times> 'it) option) \<Rightarrow> bool) \<Rightarrow> ('d, 'it, 'sn, 'fs) world \<Rightarrow> bool" where
  "seen S J w \<longleftrightarrow> shape_of w = S \<and> J (its w)"

abbreviation view :: "shape \<Rightarrow> ('d, 'it, 'sn, 'fs) world \<Rightarrow> bool" where
  "view S \<equiv> seen S (\<lambda>_. True)"

named_theorems step_rules \<open>forward execution of the primitive operations\<close>

lemma safe_run:
  assumes "\<And>w. P w \<Longrightarrow> (\<exists>x w'. m w = (Ret x, w') \<and> R x w')" and "\<And>x. safe (R x) (f x) Q E"
  shows "safe P (py_bind m f) Q E"
proof (rule safe_bind [where R = R])
  show "safe P m R E" by (rule safeI) (use assms(1) in force)+
  show "safe (R x) (f x) Q E" for x by (rule assms(2))
qed

lemma safe_run_unit:
  assumes "\<And>w. P w \<Longrightarrow> (\<exists>r w'. m w = (Ret (r :: unit), w') \<and> R w')" and "safe R (f ()) Q E"
  shows "safe P (py_bind m f) Q E"
  by (rule safe_run [where R = "\<lambda>_. R"]) (use assms in auto)

lemma safe_choose:
  assumes "\<And>w. P w \<Longrightarrow> \<exists>x. m w = F x w \<and> R x w" and "\<And>x. safe (R x) (F x) Q E"
  shows "safe P m Q E"
  unfolding safe_def
proof (intro allI impI)
  fix w assume "P w"
  then obtain x where "m w = F x w" "R x w" using assms(1) by blast
  with assms(2) [of x] show "case m w of (Ret x, w') \<Rightarrow> Q x w' | (Raise e, w') \<Rightarrow> E w' | (Crash c, w') \<Rightarrow> c = Abort"
    by (simp add: safe_def)
qed

lemma run_ret [step_rules]: "safe P (f x) Q E \<Longrightarrow> safe P (py_bind (py_ret x) f) Q E"
  by (simp add: safe_def py_bind_def py_ret_def)

lemma run_assoc [step_rules]: "safe P (py_bind m (\<lambda>x. py_bind (f x) g)) Q E \<Longrightarrow> safe P (py_bind (py_bind m f) g) Q E"
  by (simp add: py_bind_assoc)

lemma run_raise [step_rules]: "(\<And>w. P w \<Longrightarrow> E w) \<Longrightarrow> safe P (py_bind (py_raise e) f) Q E"
  by (simp add: safe_def py_bind_def py_raise_def)

lemma run_if [step_rules]:
  "(b \<Longrightarrow> safe P (py_bind m f) Q E) \<Longrightarrow> (\<not> b \<Longrightarrow> safe P (py_bind n f) Q E) \<Longrightarrow>
   safe P (py_bind (if b then m else n) f) Q E"
  by simp

lemma run_deref [step_rules]: "safe P (f x) Q E \<Longrightarrow> safe P (py_bind (deref (Some x)) f) Q E"
  by (simp add: deref_def run_ret)

lemma run_alloc [step_rules]:
  assumes "\<And>ok. safe (seen S J) (f ok) Q E"
  shows "safe (seen S J) (py_bind py_alloc f) Q E"
  by (rule safe_run [where R = "\<lambda>_. seen S J"]) (auto simp: seen_def py_alloc_def shape_simps assms split: list.split)

lemma run_parse [step_rules]:
  assumes "\<And>w. seen S J w \<Longrightarrow> E w"
    and "\<And>ps. parse_tuple py fmt ts kws args = Some ps \<Longrightarrow> safe (seen S J) (f ps) Q E"
  shows "safe (seen S J) (py_bind (PyArg_ParseTupleAndKeywords py fmt ts kws args) f) Q E"
proof (rule safe_bind [where R = "\<lambda>ps w. seen S J w \<and> parse_tuple py fmt ts kws args = Some ps"])
  show "safe (seen S J) (PyArg_ParseTupleAndKeywords py fmt ts kws args)
     (\<lambda>ps w. seen S J w \<and> parse_tuple py fmt ts kws args = Some ps) E"
    using assms(1) by (auto simp: safe_def PyArg_ParseTupleAndKeywords_def seen_def shape_simps split: option.split)
  show "safe (\<lambda>w. seen S J w \<and> parse_tuple py fmt ts kws args = Some ps) (f ps) Q E" for ps
    using assms(2) [of ps] by (auto simp: safe_def)
qed

lemma run_parse_buffer [step_rules]:
  assumes "\<And>w. seen S J w \<Longrightarrow> E w" and "\<And>b. safe (seen S J) (f b) Q E"
  shows "safe (seen S J) (py_bind (PyArg_Parse_buffer py v) f) Q E"
proof (rule safe_bind [where R = "\<lambda>_. seen S J"])
  show "safe (seen S J) (PyArg_Parse_buffer py v) (\<lambda>_. seen S J) E"
    using assms(1)
    by (auto simp: safe_def PyArg_Parse_buffer_def seen_def shape_simps split: option.split list.split parg.split)
qed (rule assms(2))

lemma run_release [step_rules]:
  "safe (seen S J) (f ()) Q E \<Longrightarrow> safe (seen S J) (py_bind PY_LEVELDB_RELEASE_BUFFER f) Q E"
  by (rule safe_run [where R = "\<lambda>_. seen S J"])
    (auto simp: seen_def PY_LEVELDB_RELEASE_BUFFER_def py_modify_def shape_simps)

text \<open>Objects\<close>

lemma seen_obj:
  assumes "seen S J w" "objs S a = Some x"
  obtains ob where "heap w a = Some ob" "pobj_of ob = x"
  using assms shape_sel(1) [of w a] by (cases "heap w a") (auto simp: seen_def)

lemma safe_fact: "(b \<Longrightarrow> safe P m Q E) \<Longrightarrow> safe (\<lambda>w. P w \<and> b) m Q E"
  by (auto simp: safe_def)

lemma run_get_db [step_rules]:
  assumes x: "objs S a = Some x" "po_type x = T_LevelDB" and f: "\<And>p. pobj_of (ObjDB p) = x \<Longrightarrow> safe (seen S J) (f p) Q E"
  shows "safe (seen S J) (py_bind (get_db a) f) Q E"
proof -
  have "\<exists>p w'. get_db a w = (Ret p, w') \<and> seen S J w' \<and> pobj_of (ObjDB p) = x" if s: "seen S J w" for w
  proof -
    obtain ob where "heap w a = Some ob" "pobj_of ob = x" using seen_obj [OF s x(1)] .
    with x(2) s show ?thesis by (cases ob) (auto simp: get_db_def)
  qed
  then show ?thesis by (rule safe_run) (assumption | rule safe_fact | erule f)+
qed

lemma run_get_snapshot [step_rules]:
  assumes x: "objs S a = Some x" "po_type x = T_Snapshot" and f: "\<And>p. pobj_of (ObjSnapshot p) = x \<Longrightarrow> safe (seen S J) (f p) Q E"
  shows "safe (seen S J) (py_bind (get_snapshot a) f) Q E"
proof -
  have "\<exists>p w'. get_snapshot a w = (Ret p, w') \<and> seen S J w' \<and> pobj_of (ObjSnapshot p) = x" if s: "seen S J w" for w
  proof -
    obtain ob where "heap w a = Some ob" "pobj_of ob = x" using seen_obj [OF s x(1)] .
    with x(2) s show ?thesis by (cases ob) (auto simp: get_snapshot_def)
  qed
  then show ?thesis by (rule safe_run) (assumption | rule safe_fact | erule f)+
qed

lemma run_get_iter [step_rules]:
  assumes x: "objs S a = Some x" "po_type x = T_Iter" and f: "\<And>p. pobj_of (ObjIter p) = x \<Longrightarrow> safe (seen S J) (f p) Q E"
  shows "safe (seen S J) (py_bind (get_iter a) f) Q E"
proof -
  have "\<exists>p w'. get_iter a w = (Ret p, w') \<and> seen S J w' \<and> pobj_of (ObjIter p) = x" if s: "seen S J w" for w
  proof -
    obtain ob where "heap w a = Some ob" "pobj_of ob = x" using seen_obj [OF s x(1)] .
    with x(2) s show ?thesis by (cases ob) (auto simp: get_iter_def)
  qed
  then show ?thesis by (rule safe_run) (assumption | rule safe_fact | erule f)+
qed

lemma run_get_batch [step_rules]:
  assumes x: "objs S a = Some x" "po_type x = T_WriteBatch" and f: "\<And>p. pobj_of (ObjBatch p) = x \<Longrightarrow> safe (seen S J) (f p) Q E"
  shows "safe (seen S J) (py_bind (get_batch a) f) Q E"
proof -
  have "\<exists>p w'. get_batch a w = (Ret p, w') \<and> seen S J w' \<and> pobj_of (ObjBatch p) = x" if s: "seen S J w" for w
  proof -
    obtain ob where "heap w a = Some ob" "pobj_of ob = x" using seen_obj [OF s x(1)] .
    with x(2) s show ?thesis by (cases ob) (auto simp: get_batch_def)
  qed
  then show ?thesis by (rule safe_run) (assumption | rule safe_fact | erule f)+
qed

definition put_obj :: "addr \<Rightarrow> pobj \<Rightarrow> shape \<Rightarrow> shape" where
  "put_obj a x S = S\<lparr>objs := (objs S)(a \<mapsto> x)\<rparr>"

lemma seen_put: "seen S J w \<Longrightarrow> seen (put_obj a (pobj_of ob) S) J (w\<lparr>heap := (heap w)(a \<mapsto> ob)\<rparr>)"
  by (auto simp: seen_def put_obj_def shape_simps)

lemma run_set_db [step_rules]:
  "safe (seen (put_obj a (pobj_of (ObjDB p)) S) J) (f ()) Q E \<Longrightarrow> safe (seen S J) (py_bind (set_db a p) f) Q E"
  by (rule safe_run) (auto simp: set_db_def py_modify_def intro: seen_put simp del: pobj_of.simps)

lemma run_set_snapshot [step_rules]:
  "safe (seen (put_obj a (pobj_of (ObjSnapshot p)) S) J) (f ()) Q E \<Longrightarrow>
   safe (seen S J) (py_bind (set_snapshot a p) f) Q E"
  by (rule safe_run) (auto simp: set_snapshot_def py_modify_def intro: seen_put simp del: pobj_of.simps)

lemma run_set_iter [step_rules]:
  "safe (seen (put_obj a (pobj_of (ObjIter p)) S) J) (f ()) Q E \<Longrightarrow> safe (seen S J) (py_bind (set_iter a p) f) Q E"
  by (rule safe_run) (auto simp: set_iter_def py_modify_def intro: seen_put simp del: pobj_of.simps)

lemma run_set_batch [step_rules]:
  "safe (seen (put_obj a (pobj_of (ObjBatch p)) S) J) (f ()) Q E \<Longrightarrow> safe (seen S J) (py_bind (set_batch a p) f) Q E"
  by (rule safe_run) (auto simp: set_batch_def py_modify_def intro: seen_put simp del: pobj_of.simps)

lemma run_new_object [step_rules]:
  assumes "safe (seen (S\<lparr>objs := (objs S)(na S \<mapsto> pobj_of ob), na := Suc (na S)\<rparr>) J) (f (na S)) Q E"
  shows "safe (seen S J) (py_bind (new_object ob) f) Q E"
proof -
  let ?S = "S\<lparr>objs := (objs S)(na S \<mapsto> pobj_of ob), na := Suc (na S)\<rparr>"
  have "\<exists>r w'. new_object ob w = (Ret r, w') \<and> seen ?S J w' \<and> r = na S" if "seen S J w" for w
    using that by (auto simp: new_object_def seen_def shape_simps simp del: pobj_of.simps)
  then show ?thesis by (rule safe_run) (assumption | rule safe_fact | simp add: assms del: pobj_of.simps)+
qed

lemma run_free_object [step_rules]:
  assumes "safe (seen (S\<lparr>objs := (objs S)(a := None)\<rparr>) J) (f ()) Q E"
  shows "safe (seen S J) (py_bind (free_object a) f) Q E"
proof -
  have "\<exists>r w'. free_object a w = (Ret r, w') \<and> seen (S\<lparr>objs := (objs S)(a := None)\<rparr>) J w'" if "seen S J w" for w
    using that by (auto simp: free_object_def py_modify_def seen_def shape_simps)
  then show ?thesis by (rule safe_run_unit) (assumption | rule assms)+
qed

text \<open>C++ objects\<close>

lemma seen_db: "seen S J w \<Longrightarrow> own S (CDB h) \<noteq> None \<Longrightarrow> \<exists>d. dbs w h = Some d"
  by (auto simp: seen_def shape_of_def split: if_splits)

lemma shape_db_same: "dbs w h = Some d \<Longrightarrow> shape_of (w\<lparr>dbs := (dbs w)(h \<mapsto> d')\<rparr>) = shape_of w"
  by (simp add: shape_of_def shape_simps fun_upd_idem)

lemma run_call_db [step_rules]:
  assumes h: "own S (CDB h) \<noteq> None" and f: "\<And>r. safe (seen S J) (f r) Q E"
  shows "safe (seen S J) (py_bind (call_db h g) f) Q E"
proof -
  have "\<exists>r w'. call_db h g w = (Ret r, w') \<and> seen S J w'" if s: "seen S J w" for w
  proof -
    obtain d where d: "dbs w h = Some d" using seen_db [OF s h] by blast
    obtain r d' where "g d = (r, d')" by fastforce
    with s d show ?thesis by (simp add: call_db_def seen_def shape_db_same)
  qed
  then show ?thesis by (rule safe_run) (assumption | rule f)+
qed

lemma seen_it:
  "seen S J w \<Longrightarrow> own S (CIter h) = Some dh \<Longrightarrow> own S (CDB dh) \<noteq> None \<Longrightarrow> \<exists>x d. its w h = Some (dh, x) \<and> dbs w dh = Some d"
  by (auto simp: seen_def shape_of_def split: if_splits)

lemma run_read_it [step_rules]:
  assumes h: "own S (CIter h) = Some dh" "own S (CDB dh) \<noteq> None"
    and f: "\<And>x. safe (seen S (\<lambda>i. J i \<and> i h = Some (dh, x))) (f (g x)) Q E"
  shows "safe (seen S J) (py_bind (read_it h g) f) Q E"
proof -
  have "\<exists>x. read_it h g w = (Ret (g x), w) \<and> seen S (\<lambda>i. J i \<and> i h = Some (dh, x)) w" if s: "seen S J w" for w
    using seen_it [OF s h] s by (auto simp: read_it_def seen_def)
  then have "\<exists>x. py_bind (read_it h g) f w = f (g x) w \<and> seen S (\<lambda>i. J i \<and> i h = Some (dh, x)) w" if "seen S J w" for w
    using that by (fastforce simp: py_bind_def)
  then show ?thesis by (rule safe_choose) (assumption | rule f)+
qed

lemma run_read_valid_it [step_rules]:
  assumes h: "own S (CIter h) = Some dh" "own S (CDB dh) \<noteq> None"
    and valid: "\<And>i. J i \<Longrightarrow> \<exists>x. i h = Some (dh, x) \<and> It_Valid ldb x" and f: "\<And>r. safe (seen S J) (f r) Q E"
  shows "safe (seen S J) (py_bind (read_valid_it ldb h g) f) Q E"
proof -
  have "\<exists>r w'. read_valid_it ldb h g w = (Ret r, w') \<and> seen S J w'" if s: "seen S J w" for w
  proof -
    obtain x where "its w h = Some (dh, x)" "It_Valid ldb x" using valid s by (auto simp: seen_def)
    moreover obtain d where "dbs w dh = Some d" using seen_db [OF s h(2)] by blast
    ultimately show ?thesis using s by (simp add: read_valid_it_def read_it_def py_bind_def)
  qed
  then show ?thesis by (rule safe_run) (assumption | rule f)+
qed

lemma shape_it_same: "its w h = Some (dh, x) \<Longrightarrow> shape_of (w\<lparr>its := (its w)(h \<mapsto> (dh, y))\<rparr>) = shape_of w"
  by (simp add: shape_of_def shape_simps fun_upd_idem)

lemma run_move_it [step_rules]:
  assumes h: "own S (CIter h) = Some dh" "own S (CDB dh) \<noteq> None" and f: "safe (view S) (f ()) Q E"
  shows "safe (seen S J) (py_bind (move_it h g) f) Q E"
proof -
  have "\<exists>r w'. move_it h g w = (Ret r, w') \<and> view S w'" if s: "seen S J w" for w
    using seen_it [OF s h] s by (auto simp: move_it_def seen_def shape_it_same)
  then show ?thesis by (rule safe_run_unit) (assumption | rule f)+
qed

lemma run_move_valid_it [step_rules]:
  assumes h: "own S (CIter h) = Some dh" "own S (CDB dh) \<noteq> None"
    and valid: "\<And>i. J i \<Longrightarrow> \<exists>x. i h = Some (dh, x) \<and> It_Valid ldb x" and f: "safe (view S) (f ()) Q E"
  shows "safe (seen S J) (py_bind (move_valid_it ldb h g) f) Q E"
proof -
  have "\<exists>r w'. move_valid_it ldb h g w = (Ret r, w') \<and> view S w'" if s: "seen S J w" for w
  proof -
    obtain x where "its w h = Some (dh, x)" "It_Valid ldb x" using valid s by (auto simp: seen_def)
    moreover obtain d where "dbs w dh = Some d" using seen_db [OF s h(2)] by blast
    ultimately show ?thesis
      using s by (simp add: move_valid_it_def read_it_def move_it_def py_bind_def seen_def shape_it_same)
  qed
  then show ?thesis by (rule safe_run_unit) (assumption | rule f)+
qed

lemma run_delete_it [step_rules]:
  assumes h: "own S (CIter h) = Some dh" "own S (CDB dh) \<noteq> None"
    and f: "safe (view (S\<lparr>own := (own S)(CIter h := None)\<rparr>)) (f ()) Q E"
  shows "safe (seen S J) (py_bind (delete_it (Some h)) f) Q E"
proof -
  have "\<exists>r w'. delete_it (Some h) w = (Ret r, w') \<and> view (S\<lparr>own := (own S)(CIter h := None)\<rparr>) w'"
    if s: "seen S J w" for w
    using seen_it [OF s h] s by (auto simp: delete_it_def seen_def shape_simps)
  then show ?thesis by (rule safe_run_unit) (assumption | rule f)+
qed

lemma run_delete_it_None [step_rules]: "safe P (f ()) Q E \<Longrightarrow> safe P (py_bind (delete_it None) f) Q E"
  by (simp add: safe_def py_bind_def delete_it_def)

lemma run_delete_db [step_rules]:
  assumes h: "\<And>h. q = Some h \<Longrightarrow> own S (CDB h) \<noteq> None"
    and f: "safe (seen (S\<lparr>own := disown (map_option CDB q) (own S)\<rparr>) J) (f ()) Q E"
  shows "safe (seen S J) (py_bind (delete_db ldb q) f) Q E"
proof -
  have "\<exists>r w'. delete_db ldb q w = (Ret r, w') \<and> seen (S\<lparr>own := disown (map_option CDB q) (own S)\<rparr>) J w'"
    if s: "seen S J w" for w
  proof (cases q)
    case None
    with s show ?thesis by (simp add: delete_db_def)
  next
    case (Some h)
    then obtain d where "dbs w h = Some d" using seen_db [OF s] assms(1) by blast
    with s Some show ?thesis by (auto simp: delete_db_def seen_def shape_simps)
  qed
  then show ?thesis by (rule safe_run_unit) (assumption | rule f)+
qed

lemma run_delete_comparator [step_rules]:
  assumes "safe (seen S J) (f ()) Q E"
  shows "safe (seen S J) (py_bind (delete_comparator c) f) Q E"
proof -
  have "\<exists>r w'. delete_comparator c w = (Ret r, w') \<and> seen S J w'" if "seen S J w" for w
    using that by (auto simp: delete_comparator_def py_modify_def py_ret_def seen_def shape_simps split: option.split comparator.split)
  then show ?thesis by (rule safe_run_unit) (assumption | rule assms)+
qed

lemma run_Compare [step_rules]:
  assumes "\<And>c. safe (seen S J) (f c) Q E"
  shows "safe (seen S J) (py_bind (Compare py ldb c a b) f) Q E"
proof (rule safe_bind [where R = "\<lambda>_. seen S J"])
  show "safe (seen S J) (Compare py ldb c a b) (\<lambda>_. seen S J) E"
    unfolding Compare_def PythonComparatorWrapper_Compare_def SetError_def
    by (auto split: comparator.split option.split simp: safe_ret intro!: run_alloc safe_if safe_ret safe_abort)
qed (rule assms)

lemma run_get_comparator [step_rules]:
  assumes "\<And>w. seen S J w \<Longrightarrow> E w" and "\<And>c. safe (seen S J) (f c) Q E"
  shows "safe (seen S J) (py_bind (pyleveldb_get_comparator py v) f) Q E"
proof (rule safe_bind [where R = "\<lambda>_. seen S J"])
  have ret: "safe (seen S J) (py_ret x) (\<lambda>_. seen S J) E" for x by (simp add: safe_ret)
  have raise: "safe (seen S J) (py_raise e) (\<lambda>_. seen S J) E" for e using assms(1) by (simp add: safe_raise)
  have upd: "safe (seen S J) (py_bind (py_modify (\<lambda>w. w\<lparr>foreign := g w\<rparr>)) (\<lambda>_. py_ret x)) (\<lambda>_. seen S J) E" for g x
    by (auto simp: safe_def py_bind_def py_modify_def py_ret_def seen_def shape_simps)
  show "safe (seen S J) (pyleveldb_get_comparator py v) (\<lambda>_. seen S J) E"
    unfolding pyleveldb_get_comparator_def
    by (auto split: option.split list.split parg.split pyval.split intro!: ret raise upd)
qed (rule assms(2))

end
