(* ===== verification/LifecycleObjects.thy ===== *)
theory LifecycleObjects
  imports LifecycleSteps
begin

text \<open>
  The calls that change or drop existing objects keep the ownership invariant and are memory
  safe: the data operations, iteration, and the reference counts with the destructors.
\<close>

section \<open>Calls that leave the objects as they are\<close>

definition opened :: "shape \<Rightarrow> addr \<Rightarrow> bool" where
  "opened S a \<longleftrightarrow> (\<exists>x h. objs S a = Some x \<and> po_type x = T_LevelDB \<and> po_owns x = Some (CDB h) \<and> own S (CDB h) \<noteq> None)"

lemma run_with_db:
  assumes op: "opened S a" and f: "\<And>r. safe (seen S J) (f r) Q E"
  shows "safe (seen S J) (py_bind (with_db a g) f) Q E"
proof -
  obtain x h where x: "objs S a = Some x" "po_type x = T_LevelDB" "po_owns x = Some (CDB h)" "own S (CDB h) \<noteq> None"
    using op by (auto simp: opened_def)
  show ?thesis unfolding with_db_def
  proof (intro run_assoc run_get_db [OF x(1,2)])
    fix p assume "pobj_of (ObjDB p) = x"
    with x(3) have "db_db p = Some h" by auto
    then show "safe (seen S J) (py_bind (deref (db_db p)) (\<lambda>y. py_bind (call_db y g) f)) Q E"
      by (simp only:) (rule run_deref, rule run_call_db [OF x(4) f])
  qed
qed

lemmas done_rules = safe_if safe_ret safe_raise

lemma Put_view: "opened S a \<Longrightarrow> safe (view S) (PyLevelDB_Put py ldb a args) (\<lambda>_. view S) (view S)"
  unfolding PyLevelDB_Put_def PyLevelDB_set_error_def Let_def
  by (intro step_rules run_with_db done_rules)

lemma Delete_view: "opened S a \<Longrightarrow> safe (view S) (PyLevelDB_Delete py ldb a args) (\<lambda>_. view S) (view S)"
  unfolding PyLevelDB_Delete_def PyLevelDB_set_error_def Let_def
  by (intro step_rules run_with_db done_rules)

lemma GetStatus_view: "opened S a \<Longrightarrow> safe (view S) (PyLevelDB_GetStatus ldb a) (\<lambda>_. view S) (view S)"
  unfolding PyLevelDB_GetStatus_def Let_def
  by (intro step_rules run_with_db) (auto split: option.split intro!: done_rules run_alloc)

lemma CompactRange_view: "opened S a \<Longrightarrow> safe (view S) (PyLevelDB_CompactRange py ldb a args) (\<lambda>_. view S) (view S)"
  unfolding PyLevelDB_CompactRange_def Let_def
  by (intro step_rules run_with_db done_rules)

text \<open>The batch is an argument of the call that the program holds.\<close>

definition arg_objects :: "shape \<Rightarrow> pyargs \<Rightarrow> bool" where
  "arg_objects S args \<longleftrightarrow> (\<forall>t a. PyObj t a \<in> arg_values args \<longrightarrow> (\<exists>x. objs S a = Some x \<and> po_type x = t))"

lemma Write_view:
  assumes py: "parse_respects_types py" and op: "opened S a" and args: "arg_objects S args"
  shows "safe (view S) (PyLevelDB_Write py ldb a args) (\<lambda>_. view S) (view S)"
  unfolding PyLevelDB_Write_def Let_def
proof (rule run_parse)
  fix ps
  assume "parse_tuple py ''O!|O!'' [T_WriteBatch, T_bool] [''write_batch'', ''sync''] args = Some ps"
  then have "parse_tuple py (''O!'' @ ''|O!'') [T_WriteBatch, T_bool] [''write_batch'', ''sync''] args = Some ps" by simp
  with py have "\<exists>b. arg_at ps 0 = Some (P_obj (PyObj T_WriteBatch b)) \<and> PyObj T_WriteBatch b \<in> arg_values args"
    unfolding parse_respects_types_def by fastforce
  then obtain b where b: "arg_at ps 0 = Some (P_obj (PyObj T_WriteBatch b))" "PyObj T_WriteBatch b \<in> arg_values args"
    by blast
  then obtain x where "objs S b = Some x" "po_type x = T_WriteBatch" using args by (auto simp: arg_objects_def)
  then show "safe (view S) (case arg_obj ps 0 PyNone of
      PyObj T_WriteBatch write_batch \<Rightarrow>
        py_bind (get_batch write_batch) (\<lambda>b.
          py_bind (with_db a (DB_Write ldb \<lparr>wo_sync = py_true (arg_obj ps 1 (PyBool False))\<rparr> (fill_batch (wb_ops b) 0 [])))
            (\<lambda>status. if \<not> status_ok status then PyLevelDB_set_error status else py_ret PyNone))
      | _ \<Rightarrow> py_crash NullDeref) (\<lambda>_. view S) (view S)"
    unfolding arg_obj_def b(1) PyLevelDB_set_error_def
    by (simp, intro step_rules run_with_db op done_rules)
qed

section \<open>States between calls\<close>

definition goodS :: "(addr \<Rightarrow> nat) \<Rightarrow> shape \<Rightarrow> bool" where
  "goodS R S \<longleftrightarrow> owned R S \<and> all_sane S"

definition typed :: "shape \<Rightarrow> bool" where
  "typed S \<longleftrightarrow> (\<forall>a x. objs S a = Some x \<longrightarrow> x \<in> range pobj_of)"

lemma good_goodS: "seen S J w \<Longrightarrow> goodS R S \<Longrightarrow> good R w"
  by (simp add: seen_def goodS_def good_def)

lemma typed_shape_of: "typed (shape_of w)"
  by (auto simp: typed_def)

lemma safe_typed: "(typed S \<Longrightarrow> safe (seen S J) m Q E) \<Longrightarrow> safe (seen S J) m Q E"
  using typed_shape_of by (fastforce simp: safe_def seen_def)

lemma safe_weaken: "safe (view S) m Q E \<Longrightarrow> safe (seen S J) m Q E"
  by (auto simp: safe_def seen_def)

lemma safe_post:
  assumes "safe P m Q' E'" and "\<And>x w. Q' x w \<Longrightarrow> Q x w" and "\<And>w. E' w \<Longrightarrow> E w"
  shows "safe P m Q E"
  using assms(1) by (rule safe_conseq) (use assms in auto)

lemma typed_db:
  assumes "typed S" "objs S a = Some x" "po_owns x = Some (CDB h)"
  shows "po_type x = T_LevelDB" "po_db x = None"
proof -
  obtain ob where "x = pobj_of ob" using assms(1,2) by (auto simp: typed_def)
  with assms(3) show "po_type x = T_LevelDB" "po_db x = None" by (cases ob; auto)+
qed

lemma goodS_sane: "goodS R S \<Longrightarrow> objs S a = Some x \<Longrightarrow> po_sane x"
  by (simp add: goodS_def all_sane_def)

text \<open>What an attached object depends on\<close>

lemma attached:
  assumes g: "goodS R S" and t: "typed S" and x: "objs S b = Some x" "po_db x = Some a"
  obtains z h k where "objs S a = Some z" "po_type z = T_LevelDB" "po_owns z = Some (CDB h)" "po_db z = None"
    "po_owns x = Some k" "\<not> is_CDB k" "own S k = Some h" "own S (CDB h) \<noteq> None" "opened S a"
    "po_sane z" "po_refs z \<noteq> 0" "a \<noteq> b"
proof -
  have o: "owned R S" using g by (simp add: goodS_def)
  obtain z h k where z: "objs S a = Some z" "po_owns z = Some (CDB h)" "po_owns x = Some k" "\<not> is_CDB k" "own S k = Some h"
    using owned_link [OF o x] .
  note d = typed_db [OF t z(1,2)] and l = owned_owns(1) [OF o z(1,2)]
  have "opened S a" using z(1,2) d l by (simp add: opened_def)
  moreover have "a \<noteq> b" using z x by auto
  ultimately show thesis
    using that [OF z(1) d(1) z(2) d(2) z(3,4,5) l] goodS_sane [OF g z(1)] owned_obj(2) [OF o z(1)] by blast
qed

section \<open>Dropping a reference on a database object\<close>

lemma run_dealloc_db:
  assumes x: "objs S a = Some x" "po_type x = T_LevelDB" and l: "\<And>k. po_owns x = Some k \<Longrightarrow> own S k \<noteq> None"
    and f: "safe (seen (S\<lparr>objs := (objs S)(a := None), own := disown (po_owns x) (own S)\<rparr>) J) (f ()) Q E"
  shows "safe (seen S J) (py_bind (PyLevelDB_dealloc ldb a) f) Q E"
  unfolding PyLevelDB_dealloc_def
proof (intro run_assoc run_get_db [OF x])
  fix p assume p: "pobj_of (ObjDB p) = x"
  then have q: "map_option CDB (db_db p) = po_owns x" by auto
  show "safe (seen S J) (py_bind (delete_db ldb (db_db p)) (\<lambda>y. py_bind (py_bind (delete_comparator (db_comparator p))
      (\<lambda>_. py_bind (set_db a (p\<lparr>db_db := None, db_options := None, db_cache := None, db_comparator := None,
         n_iterators := 0, n_snapshots := 0\<rparr>)) (\<lambda>_. free_object a))) f)) Q E"
  proof (intro step_rules)
    fix h assume "db_db p = Some h" with l q show "own S (CDB h) \<noteq> None" by auto
  next
    show "safe (seen (put_obj a (pobj_of (ObjDB (p\<lparr>db_db := None, db_options := None, db_cache := None,
        db_comparator := None, n_iterators := 0, n_snapshots := 0\<rparr>)))
        (S\<lparr>own := disown (map_option CDB (db_db p)) (own S)\<rparr>)
        \<lparr>objs := (objs (put_obj a (pobj_of (ObjDB (p\<lparr>db_db := None, db_options := None, db_cache := None,
          db_comparator := None, n_iterators := 0, n_snapshots := 0\<rparr>)))
          (S\<lparr>own := disown (map_option CDB (db_db p)) (own S)\<rparr>)))(a := None)\<rparr>) J) (f ()) Q E"
      using f unfolding q by (simp add: put_obj_def shape_norm)
  qed
qed

lemma run_DECREF_db:
  assumes x: "objs S a = Some x" "po_type x = T_LevelDB" and l: "\<And>k. po_owns x = Some k \<Longrightarrow> own S k \<noteq> None"
    and more: "1 < po_refs x \<Longrightarrow> safe (seen (put_obj a (x\<lparr>po_refs := po_refs x - 1\<rparr>) S) J) (f ()) Q E"
    and last: "po_refs x \<le> 1 \<Longrightarrow>
      safe (seen (S\<lparr>objs := (objs S)(a := None), own := disown (po_owns x) (own S)\<rparr>) J) (f ()) Q E"
  shows "safe (seen S J) (py_bind (Py_DECREF_db ldb (Some a)) f) Q E"
  unfolding Py_DECREF_db_def
proof (intro run_assoc run_deref run_get_db [OF x] run_if)
  fix p assume p: "pobj_of (ObjDB p) = x"
  then have refs: "po_refs x = db_refcnt p" by auto
  show "safe (seen S J) (py_bind (PyLevelDB_dealloc ldb a) f) Q E" if "db_refcnt p \<le> 1"
    using that refs by (intro run_dealloc_db [OF x l] last) simp_all
  have "pobj_of (ObjDB (p\<lparr>db_refcnt := db_refcnt p - 1\<rparr>)) = x\<lparr>po_refs := po_refs x - 1\<rparr>"
    using p by auto
  with more refs show "safe (seen S J) (py_bind (set_db a (p\<lparr>db_refcnt := db_refcnt p - 1\<rparr>)) f) Q E" if "\<not> db_refcnt p \<le> 1"
    using that by (intro run_set_db) (simp del: pobj_of.simps)
qed

text \<open>
  A snapshot or iterator lets go of its database object: the count of dependents goes down,
  the C++ object is deleted and the reference dropped, in any order.
\<close>

lemma let_go_more:
  assumes g: "goodS R S" and t: "typed S" and x: "objs S b = Some x" "po_db x = Some a" "po_owns x = Some k"
    and z: "objs S a = Some z" "1 < po_refs z"
    and x': "x' = x\<lparr>po_db := None, po_owns := None, po_sane := s\<rparr>"
    and z': "z' = (less_deps (po_type x) z)\<lparr>po_refs := po_refs z - 1\<rparr>"
  shows "owned R (S\<lparr>objs := (objs S)(b \<mapsto> x', a \<mapsto> z'), own := (own S)(k := None)\<rparr>)"
proof -
  have o: "owned R S" using g by (simp add: goodS_def)
  let ?z1 = "less_deps (po_type x) z"
  let ?S1 = "S\<lparr>objs := (objs S)(b \<mapsto> x', a \<mapsto> ?z1), own := (own S)(k := None)\<rparr>"
  have o1: "owned (R(a := R a + 1)) ?S1" using owned_release [OF o x z(1)] x' by simp
  have z1: "objs ?S1 a = Some ?z1" by simp
  from owned_obj(3) [OF o1 z1] have "po_refs z = R a + 1 + card (holders ?S1 a)" by simp
  with owned_touch [OF o1 z1, of z' "R a"] z(2) z' show ?thesis by (simp add: shape_norm)
qed

lemma let_go_last:
  assumes g: "goodS R S" and t: "typed S" and x: "objs S b = Some x" "po_db x = Some a" "po_owns x = Some k"
    and z: "objs S a = Some z" "po_refs z \<le> 1" "po_db z = None"
    and x': "x' = x\<lparr>po_db := None, po_owns := None, po_sane := s\<rparr>"
  shows "owned R (S\<lparr>objs := (objs S)(b \<mapsto> x', a := None), own := disown (po_owns z) ((own S)(k := None))\<rparr>)"
proof -
  have o: "owned R S" using g by (simp add: goodS_def)
  let ?z1 = "less_deps (po_type x) z"
  let ?S1 = "S\<lparr>objs := (objs S)(b \<mapsto> x', a \<mapsto> ?z1), own := (own S)(k := None)\<rparr>"
  have o1: "owned (R(a := R a + 1)) ?S1" using owned_release [OF o x z(1)] x' by simp
  have z1: "objs ?S1 a = Some ?z1" by simp
  have "po_refs z = 1" using z(2) owned_obj(2) [OF o z(1)] by simp
  with owned_remove [OF o1 z1] z(3) show ?thesis by (simp add: shape_norm)
qed

text \<open>
  The state afterwards: \<open>b\<close> is detached, and the program's references are the same.
\<close>

definition let_go :: "(addr \<Rightarrow> nat) \<Rightarrow> shape \<Rightarrow> addr \<Rightarrow> pobj \<Rightarrow> shape \<Rightarrow> bool" where
  "let_go R S b x' S' \<longleftrightarrow> owned R S' \<and> objs S' b = Some x' \<and> (all_sane S \<longrightarrow> po_sane x' \<longrightarrow> all_sane S') \<and>
     (all_sane S \<longrightarrow> all_sane (S'\<lparr>objs := (objs S')(b := None)\<rparr>))"

lemma let_goI:
  assumes g: "goodS R S" and t: "typed S" and x: "objs S b = Some x" "po_db x = Some a" "po_owns x = Some k"
    and z: "objs S a = Some z" "po_db z = None" and x': "x' = x\<lparr>po_db := None, po_owns := None, po_sane := s\<rparr>"
  shows "1 < po_refs z \<Longrightarrow> let_go R S b x' (S\<lparr>objs := (objs S)
      (b \<mapsto> x', a \<mapsto> (less_deps (po_type x) z)\<lparr>po_refs := po_refs z - 1\<rparr>), own := (own S)(k := None)\<rparr>)"
    and "po_refs z \<le> 1 \<Longrightarrow> let_go R S b x' (S\<lparr>objs := (objs S)(b \<mapsto> x', a := None),
      own := disown (po_owns z) ((own S)(k := None))\<rparr>)"
proof -
  have ne: "a \<noteq> b" using x(1,2) z by auto
  show "1 < po_refs z \<Longrightarrow> let_go R S b x' (S\<lparr>objs := (objs S)
      (b \<mapsto> x', a \<mapsto> (less_deps (po_type x) z)\<lparr>po_refs := po_refs z - 1\<rparr>), own := (own S)(k := None)\<rparr>)"
    using let_go_more [OF g t x z(1) _ x' refl] ne z(1) by (auto simp: let_go_def all_sane_def)
  show "po_refs z \<le> 1 \<Longrightarrow> let_go R S b x' (S\<lparr>objs := (objs S)(b \<mapsto> x', a := None),
      own := disown (po_owns z) ((own S)(k := None))\<rparr>)"
    using let_go_last [OF g t x z(1) _ z(2) x'] ne by (auto simp: let_go_def all_sane_def)
qed

text \<open>A database that the program holds stays open.\<close>

lemma let_go_opened:
  assumes g: "goodS R S" and x: "objs S b = Some x" "po_db x = Some a" "po_owns x = Some k"
    and z: "objs S a = Some z" and c: "opened S c" "0 < R c"
  shows "po_type z' = po_type z \<Longrightarrow> po_owns z' = po_owns z \<Longrightarrow>
      opened (S\<lparr>objs := (objs S)(b \<mapsto> x', a \<mapsto> z'), own := (own S)(k := None)\<rparr>) c"
    and "po_refs z \<le> 1 \<Longrightarrow>
      opened (S\<lparr>objs := (objs S)(b \<mapsto> x', a := None), own := disown (po_owns z) ((own S)(k := None))\<rparr>) c"
proof -
  have o: "owned R S" using g by (simp add: goodS_def)
  obtain y h where y: "objs S c = Some y" "po_type y = T_LevelDB" "po_owns y = Some (CDB h)" "own S (CDB h) \<noteq> None"
    using c(1) by (auto simp: opened_def)
  have k: "\<not> is_CDB k" using owned_link [OF o x(1,2)] x(3) by (metis option.inject)
  have kh: "k \<noteq> CDB h" "CDB h \<noteq> k" using k by auto
  have bc: "b \<noteq> c" "c \<noteq> b" using x(1,3) y(1,3) kh by auto
  show "po_type z' = po_type z \<Longrightarrow> po_owns z' = po_owns z \<Longrightarrow>
      opened (S\<lparr>objs := (objs S)(b \<mapsto> x', a \<mapsto> z'), own := (own S)(k := None)\<rparr>) c"
    using y kh bc z by (cases "a = c") (auto simp: opened_def)
  assume "po_refs z \<le> 1"
  moreover have "b \<in> holders S a" using holder_iff [OF x(1)] x(2) by simp
  then have "0 < card (holders S a)" using owned_holders_finite [OF o] by (auto simp: card_gt_0_iff)
  ultimately have ac: "a \<noteq> c" using owned_obj(3) [OF o z] c(2) by auto
  then have "po_owns z \<noteq> Some (CDB h)" using owned_owns(3) [OF o y(1,3), of a] z by (auto simp: owns_def)
  then have "disown (po_owns z) ((own S)(k := None)) (CDB h) = own S (CDB h)" using kh by (cases "po_owns z") auto
  with y bc ac show "opened (S\<lparr>objs := (objs S)(b \<mapsto> x', a := None), own := disown (po_owns z) ((own S)(k := None))\<rparr>) c"
    by (auto simp: opened_def)
qed

section \<open>Iterators\<close>

definition detached :: "pobj \<Rightarrow> pobj" where
  "detached x = x\<lparr>po_db := None, po_owns := None, po_sane := True\<rparr>"

lemma iter_view:
  assumes g: "goodS R S" and i: "objs S i = Some x" "pobj_of (ObjIter p) = x"
  shows "it_db p = it_ref p" "it_ref p = None \<longleftrightarrow> it_iterator p = None"
    "po_db x = it_ref p" "po_owns x = map_option CIter (it_iterator p)"
  using goodS_sane [OF g i(1)] i(2) by auto

lemma run_iter_clean:
  assumes g: "goodS R S" and t: "typed S" and x: "objs S i = Some x" "po_type x = T_Iter"
    and f: "\<And>S'. let_go R S i (detached x) S' \<Longrightarrow> safe (view S') (f ()) Q E"
  shows "safe (view S) (py_bind (PyLevelDBIter_clean ldb i) f) Q E"
  unfolding PyLevelDBIter_clean_def
proof (intro run_assoc run_get_iter [OF x])
  fix p assume p: "pobj_of (ObjIter p) = x"
  note v = iter_view [OF g x(1) p]
  let ?p = "p\<lparr>it_ref := None, it_db := None, it_iterator := None, it_bound := None, it_include_value := False\<rparr>"
  have px: "pobj_of (ObjIter ?p) = detached x" using p by (auto simp: detached_def)
  show "safe (view S) (py_bind (case it_db p of None \<Rightarrow> py_ret ()
       | Some db \<Rightarrow> py_bind (get_db db) (\<lambda>p. set_db db (p\<lparr>n_iterators := n_iterators p - 1\<rparr>)))
     (\<lambda>y. py_bind (py_bind (delete_it (it_iterator p)) (\<lambda>_. py_bind (Py_XDECREF_db ldb (it_ref p)) (\<lambda>_. set_iter i ?p))) f)) Q E"
  proof (cases "it_ref p")
    case None
    then have "detached x = x" using p v by (auto simp: detached_def)
    then have "put_obj i (detached x) S = S" "let_go R S i (detached x) S"
      using g x(1) by (auto simp: put_obj_def let_go_def goodS_def all_sane_def fun_upd_idem)
    then show ?thesis
      using None v(1,2) px f [of S]
      by (simp add: Py_XDECREF_db_def del: pobj_of.simps) (intro step_rules, simp del: pobj_of.simps)
  next
    case (Some a)
    then obtain ih where ih: "it_iterator p = Some ih" using v(2) by auto
    have xa: "po_db x = Some a" "po_owns x = Some (CIter ih)" using v(3,4) Some ih by simp_all
    obtain z h where z: "objs S a = Some z" "po_type z = T_LevelDB" "po_owns z = Some (CDB h)" "po_db z = None"
      "own S (CIter ih) = Some h" "own S (CDB h) \<noteq> None" "a \<noteq> i"
      using attached [OF g t x(1) xa(1)] xa(2) by (metis option.inject)
    let ?z = "less_deps T_Iter z"
    let ?S = "put_obj a ?z S\<lparr>own := (own S)(CIter ih := None)\<rparr>"
    have c: "own (put_obj a ?z S) (CIter ih) = Some h" "own (put_obj a ?z S) (CDB h) \<noteq> None"
      using z(5,6) by (simp_all add: put_obj_def)
    have zS: "objs ?S a = Some ?z" "po_type ?z = T_LevelDB" using z(2) by (simp_all add: put_obj_def)
    have more: "let_go R S i (detached x) (put_obj i (detached x) (put_obj a (?z\<lparr>po_refs := po_refs ?z - 1\<rparr>) ?S))"
      if "1 < po_refs ?z"
      using let_goI(1) [OF g t x(1) xa z(1,4) detached_def] that z(7) x(2)
      by (simp add: put_obj_def shape_norm fun_upd_twist)
    have last: "let_go R S i (detached x) (put_obj i (detached x) (?S\<lparr>objs := (objs ?S)(a := None),
      own := disown (po_owns ?z) (own ?S)\<rparr>))" if "po_refs ?z \<le> 1"
      using let_goI(2) [OF g t x(1) xa z(1,4) detached_def] that z(7) x(2)
      by (simp add: put_obj_def shape_norm fun_upd_twist)
    have decref: "safe (view ?S) (py_bind (Py_DECREF_db ldb (Some a)) (\<lambda>_. py_bind (set_iter i ?p) f)) Q E"
    proof (rule run_DECREF_db [OF zS])
      show "own ?S k \<noteq> None" if "po_owns ?z = Some k" for k using that z(3,6) by auto
    qed (rule run_set_iter, unfold px, rule f, erule more last)+
    have swap: "put_obj a ?z S\<lparr>own := (own (put_obj a ?z S))(CIter ih := None)\<rparr> = ?S" by (simp add: put_obj_def)
    have delete: "safe (view (put_obj a ?z S)) (py_bind (delete_it (Some ih))
      (\<lambda>_. py_bind (Py_DECREF_db ldb (Some a)) (\<lambda>_. py_bind (set_iter i ?p) f))) Q E"
      by (rule run_delete_it [OF c]) (unfold swap, rule decref)
    have pre: "safe (view S) (py_bind (set_db a (q\<lparr>n_iterators := n_iterators q - 1\<rparr>)) g) Q E"
      if "pobj_of (ObjDB q) = z" "safe (view (put_obj a ?z S)) (g ()) Q E" for q g
    proof -
      have "pobj_of (ObjDB (q\<lparr>n_iterators := n_iterators q - 1\<rparr>)) = ?z"
        unfolding count_dependent that(1) by (rule refl)
      with that(2) show ?thesis by (intro run_set_db) (simp del: pobj_of.simps)
    qed
    show ?thesis
      unfolding Some ih v(1) option.case Py_XDECREF_db_def
      by (rule run_assoc, rule run_get_db [OF z(1,2)], erule pre) (simp add: py_bind_assoc delete)
  qed
qed

lemma let_go_good: "let_go R S b x' S' \<Longrightarrow> all_sane S \<Longrightarrow> po_sane x' \<Longrightarrow> goodS R S'"
  by (simp add: let_go_def goodS_def)

text \<open>\<open>good R\<close> after a call\<close>

abbreviation keeps_good :: "(addr \<Rightarrow> nat) \<Rightarrow> shape \<Rightarrow> (('d, 'it, 'sn, 'fs) world, 'a) py \<Rightarrow> bool" where
  "keeps_good R S m \<equiv> safe (view S) m (\<lambda>_. good R) (good R)"

lemma IterNext_good:
  assumes g: "goodS R S" and x: "objs S i = Some x" "po_type x = T_Iter"
  shows "keeps_good R S (PyLevelDBIter_next py ldb i)"
proof (rule safe_typed)
  assume t: "typed S"
  have E: "seen S J w \<Longrightarrow> good R w" for J w using good_goodS g by blast
  have clean: "safe (seen S J) (py_bind (PyLevelDBIter_clean ldb i) (\<lambda>_. py_ret None)) (\<lambda>_. good R) (good R)" for J
  proof (rule safe_weaken, rule run_iter_clean [OF g t x], rule safe_ret)
    fix S' w
    assume l: "let_go R S i (detached x) S'" and w: "view S' w"
    have "goodS R S'" using let_go_good [OF l] g by (simp add: goodS_def detached_def)
    then show "good R w" by (rule good_goodS [OF w])
  qed
  show "keeps_good R S (PyLevelDBIter_next py ldb i)"
    unfolding PyLevelDBIter_next_def
  proof (rule run_get_iter [OF x], goal_cases)
    case (1 p)
    note v = iter_view [OF g x(1) 1]
    show ?case
    proof (cases "it_ref p")
      case None
      then show ?thesis by (simp add: run_ret clean)
    next
      case (Some a)
      then obtain ih where ih: "it_iterator p = Some ih" using v(2) by auto
      have xa: "po_db x = Some a" "po_owns x = Some (CIter ih)" using v(3,4) Some ih by simp_all
      obtain z h where z: "objs S a = Some z" "po_type z = T_LevelDB" "po_owns z = Some (CDB h)" "po_sane z"
        "own S (CIter ih) = Some h" "own S (CDB h) \<noteq> None"
        using attached [OF g t x(1) xa(1)] xa(2) by (metis option.inject)
      let ?J = "\<lambda>y i. i ih = Some (h, y)"
      have past: "safe (seen S (?J y)) (py_bind (iter_past_bound py ldb p ih) f) (\<lambda>_. good R) (good R)"
        if "It_Valid ldb y" "\<And>b. safe (seen S (?J y)) (f b) (\<lambda>_. good R) (good R)" for y f
      proof -
        have opts: "db_options q \<noteq> None" if "pobj_of (ObjDB q) = z" for q using that z(3,4) by auto
        show ?thesis
        proof (cases "it_bound p")
          case None
          then show ?thesis using that(2) by (simp add: iter_past_bound_def run_ret)
        next
          case (Some b)
          show ?thesis unfolding iter_past_bound_def Some option.case v(1) \<open>it_ref p = Some a\<close>
          proof (intro run_assoc run_read_valid_it [OF z(5,6)] run_deref run_get_db [OF z(1,2)])
            show "?J y i \<Longrightarrow> \<exists>x. i ih = Some (h, x) \<and> It_Valid ldb x" for i using that(1) by blast
            fix q r assume "pobj_of (ObjDB q) = z"
            then obtain opts where "db_options q = Some opts" using opts by blast
            then show "safe (seen S (?J y)) (py_bind (deref (db_options q)) (\<lambda>x. py_bind
              (py_bind (Compare py ldb (o_comparator x) b r) (\<lambda>c. py_ret (\<not> it_is_reverse p \<and> \<not> 0 \<le> c \<or> it_is_reverse p \<and> \<not> 0 \<ge> c))) f))
              (\<lambda>_. good R) (good R)"
              using that(2) by (simp only:) (intro step_rules)
          qed
        qed
      qed
      have step: "safe (seen S (?J y)) (py_bind (read_valid_it ldb ih k) f) (\<lambda>_. good R) (good R)"
        if "It_Valid ldb y" "\<And>r. safe (seen S (?J y)) (f r) (\<lambda>_. good R) (good R)" for y f and k :: "'b \<Rightarrow> bytes"
        using that by (intro run_read_valid_it [OF z(5,6)]) blast+
      have move: "safe (seen S (?J y)) (py_bind (move_valid_it ldb ih k) (\<lambda>_. py_ret r)) (\<lambda>_. good R) (good R)"
        if "It_Valid ldb y" for y k r
        using that E by (intro run_move_valid_it [OF z(5,6)] safe_ret) blast+
      show ?thesis
        unfolding Some ih
      proof (simp only: option.simps(3) if_False, rule run_assoc, rule run_deref, rule run_assoc, rule run_read_it [OF z(5,6)], rule run_ret, goal_cases)
        case (1 y)
        show ?case
        proof (cases "It_Valid ldb y")
          case True
          then show ?thesis
            by (simp only: not_not if_False simp_thms, intro run_deref past safe_if clean step run_alloc run_if run_assoc run_raise run_ret
                safe_raise move) (auto intro: E)
        next
          case False
          then show ?thesis by (simp add: clean)
        qed
      qed
    qed
  qed
qed

section \<open>Dropping and taking references\<close>

lemma goodS_remove:
  assumes o: "owned R S" and x: "objs S a = Some x" "po_db x = None" "po_refs x = 1" and r: "0 < R a"
    and sane: "all_sane (S\<lparr>objs := (objs S)(a := None)\<rparr>)"
  shows "goodS (R(a := R a - 1)) (S\<lparr>objs := (objs S)(a := None), own := disown (po_owns x) (own S)\<rparr>)"
  using owned_remove [OF o x r] sane by (simp add: goodS_def all_sane_def)

lemma goodS_touch:
  assumes g: "goodS R S" and x: "objs S a = Some x" and y: "y = x\<lparr>po_refs := r + card (holders S a)\<rparr>" "r + card (holders S a) \<noteq> 0"
  shows "goodS (R(a := r)) (put_obj a y S)"
  using owned_touch [of R S a x y r] g x y goodS_sane [OF g x]
  by (auto simp: goodS_def put_obj_def all_sane_def)

lemma goodS_incr: "goodS R S \<Longrightarrow> objs S a = Some x \<Longrightarrow> goodS (R(a := R a + 1)) (put_obj a (x\<lparr>po_refs := po_refs x + 1\<rparr>) S)"
  using goodS_touch [of R S a x _ "R a + 1"] owned_obj(3) [of R S a x] by (simp add: goodS_def)

lemma goodS_decr: "goodS R S \<Longrightarrow> objs S a = Some x \<Longrightarrow> 1 < po_refs x \<Longrightarrow> 0 < R a \<Longrightarrow>
  goodS (R(a := R a - 1)) (put_obj a (x\<lparr>po_refs := po_refs x - 1\<rparr>) S)"
  using goodS_touch [of R S a x _ "R a - 1"] owned_obj(3) [of R S a x] by (simp add: goodS_def)

lemma all_sane_del: "all_sane S \<Longrightarrow> all_sane (S\<lparr>objs := (objs S)(a := None)\<rparr>)"
  by (simp add: all_sane_def)

lemma run_iter_dealloc:
  assumes g: "goodS R S" and t: "typed S" and x: "objs S i = Some x" "po_type x = T_Iter" "po_refs x = 1" and r: "0 < R i"
    and f: "\<And>S'. goodS (R(i := R i - 1)) S' \<Longrightarrow> safe (view S') (f ()) Q E"
  shows "safe (view S) (py_bind (PyLevelDBIter_dealloc ldb i) f) Q E"
  unfolding PyLevelDBIter_dealloc_def
proof (intro run_assoc run_iter_clean [OF g t x(1,2)] run_free_object f)
  fix S' assume l: "let_go R S i (detached x) S'"
  then have S': "owned R S'" "objs S' i = Some (detached x)" "all_sane (S'\<lparr>objs := (objs S')(i := None)\<rparr>)"
    using g by (simp_all add: let_go_def goodS_def)
  from goodS_remove [OF S'(1,2) _ _ r S'(3)] x(3)
  show "goodS (R(i := R i - 1)) (S'\<lparr>objs := (objs S')(i := None)\<rparr>)" by (simp add: detached_def)
qed

text \<open>Releasing a snapshot of an open database\<close>

lemma seen_snapshot: "seen S J w \<Longrightarrow> own S (CSnapshot s) = Some h \<Longrightarrow> \<exists>v. sns w s = Some (h, v)"
  by (auto simp: seen_def shape_of_def)

lemma run_release_snapshot:
  assumes z: "objs S a = Some z" "po_type z = T_LevelDB" "po_owns z = Some (CDB h)" and k: "own S (CSnapshot s) = Some h" "own S (CDB h) \<noteq> None"
    and f: "safe (seen (S\<lparr>own := (own S)(CSnapshot s := None)\<rparr>) J) (f ()) Q E"
  shows "safe (seen S J) (py_bind (release_snapshot ldb a s) f) Q E"
proof -
  let ?S = "S\<lparr>own := (own S)(CSnapshot s := None)\<rparr>"
  have "\<exists>r w'. release_snapshot ldb a s w = (Ret r, w') \<and> seen ?S J w'" if w: "seen S J w" for w
  proof -
    obtain ob where ob: "heap w a = Some ob" "pobj_of ob = z" using seen_obj [OF w z(1)] .
    then obtain p where p: "ob = ObjDB p" "db_db p = Some h" using z(2,3) by (cases ob) auto
    obtain v where v: "sns w s = Some (h, v)" using seen_snapshot [OF w k(1)] by blast
    obtain d where d: "dbs w h = Some d" using seen_db [OF w k(2)] by blast
    let ?w = "w\<lparr>dbs := (dbs w)(h \<mapsto> DB_ReleaseSnapshot ldb v d), sns := (sns w)(s := None)\<rparr>"
    have "release_snapshot ldb a s w = (Ret (), ?w)"
      using ob(1) p v d by (simp add: release_snapshot_def py_bind_def get_db_def deref_def py_ret_def py_get_def
          call_db_def py_modify_def)
    moreover have "shape_of ?w = (shape_of w)\<lparr>own := (own (shape_of w))(CSnapshot s := None)\<rparr>"
      using shape_db_same [OF d, of "DB_ReleaseSnapshot ldb v d"]
        shape_handles(4) [of "w\<lparr>dbs := (dbs w)(h \<mapsto> DB_ReleaseSnapshot ldb v d)\<rparr>" s] by simp
    ultimately show ?thesis using w by (auto simp: seen_def)
  qed
  then show ?thesis by (rule safe_run_unit) (assumption | rule f)+
qed

text \<open>
  A snapshot object lets go of its database object. Its constructor, called again, and its destructor do so
  in different orders.
\<close>

definition dropped :: "pobj \<Rightarrow> pobj" where
  "dropped x = x\<lparr>po_db := None, po_owns := None, po_sane := False\<rparr>"

lemma dropped_simps [simp]:
  "po_type (dropped x) = po_type x" "po_refs (dropped x) = po_refs x" "po_deps (dropped x) = po_deps x"
  "po_db (dropped x) = None" "po_owns (dropped x) = None" "po_sane (dropped x) = False"
  by (simp_all add: dropped_def)

lemma snapshot_attached:
  assumes g: "goodS R S" and t: "typed S" and x: "objs S b = Some x" "pobj_of (ObjSnapshot p) = x"
  obtains a s z h where "sn_db p = Some a" "sn_snapshot p = Some s" "po_db x = Some a" "po_owns x = Some (CSnapshot s)"
    "objs S a = Some z" "po_type z = T_LevelDB" "po_owns z = Some (CDB h)" "po_db z = None"
    "own S (CSnapshot s) = Some h" "own S (CDB h) \<noteq> None" "a \<noteq> b"
proof -
  have "sn_db p \<noteq> None" "sn_snapshot p \<noteq> None" using goodS_sane [OF g x(1)] x(2) by auto
  then obtain a s where p: "sn_db p = Some a" "sn_snapshot p = Some s" by auto
  then have xa: "po_db x = Some a" "po_owns x = Some (CSnapshot s)" using x(2) by auto
  show thesis
    using attached [OF g t x(1) xa(1)] xa(2) that [OF p xa] by (metis option.inject)
qed

lemma run_drop_snapshot:
  assumes g: "goodS R S" and t: "typed S" and x: "objs S b = Some x" "pobj_of (ObjSnapshot p) = x"
    and xa: "po_db x = Some a" "po_owns x = Some k"
    and z: "objs S a = Some z" "po_type z = T_LevelDB" "po_owns z = Some (CDB h)" "po_db z = None"
      "own S (CDB h) \<noteq> None" "a \<noteq> b"
    and f: "\<And>S'. let_go R S b (dropped x) S' \<Longrightarrow> (\<And>c. opened S c \<Longrightarrow> 0 < R c \<Longrightarrow> opened S' c) \<Longrightarrow> safe (view S') (f ()) Q E"
    and S1: "S1 = put_obj a (less_deps T_Snapshot z) (S\<lparr>own := (own S)(k := None)\<rparr>)"
  shows "safe (view S1) (py_bind (Py_DECREF_db ldb (Some a)) (\<lambda>_. py_bind (set_snapshot b (p\<lparr>sn_db := None, sn_snapshot := None\<rparr>)) f)) Q E"
proof -
  let ?z = "less_deps T_Snapshot z"
  have T: "po_type x = T_Snapshot" using x(2) by auto
  have px: "pobj_of (ObjSnapshot (p\<lparr>sn_db := None, sn_snapshot := None\<rparr>)) = dropped x" using x(2) by (auto simp: dropped_def)
  have zS: "objs S1 a = Some ?z" "po_type ?z = T_LevelDB" using z(2) by (simp_all add: S1 put_obj_def)
  have k: "k \<noteq> CDB h" using owned_link [of R S b x a] g x(1) xa by (force simp: goodS_def)
  have more: "let_go R S b (dropped x) (put_obj b (dropped x) (put_obj a (?z\<lparr>po_refs := po_refs ?z - 1\<rparr>) S1))"
    "opened S c \<Longrightarrow> 0 < R c \<Longrightarrow> opened (put_obj b (dropped x) (put_obj a (?z\<lparr>po_refs := po_refs ?z - 1\<rparr>) S1)) c"
    if "1 < po_refs ?z" for c
    using let_goI(1) [OF g t x(1) xa z(1,4) dropped_def] that z(6) T
      let_go_opened(1) [OF g x(1) xa z(1), where z' = "(less_deps T_Snapshot z)\<lparr>po_refs := po_refs z - 1\<rparr>" and x' = "dropped x" and c = c]
    by (simp_all add: S1 put_obj_def shape_norm fun_upd_twist)
  have last: "let_go R S b (dropped x) (put_obj b (dropped x) (S1\<lparr>objs := (objs S1)(a := None), own := disown (po_owns ?z) (own S1)\<rparr>))"
    "opened S c \<Longrightarrow> 0 < R c \<Longrightarrow>
      opened (put_obj b (dropped x) (S1\<lparr>objs := (objs S1)(a := None), own := disown (po_owns ?z) (own S1)\<rparr>)) c"
    if "po_refs ?z \<le> 1" for c
    using let_goI(2) [OF g t x(1) xa z(1,4) dropped_def] that z(6) T
      let_go_opened(2) [OF g x(1) xa z(1), where x' = "dropped x" and c = c]
    by (simp_all add: S1 put_obj_def shape_norm fun_upd_twist)
  show ?thesis
  proof (rule run_DECREF_db [OF zS])
    show "own S1 k' \<noteq> None" if "po_owns ?z = Some k'" for k' using that z(3,5) k by (auto simp: S1 put_obj_def)
  qed (rule run_set_snapshot, unfold px, rule f, erule more(1) last(1), erule (2) more(2) last(2))+
qed

lemma run_snapshot_dealloc:
  assumes g: "goodS R S" and t: "typed S" and x: "objs S b = Some x" "po_type x = T_Snapshot" "po_refs x = 1" and r: "0 < R b"
    and f: "\<And>S'. goodS (R(b := R b - 1)) S' \<Longrightarrow> safe (view S') (f ()) Q E"
  shows "safe (view S) (py_bind (PyLevelDBSnapshot_dealloc ldb b) f) Q E"
  unfolding PyLevelDBSnapshot_dealloc_def
proof (rule run_assoc, rule run_get_snapshot [OF x(1,2)], goal_cases)
  case (1 p)
  obtain a s z h where as: "sn_db p = Some a" "sn_snapshot p = Some s" and xa: "po_db x = Some a" "po_owns x = Some (CSnapshot s)"
    and z: "objs S a = Some z" "po_type z = T_LevelDB" "po_owns z = Some (CDB h)" "po_db z = None"
      "own S (CSnapshot s) = Some h" "own S (CDB h) \<noteq> None" "a \<noteq> b"
    by (rule snapshot_attached [OF g t x(1) 1])
  let ?S1 = "S\<lparr>own := (own S)(CSnapshot s := None)\<rparr>" and ?z = "less_deps T_Snapshot z"
  have z1: "objs ?S1 a = Some z" using z(1) by simp
  have pre: "safe (view ?S1) (py_bind (set_db a (q\<lparr>n_snapshots := n_snapshots q - 1\<rparr>)) k) Q E"
    if "pobj_of (ObjDB q) = z" "safe (view (put_obj a ?z ?S1)) (k ()) Q E" for q k
  proof -
    have "pobj_of (ObjDB (q\<lparr>n_snapshots := n_snapshots q - 1\<rparr>)) = ?z"
      unfolding count_dependent that(1) by (rule refl)
    with that(2) show ?thesis by (intro run_set_db) (simp del: pobj_of.simps)
  qed
  have rest: "safe (view (put_obj a ?z ?S1)) (py_bind (Py_DECREF_db ldb (Some a)) (\<lambda>_. py_bind
     (set_snapshot b (p\<lparr>sn_db := None, sn_snapshot := None\<rparr>)) (\<lambda>_. py_bind (free_object b) f))) Q E"
  proof (rule run_drop_snapshot [OF g t x(1) 1 xa z(1-4,6,7) _ refl], rule run_free_object, rule f)
    fix S' assume l: "let_go R S b (dropped x) S'"
    then have S': "owned R S'" "objs S' b = Some (dropped x)" "all_sane (S'\<lparr>objs := (objs S')(b := None)\<rparr>)"
      using g by (simp_all add: let_go_def goodS_def)
    from goodS_remove [OF S'(1,2) _ _ r S'(3)] x(3)
    show "goodS (R(b := R b - 1)) (S'\<lparr>objs := (objs S')(b := None)\<rparr>)" by simp
  qed
  show ?case
    unfolding as prod.case option.case
    by (rule run_assoc, rule run_release_snapshot [OF z(1-3,5,6)], rule run_assoc, rule run_assoc,
        rule run_get_db [OF z1 z(2)], erule pre) (simp add: py_bind_assoc rest)
qed

lemma run_batch_dealloc:
  assumes g: "goodS R S" and t: "typed S" and x: "objs S b = Some x" "po_type x = T_WriteBatch" "po_refs x = 1" and r: "0 < R b"
    and f: "\<And>S'. goodS (R(b := R b - 1)) S' \<Longrightarrow> safe (view S') (f ()) Q E"
  shows "safe (view S) (py_bind (PyWriteBatch_dealloc b) f) Q E"
  unfolding PyWriteBatch_dealloc_def
proof (intro run_assoc run_get_batch [OF x(1,2)] run_free_object f)
  fix p assume p: "pobj_of (ObjBatch p) = x"
  have "owned R S" "all_sane (S\<lparr>objs := (objs S)(b := None)\<rparr>)" using g by (simp_all add: goodS_def all_sane_del)
  from goodS_remove [OF this(1) x(1) _ x(3) r this(2)] p
  show "goodS (R(b := R b - 1)) (S\<lparr>objs := (objs S)(b := None)\<rparr>)" by auto
qed

lemma run_typed: "(typed S \<Longrightarrow> safe (seen S J) m Q E) \<Longrightarrow> safe (seen S J) m Q E"
  by (rule safe_typed)

text \<open>The object at an address, by its type\<close>

lemma run_get_heap:
  assumes x: "objs S a = Some x" and f: "\<And>ob. pobj_of ob = x \<Longrightarrow> safe (seen S J) (f (Some ob)) Q E"
  shows "safe (seen S J) (py_bind (py_get (\<lambda>w. heap w a)) f) Q E"
proof -
  have "\<exists>ob w'. py_get (\<lambda>w. heap w a) w = (Ret ob, w') \<and> seen S J w' \<and> (\<exists>o'. ob = Some o' \<and> pobj_of o' = x)"
    if s: "seen S J w" for w
    using seen_obj [OF s x] s by (auto simp: py_get_def)
  then show ?thesis by (rule safe_run) (assumption | rule safe_fact | use f in blast)+
qed

lemma run_DECREF:
  assumes g: "goodS R S" and x: "objs S a = Some x" and r: "0 < R a"
    and f: "\<And>S'. goodS (R(a := R a - 1)) S' \<Longrightarrow> safe (view S') (f ()) Q E"
  shows "safe (view S) (py_bind (Py_DECREF ldb a) f) Q E"
proof (rule safe_typed)
  assume t: "typed S"
  have o: "owned R S" using g by (simp add: goodS_def)
  have refs: "po_refs x \<le> 1 \<longleftrightarrow> po_refs x = 1" using owned_obj(2) [OF o x] by linarith
  have decr: "goodS (R(a := R a - 1)) (put_obj a (x\<lparr>po_refs := po_refs x - 1\<rparr>) S)" if "1 < po_refs x"
    by (rule goodS_decr [OF g x that r])
  show "safe (view S) (py_bind (Py_DECREF ldb a) f) Q E"
    unfolding Py_DECREF_def
  proof (rule run_assoc, rule run_get_heap [OF x], goal_cases)
    case (1 ob)
    note ob = this
    show ?case
    proof (cases ob)
      case (ObjDB p)
      have T: "po_type x = T_LevelDB" "po_db x = None" using ob ObjDB by auto
      show ?thesis unfolding ObjDB option.case pyobject.case
      proof (rule run_DECREF_db [OF x T(1)])
        show "own S k \<noteq> None" if "po_owns x = Some k" for k by (rule owned_owns(1) [OF o x that])
        show "safe (view (put_obj a (x\<lparr>po_refs := po_refs x - 1\<rparr>) S)) (f ()) Q E" if "1 < po_refs x"
          by (rule f [OF decr [OF that]])
        show "safe (view (S\<lparr>objs := (objs S)(a := None), own := disown (po_owns x) (own S)\<rparr>)) (f ()) Q E" if "po_refs x \<le> 1"
          using that refs g by (intro f goodS_remove [OF o x T(2) _ r] all_sane_del) (simp_all add: goodS_def)
      qed
    next
      case (ObjSnapshot p)
      have T: "po_type x = T_Snapshot" "sn_refcnt p = po_refs x" using ob ObjSnapshot by auto
      have y: "pobj_of (ObjSnapshot (p\<lparr>sn_refcnt := sn_refcnt p - 1\<rparr>)) = x\<lparr>po_refs := po_refs x - 1\<rparr>"
        using ob ObjSnapshot by auto
      show ?thesis unfolding ObjSnapshot option.case pyobject.case T(2) refs
      proof (rule run_if)
        show "safe (view S) (py_bind (PyLevelDBSnapshot_dealloc ldb a) f) Q E" if "po_refs x = 1"
          by (rule run_snapshot_dealloc [OF g t x T(1) that r]) (rule f)
        show "safe (view S) (py_bind (set_snapshot a (p\<lparr>sn_refcnt := po_refs x - 1\<rparr>)) f) Q E" if "po_refs x \<noteq> 1"
          using that refs f [OF decr] y T(2) by (intro run_set_snapshot) (simp del: pobj_of.simps)
      qed
    next
      case (ObjIter p)
      have T: "po_type x = T_Iter" "it_refcnt p = po_refs x" using ob ObjIter by auto
      have y: "pobj_of (ObjIter (p\<lparr>it_refcnt := it_refcnt p - 1\<rparr>)) = x\<lparr>po_refs := po_refs x - 1\<rparr>"
        using ob ObjIter by auto
      show ?thesis unfolding ObjIter option.case pyobject.case T(2) refs
      proof (rule run_if)
        show "safe (view S) (py_bind (PyLevelDBIter_dealloc ldb a) f) Q E" if "po_refs x = 1"
          by (rule run_iter_dealloc [OF g t x T(1) that r]) (rule f)
        show "safe (view S) (py_bind (set_iter a (p\<lparr>it_refcnt := po_refs x - 1\<rparr>)) f) Q E" if "po_refs x \<noteq> 1"
          using that refs f [OF decr] y T(2) by (intro run_set_iter) (simp del: pobj_of.simps)
      qed
    next
      case (ObjBatch p)
      have T: "po_type x = T_WriteBatch" "wb_refcnt p = po_refs x" using ob ObjBatch by auto
      have y: "pobj_of (ObjBatch (p\<lparr>wb_refcnt := wb_refcnt p - 1\<rparr>)) = x\<lparr>po_refs := po_refs x - 1\<rparr>"
        using ob ObjBatch by auto
      show ?thesis unfolding ObjBatch option.case pyobject.case T(2) refs
      proof (rule run_if)
        show "safe (view S) (py_bind (PyWriteBatch_dealloc a) f) Q E" if "po_refs x = 1"
          by (rule run_batch_dealloc [OF g t x T(1) that r]) (rule f)
        show "safe (view S) (py_bind (set_batch a (p\<lparr>wb_refcnt := po_refs x - 1\<rparr>)) f) Q E" if "po_refs x \<noteq> 1"
          using that refs f [OF decr] y T(2) by (intro run_set_batch) (simp del: pobj_of.simps)
      qed
    qed
  qed
qed

lemma run_INCREF_db:
  assumes x: "objs S a = Some x" "po_type x = T_LevelDB" and f: "safe (seen (put_obj a (x\<lparr>po_refs := po_refs x + 1\<rparr>) S) J) (f ()) Q E"
  shows "safe (seen S J) (py_bind (Py_INCREF_db a) f) Q E"
  unfolding Py_INCREF_db_def
proof (rule run_assoc, rule run_get_db [OF x], rule run_set_db)
  fix p assume "pobj_of (ObjDB p) = x"
  then have "pobj_of (ObjDB (p\<lparr>db_refcnt := db_refcnt p + 1\<rparr>)) = x\<lparr>po_refs := po_refs x + 1\<rparr>" by auto
  with f show "safe (seen (put_obj a (pobj_of (ObjDB (p\<lparr>db_refcnt := db_refcnt p + 1\<rparr>))) S) J) (f ()) Q E"
    by (simp only:)
qed

lemma run_INCREF:
  assumes g: "goodS R S" and x: "objs S a = Some x"
    and f: "\<And>S'. goodS (R(a := R a + 1)) S' \<Longrightarrow> safe (view S') (f ()) Q E"
  shows "safe (view S) (py_bind (Py_INCREF a) f) Q E"
  unfolding Py_INCREF_def
proof (rule run_assoc, rule run_get_heap [OF x], goal_cases)
  case (1 ob)
  note f' = f [OF goodS_incr [OF g x]]
  show ?case
  proof (cases ob)
    case (ObjDB p)
    then have "po_type x = T_LevelDB" using 1 by auto
    then show ?thesis unfolding ObjDB option.case pyobject.case by (rule run_INCREF_db [OF x]) (assumption | rule f')+
  next
    case (ObjSnapshot p)
    then have "pobj_of (ObjSnapshot (p\<lparr>sn_refcnt := sn_refcnt p + 1\<rparr>)) = x\<lparr>po_refs := po_refs x + 1\<rparr>" using 1 by auto
    with f' ObjSnapshot show ?thesis by (simp del: pobj_of.simps) (rule run_set_snapshot, simp del: pobj_of.simps)
  next
    case (ObjIter p)
    then have "pobj_of (ObjIter (p\<lparr>it_refcnt := it_refcnt p + 1\<rparr>)) = x\<lparr>po_refs := po_refs x + 1\<rparr>" using 1 by auto
    with f' ObjIter show ?thesis by (simp del: pobj_of.simps) (rule run_set_iter, simp del: pobj_of.simps)
  next
    case (ObjBatch p)
    then have "pobj_of (ObjBatch (p\<lparr>wb_refcnt := wb_refcnt p + 1\<rparr>)) = x\<lparr>po_refs := po_refs x + 1\<rparr>" using 1 by auto
    with f' ObjBatch show ?thesis by (simp del: pobj_of.simps) (rule run_set_batch, simp del: pobj_of.simps)
  qed
qed

end
