(* ===== verification/LifecycleSpec.thy ===== *)
theory LifecycleSpec
  imports LifecycleObjects
begin

text \<open>
  The calls that read through or create objects; then what holds of every permitted call and
  of every state a program can reach.
\<close>

section \<open>Reading\<close>

lemma run_read_snapshot:
  assumes "sn = None \<or> (\<exists>s. sn = Some s \<and> own S (CSnapshot s) = Some h)" and f: "\<And>v. safe (seen S J) (f v) Q E"
  shows "safe (seen S J) (py_bind (read_snapshot (Some h) sn) f) Q E"
proof -
  have "\<exists>v w'. read_snapshot (Some h) sn w = (Ret v, w') \<and> seen S J w'" if s: "seen S J w" for w
  proof (cases sn)
    case None
    with s show ?thesis by (simp add: read_snapshot_def py_ret_def)
  next
    case (Some k)
    then obtain v where "sns w k = Some (h, v)" using assms(1) seen_snapshot [OF s, of k h] by auto
    with s Some show ?thesis by (simp add: read_snapshot_def py_ret_def py_get_def py_bind_def)
  qed
  then show ?thesis by (rule safe_run) (assumption | rule f)+
qed

lemma Get_with_view:
  assumes h: "own S (CDB h) \<noteq> None" and sn: "sn = None \<or> (\<exists>s. sn = Some s \<and> own S (CSnapshot s) = Some h)"
  shows "safe (view S) (PyLevelDB_Get_with py ldb (Some h) sn args) (\<lambda>_. view S) (view S)"
  unfolding PyLevelDB_Get_with_def Let_def PyLevelDB_set_error_def
proof (intro run_parse run_deref run_read_snapshot [OF sn] run_call_db [OF h], assumption, goal_cases)
  case (1 ps v r)
  show ?case
    by (cases r) (auto intro!: run_release run_alloc done_rules split: option.split)
qed

lemma opened_get:
  assumes "opened S a" and f: "\<And>p h. db_db p = Some h \<Longrightarrow> own S (CDB h) \<noteq> None \<Longrightarrow> safe (seen S J) (f p) Q E"
  shows "safe (seen S J) (py_bind (get_db a) f) Q E"
proof -
  obtain x h where x: "objs S a = Some x" "po_type x = T_LevelDB" "po_owns x = Some (CDB h)" "own S (CDB h) \<noteq> None"
    using assms(1) by (auto simp: opened_def)
  show ?thesis
  proof (rule run_get_db [OF x(1,2)])
    fix p assume "pobj_of (ObjDB p) = x"
    with x(3) have "db_db p = Some h" by auto
    then show "safe (seen S J) (f p) Q E" using f x(4) by blast
  qed
qed

lemma Get_view: "opened S a \<Longrightarrow> safe (view S) (PyLevelDB_Get py ldb a args) (\<lambda>_. view S) (view S)"
  unfolding PyLevelDB_Get_def by (rule opened_get) (simp_all add: Get_with_view)

text \<open>What a snapshot object refers to\<close>

lemma snapshot_parts:
  assumes g: "goodS R S" and t: "typed S" and x: "objs S s = Some x" "pobj_of (ObjSnapshot p) = x"
  obtains a sh h z where "sn_db p = Some a" "sn_snapshot p = Some sh" "own S (CSnapshot sh) = Some h" "opened S a"
    "objs S a = Some z" "po_type z = T_LevelDB" "po_owns z = Some (CDB h)" "own S (CDB h) \<noteq> None"
proof -
  have "sn_db p \<noteq> None" "sn_snapshot p \<noteq> None" using goodS_sane [OF g x(1)] x(2) by auto
  then obtain a sh where p: "sn_db p = Some a" "sn_snapshot p = Some sh" by auto
  then have xa: "po_db x = Some a" "po_owns x = Some (CSnapshot sh)" using x(2) by auto
  show thesis
    using attached [OF g t x(1) xa(1)] xa(2) that [OF p] by (metis option.inject)
qed

lemma SnapshotGet_view:
  assumes g: "goodS R S" and x: "objs S s = Some x" "po_type x = T_Snapshot"
  shows "safe (view S) (PyLevelDBSnapshot_Get py ldb s args) (\<lambda>_. view S) (view S)"
proof (rule safe_typed)
  assume t: "typed S"
  show "safe (view S) (PyLevelDBSnapshot_Get py ldb s args) (\<lambda>_. view S) (view S)"
    unfolding PyLevelDBSnapshot_Get_def
  proof (rule run_get_snapshot [OF x])
    fix p assume "pobj_of (ObjSnapshot p) = x"
    then obtain a sh h z where p: "sn_db p = Some a" "sn_snapshot p = Some sh" "own S (CSnapshot sh) = Some h"
      and z: "objs S a = Some z" "po_type z = T_LevelDB" "po_owns z = Some (CDB h)" "own S (CDB h) \<noteq> None"
      using snapshot_parts [OF g t x(1)] by metis
    show "safe (view S) (py_bind (deref (sn_db p)) (\<lambda>a. py_bind (get_db a) (\<lambda>q.
        PyLevelDB_Get_with py ldb (db_db q) (sn_snapshot p) args))) (\<lambda>_. view S) (view S)"
      unfolding p(1)
    proof (rule run_deref, rule run_get_db [OF z(1,2)])
      fix q assume "pobj_of (ObjDB q) = z"
      then have "db_db q = Some h" using z(3) by auto
      then show "safe (view S) (PyLevelDB_Get_with py ldb (db_db q) (sn_snapshot p) args) (\<lambda>_. view S) (view S)"
        using p(2,3) by (simp add: Get_with_view [OF z(4)])
    qed
  qed
qed

section \<open>Batches\<close>

lemma put_obj_same: "objs S a = Some x \<Longrightarrow> put_obj a x S = S"
  by (simp add: put_obj_def fun_upd_idem)

lemma run_set_batch_ops:
  assumes "objs S b = Some x" "pobj_of (ObjBatch p) = x" "safe (seen S J) (f ()) Q E"
  shows "safe (seen S J) (py_bind (set_batch b (p\<lparr>wb_ops := ops\<rparr>)) f) Q E"
proof (rule run_set_batch)
  have "pobj_of (ObjBatch (p\<lparr>wb_ops := ops\<rparr>)) = x" using assms(2) by auto
  with assms(1,3) show "safe (seen (put_obj b (pobj_of (ObjBatch (p\<lparr>wb_ops := ops\<rparr>))) S) J) (f ()) Q E"
    by (simp add: put_obj_same del: pobj_of.simps)
qed

lemma Batch_view:
  assumes x: "objs S b = Some x" "po_type x = T_WriteBatch"
  shows "safe (view S) (PyWriteBatch_init py b args) (\<lambda>_. view S) (view S)"
    and "safe (view S) (PyWriteBatch_Put py b args) (\<lambda>_. view S) (view S)"
    and "safe (view S) (PyWriteBatch_Delete py b args) (\<lambda>_. view S) (view S)"
  unfolding PyWriteBatch_init_def PyWriteBatch_Put_def PyWriteBatch_Delete_def Let_def
  by (intro run_parse run_release run_get_batch [OF x] run_set_batch_ops [OF x(1)] done_rules; assumption)+

section \<open>Module functions\<close>

lemma run_fsys:
  assumes "\<And>st. safe (seen S J) (f st) Q E"
  shows "safe (seen S J) (py_bind (\<lambda>w. case g (fsys w) of (st, fs') \<Rightarrow> (Ret st, w\<lparr>fsys := fs'\<rparr>)) f) Q E"
  by (rule safe_run [where R = "\<lambda>_. seen S J"]) (auto simp: seen_def shape_simps assms split: prod.split)

lemma Destroy_view: "safe (view S) (pyleveldb_destroy_db py ldb args) (\<lambda>_. view S) (view S)"
  unfolding pyleveldb_destroy_db_def PyLevelDB_set_error_def
  by (rule run_parse, assumption, rule run_fsys) (intro done_rules; assumption)

lemma py_bind_ret_right: "py_bind m py_ret = m"
  by (rule ext) (auto simp: py_bind_def py_ret_def split: prod.split outcome.split)

lemma safe_reraise:
  assumes "safe P m Q E"
  shows "safe P (\<lambda>w. case m w of (Raise _, w') \<Rightarrow> (Raise e, w') | r \<Rightarrow> r) Q E"
  by (rule safeI) (use safeD [OF assms] in \<open>auto split: prod.splits outcome.splits\<close>)

lemma Repair_view: "safe (view S) (pyleveldb_repair_db py ldb args) (\<lambda>_. view S) (view S)"
  unfolding pyleveldb_repair_db_def PyLevelDB_set_error_def
proof (rule run_parse, assumption, rule safe_bind [where R = "\<lambda>_. view S"], goal_cases)
  case (1 ps)
  have "safe (view S) (py_bind (pyleveldb_get_comparator py (arg_opt ps 1)) py_ret) (\<lambda>_. view S) (view S)"
    by (intro run_get_comparator safe_ret)
  then show ?case unfolding py_bind_ret_right by (rule safe_reraise)
next
  case (2 ps c)
  show ?case by (rule run_fsys) (intro done_rules; assumption)
qed

section \<open>Creating snapshots and iterators\<close>

lemma run_next_handle:
  assumes "safe (seen S J) (f (nh S)) Q E"
  shows "safe (seen S J) (py_bind (py_get next_handle) f) Q E"
proof -
  have "\<exists>x w'. py_get next_handle w = (Ret x, w') \<and> seen S J w' \<and> x = nh S" if "seen S J w" for w
    using that by (auto simp: py_get_def seen_def)
  then show ?thesis by (rule safe_run) (assumption | rule safe_fact | simp add: assms)+
qed

lemma run_add_snapshot:
  assumes "safe (seen (S\<lparr>own := (own S)(CSnapshot s \<mapsto> h), nh := Suc s\<rparr>) J) (f ()) Q E"
  shows "safe (seen S J) (py_bind (py_modify (\<lambda>w. w\<lparr>sns := (sns w)(s \<mapsto> (h, v)), next_handle := Suc s\<rparr>)) f) Q E"
proof -
  have "\<exists>x w'. py_modify (\<lambda>w. w\<lparr>sns := (sns w)(s \<mapsto> (h, v)), next_handle := Suc s\<rparr>) w = (Ret x, w') \<and>
      seen (S\<lparr>own := (own S)(CSnapshot s \<mapsto> h), nh := Suc s\<rparr>) J w'" if "seen S J w" for w
    using that by (auto simp: py_modify_def seen_def shape_simps)
  then show ?thesis by (rule safe_run_unit) (assumption | rule assms)+
qed

lemma run_add_iter:
  assumes "safe (view (S\<lparr>own := (own S)(CIter i \<mapsto> h), nh := Suc i\<rparr>)) (f ()) Q E"
  shows "safe (seen S J) (py_bind (py_modify (\<lambda>w. w\<lparr>its := (its w)(i \<mapsto> (h, x)), next_handle := Suc i\<rparr>)) f) Q E"
proof -
  have "\<exists>r w'. py_modify (\<lambda>w. w\<lparr>its := (its w)(i \<mapsto> (h, x)), next_handle := Suc i\<rparr>) w = (Ret r, w') \<and>
      view (S\<lparr>own := (own S)(CIter i \<mapsto> h), nh := Suc i\<rparr>) w'" if "seen S J w" for w
    using that by (auto simp: py_modify_def seen_def shape_simps)
  then show ?thesis by (rule safe_run_unit) (assumption | rule assms)+
qed

text \<open>The created object belongs to the program, with one reference.\<close>

definition created :: "(addr \<Rightarrow> nat) \<Rightarrow> addr option \<Rightarrow> ('d, 'it, 'sn, 'fs) world \<Rightarrow> bool" where
  "created R q w \<longleftrightarrow> (\<exists>a. q = Some a \<and> good (R(a := R a + 1)) w)"

lemma goodS_attach:
  assumes g: "goodS R S" and x: "objs S a = Some x" "po_owns x = Some (CDB h)"
    and k: "\<not> is_CDB k" "cobj_handle k = nh S"
    and y: "po_refs y = 1" "po_deps y = (\<lambda>_. 0)" "po_db y = Some a" "po_owns y = Some k" "po_sane y"
  shows "goodS (R(na S := R (na S) + 1)) (S\<lparr>objs := (objs S)(na S \<mapsto> y, a \<mapsto> more_deps (po_type y) (x\<lparr>po_refs := po_refs x + 1\<rparr>)),
    na := Suc (na S), own := (own S)(k \<mapsto> h), nh := Suc (nh S)\<rparr>)"
proof -
  have o: "owned R S" using g by (simp add: goodS_def)
  have fresh: "R (na S) = 0" "a \<noteq> na S" using owned_none [OF o] owned_fresh [OF o, of "na S"] x(1) by auto
  let ?x = "x\<lparr>po_refs := po_refs x + 1\<rparr>"
  have g1: "goodS (R(a := R a + 1)) (put_obj a ?x S)" by (rule goodS_incr [OF g x(1)])
  then have o1: "owned (R(a := R a + 1)) (put_obj a ?x S)" by (simp add: goodS_def)
  have "owned (R(a := R a + 1, a := R a, na S := 1)) (put_obj a ?x S
    \<lparr>objs := (objs (put_obj a ?x S))(na S \<mapsto> y, a \<mapsto> more_deps (po_type y) ?x), na := Suc (na S),
     own := (own S)(k \<mapsto> h), nh := Suc (nh S)\<rparr>)"
    using owned_attach_new [OF o1, of a ?x h k y "more_deps (po_type y) ?x"] x k y(1-4) by (simp add: put_obj_def)
  then have "owned (R(na S := R (na S) + 1)) (S\<lparr>objs := (objs S)(na S \<mapsto> y, a \<mapsto> more_deps (po_type y) (x\<lparr>po_refs := po_refs x + 1\<rparr>)),
    na := Suc (na S), own := (own S)(k \<mapsto> h), nh := Suc (nh S)\<rparr>)"
    using fresh by (simp add: put_obj_def fun_upd_twist)
  with g y(5) goodS_sane [OF g x(1)] show ?thesis by (auto simp: goodS_def all_sane_def)
qed

lemma goodS_grow: "goodS R S \<Longrightarrow> goodS R (S\<lparr>nh := Suc (nh S)\<rparr>)"
  using owned_grow [of R S "Suc (nh S)"] by (simp add: goodS_def all_sane_def)

lemma run_get_new_snapshot:
  assumes x: "objs S a = Some x" "po_type x = T_LevelDB" "po_owns x = Some (CDB h)" "own S (CDB h) \<noteq> None"
    and f: "safe (seen (S\<lparr>own := (own S)(CSnapshot (nh S) \<mapsto> h), nh := Suc (nh S)\<rparr>) J) (f (nh S)) Q E"
  shows "safe (seen S J) (py_bind (get_new_snapshot ldb a) f) Q E"
  unfolding get_new_snapshot_def
proof (rule run_assoc, rule run_get_db [OF x(1,2)], goal_cases)
  case (1 p)
  then have p: "db_db p = Some h" using x(3) by auto
  show ?case unfolding p
    by (rule run_assoc, rule run_deref, rule run_assoc, rule run_call_db [OF x(4)], rule run_assoc,
        rule run_next_handle, rule run_assoc, rule run_add_snapshot, rule run_ret, rule f)
qed

lemma CreateSnapshot_created:
  assumes g: "goodS R S" and op: "opened S a"
  shows "safe (view S) (creating (PyLevelDB_CreateSnapshot ldb a)) (created R) (good R)"
proof -
  obtain x h where x: "objs S a = Some x" "po_type x = T_LevelDB" "po_owns x = Some (CDB h)" "own S (CDB h) \<noteq> None"
    using op by (auto simp: opened_def)
  have o: "owned R S" using g by (simp add: goodS_def)
  let ?s = "nh S" and ?b = "na S"
  have fresh: "own S (CSnapshot ?s) = None" "?b \<noteq> a" using owned_fresh_handle [OF o, of "CSnapshot ?s"] owned_fresh [OF o, of ?b] x(1) by auto
  let ?S = "S\<lparr>own := (own S)(CSnapshot ?s \<mapsto> h), nh := Suc ?s\<rparr>"
  have x1: "objs ?S a = Some x" "own ?S (CSnapshot ?s) = Some h" "own ?S (CDB h) \<noteq> None" using x by simp_all
  let ?y = "pobj_of (ObjSnapshot \<lparr>sn_refcnt = 1, sn_db = Some a, sn_snapshot = Some ?s\<rparr>)"
  let ?x1 = "x\<lparr>po_refs := po_refs x + 1\<rparr>"
  let ?S2 = "put_obj a ?x1 ?S\<lparr>objs := (objs (put_obj a ?x1 ?S))(na (put_obj a ?x1 ?S) \<mapsto> ?y), na := Suc (na (put_obj a ?x1 ?S))\<rparr>"
  have x2: "objs ?S2 a = Some ?x1" "po_type ?x1 = T_LevelDB" using fresh(2) x(2) by (simp_all add: put_obj_def)
  have done_: "goodS (R(?b := R ?b + 1)) (put_obj a (more_deps T_Snapshot ?x1) ?S2)"
    using goodS_attach [OF g x(1,3), of "CSnapshot ?s" ?y] fresh(2)
    by (simp add: put_obj_def shape_norm fun_upd_twist)
  have undo: "goodS R (?S\<lparr>own := (own ?S)(CSnapshot ?s := None)\<rparr>)"
    using goodS_grow [OF g] fresh(1) by (simp add: fun_upd_idem shape_norm)
  have new: "safe (view ?S) (py_bind (PyLevelDBSnapshot_New ldb a ?s) (\<lambda>v. py_ret (new_ref v))) (created R) (good R)"
    unfolding PyLevelDBSnapshot_New_def
  proof (rule run_assoc, rule run_alloc, rule run_if, goal_cases)
    case (1 ok)
    show ?case
      by (rule run_assoc, rule run_release_snapshot [OF x1(1) x(2,3) x1(2,3)], rule run_raise)
        (rule good_goodS, assumption, rule undo)
  next
    case (2 ok)
    show ?case
    proof (rule run_assoc, rule run_INCREF_db [OF x1(1) x(2)], rule run_assoc, rule run_new_object, rule run_assoc,
        rule run_get_db [OF x2], rule run_assoc, rule run_set_db, rule run_ret, rule safe_ret, goal_cases)
      case (1 p w)
      have "pobj_of (ObjDB (p\<lparr>n_snapshots := n_snapshots p + 1\<rparr>)) = more_deps T_Snapshot ?x1"
        unfolding count_dependent 1(1) by (rule refl)
      with 1(2) done_ have "good (R(?b := R ?b + 1)) w" by (simp only:) (rule good_goodS)
      then show ?case by (simp add: created_def put_obj_def)
    qed
  qed
  show ?thesis
    unfolding PyLevelDB_CreateSnapshot_def creating_def
    by (rule run_assoc, rule run_get_new_snapshot [OF x], rule new)
qed

text \<open>Moving a new iterator; the database's options are read.\<close>

lemma run_position:
  assumes z: "objs S a = Some z" "po_type z = T_LevelDB" "po_owns z \<noteq> None" "po_sane z"
    and h: "own S (CIter i) = Some h" "own S (CDB h) \<noteq> None" and f: "safe (view S) (f ()) Q E"
  shows "safe (view S) (py_bind (position_iterator py ldb a i is_reverse is_from is_to key) f) Q E"
proof -
  have move: "safe (seen S J) (py_bind (move_it i g) f) Q E" for J g
    by (rule run_move_it [OF h], rule f)
  have back_up: "safe (seen S (\<lambda>j. True \<and> j i = Some (h, x))) (py_bind (py_bind (read_valid_it ldb i (It_key ldb)) (\<lambda>b.
      py_bind (get_db a) (\<lambda>p. py_bind (deref (db_options p)) (\<lambda>opts. py_bind (Compare py ldb (o_comparator opts) key b)
        (\<lambda>c. if c \<noteq> 0 then move_valid_it ldb i (It_Prev ldb) else py_ret ()))))) f) Q E" if v: "It_Valid ldb x" for x
  proof (rule run_assoc, rule run_read_valid_it [OF h], use v in blast, rule run_assoc, rule run_get_db [OF z(1,2)], goal_cases)
    case (1 r p)
    then obtain opts where "db_options p = Some opts" using z(3,4) by auto
    then show ?case
      by (simp only:) (rule run_assoc, rule run_deref, rule run_assoc, rule run_Compare, rule run_if,
          rule run_move_valid_it [OF h], use v in blast, rule f, rule run_ret, rule safe_weaken, rule f)
  qed
  show ?thesis
    unfolding position_iterator_def
    by (intro run_if move run_assoc run_move_it [OF h] run_read_it [OF h] back_up) simp_all
qed

lemma goodS_add:
  assumes g: "goodS R S" and y: "po_refs y = 1" "po_deps y = (\<lambda>_. 0)" "po_db y = None" "po_owns y = None" "po_sane y"
  shows "goodS (R(na S := R (na S) + 1)) (S\<lparr>objs := (objs S)(na S \<mapsto> y), na := Suc (na S)\<rparr>)"
proof -
  have o: "owned R S" using g by (simp add: goodS_def)
  have "R (na S) = 0" using owned_none [OF o] owned_fresh [OF o, of "na S"] by simp
  with owned_add [OF o y(1-4)] g y(5) show ?thesis by (auto simp: goodS_def all_sane_def)
qed

text \<open>The empty iterator\<close>

lemma run_empty_iter:
  assumes g: "goodS R S"
  shows "safe (view S) (py_bind (PyLevelDBIter_New None None None None False False) (\<lambda>v. py_ret (new_ref v))) (created R) (good R)"
  unfolding PyLevelDBIter_New_def
proof (rule run_assoc, rule run_alloc, rule run_if, goal_cases)
  case (1 ok)
  show ?case by (rule run_assoc, rule run_delete_it_None, rule run_raise) (rule good_goodS [OF _ g])
next
  case (2 ok)
  let ?y = "pobj_of (ObjIter \<lparr>it_refcnt = 1, it_ref = None, it_db = None, it_iterator = None,
    it_bound = None, it_is_reverse = False, it_include_value = False\<rparr>)"
  have "goodS (R(na S := R (na S) + 1)) (S\<lparr>objs := (objs S)(na S \<mapsto> ?y), na := Suc (na S)\<rparr>)"
    by (rule goodS_add [OF g]) simp_all
  then have "view (S\<lparr>objs := (objs S)(na S \<mapsto> ?y), na := Suc (na S)\<rparr>) w \<Longrightarrow> created R (Some (na S)) w" for w :: "('a, 'b, 'c, 'd) world"
    unfolding created_def by (blast intro: good_goodS)
  then show ?case
    unfolding option.case
    by (intro run_assoc run_ret run_new_object safe_ret) (simp del: pobj_of.simps)
qed

lemma run_bound:
  assumes "\<And>w. seen S J w \<Longrightarrow> E w" and "\<And>b. safe (seen S J) (f b) Q E"
  shows "safe (seen S J) (py_bind (if c then PyArg_Parse_buffer py v else py_ret d) f) Q E"
  by (intro run_if run_parse_buffer run_ret assms)

lemma run_release_bound:
  "safe (seen S J) (f ()) Q E \<Longrightarrow> safe (seen S J) (py_bind (if c then PY_LEVELDB_RELEASE_BUFFER else py_ret ()) f) Q E"
  by (intro run_if run_release run_ret)

text \<open>\<open>RangeIter\<close> on a database, or on a snapshot of it\<close>

lemma RangeIter_created:
  assumes g: "goodS R S" and z: "objs S a = Some z" "po_type z = T_LevelDB" "po_owns z = Some (CDB h)" "own S (CDB h) \<noteq> None"
    and sn: "sn = None \<or> (\<exists>s. sn = Some s \<and> own S (CSnapshot s) = Some h)"
  shows "safe (view S) (creating (PyLevelDB_RangeIter_with py ldb a sn args)) (created R) (good R)"
proof -
  have o: "owned R S" using g by (simp add: goodS_def)
  let ?i = "nh S" and ?b = "na S"
  have fresh: "own S (CIter ?i) = None" "?b \<noteq> a"
    using owned_fresh_handle [OF o, of "CIter ?i"] owned_fresh [OF o, of ?b] z(1) by auto
  let ?S = "S\<lparr>own := (own S)(CIter ?i \<mapsto> h), nh := Suc ?i\<rparr>"
  have z1: "objs ?S a = Some z" "po_owns z \<noteq> None" "po_sane z" and h: "own ?S (CIter ?i) = Some h" "own ?S (CDB h) \<noteq> None"
    using z goodS_sane [OF g z(1)] by simp_all
  have E: "seen S J w \<Longrightarrow> good R w" for J w by (rule good_goodS [OF _ g])
  have undo: "goodS R (?S\<lparr>own := (own ?S)(CIter ?i := None)\<rparr>)"
    using goodS_grow [OF g] fresh(1) by (simp add: fun_upd_idem shape_norm)
  have empty: "safe (seen ?S J) (py_bind (delete_it (Some ?i)) (\<lambda>_. py_bind (PyLevelDBIter_New None None None None False False)
      (\<lambda>v. py_ret (new_ref v)))) (created R) (good R)" for J
    by (rule run_delete_it [OF h], rule run_empty_iter [OF undo])
  have new: "safe (seen ?S J) (py_bind (PyLevelDBIter_New (Some a) (Some a) (Some ?i) bd iv rv) (\<lambda>v. py_ret (new_ref v)))
      (created R) (good R)" for bd iv rv J
  proof -
    let ?y = "pobj_of (ObjIter \<lparr>it_refcnt = 1, it_ref = Some a, it_db = Some a, it_iterator = Some ?i,
      it_bound = bd, it_is_reverse = rv, it_include_value = iv\<rparr>)"
    let ?x1 = "z\<lparr>po_refs := po_refs z + 1\<rparr>"
    let ?S2 = "put_obj a ?x1 ?S\<lparr>objs := (objs (put_obj a ?x1 ?S))(na (put_obj a ?x1 ?S) \<mapsto> ?y), na := Suc (na (put_obj a ?x1 ?S))\<rparr>"
    have x2: "objs ?S2 a = Some ?x1" "po_type ?x1 = T_LevelDB" using fresh(2) z(2) by (simp_all add: put_obj_def)
    have final: "goodS (R(?b := R ?b + 1)) (put_obj a (more_deps T_Iter ?x1) ?S2)"
      using goodS_attach [OF g z(1,3), of "CIter ?i" ?y] fresh(2)
      by (simp add: put_obj_def shape_norm fun_upd_twist)
    show ?thesis
      unfolding PyLevelDBIter_New_def option.case
    proof (rule run_assoc, rule run_alloc, rule run_if, goal_cases)
      case (1 ok)
      show ?case by (rule run_assoc, rule run_delete_it [OF h], rule run_raise) (rule good_goodS [OF _ undo])
    next
      case (2 ok)
      show ?case
      proof (rule run_assoc, rule run_INCREF_db [OF z1(1) z(2)], rule run_assoc, rule run_new_object, rule run_assoc,
          rule run_assoc, rule run_get_db [OF x2], rule run_set_db, rule run_ret, rule safe_ret, goal_cases)
        case (1 p w)
        have "pobj_of (ObjDB (p\<lparr>n_iterators := n_iterators p + 1\<rparr>)) = more_deps T_Iter ?x1"
          unfolding count_dependent 1(1) by (rule refl)
        with 1(2) final have "good (R(?b := R ?b + 1)) w" by (simp only:) (rule good_goodS)
        then show ?case by (simp add: created_def put_obj_def)
      qed
    qed
  qed
  have opened_iter: "safe (view ?S) (py_bind (position_iterator py ldb a ?i is_reverse is_from is_to key) (\<lambda>_.
      py_bind (py_bind (read_it ?i (It_Valid ldb)) (\<lambda>valid. if \<not> valid
        then py_bind (delete_it (Some ?i)) (\<lambda>_. PyLevelDBIter_New None None None None False False)
        else PyLevelDBIter_New (Some a) (Some a) (Some ?i) bd iv is_reverse)) (\<lambda>v. py_ret (new_ref v)))) (created R) (good R)"
    for is_reverse is_from is_to key bd iv
    by (rule run_position [OF z1(1) z(2) z1(2,3) h], rule run_assoc, rule run_read_it [OF h], rule run_if, rule run_assoc)
      (rule empty new)+
  have newit: "safe (seen S J) (py_bind (new_iterator ldb a ro) f) (created R) (good R)"
    if "safe (view S) (f None) (created R) (good R)" "safe (view ?S) (f (Some ?i)) (created R) (good R)" for J ro f
    unfolding new_iterator_def
  proof (rule run_assoc, rule run_get_db [OF z(1,2)], goal_cases)
    case (1 p)
    then have p: "db_db p = Some h" using z(3) by auto
    show ?case unfolding p
    proof (rule run_assoc, rule run_deref, rule run_assoc, rule run_call_db [OF z(4)], goal_cases)
      case (1 r)
      show ?case
      proof (cases r)
        case None
        with that(1) show ?thesis by (simp add: run_ret safe_weaken)
      next
        case (Some x)
        show ?thesis unfolding Some option.case
          by (rule run_assoc, rule run_next_handle, rule run_assoc, rule run_add_iter, rule run_ret, rule that(2))
      qed
    qed
  qed
  show ?thesis
    unfolding creating_def PyLevelDB_RangeIter_with_def Let_def
  proof (rule run_assoc, rule run_parse, rule E, assumption, goal_cases)
    case (1 ps)
    show ?case
    proof (rule run_assoc, rule run_bound, rule E, assumption, rule run_assoc, rule run_bound, rule E, assumption,
        rule run_assoc, rule run_release_bound, rule run_assoc, rule run_release_bound, rule run_assoc,
        rule run_get_db [OF z(1,2)], goal_cases)
      case (1 lo hi p)
      then have p: "db_db p = Some h" using z(3) by auto
      show ?case unfolding p
        by (rule run_assoc, rule run_read_snapshot [OF sn], rule run_assoc, rule newit)
          (simp_all only: option.case py_bind_assoc opened_iter [unfolded py_bind_assoc] run_raise E)
    qed
  qed
qed

lemma SnapshotRangeIter_created:
  assumes g: "goodS R S" and x: "objs S s = Some x" "po_type x = T_Snapshot"
  shows "safe (view S) (creating (PyLevelDBSnapshot_RangeIter py ldb s args)) (created R) (good R)"
proof (rule safe_typed)
  assume t: "typed S"
  show "safe (view S) (creating (PyLevelDBSnapshot_RangeIter py ldb s args)) (created R) (good R)"
    unfolding PyLevelDBSnapshot_RangeIter_def creating_def
  proof (rule run_assoc, rule run_get_snapshot [OF x], goal_cases)
    case (1 p)
    then obtain a sh h z where p: "sn_db p = Some a" "sn_snapshot p = Some sh" "own S (CSnapshot sh) = Some h"
      and z: "objs S a = Some z" "po_type z = T_LevelDB" "po_owns z = Some (CDB h)" "own S (CDB h) \<noteq> None"
      using snapshot_parts [OF g t x(1)] by metis
    show ?case unfolding p(1,2)
      by (rule run_assoc, rule run_deref, fold creating_def, rule RangeIter_created [OF g z]) (simp add: p(3))
  qed
qed

section \<open>Opening\<close>

text \<open>A database object that holds nothing\<close>

definition closed_db :: "pobj \<Rightarrow> bool \<Rightarrow> pobj" where
  "closed_db x b = x\<lparr>po_owns := None, po_opts := b, po_sane := True\<rparr>"

lemma run_delete_all:
  assumes x: "objs S a = Some x" "po_type x = T_LevelDB" and l: "\<And>k. po_owns x = Some k \<Longrightarrow> own S k \<noteq> None"
    and f: "safe (seen (S\<lparr>objs := (objs S)(a \<mapsto> closed_db x False), own := disown (po_owns x) (own S)\<rparr>) J) (f ()) Q E"
  shows "safe (seen S J) (py_bind (delete_all ldb a) f) Q E"
  unfolding delete_all_def
proof (rule run_assoc, rule run_get_db [OF x], goal_cases)
  case (1 p)
  have q: "map_option CDB (db_db p) = po_owns x" using 1 by auto
  have px: "pobj_of (ObjDB (p\<lparr>db_db := None, db_options := None, db_cache := None, db_comparator := None\<rparr>)) = closed_db x False"
    using 1 by (auto simp: closed_db_def)
  show ?case
  proof (rule run_assoc, rule run_delete_db, goal_cases)
    case (1 h)
    then show ?case using l q by auto
  next
    case 2
    show ?case
      by (rule run_assoc, rule run_delete_comparator, rule run_set_db, unfold px)
        (use f in \<open>simp add: q put_obj_def shape_norm\<close>)
  qed
qed

lemma run_open_db:
  assumes "\<And>st. safe (seen S J) (f (st, None)) Q E"
    and "\<And>st. safe (seen (S\<lparr>own := (own S)(CDB (nh S) \<mapsto> nh S), nh := Suc (nh S)\<rparr>) J) (f (st, Some (nh S))) Q E"
  shows "safe (seen S J) (py_bind (open_db ldb opts dir) f) Q E"
proof -
  let ?S = "S\<lparr>own := (own S)(CDB (nh S) \<mapsto> nh S), nh := Suc (nh S)\<rparr>"
  have runs: "\<exists>r w'. open_db ldb opts dir w = (Ret r, w') \<and>
      (\<exists>st. r = (st, None) \<and> seen S J w' \<or> r = (st, Some (nh S)) \<and> seen ?S J w')" if w: "seen S J w" for w
  proof -
    obtain st q fs' where o: "DB_Open ldb opts dir (fsys w) = ((st, q), fs')" by (metis surj_pair)
    show ?thesis
    proof (cases q)
      case None
      with o w show ?thesis by (auto simp: open_db_def seen_def shape_simps)
    next
      case (Some d)
      let ?w = "w\<lparr>fsys := fs', dbs := (dbs w)(next_handle w \<mapsto> d), next_handle := Suc (next_handle w)\<rparr>"
      have "shape_of ?w = (shape_of w)\<lparr>own := (own (shape_of w))(CDB (next_handle w) \<mapsto> next_handle w), nh := Suc (next_handle w)\<rparr>"
        using shape_handles(1) [of "w\<lparr>fsys := fs'\<rparr>" "next_handle w" d] by (simp add: shape_simps)
      then have "seen ?S J ?w" using w by (auto simp: seen_def)
      then show ?thesis using o Some w by (auto simp: open_db_def seen_def)
    qed
  qed
  show ?thesis
  proof (rule safe_run [where R = "\<lambda>r w'. \<exists>st. r = (st, None) \<and> seen S J w' \<or> r = (st, Some (nh S)) \<and> seen ?S J w'"],
      erule runs)
    fix r
    show "safe (\<lambda>w'. \<exists>st. r = (st, None) \<and> seen S J w' \<or> r = (st, Some (nh S)) \<and> seen ?S J w') (f r) Q E"
    proof (cases r)
      case (Pair st q)
      note f = assms [of st, unfolded safe_def]
      show ?thesis
        unfolding safe_def Pair
      proof (intro allI impI, elim exE disjE conjE, goal_cases)
        case (1 w s)
        then show ?case using f(1) [rule_format, of w] by simp
      next
        case (2 w s)
        then show ?case using f(2) [rule_format, of w] by simp
      qed
    qed
  qed
qed

definition closed_at :: "(addr \<Rightarrow> nat) \<Rightarrow> addr \<Rightarrow> ('d, 'it, 'sn, 'fs) world \<Rightarrow> bool" where
  "closed_at R a w \<longleftrightarrow> good R w \<and> (\<exists>p. heap w a = Some (ObjDB p) \<and> db_db p = None)"

lemma closed_atI:
  assumes "view S w" "goodS R S" "objs S a = Some y" "po_type y = T_LevelDB" "po_owns y = None"
  shows "closed_at R a w"
proof -
  obtain ob where ob: "heap w a = Some ob" "pobj_of ob = y" using seen_obj [OF assms(1,3)] .
  with assms(4,5) obtain p where "ob = ObjDB p" "db_db p = None" by (cases ob) auto
  with ob good_goodS [OF assms(1,2)] show ?thesis by (auto simp: closed_at_def)
qed

lemma safe_closed_at:
  assumes "\<And>S y. goodS R S \<Longrightarrow> objs S a = Some y \<Longrightarrow> po_type y = T_LevelDB \<Longrightarrow> po_owns y = None \<Longrightarrow> po_db y = None \<Longrightarrow>
    safe (view S) m Q E"
  shows "safe (closed_at R a) m Q E"
proof (rule safe_pre, goal_cases)
  case (1 w)
  then obtain p where w: "good R w" "heap w a = Some (ObjDB p)" "db_db p = None" by (auto simp: closed_at_def)
  have "safe (view (shape_of w)) m Q E"
    using w by (intro assms [of _ "pobj_of (ObjDB p)"]) (simp_all add: good_def goodS_def)
  then show ?case by (simp add: safe_def seen_def)
qed

lemma safe_unbind: "safe P (py_bind m py_ret) Q E \<Longrightarrow> safe P m Q E"
  by (simp add: py_bind_ret_right)

lemma goodS_closed:
  assumes g: "goodS R S" and x: "objs S a = Some x" "po_db x = None" and no: "holders S a = {}"
  shows "goodS R (S\<lparr>objs := (objs S)(a \<mapsto> closed_db x b), own := disown (po_owns x) (own S)\<rparr>)"
  using owned_close [of R S a x "closed_db x b"] g x no by (auto simp: goodS_def all_sane_def closed_db_def)

lemma goodS_opened:
  assumes g: "goodS R S" and x: "objs S a = Some x" "po_db x = None" "po_owns x = None"
  shows "goodS R (S\<lparr>objs := (objs S)(a \<mapsto> x\<lparr>po_opts := True, po_sane := True, po_owns := Some (CDB (nh S))\<rparr>),
    own := (own S)(CDB (nh S) \<mapsto> nh S), nh := Suc (nh S)\<rparr>)"
  using owned_open [of R S a x "x\<lparr>po_opts := True, po_sane := True, po_owns := Some (CDB (nh S))\<rparr>"] g x
  by (auto simp: goodS_def all_sane_def)

lemma no_owner_no_holders: "goodS R S \<Longrightarrow> objs S a = Some x \<Longrightarrow> po_owns x = None \<Longrightarrow> holders S a = {}"
  using owned_link [of R S] by (fastforce simp: goodS_def dependents_def)

text \<open>The first part of \<open>init\<close> closes the database.\<close>

lemma run_close:
  assumes g: "goodS R S" and t: "typed S" and x: "objs S a = Some x" "pobj_of (ObjDB p) = x" and no: "holders S a = {}"
  shows "safe (view S) (if db_db p \<noteq> None \<or> db_cache p \<noteq> None \<or> db_comparator p \<noteq> None \<or> db_options p \<noteq> None
     then delete_all ldb a else py_ret ()) (\<lambda>_. closed_at R a) (good R)"
proof (rule safe_unbind, rule run_if, goal_cases)
  case 1
  have T: "po_type x = T_LevelDB" "po_db x = None" using x(2) by auto
  have o: "owned R S" using g by (simp add: goodS_def)
  show ?case
    by (rule run_delete_all [OF x(1) T(1) owned_owns(1) [OF o x(1)]], assumption, rule safe_ret,
        rule closed_atI [where y = "closed_db x False"], assumption, rule goodS_closed [OF g x(1) T(2) no]) (simp_all add: T closed_db_def)
next
  case 2
  then have "po_type x = T_LevelDB" "po_owns x = None" using x(2) by auto
  then show ?case by (intro run_ret safe_ret closed_atI [OF _ g x(1)])
qed

lemma InitDB_good:
  assumes g: "goodS R S" and x: "objs S a = Some x" "po_type x = T_LevelDB" and no: "holders S a = {}"
  shows "keeps_good R S (PyLevelDB_init py ldb a args)"
  unfolding PyLevelDB_init_def Let_def
proof (rule safe_typed, rule run_get_db [OF x], rule safe_bind, rule run_close [OF g _ x(1) _ no], assumption, assumption,
    rule safe_closed_at, goal_cases)
  case (1 p u S y)
  note g = 1(3) and y = 1(4-7)
  have E: "seen S J w \<Longrightarrow> good R w" for J w by (rule good_goodS [OF _ g])
  have no: "holders S a = {}" by (rule no_owner_no_holders [OF g y(1,3)])
  let ?y = "y\<lparr>po_opts := True, po_sane := True\<rparr>" and ?n = "nh S"
  let ?S = "put_obj a ?y S"
  have y2: "objs ?S a = Some ?y" "po_type ?y = T_LevelDB" using y by (simp_all add: put_obj_def)
  have nS: "nh ?S = ?n" by (simp add: put_obj_def)
  have same: "put_obj a ?y ?S = ?S" by (rule put_obj_same [OF y2(1)])
  have g2: "goodS R ?S"
    using owned_same [of R S a y ?y] g y by (auto simp: goodS_def put_obj_def all_sane_def)
  let ?S3 = "?S\<lparr>own := (own ?S)(CDB ?n \<mapsto> ?n), nh := Suc ?n\<rparr>"
  have fresh: "own S (CDB ?n) = None" using g owned_fresh_handle [of R S "CDB ?n"] by (simp add: goodS_def)
  have g3: "goodS R (put_obj a (?y\<lparr>po_owns := Some (CDB ?n)\<rparr>) ?S3)"
    using goodS_opened [OF g y(1,4,3)] by (simp add: put_obj_def shape_norm)
  have close2: "goodS R (?S\<lparr>objs := (objs ?S)(a \<mapsto> closed_db ?y False), own := disown (po_owns ?y) (own ?S)\<rparr>)"
    using goodS_closed [OF g y(1,4) no, of False] y(3) by (simp add: put_obj_def closed_db_def)
  have close3: "goodS R (put_obj a (?y\<lparr>po_owns := Some (CDB ?n)\<rparr>) ?S3
    \<lparr>objs := (objs (put_obj a (?y\<lparr>po_owns := Some (CDB ?n)\<rparr>) ?S3))(a \<mapsto> closed_db (?y\<lparr>po_owns := Some (CDB ?n)\<rparr>) False),
     own := disown (Some (CDB ?n)) (own (put_obj a (?y\<lparr>po_owns := Some (CDB ?n)\<rparr>) ?S3))\<rparr>)"
    using goodS_grow [OF goodS_closed [OF g y(1,4) no, of False]] y(3) fresh
    by (simp add: put_obj_def closed_db_def shape_norm fun_upd_idem)
  show ?case
  proof (rule run_parse, erule E, rule safe_if, rule safe_raise, erule E, rule run_get_comparator, erule E,
      rule run_get_db [OF y(1,2)], goal_cases)
    case (1 ps c q)
    have "pobj_of (ObjDB (q\<lparr>db_options := Some (init_options ldb ps c), db_cache := o_block_cache (init_options ldb ps c),
        db_comparator := Some c\<rparr>)) = ?y" using 1(3) y(3) by auto
    then have set: "safe (view ?S) (f ()) (\<lambda>_. good R) (good R) \<Longrightarrow> keeps_good R S (py_bind (set_db a (q\<lparr>db_options := Some (init_options ldb ps c),
        db_cache := o_block_cache (init_options ldb ps c), db_comparator := Some c\<rparr>)) f)" for f
      by (intro run_set_db) (simp only:)
    show ?case
    proof (rule set, rule run_open_db, goal_cases)
      case (1 st)
      show ?case unfolding prod.case
      proof (rule run_get_db [OF y2], goal_cases)
        case (1 q)
        from arg_cong [OF 1, of po_owns] have "db_db q = None" using y(3) by simp
        with 1 have pq: "pobj_of (ObjDB (q\<lparr>db_db := None\<rparr>)) = ?y" by simp
        show ?case
        proof (rule run_set_db, unfold pq same, rule safe_if, goal_cases)
          case 1
          show ?case unfolding PyLevelDB_set_error_def
            by (rule run_delete_all [OF y2], use y(3) in simp, rule safe_raise, rule good_goodS, assumption, rule close2)
        next
          case 2
          show ?case by (rule safe_ret, rule good_goodS [OF _ g2])
        qed
      qed
    next
      case (2 st)
      have y3: "objs ?S3 a = Some ?y" using y2(1) by simp
      show ?case unfolding prod.case
      proof (rule run_get_db [OF _ y2(2)], goal_cases)
        case 1
        then show ?case using y3 by (simp add: put_obj_def)
      next
        case (2 q)
        from arg_cong [OF 2, of po_opts] have "db_options q \<noteq> None" by simp
        then have "pobj_of (ObjDB (q\<lparr>db_db := Some ?n\<rparr>)) =
          (pobj_of (ObjDB q))\<lparr>po_opts := True, po_sane := True, po_owns := Some (CDB ?n)\<rparr>" by simp
        then have pq: "pobj_of (ObjDB (q\<lparr>db_db := Some ?n\<rparr>)) = ?y\<lparr>po_owns := Some (CDB ?n)\<rparr>" unfolding 2 by simp
        let ?z = "?y\<lparr>po_owns := Some (CDB ?n)\<rparr>"
        have z: "objs (put_obj a ?z ?S3) a = Some ?z" "po_type ?z = T_LevelDB" using y by (simp_all add: put_obj_def)
        show ?case
        proof (unfold nS, rule run_set_db, unfold pq, rule safe_if, goal_cases)
          case 1
          show ?case unfolding PyLevelDB_set_error_def
            by (rule run_delete_all [OF z], simp add: put_obj_def, rule safe_raise, rule good_goodS, assumption)
              (use close3 in simp)
        next
          case 2
          show ?case by (rule safe_ret, rule good_goodS [OF _ g3])
        qed
      qed
    qed
  qed
qed

section \<open>Construction\<close>

lemma safe_catch:
  assumes "safe P m Q E1" and "\<And>e. safe E1 (h e) Q E"
  shows "safe P (py_catch m h) Q E"
proof (rule safeI)
  fix w assume "P w"
  note m = safeD [OF assms(1) this] and h = safeD [OF assms(2)]
  show "py_catch m h w = (Ret x, w') \<Longrightarrow> Q x w'" for x w'
    using m(1,2) h(1) by (auto simp: py_catch_def split: prod.splits outcome.splits)
  show "py_catch m h w = (Raise e, w') \<Longrightarrow> E w'" for e w'
    using m(2) h(2) by (auto simp: py_catch_def split: prod.splits outcome.splits)
  show "py_catch m h w = (Crash c, w') \<Longrightarrow> c = Abort" for c w'
    using m(2,3) h(3) by (auto simp: py_catch_def split: prod.splits outcome.splits)
qed

lemma safe_good:
  assumes "\<And>S. goodS R S \<Longrightarrow> safe (view S) m Q E"
  shows "safe (good R) m Q E"
proof (rule safe_pre, goal_cases)
  case (1 w)
  then have "safe (view (shape_of w)) m Q E" by (intro assms) (simp add: good_def goodS_def)
  then show ?case by (simp add: safe_def seen_def)
qed

text \<open>A new object, whose \<open>tp_init\<close> keeps it or fails and leaves it to be dropped\<close>

lemma drop_new:
  "safe (good (R(a := R a + 1))) (py_bind (Py_DECREF ldb a) (\<lambda>_. py_raise e)) Q (good R)"
proof (rule safe_good)
  fix S assume g: "goodS (R(a := R a + 1)) S"
  then obtain x where x: "objs S a = Some x"
    using owned_none [of "R(a := R a + 1)" S a] by (cases "objs S a") (simp_all add: goodS_def)
  show "safe (view S) (py_bind (Py_DECREF ldb a) (\<lambda>_. py_raise e)) Q (good R)"
  proof (rule run_DECREF [OF g x])
    fix S' assume "goodS ((R(a := R a + 1))(a := (R(a := R a + 1)) a - 1)) S'"
    then have "goodS R S'" by simp
    from good_goodS [OF _ this] show "safe (view S') (py_raise e) Q (good R)" by (rule safe_raise)
  qed simp
qed

lemma run_tp_init:
  assumes init: "safe P (tp_init a) (\<lambda>_. good (R(a := R a + 1))) (good (R(a := R a + 1)))"
  shows "safe P (py_bind (py_catch (tp_init a) (\<lambda>e. py_bind (Py_DECREF ldb a) (\<lambda>_. py_raise e)))
      (\<lambda>_. py_ret (Some a))) (created R) (good R)"
  by (rule safe_bind, rule safe_catch [OF init], rule drop_new, rule safe_ret) (simp add: created_def)

lemma run_call_type:
  assumes g: "goodS R S" and tp_new: "tp_new = py_bind py_alloc (\<lambda>self.
       if self then py_bind (new_object ob) (\<lambda>a. py_ret (Some a)) else py_ret None)"
    and init: "safe (view (S\<lparr>objs := (objs S)(na S \<mapsto> pobj_of ob), na := Suc (na S)\<rparr>)) (tp_init (na S))
      (\<lambda>_. good (R(na S := R (na S) + 1))) (good (R(na S := R (na S) + 1)))"
  shows "safe (view S) (call_type ldb tp_new tp_init) (created R) (good R)"
  unfolding call_type_def tp_new
proof (rule run_assoc, rule run_alloc, rule run_if, goal_cases)
  case (1 ok)
  show ?case
    by (rule run_assoc, rule run_new_object, rule run_ret, unfold option.case, rule run_tp_init, rule init)
next
  case (2 ok)
  show ?case by (rule run_ret, unfold option.case, rule safe_raise, rule good_goodS [OF _ g])
qed

lemma NewDB_created:
  assumes g: "goodS R S"
  shows "safe (view S) (call_type ldb PyLevelDB_new (\<lambda>a. PyLevelDB_init py ldb a args)) (created R) (good R)"
proof (rule run_call_type [OF g PyLevelDB_new_def])
  let ?ob = "ObjDB \<lparr>db_refcnt = 1, db_db = None, db_options = None, db_cache = None,
    db_comparator = None, n_snapshots = 0, n_iterators = 0\<rparr>"
  let ?S = "S\<lparr>objs := (objs S)(na S \<mapsto> pobj_of ?ob), na := Suc (na S)\<rparr>"
  have g': "goodS (R(na S := R (na S) + 1)) ?S" by (rule goodS_add [OF g]) (simp_all add: db_counts_def fun_eq_iff)
  have x: "objs ?S (na S) = Some (pobj_of ?ob)" by simp
  have "holders ?S (na S) = {}" by (rule no_owner_no_holders [OF g' x]) simp
  then show "keeps_good (R(na S := R (na S) + 1)) ?S (PyLevelDB_init py ldb (na S) args)"
    by (intro InitDB_good [OF g' x]) simp_all
qed

lemma NewBatch_created:
  assumes g: "goodS R S"
  shows "safe (view S) (call_type ldb PyWriteBatch_new (\<lambda>a. PyWriteBatch_init py a args)) (created R) (good R)"
proof (rule run_call_type [OF g PyWriteBatch_new_def])
  let ?ob = "ObjBatch \<lparr>wb_refcnt = 1, wb_ops = []\<rparr>"
  let ?S = "S\<lparr>objs := (objs S)(na S \<mapsto> pobj_of ?ob), na := Suc (na S)\<rparr>"
  have g': "goodS (R(na S := R (na S) + 1)) ?S" by (rule goodS_add [OF g]) simp_all
  have x: "objs ?S (na S) = Some (pobj_of ?ob)" by simp
  have "safe (view ?S) (PyWriteBatch_init py (na S) args) (\<lambda>_. view ?S) (view ?S)" by (rule Batch_view(1) [OF x]) simp
  then show "keeps_good (R(na S := R (na S) + 1)) ?S (PyWriteBatch_init py (na S) args)"
    by (rule safe_post) (rule good_goodS [OF _ g'], assumption)+
qed

text \<open>The constructor of snapshots, on an open database\<close>

lemma opened_add: "opened S a \<Longrightarrow> a \<noteq> b \<Longrightarrow> opened (S\<lparr>objs := (objs S)(b \<mapsto> y), na := n\<rparr>) a"
  by (simp add: opened_def)

lemma run_parse_args:
  assumes "parse_tuple py fmt ts kws args = Some ps" "safe (seen S J) (f ps) Q E"
  shows "safe (seen S J) (py_bind (PyArg_ParseTupleAndKeywords py fmt ts kws args) f) Q E"
  by (rule safe_run [where R = "\<lambda>r w. seen S J w \<and> r = ps"])
    (use assms in \<open>auto simp: PyArg_ParseTupleAndKeywords_def seen_def shape_simps safe_def\<close>)

lemma goodS_attach_old:
  assumes o: "owned R S" and sane: "all_sane (S\<lparr>objs := (objs S)(b := None)\<rparr>)"
    and b: "objs S b = Some y0" "po_db y0 = None" "po_owns y0 = None"
    and x: "objs S a = Some x" "po_owns x = Some (CDB h)" and k: "\<not> is_CDB k" "cobj_handle k = nh S"
    and y: "po_refs y = po_refs y0" "po_deps y = po_deps y0" "po_db y = Some a" "po_owns y = Some k" "po_sane y"
  shows "goodS R (S\<lparr>objs := (objs S)(b \<mapsto> y, a \<mapsto> more_deps (po_type y) (x\<lparr>po_refs := po_refs x + 1\<rparr>)),
    own := (own S)(k \<mapsto> h), nh := Suc (nh S)\<rparr>)"
proof -
  let ?x = "x\<lparr>po_refs := po_refs x + 1\<rparr>"
  have ne: "a \<noteq> b" "b \<noteq> a" using b(1,3) x by auto
  have "owned (R(a := R a + 1)) (S\<lparr>objs := (objs S)(a \<mapsto> ?x)\<rparr>)"
    using owned_touch [OF o x(1), of ?x "R a + 1"] owned_obj(3) [OF o x(1)] by simp
  from owned_attach [OF this _ _ _ _ b(2,3) k(1), of a ?x h b y] x b(1) k(2) y(1-4) ne
  have "owned R (S\<lparr>objs := (objs S)(b \<mapsto> y, a \<mapsto> more_deps (po_type y) ?x), own := (own S)(k \<mapsto> h), nh := Suc (nh S)\<rparr>)"
    by (simp add: fun_upd_twist)
  moreover have other: "po_sane z" if "objs S c = Some z" "c \<noteq> b" for c z
    using sane [unfolded all_sane_def, rule_format, of c z] that by simp
  moreover have "po_sane x" by (rule other [OF x(1) ne(1)])
  ultimately show ?thesis using y(5) by (auto simp: goodS_def all_sane_def)
qed

text \<open>The second part of the initialisation: the snapshot of the database is taken.\<close>

abbreviation take_snapshot ::
  "py_api \<Rightarrow> ('d, 'it, 'sn, 'fs) leveldb \<Rightarrow> addr \<Rightarrow> PyLevelDBSnapshot \<Rightarrow> pyargs \<Rightarrow> (('d, 'it, 'sn, 'fs) world, unit) py" where
  "take_snapshot py ldb b p args \<equiv>
     py_bind (PyArg_ParseTupleAndKeywords py ''O!'' [T_LevelDB] [''db''] args) (\<lambda>ps.
     case arg_obj ps 0 PyNone of
       PyObj T_LevelDB db \<Rightarrow>
         py_bind (get_new_snapshot ldb db) (\<lambda>snapshot.
         py_bind (set_snapshot b (p\<lparr>sn_db := Some db, sn_snapshot := Some snapshot\<rparr>)) (\<lambda>_.
         py_bind (Py_INCREF_db db) (\<lambda>_.
         py_bind (get_db db) (\<lambda>p.
         set_db db (p\<lparr>n_snapshots := n_snapshots p + 1\<rparr>)))))
     | _ \<Rightarrow> py_crash NullDeref)"

lemma run_take_snapshot:
  assumes o: "owned R S" and sane: "all_sane (S\<lparr>objs := (objs S)(b := None)\<rparr>)"
    and b: "objs S b = Some y0" "po_db y0 = None" "po_owns y0 = None" "po_refs y0 = sn_refcnt p" "po_deps y0 = (\<lambda>_. 0)"
    and arg: "snapshot_arg py args = Some a" and op: "opened S a"
  shows "keeps_good R S (take_snapshot py ldb b p args)"
proof -
  obtain x h where x: "objs S a = Some x" "po_type x = T_LevelDB" "po_owns x = Some (CDB h)" "own S (CDB h) \<noteq> None"
    using op by (auto simp: opened_def)
  have ne: "a \<noteq> b" "b \<noteq> a" using b(1,3) x(1,3) by auto
  obtain ps where ps: "parse_tuple py ''O!'' [T_LevelDB] [''db''] args = Some ps" "arg_obj ps 0 PyNone = PyObj T_LevelDB a"
    using arg by (auto simp: snapshot_arg_def split: option.splits pyval.splits pytype.splits)
  let ?s = "nh S"
  let ?y = "pobj_of (ObjSnapshot (p\<lparr>sn_db := Some a, sn_snapshot := Some ?s\<rparr>))"
  let ?S1 = "S\<lparr>own := (own S)(CSnapshot ?s \<mapsto> h), nh := Suc ?s\<rparr>"
  let ?S2 = "put_obj b ?y ?S1"
  let ?x1 = "x\<lparr>po_refs := po_refs x + 1\<rparr>"
  let ?S3 = "put_obj a ?x1 ?S2"
  let ?S4 = "put_obj a (more_deps T_Snapshot ?x1) ?S3"
  have g4: "goodS R ?S4"
    using goodS_attach_old [OF o sane b(1-3) x(1,3), of "CSnapshot ?s" ?y] b(4,5) ne
    by (simp add: put_obj_def shape_norm fun_upd_twist)
  have x2: "objs ?S2 a = Some x" and x3: "objs ?S3 a = Some ?x1" "po_type ?x1 = T_LevelDB"
    using x(1,2) ne by (simp_all add: put_obj_def)
  show ?thesis
  proof (rule run_parse_args [OF ps(1)], simp only: ps(2) pyval.case pytype.case, rule run_get_new_snapshot [OF x],
      rule run_set_snapshot, rule run_INCREF_db [OF x2 x(2)], rule run_get_db [OF x3], rule safe_unbind,
      rule run_set_db, rule safe_ret, goal_cases)
    case (1 q w)
    have "pobj_of (ObjDB (q\<lparr>n_snapshots := n_snapshots q + 1\<rparr>)) = more_deps T_Snapshot ?x1"
      unfolding count_dependent 1(1) by (rule refl)
    with 1(2) g4 show ?case by (simp only:) (rule good_goodS)
  qed
qed

lemma NewSnapshot_created:
  assumes g: "goodS R S" and arg: "snapshot_arg py args = Some a" and op: "opened S a"
  shows "safe (view S) (call_type ldb PyLevelDBSnapshot_new (\<lambda>s. PyLevelDBSnapshot_init py ldb s args)) (created R) (good R)"
proof (rule run_call_type [OF g PyLevelDBSnapshot_new_def])
  let ?ob = "ObjSnapshot \<lparr>sn_refcnt = 1, sn_db = None, sn_snapshot = None\<rparr>"
  let ?b = "na S"
  let ?S = "S\<lparr>objs := (objs S)(?b \<mapsto> pobj_of ?ob), na := Suc ?b\<rparr>"
  have o: "owned R S" using g by (simp add: goodS_def)
  have fresh: "objs S ?b = None" "R ?b = 0" using owned_fresh [OF o, of ?b] owned_none [OF o] by simp_all
  have ne: "a \<noteq> ?b" using op fresh(1) by (auto simp: opened_def)
  have o': "owned (R(?b := R ?b + 1)) ?S" using owned_add [OF o, of "pobj_of ?ob"] fresh(2) by simp
  have sane: "all_sane (?S\<lparr>objs := (objs ?S)(?b := None)\<rparr>)" using g by (simp add: goodS_def all_sane_def)
  have y0: "objs ?S ?b = Some (pobj_of ?ob)" "po_type (pobj_of ?ob) = T_Snapshot" by simp_all
  show "keeps_good (R(?b := R ?b + 1)) ?S (PyLevelDBSnapshot_init py ldb ?b args)"
    unfolding PyLevelDBSnapshot_init_def
  proof (rule run_get_snapshot [OF y0], goal_cases)
    case (1 p)
    then have p: "p = \<lparr>sn_refcnt = 1, sn_db = None, sn_snapshot = None\<rparr>" by simp
    then have q: "p\<lparr>sn_db := None, sn_snapshot := None\<rparr> = p" "sn_db p = None" by simp_all
    have keep: "put_obj ?b (pobj_of (ObjSnapshot p)) ?S = ?S" unfolding p by (rule put_obj_same) simp
    show ?case
      by (simp only: q option.case prod.case, rule run_ret, rule run_set_snapshot, unfold keep,
          rule run_take_snapshot [OF o' sane y0(1) _ _ _ _ arg opened_add [OF op ne]]) (simp_all add: p)
  qed
qed

text \<open>The constructor called again on a snapshot object: it lets go of its database first.\<close>

lemma run_init_snapshot:
  assumes g: "goodS R S" and x: "objs S b = Some x" "po_type x = T_Snapshot"
    and f: "\<And>p S'. pobj_of (ObjSnapshot p) = x \<Longrightarrow> let_go R S b (dropped x) S' \<Longrightarrow>
      (\<And>c. opened S c \<Longrightarrow> 0 < R c \<Longrightarrow> opened S' c) \<Longrightarrow> safe (view S') (take_snapshot py ldb b p args) Q E"
  shows "safe (view S) (PyLevelDBSnapshot_init py ldb b args) Q E"
  unfolding PyLevelDBSnapshot_init_def
proof (rule safe_typed, rule run_get_snapshot [OF x], goal_cases)
  case (1 p)
  note t = 1(1) and p = 1(2)
  obtain c s z h where as: "sn_db p = Some c" "sn_snapshot p = Some s" and xa: "po_db x = Some c" "po_owns x = Some (CSnapshot s)"
    and z: "objs S c = Some z" "po_type z = T_LevelDB" "po_owns z = Some (CDB h)" "po_db z = None"
      "own S (CSnapshot s) = Some h" "own S (CDB h) \<noteq> None" "c \<noteq> b"
    by (rule snapshot_attached [OF g t x(1) p])
  let ?z = "less_deps T_Snapshot z"
  let ?S1 = "put_obj c ?z S"
  have z1: "objs ?S1 c = Some ?z" "po_type ?z = T_LevelDB" "po_owns ?z = Some (CDB h)" "own ?S1 (CSnapshot s) = Some h"
    "own ?S1 (CDB h) \<noteq> None" using z by (simp_all add: put_obj_def)
  have swap: "?S1\<lparr>own := (own ?S1)(CSnapshot s := None)\<rparr> = put_obj c ?z (S\<lparr>own := (own S)(CSnapshot s := None)\<rparr>)"
    by (simp add: put_obj_def)
  have pre: "safe (view S) (py_bind (set_db c (q\<lparr>n_snapshots := n_snapshots q - 1\<rparr>)) k) Q E"
    if "pobj_of (ObjDB q) = z" "safe (view ?S1) (k ()) Q E" for q k
  proof -
    have "pobj_of (ObjDB (q\<lparr>n_snapshots := n_snapshots q - 1\<rparr>)) = ?z"
      unfolding count_dependent that(1) by (rule refl)
    with that(2) show ?thesis by (intro run_set_db) (simp del: pobj_of.simps)
  qed
  show ?case
    unfolding as prod.case option.case
    by (rule run_assoc, rule run_get_db [OF z(1,2)], rule run_assoc, erule pre, rule run_assoc,
      rule run_release_snapshot [OF z1], unfold swap, rule run_drop_snapshot [OF g t x(1) p xa z(1-4,6,7) _ refl])
      (rule f [OF p])
qed

lemma InitSnapshot_good:
  assumes g: "goodS R S" and x: "objs S b = Some x" "po_type x = T_Snapshot"
    and arg: "snapshot_arg py args = Some a" and op: "opened S a" "0 < R a"
  shows "keeps_good R S (PyLevelDBSnapshot_init py ldb b args)"
proof (rule run_init_snapshot [OF g x], goal_cases)
  case (1 p S')
  then have S': "owned R S'" "objs S' b = Some (dropped x)" "all_sane (S'\<lparr>objs := (objs S')(b := None)\<rparr>)" "opened S' a"
    using g op by (simp_all add: let_go_def goodS_def)
  have "po_refs x = sn_refcnt p" "po_deps x = (\<lambda>_. 0)" using 1(1) by auto
  then show ?case by (intro run_take_snapshot [OF S'(1,3,2) _ _ _ _ arg S'(4)]) simp_all
qed

text \<open>With a wrong argument nothing is taken instead: the object keeps NULL pointers.\<close>

lemma InitSnapshot_refused:
  assumes g: "goodS R S" and x: "objs S b = Some x" "po_type x = T_Snapshot"
    and arg: "parse_tuple py ''O!'' [T_LevelDB] [''db''] args = None"
  shows "safe (view S) (PyLevelDBSnapshot_init py ldb b args) (\<lambda>_ _. False)
    (\<lambda>w. \<exists>s. heap w b = Some (ObjSnapshot s) \<and> sn_db s = None)"
proof (rule run_init_snapshot [OF g x], rule run_parse, goal_cases)
  case (1 p S' w)
  then have "objs S' b = Some (dropped x)" by (simp add: let_go_def)
  from seen_obj [OF 1(4) this] obtain ob where ob: "heap w b = Some ob" "pobj_of ob = dropped x" .
  then have "po_type (pobj_of ob) = T_Snapshot" "po_db (pobj_of ob) = None" using x(2) by simp_all
  with ob(1) show ?case by (cases ob) simp_all
qed (use arg in simp)

end
