(* ===== verification/LifecycleSafety.thy ===== *)
theory LifecycleSafety
  imports LifecycleSpec Instance
begin

text \<open>
  Every permitted call keeps the ownership invariant and memory safety, for any program that
  uses the extension; what follows for the states it can reach, and why each rule of use is
  needed.
\<close>

section \<open>One call\<close>

lemma holds_obj: "holds R w t a \<Longrightarrow> \<exists>x. objs (shape_of w) a = Some x \<and> po_type x = t"
  by (auto simp: holds_def split: option.splits)

lemma holds_open_opened: "good R w \<Longrightarrow> holds_open R w a \<Longrightarrow> opened (shape_of w) a"
proof -
  assume g: "good R w" and "holds_open R w a"
  then obtain p h where p: "heap w a = Some (ObjDB p)" "db_db p = Some h"
    by (auto simp: holds_open_def split: option.splits pyobject.splits)
  then have x: "objs (shape_of w) a = Some (pobj_of (ObjDB p))" "po_owns (pobj_of (ObjDB p)) = Some (CDB h)" by simp_all
  have "own (shape_of w) (CDB h) \<noteq> None" by (rule owned_owns(1) [OF _ x, of R]) (use g in \<open>simp add: good_def\<close>)
  with x show ?thesis unfolding opened_def by (intro exI [of _ "pobj_of (ObjDB p)"] exI [of _ h]) simp
qed

lemma holds_args_objects: "holds_args R w args \<Longrightarrow> arg_objects (shape_of w) args"
  by (fastforce simp: holds_args_def arg_objects_def dest: holds_obj)

lemma held_obj:
  assumes "good R w" and "0 < R a"
  obtains x where "objs (shape_of w) a = Some x"
  using assms owned_none [of R "shape_of w" a] by (cases "objs (shape_of w) a") (auto simp: good_def)

lemma no_dependents:
  assumes g: "good R w" and x: "objs (shape_of w) a = Some x" and d: "po_deps x = (\<lambda>_. 0)"
  shows "holders (shape_of w) a = {}"
proof -
  have o: "owned R (shape_of w)" using g by (simp add: good_def)
  have "dependents (shape_of w) a ((=) t) = {}" for t
    using owned_obj(4) [OF o x, of t] owned_holders_finite [OF o] d by (simp del: shape_sel)
  then show ?thesis by (fastforce simp: dependents_def)
qed

lemma dropping_good:
  assumes "safe (view S) m (\<lambda>_. good R) (good R)"
  shows "safe (view S) (dropping m) (\<lambda>q. good (add_ref (Ret q) R)) (good R)"
  unfolding dropping_def by (rule safe_bind [OF assms], rule safe_ret) (simp add: add_ref_def)

lemma dropping_view:
  assumes "goodS R S" and "safe (view S) m (\<lambda>_. view S) (view S)"
  shows "safe (view S) (dropping m) (\<lambda>q. good (add_ref (Ret q) R)) (good R)"
  by (rule dropping_good, rule safe_post [OF assms(2)]) (rule good_goodS [OF _ assms(1)], assumption)+

lemma creating_good:
  assumes "safe (view S) m (created R) (good R)"
  shows "safe (view S) m (\<lambda>q. good (add_ref (Ret q) R)) (good R)"
  by (rule safe_post [OF assms]) (auto simp: created_def add_ref_def)

text \<open>The calls other than \<open>Incref\<close> and \<open>Decref\<close>\<close>

definition counts :: "call \<Rightarrow> bool" where
  "counts c \<longleftrightarrow> (case c of Incref a \<Rightarrow> True | Decref a \<Rightarrow> True | _ \<Rightarrow> False)"

lemma refs_after_other: "\<not> counts c \<Longrightarrow> refs_after c r R = add_ref r R"
  by (simp add: counts_def refs_after_def split: call.splits)

lemma call_good:
  assumes py: "parse_respects_types py" and g: "good R w" and p: "permitted py c R w" and c: "\<not> counts c"
  shows "safe (view (shape_of w)) (run_call py ldb c) (\<lambda>q. good (add_ref (Ret q) R)) (good R)"
proof -
  have gS: "goodS R (shape_of w)" using g by (simp add: good_def goodS_def)
  note op = holds_open_opened [OF g]
  note drop = dropping_view [OF gS]
  show ?thesis
  proof (cases c)
    case (NewDB args)
    then show ?thesis by (simp only: run_call.simps) (rule creating_good [OF NewDB_created [OF gS]])
  next
    case (NewSnapshot args)
    with p obtain a where "snapshot_arg py args = Some a" "holds_open R w a" by (auto split: option.splits)
    with NewSnapshot show ?thesis
      by (simp only: run_call.simps) (rule creating_good [OF NewSnapshot_created [OF gS _ op]])
  next
    case (NewBatch args)
    then show ?thesis by (simp only: run_call.simps) (rule creating_good [OF NewBatch_created [OF gS]])
  next
    case (InitDB a args)
    with p obtain q where q: "heap w a = Some (ObjDB q)" "n_snapshots q = 0" "n_iterators q = 0"
      by (auto split: option.splits pyobject.splits)
    have x: "objs (shape_of w) a = Some (pobj_of (ObjDB q))" using q by simp
    have "holders (shape_of w) a = {}" by (rule no_dependents [OF g x]) (simp add: q db_counts_def fun_eq_iff)
    then have "safe (view (shape_of w)) (PyLevelDB_init py ldb a args) (\<lambda>_. good R) (good R)"
      by (intro InitDB_good [OF gS x]) simp_all
    with InitDB show ?thesis by (simp only: run_call.simps) (rule dropping_good)
  next
    case (InitSnapshot s args)
    with p obtain a where a: "snapshot_arg py args = Some a" "holds_open R w a" and "holds R w T_Snapshot s"
      by (auto split: option.splits)
    then obtain x where x: "objs (shape_of w) s = Some x" "po_type x = T_Snapshot" by (auto dest: holds_obj)
    have "0 < R a" using a(2) by (simp add: holds_open_def)
    with InitSnapshot a show ?thesis
      by (simp only: run_call.simps) (rule dropping_good [OF InitSnapshot_good [OF gS x _ op]])
  next
    case (Write a args)
    with p have "holds_open R w a" "holds_args R w args" by simp_all
    with Write show ?thesis by (simp only: run_call.simps) (rule drop [OF Write_view [OF py op holds_args_objects]])
  next
    case (RangeIter a args)
    with p have "opened (shape_of w) a" by (simp add: op)
    then obtain x h where "objs (shape_of w) a = Some x" "po_type x = T_LevelDB" "po_owns x = Some (CDB h)"
      "own (shape_of w) (CDB h) \<noteq> None" by (auto simp: opened_def)
    with RangeIter show ?thesis unfolding PyLevelDB_RangeIter_def
      by (simp only: run_call.simps PyLevelDB_RangeIter_def) (rule creating_good [OF RangeIter_created [OF gS]]; simp)
  next
    case (SnapshotRangeIter a args)
    with p obtain x where "objs (shape_of w) a = Some x" "po_type x = T_Snapshot" by (auto dest: holds_obj)
    with SnapshotRangeIter show ?thesis
      by (simp only: run_call.simps) (rule creating_good [OF SnapshotRangeIter_created [OF gS]])
  next
    case (SnapshotGet a args)
    with p obtain x where "objs (shape_of w) a = Some x" "po_type x = T_Snapshot" by (auto dest: holds_obj)
    with SnapshotGet show ?thesis by (simp only: run_call.simps) (rule drop [OF SnapshotGet_view [OF gS]])
  next
    case (IterNext a)
    with p obtain x where "objs (shape_of w) a = Some x" "po_type x = T_Iter" by (auto dest: holds_obj)
    with IterNext show ?thesis by (simp only: run_call.simps) (rule dropping_good [OF IterNext_good [OF gS]])
  next
    case (BatchInit a args)
    with p obtain x where "objs (shape_of w) a = Some x" "po_type x = T_WriteBatch" by (auto dest: holds_obj)
    with BatchInit show ?thesis by (simp only: run_call.simps) (rule drop [OF Batch_view(1)])
  next
    case (BatchPut a args)
    with p obtain x where "objs (shape_of w) a = Some x" "po_type x = T_WriteBatch" by (auto dest: holds_obj)
    with BatchPut show ?thesis by (simp only: run_call.simps) (rule drop [OF Batch_view(2)])
  next
    case (BatchDelete a args)
    with p obtain x where "objs (shape_of w) a = Some x" "po_type x = T_WriteBatch" by (auto dest: holds_obj)
    with BatchDelete show ?thesis by (simp only: run_call.simps) (rule drop [OF Batch_view(3)])
  next
    case (CreateSnapshot a)
    with p show ?thesis by (simp only: run_call.simps permitted.simps) (rule creating_good [OF CreateSnapshot_created [OF gS op]])
  next
    case (Put a args)
    with p show ?thesis by (simp only: run_call.simps permitted.simps) (rule drop [OF Put_view [OF op]])
  next
    case (Get a args)
    with p show ?thesis by (simp only: run_call.simps permitted.simps) (rule drop [OF Get_view [OF op]])
  next
    case (Delete a args)
    with p show ?thesis by (simp only: run_call.simps permitted.simps) (rule drop [OF Delete_view [OF op]])
  next
    case (GetStats a)
    with p show ?thesis by (simp only: run_call.simps permitted.simps) (rule drop [OF GetStatus_view [OF op]])
  next
    case (CompactRange a args)
    with p show ?thesis by (simp only: run_call.simps permitted.simps) (rule drop [OF CompactRange_view [OF op]])
  next
    case (Destroy args)
    then show ?thesis by (simp only: run_call.simps) (rule drop [OF Destroy_view])
  next
    case (Repair args)
    then show ?thesis by (simp only: run_call.simps) (rule drop [OF Repair_view])
  qed (use c in \<open>simp_all add: counts_def\<close>)
qed

lemma count_good:
  assumes g: "good R w" and p: "permitted py c R w" and c: "counts c"
  shows "safe (view (shape_of w)) (run_call py ldb c) (\<lambda>q. good (refs_after c r R)) (\<lambda>_. False)"
proof -
  have gS: "goodS R (shape_of w)" using g by (simp add: good_def goodS_def)
  from c p consider a where "c = Incref a" "0 < R a" | a where "c = Decref a" "0 < R a"
    by (auto simp: counts_def split: call.splits)
  then show ?thesis
  proof cases
    case (1 a)
    obtain x where x: "objs (shape_of w) a = Some x" by (rule held_obj [OF g 1(2)])
    show ?thesis unfolding 1(1) run_call.simps dropping_def
      by (rule run_INCREF [OF gS x], rule safe_ret, rule good_goodS, assumption) (simp add: refs_after_def)
  next
    case (2 a)
    obtain x where x: "objs (shape_of w) a = Some x" by (rule held_obj [OF g 2(2)])
    show ?thesis unfolding 2(1) run_call.simps dropping_def
      by (rule run_DECREF [OF gS x 2(2)], rule safe_ret, rule good_goodS, assumption) (simp add: refs_after_def)
  qed
qed

lemma call_step:
  assumes py: "parse_respects_types py" and g: "good R w" and p: "permitted py c R w"
    and run: "run_call py ldb c w = (r, w')"
  shows "case r of Crash f \<Rightarrow> f = Abort | _ \<Rightarrow> good (refs_after c r R) w'"
proof -
  have v: "view (shape_of w) w" by (simp add: seen_def)
  show ?thesis
  proof (cases "counts c")
    case True
    have "safe (view (shape_of w)) (run_call py ldb c) (\<lambda>q. good (refs_after c r R)) (\<lambda>_. False)"
      by (rule count_good [OF g p True])
    from safeD [OF this v] run show ?thesis by (cases r) auto
  next
    case False
    show ?thesis
      using safeD [OF call_good [OF py g p False] v] run by (cases r) (auto simp: refs_after_other [OF False] add_ref_def)
  qed
qed

section \<open>Reachable states\<close>

inductive_cases reachable_elims: "reachable py ldb R w"

lemma reachable_good:
  assumes "parse_respects_types py" and "reachable py ldb R w"
  shows "good R w"
  using assms(2)
proof (induction rule: reachable.induct)
  case (start w)
  then show ?case by (rule good_initial)
next
  case (step R w c r w')
  from call_step [OF assms(1) step.IH step.hyps(2,3)] step.hyps(4) show ?case
    by (cases r) auto
qed

text \<open>Sequences of calls: of permitted ones, and of any\<close>

fun runs ::
  "py_api \<Rightarrow> ('d, 'it, 'sn, 'fs) leveldb \<Rightarrow> call list \<Rightarrow> (addr \<Rightarrow> nat) \<Rightarrow> ('d, 'it, 'sn, 'fs) world \<Rightarrow>
    ((addr \<Rightarrow> nat) \<times> ('d, 'it, 'sn, 'fs) world) option" where
  "runs py ldb [] R w = Some (R, w)"
| "runs py ldb (c # cs) R w =
     (if permitted py c R w
      then (case run_call py ldb c w of
              (Crash f, w') \<Rightarrow> None
            | (r, w') \<Rightarrow> runs py ldb cs (refs_after c r R) w')
      else None)"

fun outcomes ::
  "py_api \<Rightarrow> ('d, 'it, 'sn, 'fs) leveldb \<Rightarrow> call list \<Rightarrow> ('d, 'it, 'sn, 'fs) world \<Rightarrow> addr option outcome list" where
  "outcomes py ldb [] w = []"
| "outcomes py ldb (c # cs) w =
     (case run_call py ldb c w of
        (Crash f, w') \<Rightarrow> [Crash f]
      | (r, w') \<Rightarrow> r # outcomes py ldb cs w')"

lemma runs_reachable: "runs py ldb cs R w = Some (R', w') \<Longrightarrow> reachable py ldb R w \<Longrightarrow> reachable py ldb R' w'"
proof (induction cs arbitrary: R w)
  case (Cons c cs)
  obtain r v where r: "run_call py ldb c w = (r, v)" by fastforce
  with Cons.prems(1) have p: "permitted py c R w" "\<And>f. r \<noteq> Crash f" and rs: "runs py ldb cs (refs_after c r R) v = Some (R', w')"
    by (auto split: if_splits outcome.splits)
  show ?case by (rule Cons.IH [OF rs reachable.step [OF Cons.prems(2) p(1) r p(2)]])
qed simp

text \<open>The references held after a sequence of calls follow from its results.\<close>

definition refs_of :: "(call \<times> addr option outcome) list \<Rightarrow> (addr \<Rightarrow> nat) \<Rightarrow> addr \<Rightarrow> nat" where
  "refs_of xs R = fold (\<lambda>(c, r). refs_after c r) xs R"

lemma runs_refs:
  "runs py ldb cs R w = Some (R', w') \<Longrightarrow> R' = refs_of (zip cs (outcomes py ldb cs w)) R"
  by (induction cs arbitrary: R w)
    (auto simp: refs_of_def split: if_splits outcome.splits prod.splits)

section \<open>What the invariant says of the code's fields\<close>

text \<open>Snapshots and iterators that refer to the database object at \<open>a\<close>\<close>

definition snapshots_of :: "('d, 'it, 'sn, 'fs) world \<Rightarrow> addr \<Rightarrow> addr set" where
  "snapshots_of w a = {b. case heap w b of Some (ObjSnapshot s) \<Rightarrow> sn_db s = Some a | _ \<Rightarrow> False}"

definition iterators_of :: "('d, 'it, 'sn, 'fs) world \<Rightarrow> addr \<Rightarrow> addr set" where
  "iterators_of w a = {b. case heap w b of Some (ObjIter i) \<Rightarrow> it_ref i = Some a | _ \<Rightarrow> False}"

lemma dependent_iff:
  "b \<in> dependents (shape_of w) a P \<longleftrightarrow>
     (case heap w b of None \<Rightarrow> False | Some ob \<Rightarrow> po_db (pobj_of ob) = Some a \<and> P (po_type (pobj_of ob)))"
  by (simp add: dependents_def split: option.split)

lemma dependents_by_type:
  "dependents (shape_of w) a ((=) T_Snapshot) = snapshots_of w a"
  "dependents (shape_of w) a ((=) T_Iter) = iterators_of w a"
  unfolding set_eq_iff dependent_iff snapshots_of_def iterators_of_def
  by (simp_all split: option.split pyobject.split)

lemma holders_split: "holders (shape_of w) a = snapshots_of w a \<union> iterators_of w a"
  unfolding set_eq_iff Un_iff dependent_iff snapshots_of_def iterators_of_def
  by (simp split: option.split pyobject.split)

lemma good_counts:
  assumes g: "good R w" and p: "heap w a = Some (ObjDB p)"
  shows "n_snapshots p = int (card (snapshots_of w a))" and "n_iterators p = int (card (iterators_of w a))"
    and "db_refcnt p = R a + card (snapshots_of w a) + card (iterators_of w a)" and "0 < db_refcnt p"
proof -
  have o: "owned R (shape_of w)" and x: "objs (shape_of w) a = Some (pobj_of (ObjDB p))"
    using g p by (simp_all add: good_def)
  note c = owned_obj [OF o x]
  show "n_snapshots p = int (card (snapshots_of w a))" "n_iterators p = int (card (iterators_of w a))" "0 < db_refcnt p"
    using c(2) c(4) [of T_Snapshot] c(4) [of T_Iter] by (simp_all add: dependents_by_type db_counts_def)
  have "finite (snapshots_of w a)" "finite (iterators_of w a)" "snapshots_of w a \<inter> iterators_of w a = {}"
    using owned_holders_finite [OF o, of a] unfolding dependents_by_type [symmetric]
    by (auto simp: dependents_def)
  with c(3) show "db_refcnt p = R a + card (snapshots_of w a) + card (iterators_of w a)"
    by (simp add: holders_split card_Un_disjoint)
qed

lemma good_dependent:
  assumes g: "good R w" and x: "objs (shape_of w) b = Some x" "po_db x = Some a"
  obtains p h k where "heap w a = Some (ObjDB p)" "db_db p = Some h" "dbs w h \<noteq> None"
    "po_owns x = Some k" "owner w k = Some h"
proof -
  have o: "owned R (shape_of w)" using g by (simp add: good_def)
  obtain y h k where y: "objs (shape_of w) a = Some y" "po_owns y = Some (CDB h)" "po_owns x = Some k" "own (shape_of w) k = Some h"
    using owned_link [OF o x] by metis
  have "own (shape_of w) (CDB h) \<noteq> None" by (rule owned_owns(1) [OF o y(1,2)])
  then have d: "dbs w h \<noteq> None" by (auto split: if_splits)
  obtain ob where ob: "heap w a = Some ob" "pobj_of ob = y" using y(1) by auto
  with y(2) obtain p where "ob = ObjDB p" "db_db p = Some h" by (cases ob) auto
  with ob d y that show thesis by simp
qed

section \<open>Dropping what the program holds\<close>

text \<open>The destructors never call \<open>abort()\<close>.\<close>

definition no_abort :: "('w, 'a) py \<Rightarrow> bool" where
  "no_abort m \<longleftrightarrow> (\<forall>w. fst (m w) \<noteq> Crash Abort)"

lemma no_abort_bind: "no_abort m \<Longrightarrow> (\<And>x. no_abort (f x)) \<Longrightarrow> no_abort (py_bind m f)"
  by (auto simp: no_abort_def py_bind_def split: prod.split outcome.split) (metis fst_conv)+

lemma no_abort_basic:
  "no_abort (py_ret x)" "no_abort (py_get g)" "no_abort (py_modify h)" "no_abort (deref q)"
  "no_abort (py_crash UseAfterFree)" "no_abort (get_db a)" "no_abort (set_db a p)" "no_abort (get_snapshot a)"
  "no_abort (set_snapshot a s)" "no_abort (get_iter a)" "no_abort (set_iter a i)" "no_abort (get_batch a)"
  "no_abort (set_batch a b)" "no_abort (free_object a)" "no_abort (delete_db ldb d)" "no_abort (delete_it t)"
  "no_abort (call_db k F)" "no_abort (delete_comparator c)"
  by (auto simp: no_abort_def py_simps deref_def get_db_def set_db_def get_snapshot_def set_snapshot_def get_iter_def
      set_iter_def get_batch_def set_batch_def free_object_def delete_db_def delete_it_def call_db_def
      delete_comparator_def split: option.split pyobject.split prod.split comparator.split)

lemma no_abort_DECREF: "no_abort (Py_DECREF ldb a)"
  unfolding Py_DECREF_def Py_DECREF_db_def PyLevelDB_dealloc_def PyLevelDBSnapshot_dealloc_def
    PyWriteBatch_dealloc_def PyLevelDBIter_dealloc_def PyLevelDBIter_clean_def Py_XDECREF_db_def release_snapshot_def
  by (intro no_abort_bind no_abort_basic allI
        | split option.split | split pyobject.split | split prod.split | split if_split | intro conjI impI)+

lemma good_nothing:
  assumes "good (\<lambda>_. 0) w"
  shows "heap w = Map.empty \<and> dbs w = Map.empty \<and> its w = Map.empty \<and> sns w = Map.empty"
proof -
  have o: "owned (\<lambda>_. 0) (shape_of w)" using assms by (simp add: good_def)
  have "heap w a = None" for a using owned_zero(1) [OF o, of a] by simp
  moreover have "dbs w h = None" "its w h = None" "sns w h = None" for h
    using owned_zero(2) [OF o, of "CDB h"] owned_zero(2) [OF o, of "CIter h"] owned_zero(2) [OF o, of "CSnapshot h"]
    by (auto split: if_splits)
  ultimately show ?thesis by auto
qed

lemma Decref_step:
  assumes g: "good R w" and r: "0 < R a"
  shows "\<exists>q w'. run_call py ldb (Decref a) w = (Ret q, w') \<and> good (R(a := R a - 1)) w'"
proof -
  obtain q w' where run: "run_call py ldb (Decref a) w = (q, w')" by fastforce
  have "safe (view (shape_of w)) (run_call py ldb (Decref a)) (\<lambda>_. good (refs_after (Decref a) q R)) (\<lambda>_. False)"
    by (rule count_good [OF g]) (simp_all add: r counts_def)
  note s = safeD [OF this, of w]
  have "no_abort (dropping (Py_DECREF ldb a))"
    unfolding dropping_def by (intro no_abort_bind no_abort_DECREF no_abort_basic)
  then have "q \<noteq> Crash Abort" using run by (auto simp: no_abort_def dest: spec [of _ w])
  with s run show ?thesis by (cases q) (auto simp: seen_def refs_after_def)
qed

lemma runs_Decref:
  "good R w \<Longrightarrow> (\<And>a. count_list as a = R a) \<Longrightarrow>
   \<exists>w'. runs py ldb (map Decref as) R w = Some (\<lambda>_. 0, w') \<and> good (\<lambda>_. 0) w'"
proof (induction as arbitrary: R w)
  case Nil
  then have "R = (\<lambda>_. 0)" by (intro ext) (metis count_list.simps(1))
  with Nil show ?case by simp
next
  case (Cons a as)
  have r: "0 < R a" using Cons.prems(2) [of a] by simp
  have c: "count_list as b = (R(a := R a - 1)) b" for b using Cons.prems(2) [of b] by (auto split: if_splits)
  obtain q w1 where w1: "run_call py ldb (Decref a) w = (Ret q, w1)" "good (R(a := R a - 1)) w1"
    using Decref_step [OF Cons.prems(1) r] by blast
  obtain w' where "runs py ldb (map Decref as) (R(a := R a - 1)) w1 = Some (\<lambda>_. 0, w')" "good (\<lambda>_. 0) w'"
    using Cons.IH [OF w1(2) c] by blast
  with w1(1) r show ?case by (simp add: refs_after_def del: One_nat_def)
qed

end
