(* ===== verification/LifecycleProps.thy ===== *)
theory LifecycleProps
  imports LifecycleSafety
begin

text \<open>
  Properties of the programs that use the extension, and an example program.
\<close>

section \<open>Example\<close>

lemma demo_parse: "parse_respects_types demo_py"
proof -
  have O: "conv_unit CHR ''O'' v = Some (P_obj v)" for v by (cases v) simp_all
  have ty: "has_type t v \<Longrightarrow> t \<noteq> T_bool \<Longrightarrow> \<exists>a. v = PyObj t a" for t v by (cases v; cases t) auto
  have kw: "map_of kws k = Some v \<Longrightarrow> v \<in> set (map snd kws)" for kws :: "(string \<times> pyval) list" and k v
    by (force dest: map_of_SomeD)
  show ?thesis
    unfolding parse_respects_types_def
  proof (intro allI impI, goal_cases)
    case (1 fmt ts kws args ps)
    then obtain x ps' where x: "ps = Some (P_obj x) # ps'" "has_type (hd ts) x"
      "posargs args \<noteq> [] \<and> x = hd (posargs args) \<or> map_of (kwargs args) (if kws = [] then [] else hd kws) = Some x"
      by (auto simp: demo_py_def Let_def O split: if_splits option.splits)
    then have "x \<in> arg_values args" by (auto simp: arg_values_def dest: kw)
    with x ty [of "hd ts" x] 1(2) show ?case by (auto simp: arg_simps)
  qed
qed

definition empty_world :: "(memdb, mem_it, entry list, mem_fs) world" where
  "empty_world =
     \<lparr>heap = Map.empty, next_addr = 0, dbs = Map.empty, its = Map.empty, sns = Map.empty,
      next_handle = 0, fsys = [], exports = 0, foreign = (\<lambda>_. 0), alloc_fail = []\<rparr>"

lemma reachable_empty: "reachable py mem_ldb (\<lambda>_. 0) empty_world"
  by (rule reachable.start) (simp add: initial_def empty_world_def)

definition no_args :: pyargs where
  "no_args = \<lparr>posargs = [], kwargs = []\<rparr>"

definition create_args :: pyargs where
  "create_args = \<lparr>posargs = [PyUnicode [120]], kwargs = [(''create_if_missing'', PyBool True)]\<rparr>"


definition db_arg :: "addr \<Rightarrow> pyargs" where
  "db_arg a = \<lparr>posargs = [PyObj T_LevelDB a], kwargs = []\<rparr>"

definition put_args :: pyargs where
  "put_args = \<lparr>posargs = [PyBytes [97], PyBytes [1]], kwargs = []\<rparr>"

text \<open>A database with an entry, a snapshot of it and an iterator; the program holds no reference on the database itself.\<close>

definition demo_calls :: "call list" where
  "demo_calls = [NewDB create_args, Put 0 put_args, NewSnapshot (db_arg 0), RangeIter 0 no_args, Decref 0]"

definition demo_end :: "(addr \<Rightarrow> nat) \<times> (memdb, mem_it, entry list, mem_fs) world" where
  "demo_end = the (runs demo_py mem_ldb demo_calls (\<lambda>_. 0) empty_world)"

lemma demo_runs: "runs demo_py mem_ldb demo_calls (\<lambda>_. 0) empty_world = Some demo_end"
proof -
  have "runs demo_py mem_ldb demo_calls (\<lambda>_. 0) empty_world \<noteq> None" by code_simp
  then show ?thesis by (auto simp: demo_end_def)
qed

lemma demo_reachable: "reachable demo_py mem_ldb (fst demo_end) (snd demo_end)"
  by (rule runs_reachable [OF _ reachable_empty, where cs = demo_calls]) (simp add: demo_runs)

lemma demo_outcomes:
  "outcomes demo_py mem_ldb demo_calls empty_world = [Ret (Some 0), Ret None, Ret (Some 1), Ret (Some 2), Ret None]"
  by code_simp

lemma demo_refs: "fst demo_end a = (if a = 1 \<or> a = 2 then 1 else 0)"
proof -
  have "fst demo_end = refs_of (zip demo_calls (outcomes demo_py mem_ldb demo_calls empty_world)) (\<lambda>_. 0)"
    by (rule runs_refs [where w' = "snd demo_end"]) (simp add: demo_runs)
  then show ?thesis unfolding demo_outcomes
    by (simp add: demo_calls_def refs_of_def refs_after_def add_ref_def)
qed

section \<open>Properties\<close>

text \<open>C2: memory safety. From no objects, through any sequence of calls of the extension, constructors called again on existing objects
  included, that respects the rules of use (a database is used while it is open; \<open>__init__\<close> is called again on a database only while it
  has no snapshots and iterators; a snapshot is constructed, or initialised again, with an open database), whatever the other arguments
  are, whichever calls fail and whichever allocations fail, a further permitted call follows no NULL pointer, uses no deleted object, and
  reads no iterator that is not valid.\<close>

theorem permitted_call_safe:
  assumes "parse_respects_types py" and "reachable py ldb R w" and "permitted py c R w"
    and "run_call py ldb c w = (r, w')"
  shows "r \<notin> {Crash NullDeref, Crash UseAfterFree, Crash InvalidIterator}"
  using call_step [OF assms(1) reachable_good [OF assms(1,2)] assms(3,4)] by auto

theorem permitted_call_safe_witness:
  "fst (run_call demo_py mem_ldb (IterNext 2) (snd demo_end)) \<notin> {Crash NullDeref, Crash UseAfterFree, Crash InvalidIterator}"
proof (rule permitted_call_safe [OF demo_parse demo_reachable])
  show "permitted demo_py (IterNext 2) (fst demo_end) (snd demo_end)"
    unfolding demo_end_def by code_simp
  show "run_call demo_py mem_ldb (IterNext 2) (snd demo_end) =
    (fst (run_call demo_py mem_ldb (IterNext 2) (snd demo_end)), snd (run_call demo_py mem_ldb (IterNext 2) (snd demo_end)))"
    by simp
qed

text \<open>C9: reference counts. In every reachable state \<open>n_snapshots\<close> of a database object is the number of
  snapshot objects that refer to it, \<open>n_iterators\<close> the number of iterator objects that do, and its reference count is what the program
  holds on it and one for every one of them; the count of a live object is not zero.\<close>

theorem database_counts_exact:
  assumes "parse_respects_types py" and "reachable py ldb R w" and "heap w a = Some (ObjDB p)"
  shows "n_snapshots p = int (card (snapshots_of w a)) \<and> n_iterators p = int (card (iterators_of w a)) \<and>
    db_refcnt p = R a + card (snapshots_of w a) + card (iterators_of w a) \<and> 0 < db_refcnt p"
  using good_counts [OF reachable_good [OF assms(1,2)] assms(3)] by blast

theorem database_counts_exact_witness:
  "\<exists>p. heap (snd demo_end) 0 = Some (ObjDB p) \<and> db_refcnt p = 2 \<and>
     card (snapshots_of (snd demo_end) 0) = 1 \<and> card (iterators_of (snd demo_end) 0) = 1"
proof -
  have "case heap (snd demo_end) 0 of Some (ObjDB p) \<Rightarrow> n_snapshots p = 1 \<and> n_iterators p = 1 | _ \<Rightarrow> False"
    unfolding demo_end_def by code_simp
  then obtain p where p: "heap (snd demo_end) 0 = Some (ObjDB p)" "n_snapshots p = 1" "n_iterators p = 1"
    by (auto split: option.splits pyobject.splits)
  with database_counts_exact [OF demo_parse demo_reachable p(1)] show ?thesis by (simp add: demo_refs)
qed

text \<open>C8: dependents keep their database open. In every reachable state a snapshot object owns a live snapshot of
  the open database of the object it refers to; an iterator object that refers to a database owns a live iterator of that open
  database, and otherwise has none.\<close>

theorem dependents_keep_database:
  assumes "parse_respects_types py" and "reachable py ldb R w"
  shows "(heap w b = Some (ObjSnapshot s) \<longrightarrow>
      (\<exists>a p h k v. sn_db s = Some a \<and> heap w a = Some (ObjDB p) \<and> db_db p = Some h \<and> dbs w h \<noteq> None \<and>
         sn_snapshot s = Some k \<and> sns w k = Some (h, v))) \<and>
    (heap w b = Some (ObjIter i) \<longrightarrow> it_iterator i \<noteq> None \<longrightarrow>
      (\<exists>a p h k x. it_ref i = Some a \<and> heap w a = Some (ObjDB p) \<and> db_db p = Some h \<and> dbs w h \<noteq> None \<and>
         it_iterator i = Some k \<and> its w k = Some (h, x)))"
proof (intro conjI impI)
  have g: "good R w" by (rule reachable_good [OF assms])
  show "\<exists>a p h k v. sn_db s = Some a \<and> heap w a = Some (ObjDB p) \<and> db_db p = Some h \<and> dbs w h \<noteq> None \<and>
         sn_snapshot s = Some k \<and> sns w k = Some (h, v)" if s: "heap w b = Some (ObjSnapshot s)"
  proof -
    have x: "objs (shape_of w) b = Some (pobj_of (ObjSnapshot s))" using s by simp
    have "sn_db s \<noteq> None" using goodS_sane [of R "shape_of w", OF _ x] g by (simp add: good_def goodS_def)
    then obtain a where a: "sn_db s = Some a" by blast
    show ?thesis by (rule good_dependent [OF g x, of a]) (use a in auto)
  qed
  show "\<exists>a p h k x. it_ref i = Some a \<and> heap w a = Some (ObjDB p) \<and> db_db p = Some h \<and> dbs w h \<noteq> None \<and>
         it_iterator i = Some k \<and> its w k = Some (h, x)" if i: "heap w b = Some (ObjIter i)" "it_iterator i \<noteq> None"
  proof -
    have x: "objs (shape_of w) b = Some (pobj_of (ObjIter i))" using i by simp
    have "it_ref i \<noteq> None" using goodS_sane [of R "shape_of w", OF _ x] g i by (auto simp: good_def goodS_def)
    then obtain a where a: "it_ref i = Some a" by blast
    show ?thesis by (rule good_dependent [OF g x, of a]) (use a i in auto)
  qed
qed

theorem dependents_keep_database_witness:
  "\<exists>s k v. heap (snd demo_end) 1 = Some (ObjSnapshot s) \<and> sn_snapshot s = Some k \<and> sns (snd demo_end) k = Some (0, v)"
proof -
  have "case heap (snd demo_end) 1 of Some (ObjSnapshot s) \<Rightarrow> sn_db s = Some 0 | _ \<Rightarrow> False"
    unfolding demo_end_def by code_simp
  then obtain s where s: "heap (snd demo_end) 1 = Some (ObjSnapshot s)" "sn_db s = Some 0"
    by (auto split: option.splits pyobject.splits)
  have "case heap (snd demo_end) 0 of Some (ObjDB p) \<Rightarrow> db_db p = Some 0 | _ \<Rightarrow> False"
    unfolding demo_end_def by code_simp
  then have "heap (snd demo_end) 0 = Some (ObjDB p) \<Longrightarrow> db_db p = Some 0" for p by simp
  with dependents_keep_database [OF demo_parse demo_reachable, of 1 s] s show ?thesis by fastforce
qed

text \<open>C7: no leaks, and shutdown. Once the program has dropped, in any order, all the references it holds in a reachable state, every
  drop has returned, and no object of the extension, no database, no iterator and no snapshot is left.\<close>

theorem shutdown_frees_everything:
  assumes "parse_respects_types py" and "reachable py ldb R w" and "\<And>a. count_list as a = R a"
  shows "\<exists>w'. runs py ldb (map Decref as) R w = Some (\<lambda>_. 0, w') \<and>
    heap w' = Map.empty \<and> dbs w' = Map.empty \<and> its w' = Map.empty \<and> sns w' = Map.empty"
  using runs_Decref [OF reachable_good [OF assms(1,2)] assms(3)] good_nothing by blast

theorem shutdown_frees_everything_witness:
  "\<exists>w'. runs demo_py mem_ldb [Decref 2, Decref 1] (fst demo_end) (snd demo_end) = Some (\<lambda>_. 0, w') \<and> dbs w' = Map.empty"
proof -
  have c: "count_list [2, 1] a = fst demo_end a" for a by (simp add: demo_refs)
  from shutdown_frees_everything [OF demo_parse demo_reachable c] show ?thesis unfolding list.map by blast
qed

end
