(* ===== verification/Misuse.thy ===== *)
theory Misuse
  imports LifecycleProps
begin

text \<open>
  Why the rules of use are needed: what the code does, for any library, program and reachable
  state, when one of them is broken.
\<close>

section \<open>A database that is not open\<close>

text \<open>The calls of the methods of the database object at \<open>a\<close>, with a batch that is alive for \<open>Write\<close>\<close>

fun calls_database :: "(addr \<Rightarrow> nat) \<Rightarrow> ('d, 'it, 'sn, 'fs) world \<Rightarrow> call \<Rightarrow> addr \<Rightarrow> bool" where
  "calls_database R w (Put a args) b = (a = b)"
| "calls_database R w (Get a args) b = (a = b)"
| "calls_database R w (Delete a args) b = (a = b)"
| "calls_database R w (Write a args) b = (a = b \<and> holds_args R w args)"
| "calls_database R w (GetStats a) b = (a = b)"
| "calls_database R w (CompactRange a args) b = (a = b)"
| "calls_database R w (RangeIter a args) b = (a = b)"
| "calls_database R w (CreateSnapshot a) b = (a = b)"
| "calls_database R w c b = False"

text \<open>Whether the arguments of such a call are accepted\<close>

definition bound_ok :: "py_api \<Rightarrow> pyval \<Rightarrow> bool" where
  "bound_ok py v \<longleftrightarrow> v = PyNone \<or> (case parse_one py v ''y*'' of Some [P_buf b] \<Rightarrow> True | _ \<Rightarrow> False)"

definition bounds_ok :: "py_api \<Rightarrow> parg option list option \<Rightarrow> bool" where
  "bounds_ok py q \<longleftrightarrow>
     (case q of None \<Rightarrow> False | Some ps \<Rightarrow> bound_ok py (arg_obj ps 0 PyNone) \<and> bound_ok py (arg_obj ps 1 PyNone))"

fun arguments_ok :: "py_api \<Rightarrow> call \<Rightarrow> bool" where
  "arguments_ok py (Put a args) =
     (parse_tuple py ''y*y*|O!'' [T_bool] [''key'', ''value'', ''sync''] args \<noteq> None)"
| "arguments_ok py (Get a args) =
     (parse_tuple py ''y*|O!O!O'' [T_bool, T_bool] [''key'', ''verify_checksums'', ''fill_cache'', ''default''] args \<noteq> None)"
| "arguments_ok py (Delete a args) = (parse_tuple py ''y*|O!'' [T_bool] [''key'', ''sync''] args \<noteq> None)"
| "arguments_ok py (Write a args) =
     (parse_tuple py ''O!|O!'' [T_WriteBatch, T_bool] [''write_batch'', ''sync''] args \<noteq> None)"
| "arguments_ok py (CompactRange a args) = bounds_ok py (parse_tuple py ''|OO'' [] [''start'', ''end''] args)"
| "arguments_ok py (RangeIter a args) =
     bounds_ok py (parse_tuple py ''|OOO!O!O!O!'' [T_bool, T_bool, T_bool, T_bool] range_kwlist args)"
| "arguments_ok py c = True"

text \<open>The object stays as it is, without a database; a computation then has one outcome.\<close>

definition unopened :: "addr \<Rightarrow> ('d, 'it, 'sn, 'fs) world \<Rightarrow> bool" where
  "unopened a w \<longleftrightarrow> (\<exists>p. heap w a = Some (ObjDB p) \<and> db_db p = None)"

definition ends_in :: "addr \<Rightarrow> (('d, 'it, 'sn, 'fs) world, 'a) py \<Rightarrow> 'a outcome \<Rightarrow> bool" where
  "ends_in a m r \<longleftrightarrow> (\<forall>w. unopened a w \<longrightarrow> fst (m w) = r)"

lemma ends_with_db: "ends_in a (py_bind (with_db a f) k) (Crash NullDeref)"
  by (auto simp: ends_in_def unopened_def with_db_def py_simps get_db_def deref_def)

lemma ends_get_db: "(\<And>p. db_db p = None \<Longrightarrow> ends_in a (k p) r) \<Longrightarrow> ends_in a (py_bind (get_db a) k) r"
  by (auto simp: ends_in_def unopened_def py_simps get_db_def)

lemma ends_deref: "ends_in a (py_bind (deref None) k) (Crash NullDeref)"
  by (simp add: ends_in_def deref_def py_simps)

lemma ends_parse:
  assumes "parse_tuple py fmt ts kws args \<noteq> None \<Longrightarrow> ends_in a (k (the (parse_tuple py fmt ts kws args))) r"
    and "parse_tuple py fmt ts kws args = None \<Longrightarrow> r = Raise TypeError"
  shows "ends_in a (py_bind (PyArg_ParseTupleAndKeywords py fmt ts kws args) k) r"
  using assms
  by (cases "parse_tuple py fmt ts kws args")
    (auto simp: ends_in_def unopened_def py_bind_def PyArg_ParseTupleAndKeywords_def)

lemma ends_bound:
  assumes "bound_ok py v \<Longrightarrow> (\<And>x. ends_in a (k x) r)" and "\<not> bound_ok py v \<Longrightarrow> r = Raise TypeError"
  shows "ends_in a (py_bind (if v \<noteq> PyNone then PyArg_Parse_buffer py v else py_ret z) k) r"
proof (cases "bound_ok py v")
  case True
  then show ?thesis using assms(1) [OF True]
    by (auto simp: ends_in_def unopened_def bound_ok_def py_simps py_bind_def PyArg_Parse_buffer_def
        split: option.splits list.splits parg.splits)
next
  case False
  then show ?thesis using assms(2) [OF False]
    by (auto simp: ends_in_def bound_ok_def py_simps py_bind_def PyArg_Parse_buffer_def
        split: option.splits list.splits parg.splits)
qed

lemma ends_release: "(\<And>u. ends_in a (k u) r) \<Longrightarrow>
    ends_in a (py_bind (if b then PY_LEVELDB_RELEASE_BUFFER else py_ret ()) k) r"
  by (auto simp: ends_in_def unopened_def py_simps PY_LEVELDB_RELEASE_BUFFER_def)

lemma ends_bound_some:
  assumes "bound_ok py v \<Longrightarrow> (\<And>x. ends_in a (k x) r)" and "\<not> bound_ok py v \<Longrightarrow> r = Raise TypeError"
  shows "ends_in a (py_bind (if v \<noteq> PyNone then py_bind (PyArg_Parse_buffer py v) (\<lambda>x. py_ret (Some x)) else py_ret None) k) r"
proof (cases "bound_ok py v")
  case True
  then show ?thesis using assms(1) [OF True]
    by (auto simp: ends_in_def unopened_def bound_ok_def py_simps py_bind_def PyArg_Parse_buffer_def
        split: option.splits list.splits parg.splits)
next
  case False
  then show ?thesis using assms(2) [OF False]
    by (auto simp: ends_in_def bound_ok_def py_simps py_bind_def PyArg_Parse_buffer_def
        split: option.splits list.splits parg.splits)
qed

lemma ends_no_database: "ends_in a (py_bind (get_db a) (\<lambda>p. py_bind (deref (db_db p)) (k p))) (Crash NullDeref)"
  by (rule ends_get_db) (simp add: ends_deref)

lemma ends_no_snapshot: "ends_in a (k None) r \<Longrightarrow> ends_in a (py_bind (read_snapshot h None) k) r"
  by (simp add: ends_in_def read_snapshot_def py_bind_def py_ret_def)

lemmas ends_rules = ends_with_db ends_no_database ends_get_db ends_no_snapshot ends_deref ends_parse ends_bound ends_bound_some ends_release

lemma unopened_call:
  assumes py: "parse_respects_types py" and u: "unopened a w" and c: "calls_database R w c a"
  shows "fst (run_call py ldb c w) = (if arguments_ok py c then Crash NullDeref else Raise TypeError)"
proof -
  let ?r = "if arguments_ok py c then Crash NullDeref else Raise TypeError"
  have run: "ends_in a (run_call py ldb c) ?r" if "\<And>a args. c \<noteq> Write a args"
  proof (cases c)
    case (Put b args)
    with c show ?thesis by (simp add: dropping_def PyLevelDB_Put_def py_bind_assoc Let_def) (intro conjI impI ends_rules; simp)
  next
    case (Get b args)
    with c show ?thesis by (simp add: dropping_def PyLevelDB_Get_def PyLevelDB_Get_with_def py_bind_assoc Let_def) (intro conjI impI ends_rules; simp add: ends_rules)
  next
    case (Delete b args)
    with c show ?thesis by (simp add: dropping_def PyLevelDB_Delete_def py_bind_assoc Let_def) (intro conjI impI ends_rules; simp)
  next
    case (GetStats b)
    with c show ?thesis by (simp add: dropping_def PyLevelDB_GetStatus_def py_bind_assoc ends_rules)
  next
    case (CreateSnapshot b)
    with c show ?thesis
      by (simp add: creating_def PyLevelDB_CreateSnapshot_def get_new_snapshot_def py_bind_assoc) (intro ends_rules; simp add: ends_rules)
  next
    case (CompactRange b args)
    with c show ?thesis
      by (simp add: dropping_def PyLevelDB_CompactRange_def py_bind_assoc Let_def)
        (intro conjI impI ends_rules; auto simp: bounds_ok_def)
  next
    case (RangeIter b args)
    with c show ?thesis
      by (simp add: creating_def PyLevelDB_RangeIter_def PyLevelDB_RangeIter_with_def new_iterator_def py_bind_assoc Let_def)
        (intro conjI impI ends_rules; auto simp: bounds_ok_def)
  qed (use c that in auto)
  show ?thesis
  proof (cases "\<exists>b args. c = Write b args")
    case False
    then show ?thesis using run u by (simp add: ends_in_def)
  next
    case True
    then obtain args where eq: "c = Write a args" and h: "holds_args R w args" using c by auto
    let ?q = "parse_tuple py ''O!|O!'' [T_WriteBatch, T_bool] [''write_batch'', ''sync''] args"
    show ?thesis
    proof (cases ?q)
      case None
      then show ?thesis by (simp add: eq dropping_def PyLevelDB_Write_def py_bind_def PyArg_ParseTupleAndKeywords_def)
    next
      case (Some ps)
      then have "parse_tuple py (''O!'' @ ''|O!'') [T_WriteBatch, T_bool] [''write_batch'', ''sync''] args = Some ps" by simp
      with py have "\<exists>b. arg_at ps 0 = Some (P_obj (PyObj T_WriteBatch b)) \<and> PyObj T_WriteBatch b \<in> arg_values args"
        unfolding parse_respects_types_def by fastforce
      then obtain b where b: "arg_obj ps 0 PyNone = PyObj T_WriteBatch b" "PyObj T_WriteBatch b \<in> arg_values args"
        by (auto simp: arg_obj_def)
      then obtain x where "objs (shape_of w) b = Some x" "po_type x = T_WriteBatch"
        using holds_args_objects [OF h] by (auto simp: arg_objects_def simp del: shape_sel)
      then obtain ob where ob: "heap w b = Some ob" "po_type (pobj_of ob) = T_WriteBatch" by auto
      then obtain B where B: "heap w b = Some (ObjBatch B)" by (cases ob) auto
      have gb: "get_batch b v = (Ret B, v)" if "heap v = heap w" for v :: "('a, 'b, 'c, 'd) world"
        using B that by (simp add: get_batch_def)
      have "unopened a (w\<lparr>exports := exports w + n\<rparr>)" for n using u by (simp add: unopened_def)
      note e = ends_with_db [unfolded ends_in_def, rule_format, OF this]
      show ?thesis using Some b(1)
        by (simp add: eq dropping_def PyLevelDB_Write_def py_bind_assoc Let_def)
          (simp add: py_bind_Ret [of "PyArg_ParseTupleAndKeywords py fmt ts kws args" for fmt ts kws] PyArg_ParseTupleAndKeywords_def
            py_bind_assoc py_bind_Ret [OF gb] e)
    qed
  qed
qed

section \<open>A database that is deleted under its dependents\<close>

definition live :: "('d, 'it, 'sn, 'fs) world \<Rightarrow> handle option \<Rightarrow> bool" where
  "live w q \<longleftrightarrow> (\<forall>k. q = Some k \<longrightarrow> dbs w k \<noteq> None)"

lemma live_simps [simp]: "live w None" "live w (Some k) \<longleftrightarrow> dbs w k \<noteq> None"
  "live (w\<lparr>heap := g\<rparr>) q = live w q" "live (w\<lparr>exports := e\<rparr>) q = live w q" "live (w\<lparr>foreign := f\<rparr>) q = live w q"
  "live (w\<lparr>fsys := fs\<rparr>) q = live w q" "live (w\<lparr>alloc_fail := al\<rparr>) q = live w q"
  by (simp_all add: live_def)

text \<open>
  The object at \<open>a\<close> has lost the database with the handle \<open>h\<close>; the LevelDB iterators and snapshots and the
  other objects are still what they were.
\<close>

definition lost ::
  "addr \<Rightarrow> handle \<Rightarrow> ('d, 'it, 'sn, 'fs) world \<Rightarrow> ('d, 'it, 'sn, 'fs) world \<Rightarrow> bool" where
  "lost a h v w \<longleftrightarrow>
     (\<exists>p. heap w a = Some (ObjDB p) \<and> live w (db_db p)) \<and>
     h < next_handle w \<and> dbs w h = None \<and> its w = its v \<and> sns w = sns v \<and> (\<forall>b. b \<noteq> a \<longrightarrow> heap w b = heap v b)"

lemma lost_get: "safe (lost a h v) (get_db a) (\<lambda>p w. lost a h v w \<and> heap w a = Some (ObjDB p)) (lost a h v)"
  by (auto simp: safe_def lost_def get_db_def)

lemma lost_set:
  "db_db p' = db_db p \<Longrightarrow> safe (\<lambda>w. lost a h v w \<and> heap w a = Some (ObjDB p)) (set_db a p') (\<lambda>_. lost a h v) (lost a h v)"
  by (auto simp: safe_def lost_def set_db_def py_modify_def)

lemma lost_set_new:
  "safe (\<lambda>w. lost a h v w \<and> live w (db_db p')) (set_db a p') (\<lambda>_. lost a h v) (lost a h v)"
  by (auto simp: safe_def lost_def set_db_def py_modify_def)

lemma lost_parse: "safe (lost a h v) (PyArg_ParseTupleAndKeywords py fmt ts kws args) (\<lambda>_. lost a h v) (lost a h v)"
  by (auto simp: safe_def lost_def PyArg_ParseTupleAndKeywords_def split: option.split)

lemma lost_comparator: "safe (lost a h v) (pyleveldb_get_comparator py c) (\<lambda>_. lost a h v) (lost a h v)"
  by (auto simp: safe_def lost_def pyleveldb_get_comparator_def py_simps py_bind_def
      split: option.split list.split parg.split pyval.split)

lemma lost_open:
  "safe (lost a h v) (open_db ldb opts dir)
     (\<lambda>(st, q) w. lost a h v w \<and> live w q) (lost a h v)"
  by (auto simp: safe_def lost_def open_db_def live_def split: prod.split option.splits)

text \<open>\<open>delete_all\<close> makes the object lose its database.\<close>

lemma delete_all_runs:
  assumes "heap w a = Some (ObjDB p)" and "live w (db_db p)"
    and "db_db p = Some h \<or> dbs w h = None" and "h < next_handle w" and "its w = its v" "sns w = sns v"
    and "\<forall>b. b \<noteq> a \<longrightarrow> heap w b = heap v b"
  shows "\<exists>w'. delete_all ldb a w = (Ret (), w') \<and> lost a h v w'"
proof -
  have get: "get_db a w = (Ret p, w)" using assms(1) by (simp add: get_db_def)
  obtain w1 where del: "delete_db ldb (db_db p) w = (Ret (), w1)" and w1: "heap w1 = heap w" "next_handle w1 = next_handle w"
    "its w1 = its w" "sns w1 = sns w" "dbs w1 h = None"
  proof (cases "db_db p")
    case None
    with assms(3) show thesis by (intro that [of w]) (simp_all add: delete_db_def)
  next
    case (Some k)
    with assms(2) obtain d where "dbs w k = Some d" by auto
    with Some assms(3) show thesis
      by (intro that [of "w\<lparr>dbs := (dbs w)(k := None), fsys := DB_Close ldb d (fsys w)\<rparr>"]) (auto simp: delete_db_def)
  qed
  obtain w2 where cmp: "delete_comparator (db_comparator p) w1 = (Ret (), w2)" and w2: "heap w2 = heap w1" "dbs w2 = dbs w1"
    "next_handle w2 = next_handle w1" "its w2 = its w1" "sns w2 = sns w1"
    by (cases "(db_comparator p, w1)") (fastforce simp: delete_comparator_def py_modify_def py_ret_def split: option.splits comparator.splits)
  let ?p = "p\<lparr>db_db := None, db_options := None, db_cache := None, db_comparator := None\<rparr>"
  let ?w = "w2\<lparr>heap := (heap w2)(a \<mapsto> ObjDB ?p)\<rparr>"
  have "delete_all ldb a w = (Ret (), ?w)"
    by (simp add: delete_all_def py_bind_def get del cmp set_db_def py_modify_def)
  moreover have "lost a h v ?w" using w1 w2 assms(4-7) by (simp add: lost_def)
  ultimately show ?thesis by blast
qed

lemma lost_delete_all: "safe (lost a h v) (delete_all ldb a) (\<lambda>_. lost a h v) (lost a h v)"
proof (rule safeI)
  fix w :: "('a, 'b, 'c, 'd) world"
  assume l: "lost a h v w"
  then obtain p where p: "heap w a = Some (ObjDB p)" "live w (db_db p)"
    unfolding lost_def by blast
  obtain w' where w': "delete_all ldb a w = (Ret (), w')" "lost a h v w'"
    using delete_all_runs [OF p, of h v] l unfolding lost_def by blast
  show "delete_all ldb a w = (Ret x, u) \<Longrightarrow> lost a h v u" "delete_all ldb a w = (Raise e, u) \<Longrightarrow> lost a h v u"
    "delete_all ldb a w = (Crash c, u) \<Longrightarrow> c = Abort" for x u e c
    using w' by simp_all
qed

lemma no_abort_init: "no_abort (PyLevelDB_init py ldb a args)"
proof -
  have more: "no_abort (PyArg_ParseTupleAndKeywords py fmt ts kws args)" "no_abort (pyleveldb_get_comparator py c)"
    "no_abort (open_db ldb opts dir)" "no_abort (py_raise e)" for fmt ts kws c opts dir e
    by (auto simp: no_abort_def PyArg_ParseTupleAndKeywords_def pyleveldb_get_comparator_def open_db_def py_simps py_bind_def
        split: option.split list.split parg.split pyval.split prod.split)
  show ?thesis
    unfolding PyLevelDB_init_def delete_all_def PyLevelDB_set_error_def Let_def
    by (intro no_abort_bind no_abort_basic more allI
        | split option.split | split prod.split | split if_split | intro conjI impI)+
qed

lemma init_loses:
  assumes p: "heap w a = Some (ObjDB p)" "db_db p = Some h" "dbs w h \<noteq> None" "h < next_handle w"
  shows "\<exists>r w'. PyLevelDB_init py ldb a args w = (r, w') \<and> (\<forall>f. r \<noteq> Crash f) \<and> lost a h w w'"
proof -
  obtain w1 where w1: "delete_all ldb a w = (Ret (), w1)" "lost a h w w1"
    using delete_all_runs [OF p(1), of h w ldb] p by auto
  have gd: "get_db a w = (Ret p, w)" using p(1) by (simp add: get_db_def)
  obtain rest where rest: "PyLevelDB_init py ldb a args = py_bind (get_db a) (\<lambda>p.
     py_bind (if db_db p \<noteq> None \<or> db_cache p \<noteq> None \<or> db_comparator p \<noteq> None \<or> db_options p \<noteq> None
              then delete_all ldb a else py_ret ()) (\<lambda>_. rest))"
    and ok: "safe (lost a h w) rest (\<lambda>_. lost a h w) (lost a h w)"
  proof (rule that, unfold PyLevelDB_init_def Let_def, rule refl, goal_cases)
    case 1
    show ?case
    proof (rule safe_bind [OF lost_parse], rule safe_if, rule safe_raise, assumption,
        rule safe_bind [OF lost_comparator], rule safe_bind [OF lost_get], rule safe_bind [OF lost_set], simp,
        rule safe_bind [OF lost_open], goal_cases)
      case (1 ps c q u r)
      obtain st k where r: "r = (st, k)" by fastforce
      let ?P = "\<lambda>w'. lost a h w w' \<and> live w' k"
      have get: "safe ?P (get_db a) (\<lambda>_. ?P) (lost a h w)"
        by (auto simp: safe_def lost_def get_db_def)
      have set: "safe ?P (set_db a (p'\<lparr>db_db := k\<rparr>)) (\<lambda>_. lost a h w) (lost a h w)" for p'
        using lost_set_new [of a h w "p'\<lparr>db_db := k\<rparr>"] by simp
      show ?case unfolding r prod.case
        by (rule safe_bind [OF get], rule safe_bind [OF set], rule safe_if, rule safe_bind [OF lost_delete_all],
            unfold PyLevelDB_set_error_def, rule safe_raise, assumption, rule safe_ret, assumption)
    qed
  qed
  obtain r w' where run: "PyLevelDB_init py ldb a args w = (r, w')" by fastforce
  have "rest w1 = (r, w')"
    using run unfolding rest by (simp add: py_bind_Ret [of "get_db a", OF gd] p(2) py_bind_Ret [of "delete_all ldb a", OF w1(1)])
  with safeD [OF ok w1(2)] have "(\<forall>f. r = Crash f \<longrightarrow> f = Abort) \<and> ((\<forall>f. r \<noteq> Crash f) \<longrightarrow> lost a h w w')"
    by (cases r) auto
  moreover have "r \<noteq> Crash Abort" using no_abort_init [of py ldb a args] run by (auto simp: no_abort_def dest: spec [of _ w])
  ultimately show ?thesis using run by auto
qed

text \<open>What the dependents then do\<close>

lemma lost_next:
  assumes l: "lost a h w w'" and p: "heap w a = Some (ObjDB p)"
    and i: "heap w b = Some (ObjIter i)" "it_ref i = Some a" "it_iterator i = Some k" and k: "its w k = Some (h, x)"
  shows "fst (run_call py ldb (IterNext b) w') = Crash UseAfterFree"
proof -
  have "b \<noteq> a" using p i(1) by auto
  then have "heap w' b = Some (ObjIter i)" "its w' k = Some (h, x)" "dbs w' h = None"
    using l i(1) k by (simp_all add: lost_def)
  with i(2,3) show ?thesis
    by (simp add: dropping_def PyLevelDBIter_next_def py_simps get_iter_def deref_def read_it_def)
qed

lemma lost_drop:
  assumes l: "lost a h w w'" and p: "heap w a = Some (ObjDB p)"
    and s: "heap w b = Some (ObjSnapshot s)" "sn_db s = Some a" "sn_snapshot s = Some k" "sn_refcnt s = 1"
    and k: "sns w k = Some (h, v)"
  shows "fst (run_call py ldb (Decref b) w') \<in> {Crash NullDeref, Crash UseAfterFree}"
proof -
  have "b \<noteq> a" using p s(1) by auto
  then have w: "heap w' b = Some (ObjSnapshot s)" "sns w' k = Some (h, v)" "dbs w' h = None"
    using l s(1) k by (simp_all add: lost_def)
  obtain q where q: "heap w' a = Some (ObjDB q)" using l unfolding lost_def by blast
  show ?thesis using w q s
    by (cases "db_db q")
      (auto simp: dropping_def Py_DECREF_def PyLevelDBSnapshot_dealloc_def release_snapshot_def py_bind_def py_get_def py_ret_def
        py_crash_def get_snapshot_def get_db_def deref_def call_db_def)
qed

lemma reinit_dependent:
  assumes g: "good R w" and x: "objs (shape_of w) b = Some x" "po_db x = Some a"
  obtains r w' p h k where "run_call py ldb (InitDB a args) w = (r, w')" "\<forall>f. r \<noteq> Crash f" "heap w a = Some (ObjDB p)"
    "lost a h w w'" "po_owns x = Some k" "owner w k = Some h"
proof -
  obtain p h k where p: "heap w a = Some (ObjDB p)" "db_db p = Some h" "dbs w h \<noteq> None" and k: "po_owns x = Some k" "owner w k = Some h"
    by (rule good_dependent [OF g x])
  have "owned R (shape_of w)" using g by (simp add: good_def)
  from owned_handle(1) [OF this, of "CDB h" h] p(3) have "h < next_handle w" by simp
  from init_loses [OF p this] obtain r w' where run: "PyLevelDB_init py ldb a args w = (r, w')" "\<forall>f. r \<noteq> Crash f" "lost a h w w'"
    by metis
  then obtain q where "run_call py ldb (InitDB a args) w = (q, w')" "\<forall>f. q \<noteq> Crash f"
    by (cases r) (auto simp: dropping_def py_bind_def py_ret_def)
  then show thesis by (rule that [OF _ _ p(1) run(3) k])
qed

lemma reinit_then_next:
  assumes g: "good R w" and i: "heap w b = Some (ObjIter i)" "it_ref i = Some a"
  shows "\<exists>r w'. run_call py ldb (InitDB a args) w = (r, w') \<and> (\<forall>f. r \<noteq> Crash f) \<and>
    fst (run_call py ldb (IterNext b) w') = Crash UseAfterFree"
proof -
  have x: "objs (shape_of w) b = Some (pobj_of (ObjIter i))" "po_db (pobj_of (ObjIter i)) = Some a" using i by simp_all
  obtain r w' p h k where run: "run_call py ldb (InitDB a args) w = (r, w')" "\<forall>f. r \<noteq> Crash f" "heap w a = Some (ObjDB p)"
    "lost a h w w'" and k: "po_owns (pobj_of (ObjIter i)) = Some k" "owner w k = Some h"
    by (rule reinit_dependent [OF g x])
  from k obtain ih y where "it_iterator i = Some ih" "its w ih = Some (h, y)" by auto
  from lost_next [OF run(4,3) i this] run(1,2) show ?thesis by blast
qed

lemma reinit_then_drop:
  assumes g: "good R w" and s: "heap w b = Some (ObjSnapshot s)" "sn_db s = Some a" "sn_refcnt s = 1"
  shows "\<exists>r w'. run_call py ldb (InitDB a args) w = (r, w') \<and> (\<forall>f. r \<noteq> Crash f) \<and>
    fst (run_call py ldb (Decref b) w') \<in> {Crash NullDeref, Crash UseAfterFree}"
proof -
  have x: "objs (shape_of w) b = Some (pobj_of (ObjSnapshot s))" "po_db (pobj_of (ObjSnapshot s)) = Some a" using s by simp_all
  obtain r w' p h k where run: "run_call py ldb (InitDB a args) w = (r, w')" "\<forall>f. r \<noteq> Crash f" "heap w a = Some (ObjDB p)"
    "lost a h w w'" and k: "po_owns (pobj_of (ObjSnapshot s)) = Some k" "owner w k = Some h"
    by (rule reinit_dependent [OF g x])
  from k obtain sh v where "sn_snapshot s = Some sh" "sns w sh = Some (h, v)" by auto
  from lost_drop [OF run(4,3) s(1,2) this(1) s(3) this(2)] run(1,2) show ?thesis by blast
qed

section \<open>A snapshot of nothing\<close>

lemma construct_refused:
  assumes "snapshot_arg py args = None"
  shows "fst (run_call py ldb (NewSnapshot args) w) =
    (if fst (py_alloc w) = Ret True then Crash NullDeref else Raise MemoryError)"
proof -
  obtain ok w1 where al: "py_alloc w = (Ret ok, w1)" by (cases "alloc_fail w") (auto simp: py_alloc_def)
  show ?thesis
  proof (cases ok)
    case False
    with al show ?thesis by (simp add: call_type_def PyLevelDBSnapshot_new_def py_bind_def py_ret_def py_raise_def)
  next
    case True
    let ?s = "\<lparr>sn_refcnt = 1, sn_db = None, sn_snapshot = None\<rparr>"
    obtain a v where new: "PyLevelDBSnapshot_new w = (Ret (Some a), v)" and v: "heap v a = Some (ObjSnapshot ?s)"
      using al True by (simp add: PyLevelDBSnapshot_new_def new_object_def py_bind_def py_ret_def)
    have same: "v\<lparr>heap := (heap v)(a \<mapsto> ObjSnapshot ?s)\<rparr> = v" using v by (simp add: fun_upd_idem)
    have init: "PyLevelDBSnapshot_init py ldb a args v =
      (case parse_tuple py ''O!'' [T_LevelDB] [''db''] args of
         None \<Rightarrow> (Raise TypeError, v)
       | Some ps \<Rightarrow> (Crash NullDeref, v\<lparr>exports := exports v + n_bufs ps\<rparr>))"
      using assms same
      by (auto simp: PyLevelDBSnapshot_init_def py_bind_def get_snapshot_def v set_snapshot_def py_ret_def py_modify_def
          PyArg_ParseTupleAndKeywords_def snapshot_arg_def py_crash_def split: option.splits pyval.splits pytype.splits)
    have "fst (Py_DECREF ldb a v) = Crash NullDeref"
      by (simp add: Py_DECREF_def PyLevelDBSnapshot_dealloc_def Py_DECREF_db_def py_bind_def py_get_def get_snapshot_def v
          py_ret_def deref_def py_crash_def)
    then obtain u where drop: "Py_DECREF ldb a v = (Crash NullDeref, u)" by (cases "Py_DECREF ldb a v") simp
    show ?thesis
      using al True
      by (cases "parse_tuple py ''O!'' [T_LevelDB] [''db''] args")
        (simp_all add: call_type_def py_bind_def new py_catch_def init drop)
  qed
qed

lemma no_abort_snapshot_init: "no_abort (PyLevelDBSnapshot_init py ldb b args)"
proof -
  have more: "no_abort (PyArg_ParseTupleAndKeywords py fmt ts kws args)" "no_abort (py_crash NullDeref)"
    for fmt ts kws
    by (auto simp: no_abort_def PyArg_ParseTupleAndKeywords_def py_crash_def split: option.split)
  show ?thesis
    unfolding PyLevelDBSnapshot_init_def get_new_snapshot_def release_snapshot_def Py_DECREF_db_def PyLevelDB_dealloc_def
      Py_INCREF_db_def
    by (intro no_abort_bind no_abort_basic more allI
        | split option.split | split prod.split | split if_split | split pyval.split | split pytype.split | intro conjI impI)+
qed

lemma reinit_refused:
  assumes g: "good R w" and s: "heap w b = Some (ObjSnapshot s)"
    and arg: "parse_tuple py ''O!'' [T_LevelDB] [''db''] args = None"
  shows "\<exists>e w'. run_call py ldb (InitSnapshot b args) w = (Raise e, w') \<and>
    fst (run_call py ldb (SnapshotGet b gargs) w') = Crash NullDeref"
proof -
  obtain r w' where run: "PyLevelDBSnapshot_init py ldb b args w = (r, w')" by fastforce
  have gS: "goodS R (shape_of w)" using g by (simp add: good_def goodS_def)
  have "safe (view (shape_of w)) (PyLevelDBSnapshot_init py ldb b args) (\<lambda>_ _. False)
      (\<lambda>w. \<exists>s. heap w b = Some (ObjSnapshot s) \<and> sn_db s = None)"
    by (rule InitSnapshot_refused [OF gS _ _ arg]) (use s in auto)
  note ok = safeD [OF this, of w]
  have "r \<noteq> Crash Abort" using no_abort_snapshot_init [of py ldb b args] run by (auto simp: no_abort_def dest: spec [of _ w])
  with ok run obtain e s' where e: "r = Raise e" "heap w' b = Some (ObjSnapshot s')" "sn_db s' = None"
    by (cases r) (auto simp: seen_def)
  have "run_call py ldb (InitSnapshot b args) w = (Raise e, w')"
    using run e(1) by (simp add: dropping_def py_bind_def)
  moreover have "fst (run_call py ldb (SnapshotGet b gargs) w') = Crash NullDeref"
    using e(2,3) by (simp add: dropping_def PyLevelDBSnapshot_Get_def py_bind_def get_snapshot_def deref_def py_crash_def)
  ultimately show ?thesis by blast
qed

section \<open>The rules are needed\<close>

text \<open>
  C16: each rule of use is needed, for any library, arguments and reachable state. A method of a database object that
  is not open follows a NULL pointer as soon as its arguments are accepted. \<open>__init__\<close> on a database
  that an iterator or a snapshot depends on returns or raises but deletes the database, and then the next step of
  the iterator, or the drop of the snapshot, uses it or follows a NULL pointer. A snapshot constructed with a wrong argument crashes when the new
  object is dropped, unless it could not even be allocated; and a snapshot initialised again with
  a wrong argument raises, but keeps NULL pointers that its next \<open>Get\<close> follows.
\<close>

theorem misuse_crashes:
  assumes "parse_respects_types py" and "reachable py ldb R w"
  shows "(heap w a = Some (ObjDB p) \<longrightarrow> db_db p = None \<longrightarrow> calls_database R w c a \<longrightarrow>
      fst (run_call py ldb c w) = (if arguments_ok py c then Crash NullDeref else Raise TypeError)) \<and>
    (heap w b = Some (ObjIter i) \<longrightarrow> it_ref i = Some a \<longrightarrow>
      (\<exists>r w'. run_call py ldb (InitDB a args) w = (r, w') \<and> (\<forall>f. r \<noteq> Crash f) \<and>
         fst (run_call py ldb (IterNext b) w') = Crash UseAfterFree)) \<and>
    (heap w b = Some (ObjSnapshot s) \<longrightarrow> sn_db s = Some a \<longrightarrow> sn_refcnt s = 1 \<longrightarrow>
      (\<exists>r w'. run_call py ldb (InitDB a args) w = (r, w') \<and> (\<forall>f. r \<noteq> Crash f) \<and>
         fst (run_call py ldb (Decref b) w') \<in> {Crash NullDeref, Crash UseAfterFree})) \<and>
    (snapshot_arg py args = None \<longrightarrow>
      fst (run_call py ldb (NewSnapshot args) w) =
        (if fst (py_alloc w) = Ret True then Crash NullDeref else Raise MemoryError)) \<and>
    (heap w b = Some (ObjSnapshot s) \<longrightarrow> parse_tuple py ''O!'' [T_LevelDB] [''db''] args = None \<longrightarrow>
      (\<exists>e w'. run_call py ldb (InitSnapshot b args) w = (Raise e, w') \<and>
         fst (run_call py ldb (SnapshotGet b gargs) w') = Crash NullDeref))"
proof (intro conjI impI)
  have g: "good R w" by (rule reachable_good [OF assms])
  show "fst (run_call py ldb c w) = (if arguments_ok py c then Crash NullDeref else Raise TypeError)"
    if "heap w a = Some (ObjDB p)" "db_db p = None" "calls_database R w c a"
    using that by (intro unopened_call [OF assms(1)]) (simp_all add: unopened_def)
  show "\<exists>r w'. run_call py ldb (InitDB a args) w = (r, w') \<and> (\<forall>f. r \<noteq> Crash f) \<and>
      fst (run_call py ldb (IterNext b) w') = Crash UseAfterFree" if "heap w b = Some (ObjIter i)" "it_ref i = Some a"
    by (rule reinit_then_next [OF g that])
  show "\<exists>r w'. run_call py ldb (InitDB a args) w = (r, w') \<and> (\<forall>f. r \<noteq> Crash f) \<and>
      fst (run_call py ldb (Decref b) w') \<in> {Crash NullDeref, Crash UseAfterFree}"
    if "heap w b = Some (ObjSnapshot s)" "sn_db s = Some a" "sn_refcnt s = 1"
    by (rule reinit_then_drop [OF g that])
  show "fst (run_call py ldb (NewSnapshot args) w) = (if fst (py_alloc w) = Ret True then Crash NullDeref else Raise MemoryError)"
    if "snapshot_arg py args = None"
    by (rule construct_refused [OF that])
  show "\<exists>e w'. run_call py ldb (InitSnapshot b args) w = (Raise e, w') \<and>
      fst (run_call py ldb (SnapshotGet b gargs) w') = Crash NullDeref"
    if "heap w b = Some (ObjSnapshot s)" "parse_tuple py ''O!'' [T_LevelDB] [''db''] args = None"
    by (rule reinit_refused [OF g that])
qed

text \<open>
  The database of the example lost under its iterator and its snapshot, an initialisation without an argument, and a database
  that could not be opened
\<close>

definition closed_end :: "(addr \<Rightarrow> nat) \<times> (memdb, mem_it, entry list, mem_fs) world" where
  "closed_end = the (runs demo_py mem_ldb [NewDB create_args, InitDB 0 no_args] (\<lambda>_. 0) empty_world)"

lemma closed_reachable: "reachable demo_py mem_ldb (fst closed_end) (snd closed_end)"
proof -
  have "runs demo_py mem_ldb [NewDB create_args, InitDB 0 no_args] (\<lambda>_. 0) empty_world \<noteq> None" by code_simp
  then have "runs demo_py mem_ldb [NewDB create_args, InitDB 0 no_args] (\<lambda>_. 0) empty_world = Some (fst closed_end, snd closed_end)"
    by (auto simp: closed_end_def)
  then show ?thesis by (rule runs_reachable [OF _ reachable_empty])
qed

theorem misuse_crashes_witness:
  "fst (run_call demo_py mem_ldb (Put 0 put_args) (snd closed_end)) = Crash NullDeref \<and>
   (\<exists>w'. fst (run_call demo_py mem_ldb (IterNext 2) w') = Crash UseAfterFree \<and>
      w' = snd (run_call demo_py mem_ldb (InitDB 0 create_args) (snd demo_end))) \<and>
   fst (run_call demo_py mem_ldb (Decref 1) (snd (run_call demo_py mem_ldb (InitDB 0 create_args) (snd demo_end))))
     \<in> {Crash NullDeref, Crash UseAfterFree} \<and>
   fst (run_call demo_py mem_ldb (NewSnapshot no_args) (snd demo_end)) = Crash NullDeref \<and>
   (\<exists>e w'. run_call demo_py mem_ldb (InitSnapshot 1 no_args) (snd demo_end) = (Raise e, w') \<and>
      fst (run_call demo_py mem_ldb (SnapshotGet 1 put_args) w') = Crash NullDeref)"
proof -
  have "case heap (snd closed_end) 0 of Some (ObjDB p) \<Rightarrow> db_db p = None | _ \<Rightarrow> False"
    unfolding closed_end_def by code_simp
  then obtain p where p: "heap (snd closed_end) 0 = Some (ObjDB p)" "db_db p = None"
    by (auto split: option.splits pyobject.splits)
  have "case heap (snd demo_end) 1 of Some (ObjSnapshot s) \<Rightarrow> sn_db s = Some 0 \<and> sn_refcnt s = 1 | _ \<Rightarrow> False"
    unfolding demo_end_def by code_simp
  then obtain s where s: "heap (snd demo_end) 1 = Some (ObjSnapshot s)" "sn_db s = Some 0" "sn_refcnt s = 1"
    by (auto split: option.splits pyobject.splits)
  have "case heap (snd demo_end) 2 of Some (ObjIter i) \<Rightarrow> it_ref i = Some 0 | _ \<Rightarrow> False"
    unfolding demo_end_def by code_simp
  then obtain i where i: "heap (snd demo_end) 2 = Some (ObjIter i)" "it_ref i = Some 0"
    by (auto split: option.splits pyobject.splits)
  have ok: "arguments_ok demo_py (Put 0 put_args)" "fst (py_alloc (snd demo_end)) = Ret True"
    "snapshot_arg demo_py no_args = None" "parse_tuple demo_py ''O!'' [T_LevelDB] [''db''] no_args = None"
    unfolding demo_end_def by code_simp+
  note closed = misuse_crashes [OF demo_parse closed_reachable, THEN conjunct1, rule_format, OF p, of "Put 0 put_args"]
  note open_ = misuse_crashes [OF demo_parse demo_reachable, THEN conjunct2]
  show ?thesis
    using closed ok(1) open_ [THEN conjunct1, rule_format, OF i, of create_args]
      open_ [THEN conjunct2, THEN conjunct1, rule_format, OF s, of create_args]
      open_ [THEN conjunct2, THEN conjunct2, THEN conjunct1, rule_format, OF ok(3)] ok(2)
      open_ [THEN conjunct2, THEN conjunct2, THEN conjunct2, rule_format, OF s(1) ok(4), of put_args]
    by (simp del: run_call.simps) (metis snd_conv)
qed

end
