(* ===== verification/Threads.thy ===== *)
theory Threads
  imports LifecycleProps
begin

text \<open>
  Two threads of a program that share an iterator object. \<open>PyLevelDBIter_clean\<close> gives up the
  interpreter lock while it deletes the LevelDB iterator, before it clears the fields, so a call of
  \<open>next\<close> at the end of the iteration is three segments between which other threads run.
\<close>

section \<open>The segments of a call\<close>

text \<open>\<open>PyLevelDBIter_next\<close> up to its decision to clean up\<close>

definition iter_finished ::
  "py_api \<Rightarrow> ('d, 'it, 'sn, 'fs) leveldb \<Rightarrow> addr \<Rightarrow> (('d, 'it, 'sn, 'fs) world, bool) py" where
  "iter_finished py ldb iter =
     py_bind (get_iter iter) (\<lambda>i.
     if it_ref i = None then py_ret True
     else
       py_bind (deref (it_iterator i)) (\<lambda>h.
       py_bind (read_it h (It_Valid ldb)) (\<lambda>valid.
       if \<not> valid then py_ret True else iter_past_bound py ldb i h)))"

definition clean_enter :: "addr \<Rightarrow> (('d, 'it, 'sn, 'fs) world, unit) py" where
  "clean_enter iter =
     py_bind (get_iter iter) (\<lambda>i.
       case it_db i of
         Some db \<Rightarrow> py_bind (get_db db) (\<lambda>p. set_db db (p\<lparr>n_iterators := n_iterators p - 1\<rparr>))
       | None \<Rightarrow> py_ret ())"

definition clean_delete :: "addr \<Rightarrow> (('d, 'it, 'sn, 'fs) world, unit) py" where
  "clean_delete iter = py_bind (get_iter iter) (\<lambda>i. delete_it (it_iterator i))"

definition clean_leave :: "('d, 'it, 'sn, 'fs) leveldb \<Rightarrow> addr \<Rightarrow> (('d, 'it, 'sn, 'fs) world, unit) py" where
  "clean_leave ldb iter =
     py_bind (get_iter iter) (\<lambda>i.
     py_bind (Py_XDECREF_db ldb (it_ref i)) (\<lambda>_.
     set_iter iter (i\<lparr>it_ref := None, it_db := None, it_iterator := None, it_bound := None,
       it_include_value := False\<rparr>)))"

text \<open>Where a thread is in its call of \<open>next\<close>\<close>

datatype place = At_next | At_delete | At_leave | Returned "pyval option" | Raised pyexc | Lost fault

definition arrive :: "('a \<Rightarrow> place) \<Rightarrow> 'a outcome \<times> 'w \<Rightarrow> place \<times> 'w" where
  "arrive f = (\<lambda>(r, w). (case r of Ret x \<Rightarrow> f x | Raise e \<Rightarrow> Raised e | Crash c \<Rightarrow> Lost c, w))"

fun thread_step ::
  "py_api \<Rightarrow> ('d, 'it, 'sn, 'fs) leveldb \<Rightarrow> addr \<Rightarrow> place \<Rightarrow> ('d, 'it, 'sn, 'fs) world \<Rightarrow>
    place \<times> ('d, 'it, 'sn, 'fs) world" where
  "thread_step py ldb iter At_next w =
     (case iter_finished py ldb iter w of
        (Ret True, w') \<Rightarrow> arrive (\<lambda>_. At_delete) (clean_enter iter w')
      | _ \<Rightarrow> arrive Returned (PyLevelDBIter_next py ldb iter w))"
| "thread_step py ldb iter At_delete w = arrive (\<lambda>_. At_leave) (clean_delete iter w)"
| "thread_step py ldb iter At_leave w = arrive (\<lambda>_. Returned None) (clean_leave ldb iter w)"
| "thread_step py ldb iter finished w = (finished, w)"

text \<open>A schedule names the thread of each step; all threads work on the iterator \<open>iter\<close>.\<close>

fun run_schedule ::
  "py_api \<Rightarrow> ('d, 'it, 'sn, 'fs) leveldb \<Rightarrow> addr \<Rightarrow> nat list \<Rightarrow> place list \<Rightarrow> ('d, 'it, 'sn, 'fs) world \<Rightarrow>
    place list \<times> ('d, 'it, 'sn, 'fs) world" where
  "run_schedule py ldb iter [] ps w = (ps, w)"
| "run_schedule py ldb iter (t # ts) ps w =
     (case thread_step py ldb iter (ps ! t) w of (p, w) \<Rightarrow> run_schedule py ldb iter ts (ps[t := p]) w)"

section \<open>One thread\<close>


lemma next_finished:
  assumes "iter_finished py ldb iter w = (Ret True, w')"
  shows "PyLevelDBIter_next py ldb iter w = py_bind (PyLevelDBIter_clean ldb iter) (\<lambda>_. py_ret None) w'"
proof -
  obtain i where i: "heap w iter = Some (ObjIter i)"
    using assms by (auto simp: iter_finished_def py_bind_def get_iter_def split: option.splits pyobject.splits)
  then have gi: "get_iter iter w = (Ret i, w)" by (simp add: get_iter_def)
  show ?thesis
  proof (cases "it_ref i")
    case None
    with gi assms have "w' = w" by (simp add: iter_finished_def py_simps)
    with gi None show ?thesis by (simp add: PyLevelDBIter_next_def py_simps)
  next
    case (Some r)
    obtain h where h: "it_iterator i = Some h"
      using assms gi Some by (cases "it_iterator i") (simp_all add: iter_finished_def py_simps deref_def py_bind_def)
    obtain dh it where it: "its w h = Some (dh, it)" "dbs w dh \<noteq> None"
      using assms gi Some h
      by (cases "its w h") (auto simp: iter_finished_def py_simps deref_def py_bind_def read_it_def split: if_splits)
    then have v: "read_it h (It_Valid ldb) w = (Ret (It_Valid ldb it), w)" by (simp add: read_it_def)
    show ?thesis
    proof (cases "It_Valid ldb it")
      case False
      with gi Some h v assms have "w' = w" by (simp add: iter_finished_def py_simps deref_def)
      with gi Some h v False show ?thesis by (simp add: PyLevelDBIter_next_def py_simps deref_def)
    next
      case True
      with gi Some h v assms have past: "iter_past_bound py ldb i h w = (Ret True, w')"
        by (simp add: iter_finished_def py_simps deref_def)
      have first: "(if it_ref i = None then py_ret True
          else py_bind (deref (it_iterator i)) (\<lambda>h. py_bind (read_it h (It_Valid ldb)) (\<lambda>v. py_ret (\<not> v)))) w =
          (Ret False, w)"
        using Some h v True by (simp add: deref_def py_simps)
      have dr: "deref (it_iterator i) w = (Ret h, w)" using h by (simp add: deref_def py_simps)
      show ?thesis
        by (subst PyLevelDBIter_next_def, subst py_bind_Ret, rule gi, subst py_bind_Ret, rule first, simp only: if_False,
            subst py_bind_Ret, rule dr, subst py_bind_Ret, rule past, simp only: if_True)
    qed
  qed
qed

lemma clean_segments:
  "PyLevelDBIter_clean ldb iter w =
     py_bind (clean_enter iter) (\<lambda>_. py_bind (clean_delete iter) (\<lambda>_. clean_leave ldb iter)) w"
proof (cases "\<exists>i. heap w iter = Some (ObjIter i)")
  case False
  then have "get_iter iter w = (Crash UseAfterFree, w)" by (auto simp: get_iter_def split: option.split pyobject.split)
  then show ?thesis by (simp add: PyLevelDBIter_clean_def clean_enter_def py_simps)
next
  case True
  then obtain i where i: "heap w iter = Some (ObjIter i)" by blast
  have gi: "heap v iter = Some (ObjIter i) \<Longrightarrow> get_iter iter v = (Ret i, v)" for v :: "('a, 'b, 'c, 'd) world"
    by (simp add: get_iter_def)
  let ?dec = "case it_db i of Some db \<Rightarrow> py_bind (get_db db) (\<lambda>p. set_db db (p\<lparr>n_iterators := n_iterators p - 1\<rparr>))
    | None \<Rightarrow> py_ret ()"
  obtain r v where dec: "?dec w = (r, v)" by fastforce
  have v: "r = Ret () \<Longrightarrow> heap v iter = Some (ObjIter i)"
    using dec i by (cases "it_db i") (auto simp: py_simps py_bind_def get_db_def set_db_def split: option.splits pyobject.splits if_splits)
  obtain r2 u where del: "delete_it (it_iterator i) v = (r2, u)" by fastforce
  have u: "heap u = heap v" using del by (auto simp: delete_it_def split: option.splits if_splits)
  have e: "clean_enter iter w = (r, v)" using gi [OF i] dec by (simp add: clean_enter_def py_simps)
  show ?thesis
  proof (cases r)
    case (Ret x)
    then have dl: "clean_delete iter v = (r2, u)" using gi [OF v] del by (simp add: clean_delete_def py_simps)
    show ?thesis
    proof (cases r2)
      case r2: (Ret y)
      have "get_iter iter u = (Ret i, u)" using gi v Ret u by simp
      then show ?thesis using Ret r2 gi [OF i] dec del e dl
        by (simp add: PyLevelDBIter_clean_def clean_leave_def py_simps)
    qed (use Ret gi [OF i] dec del e dl in \<open>simp_all add: PyLevelDBIter_clean_def py_simps\<close>)
  qed (use gi [OF i] dec e in \<open>simp_all add: PyLevelDBIter_clean_def py_simps\<close>)
qed

text \<open>
  Without other threads the segments are the call: three steps of one thread give what
  PyLevelDBIter_next returns and the world it leaves.
\<close>

theorem one_thread_next:
  "run_schedule py ldb iter [0, 0, 0] [At_next] w =
     (case arrive Returned (PyLevelDBIter_next py ldb iter w) of (p, w') \<Rightarrow> ([p], w'))"
proof (cases "\<exists>w1. iter_finished py ldb iter w = (Ret True, w1)")
  case True
  then obtain w1 where f: "iter_finished py ldb iter w = (Ret True, w1)" by blast
  show ?thesis
    using f unfolding next_finished [OF f]
    by (simp add: arrive_def py_bind_def clean_segments py_ret_def split: prod.split outcome.split)
next
  case False
  then have first: "thread_step py ldb iter At_next w = arrive Returned (PyLevelDBIter_next py ldb iter w)"
    by (auto split: prod.split outcome.split bool.split)
  obtain p v where p: "arrive Returned (PyLevelDBIter_next py ldb iter w) = (p, v)" by fastforce
  then have "thread_step py ldb iter p v = (p, v)"
    by (auto simp: arrive_def split: prod.splits outcome.splits)
  with first p show ?thesis by (simp del: thread_step.simps(1))
qed

section \<open>Two threads\<close>

text \<open>
  What the segments do, on an iterator object that is attached and whose LevelDB iterator is at its end, and on one
  that has been cleared
\<close>

definition at_end ::
  "('d, 'it, 'sn, 'fs) leveldb \<Rightarrow> addr \<Rightarrow> PyLevelDBIter \<Rightarrow> addr \<Rightarrow> PyLevelDB \<Rightarrow> handle \<Rightarrow> handle \<Rightarrow> ('d, 'it, 'sn, 'fs) world \<Rightarrow> bool" where
  "at_end ldb iter i a p k h w \<longleftrightarrow> heap w iter = Some (ObjIter i) \<and> it_ref i = Some a \<and> it_db i = Some a \<and>
     it_iterator i = Some k \<and> heap w a = Some (ObjDB p) \<and> db_db p = Some h \<and> dbs w h \<noteq> None \<and>
     (case its w k of None \<Rightarrow> True | Some (dh, x) \<Rightarrow> dh = h \<and> \<not> It_Valid ldb x)"

lemma enter_at_end:
  assumes e: "at_end ldb iter i a p k h w" and k: "its w k \<noteq> None"
  shows "\<exists>w'. thread_step py ldb iter At_next w = (At_delete, w') \<and> its w' = its w \<and>
    at_end ldb iter i a (p\<lparr>n_iterators := n_iterators p - 1\<rparr>) k h w'"
proof -
  obtain x where x: "its w k = Some (h, x)" "\<not> It_Valid ldb x" using e k by (auto simp: at_end_def)
  have "iter_finished py ldb iter w = (Ret True, w)"
    using e x by (simp add: at_end_def iter_finished_def py_bind_def get_iter_def deref_def py_ret_def read_it_def)
  moreover have "clean_enter iter w =
      (Ret (), w\<lparr>heap := (heap w)(a \<mapsto> ObjDB (p\<lparr>n_iterators := n_iterators p - 1\<rparr>))\<rparr>)"
    using e by (simp add: at_end_def clean_enter_def py_bind_def get_iter_def get_db_def set_db_def py_modify_def)
  moreover have "iter \<noteq> a" using e by (auto simp: at_end_def)
  ultimately show ?thesis using e by (simp add: at_end_def arrive_def)
qed

lemma delete_at_end:
  assumes e: "at_end ldb iter i a p k h w" and k: "its w k \<noteq> None"
  shows "\<exists>w'. thread_step py ldb iter At_delete w = (At_leave, w') \<and> its w' k = None \<and> at_end ldb iter i a p k h w'"
proof -
  obtain x where x: "its w k = Some (h, x)" using e k by (auto simp: at_end_def)
  have "clean_delete iter w = (Ret (), w\<lparr>its := (its w)(k := None)\<rparr>)"
    using e x by (simp add: at_end_def clean_delete_def py_bind_def get_iter_def delete_it_def)
  then show ?thesis using e by (simp add: at_end_def arrive_def)
qed

lemma deleted_at_end:
  assumes e: "at_end ldb iter i a p k h w" and k: "its w k = None"
  shows "fst (thread_step py ldb iter At_next w) = Lost UseAfterFree"
    and "fst (thread_step py ldb iter At_delete w) = Lost UseAfterFree"
  using e k
  by (simp_all add: at_end_def arrive_def iter_finished_def PyLevelDBIter_next_def clean_delete_def py_bind_def get_iter_def
      deref_def py_ret_def read_it_def delete_it_def)

lemma leave_at_end:
  assumes e: "at_end ldb iter i a p k h w"
  shows "\<exists>w' i'. thread_step py ldb iter At_leave w = (Returned None, w') \<and> heap w' iter = Some (ObjIter i') \<and>
    it_ref i' = None \<and> it_db i' = None \<and> it_iterator i' = None"
proof -
  have ne: "iter \<noteq> a" using e by (auto simp: at_end_def)
  obtain d where d: "dbs w h = Some d" using e by (auto simp: at_end_def)
  have "\<exists>w1. Py_DECREF_db ldb (Some a) w = (Ret (), w1)"
    using e d
    by (cases "db_comparator p"; cases "the (db_comparator p)")
      (auto simp: at_end_def Py_DECREF_db_def PyLevelDB_dealloc_def py_bind_def deref_def py_ret_def get_db_def delete_db_def
        delete_comparator_def set_db_def free_object_def py_modify_def)
  then obtain w1 where "Py_DECREF_db ldb (Some a) w = (Ret (), w1)" by blast
  then have "clean_leave ldb iter w = (Ret (), w1\<lparr>heap := (heap w1)(iter \<mapsto> ObjIter (i\<lparr>it_ref := None, it_db := None,
      it_iterator := None, it_bound := None, it_include_value := False\<rparr>))\<rparr>)"
    using e by (simp add: at_end_def clean_leave_def py_bind_def get_iter_def Py_XDECREF_db_def set_iter_def py_modify_def)
  then show ?thesis by (simp add: arrive_def)
qed

lemma cleared_steps:
  assumes "heap w iter = Some (ObjIter i)" "it_ref i = None" "it_db i = None" "it_iterator i = None"
  shows "run_schedule py ldb iter [1, 1, 1] [q, At_next] w =
    ([q, Returned None], w\<lparr>heap := (heap w)(iter \<mapsto> ObjIter (i\<lparr>it_bound := None, it_include_value := False\<rparr>))\<rparr>)"
proof -
  have i: "i\<lparr>it_ref := None, it_db := None, it_iterator := None, it_bound := None, it_include_value := False\<rparr> =
      i\<lparr>it_bound := None, it_include_value := False\<rparr>" using assms(2-4) by simp
  show ?thesis
    using assms by (simp add: arrive_def iter_finished_def clean_enter_def clean_delete_def clean_leave_def py_bind_def
        get_iter_def py_ret_def delete_it_def Py_XDECREF_db_def set_iter_def py_modify_def i)
qed

lemma reachable_at_end:
  assumes py: "parse_respects_types py" and r: "reachable py ldb R w" and i: "heap w iter = Some (ObjIter i)"
    and k: "it_iterator i = Some k" "its w k = Some (h, x)" "\<not> It_Valid ldb x" and a: "it_ref i = Some a" "heap w a = Some (ObjDB p)"
  shows "at_end ldb iter i a p k h w"
proof -
  have g: "good R w" by (rule reachable_good [OF py r])
  have x: "objs (shape_of w) iter = Some (pobj_of (ObjIter i))" "po_db (pobj_of (ObjIter i)) = Some a" using i a by simp_all
  obtain q h' k' where q: "heap w a = Some (ObjDB q)" "db_db q = Some h'" "dbs w h' \<noteq> None"
    "po_owns (pobj_of (ObjIter i)) = Some k'" "owner w k' = Some h'"
    by (rule good_dependent [OF g x])
  have "po_sane (pobj_of (ObjIter i))" using goodS_sane [of R "shape_of w", OF _ x(1)] g by (simp add: good_def goodS_def)
  with q i k a show ?thesis by (auto simp: at_end_def)
qed

text \<open>
  C40: sharing an iterator is unsafe, for any library, program and iterator object whose LevelDB iterator is at its
  end. When two threads call next on it, one after the other, both get the end of the iteration.
  When the second one runs while the first has given up the interpreter lock in
  PyLevelDBIter_clean and has deleted the LevelDB iterator, it uses the iterator after it was deleted; when it
  enters before the deletion, the counter of iterators is decremented twice and the iterator is
  deleted twice.
\<close>

theorem iterator_race:
  assumes "parse_respects_types py" and "reachable py ldb R w" and "heap w iter = Some (ObjIter i)"
    and "it_iterator i = Some k" and "its w k = Some (h, x)" and "\<not> It_Valid ldb x"
    and "it_ref i = Some a" and "heap w a = Some (ObjDB p)"
  shows "fst (run_schedule py ldb iter [0, 0, 0, 1, 1, 1] [At_next, At_next] w) = [Returned None, Returned None] \<and>
    fst (run_schedule py ldb iter [0, 0, 1] [At_next, At_next] w) = [At_leave, Lost UseAfterFree] \<and>
    (\<exists>q. heap (snd (run_schedule py ldb iter [0, 1] [At_next, At_next] w)) a = Some (ObjDB q) \<and>
       n_iterators q = n_iterators p - 2) \<and>
    fst (run_schedule py ldb iter [0, 1, 0, 1] [At_next, At_next] w) = [At_leave, Lost UseAfterFree]"
proof -
  have e0: "at_end ldb iter i a p k h w" by (rule reachable_at_end [OF assms])
  obtain w1 where w1: "thread_step py ldb iter At_next w = (At_delete, w1)" "its w1 k \<noteq> None"
    "at_end ldb iter i a (p\<lparr>n_iterators := n_iterators p - 1\<rparr>) k h w1"
    using enter_at_end [OF e0, of py] assms(5) by auto
  obtain w2 where w2: "thread_step py ldb iter At_delete w1 = (At_leave, w2)" "its w2 k = None"
    "at_end ldb iter i a (p\<lparr>n_iterators := n_iterators p - 1\<rparr>) k h w2"
    using delete_at_end [OF w1(3,2), of py] by auto
  obtain w3 i' where w3: "thread_step py ldb iter At_leave w2 = (Returned None, w3)" "heap w3 iter = Some (ObjIter i')"
    "it_ref i' = None" "it_db i' = None" "it_iterator i' = None"
    using leave_at_end [OF w2(3), of py] by blast
  obtain v2 where v2: "thread_step py ldb iter At_next w1 = (At_delete, v2)" "its v2 k \<noteq> None"
    "at_end ldb iter i a (p\<lparr>n_iterators := n_iterators p - 2\<rparr>) k h v2"
    using enter_at_end [OF w1(3,2), of py] w1(2) by auto
  obtain v3 where v3: "thread_step py ldb iter At_delete v2 = (At_leave, v3)" "its v3 k = None"
    "at_end ldb iter i a (p\<lparr>n_iterators := n_iterators p - 2\<rparr>) k h v3"
    using delete_at_end [OF v2(3,2), of py] by auto
  have one: "run_schedule py ldb iter [0, 0, 0, 1, 1, 1] [At_next, At_next] w =
      run_schedule py ldb iter [1, 1, 1] [Returned None, At_next] w3"
    using w1(1) w2(1) w3(1) by (simp del: thread_step.simps)
  have "fst (run_schedule py ldb iter [0, 0, 0, 1, 1, 1] [At_next, At_next] w) = [Returned None, Returned None]"
    unfolding one cleared_steps [OF w3(2-5)] by simp
  moreover have "fst (run_schedule py ldb iter [0, 0, 1] [At_next, At_next] w) = [At_leave, Lost UseAfterFree]"
    using w1(1) w2(1) deleted_at_end(1) [OF w2(3,2), of py]
    by (simp del: thread_step.simps add: split_def)
  moreover have "snd (run_schedule py ldb iter [0, 1] [At_next, At_next] w) = v2"
    using w1(1) v2(1) by (simp del: thread_step.simps)
  moreover have "heap v2 a = Some (ObjDB (p\<lparr>n_iterators := n_iterators p - 2\<rparr>))" using v2(3) by (simp add: at_end_def)
  moreover have "fst (run_schedule py ldb iter [0, 1, 0, 1] [At_next, At_next] w) = [At_leave, Lost UseAfterFree]"
    using w1(1) v2(1) v3(1) deleted_at_end(2) [OF v3(3,2), of py]
    by (simp del: thread_step.simps add: split_def)
  ultimately show ?thesis by simp
qed

text \<open>A database with one entry, and an iterator that has yielded it\<close>

definition race_end :: "(addr \<Rightarrow> nat) \<times> (memdb, mem_it, entry list, mem_fs) world" where
  "race_end = the (runs demo_py mem_ldb [NewDB create_args, Put 0 put_args, RangeIter 0 no_args, IterNext 1]
     (\<lambda>_. 0) empty_world)"

theorem iterator_race_witness:
  "fst (run_schedule demo_py mem_ldb 1 [0, 0, 1] [At_next, At_next] (snd race_end)) = [At_leave, Lost UseAfterFree] \<and>
   (\<exists>q. heap (snd (run_schedule demo_py mem_ldb 1 [0, 1] [At_next, At_next] (snd race_end))) 0 = Some (ObjDB q) \<and>
      n_iterators q = -1)"
proof -
  let ?cs = "[NewDB create_args, Put 0 put_args, RangeIter 0 no_args, IterNext 1]"
  have "runs demo_py mem_ldb ?cs (\<lambda>_. 0) empty_world \<noteq> None" by code_simp
  then have "runs demo_py mem_ldb ?cs (\<lambda>_. 0) empty_world = Some (fst race_end, snd race_end)"
    by (auto simp: race_end_def)
  then have r: "reachable demo_py mem_ldb (fst race_end) (snd race_end)" by (rule runs_reachable [OF _ reachable_empty])
  have "case heap (snd race_end) 1 of
      Some (ObjIter i) \<Rightarrow> it_ref i = Some 0 \<and>
        (case it_iterator i of None \<Rightarrow> False
         | Some k \<Rightarrow> (case its (snd race_end) k of None \<Rightarrow> False | Some (h, x) \<Rightarrow> \<not> It_Valid mem_ldb x))
    | _ \<Rightarrow> False"
    unfolding race_end_def by code_simp
  then obtain i k h x where i: "heap (snd race_end) 1 = Some (ObjIter i)" "it_iterator i = Some k"
    "its (snd race_end) k = Some (h, x)" "\<not> It_Valid mem_ldb x" "it_ref i = Some 0"
    by (auto split: option.splits pyobject.splits)
  have "case heap (snd race_end) 0 of Some (ObjDB p) \<Rightarrow> n_iterators p = 1 | _ \<Rightarrow> False"
    unfolding race_end_def by code_simp
  then obtain p where p: "heap (snd race_end) 0 = Some (ObjDB p)" "n_iterators p = 1"
    by (auto split: option.splits pyobject.splits)
  from iterator_race [OF demo_parse r i p(1)] p(2) show ?thesis by (simp del: run_schedule.simps)
qed

end
