(* ===== verification/TypeTables.thy ===== *)
theory TypeTables
  imports LifecycleProps
begin

text \<open>
  The method tables and type objects of \<open>leveldb_object.cc\<close> and \<open>leveldb_ext.cc\<close>, and how the
  interpreter reaches the handlers through them: attribute calls by name, with the flags of the
  entry deciding on the arguments it passes, and the slots of a type. The handlers cast their
  first argument without a test, so the tables alone make a call type-correct.
\<close>

section \<open>Method tables\<close>

text \<open>
  \<open>ml_meth\<close> is the call of the function on \<open>self\<close> and the arguments. A function that is entered
  with \<open>METH_NOARGS\<close> gets none. The documentation strings are left out.
\<close>

datatype ml_flag = METH_VARARGS | METH_KEYWORDS | METH_NOARGS

record PyMethodDef =
  ml_name :: string
  ml_meth :: "addr \<Rightarrow> pyargs \<Rightarrow> call"
  ml_flags :: "ml_flag list"

definition PyLevelDB_methods :: "PyMethodDef list" where
  "PyLevelDB_methods =
     [\<lparr>ml_name = ''Put'', ml_meth = Put, ml_flags = [METH_VARARGS, METH_KEYWORDS]\<rparr>,
      \<lparr>ml_name = ''Get'', ml_meth = Get, ml_flags = [METH_VARARGS, METH_KEYWORDS]\<rparr>,
      \<lparr>ml_name = ''Delete'', ml_meth = Delete, ml_flags = [METH_VARARGS, METH_KEYWORDS]\<rparr>,
      \<lparr>ml_name = ''Write'', ml_meth = Write, ml_flags = [METH_VARARGS, METH_KEYWORDS]\<rparr>,
      \<lparr>ml_name = ''RangeIter'', ml_meth = RangeIter, ml_flags = [METH_VARARGS, METH_KEYWORDS]\<rparr>,
      \<lparr>ml_name = ''GetStats'', ml_meth = \<lambda>self args. GetStats self, ml_flags = [METH_NOARGS]\<rparr>,
      \<lparr>ml_name = ''CreateSnapshot'', ml_meth = \<lambda>self args. CreateSnapshot self, ml_flags = [METH_NOARGS]\<rparr>,
      \<lparr>ml_name = ''CompactRange'', ml_meth = CompactRange, ml_flags = [METH_VARARGS, METH_KEYWORDS]\<rparr>]"

definition PyWriteBatch_methods :: "PyMethodDef list" where
  "PyWriteBatch_methods =
     [\<lparr>ml_name = ''Put'', ml_meth = call.BatchPut, ml_flags = [METH_VARARGS]\<rparr>,
      \<lparr>ml_name = ''Delete'', ml_meth = call.BatchDelete, ml_flags = [METH_VARARGS]\<rparr>]"

definition PyLevelDBSnapshot_methods :: "PyMethodDef list" where
  "PyLevelDBSnapshot_methods =
     [\<lparr>ml_name = ''Get'', ml_meth = SnapshotGet, ml_flags = [METH_VARARGS, METH_KEYWORDS]\<rparr>,
      \<lparr>ml_name = ''RangeIter'', ml_meth = SnapshotRangeIter, ml_flags = [METH_VARARGS, METH_KEYWORDS]\<rparr>]"

definition leveldb_extension_methods :: "PyMethodDef list" where
  "leveldb_extension_methods =
     [\<lparr>ml_name = ''RepairDB'', ml_meth = \<lambda>self. Repair, ml_flags = [METH_VARARGS, METH_KEYWORDS]\<rparr>,
      \<lparr>ml_name = ''DestroyDB'', ml_meth = \<lambda>self. Destroy, ml_flags = [METH_VARARGS]\<rparr>]"

section \<open>Type objects\<close>

text \<open>
  The slots that are not 0; \<open>tp_basicsize\<close> is the object whose size it is. Of the two slots with
  functions of the interpreter, \<open>PyObject_GenericGetAttr\<close> is what 0 stands for as well, and
  \<open>PyObject_SelfIter\<close> returns the object itself.
\<close>

datatype tp_flag = Py_TPFLAGS_DEFAULT | Py_TPFLAGS_HAVE_GC

record 'w PyTypeObject =
  tp_name :: string
  tp_basicsize :: pytype
  tp_dealloc :: "addr \<Rightarrow> ('w, unit) py"
  tp_flags :: "tp_flag list"
  tp_traverse :: "('w \<Rightarrow> addr \<Rightarrow> addr list) option"
  tp_iter :: bool
  tp_iternext :: "(addr \<Rightarrow> ('w, pyval option) py) option"
  tp_methods :: "PyMethodDef list"
  tp_init :: "(addr \<Rightarrow> pyargs \<Rightarrow> ('w, unit) py) option"
  tp_new :: "('w, addr option) py option"

text \<open>\<open>Py_VISIT\<close> visits a pointer that is not NULL.\<close>

definition PyLevelDBSnapshot_traverse :: "('d, 'it, 'sn, 'fs) world \<Rightarrow> addr \<Rightarrow> addr list" where
  "PyLevelDBSnapshot_traverse w a =
     (case heap w a of Some (ObjSnapshot s) \<Rightarrow> (case sn_db s of None \<Rightarrow> [] | Some db \<Rightarrow> [db]) | _ \<Rightarrow> [])"

definition PyLevelDBIter_traverse :: "('d, 'it, 'sn, 'fs) world \<Rightarrow> addr \<Rightarrow> addr list" where
  "PyLevelDBIter_traverse w a =
     (case heap w a of Some (ObjIter i) \<Rightarrow> (case it_ref i of None \<Rightarrow> [] | Some r \<Rightarrow> [r]) | _ \<Rightarrow> [])"

definition LevelDB_type_object ::
  "py_api \<Rightarrow> ('d, 'it, 'sn, 'fs) leveldb \<Rightarrow> ('d, 'it, 'sn, 'fs) world PyTypeObject" where
  "LevelDB_type_object py ldb =
     \<lparr>tp_name = ''leveldb.LevelDB'', tp_basicsize = T_LevelDB, tp_dealloc = PyLevelDB_dealloc ldb,
      tp_flags = [Py_TPFLAGS_DEFAULT], tp_traverse = None, tp_iter = False, tp_iternext = None,
      tp_methods = PyLevelDB_methods, tp_init = Some (PyLevelDB_init py ldb), tp_new = Some PyLevelDB_new\<rparr>"

definition WriteBatch_type_object ::
  "py_api \<Rightarrow> ('d, 'it, 'sn, 'fs) world PyTypeObject" where
  "WriteBatch_type_object py =
     \<lparr>tp_name = ''leveldb.WriteBatch'', tp_basicsize = T_WriteBatch, tp_dealloc = PyWriteBatch_dealloc,
      tp_flags = [Py_TPFLAGS_DEFAULT], tp_traverse = None, tp_iter = False, tp_iternext = None,
      tp_methods = PyWriteBatch_methods, tp_init = Some (PyWriteBatch_init py), tp_new = Some PyWriteBatch_new\<rparr>"

definition Snapshot_type_object ::
  "py_api \<Rightarrow> ('d, 'it, 'sn, 'fs) leveldb \<Rightarrow> ('d, 'it, 'sn, 'fs) world PyTypeObject" where
  "Snapshot_type_object py ldb =
     \<lparr>tp_name = ''leveldb.Snapshot'', tp_basicsize = T_Snapshot, tp_dealloc = PyLevelDBSnapshot_dealloc ldb,
      tp_flags = [Py_TPFLAGS_DEFAULT, Py_TPFLAGS_HAVE_GC], tp_traverse = Some PyLevelDBSnapshot_traverse,
      tp_iter = False, tp_iternext = None,
      tp_methods = PyLevelDBSnapshot_methods, tp_init = Some (PyLevelDBSnapshot_init py ldb),
      tp_new = Some PyLevelDBSnapshot_new\<rparr>"

definition Iter_type_object ::
  "py_api \<Rightarrow> ('d, 'it, 'sn, 'fs) leveldb \<Rightarrow> ('d, 'it, 'sn, 'fs) world PyTypeObject" where
  "Iter_type_object py ldb =
     \<lparr>tp_name = ''leveldb-iterator'', tp_basicsize = T_Iter, tp_dealloc = PyLevelDBIter_dealloc ldb,
      tp_flags = [Py_TPFLAGS_DEFAULT, Py_TPFLAGS_HAVE_GC], tp_traverse = Some PyLevelDBIter_traverse,
      tp_iter = True, tp_iternext = Some (PyLevelDBIter_next py ldb), tp_methods = [], tp_init = None, tp_new = None\<rparr>"

fun type_of :: "pyobject \<Rightarrow> pytype" where
  "type_of (ObjDB p) = T_LevelDB"
| "type_of (ObjSnapshot s) = T_Snapshot"
| "type_of (ObjIter i) = T_Iter"
| "type_of (ObjBatch b) = T_WriteBatch"

text \<open>The type object behind a type; \<open>bool\<close> belongs to the interpreter.\<close>

primrec type_object ::
  "py_api \<Rightarrow> ('d, 'it, 'sn, 'fs) leveldb \<Rightarrow> pytype \<Rightarrow> ('d, 'it, 'sn, 'fs) world PyTypeObject option" where
  "type_object py ldb T_LevelDB = Some (LevelDB_type_object py ldb)"
| "type_object py ldb T_Snapshot = Some (Snapshot_type_object py ldb)"
| "type_object py ldb T_WriteBatch = Some (WriteBatch_type_object py)"
| "type_object py ldb T_Iter = Some (Iter_type_object py ldb)"
| "type_object py ldb T_bool = None"

section \<open>The interpreter\<close>

text \<open>
  Calls of a built-in function: keyword arguments need \<open>METH_KEYWORDS\<close>, any argument
  \<open>METH_VARARGS\<close>.
\<close>

definition flags_accept :: "ml_flag list \<Rightarrow> pyargs \<Rightarrow> bool" where
  "flags_accept flags args \<longleftrightarrow>
     (if METH_NOARGS \<in> set flags then posargs args = [] \<and> kwargs args = []
      else METH_KEYWORDS \<in> set flags \<or> kwargs args = [])"

definition find_method :: "PyMethodDef list \<Rightarrow> string \<Rightarrow> PyMethodDef option" where
  "find_method methods name = find (\<lambda>m. ml_name m = name) methods"

definition call_function ::
  "py_api \<Rightarrow> ('d, 'it, 'sn, 'fs) leveldb \<Rightarrow> PyMethodDef list \<Rightarrow> string \<Rightarrow> addr \<Rightarrow> pyargs \<Rightarrow>
    (('d, 'it, 'sn, 'fs) world, addr option) py" where
  "call_function py ldb methods name self args =
     (case find_method methods name of
        None \<Rightarrow> py_raise AttributeError
      | Some m \<Rightarrow>
          if flags_accept (ml_flags m) args then run_call py ldb (ml_meth m self args)
          else py_raise TypeError)"

text \<open>
  What a program asks of the interpreter: to call a type, \<open>object.name(...)\<close>, \<open>object.__init__(...)\<close>,
  \<open>next(object)\<close>, to drop a reference, \<open>leveldb.name(...)\<close>. A type without \<open>tp_new\<close> cannot be
  called. Every type has an \<open>__init__\<close>; that of iterators is the one of \<open>object\<close>, which does
  nothing.
\<close>

datatype request =
    Call_type pytype pyargs
  | Call_method addr string pyargs
  | Call_init addr pyargs
  | Call_next addr
  | Drop addr
  | Call_module string pyargs

primrec ob_refcnt :: "pyobject \<Rightarrow> nat" where
  "ob_refcnt (ObjDB p) = db_refcnt p"
| "ob_refcnt (ObjSnapshot s) = sn_refcnt s"
| "ob_refcnt (ObjIter i) = it_refcnt i"
| "ob_refcnt (ObjBatch b) = wb_refcnt b"

primrec with_refcnt :: "nat \<Rightarrow> pyobject \<Rightarrow> pyobject" where
  "with_refcnt n (ObjDB p) = ObjDB (p\<lparr>db_refcnt := n\<rparr>)"
| "with_refcnt n (ObjSnapshot s) = ObjSnapshot (s\<lparr>sn_refcnt := n\<rparr>)"
| "with_refcnt n (ObjIter i) = ObjIter (i\<lparr>it_refcnt := n\<rparr>)"
| "with_refcnt n (ObjBatch b) = ObjBatch (b\<lparr>wb_refcnt := n\<rparr>)"

text \<open>The object and its type object\<close>

definition with_type ::
  "py_api \<Rightarrow> ('d, 'it, 'sn, 'fs) leveldb \<Rightarrow> addr \<Rightarrow>
    (pyobject \<Rightarrow> ('d, 'it, 'sn, 'fs) world PyTypeObject \<Rightarrow> (('d, 'it, 'sn, 'fs) world, 'r) py) \<Rightarrow>
    (('d, 'it, 'sn, 'fs) world, 'r) py" where
  "with_type py ldb a f w =
     (case heap w a of
        None \<Rightarrow> (Crash UseAfterFree, w)
      | Some ob \<Rightarrow> (case type_object py ldb (type_of ob) of None \<Rightarrow> (Crash UseAfterFree, w) | Some t \<Rightarrow> f ob t w))"

primrec serve ::
  "py_api \<Rightarrow> ('d, 'it, 'sn, 'fs) leveldb \<Rightarrow> request \<Rightarrow> (('d, 'it, 'sn, 'fs) world, addr option) py" where
  "serve py ldb (Call_type t args) =
     (case type_object py ldb t of
        None \<Rightarrow> py_ret None
      | Some ty \<Rightarrow>
          (case tp_new ty of
             None \<Rightarrow> py_raise TypeError
           | Some new \<Rightarrow>
               call_type ldb new (\<lambda>a. case tp_init ty of None \<Rightarrow> py_ret () | Some init \<Rightarrow> init a args)))"
| "serve py ldb (Call_method a name args) =
     with_type py ldb a (\<lambda>ob ty. call_function py ldb (tp_methods ty) name a args)"
| "serve py ldb (Call_init a args) =
     with_type py ldb a (\<lambda>ob ty. case tp_init ty of None \<Rightarrow> py_ret None | Some init \<Rightarrow> dropping (init a args))"
| "serve py ldb (Call_next a) =
     with_type py ldb a (\<lambda>ob ty. case tp_iternext ty of None \<Rightarrow> py_raise TypeError | Some next \<Rightarrow> dropping (next a))"
| "serve py ldb (Drop a) =
     with_type py ldb a (\<lambda>ob ty.
       if ob_refcnt ob \<le> 1 then dropping (tp_dealloc ty a)
       else dropping (py_modify (\<lambda>w. w\<lparr>heap := (heap w)(a \<mapsto> with_refcnt (ob_refcnt ob - 1) ob)\<rparr>)))"
| "serve py ldb (Call_module name args) = call_function py ldb leveldb_extension_methods name 0 args"

section \<open>Types of the tables\<close>

text \<open>
  The C functions behind the calls, from their parameter lists: what the first parameter is declared as a
  pointer to, when it is to an object of the extension, and which flags fit the other ones. \<open>pyleveldb_repair_db\<close> declares a
  \<open>LevelDB\<close> object although it is a function of the module, which is what it is entered with.
\<close>

fun self_type :: "call \<Rightarrow> pytype option" where
  "self_type (InitDB a args) = Some T_LevelDB"
| "self_type (Put a args) = Some T_LevelDB"
| "self_type (Get a args) = Some T_LevelDB"
| "self_type (Delete a args) = Some T_LevelDB"
| "self_type (Write a args) = Some T_LevelDB"
| "self_type (GetStats a) = Some T_LevelDB"
| "self_type (CompactRange a args) = Some T_LevelDB"
| "self_type (RangeIter a args) = Some T_LevelDB"
| "self_type (CreateSnapshot a) = Some T_LevelDB"
| "self_type (InitSnapshot a args) = Some T_Snapshot"
| "self_type (SnapshotGet a args) = Some T_Snapshot"
| "self_type (SnapshotRangeIter a args) = Some T_Snapshot"
| "self_type (IterNext a) = Some T_Iter"
| "self_type (BatchInit a args) = Some T_WriteBatch"
| "self_type (call.BatchPut a args) = Some T_WriteBatch"
| "self_type (call.BatchDelete a args) = Some T_WriteBatch"
| "self_type (Repair args) = Some T_LevelDB"
| "self_type _ = None"

fun parameter_flags :: "call \<Rightarrow> ml_flag list" where
  "parameter_flags (GetStats a) = [METH_NOARGS]"
| "parameter_flags (CreateSnapshot a) = [METH_NOARGS]"
| "parameter_flags (call.BatchPut a args) = [METH_VARARGS]"
| "parameter_flags (call.BatchDelete a args) = [METH_VARARGS]"
| "parameter_flags (Destroy args) = [METH_VARARGS]"
| "parameter_flags _ = [METH_VARARGS, METH_KEYWORDS]"

lemmas method_tables = PyLevelDB_methods_def PyWriteBatch_methods_def PyLevelDBSnapshot_methods_def
lemmas type_objects = LevelDB_type_object_def WriteBatch_type_object_def Snapshot_type_object_def
  Iter_type_object_def
lemmas new_simps = PyLevelDB_new_def PyWriteBatch_new_def PyLevelDBSnapshot_new_def py_bind_def py_ret_def new_object_def

lemma type_object_cases:
  assumes "type_object py ldb t = Some ty"
  obtains "t = T_LevelDB" "ty = LevelDB_type_object py ldb" | "t = T_Snapshot" "ty = Snapshot_type_object py ldb"
    | "t = T_WriteBatch" "ty = WriteBatch_type_object py" | "t = T_Iter" "ty = Iter_type_object py ldb"
  using assms by (cases t) auto

lemma type_object_self:
  "type_object py ldb t = Some ty \<Longrightarrow> m \<in> set (tp_methods ty) \<Longrightarrow>
     self_type (ml_meth m a args) = Some t \<and> ml_flags m = parameter_flags (ml_meth m a args)"
  by (erule type_object_cases) (auto simp: type_objects method_tables)

lemma type_object_names: "type_object py ldb t = Some ty \<Longrightarrow> distinct (map ml_name (tp_methods ty))"
  by (erule type_object_cases) (simp_all add: type_objects method_tables)

lemma type_object_gc: "type_object py ldb t = Some ty \<Longrightarrow> Py_TPFLAGS_HAVE_GC \<in> set (tp_flags ty) \<longleftrightarrow> tp_traverse ty \<noteq> None"
  by (erule type_object_cases) (simp_all add: type_objects)

lemma type_object_new:
  assumes "type_object py ldb t = Some ty" and "tp_new ty = Some new" and "new w = (Ret (Some a), w')"
  shows "tp_basicsize ty = t \<and> (\<exists>ob. heap w' a = Some ob \<and> type_of ob = t)"
  using assms by (elim type_object_cases) (auto simp: type_objects new_simps split: if_splits outcome.splits prod.splits)

text \<open>
  C20: the tables are well typed. A method of a type is a function whose first parameter is declared as an object of
  that type, entered with the flags that its other parameters need, and no name occurs twice in the type. \<open>tp_new\<close> makes
  objects of the type, and the types with the garbage collector's flag are those with a traversal. The functions of the
  module, which are entered with the module, have the flags their other parameters need, and what
  they do does not depend on the first parameter, whatever they declare it to be.
\<close>

theorem type_objects_sound:
  "(\<forall>t ty. type_object py ldb t = Some ty \<longrightarrow>
      (\<forall>m \<in> set (tp_methods ty). \<forall>a args. self_type (ml_meth m a args) = Some t \<and> ml_flags m = parameter_flags (ml_meth m a args)) \<and>
      distinct (map ml_name (tp_methods ty)) \<and> (Py_TPFLAGS_HAVE_GC \<in> set (tp_flags ty) \<longleftrightarrow> tp_traverse ty \<noteq> None) \<and>
      (\<forall>new w a w'. tp_new ty = Some new \<longrightarrow> new w = (Ret (Some a), w') \<longrightarrow>
         tp_basicsize ty = t \<and> (\<exists>ob. heap w' a = Some ob \<and> type_of ob = t))) \<and>
   (\<forall>m \<in> set leveldb_extension_methods. \<forall>a b args.
      ml_meth m a args = ml_meth m b args \<and> ml_flags m = parameter_flags (ml_meth m a args)) \<and>
   distinct (map ml_name leveldb_extension_methods)"
proof (intro conjI allI impI ballI)
  fix t ty assume ty: "type_object py ldb t = Some ty"
  show "self_type (ml_meth m a args) = Some t" "ml_flags m = parameter_flags (ml_meth m a args)"
    if "m \<in> set (tp_methods ty)" for m a args using type_object_self [OF ty that] by simp_all
  show "distinct (map ml_name (tp_methods ty))" by (rule type_object_names [OF ty])
  show "Py_TPFLAGS_HAVE_GC \<in> set (tp_flags ty) \<longleftrightarrow> tp_traverse ty \<noteq> None" by (rule type_object_gc [OF ty])
  show "tp_basicsize ty = t" "\<exists>ob. heap w' a = Some ob \<and> type_of ob = t"
    if "tp_new ty = Some new" "new w = (Ret (Some a), w')" for new w a w'
    using type_object_new [OF ty that] by simp_all
qed (auto simp: leveldb_extension_methods_def)

theorem type_objects_sound_witness:
  "self_type (ml_meth (tp_methods (LevelDB_type_object demo_py mem_ldb) ! 4) 0 no_args) = Some T_LevelDB"
proof -
  have m: "tp_methods (LevelDB_type_object demo_py mem_ldb) ! 4 \<in> set (tp_methods (LevelDB_type_object demo_py mem_ldb))"
    by (simp add: LevelDB_type_object_def PyLevelDB_methods_def)
  have t: "type_object demo_py mem_ldb T_LevelDB = Some (LevelDB_type_object demo_py mem_ldb)" by simp
  from type_objects_sound [of demo_py mem_ldb, THEN conjunct1, rule_format, OF t] m show ?thesis by blast
qed

section \<open>Requests are calls\<close>

text \<open>
  What a program may ask for: its objects are alive, a database is used while it is open and
  initialised again only without dependents, a snapshot is made, or initialised again, with an open
  database, and the arguments are its own objects.
\<close>

primrec may_request ::
  "py_api \<Rightarrow> request \<Rightarrow> (addr \<Rightarrow> nat) \<Rightarrow> ('d, 'it, 'sn, 'fs) world \<Rightarrow> bool" where
  "may_request py (Call_type t args) R w = (t \<noteq> T_bool \<and> (t = T_Snapshot \<longrightarrow> permitted py (NewSnapshot args) R w))"
| "may_request py (Call_method a name args) R w =
     (0 < R a \<and> holds_args R w args \<and>
      (case heap w a of None \<Rightarrow> False | Some (ObjDB p) \<Rightarrow> db_db p \<noteq> None | Some ob \<Rightarrow> True))"
| "may_request py (Call_init a args) R w =
     (0 < R a \<and>
      (case heap w a of
         None \<Rightarrow> False | Some (ObjDB p) \<Rightarrow> n_snapshots p = 0 \<and> n_iterators p = 0
       | Some (ObjSnapshot s) \<Rightarrow> permitted py (InitSnapshot a args) R w | Some ob \<Rightarrow> True))"
| "may_request py (Call_next a) R w = (0 < R a \<and> heap w a \<noteq> None)"
| "may_request py (Drop a) R w = (0 < R a \<and> heap w a \<noteq> None)"
| "may_request py (Call_module name args) R w = True"

definition refs_after_request :: "request \<Rightarrow> addr option outcome \<Rightarrow> (addr \<Rightarrow> nat) \<Rightarrow> addr \<Rightarrow> nat" where
  "refs_after_request req r R = (case req of Drop a \<Rightarrow> R(a := R a - 1) | _ \<Rightarrow> add_ref r R)"

lemmas py_simps = py_bind_def py_ret_def py_get_def py_modify_def py_crash_def dropping_def deref_def

lemma serve_drop:
  assumes "heap w a \<noteq> None"
  shows "serve py ldb (Drop a) w = run_call py ldb (Decref a) w"
proof -
  obtain ob where ob: "heap w a = Some ob" using assms by auto
  show ?thesis
    by (cases ob) (simp_all add: ob with_type_def type_objects Py_DECREF_def Py_DECREF_db_def py_simps get_db_def
        set_db_def set_snapshot_def set_iter_def set_batch_def)
qed

lemma serve_type:
  "serve py ldb (Call_type T_LevelDB args) = run_call py ldb (NewDB args)"
  "serve py ldb (Call_type T_Snapshot args) = run_call py ldb (NewSnapshot args)"
  "serve py ldb (Call_type T_WriteBatch args) = run_call py ldb (NewBatch args)"
  "serve py ldb (Call_type T_Iter args) = py_raise TypeError"
  by (simp_all add: type_objects)

lemma find_method_names: "find_method ms name = Some m \<Longrightarrow> m \<in> set ms \<and> ml_name m = name"
  by (auto simp: find_method_def find_Some_iff)

text \<open>A method of the table, on an object that may be used, is a permitted call.\<close>

lemma method_permitted:
  assumes "may_request py (Call_method a name args) R w" and "heap w a = Some ob"
    and "type_object py ldb (type_of ob) = Some ty" and "m \<in> set (tp_methods ty)"
  shows "permitted py (ml_meth m a args) R w \<and> refs_after (ml_meth m a args) r R = add_ref r R"
  using assms
  by (cases ob) (auto simp: type_objects method_tables holds_def holds_open_def refs_after_def)

definition outcome_of_request :: "py_api \<Rightarrow> ('d, 'it, 'sn, 'fs) leveldb \<Rightarrow> request \<Rightarrow> (addr \<Rightarrow> nat) \<Rightarrow>
    ('d, 'it, 'sn, 'fs) world \<Rightarrow> bool" where
  "outcome_of_request py ldb req R w \<longleftrightarrow>
     (\<exists>c. permitted py c R w \<and> serve py ldb req w = run_call py ldb c w \<and> (\<forall>r. refs_after_request req r R = refs_after c r R)) \<or>
     (\<exists>r. serve py ldb req w = (r, w) \<and> r \<in> {Raise AttributeError, Raise TypeError, Ret None} \<and> refs_after_request req r R = R)"

lemma outcome_call:
  "permitted py c R w \<Longrightarrow> serve py ldb req w = run_call py ldb c w \<Longrightarrow> (\<And>r. refs_after_request req r R = refs_after c r R) \<Longrightarrow>
     outcome_of_request py ldb req R w"
  by (auto simp: outcome_of_request_def)

lemma outcome_nothing:
  "serve py ldb req w = (r, w) \<Longrightarrow> r \<in> {Raise AttributeError, Raise TypeError, Ret None} \<Longrightarrow> (\<And>a. req \<noteq> Drop a) \<Longrightarrow>
     outcome_of_request py ldb req R w"
  by (cases req) (auto simp: outcome_of_request_def refs_after_request_def add_ref_def)

lemma type_request:
  assumes "may_request py (Call_type t args) R w"
  shows "outcome_of_request py ldb (Call_type t args) R w"
proof (cases t)
  case T_LevelDB
  show ?thesis by (rule outcome_call [where c = "NewDB args"])
    (simp_all add: T_LevelDB serve_type refs_after_request_def refs_after_def del: serve.simps run_call.simps)
next
  case T_Snapshot
  show ?thesis using assms
    by (intro outcome_call [where c = "NewSnapshot args"])
      (simp_all add: T_Snapshot serve_type refs_after_request_def refs_after_def del: serve.simps run_call.simps)
next
  case T_WriteBatch
  show ?thesis by (rule outcome_call [where c = "NewBatch args"])
    (simp_all add: T_WriteBatch serve_type refs_after_request_def refs_after_def del: serve.simps run_call.simps)
next
  case T_Iter
  show ?thesis by (rule outcome_nothing [where r = "Raise TypeError"])
    (simp_all add: T_Iter serve_type py_raise_def del: serve.simps)
qed (use assms in simp)

lemma method_request:
  assumes "may_request py (Call_method a name args) R w"
  shows "outcome_of_request py ldb (Call_method a name args) R w"
proof -
  obtain ob ty where ob: "heap w a = Some ob" "type_object py ldb (type_of ob) = Some ty"
    using assms by (cases "heap w a"; cases "the (heap w a)") auto
  note simps = ob with_type_def call_function_def py_raise_def refs_after_request_def
  show ?thesis
  proof (cases "find_method (tp_methods ty) name")
    case None
    show ?thesis by (rule outcome_nothing [where r = "Raise AttributeError"]) (simp_all add: simps None)
  next
    case (Some m)
    show ?thesis
    proof (cases "flags_accept (ml_flags m) args")
      case True
      with method_permitted [OF assms ob find_method_names [OF Some, THEN conjunct1]] show ?thesis
        by (intro outcome_call [where c = "ml_meth m a args"]) (simp_all add: simps Some del: run_call.simps)
    next
      case False
      show ?thesis by (rule outcome_nothing [where r = "Raise TypeError"]) (simp_all add: simps Some False)
    qed
  qed
qed

lemma init_request:
  assumes "may_request py (Call_init a args) R w"
  shows "outcome_of_request py ldb (Call_init a args) R w"
proof -
  obtain ob where ob: "heap w a = Some ob" using assms by (cases "heap w a") auto
  note simps = ob with_type_def type_objects refs_after_request_def refs_after_def
  show ?thesis
  proof (cases ob)
    case (ObjDB p)
    with assms show ?thesis by (intro outcome_call [where c = "InitDB a args"]) (simp_all add: simps)
  next
    case (ObjSnapshot s)
    with assms ob show ?thesis
      by (intro outcome_call [where c = "InitSnapshot a args"]) (simp_all add: simps del: permitted.simps)
  next
    case (ObjIter i)
    then show ?thesis by (intro outcome_nothing [where r = "Ret None"]) (simp_all add: simps py_ret_def)
  next
    case (ObjBatch b)
    with assms show ?thesis by (intro outcome_call [where c = "BatchInit a args"]) (simp_all add: simps holds_def)
  qed
qed

lemma next_request:
  assumes "may_request py (Call_next a) R w"
  shows "outcome_of_request py ldb (Call_next a) R w"
proof -
  obtain ob where ob: "heap w a = Some ob" using assms by (cases "heap w a") auto
  note simps = ob with_type_def type_objects refs_after_request_def refs_after_def holds_def
  show ?thesis
  proof (cases "\<exists>i. ob = ObjIter i")
    case True
    with assms show ?thesis by (intro outcome_call [where c = "IterNext a"]) (auto simp: simps)
  next
    case False
    then show ?thesis
      by (intro outcome_nothing [where r = "Raise TypeError"]; cases ob) (simp_all add: simps py_raise_def)
  qed
qed

lemma drop_request:
  assumes "may_request py (Drop a) R w"
  shows "outcome_of_request py ldb (Drop a) R w"
  using assms
  by (intro outcome_call [where c = "Decref a"])
    (auto simp: refs_after_request_def refs_after_def simp del: serve.simps run_call.simps intro: serve_drop)

lemma module_request: "outcome_of_request py ldb (Call_module name args) R w"
proof -
  note simps = call_function_def py_raise_def refs_after_request_def refs_after_def
  consider "find_method leveldb_extension_methods name = None"
    | m where "find_method leveldb_extension_methods name = Some m" "\<not> flags_accept (ml_flags m) args"
    | m where "find_method leveldb_extension_methods name = Some m" "flags_accept (ml_flags m) args" by fastforce
  then show ?thesis
  proof cases
    case 1
    then show ?thesis by (intro outcome_nothing [where r = "Raise AttributeError"]) (simp_all add: simps)
  next
    case 2
    then show ?thesis by (intro outcome_nothing [where r = "Raise TypeError"]) (simp_all add: simps)
  next
    case 3
    from find_method_names [OF 3(1)] have "ml_meth m 0 args \<in> {Repair args, Destroy args}"
      by (auto simp: leveldb_extension_methods_def)
    with 3 show ?thesis
      by (intro outcome_call [where c = "ml_meth m 0 args"]) (auto simp: simps simp del: run_call.simps)
  qed
qed

lemmas request_outcomes = type_request method_request init_request next_request drop_request module_request

lemma request_outcome: "may_request py req R w \<Longrightarrow> outcome_of_request py ldb req R w"
  by (cases req) (simp_all add: request_outcomes del: may_request.simps)

text \<open>What a method call comes to when the tables do not have it, or not for these arguments\<close>

lemma refused_method:
  assumes "serve py ldb (Call_method a name args) w = (r, w')" and "heap w a = Some ob"
    and "type_object py ldb (type_of ob) = Some ty"
  shows "case find_method (tp_methods ty) name of
      None \<Rightarrow> r = Raise AttributeError \<and> w' = w
    | Some m \<Rightarrow> flags_accept (ml_flags m) args \<or> r = Raise TypeError \<and> w' = w"
  using assms by (auto simp: with_type_def call_function_def py_raise_def split: option.splits if_splits)

text \<open>
  C14: programs that go through the interpreter and keep to the rules of use: the objects they name are alive and theirs, a
  database is used while it is open and initialised again only while it has no snapshots and iterators, and a snapshot is
  constructed, or initialised again, with an open database. Then, whatever attribute, other arguments and keywords they
  give, the request follows no NULL pointer, uses no deleted object and no invalid iterator, and leads to a state that the
  handlers' calls on objects of their own types reach. A name that the type's table does not have, or arguments that the flags
  of the entry refuse, raise an exception and change nothing.
\<close>

theorem requests_type_safe:
  assumes "parse_respects_types py" and "reachable py ldb R w" and "may_request py req R w"
    and "serve py ldb req w = (r, w')"
  shows "r \<notin> {Crash NullDeref, Crash UseAfterFree, Crash InvalidIterator} \<and>
    ((\<forall>f. r \<noteq> Crash f) \<longrightarrow> reachable py ldb (refs_after_request req r R) w') \<and>
    (\<forall>a name args ob ty. req = Call_method a name args \<longrightarrow> heap w a = Some ob \<longrightarrow>
       type_object py ldb (type_of ob) = Some ty \<longrightarrow>
       (case find_method (tp_methods ty) name of
          None \<Rightarrow> r = Raise AttributeError \<and> w' = w
        | Some m \<Rightarrow> flags_accept (ml_flags m) args \<or> r = Raise TypeError \<and> w' = w))"
proof (intro conjI)
  show "\<forall>a name args ob ty. req = Call_method a name args \<longrightarrow> heap w a = Some ob \<longrightarrow>
       type_object py ldb (type_of ob) = Some ty \<longrightarrow>
       (case find_method (tp_methods ty) name of
          None \<Rightarrow> r = Raise AttributeError \<and> w' = w
        | Some m \<Rightarrow> flags_accept (ml_flags m) args \<or> r = Raise TypeError \<and> w' = w)"
    using assms(4) by (intro allI impI) (rule refused_method, simp_all)
  from request_outcome [OF assms(3), of ldb] consider
      c where "permitted py c R w" "run_call py ldb c w = (r, w')" "refs_after_request req r R = refs_after c r R"
    | "w' = w" "r \<in> {Raise AttributeError, Raise TypeError, Ret None}" "refs_after_request req r R = R"
    unfolding outcome_of_request_def assms(4) by auto
  then have "r \<notin> {Crash NullDeref, Crash UseAfterFree, Crash InvalidIterator} \<and>
    ((\<forall>f. r \<noteq> Crash f) \<longrightarrow> reachable py ldb (refs_after_request req r R) w')"
  proof cases
    case 1
    note step = call_step [OF assms(1) reachable_good [OF assms(1,2)] 1(1,2)]
    have "reachable py ldb (refs_after_request req r R) w'" if "\<forall>f. r \<noteq> Crash f"
      unfolding 1(3) using that by (intro reachable.step [OF assms(2) 1(1,2)]) simp
    with step show ?thesis by auto
  next
    case 2
    with assms(2) show ?thesis by auto
  qed
  then show "r \<notin> {Crash NullDeref, Crash UseAfterFree, Crash InvalidIterator}"
    "(\<forall>f. r \<noteq> Crash f) \<longrightarrow> reachable py ldb (refs_after_request req r R) w'" by simp_all
qed

text \<open>Method \<open>Close\<close>, which the snapshots of the example do not have\<close>

theorem requests_type_safe_witness:
  "serve demo_py mem_ldb (Call_method 1 ''Close'' no_args) (snd demo_end) = (Raise AttributeError, snd demo_end)"
proof -
  have "case heap (snd demo_end) 1 of Some (ObjSnapshot s) \<Rightarrow> True | _ \<Rightarrow> False"
    unfolding demo_end_def by code_simp
  then obtain s where s: "heap (snd demo_end) 1 = Some (ObjSnapshot s)"
    by (auto split: option.splits pyobject.splits)
  have p: "may_request demo_py (Call_method 1 ''Close'' no_args) (fst demo_end) (snd demo_end)"
    by (simp add: s demo_refs holds_args_def arg_values_def no_args_def del: One_nat_def)
  obtain r w' where r: "serve demo_py mem_ldb (Call_method 1 ''Close'' no_args) (snd demo_end) = (r, w')" by fastforce
  have f: "find_method (tp_methods (Snapshot_type_object demo_py mem_ldb)) ''Close'' = None"
    by (simp add: Snapshot_type_object_def PyLevelDBSnapshot_methods_def find_method_def)
  from requests_type_safe [OF demo_parse demo_reachable p r, THEN conjunct2, THEN conjunct2, rule_format, OF refl s, of "Snapshot_type_object demo_py mem_ldb"]
  show ?thesis unfolding r by (simp add: f)
qed

section \<open>Garbage collection\<close>

text \<open>What the collector finds from an object: it asks only those whose type has a traversal.\<close>

definition visited :: "py_api \<Rightarrow> ('d, 'it, 'sn, 'fs) leveldb \<Rightarrow> ('d, 'it, 'sn, 'fs) world \<Rightarrow> addr \<Rightarrow> addr list" where
  "visited py ldb w b =
     (case heap w b of
        None \<Rightarrow> []
      | Some ob \<Rightarrow>
          (case type_object py ldb (type_of ob) of
             None \<Rightarrow> []
           | Some ty \<Rightarrow> (case tp_traverse ty of None \<Rightarrow> [] | Some traverse \<Rightarrow> traverse w b)))"

lemma visited_simps:
  "heap w b = None \<Longrightarrow> visited py ldb w b = []"
  "heap w b = Some ob \<Longrightarrow> visited py ldb w b = (case po_db (pobj_of ob) of None \<Rightarrow> [] | Some a \<Rightarrow> [a])"
  by (cases ob; auto simp: visited_def type_objects PyLevelDBSnapshot_traverse_def PyLevelDBIter_traverse_def)+

lemma visitors: "{b. a \<in> set (visited py ldb w b)} = holders (shape_of w) a"
proof (rule set_eqI)
  show "b \<in> {b. a \<in> set (visited py ldb w b)} \<longleftrightarrow> b \<in> holders (shape_of w) a" for b
    by (cases "heap w b") (auto simp: visited_simps dependents_def split: option.splits)
qed

lemma po_refs_count: "po_refs (pobj_of ob) = ob_refcnt ob"
  by (cases ob) simp_all

text \<open>
  C15: the collector's sums. In every reachable state the count of any object, less the
  references that the traversals of all objects report on it, is what the program itself holds:
  each counted reference between objects is reported exactly once, and nothing else is.
\<close>

theorem traversals_report_references:
  assumes "parse_respects_types py" and "reachable py ldb R w" and "heap w a = Some ob"
  shows "ob_refcnt ob = R a + card {b. a \<in> set (visited py ldb w b)} \<and> (\<forall>b. distinct (visited py ldb w b))"
proof -
  have "owned R (shape_of w)" and "objs (shape_of w) a = Some (pobj_of ob)"
    using reachable_good [OF assms(1,2)] assms(3) by (simp_all add: good_def)
  from owned_obj(3) [OF this] have "ob_refcnt ob = R a + card {b. a \<in> set (visited py ldb w b)}"
    by (simp add: visitors po_refs_count)
  moreover have "distinct (visited py ldb w b)" for b
    by (cases "heap w b") (auto simp: visited_simps split: option.splits)
  ultimately show ?thesis by simp
qed

theorem traversals_report_references_witness:
  "\<exists>ob. heap (snd demo_end) 0 = Some ob \<and> ob_refcnt ob = card {b. 0 \<in> set (visited demo_py mem_ldb (snd demo_end) b)}"
proof -
  have "heap (snd demo_end) 0 \<noteq> None" unfolding demo_end_def by code_simp
  then obtain ob where ob: "heap (snd demo_end) 0 = Some ob" by auto
  from traversals_report_references [OF demo_parse demo_reachable ob] show ?thesis by (simp add: ob demo_refs)
qed

end
