(* ===== verification/ModuleInit.thy ===== *)
theory ModuleInit
  imports Prelude
begin

text \<open>
  The initialisation of the extension module (\<open>leveldb_ext.cc\<close>): the calls of the interpreter it
  makes in their order, any of which may fail, and the references it counts.
\<close>

section \<open>State\<close>

datatype ext_type = PyLevelDB_Type | PyLevelDBSnapshot_Type | PyWriteBatch_Type | PyLevelDBIter_Type

instantiation ext_type :: enum
begin

definition enum_ext_type :: "ext_type list" where
  "enum_ext_type = [PyLevelDB_Type, PyLevelDBSnapshot_Type, PyWriteBatch_Type, PyLevelDBIter_Type]"

definition enum_all_ext_type :: "(ext_type \<Rightarrow> bool) \<Rightarrow> bool" where
  "enum_all_ext_type P \<longleftrightarrow>
     P PyLevelDB_Type \<and> P PyLevelDBSnapshot_Type \<and> P PyWriteBatch_Type \<and> P PyLevelDBIter_Type"

definition enum_ex_ext_type :: "(ext_type \<Rightarrow> bool) \<Rightarrow> bool" where
  "enum_ex_ext_type P \<longleftrightarrow>
     P PyLevelDB_Type \<or> P PyLevelDBSnapshot_Type \<or> P PyWriteBatch_Type \<or> P PyLevelDBIter_Type"

instance
proof
  show "(UNIV :: ext_type set) = set enum_class.enum"
    by (auto simp: enum_ext_type_def intro: ext_type.exhaust)
  show "distinct (enum_class.enum :: ext_type list)"
    by (simp add: enum_ext_type_def)
  fix P :: "ext_type \<Rightarrow> bool"
  show "enum_class.enum_all P = Ball UNIV P"
    unfolding enum_all_ext_type_def ball_UNIV by (metis ext_type.exhaust)
  show "enum_class.enum_ex P = Bex UNIV P"
    unfolding enum_ex_ext_type_def bex_UNIV by (metis ext_type.exhaust)
qed

end

datatype mod_object = LevelDBException | TypeObject ext_type

datatype init_call =
    Create_module
  | New_exception
  | Add_object string mod_object
  | Type_ready ext_type

text \<open>
  \<open>mi_module\<close> is the reference count of the module, with its attributes; \<open>mi_refs\<close> counts the
  references on the exception and on the type objects, which are static and start with one. An
  object without references does not exist. \<open>mi_exception\<close> is the variable \<open>leveldb_exception\<close>.
\<close>

record interp =
  mi_module :: "nat option"
  mi_attrs :: "(string \<times> mod_object) list"
  mi_refs :: "mod_object \<Rightarrow> nat"
  mi_ready :: "ext_type list"
  mi_exception :: "mod_object option"
  mi_threads :: bool

definition static_refs :: "mod_object \<Rightarrow> nat" where
  "static_refs ob = (case ob of LevelDBException \<Rightarrow> 0 | TypeObject t \<Rightarrow> 1)"

definition before_init :: interp where
  "before_init = \<lparr>mi_module = None, mi_attrs = [], mi_refs = static_refs, mi_ready = [],
     mi_exception = None, mi_threads = False\<rparr>"

section \<open>Calls of the interpreter\<close>

text \<open>
  \<open>PyModule_AddObject\<close> takes over the caller's reference when it succeeds, and only then.
  Dropping the last reference on the module drops those its attributes hold.
\<close>

definition add_object :: "(init_call \<Rightarrow> bool) \<Rightarrow> string \<Rightarrow> mod_object \<Rightarrow> interp \<Rightarrow> bool \<times> interp" where
  "add_object fails name ob s =
     (if fails (Add_object name ob) then (False, s)
      else (True, s\<lparr>mi_attrs := mi_attrs s @ [(name, ob)]\<rparr>))"

definition type_ready :: "(init_call \<Rightarrow> bool) \<Rightarrow> ext_type \<Rightarrow> interp \<Rightarrow> bool \<times> interp" where
  "type_ready fails t s =
     (if fails (Type_ready t) then (False, s) else (True, s\<lparr>mi_ready := mi_ready s @ [t]\<rparr>))"

definition new_exception :: "(init_call \<Rightarrow> bool) \<Rightarrow> interp \<Rightarrow> bool \<times> interp" where
  "new_exception fails s =
     (if fails New_exception then (False, s\<lparr>mi_exception := None\<rparr>)
      else (True, s\<lparr>mi_exception := Some LevelDBException,
                    mi_refs := (mi_refs s)(LevelDBException := mi_refs s LevelDBException + 1)\<rparr>))"

definition Py_INCREF_type :: "ext_type \<Rightarrow> interp \<Rightarrow> interp" where
  "Py_INCREF_type t s = s\<lparr>mi_refs := (mi_refs s)(TypeObject t := mi_refs s (TypeObject t) + 1)\<rparr>"

definition Py_DECREF_module :: "interp \<Rightarrow> interp" where
  "Py_DECREF_module s =
     (case mi_module s of
        None \<Rightarrow> s
      | Some n \<Rightarrow>
          if n \<le> 1
          then s\<lparr>mi_module := None, mi_attrs := [],
                 mi_refs := (\<lambda>ob. mi_refs s ob - count_list (map snd (mi_attrs s)) ob)\<rparr>
          else s\<lparr>mi_module := Some (n - 1)\<rparr>)"

section \<open>Initialisation\<close>

text \<open>A step; when it fails the module is dropped and the initialisation returns NULL.\<close>

definition or_drop :: "(interp \<Rightarrow> bool \<times> interp) \<Rightarrow> (interp \<Rightarrow> bool \<times> interp) \<Rightarrow> interp \<Rightarrow> bool \<times> interp" where
  "or_drop step rest s =
     (case step s of (ok, s) \<Rightarrow> if ok then rest s else (False, Py_DECREF_module s))"

definition PyInit_leveldb :: "(init_call \<Rightarrow> bool) \<Rightarrow> interp \<Rightarrow> bool \<times> interp" where
  "PyInit_leveldb fails s =
     (if fails Create_module then (False, s)
      else
        (or_drop (new_exception fails)
        (or_drop (add_object fails ''LevelDBError'' LevelDBException)
        (or_drop (type_ready fails PyLevelDB_Type)
        (or_drop (type_ready fails PyLevelDBSnapshot_Type)
        (or_drop (type_ready fails PyWriteBatch_Type)
        (or_drop (type_ready fails PyLevelDBIter_Type)
        (or_drop (\<lambda>s. add_object fails ''LevelDB'' (TypeObject PyLevelDB_Type) (Py_INCREF_type PyLevelDB_Type s))
        (or_drop (\<lambda>s. add_object fails ''Snapshot'' (TypeObject PyLevelDBSnapshot_Type)
            (Py_INCREF_type PyLevelDBSnapshot_Type s))
        (or_drop (\<lambda>s. add_object fails ''WriteBatch'' (TypeObject PyWriteBatch_Type)
            (Py_INCREF_type PyWriteBatch_Type s))
        (\<lambda>s. (True, s\<lparr>mi_threads := True\<rparr>)))))))))))
          (s\<lparr>mi_module := Some 1, mi_attrs := []\<rparr>))"

section \<open>What it leaves\<close>

text \<open>The calls in their order\<close>

definition init_calls :: "init_call list" where
  "init_calls =
     [Create_module, New_exception, Add_object ''LevelDBError'' LevelDBException,
      Type_ready PyLevelDB_Type, Type_ready PyLevelDBSnapshot_Type, Type_ready PyWriteBatch_Type,
      Type_ready PyLevelDBIter_Type,
      Add_object ''LevelDB'' (TypeObject PyLevelDB_Type),
      Add_object ''Snapshot'' (TypeObject PyLevelDBSnapshot_Type),
      Add_object ''WriteBatch'' (TypeObject PyWriteBatch_Type)]"

text \<open>The reference that the first failing call leaves over\<close>

definition leaked :: "init_call \<Rightarrow> mod_object \<Rightarrow> nat" where
  "leaked c ob = (case c of Add_object _ x \<Rightarrow> if x = ob then 1 else 0 | _ \<Rightarrow> 0)"

definition after_init :: interp where
  "after_init =
     \<lparr>mi_module = Some 1,
      mi_attrs = [(''LevelDBError'', LevelDBException), (''LevelDB'', TypeObject PyLevelDB_Type),
        (''Snapshot'', TypeObject PyLevelDBSnapshot_Type), (''WriteBatch'', TypeObject PyWriteBatch_Type)],
      mi_refs = (\<lambda>ob. if ob = LevelDBException \<or> ob = TypeObject PyLevelDBIter_Type then 1 else 2),
      mi_ready = [PyLevelDB_Type, PyLevelDBSnapshot_Type, PyWriteBatch_Type, PyLevelDBIter_Type],
      mi_exception = Some LevelDBException, mi_threads = True\<rparr>"

lemma or_drop_steps:
  "or_drop (new_exception fails) rest s =
     (if fails New_exception then (False, Py_DECREF_module (s\<lparr>mi_exception := None\<rparr>))
      else rest (s\<lparr>mi_exception := Some LevelDBException,
        mi_refs := (mi_refs s)(LevelDBException := mi_refs s LevelDBException + 1)\<rparr>))"
  "or_drop (type_ready fails t) rest s =
     (if fails (Type_ready t) then (False, Py_DECREF_module s) else rest (s\<lparr>mi_ready := mi_ready s @ [t]\<rparr>))"
  "or_drop (add_object fails name ob) rest s =
     (if fails (Add_object name ob) then (False, Py_DECREF_module s)
      else rest (s\<lparr>mi_attrs := mi_attrs s @ [(name, ob)]\<rparr>))"
  "or_drop (\<lambda>s. add_object fails name ob (Py_INCREF_type t s)) rest s =
     or_drop (add_object fails name ob) rest (Py_INCREF_type t s)"
  by (simp_all add: or_drop_def new_exception_def type_ready_def add_object_def)

lemma ext_type_all: "(\<forall>t. P t) \<longleftrightarrow>
    P PyLevelDB_Type \<and> P PyLevelDBSnapshot_Type \<and> P PyWriteBatch_Type \<and> P PyLevelDBIter_Type"
  by (simp add: enum_all_ext_type_def flip: enum_all)

lemma mod_object_all: "(\<forall>ob. P ob) \<longleftrightarrow> P LevelDBException \<and> (\<forall>t. P (TypeObject t))"
  by (metis mod_object.exhaust)

lemmas init_simps = Py_INCREF_type_def Py_DECREF_module_def before_init_def after_init_def static_refs_def
  leaked_def fun_eq_iff mod_object_all ext_type_all

text \<open>
  C39: initialising the module. When no call fails, the module has its four attributes, all four
  types are ready, the exception has the one reference of the module and every type its own and
  one from the module when it is an attribute. When a call fails, NULL is returned and the module
  does not exist any more; the first failing call decides what is left: an object that could not
  be added keeps one reference too many, and the variable \<open>leveldb_exception\<close> refers to an
  exception that no longer exists exactly when the exception had been added before.
\<close>

theorem PyInit_leveldb_correct:
  "case find fails init_calls of
     None \<Rightarrow> PyInit_leveldb fails before_init = (True, after_init)
   | Some c \<Rightarrow> \<exists>s. PyInit_leveldb fails before_init = (False, s) \<and> mi_module s = None \<and> mi_attrs s = [] \<and>
       mi_refs s = (\<lambda>ob. static_refs ob + leaked c ob) \<and>
       mi_exception s = (if c \<in> {Create_module, New_exception} then None else Some LevelDBException) \<and>
       (mi_exception s = Some LevelDBException \<and> mi_refs s LevelDBException = 0 \<longleftrightarrow>
          c \<notin> set (take 3 init_calls))"
  unfolding init_calls_def find.simps PyInit_leveldb_def or_drop_steps
  apply (cases "fails (Create_module)", simp add: init_simps)
  apply (cases "fails (New_exception)", simp add: init_simps)
  apply (cases "fails (Add_object ''LevelDBError'' LevelDBException)", simp add: init_simps)
  apply (cases "fails (Type_ready PyLevelDB_Type)", simp add: init_simps)
  apply (cases "fails (Type_ready PyLevelDBSnapshot_Type)", simp add: init_simps)
  apply (cases "fails (Type_ready PyWriteBatch_Type)", simp add: init_simps)
  apply (cases "fails (Type_ready PyLevelDBIter_Type)", simp add: init_simps)
  apply (cases "fails (Add_object ''LevelDB'' (TypeObject PyLevelDB_Type))", simp add: init_simps)
  apply (cases "fails (Add_object ''Snapshot'' (TypeObject PyLevelDBSnapshot_Type))", simp add: init_simps)
  apply (cases "fails (Add_object ''WriteBatch'' (TypeObject PyWriteBatch_Type))", simp add: init_simps)
  apply (simp add: init_simps)
  done

end
