(* ===== verification/SnappyStubs.thy ===== *)
theory SnappyStubs
  imports Prelude "HOL-Library.Monad_Syntax"
begin

unbundle bit_operations_syntax

text \<open>
  \<open>snappy-stubs-internal.h\<close>: unaligned little-endian access, bit scans and varints. Memory
  is a list of bytes and a pointer an index into it; \<open>None\<close> is an access outside the list.
\<close>

section \<open>Memory\<close>

definition mem_read :: "bytes \<Rightarrow> nat \<Rightarrow> nat \<Rightarrow> bytes option" where
  "mem_read m p n = (if p + n \<le> length m then Some (take n (drop p m)) else None)"

definition mem_byte :: "bytes \<Rightarrow> nat \<Rightarrow> byte option" where
  "mem_byte m p = (if p < length m then Some (m ! p) else None)"

definition mem_write :: "bytes \<Rightarrow> nat \<Rightarrow> bytes \<Rightarrow> bytes option" where
  "mem_write m p bs =
     (if p + length bs \<le> length m then Some (take p m @ bs @ drop (p + length bs) m) else None)"

named_theorems mem_simps \<open>successful reads and writes\<close>

lemma mem_read_Some [mem_simps]: "p + n \<le> length m \<Longrightarrow> mem_read m p n = Some (take n (drop p m))"
  by (simp add: mem_read_def)

lemma mem_write_Some [mem_simps]:
  "p + length bs \<le> length m \<Longrightarrow> mem_write m p bs = Some (take p m @ bs @ drop (p + length bs) m)"
  by (simp add: mem_write_def)

lemma mem_writeD:
  assumes "mem_write m p bs = Some m'"
  shows "length m' = length m" and "take p m' = take p m" and "take (p + length bs) m' = take p m @ bs"
    and "p + length bs \<le> length m"
  using assms by (auto simp: mem_write_def split: if_splits)

lemma mem_readD: "mem_read m p n = Some bs \<Longrightarrow> bs = take n (drop p m) \<and> length bs = n \<and> p + n \<le> length m"
  by (auto simp: mem_read_def split: if_splits)

text \<open>A failed \<open>assert\<close> is \<open>None\<close>, like an access outside a buffer.\<close>

definition assert_that :: "bool \<Rightarrow> unit option" where
  "assert_that b = (if b then Some () else None)"

lemma assert_True [simp]: "b \<Longrightarrow> assert_that b = Some ()"
  by (simp add: assert_that_def)

section \<open>Little-endian values\<close>

fun le_nat :: "bytes \<Rightarrow> nat" where
  "le_nat [] = 0"
| "le_nat (b # bs) = unat b + 256 * le_nat bs"

fun le_bytes :: "nat \<Rightarrow> nat \<Rightarrow> bytes" where
  "le_bytes 0 v = []"
| "le_bytes (Suc k) v = of_nat v # le_bytes k (v div 256)"

lemma length_le_bytes [simp]: "length (le_bytes k v) = k"
  by (induction k arbitrary: v) auto

lemma unat_byte [simp]: "unat (of_nat v :: byte) = v mod 256"
  by (simp add: unat_of_nat)

lemma unat_byte_less [simp]: "unat (b :: byte) < 256"
  using unsigned_less [of b] by simp

lemma le_nat_bytes: "le_nat (le_bytes k v) = v mod 256 ^ k"
  by (induction k arbitrary: v) (simp_all add: mod_mult2_eq add.commute)

lemma digit_less: "(a::nat) < 256 \<Longrightarrow> x < y \<Longrightarrow> a + 256 * x < 256 * y"
  by linarith

lemma le_nat_bound: "le_nat bs < 256 ^ length bs"
proof (induction bs)
  case (Cons b bs)
  have "unat b < 256" by simp
  then have "unat b + 256 * le_nat bs < 256 * 256 ^ length bs" using Cons by (rule digit_less)
  then show ?case by simp
qed simp

lemma le_nat_append: "le_nat (xs @ ys) = le_nat xs + 256 ^ length xs * le_nat ys"
  by (induction xs) (simp_all add: algebra_simps)

lemma le_nat_take: "le_nat (take k bs) = le_nat bs mod 256 ^ k"
proof (cases "k \<le> length bs")
  case True
  have "le_nat bs = le_nat (take k bs) + 256 ^ k * le_nat (drop k bs)"
    using le_nat_append [of "take k bs" "drop k bs"] True by (simp add: min_def)
  moreover have "le_nat (take k bs) < 256 ^ k" using le_nat_bound [of "take k bs"] True by (simp add: min_absorb2)
  ultimately show ?thesis by simp
next
  case False
  then have "(256::nat) ^ length bs \<le> 256 ^ k" by (intro power_increasing) auto
  then have "le_nat bs < 256 ^ k" using le_nat_bound [of bs] by linarith
  with False show ?thesis by simp
qed

lemma digit_eq: "(a::nat) < 256 \<Longrightarrow> b < 256 \<Longrightarrow> a + 256 * x = b + 256 * y \<longleftrightarrow> a = b \<and> x = y"
  by (metis add_right_imp_eq mod_less mod_mult_self2 mult_cancel1 add_left_imp_eq zero_neq_numeral)

lemma le_nat_inj: "length xs = length ys \<Longrightarrow> le_nat xs = le_nat ys \<longleftrightarrow> xs = ys"
proof (induction xs arbitrary: ys)
  case (Cons x xs)
  then obtain y ys' where ys: "ys = y # ys'" by (cases ys) auto
  have "unat x + 256 * le_nat xs = unat y + 256 * le_nat ys' \<longleftrightarrow> unat x = unat y \<and> le_nat xs = le_nat ys'"
    by (rule digit_eq) simp_all
  moreover have "le_nat xs = le_nat ys' \<longleftrightarrow> xs = ys'" using Cons ys by simp
  ultimately show ?case using ys by (simp add: word_unat_eq_iff)
qed simp

section \<open>Unaligned access\<close>

definition UNALIGNED_LOAD32 :: "bytes \<Rightarrow> nat \<Rightarrow> 32 word option" where
  "UNALIGNED_LOAD32 m p = map_option (\<lambda>bs. of_nat (le_nat bs)) (mem_read m p 4)"

definition UNALIGNED_LOAD64 :: "bytes \<Rightarrow> nat \<Rightarrow> 64 word option" where
  "UNALIGNED_LOAD64 m p = map_option (\<lambda>bs. of_nat (le_nat bs)) (mem_read m p 8)"

definition Load32 :: "bytes \<Rightarrow> nat \<Rightarrow> 32 word option" where
  "Load32 m p = UNALIGNED_LOAD32 m p"

definition Store16 :: "bytes \<Rightarrow> nat \<Rightarrow> 16 word \<Rightarrow> bytes option" where
  "Store16 m p v = mem_write m p (le_bytes 2 (unat v))"

text \<open>\<open>UnalignedCopy64\<close> from \<open>src\<close> to \<open>dst\<close>: eight bytes are loaded, then stored.\<close>

definition UnalignedCopy64 :: "bytes \<Rightarrow> nat \<Rightarrow> bytes \<Rightarrow> nat \<Rightarrow> bytes option" where
  "UnalignedCopy64 src p dst q = do { v \<leftarrow> UNALIGNED_LOAD64 src p; mem_write dst q (le_bytes 8 (unat v)) }"

lemma le_bytes_nat: "length bs = k \<Longrightarrow> le_bytes k (le_nat bs) = bs"
proof (induction bs arbitrary: k)
  case (Cons b bs)
  have "unat b < 256" by simp
  then have "(unat b + 256 * le_nat bs) div 256 = le_nat bs" "unat (of_nat (unat b + 256 * le_nat bs) :: byte) = unat b"
    by (simp_all only: unat_byte) simp_all
  then have "(unat b + 256 * le_nat bs) div 256 = le_nat bs" "of_nat (unat b + 256 * le_nat bs) = b"
    by (simp_all only: word_unat_eq_iff)
  with Cons show ?case by (cases k) (simp_all del: of_nat_add of_nat_mult)
qed simp

lemma unat_le_nat32 [simp]: "length bs = 4 \<Longrightarrow> unat (of_nat (le_nat bs) :: 32 word) = le_nat bs"
  using le_nat_bound [of bs] by (simp add: unat_of_nat)

lemma unat_le_nat64 [simp]: "length bs = 8 \<Longrightarrow> unat (of_nat (le_nat bs) :: 64 word) = le_nat bs"
  using le_nat_bound [of bs] by (simp add: unat_of_nat)

lemma UnalignedCopy64_eq:
  "UnalignedCopy64 src p dst q = do { bs \<leftarrow> mem_read src p 8; mem_write dst q bs }"
proof (cases "mem_read src p 8")
  case (Some bs)
  then have "length bs = 8" by (auto dest: mem_readD)
  with Some show ?thesis by (simp add: UnalignedCopy64_def UNALIGNED_LOAD64_def le_bytes_nat)
qed (simp add: UnalignedCopy64_def UNALIGNED_LOAD64_def)

lemma LOAD32_Some: "p + 4 \<le> length m \<Longrightarrow> UNALIGNED_LOAD32 m p = Some (of_nat (le_nat (take 4 (drop p m))))"
  by (simp add: UNALIGNED_LOAD32_def mem_simps)

lemma LOAD64_Some: "p + 8 \<le> length m \<Longrightarrow> UNALIGNED_LOAD64 m p = Some (of_nat (le_nat (take 8 (drop p m))))"
  by (simp add: UNALIGNED_LOAD64_def mem_simps)

text \<open>Equal words are equal bytes.\<close>

lemma LOAD32_eq:
  assumes "p + 4 \<le> length m" and "q + 4 \<le> length m'"
  shows "UNALIGNED_LOAD32 m p = UNALIGNED_LOAD32 m' q \<longleftrightarrow> take 4 (drop p m) = take 4 (drop q m')"
proof -
  let ?x = "take 4 (drop p m)" and ?y = "take 4 (drop q m')"
  have l: "length ?x = 4" "length ?y = 4" using assms by simp_all
  have "(of_nat (le_nat ?x) :: 32 word) = of_nat (le_nat ?y) \<longleftrightarrow> le_nat ?x = le_nat ?y"
    using l by (metis unat_le_nat32)
  with l show ?thesis using assms by (simp add: LOAD32_Some le_nat_inj)
qed

section \<open>Bit scans\<close>

text \<open>The portable versions; the builtins compute the same on their domain.\<close>

fun Log2Floor_loop :: "nat \<Rightarrow> 32 word \<Rightarrow> nat \<Rightarrow> nat" where
  "Log2Floor_loop i value log =
     (let shift = 2 ^ i; x = drop_bit shift value;
          (value, log) = (if x \<noteq> 0 then (x, log + shift) else (value, log))
      in case i of 0 \<Rightarrow> log | Suc j \<Rightarrow> Log2Floor_loop j value log)"

definition Log2Floor :: "32 word \<Rightarrow> int" where
  "Log2Floor n = (if n = 0 then -1 else int (Log2Floor_loop 4 n 0))"

fun FindLSB_loop :: "nat \<Rightarrow> 32 word \<Rightarrow> nat \<Rightarrow> nat" where
  "FindLSB_loop i n rc =
     (let shift = 2 ^ i; x = push_bit shift n;
          (n, rc) = (if x \<noteq> 0 then (x, rc - shift) else (n, rc))
      in case i of 0 \<Rightarrow> rc | Suc j \<Rightarrow> FindLSB_loop j n rc)"

definition FindLSBSetNonZero :: "32 word \<Rightarrow> nat" where
  "FindLSBSetNonZero n = FindLSB_loop 4 n 31"

definition FindLSBSetNonZero64 :: "64 word \<Rightarrow> nat" where
  "FindLSBSetNonZero64 n =
     (let bottombits = (ucast n :: 32 word) in
      if bottombits = 0 then 32 + FindLSBSetNonZero (ucast (drop_bit 32 n))
      else FindLSBSetNonZero bottombits)"

declare Log2Floor_loop.simps [simp del] FindLSB_loop.simps [simp del]

lemma Log2Floor_loop_correct:
  assumes "v \<noteq> 0" and "unat v < 2 ^ (2 ^ Suc i)"
  shows "\<exists>k. Log2Floor_loop i v l = l + k \<and> 2 ^ k \<le> unat v \<and> unat v < 2 ^ Suc k"
  using assms
proof (induction i arbitrary: v l)
  case 0
  have x: "unat (drop_bit 1 v) = unat v div 2"
    by (simp only: unat_drop_bit_eq) (simp add: drop_bit_eq_div)
  have "0 < unat v" using 0 by (simp add: unat_gt_0)
  show ?case
  proof (cases "drop_bit 1 v = 0")
    case True
    then have "unat v = 1" using x \<open>0 < unat v\<close> by (simp add: unat_eq_zero)
    with True show ?thesis by (intro exI [of _ 0]) (simp add: Log2Floor_loop.simps)
  next
    case False
    then have "2 \<le> unat v" using x by (metis div_less not_le unat_eq_zero)
    with False 0 show ?thesis by (intro exI [of _ 1]) (simp add: Log2Floor_loop.simps)
  qed
next
  case (Suc j)
  let ?s = "2 ^ Suc j :: nat" and ?x = "drop_bit (2 ^ Suc j) v"
  have x: "unat ?x = unat v div 2 ^ ?s" by (simp only: unat_drop_bit_eq) (simp only: drop_bit_eq_div)
  have sq: "(2::nat) ^ (2 ^ Suc (Suc j)) = 2 ^ ?s * 2 ^ ?s" by (simp flip: power_add)
  show ?case
  proof (cases "?x = 0")
    case True
    then have "unat v div 2 ^ ?s = 0" using x by simp
    then have "unat v < 2 ^ ?s" by (simp add: div_eq_0_iff)
    with Suc.IH [OF Suc.prems(1), of l] True show ?thesis by (simp add: Log2Floor_loop.simps [of "Suc j"])
  next
    case False
    have "unat ?x < 2 ^ ?s" using Suc.prems(2) unfolding x sq by (rule less_mult_imp_div_less)
    from Suc.IH [OF False this, of "l + ?s"] obtain k where
      k: "Log2Floor_loop j ?x (l + ?s) = l + ?s + k" "2 ^ k \<le> unat ?x" "unat ?x < 2 ^ Suc k" by blast
    have "2 ^ k * 2 ^ ?s \<le> unat v" using k(2) unfolding x by (simp add: less_eq_div_iff_mult_less_eq)
    moreover have "unat v < 2 ^ Suc k * 2 ^ ?s" using k(3) unfolding x by (simp add: div_less_iff_less_mult)
    ultimately have "2 ^ (?s + k) \<le> unat v \<and> unat v < 2 ^ Suc (?s + k)"
      by (simp add: power_add mult.commute mult.left_commute)
    with False k(1) show ?thesis
      by (intro exI [of _ "?s + k"]) (simp add: Log2Floor_loop.simps [of "Suc j"])
  qed
qed

lemma Log2Floor_eq: "2 ^ k \<le> unat n \<Longrightarrow> unat n < 2 ^ Suc k \<Longrightarrow> Log2Floor n = int k"
proof -
  assume k: "2 ^ k \<le> unat n" "unat n < 2 ^ Suc k"
  then have n: "n \<noteq> 0" by auto
  have "unat n < 2 ^ 2 ^ Suc 4" using unsigned_less [of n] by simp
  from Log2Floor_loop_correct [OF n this, of 0] obtain j where
    j: "Log2Floor_loop 4 n 0 = j" "2 ^ j \<le> unat n" "unat n < 2 ^ Suc j" by auto
  have "(2::nat) ^ k < 2 ^ Suc j" "(2::nat) ^ j < 2 ^ Suc k" using j k by linarith+
  then have "k < Suc j" "j < Suc k" by (simp_all only: power_strict_increasing_iff one_less_numeral_iff semiring_norm)
  with j n show ?thesis by (simp add: Log2Floor_def)
qed

definition lsb_at :: "'a::len word \<Rightarrow> nat \<Rightarrow> bool" where
  "lsb_at n k \<longleftrightarrow> bit n k \<and> (\<forall>j<k. \<not> bit n j)"

lemma bit_ex: "n \<noteq> 0 \<Longrightarrow> \<exists>m. bit (n :: 'a::len word) m"
  by (metis bit_0_eq bit_eqI bot_apply bot_bool_def)

lemma lsb_exists: "n \<noteq> 0 \<Longrightarrow> \<exists>k. lsb_at n k"
proof -
  assume "n \<noteq> 0"
  then obtain m where "bit n m" using bit_ex by blast
  then have "bit n (LEAST m. bit n m)" by (rule LeastI)
  then show ?thesis unfolding lsb_at_def by (blast dest: not_less_Least)
qed

lemma lsb_push:
  assumes "lsb_at (n :: 32 word) k"
  shows "push_bit s n \<noteq> 0 \<longleftrightarrow> k + s < 32" and "k + s < 32 \<Longrightarrow> lsb_at (push_bit s n) (k + s)"
proof -
  show l: "k + s < 32 \<Longrightarrow> lsb_at (push_bit s n) (k + s)"
    using assms by (auto simp: lsb_at_def bit_push_bit_iff)
  show "push_bit s n \<noteq> 0 \<longleftrightarrow> k + s < 32"
  proof
    assume "push_bit s n \<noteq> 0"
    then obtain m where "bit (push_bit s n) m" using bit_ex by blast
    then have "s \<le> m" "m < 32" "bit n (m - s)" by (auto simp: bit_push_bit_iff)
    then have "k \<le> m - s" using assms unfolding lsb_at_def by (meson not_le)
    with \<open>s \<le> m\<close> \<open>m < 32\<close> show "k + s < 32" by linarith
  next
    assume "k + s < 32"
    with l show "push_bit s n \<noteq> 0" by (force simp: lsb_at_def)
  qed
qed

lemma FindLSB_loop_correct:
  assumes "lsb_at n k" and "32 \<le> k + 2 ^ Suc i" and "31 \<le> k + rc"
  shows "FindLSB_loop i n rc = rc + k - 31"
  using assms
proof (induction i arbitrary: n k rc)
  case 0
  have "k < 32" using 0(1) bit_imp_le_length [of n k] by (simp add: lsb_at_def)
  with 0 lsb_push [OF 0(1), of 1] show ?case by (auto simp: FindLSB_loop.simps)
next
  case (Suc j)
  let ?s = "2 ^ Suc j :: nat"
  have "k < 32" using Suc.prems(1) bit_imp_le_length [of n k] by (simp add: lsb_at_def)
  show ?case
  proof (cases "push_bit ?s n = 0")
    case True
    then have "32 \<le> k + ?s" using lsb_push(1) [OF Suc.prems(1), of ?s] by simp
    with Suc.IH [OF Suc.prems(1) this Suc.prems(3)] True show ?thesis
      by (simp add: FindLSB_loop.simps [of "Suc j"])
  next
    case False
    then have l: "k + ?s < 32" "lsb_at (push_bit ?s n) (k + ?s)" using lsb_push [OF Suc.prems(1), of ?s] by simp_all
    have "32 \<le> k + ?s + 2 ^ Suc j" using Suc.prems(2) by simp
    from Suc.IH [OF l(2) this, of "rc - ?s"] l(1) Suc.prems(3) False show ?thesis
      by (simp add: FindLSB_loop.simps [of "Suc j"])
  qed
qed

lemma FindLSBSetNonZero_lsb: "lsb_at n k \<Longrightarrow> FindLSBSetNonZero n = k"
  by (simp add: FindLSBSetNonZero_def FindLSB_loop_correct)

lemma FindLSBSetNonZero64_lsb:
  assumes "lsb_at n k"
  shows "FindLSBSetNonZero64 n = k"
proof (cases "k < 32")
  case True
  then have "lsb_at (ucast n :: 32 word) k" using assms by (auto simp: lsb_at_def bit_ucast_iff)
  moreover from this have "(ucast n :: 32 word) \<noteq> 0" by (force simp: lsb_at_def)
  ultimately show ?thesis by (simp add: FindLSBSetNonZero64_def FindLSBSetNonZero_lsb)
next
  case False
  have k: "k < 64" using assms bit_imp_le_length [of n k] by (simp add: lsb_at_def)
  have "(ucast n :: 32 word) = 0"
    using assms False by (intro bit_eqI) (auto simp: lsb_at_def bit_ucast_iff)
  moreover have "lsb_at (ucast (drop_bit 32 n) :: 32 word) (k - 32)"
    using assms False k by (auto simp: lsb_at_def bit_ucast_iff bit_drop_bit_eq)
  ultimately show ?thesis using False by (simp add: FindLSBSetNonZero64_def FindLSBSetNonZero_lsb)
qed

section \<open>Bits of little-endian values\<close>

lemma bit_le_nat: "bit (le_nat bs) i \<longleftrightarrow> i div 8 < length bs \<and> bit (bs ! (i div 8)) (i mod 8)"
proof (induction bs arbitrary: i)
  case (Cons b bs)
  have "le_nat (b # bs) = unat b OR push_bit 8 (le_nat bs)"
  proof -
    have "256 * le_nat bs = push_bit 8 (le_nat bs)" by (simp add: push_bit_eq_mult)
    then have "le_nat (b # bs) = unat b + push_bit 8 (le_nat bs)" by simp
    also have "\<dots> = unat b OR push_bit 8 (le_nat bs)"
      by (rule disjunctive_add) (auto simp: bit_push_bit_iff bit_unsigned_iff dest: bit_imp_le_length)
    finally show ?thesis .
  qed
  then have "bit (le_nat (b # bs)) i \<longleftrightarrow> bit b i \<or> 8 \<le> i \<and> bit (le_nat bs) (i - 8)"
    by (auto simp: bit_or_iff bit_push_bit_iff bit_unsigned_iff)
  also have "\<dots> \<longleftrightarrow> i div 8 < length (b # bs) \<and> bit ((b # bs) ! (i div 8)) (i mod 8)"
  proof (cases "i < 8")
    case False
    then have "i div 8 = Suc ((i - 8) div 8)" "i mod 8 = (i - 8) mod 8" by (simp_all add: le_div_geq le_mod_geq)
    moreover have "\<not> bit b i" using False by (auto dest: bit_imp_le_length)
    ultimately show ?thesis using False Cons.IH [of "i - 8"] by simp
  qed simp
  finally show ?case .
qed simp

text \<open>The least set bit of the difference of two words lies in the first byte that differs.\<close>

lemma lsb_first_difference:
  assumes l: "length xs = length ys" and k: "8 * length xs \<le> LENGTH('a::len)"
    and lsb: "lsb_at ((of_nat (le_nat xs) :: 'a word) XOR of_nat (le_nat ys)) j"
  shows "take (j div 8) xs = take (j div 8) ys" and "j div 8 < length xs" and "xs ! (j div 8) \<noteq> ys ! (j div 8)"
proof -
  have b: "bit ((of_nat (le_nat xs) :: 'a word) XOR of_nat (le_nat ys)) i \<longleftrightarrow>
      i div 8 < length xs \<and> bit (xs ! (i div 8)) (i mod 8) \<noteq> bit (ys ! (i div 8)) (i mod 8)" for i
  proof -
    have "i div 8 < length xs \<Longrightarrow> i < LENGTH('a)" using k by linarith
    then show ?thesis using l by (auto simp: bit_xor_iff bit_of_nat_iff bit_le_nat)
  qed
  show "j div 8 < length xs" "xs ! (j div 8) \<noteq> ys ! (j div 8)" using lsb b by (auto simp: lsb_at_def)
  show "take (j div 8) xs = take (j div 8) ys"
  proof (rule nth_equalityI)
    show "length (take (j div 8) xs) = length (take (j div 8) ys)" using l by simp
    fix i
    assume "i < length (take (j div 8) xs)"
    then have i: "i < j div 8" "i < length xs" by auto
    have "bit (xs ! i) m = bit (ys ! i) m" for m
    proof (cases "m < 8")
      case True
      have "8 * i + m < j" using i(1) True by linarith
      then have "\<not> bit ((of_nat (le_nat xs) :: 'a word) XOR of_nat (le_nat ys)) (8 * i + m)"
        using lsb by (simp add: lsb_at_def)
      with b [of "8 * i + m"] i(2) True show ?thesis by simp
    qed (auto dest: bit_imp_le_length)
    then show "take (j div 8) xs ! i = take (j div 8) ys ! i" using i by (simp add: bit_eq_iff)
  qed
qed

end
