(* ===== verification/SnappyTags.thy ===== *)
theory SnappyTags
  imports SnappyStubs
begin

text \<open>
  The tag bytes of the compressed format and the decoding table (\<open>char_table\<close>, \<open>MakeEntry\<close>,
  \<open>ComputeTable\<close> of \<open>snappy.cc\<close>). Table entries are 16-bit values written as natural
  numbers; the small operations on them do not leave that range.
\<close>

unbundle bit_operations_syntax

abbreviation (input) LITERAL :: nat where "LITERAL \<equiv> 0"
abbreviation (input) COPY_1_BYTE_OFFSET :: nat where "COPY_1_BYTE_OFFSET \<equiv> 1"
abbreviation (input) COPY_2_BYTE_OFFSET :: nat where "COPY_2_BYTE_OFFSET \<equiv> 2"
abbreviation (input) COPY_4_BYTE_OFFSET :: nat where "COPY_4_BYTE_OFFSET \<equiv> 3"

abbreviation (input) kMaximumTagLength :: nat where "kMaximumTagLength \<equiv> 5"

definition wordmask :: "32 word list" where
  "wordmask = [0x0, 0xff, 0xffff, 0xffffff, 0xffffffff]"

definition char_table :: "nat list" where
  "char_table = [
    0x0001, 0x0804, 0x1001, 0x2001, 0x0002, 0x0805, 0x1002, 0x2002,
    0x0003, 0x0806, 0x1003, 0x2003, 0x0004, 0x0807, 0x1004, 0x2004,
    0x0005, 0x0808, 0x1005, 0x2005, 0x0006, 0x0809, 0x1006, 0x2006,
    0x0007, 0x080a, 0x1007, 0x2007, 0x0008, 0x080b, 0x1008, 0x2008,
    0x0009, 0x0904, 0x1009, 0x2009, 0x000a, 0x0905, 0x100a, 0x200a,
    0x000b, 0x0906, 0x100b, 0x200b, 0x000c, 0x0907, 0x100c, 0x200c,
    0x000d, 0x0908, 0x100d, 0x200d, 0x000e, 0x0909, 0x100e, 0x200e,
    0x000f, 0x090a, 0x100f, 0x200f, 0x0010, 0x090b, 0x1010, 0x2010,
    0x0011, 0x0a04, 0x1011, 0x2011, 0x0012, 0x0a05, 0x1012, 0x2012,
    0x0013, 0x0a06, 0x1013, 0x2013, 0x0014, 0x0a07, 0x1014, 0x2014,
    0x0015, 0x0a08, 0x1015, 0x2015, 0x0016, 0x0a09, 0x1016, 0x2016,
    0x0017, 0x0a0a, 0x1017, 0x2017, 0x0018, 0x0a0b, 0x1018, 0x2018,
    0x0019, 0x0b04, 0x1019, 0x2019, 0x001a, 0x0b05, 0x101a, 0x201a,
    0x001b, 0x0b06, 0x101b, 0x201b, 0x001c, 0x0b07, 0x101c, 0x201c,
    0x001d, 0x0b08, 0x101d, 0x201d, 0x001e, 0x0b09, 0x101e, 0x201e,
    0x001f, 0x0b0a, 0x101f, 0x201f, 0x0020, 0x0b0b, 0x1020, 0x2020,
    0x0021, 0x0c04, 0x1021, 0x2021, 0x0022, 0x0c05, 0x1022, 0x2022,
    0x0023, 0x0c06, 0x1023, 0x2023, 0x0024, 0x0c07, 0x1024, 0x2024,
    0x0025, 0x0c08, 0x1025, 0x2025, 0x0026, 0x0c09, 0x1026, 0x2026,
    0x0027, 0x0c0a, 0x1027, 0x2027, 0x0028, 0x0c0b, 0x1028, 0x2028,
    0x0029, 0x0d04, 0x1029, 0x2029, 0x002a, 0x0d05, 0x102a, 0x202a,
    0x002b, 0x0d06, 0x102b, 0x202b, 0x002c, 0x0d07, 0x102c, 0x202c,
    0x002d, 0x0d08, 0x102d, 0x202d, 0x002e, 0x0d09, 0x102e, 0x202e,
    0x002f, 0x0d0a, 0x102f, 0x202f, 0x0030, 0x0d0b, 0x1030, 0x2030,
    0x0031, 0x0e04, 0x1031, 0x2031, 0x0032, 0x0e05, 0x1032, 0x2032,
    0x0033, 0x0e06, 0x1033, 0x2033, 0x0034, 0x0e07, 0x1034, 0x2034,
    0x0035, 0x0e08, 0x1035, 0x2035, 0x0036, 0x0e09, 0x1036, 0x2036,
    0x0037, 0x0e0a, 0x1037, 0x2037, 0x0038, 0x0e0b, 0x1038, 0x2038,
    0x0039, 0x0f04, 0x1039, 0x2039, 0x003a, 0x0f05, 0x103a, 0x203a,
    0x003b, 0x0f06, 0x103b, 0x203b, 0x003c, 0x0f07, 0x103c, 0x203c,
    0x0801, 0x0f08, 0x103d, 0x203d, 0x1001, 0x0f09, 0x103e, 0x203e,
    0x1801, 0x0f0a, 0x103f, 0x203f, 0x2001, 0x0f0b, 0x1040, 0x2040
  ]"

section \<open>The generator\<close>

text \<open>\<open>None\<close> is a failed assertion.\<close>

definition MakeEntry :: "nat \<Rightarrow> nat \<Rightarrow> nat \<Rightarrow> nat option" where
  "MakeEntry extra len copy_offset =
     (if extra = extra AND 0x7 \<and> copy_offset = copy_offset AND 0x7 \<and> len = len AND 0x7f
      then Some (len OR push_bit 8 copy_offset OR push_bit 11 extra) else None)"

text \<open>The entries in the order in which \<open>ComputeTable\<close> assigns them, by loop\<close>

definition assign_entry :: "nat \<Rightarrow> nat option \<Rightarrow> (nat list \<times> nat) option \<Rightarrow> (nat list \<times> nat) option" where
  "assign_entry i entry st =
     (case (entry, st) of
        (Some e, Some (dst, assigned)) \<Rightarrow>
          (if i < length dst then Some (dst[i := e], assigned + 1) else None)
      | _ \<Rightarrow> None)"

definition ComputeTable :: "(nat list \<times> nat) option" where
  "ComputeTable =
     (let st = Some (replicate 256 0xffff, 0);
          st = fold (\<lambda>len. assign_entry (LITERAL OR push_bit 2 (len - 1)) (MakeEntry 0 len 0)) [1..<61] st;
          st = fold (\<lambda>extra_bytes. assign_entry (LITERAL OR push_bit 2 (extra_bytes + 59))
                 (MakeEntry extra_bytes 1 0)) [1..<5] st;
          st = fold (\<lambda>len. fold (\<lambda>j. let offset = 256 * j in
                 assign_entry (COPY_1_BYTE_OFFSET OR push_bit 2 (len - 4) OR push_bit 5 (drop_bit 8 offset))
                   (MakeEntry 1 len (drop_bit 8 offset))) [0..<8]) [4..<12] st;
          st = fold (\<lambda>len. assign_entry (COPY_2_BYTE_OFFSET OR push_bit 2 (len - 1)) (MakeEntry 2 len 0)) [1..<65] st;
          st = fold (\<lambda>len. assign_entry (COPY_4_BYTE_OFFSET OR push_bit 2 (len - 1)) (MakeEntry 4 len 0)) [1..<65] st
      in st)"

text \<open>The checks at the end: every entry assigned once, and equal to the recorded table\<close>

definition ComputeTable_check :: bool where
  "ComputeTable_check =
     (case ComputeTable of
        None \<Rightarrow> False
      | Some (dst, assigned) \<Rightarrow> assigned = 256 \<and> list_all (\<lambda>e. e \<noteq> 0xffff) dst \<and> dst = char_table)"

lemma length_char_table: "length char_table = 256"
  by (simp add: char_table_def)

section \<open>What an entry says\<close>

definition table_entry :: "nat \<Rightarrow> nat" where
  "table_entry c =
     (if c mod 4 = 0 then (if c div 4 < 60 then c div 4 + 1 else 2048 * (c div 4 - 59) + 1)
      else if c mod 4 = 1 then 2048 + 256 * (c div 32) + (4 + c div 4 mod 8)
      else if c mod 4 = 2 then 2048 * 2 + (c div 4 + 1)
      else 2048 * 4 + (c div 4 + 1))"

fun entries_from :: "nat \<Rightarrow> nat list \<Rightarrow> bool" where
  "entries_from c [] = True"
| "entries_from c (e # es) = (e = table_entry c \<and> entries_from (c + 1) es)"

lemma entries_from_nth: "entries_from c es \<Longrightarrow> i < length es \<Longrightarrow> es ! i = table_entry (c + i)"
proof (induction c es arbitrary: i rule: entries_from.induct)
  case (2 c e es)
  then show ?case by (cases i) auto
qed simp

lemma char_table_nth: "c < 256 \<Longrightarrow> char_table ! c = table_entry c"
proof -
  have "entries_from 0 char_table"
    unfolding char_table_def by (simp add: table_entry_def)
  then show "c < 256 \<Longrightarrow> char_table ! c = table_entry c"
    using entries_from_nth [of 0 char_table c] by (simp add: length_char_table)
qed

lemma or_push: "k < 2 ^ n \<Longrightarrow> k OR push_bit n x = k + 2 ^ n * x" for k x n :: nat
proof -
  assume k: "k < 2 ^ n"
  have "k + push_bit n x = k OR push_bit n x"
  proof (rule disjunctive_add)
    fix m
    have "\<not> bit k m" if "n \<le> m"
    proof -
      have "(2::nat) ^ n \<le> 2 ^ m" using that by (rule power_increasing) simp
      with k have "k < 2 ^ m" by linarith
      then have "k div 2 ^ m = 0" by simp
      then show ?thesis by (simp add: bit_iff_odd)
    qed
    then show "\<not> bit k m \<or> \<not> bit (push_bit n x) m" by (auto simp: bit_push_bit_iff)
  qed
  then show ?thesis by (simp add: push_bit_eq_mult mult.commute)
qed

lemma and_masks: "x AND 0x7 = x mod 8" "x AND 0x7f = x mod 128" "x AND 0xff = x mod 256" for x :: nat
  using take_bit_eq_mask [of 3 x] take_bit_eq_mask [of 7 x] take_bit_eq_mask [of 8 x]
  by (simp_all add: take_bit_eq_mod mask_eq_exp_minus_1)

lemma MakeEntry_eq:
  "extra < 8 \<Longrightarrow> copy_offset < 8 \<Longrightarrow> len < 128 \<Longrightarrow>
     MakeEntry extra len copy_offset = Some (len + 256 * copy_offset + 2048 * extra)"
  using or_push [of len 8 copy_offset] or_push [of "len + 256 * copy_offset" 11 extra]
  by (simp add: MakeEntry_def and_masks flip: or.assoc)

text \<open>Assigning to every listed index the recorded value gives that value there.\<close>

definition agrees :: "nat \<Rightarrow> nat option \<Rightarrow> bool" where
  "agrees i e \<longleftrightarrow> i < 256 \<and> e = Some (table_entry i)"

definition filled :: "nat set \<Rightarrow> nat list \<Rightarrow> bool" where
  "filled I dst \<longleftrightarrow> length dst = 256 \<and> (\<forall>i\<in>I. dst ! i = table_entry i)"

lemma assign_fold:
  assumes "\<And>x. x \<in> set xs \<Longrightarrow> agrees (idx x) (e x)" and "filled I dst"
  shows "\<exists>dst'. fold (\<lambda>x. assign_entry (idx x) (e x)) xs (Some (dst, n)) = Some (dst', n + length xs) \<and>
     filled (I \<union> idx ` set xs) dst'"
  using assms
proof (induction xs arbitrary: I dst n)
  case (Cons x xs)
  have a: "agrees (idx x) (e x)" using Cons.prems(1) by simp
  have "filled (insert (idx x) I) (dst[idx x := table_entry (idx x)])"
    using Cons.prems(2) a by (auto simp: filled_def agrees_def nth_list_update)
  from Cons.IH [OF Cons.prems(1) this, of "n + 1"] obtain dst' where
    "fold (\<lambda>x. assign_entry (idx x) (e x)) xs (Some (dst[idx x := table_entry (idx x)], n + 1)) =
       Some (dst', n + 1 + length xs)" "filled (insert (idx x) I \<union> idx ` set xs) dst'" by auto
  moreover have "assign_entry (idx x) (e x) (Some (dst, n)) = Some (dst[idx x := table_entry (idx x)], n + 1)"
    using a Cons.prems(2) by (simp add: assign_entry_def agrees_def filled_def)
  ultimately show ?case by simp
qed simp

lemma literal_entries: "len \<in> set [1..<61] \<Longrightarrow> agrees (LITERAL OR push_bit 2 (len - 1)) (MakeEntry 0 len 0)"
  by (auto simp: agrees_def MakeEntry_eq table_entry_def push_bit_eq_mult)

lemma long_literal_entries: "k \<in> set [1..<5] \<Longrightarrow> agrees (LITERAL OR push_bit 2 (k + 59)) (MakeEntry k 1 0)"
  by (auto simp: agrees_def MakeEntry_eq table_entry_def push_bit_eq_mult)

lemma copy_entries:
  "len \<in> set [1..<65] \<Longrightarrow> agrees (COPY_2_BYTE_OFFSET OR push_bit 2 (len - 1)) (MakeEntry 2 len 0)"
  "len \<in> set [1..<65] \<Longrightarrow> agrees (COPY_4_BYTE_OFFSET OR push_bit 2 (len - 1)) (MakeEntry 4 len 0)"
proof -
  have "agrees (COPY_2_BYTE_OFFSET OR push_bit 2 n) (MakeEntry 2 (n + 1) 0)"
    "agrees (COPY_4_BYTE_OFFSET OR push_bit 2 n) (MakeEntry 4 (n + 1) 0)" if "n < 64" for n
  proof -
    have "(2 + 4 * n) div 4 = n" "(2 + 4 * n) mod 4 = 2" "(3 + 4 * n) div 4 = n" "(3 + 4 * n) mod 4 = 3"
      by presburger+
    then show "agrees (COPY_2_BYTE_OFFSET OR push_bit 2 n) (MakeEntry 2 (n + 1) 0)"
      "agrees (COPY_4_BYTE_OFFSET OR push_bit 2 n) (MakeEntry 4 (n + 1) 0)"
      using that or_push [of 2 2 n] or_push [of 3 2 n]
      by (simp_all add: agrees_def MakeEntry_eq table_entry_def del: add_2_eq_Suc)
  qed
  from this [of "len - 1"] show
    "len \<in> set [1..<65] \<Longrightarrow> agrees (COPY_2_BYTE_OFFSET OR push_bit 2 (len - 1)) (MakeEntry 2 len 0)"
    "len \<in> set [1..<65] \<Longrightarrow> agrees (COPY_4_BYTE_OFFSET OR push_bit 2 (len - 1)) (MakeEntry 4 len 0)"
    by auto
qed

lemma copy1_entries:
  assumes "len \<in> set [4..<12]" and "j \<in> set [0..<8]"
  shows "agrees (COPY_1_BYTE_OFFSET OR push_bit 2 (len - 4) OR push_bit 5 (drop_bit 8 (256 * j)))
     (MakeEntry 1 len (drop_bit 8 (256 * j)))"
proof -
  have j: "drop_bit 8 (256 * j) = j" by (simp add: drop_bit_eq_div)
  have i: "COPY_1_BYTE_OFFSET OR push_bit 2 (len - 4) OR push_bit 5 j = 1 + 4 * (len - 4) + 32 * j"
    using assms or_push [of 1 2 "len - 4"] or_push [of "1 + 4 * (len - 4)" 5 j]
    by (auto simp flip: or.assoc)
  have d: "1 + 4 * l + 32 * j = 1 + (l + 8 * j) * 4" "1 + 4 * l + 32 * j = (1 + 4 * l) + j * 32" for l :: nat
    by simp_all
  have "(1 + 4 * l + 32 * j) div 4 = l + 8 * j" "(1 + 4 * l + 32 * j) mod 4 = 1" for l :: nat
    unfolding d(1) by (simp_all only: div_mult_self1 mod_mult_self1 zero_neq_numeral) simp_all
  moreover have "l < 8 \<Longrightarrow> (1 + 4 * l + 32 * j) div 32 = j" for l :: nat
    unfolding d(2) by simp
  ultimately show ?thesis unfolding j i using assms
    by (auto simp: agrees_def MakeEntry_eq table_entry_def)
qed

lemma fold_product:
  "fold (\<lambda>x. fold (\<lambda>y. f x y) ys) xs st = fold (\<lambda>p. f (fst p) (snd p)) (List.product xs ys) st"
  by (induction xs arbitrary: st) (simp_all add: fold_map comp_def)

lemma ComputeTable_fills:
  "\<exists>dst. ComputeTable = Some (dst, 256) \<and> length dst = 256 \<and> (\<forall>i<256. dst ! i = table_entry i)"
proof -
  let ?i1 = "\<lambda>len. LITERAL OR push_bit 2 (len - 1)" and ?i2 = "\<lambda>k. LITERAL OR push_bit 2 (k + 59)"
  let ?j = "\<lambda>p. drop_bit 8 (256 * snd p) :: nat"
  let ?i3 = "\<lambda>p. COPY_1_BYTE_OFFSET OR push_bit 2 (fst p - 4) OR push_bit 5 (?j p)"
  let ?i4 = "\<lambda>len. COPY_2_BYTE_OFFSET OR push_bit 2 (len - 1)" and ?i5 = "\<lambda>len. COPY_4_BYTE_OFFSET OR push_bit 2 (len - 1)"
  have "filled {} (replicate 256 0xffff)" by (simp add: filled_def)
  from assign_fold [where xs = "[1..<61]" and idx = ?i1 and e = "\<lambda>len. MakeEntry 0 len 0" and n = 0, OF literal_entries this] obtain d1 where
    d1: "fold (\<lambda>len. assign_entry (?i1 len) (MakeEntry 0 len 0)) [1..<61] (Some (replicate 256 0xffff, 0)) = Some (d1, 60)"
      "filled (?i1 ` set [1..<61]) d1" by auto
  from assign_fold [where xs = "[1..<5]" and idx = ?i2 and e = "\<lambda>k. MakeEntry k 1 0" and n = 60, OF long_literal_entries d1(2)] obtain d2 where
    d2: "fold (\<lambda>k. assign_entry (?i2 k) (MakeEntry k 1 0)) [1..<5] (Some (d1, 60)) = Some (d2, 64)"
      "filled (?i1 ` set [1..<61] \<union> ?i2 ` set [1..<5]) d2" by auto
  have e3: "p \<in> set (List.product [4..<12] [0..<8]) \<Longrightarrow> agrees (?i3 p) (MakeEntry 1 (fst p) (?j p))" for p
    using copy1_entries [of "fst p" "snd p"] by (cases p) auto
  from assign_fold [where xs = "List.product [4..<12] [0..<8]" and idx = ?i3 and e = "\<lambda>p. MakeEntry 1 (fst p) (?j p)" and n = 64, OF e3 d2(2)] obtain d3 where
    d3: "fold (\<lambda>p. assign_entry (?i3 p) (MakeEntry 1 (fst p) (?j p))) (List.product [4..<12] [0..<8]) (Some (d2, 64)) = Some (d3, 128)"
      "filled (?i1 ` set [1..<61] \<union> ?i2 ` set [1..<5] \<union> ?i3 ` set (List.product [4..<12] [0..<8])) d3"
    by (auto simp: length_product)
  from assign_fold [where xs = "[1..<65]" and idx = ?i4 and e = "\<lambda>len. MakeEntry 2 len 0" and n = 128, OF copy_entries(1) d3(2)] obtain d4 where
    d4: "fold (\<lambda>len. assign_entry (?i4 len) (MakeEntry 2 len 0)) [1..<65] (Some (d3, 128)) = Some (d4, 192)"
      "filled (?i1 ` set [1..<61] \<union> ?i2 ` set [1..<5] \<union> ?i3 ` set (List.product [4..<12] [0..<8]) \<union> ?i4 ` set [1..<65]) d4"
    by auto
  from assign_fold [where xs = "[1..<65]" and idx = ?i5 and e = "\<lambda>len. MakeEntry 4 len 0" and n = 192, OF copy_entries(2) d4(2)] obtain d5 where
    d5: "fold (\<lambda>len. assign_entry (?i5 len) (MakeEntry 4 len 0)) [1..<65] (Some (d4, 192)) = Some (d5, 256)"
      "filled (?i1 ` set [1..<61] \<union> ?i2 ` set [1..<5] \<union> ?i3 ` set (List.product [4..<12] [0..<8]) \<union>
         ?i4 ` set [1..<65] \<union> ?i5 ` set [1..<65]) d5"
    by auto
  have "ComputeTable = Some (d5, 256)"
    unfolding ComputeTable_def Let_def fold_product d1(1) d2(1) d3(1) d4(1) d5(1) ..
  moreover have "d5 ! i = table_entry i" if "i < 256" for i
  proof -
    let ?q = "i div 4"
    have q: "?q < 64" using that by simp
    have "i \<in> ?i1 ` set [1..<61] \<union> ?i2 ` set [1..<5] \<union> ?i3 ` set (List.product [4..<12] [0..<8]) \<union>
        ?i4 ` set [1..<65] \<union> ?i5 ` set [1..<65]"
    proof -
      consider "i = 4 * ?q" "?q < 60" | "i = 4 * ?q" "60 \<le> ?q" | "i = 1 + 4 * ?q" | "i = 2 + 4 * ?q" | "i = 3 + 4 * ?q"
        by linarith
      then show ?thesis
      proof cases
        case 1
        then have "i = ?i1 (?q + 1)" "?q + 1 \<in> set [1..<61]" by (simp_all add: push_bit_eq_mult)
        then show ?thesis by blast
      next
        case 2
        have "?q - 59 \<in> {1..<5}" using 2 q unfolding atLeastLessThan_iff by linarith
        with 2 have "i = ?i2 (?q - 59)" "?q - 59 \<in> set [1..<5]" by (simp_all add: push_bit_eq_mult)
        then show ?thesis by blast
      next
        case 3
        let ?p = "(4 + ?q mod 8, ?q div 8)"
        have "?j ?p = ?q div 8" by (simp add: drop_bit_eq_div)
        moreover have "?q mod 8 < 8" by simp
        then have "1 + 4 * (?q mod 8) < 2 ^ 5" unfolding power_numeral by simp
        ultimately have "?i3 ?p = 1 + 4 * (?q mod 8) + 32 * (?q div 8)"
          using or_push [of 1 2 "?q mod 8"] or_push [of "1 + 4 * (?q mod 8)" 5 "?q div 8"]
          by (simp flip: or.assoc)
        also have "\<dots> = 1 + 4 * ?q" using mult_div_mod_eq [of 8 ?q] by linarith
        finally have "i = ?i3 ?p" using 3 by simp
        moreover have "?p \<in> set (List.product [4..<12] [0..<8])"
        proof -
          have "?q mod 8 < 8" by simp
          then have "4 + ?q mod 8 \<in> {4..<12}" unfolding atLeastLessThan_iff by linarith
          moreover have "?q div 8 \<in> {0..<8}" using q by simp
          ultimately show ?thesis by (simp only: set_product set_upt mem_Sigma_iff)
        qed
        ultimately show ?thesis by blast
      next
        case 4
        then have "i = ?i4 (?q + 1)" "?q + 1 \<in> set [1..<65]" using q or_push [of 2 2 ?q] by simp_all
        then show ?thesis by blast
      next
        case 5
        then have "i = ?i5 (?q + 1)" "?q + 1 \<in> set [1..<65]" using q or_push [of 3 2 ?q] by simp_all
        then show ?thesis by blast
      qed
    qed
    with d5(2) show ?thesis unfolding filled_def by blast
  qed
  moreover have "length d5 = 256" using d5(2) by (simp add: filled_def)
  ultimately show ?thesis by blast
qed

text \<open>
  C30: The generator \<open>ComputeTable\<close> fails none of its assertions: it assigns each of the 256
  entries exactly once, and the table it computes is the one recorded in \<open>char_table\<close>.
\<close>

theorem ComputeTable_correct: "ComputeTable_check"
proof -
  obtain dst where dst: "ComputeTable = Some (dst, 256)" "length dst = 256" "\<forall>i<256. dst ! i = table_entry i"
    using ComputeTable_fills by blast
  have "dst = char_table"
    by (rule nth_equalityI) (simp_all add: dst(2,3) length_char_table char_table_nth)
  moreover have "table_entry i \<noteq> 0xffff" if "i < 256" for i
  proof -
    have "table_entry i < 0xffff" using that unfolding table_entry_def by (simp, linarith)
    then show ?thesis by simp
  qed
  then have "list_all (\<lambda>e. e \<noteq> 0xffff) dst" using dst(2,3) by (simp add: list_all_length)
  ultimately show ?thesis unfolding ComputeTable_check_def dst(1) by simp
qed

end
