(* ===== verification/SnappyFormat.thy ===== *)
theory SnappyFormat
  imports SnappyTags
begin

text \<open>
  The compressed format as \<open>format_description.txt\<close> gives it: a stream is a sequence of
  literals and copies, and decoding a stream runs its elements on the output so far. The
  decoder and the compressor are both proved against this specification.
\<close>

section \<open>Elements\<close>

datatype element = Literal bytes | Copy nat nat

text \<open>A copy may reach into the bytes it produces, so it is defined byte by byte.\<close>

primrec copy_from :: "nat \<Rightarrow> nat \<Rightarrow> bytes \<Rightarrow> bytes" where
  "copy_from off 0 out = out"
| "copy_from off (Suc n) out =
     (let out' = copy_from off n out in out' @ [out' ! (length out' - off)])"

fun run_element :: "element \<Rightarrow> bytes \<Rightarrow> bytes option" where
  "run_element (Literal bs) out = Some (out @ bs)"
| "run_element (Copy off len) out =
     (if off = 0 \<or> length out < off then None else Some (copy_from off len out))"

section \<open>Streams\<close>

definition take_literal :: "nat \<Rightarrow> bytes \<Rightarrow> (element \<times> bytes) option" where
  "take_literal n r = (if length r < n then None else Some (Literal (take n r), drop n r))"

definition take_copy :: "nat \<Rightarrow> nat \<Rightarrow> nat \<Rightarrow> bytes \<Rightarrow> (element \<times> bytes) option" where
  "take_copy k high len r =
     (if length r < k then None else Some (Copy (high + le_nat (take k r)) len, drop k r))"

text \<open>
  The first element of a stream. The argument \<open>wr\<close> is applied to the length of a long
  literal: the format has \<open>wr n = n\<close>, the decoder's 32-bit arithmetic
  \<open>wr n = n mod 2 ^ 32\<close>, which differ for the length \<open>2 ^ 32\<close> alone.
\<close>

definition parse_element :: "(nat \<Rightarrow> nat) \<Rightarrow> bytes \<Rightarrow> (element \<times> bytes) option" where
  "parse_element wr bs =
     (case bs of
        [] \<Rightarrow> None
      | c # r \<Rightarrow>
          (let t = unat c; u = t div 4 in
           if t mod 4 = LITERAL then
             (if u < 60 then take_literal (u + 1) r
              else if length r < u - 59 then None
              else take_literal (wr (le_nat (take (u - 59) r) + 1)) (drop (u - 59) r))
           else if t mod 4 = COPY_1_BYTE_OFFSET then take_copy 1 (256 * (t div 32)) (4 + u mod 8) r
           else if t mod 4 = COPY_2_BYTE_OFFSET then take_copy 2 0 (u + 1) r
           else take_copy 4 0 (u + 1) r))"

lemma parse_element_shorter: "parse_element wr bs = Some (e, r) \<Longrightarrow> length r < length bs"
  by (auto simp: parse_element_def take_literal_def take_copy_def Let_def split: list.splits if_splits)

function decode :: "(nat \<Rightarrow> nat) \<Rightarrow> bytes \<Rightarrow> bytes \<Rightarrow> bytes option" where
  "decode wr src out =
     (if src = [] then Some out
      else
        (case parse_element wr src of
           None \<Rightarrow> None
         | Some (e, r) \<Rightarrow>
             (case run_element e out of None \<Rightarrow> None | Some out' \<Rightarrow> decode wr r out')))"
  by pat_completeness auto
termination
  by (relation "measure (\<lambda>(wr, src, out). length src)") (auto dest: parse_element_shorter)

declare decode.simps [simp del]

abbreviation (input) "no_wrap \<equiv> (\<lambda>n :: nat. n)"
abbreviation (input) "wrap32 \<equiv> (\<lambda>n :: nat. n mod 2 ^ 32)"

lemma decode_Nil [simp]: "decode wr [] out = Some out"
  by (simp add: decode.simps)

lemma parse_element_Nil [simp]: "parse_element wr [] = None"
  by (simp add: parse_element_def)

lemma decode_step:
  "parse_element wr src = Some (e, r) \<Longrightarrow> run_element e out = Some out' \<Longrightarrow>
     decode wr src out = decode wr r out'"
  by (cases "src = []") (simp_all add: decode.simps [of wr src])

lemma decode_parse_None: "parse_element wr src = None \<Longrightarrow> src \<noteq> [] \<Longrightarrow> decode wr src out = None"
  by (simp add: decode.simps)

lemma decode_run_None:
  "parse_element wr src = Some (e, r) \<Longrightarrow> run_element e out = None \<Longrightarrow> decode wr src out = None"
  by (cases "src = []") (simp_all add: decode.simps [of wr src])

section \<open>Composition\<close>

lemma take_literal_append: "take_literal n r = Some (e, r') \<Longrightarrow> take_literal n (r @ cs) = Some (e, r' @ cs)"
  by (auto simp: take_literal_def split: if_splits)

lemma take_copy_append: "take_copy k h n r = Some (e, r') \<Longrightarrow> take_copy k h n (r @ cs) = Some (e, r' @ cs)"
  by (auto simp: take_copy_def split: if_splits)

lemma parse_element_append:
  assumes "parse_element wr bs = Some (e, r)"
  shows "parse_element wr (bs @ cs) = Some (e, r @ cs)"
proof (cases bs)
  case (Cons c rs)
  have long: "\<not> length rs < k \<Longrightarrow> take k (rs @ cs) = take k rs \<and> drop k (rs @ cs) = drop k rs @ cs" for k
    by simp
  from assms Cons show ?thesis
    by (simp only: parse_element_def list.case append_Cons Let_def)
      (auto simp: take_literal_append take_copy_append long split: if_split_asm)
qed (use assms in simp)

lemma decode_append:
  "decode wr bs out = Some out' \<Longrightarrow> decode wr (bs @ cs) out = decode wr cs out'"
proof (induction wr bs out rule: decode.induct)
  case (1 wr bs out)
  show ?case
  proof (cases "bs = []")
    case True
    with 1 show ?thesis by simp
  next
    case False
    then obtain e r o1 where p: "parse_element wr bs = Some (e, r)" "run_element e out = Some o1"
      using "1.prems" by (auto simp: decode.simps [of wr bs] split: option.splits)
    have "decode wr r o1 = Some out'" using "1.prems" decode_step [OF p] by simp
    with "1.IH" [OF False p(1) refl p(2)] show ?thesis
      using decode_step [OF p] decode_step [OF parse_element_append [OF p(1)] p(2), of cs] by simp
  qed
qed

lemma decode_one: "parse_element wr bs = Some (e, []) \<Longrightarrow> run_element e out = Some out' \<Longrightarrow>
    decode wr (bs @ cs) out = decode wr cs out'"
  by (rule decode_append) (simp add: decode_step)

section \<open>Copies\<close>

lemma length_copy_from [simp]: "length (copy_from off n out) = length out + n"
  by (induction n) (simp_all add: Let_def)

lemma take_copy_from: "take (length out) (copy_from off n out) = out"
  by (induction n) (simp_all add: Let_def)

lemma copy_from_add: "copy_from off (m + n) out = copy_from off n (copy_from off m out)"
  by (induction n) simp_all

text \<open>The value of each produced byte: it repeats the last \<open>off\<close> bytes.\<close>

definition repeated :: "nat \<Rightarrow> bytes \<Rightarrow> nat \<Rightarrow> byte" where
  "repeated off out j = (if j < length out then out ! j else out ! (length out - off + (j - length out) mod off))"

lemma repeated_period:
  assumes "0 < off" and "off \<le> length out" and "length out - off \<le> j"
  shows "repeated off out (j + off) = repeated off out j"
proof (cases "j < length out")
  case True
  let ?k = "j - (length out - off)"
  have k: "?k < off" "j + off - length out = ?k" "\<not> j + off < length out" using assms True by linarith+
  have "length out - off + ?k = j" using assms(3) by simp
  then show ?thesis unfolding repeated_def if_not_P [OF k(3)] k(2) mod_less [OF k(1)] if_P [OF True] by simp
next
  case False
  then have "j + off - length out = (j - length out) + off" by simp
  then have "(j + off - length out) mod off = (j - length out) mod off" by (simp only: mod_add_self2)
  moreover have "\<not> j + off < length out" using False by simp
  ultimately show ?thesis using False by (simp only: repeated_def if_False)
qed

lemma repeated_multiple:
  "0 < off \<Longrightarrow> off \<le> length out \<Longrightarrow> length out - off \<le> j \<Longrightarrow> repeated off out (j + k * off) = repeated off out j"
proof (induction k)
  case (Suc k)
  have "repeated off out (j + k * off + off) = repeated off out (j + k * off)"
    using Suc.prems by (intro repeated_period) auto
  with Suc show ?case by (simp add: ac_simps)
qed simp

lemma copy_from_nth:
  "0 < off \<Longrightarrow> off \<le> length out \<Longrightarrow> j < length out + n \<Longrightarrow> copy_from off n out ! j = repeated off out j"
proof (induction n arbitrary: j)
  case 0
  then show ?case by (simp add: repeated_def)
next
  case (Suc n)
  show ?case
  proof (cases "j < length out + n")
    case True
    with Suc show ?thesis by (simp add: Let_def nth_append)
  next
    case False
    then have j: "j = length out + n" using Suc.prems by simp
    have "copy_from off (Suc n) out ! j = copy_from off n out ! (length out + n - off)"
      by (simp add: Let_def j nth_append)
    also have "\<dots> = repeated off out (length out + n - off)" using Suc by simp
    also have "\<dots> = repeated off out (length out + n - off + off)"
      using Suc.prems by (intro repeated_period [symmetric]) auto
    finally show ?thesis using Suc.prems j by simp
  qed
qed

lemma copy_from_eqI:
  assumes "0 < off" "off \<le> length out" and "length xs = length out + n"
    and "\<And>j. j < length out + n \<Longrightarrow> xs ! j = repeated off out j"
  shows "xs = copy_from off n out"
  by (rule nth_equalityI) (simp_all add: assms copy_from_nth)

text \<open>Copying what the input repeats extends a prefix of the input.\<close>

lemma copy_from_match:
  assumes "cand < base" "base + n \<le> length inp"
    and "\<And>i. i < n \<Longrightarrow> inp ! (cand + i) = inp ! (base + i)"
  shows "copy_from (base - cand) n (take base inp) = take (base + n) inp"
  using assms
proof (induction n)
  case (Suc n)
  then have IH: "copy_from (base - cand) n (take base inp) = take (base + n) inp" by simp
  have "base + n - (base - cand) = cand + n" using Suc.prems(1) by simp
  then have "take (base + n) inp ! (base + n - (base - cand)) = inp ! (base + n)"
    using Suc.prems(1) Suc.prems(3) [of n] by (simp add: add.commute)
  with IH Suc.prems(2) show ?case by (simp add: Let_def min_absorb2 take_Suc_conv_app_nth)
qed simp

end
