(* ===== verification/SnappyEmit.thy ===== *)
theory SnappyEmit
  imports SnappyFormat
begin

text \<open>
  The routines of \<open>snappy.cc\<close> that write elements, \<open>EmitLiteral\<close>, \<open>EmitCopyLessThan64\<close> and
  \<open>EmitCopy\<close>: what they append to the output buffer is the element of the format.
\<close>

unbundle bit_operations_syntax

section \<open>Definitions\<close>

text \<open>\<open>size_t\<close> arithmetic\<close>

definition MaxCompressedLength :: "nat \<Rightarrow> nat" where
  "MaxCompressedLength source_len = (32 + source_len + source_len div 6) mod 2 ^ 64"

text \<open>
  The output buffer is \<open>m\<close>, the pointer into it \<open>op\<close>. The literal is read from \<open>inp\<close> at the
  position \<open>literal\<close>.
\<close>

function emit_length :: "bytes \<Rightarrow> nat \<Rightarrow> nat \<Rightarrow> nat \<Rightarrow> (bytes \<times> nat \<times> nat) option" where
  "emit_length m op n count =
     (if n > 0
      then do {
        m \<leftarrow> mem_write m op [of_nat (n AND 0xff)];
        emit_length m (op + 1) (drop_bit 8 n) (count + 1)
      }
      else Some (m, op, count))"
  by pat_completeness auto
termination
  by (relation "measure (\<lambda>(m, op, n, count). n)") (auto simp: drop_bit_eq_div)

declare emit_length.simps [simp del]

definition EmitLiteral :: "bytes \<Rightarrow> nat \<Rightarrow> bytes \<Rightarrow> nat \<Rightarrow> nat \<Rightarrow> bool \<Rightarrow> (bytes \<times> nat) option" where
  "EmitLiteral m op inp literal len allow_fast_path =
     (let n = len - 1 in
      if n < 60
      then do {
        m \<leftarrow> mem_write m op [of_nat (LITERAL OR push_bit 2 n)];
        let op = op + 1;
        if allow_fast_path \<and> len \<le> 16
        then do {
          m \<leftarrow> UnalignedCopy64 inp literal m op;
          m \<leftarrow> UnalignedCopy64 inp (literal + 8) m (op + 8);
          Some (m, op + len)
        }
        else do {
          bs \<leftarrow> mem_read inp literal len;
          m \<leftarrow> mem_write m op bs;
          Some (m, op + len)
        }
      }
      else do {
        (m, op', count) \<leftarrow> emit_length m (op + 1) n 0;
        assert_that (1 \<le> count);
        assert_that (count \<le> 4);
        m \<leftarrow> mem_write m op [of_nat (LITERAL OR push_bit 2 (59 + count))];
        bs \<leftarrow> mem_read inp literal len;
        m \<leftarrow> mem_write m op' bs;
        Some (m, op' + len)
      })"

definition EmitCopyLessThan64 :: "bytes \<Rightarrow> nat \<Rightarrow> nat \<Rightarrow> nat \<Rightarrow> (bytes \<times> nat) option" where
  "EmitCopyLessThan64 m op offset len =
     do {
       assert_that (len \<le> 64);
       assert_that (4 \<le> len);
       assert_that (offset < 65536);
       if len < 12 \<and> offset < 2048
       then do {
         let len_minus_4 = len - 4;
         assert_that (len_minus_4 < 8);
         m \<leftarrow> mem_write m op
           [of_nat (COPY_1_BYTE_OFFSET + push_bit 2 len_minus_4 + push_bit 5 (drop_bit 8 offset))];
         m \<leftarrow> mem_write m (op + 1) [of_nat (offset AND 0xff)];
         Some (m, op + 2)
       }
       else do {
         m \<leftarrow> mem_write m op [of_nat (COPY_2_BYTE_OFFSET + push_bit 2 (len - 1))];
         m \<leftarrow> Store16 m (op + 1) (of_nat offset);
         Some (m, op + 3)
       }
     }"

text \<open>\<open>EmitCopy\<close>: its loop, then the code after it\<close>

function emit_copy_loop :: "bytes \<Rightarrow> nat \<Rightarrow> nat \<Rightarrow> nat \<Rightarrow> (bytes \<times> nat \<times> nat) option" where
  "emit_copy_loop m op offset len =
     (if 68 \<le> len
      then do {
        (m, op) \<leftarrow> EmitCopyLessThan64 m op offset 64;
        emit_copy_loop m op offset (len - 64)
      }
      else Some (m, op, len))"
  by pat_completeness auto
termination
  by (relation "measure (\<lambda>(m, op, offset, len). len)") auto

declare emit_copy_loop.simps [simp del]

definition EmitCopy :: "bytes \<Rightarrow> nat \<Rightarrow> nat \<Rightarrow> nat \<Rightarrow> (bytes \<times> nat) option" where
  "EmitCopy m op offset len =
     do {
       (m, op, len) \<leftarrow> emit_copy_loop m op offset len;
       (m, op, len) \<leftarrow> (if len > 64
         then do {
           (m, op) \<leftarrow> EmitCopyLessThan64 m op offset 60;
           Some (m, op, len - 60)
         }
         else Some (m, op, len));
       EmitCopyLessThan64 m op offset len
     }"

section \<open>Appending\<close>

text \<open>\<open>m'\<close> is the buffer \<open>m\<close> after \<open>bs\<close> was written at \<open>op\<close>, up to what lies behind.\<close>

definition appended :: "bytes \<Rightarrow> nat \<Rightarrow> bytes \<Rightarrow> bytes \<Rightarrow> bool" where
  "appended m op bs m' \<longleftrightarrow>
     length m' = length m \<and> op + length bs \<le> length m \<and> take (op + length bs) m' = take op m @ bs"

lemma appended_Nil: "op \<le> length m \<Longrightarrow> appended m op [] m"
  by (simp add: appended_def)

lemma appended_write:
  assumes "op + length bs \<le> length m"
  obtains m' where "mem_write m op bs = Some m'" "appended m op bs m'"
proof -
  from assms obtain m' where w: "mem_write m op bs = Some m'" by (simp add: mem_write_def)
  from mem_writeD [OF w] have "appended m op bs m'" by (simp add: appended_def)
  with w show thesis by (rule that)
qed

lemma appended_trans: "appended m op bs m' \<Longrightarrow> appended m' (op + length bs) cs m'' \<Longrightarrow> appended m op (bs @ cs) m''"
  by (simp add: appended_def add.assoc)

lemma appended_prefix: "appended m op (bs @ cs) m' \<Longrightarrow> appended m op bs m'"
proof -
  assume a: "appended m op (bs @ cs) m'"
  have "take (op + length bs) m' = take (op + length bs) (take (op + length (bs @ cs)) m')"
    by (simp add: min_absorb1)
  also have "\<dots> = take op m @ bs" using a by (simp add: appended_def)
  finally show ?thesis using a by (simp add: appended_def)
qed

lemma appended_output: "appended m op bs m' \<Longrightarrow> take (op + length bs) m' = take op m @ bs"
  by (simp add: appended_def)

section \<open>Literals\<close>

text \<open>The little-endian digits of the length\<close>

fun digits :: "nat \<Rightarrow> bytes" where
  "digits n = (if n > 0 then of_nat (n mod 256) # digits (n div 256) else [])"

declare digits.simps [simp del]

lemma emit_length_ok:
  "op + length (digits n) \<le> length m \<Longrightarrow>
   \<exists>m'. emit_length m op n count = Some (m', op + length (digits n), count + length (digits n)) \<and>
     appended m op (digits n) m'"
proof (induction n arbitrary: m op count rule: less_induct)
  case (less n)
  show ?case
  proof (cases "n = 0")
    case True
    with less.prems show ?thesis by (simp add: emit_length.simps digits.simps appended_Nil)
  next
    case False
    have d: "digits n = of_nat (n mod 256) # digits (n div 256)" using False by (subst digits.simps) simp
    have "op + length [of_nat (n mod 256) :: byte] \<le> length m" using less.prems d by simp
    then obtain m1 where m1: "mem_write m op [of_nat (n mod 256)] = Some m1" "appended m op [of_nat (n mod 256)] m1"
      by (rule appended_write)
    have len: "length m1 = length m" using m1(2) by (simp add: appended_def)
    have lt: "n div 256 < n" using False by simp
    have "Suc op + length (digits (n div 256)) \<le> length m1" using less.prems d len by simp
    from less.IH [OF lt this, of "Suc count"] obtain m2 where
      m2: "emit_length m1 (Suc op) (n div 256) (Suc count) =
        Some (m2, Suc op + length (digits (n div 256)), Suc count + length (digits (n div 256)))"
        "appended m1 (Suc op) (digits (n div 256)) m2" by blast
    have "appended m op (digits n) m2" using appended_trans [OF m1(2), of "digits (n div 256)" m2] m2(2) d by simp
    with m1(1) m2(1) False d show ?thesis
      by (subst emit_length.simps) (simp add: and_masks drop_bit_eq_div)
  qed
qed

lemma le_nat_digits: "le_nat (digits n) = n"
proof (induction n rule: less_induct)
  case (less n)
  then show ?case by (cases "n = 0") (simp_all add: digits.simps [of n] digits.simps [of 0] mod_mult_div_eq)
qed

lemma digits_length: "n < 256 ^ k \<Longrightarrow> length (digits n) \<le> k"
proof (induction k arbitrary: n)
  case 0
  then show ?case by (simp add: digits.simps)
next
  case (Suc k)
  show ?case
  proof (cases "n = 0")
    case False
    have "n div 256 < 256 ^ k" using Suc.prems by (simp add: less_mult_imp_div_less mult.commute)
    with Suc.IH False show ?thesis by (simp add: digits.simps [of n])
  qed (simp add: digits.simps)
qed

lemma digits_positive: "0 < n \<Longrightarrow> 1 \<le> length (digits n)"
  by (simp add: digits.simps [of n])

text \<open>The encoding of a literal\<close>

definition literal_code :: "bytes \<Rightarrow> bytes" where
  "literal_code bs =
     (let n = length bs - 1 in
      if n < 60 then of_nat (4 * n) # bs
      else of_nat (4 * (59 + length (digits n))) # digits n @ bs)"

definition wr_ok :: "(nat \<Rightarrow> nat) \<Rightarrow> bool" where
  "wr_ok wr \<longleftrightarrow> (\<forall>n<2 ^ 32. wr n = n)"

lemma wr_ok_instances: "wr_ok no_wrap" "wr_ok wrap32"
  by (simp_all add: wr_ok_def)

lemma parse_literal_code:
  assumes "bs \<noteq> []" "length bs < 2 ^ 32" "wr_ok wr"
  shows "parse_element wr (literal_code bs) = Some (Literal bs, [])"
proof (cases "length bs - 1 < 60")
  case True
  then have "4 * (length bs - 1) < 256" by simp
  then have u: "unat (of_nat (4 * (length bs - 1)) :: byte) = 4 * (length bs - 1)" by (simp only: unat_byte) simp
  have "literal_code bs = of_nat (4 * (length bs - 1)) # bs" using True by (simp add: literal_code_def)
  with True u assms(1) show ?thesis
    by (simp add: parse_element_def take_literal_def Let_def del: of_nat_mult)
next
  case False
  let ?n = "length bs - 1" and ?k = "length (digits (length bs - 1))"
  have k: "?k \<le> 4" "1 \<le> ?k" using assms(2) False digits_length [of ?n 4] digits_positive [of ?n] by simp_all
  then have digits_nonempty: "digits ?n \<noteq> []" by auto
  have "4 * (59 + ?k) < 256" using k by simp
  then have u: "unat (of_nat (4 * (59 + ?k)) :: byte) = 4 * (59 + ?k)" by (simp only: unat_byte) simp
  have t: "4 * (59 + ?k) mod 4 = 0" "4 * (59 + ?k) div 4 = 59 + ?k" by simp_all
  have code: "literal_code bs = of_nat (4 * (59 + ?k)) # digits ?n @ bs" using False by (simp add: literal_code_def Let_def)
  have wr: "wr (?n + 1) = length bs" using assms by (simp add: wr_ok_def)
  show ?thesis
    unfolding code parse_element_def list.case Let_def u t
    using k wr digits_nonempty by (simp add: le_nat_digits take_literal_def)
qed

lemma literal_code_length:
  "bs \<noteq> [] \<Longrightarrow> length bs \<le> 65536 \<Longrightarrow>
   length (literal_code bs) = length bs + 1 + (if length bs \<le> 60 then 0 else length (digits (length bs - 1)))"
  by (cases bs) (auto simp: literal_code_def Let_def)

lemma EmitLiteral_ok:
  defines "code inp p n \<equiv> literal_code (take n (drop p inp))"
  assumes len: "1 \<le> len" "len \<le> 65536" and inp: "literal + len \<le> length inp"
    and room: "op + length (code inp literal len) \<le> length m"
    and fast: "fast \<Longrightarrow> len \<le> 16 \<Longrightarrow> literal + 16 \<le> length inp \<and> op + 17 \<le> length m"
  shows "\<exists>m'. EmitLiteral m op inp literal len fast = Some (m', op + length (code inp literal len)) \<and>
     appended m op (code inp literal len) m'"
proof -
  let ?bs = "take len (drop literal inp)" and ?n = "len - 1"
  have bs: "length ?bs = len" "mem_read inp literal len = Some ?bs" using inp by (simp_all add: mem_simps)
  show ?thesis
  proof (cases "?n < 60")
    case small: True
    let ?tag = "[of_nat (LITERAL OR push_bit 2 ?n)] :: bytes"
    have code: "code inp literal len = ?tag @ ?bs"
      using small bs(1) by (simp add: code_def literal_code_def Let_def push_bit_eq_mult mult.commute)
    have "op + length ?tag \<le> length m" using room code bs(1) by simp
    then obtain m1 where m1: "mem_write m op ?tag = Some m1" "appended m op ?tag m1" by (rule appended_write)
    have l1: "length m1 = length m" using m1(2) by (simp add: appended_def)
    have finish: ?thesis if "EmitLiteral m op inp literal len fast = Some (m2, Suc op + len)" "appended m1 (Suc op) ?bs m2" for m2
      using that appended_trans [OF m1(2), of ?bs m2] bs(1) unfolding code by auto
    show ?thesis
    proof (cases "fast \<and> len \<le> 16")
      case False
      have "Suc op + length ?bs \<le> length m1" using room code bs(1) l1 by simp
      then obtain m2 where m2: "mem_write m1 (Suc op) ?bs = Some m2" "appended m1 (Suc op) ?bs m2" by (rule appended_write)
      show ?thesis
        by (rule finish [OF _ m2(2)]) (use small m1(1) m2(1) bs(2) False in \<open>auto simp: EmitLiteral_def Let_def\<close>)
    next
      case True
      then have room16: "literal + 16 \<le> length inp" "op + 17 \<le> length m1" using fast l1 by simp_all
      let ?a = "take 8 (drop literal inp)" and ?b = "take 8 (drop (literal + 8) inp)"
      have "Suc op + length ?a \<le> length m1" using room16 by simp
      then obtain m2 where m2: "mem_write m1 (Suc op) ?a = Some m2" "appended m1 (Suc op) ?a m2" by (rule appended_write)
      have la: "length ?a = 8" "length m2 = length m1" using room16 m2(2) by (simp_all add: appended_def)
      have "Suc op + length ?a + length ?b \<le> length m2" using room16 la by simp
      then obtain m3 where m3: "mem_write m2 (Suc op + length ?a) ?b = Some m3" "appended m2 (Suc op + length ?a) ?b m3"
        by (rule appended_write)
      have "?a @ ?b = take 16 (drop literal inp)" using take_add [of 8 8 "drop literal inp"] by (simp add: add.commute)
      also have "\<dots> = ?bs @ take (16 - len) (drop len (drop literal inp))"
        using take_add [of len "16 - len" "drop literal inp"] True by simp
      finally have "appended m1 (Suc op) ?bs m3" using appended_trans [OF m2(2) m3(2)] appended_prefix by metis
      moreover have "UnalignedCopy64 inp literal m1 (Suc op) = Some m2"
        "UnalignedCopy64 inp (literal + 8) m2 (Suc op + 8) = Some m3"
        using m2(1) m3(1) room16(1) la(1) by (simp_all add: UnalignedCopy64_eq mem_simps)
      then have "EmitLiteral m op inp literal len fast = Some (m3, Suc op + len)"
        using small m1(1) True by (simp add: EmitLiteral_def Let_def)
      ultimately show ?thesis by (intro finish)
    qed
  next
    case long: False
    let ?d = "digits ?n"
    let ?tag = "[of_nat (LITERAL OR push_bit 2 (59 + length ?d))] :: bytes"
    have code: "code inp literal len = (?tag @ ?d) @ ?bs"
      using long bs(1) by (simp add: code_def literal_code_def Let_def push_bit_eq_mult mult.commute)
    have d: "1 \<le> length ?d" "length ?d \<le> 4"
      using digits_positive [of ?n] digits_length [of ?n 4] len(2) long by simp_all
    have "Suc op + length ?d \<le> length m" using room code by simp
    from emit_length_ok [OF this, of 0] obtain m1 where
      m1: "emit_length m (Suc op) ?n 0 = Some (m1, Suc op + length ?d, length ?d)" "appended m (Suc op) ?d m1" by auto
    have l1: "length m1 = length m" using m1(2) by (simp add: appended_def)
    have "op + length ?tag \<le> length m1" using room code l1 by simp
    then obtain m2 where w2: "mem_write m1 op ?tag = Some m2" by (rule appended_write)
    have m2: "m2 = take op m1 @ ?tag @ drop (Suc op) m1" using w2 by (simp add: mem_write_def split: if_splits)
    have fits: "Suc op + length ?d \<le> length m" using room code by simp
    have out1: "take (Suc op + length ?d) m1 = take (Suc op) m @ ?d" using m1(2) by (simp add: appended_def)
    have "take op m1 = take op (take (Suc op + length ?d) m1)" by (simp add: min_absorb1)
    also have "\<dots> = take op m" unfolding out1 using fits by (simp add: min_absorb1)
    finally have 1: "take op m1 = take op m" .
    have "take (length ?d) (drop (Suc op) m1) = drop (Suc op) (take (Suc op + length ?d) m1)" by (simp add: drop_take)
    also have "\<dots> = ?d" unfolding out1 using fits by simp
    finally have 2: "take (length ?d) (drop (Suc op) m1) = ?d" .
    have "length (take op m) = op" using fits by simp
    then have "appended m op (?tag @ ?d) m2" unfolding appended_def m2 1 using fits l1 2 by simp
    moreover have l2: "length m2 = length m" using mem_writeD(1) [OF w2] l1 by simp
    have "op + length (?tag @ ?d) + length ?bs \<le> length m2" using room l2 unfolding code by simp
    then obtain m3 where m3: "mem_write m2 (op + length (?tag @ ?d)) ?bs = Some m3"
      "appended m2 (op + length (?tag @ ?d)) ?bs m3" by (rule appended_write)
    ultimately have "appended m op (code inp literal len) m3" unfolding code by (blast intro: appended_trans)
    moreover have "EmitLiteral m op inp literal len fast = Some (m3, op + length (code inp literal len))"
      using long m1(1) w2 m3(1) d bs unfolding code by (simp add: EmitLiteral_def Let_def)
    ultimately show ?thesis by blast
  qed
qed

section \<open>Copies\<close>

definition copy_code :: "nat \<Rightarrow> nat \<Rightarrow> bytes" where
  "copy_code off len =
     (if len < 12 \<and> off < 2048
      then [of_nat (1 + 4 * (len - 4) + 32 * (off div 256)), of_nat (off mod 256)]
      else of_nat (2 + 4 * (len - 1)) # le_bytes 2 off)"

lemma copy1_tag_fields:
  fixes a b :: nat
  assumes "a < 8" "b < 8"
  defines "t \<equiv> 1 + 4 * a + 32 * b"
  shows "t < 256" "t mod 4 = 1" "t div 4 mod 8 = a" "t div 32 = b"
proof -
  have t: "t = 1 + 4 * (a + 8 * b)" by (simp add: t_def)
  have d: "t div 4 = a + 8 * b" unfolding t by simp
  show "t < 256" using assms by (simp add: t_def)
  show "t mod 4 = 1" unfolding t by (simp only: mod_mult_self2) simp
  show "t div 4 mod 8 = a" unfolding d using assms(1) by simp
  have "t div 32 = t div 4 div 8" by (simp flip: div_mult2_eq)
  then show "t div 32 = b" unfolding d using assms(1) by simp
qed

lemma parse_copy_code:
  assumes "4 \<le> len" "len \<le> 64" "off < 65536"
  shows "parse_element wr (copy_code off len) = Some (Copy off len, [])"
proof (cases "len < 12 \<and> off < 2048")
  case True
  let ?t = "1 + 4 * (len - 4) + 32 * (off div 256)"
  have "len - 4 < 8" "off div 256 < 8" using True assms(1) by auto
  note t = copy1_tag_fields [OF this]
  have u: "unat (of_nat ?t :: byte) = ?t" using t(1) by (simp only: unat_byte mod_less)
  have code: "copy_code off len = [of_nat ?t, of_nat (off mod 256)]" using True by (simp add: copy_code_def)
  show ?thesis
    unfolding code parse_element_def list.case Let_def u t
    using assms by (simp add: take_copy_def)
next
  case False
  let ?t = "2 + 4 * (len - 1)"
  have t: "?t < 256" "?t mod 4 = 2" "?t div 4 = len - 1" using assms(1,2) by (simp_all only: mod_mult_self2) simp_all
  have u: "unat (of_nat ?t :: byte) = ?t" using t(1) by (simp only: unat_byte mod_less)
  have code: "copy_code off len = of_nat ?t # le_bytes 2 off" using False by (auto simp: copy_code_def)
  show ?thesis
    unfolding code parse_element_def list.case Let_def u t
    using assms by (simp add: take_copy_def le_nat_bytes)
qed

lemma length_copy_code: "length (copy_code off len) = (if len < 12 \<and> off < 2048 then 2 else 3)"
  by (simp add: copy_code_def)

lemma EmitCopyLessThan64_ok:
  assumes len: "4 \<le> len" "len \<le> 64" and off: "off < 65536" and room: "op + length (copy_code off len) \<le> length m"
  shows "\<exists>m'. EmitCopyLessThan64 m op off len = Some (m', op + length (copy_code off len)) \<and>
     appended m op (copy_code off len) m'"
proof (cases "len < 12 \<and> off < 2048")
  case True
  let ?tag = "[of_nat (1 + push_bit 2 (len - 4) + push_bit 5 (drop_bit 8 off))] :: bytes" and ?lo = "[of_nat (off AND 0xff)] :: bytes"
  have code: "copy_code off len = ?tag @ ?lo"
    using True by (simp add: copy_code_def push_bit_eq_mult drop_bit_eq_div and_masks mult.commute)
  have "op + length ?tag \<le> length m" using room code by simp
  then obtain m1 where m1: "mem_write m op ?tag = Some m1" "appended m op ?tag m1" by (rule appended_write)
  have "op + length ?tag + length ?lo \<le> length m1" using room code m1(2) by (simp add: appended_def)
  then obtain m2 where m2: "mem_write m1 (op + length ?tag) ?lo = Some m2" "appended m1 (op + length ?tag) ?lo m2"
    by (rule appended_write)
  have "len - 4 < 8" using True by auto
  then have "EmitCopyLessThan64 m op off len = Some (m2, op + 2)"
    using True len off m1(1) m2(1) by (simp add: EmitCopyLessThan64_def Let_def)
  with appended_trans [OF m1(2) m2(2)] show ?thesis unfolding code by simp
next
  case False
  let ?tag = "[of_nat (2 + push_bit 2 (len - 1))] :: bytes"
  have code: "copy_code off len = ?tag @ le_bytes 2 off"
    using False by (auto simp: copy_code_def push_bit_eq_mult mult.commute)
  have "op + length ?tag \<le> length m" using room code by simp
  then obtain m1 where m1: "mem_write m op ?tag = Some m1" "appended m op ?tag m1" by (rule appended_write)
  have "op + length ?tag + length (le_bytes 2 off) \<le> length m1" using room code m1(2) by (simp add: appended_def)
  then obtain m2 where m2: "mem_write m1 (op + length ?tag) (le_bytes 2 off) = Some m2"
    "appended m1 (op + length ?tag) (le_bytes 2 off) m2" by (rule appended_write)
  have "unat (of_nat off :: 16 word) = off" using off by (simp add: unat_of_nat)
  then have "EmitCopyLessThan64 m op off len = Some (m2, op + 3)"
    using False len off m1(1) m2(1) by (auto simp: EmitCopyLessThan64_def Store16_def Let_def)
  with appended_trans [OF m1(2) m2(2)] show ?thesis unfolding code by simp
qed

text \<open>A long copy is split; the pieces together copy the same bytes.\<close>

function copies_code :: "nat \<Rightarrow> nat \<Rightarrow> bytes" where
  "copies_code off len =
     (if 68 \<le> len then copy_code off 64 @ copies_code off (len - 64)
      else if 64 < len then copy_code off 60 @ copy_code off (len - 60)
      else copy_code off len)"
  by pat_completeness auto
termination
  by (relation "measure (\<lambda>(off, len). len)") auto

declare copies_code.simps [simp del]

lemma copies_code_length: "4 \<le> len \<Longrightarrow> length (copies_code off len) < len"
proof (induction off len rule: copies_code.induct)
  case (1 off len)
  have short: "length (copy_code off k) \<le> 3" for k by (simp add: length_copy_code)
  show ?case
  proof (cases "68 \<le> len")
    case True
    with "1.IH" have "length (copies_code off (len - 64)) < len - 64" by simp
    then show ?thesis using True short [of 64] by (subst copies_code.simps) simp
  next
    case False
    then show ?thesis using short [of 60] short [of "len - 60"] short [of len] "1.prems"
      by (subst copies_code.simps) auto
  qed
qed

lemma decode_copy_code:
  assumes "4 \<le> len" "len \<le> 64" "off < 65536" "0 < off" "off \<le> length out"
  shows "decode wr (copy_code off len @ cs) out = decode wr cs (copy_from off len out)"
  using decode_one [OF parse_copy_code [OF assms(1,2,3)], of out] assms(4,5) by simp

lemma decode_copies_code:
  "4 \<le> len \<Longrightarrow> off < 65536 \<Longrightarrow> 0 < off \<Longrightarrow> off \<le> length out \<Longrightarrow>
   decode wr (copies_code off len) out = Some (copy_from off len out)"
proof (induction off len arbitrary: out rule: copies_code.induct)
  case (1 off len)
  note IH = "1.IH" and p = "1.prems"
  have one: "decode wr (copy_code off n) out' = Some (copy_from off n out')"
    if "4 \<le> n" "n \<le> 64" "off \<le> length out'" for n out'
    using decode_copy_code [OF that(1,2) p(2,3) that(3), of wr "[]"] by simp
  have add: "k \<le> len \<Longrightarrow> copy_from off (len - k) (copy_from off k out) = copy_from off len out" for k
    using copy_from_add [of off k "len - k" out] by simp
  consider (big) "68 \<le> len" | (mid) "64 < len" "len < 68" | (small) "len \<le> 64" by linarith
  then show ?case
  proof cases
    case big
    have "off \<le> length (copy_from off 64 out)" using p(4) by simp
    from IH [OF big _ p(2,3) this] big show ?thesis
      using decode_copy_code [of 64 off out wr "copies_code off (len - 64)"] p add [of 64]
      by (subst copies_code.simps) simp
  next
    case mid
    then show ?thesis
      using decode_copy_code [of 60 off out wr "copy_code off (len - 60)"] p add [of 60] one [of "len - 60" "copy_from off 60 out"]
      by (subst copies_code.simps) simp
  next
    case small
    then show ?thesis using one [of len out] p by (subst copies_code.simps) simp
  qed
qed

lemma EmitCopy_ok:
  assumes "4 \<le> len" "off < 65536" "op + length (copies_code off len) \<le> length m"
  shows "\<exists>m'. EmitCopy m op off len = Some (m', op + length (copies_code off len)) \<and>
     appended m op (copies_code off len) m'"
  using assms
proof (induction off len arbitrary: m op rule: copies_code.induct)
  case (1 off len)
  consider (big) "68 \<le> len" | (mid) "64 < len" "len < 68" | (small) "len \<le> 64" by linarith
  then show ?case
  proof cases
    case big
    let ?a = "copy_code off 64" and ?b = "copies_code off (len - 64)"
    have code: "copies_code off len = ?a @ ?b" using big by (subst copies_code.simps) simp
    have "op + length ?a \<le> length m" using "1.prems"(3) code by simp
    from EmitCopyLessThan64_ok [OF _ _ "1.prems"(2) this] obtain m1 where
      m1: "EmitCopyLessThan64 m op off 64 = Some (m1, op + length ?a)" "appended m op ?a m1" by auto
    have "op + length ?a + length ?b \<le> length m1" "4 \<le> len - 64"
      using "1.prems"(3) code m1(2) big by (simp_all add: appended_def)
    from "1.IH" [OF big this(2) "1.prems"(2) this(1)] obtain m2 where
      m2: "EmitCopy m1 (op + length ?a) off (len - 64) = Some (m2, op + length ?a + length ?b)"
        "appended m1 (op + length ?a) ?b m2" by blast
    have "EmitCopy m op off len = EmitCopy m1 (op + length ?a) off (len - 64)"
      using m1(1) big by (simp add: EmitCopy_def emit_copy_loop.simps [of m])
    with m2 appended_trans [OF m1(2) m2(2)] show ?thesis unfolding code by (simp add: add.assoc)
  next
    case mid
    let ?a = "copy_code off 60" and ?b = "copy_code off (len - 60)"
    have code: "copies_code off len = ?a @ ?b" using mid by (subst copies_code.simps) simp
    have "op + length ?a \<le> length m" using "1.prems"(3) code by simp
    from EmitCopyLessThan64_ok [OF _ _ "1.prems"(2) this] obtain m1 where
      m1: "EmitCopyLessThan64 m op off 60 = Some (m1, op + length ?a)" "appended m op ?a m1" by auto
    have "op + length ?a + length ?b \<le> length m1" "4 \<le> len - 60" "len - 60 \<le> 64"
      using "1.prems"(3) code m1(2) mid by (simp_all add: appended_def)
    from EmitCopyLessThan64_ok [OF this(2,3) "1.prems"(2) this(1)] obtain m2 where
      m2: "EmitCopyLessThan64 m1 (op + length ?a) off (len - 60) = Some (m2, op + length ?a + length ?b)"
        "appended m1 (op + length ?a) ?b m2" by blast
    have "EmitCopy m op off len = EmitCopyLessThan64 m1 (op + length ?a) off (len - 60)"
      using m1(1) mid by (simp add: EmitCopy_def emit_copy_loop.simps [of m])
    with m2 appended_trans [OF m1(2) m2(2)] show ?thesis unfolding code by (simp add: add.assoc)
  next
    case small
    have code: "copies_code off len = copy_code off len" using small by (subst copies_code.simps) simp
    have "EmitCopy m op off len = EmitCopyLessThan64 m op off len"
      using small by (simp add: EmitCopy_def emit_copy_loop.simps [of m])
    with EmitCopyLessThan64_ok [OF "1.prems"(1) small "1.prems"(2), of op m] "1.prems"(3) show ?thesis
      unfolding code by simp
  qed
qed

end
