(* ===== verification/SnappyMatch.thy ===== *)
theory SnappyMatch
  imports SnappyStubs "HOL-Library.Sublist"
begin

text \<open>
  \<open>FindMatchLength\<close> (\<open>snappy-internal.h\<close>), the version for x86-64 and the portable one, and
  \<open>GetUint32AtOffset\<close> (\<open>snappy.cc\<close>). Both versions compute the length of the longest common
  prefix.
\<close>

unbundle bit_operations_syntax

section \<open>Definitions\<close>

text \<open>The pointers \<open>s1\<close>, \<open>s2\<close> and \<open>s2_limit\<close> are positions in the input \<open>inp\<close>.\<close>

function match_bytes :: "bytes \<Rightarrow> nat \<Rightarrow> nat \<Rightarrow> nat \<Rightarrow> nat \<Rightarrow> nat option" where
  "match_bytes inp s1 s2 s2_limit matched =
     (if s2 < s2_limit
      then do {
        a \<leftarrow> mem_byte inp (s1 + matched);
        b \<leftarrow> mem_byte inp s2;
        if a = b then match_bytes inp s1 (s2 + 1) s2_limit (matched + 1) else Some matched
      }
      else Some matched)"
  by pat_completeness auto
termination
  by (relation "measure (\<lambda>(inp, s1, s2, s2_limit, matched). s2_limit - s2)") auto

function match_words :: "bytes \<Rightarrow> nat \<Rightarrow> nat \<Rightarrow> nat \<Rightarrow> nat \<Rightarrow> nat option" where
  "match_words inp s1 s2 s2_limit matched =
     (if s2 + 8 \<le> s2_limit
      then do {
        a \<leftarrow> UNALIGNED_LOAD64 inp s2;
        b \<leftarrow> UNALIGNED_LOAD64 inp (s1 + matched);
        if a = b then match_words inp s1 (s2 + 8) s2_limit (matched + 8)
        else Some (matched + drop_bit 3 (FindLSBSetNonZero64 (a XOR b)))
      }
      else match_bytes inp s1 s2 s2_limit matched)"
  by pat_completeness auto
termination
  by (relation "measure (\<lambda>(inp, s1, s2, s2_limit, matched). s2_limit - s2)") auto

definition FindMatchLength :: "bytes \<Rightarrow> nat \<Rightarrow> nat \<Rightarrow> nat \<Rightarrow> nat option" where
  "FindMatchLength inp s1 s2 s2_limit = match_words inp s1 s2 s2_limit 0"

text \<open>The portable version on a little-endian machine\<close>

function match_words32 :: "bytes \<Rightarrow> nat \<Rightarrow> nat \<Rightarrow> nat \<Rightarrow> nat \<Rightarrow> nat option" where
  "match_words32 inp s1 s2 s2_limit matched =
     (if s2 + 4 \<le> s2_limit
      then do {
        a \<leftarrow> UNALIGNED_LOAD32 inp s2;
        b \<leftarrow> UNALIGNED_LOAD32 inp (s1 + matched);
        if a = b then match_words32 inp s1 (s2 + 4) s2_limit (matched + 4)
        else Some (matched + drop_bit 3 (FindLSBSetNonZero (a XOR b)))
      }
      else match_bytes inp s1 s2 s2_limit matched)"
  by pat_completeness auto
termination
  by (relation "measure (\<lambda>(inp, s1, s2, s2_limit, matched). s2_limit - s2)") auto

definition FindMatchLength_portable :: "bytes \<Rightarrow> nat \<Rightarrow> nat \<Rightarrow> nat \<Rightarrow> nat option" where
  "FindMatchLength_portable inp s1 s2 s2_limit = match_words32 inp s1 s2 s2_limit 0"

declare match_bytes.simps [simp del] match_words.simps [simp del] match_words32.simps [simp del]

definition GetUint32AtOffset :: "64 word \<Rightarrow> nat \<Rightarrow> 32 word" where
  "GetUint32AtOffset v offset = ucast (drop_bit (8 * offset) v)"

section \<open>Matches\<close>

definition agree :: "bytes \<Rightarrow> nat \<Rightarrow> nat \<Rightarrow> nat \<Rightarrow> bool" where
  "agree inp s1 s2 n \<longleftrightarrow> (\<forall>i<n. inp ! (s1 + i) = inp ! (s2 + i))"

definition longest_match :: "bytes \<Rightarrow> nat \<Rightarrow> nat \<Rightarrow> nat \<Rightarrow> nat \<Rightarrow> bool" where
  "longest_match inp s1 s2 s2_limit n \<longleftrightarrow>
     s2 + n \<le> s2_limit \<and> agree inp s1 s2 n \<and> (s2 + n < s2_limit \<longrightarrow> inp ! (s1 + n) \<noteq> inp ! (s2 + n))"

lemma agree_extend:
  assumes "agree inp s1 s2 n" "take k (drop (s1 + n) inp) = take k (drop (s2 + n) inp)"
    and "s1 + n + k \<le> length inp" "s2 + n + k \<le> length inp"
  shows "agree inp s1 s2 (n + k)"
  unfolding agree_def
proof (intro allI impI)
  fix i
  assume i: "i < n + k"
  show "inp ! (s1 + i) = inp ! (s2 + i)"
  proof (cases "i < n")
    case True
    with assms(1) show ?thesis by (simp add: agree_def)
  next
    case False
    then have j: "i - n < k" using i by simp
    have "take k (drop (s1 + n) inp) ! (i - n) = take k (drop (s2 + n) inp) ! (i - n)" using assms(2) by simp
    with j False assms(3,4) show ?thesis by simp
  qed
qed

lemma longest_common_prefix_length:
  "n \<le> length xs \<Longrightarrow> n \<le> length ys \<Longrightarrow> take n xs = take n ys \<Longrightarrow>
   (n < length xs \<Longrightarrow> n < length ys \<Longrightarrow> xs ! n \<noteq> ys ! n) \<Longrightarrow> length (longest_common_prefix xs ys) = n"
proof (induction xs ys arbitrary: n rule: longest_common_prefix.induct)
  case (1 x xs y ys)
  then show ?case by (cases n) auto
qed simp_all

lemma longest_match_prefix:
  assumes "longest_match inp s1 s2 lim n" "s1 \<le> s2" "lim \<le> length inp"
  shows "length (longest_common_prefix (drop s1 inp) (take (lim - s2) (drop s2 inp))) = n"
proof (rule longest_common_prefix_length)
  from assms show "n \<le> length (drop s1 inp)" "n \<le> length (take (lim - s2) (drop s2 inp))"
    by (auto simp: longest_match_def)
  from assms show "take n (drop s1 inp) = take n (take (lim - s2) (drop s2 inp))"
    by (auto simp: longest_match_def agree_def list_eq_iff_nth_eq)
  assume "n < length (drop s1 inp)" "n < length (take (lim - s2) (drop s2 inp))"
  with assms show "drop s1 inp ! n \<noteq> take (lim - s2) (drop s2 inp) ! n"
    by (auto simp: longest_match_def)
qed

lemma match_bytes_ok:
  "agree inp s1 s2 n \<Longrightarrow> s2 + n \<le> lim \<Longrightarrow> lim \<le> length inp \<Longrightarrow> s1 \<le> s2 \<Longrightarrow>
   \<exists>k. match_bytes inp s1 (s2 + n) lim n = Some k \<and> longest_match inp s1 s2 lim k"
proof (induction "lim - (s2 + n)" arbitrary: n rule: less_induct)
  case less
  note step = match_bytes.simps [of inp s1 "s2 + n" lim n]
  show ?case
  proof (cases "s2 + n < lim")
    case False
    then have "match_bytes inp s1 (s2 + n) lim n = Some n" by (simp add: step)
    with False less.prems show ?thesis by (simp add: longest_match_def)
  next
    case True
    have b: "mem_byte inp (s1 + n) = Some (inp ! (s1 + n))" "mem_byte inp (s2 + n) = Some (inp ! (s2 + n))"
      using True less.prems by (simp_all add: mem_byte_def)
    show ?thesis
    proof (cases "inp ! (s1 + n) = inp ! (s2 + n)")
      case eq: True
      have "agree inp s1 s2 (Suc n)" using less.prems(1) eq by (auto simp: agree_def less_Suc_eq)
      moreover have "lim - (s2 + Suc n) < lim - (s2 + n)" "s2 + Suc n \<le> lim" using True by simp_all
      ultimately show ?thesis
        using less.hyps [of "Suc n"] less.prems True b eq by (simp add: step)
    next
      case False
      with less.prems True b show ?thesis by (simp add: step longest_match_def)
    qed
  qed
qed

text \<open>What one word of a difference tells\<close>

lemma word_difference:
  fixes a b :: "'a::len word"
  assumes a: "a = of_nat (le_nat (take k (drop (s2 + n) inp)))" and b: "b = of_nat (le_nat (take k (drop (s1 + n) inp)))"
    and k: "8 * k \<le> LENGTH('a)" and lsb: "lsb_at (a XOR b) j" and ag: "agree inp s1 s2 n"
    and le: "s1 \<le> s2" "s2 + n + k \<le> lim" "lim \<le> length inp"
  shows "longest_match inp s1 s2 lim (n + j div 8)"
proof -
  let ?y = "take k (drop (s2 + n) inp)" and ?x = "take k (drop (s1 + n) inp)"
  have len: "length ?y = length ?x" "length ?y = k" using le by simp_all
  have k': "8 * length ?y \<le> LENGTH('a)" using k len by simp
  note d = lsb_first_difference [OF len(1) k', of j, folded a b, OF lsb]
  have j: "j div 8 < k" using d(2) len(2) by simp
  have "take (j div 8) (drop (s1 + n) inp) = take (j div 8) (drop (s2 + n) inp)"
    using d(1) j by (simp add: min_absorb1)
  then have "agree inp s1 s2 (n + j div 8)" using ag j le by (intro agree_extend) simp_all
  moreover have "inp ! (s1 + (n + j div 8)) \<noteq> inp ! (s2 + (n + j div 8))"
    using d(3) j le by (simp add: add.assoc)
  ultimately show ?thesis using j le by (simp add: longest_match_def)
qed

lemma xor_lsb: "a \<noteq> b \<Longrightarrow> \<exists>j. lsb_at (a XOR b) j" for a b :: "'a::len word"
  by (rule lsb_exists) (metis xor.assoc xor.left_neutral xor.right_neutral xor_self_eq)

lemma match_words_ok:
  "agree inp s1 s2 n \<Longrightarrow> s2 + n \<le> lim \<Longrightarrow> lim \<le> length inp \<Longrightarrow> s1 \<le> s2 \<Longrightarrow>
   \<exists>k. match_words inp s1 (s2 + n) lim n = Some k \<and> longest_match inp s1 s2 lim k"
proof (induction "lim - (s2 + n)" arbitrary: n rule: less_induct)
  case less
  note step = match_words.simps [of inp s1 "s2 + n" lim n]
  show ?case
  proof (cases "s2 + n + 8 \<le> lim")
    case False
    with match_bytes_ok [OF less.prems] show ?thesis by (simp add: step)
  next
    case True
    let ?a = "of_nat (le_nat (take 8 (drop (s2 + n) inp))) :: 64 word"
    let ?b = "of_nat (le_nat (take 8 (drop (s1 + n) inp))) :: 64 word"
    have ld: "UNALIGNED_LOAD64 inp (s2 + n) = Some ?a" "UNALIGNED_LOAD64 inp (s1 + n) = Some ?b"
      using True less.prems by (simp_all add: LOAD64_Some)
    show ?thesis
    proof (cases "?a = ?b")
      case eq: True
      have l: "length (take 8 (drop (s2 + n) inp)) = 8" "length (take 8 (drop (s1 + n) inp)) = 8"
        using True less.prems by simp_all
      have "le_nat (take 8 (drop (s2 + n) inp)) = le_nat (take 8 (drop (s1 + n) inp))"
        using eq l by (metis unat_le_nat64)
      then have "take 8 (drop (s1 + n) inp) = take 8 (drop (s2 + n) inp)" using l by (simp add: le_nat_inj)
      then have "agree inp s1 s2 (n + 8)" using less.prems True by (intro agree_extend) simp_all
      moreover have "lim - (s2 + (n + 8)) < lim - (s2 + n)" "s2 + (n + 8) \<le> lim" using True by simp_all
      ultimately show ?thesis
        using less.hyps [of "n + 8"] less.prems True ld eq by (simp add: step add.assoc)
    next
      case False
      then obtain j where j: "lsb_at (?a XOR ?b) j" using xor_lsb by blast
      have "longest_match inp s1 s2 lim (n + j div 8)"
        by (rule word_difference [OF refl refl _ j]) (use less.prems True in simp_all)
      with True ld False FindLSBSetNonZero64_lsb [OF j] show ?thesis by (simp add: step drop_bit_eq_div)
    qed
  qed
qed

lemma match_words32_ok:
  "agree inp s1 s2 n \<Longrightarrow> s2 + n \<le> lim \<Longrightarrow> lim \<le> length inp \<Longrightarrow> s1 \<le> s2 \<Longrightarrow>
   \<exists>k. match_words32 inp s1 (s2 + n) lim n = Some k \<and> longest_match inp s1 s2 lim k"
proof (induction "lim - (s2 + n)" arbitrary: n rule: less_induct)
  case less
  note step = match_words32.simps [of inp s1 "s2 + n" lim n]
  show ?case
  proof (cases "s2 + n + 4 \<le> lim")
    case False
    with match_bytes_ok [OF less.prems] show ?thesis by (simp add: step)
  next
    case True
    let ?a = "of_nat (le_nat (take 4 (drop (s2 + n) inp))) :: 32 word"
    let ?b = "of_nat (le_nat (take 4 (drop (s1 + n) inp))) :: 32 word"
    have ld: "UNALIGNED_LOAD32 inp (s2 + n) = Some ?a" "UNALIGNED_LOAD32 inp (s1 + n) = Some ?b"
      using True less.prems by (simp_all add: LOAD32_Some)
    show ?thesis
    proof (cases "?a = ?b")
      case eq: True
      have "UNALIGNED_LOAD32 inp (s1 + n) = UNALIGNED_LOAD32 inp (s2 + n)" using eq ld by simp
      then have "take 4 (drop (s1 + n) inp) = take 4 (drop (s2 + n) inp)"
        using LOAD32_eq [of "s1 + n" inp "s2 + n" inp] True less.prems by simp
      then have "agree inp s1 s2 (n + 4)" using less.prems True by (intro agree_extend) simp_all
      moreover have "lim - (s2 + (n + 4)) < lim - (s2 + n)" "s2 + (n + 4) \<le> lim" using True by simp_all
      ultimately show ?thesis
        using less.hyps [of "n + 4"] less.prems True ld eq by (simp add: step add.assoc)
    next
      case False
      then obtain j where j: "lsb_at (?a XOR ?b) j" using xor_lsb by blast
      have "longest_match inp s1 s2 lim (n + j div 8)"
        by (rule word_difference [OF refl refl _ j]) (use less.prems True in simp_all)
      with True ld False FindLSBSetNonZero_lsb [OF j] show ?thesis by (simp add: step drop_bit_eq_div)
    qed
  qed
qed

lemma FindMatchLength_ok:
  assumes "s1 \<le> s2" "s2 \<le> lim" "lim \<le> length inp"
  shows "\<exists>k. FindMatchLength inp s1 s2 lim = Some k \<and> longest_match inp s1 s2 lim k"
  using match_words_ok [of inp s1 s2 0 lim] assms by (simp add: FindMatchLength_def agree_def)

text \<open>
  C29: Both versions of FindMatchLength return the length of the longest common prefix of the
  input from s1 and the input between s2 and s2_limit, and neither reads outside the input.
\<close>

theorem FindMatchLength_correct:
  assumes "s1 \<le> s2" "s2 \<le> s2_limit" "s2_limit \<le> length inp"
  shows "FindMatchLength inp s1 s2 s2_limit =
       Some (length (longest_common_prefix (drop s1 inp) (take (s2_limit - s2) (drop s2 inp)))) \<and>
     FindMatchLength_portable inp s1 s2 s2_limit = FindMatchLength inp s1 s2 s2_limit"
proof -
  have a: "agree inp s1 s2 0" by (simp add: agree_def)
  from match_words_ok [OF a] assms obtain k where
    k: "match_words inp s1 s2 s2_limit 0 = Some k" "longest_match inp s1 s2 s2_limit k" by auto
  from match_words32_ok [OF a] assms obtain k' where
    k': "match_words32 inp s1 s2 s2_limit 0 = Some k'" "longest_match inp s1 s2 s2_limit k'" by auto
  from k k' longest_match_prefix [OF k(2) assms(1,3)] longest_match_prefix [OF k'(2) assms(1,3)] show ?thesis
    by (simp add: FindMatchLength_def FindMatchLength_portable_def)
qed

lemma FindMatchLength_correct_witness:
  "FindMatchLength [1, 2, 3, 1, 2, 4] 0 3 6 = Some 2 \<and> FindMatchLength_portable [1, 2, 3, 1, 2, 4] 0 3 6 = Some 2"
  using FindMatchLength_correct [of 0 3 6 "[1, 2, 3, 1, 2, 4]"] by simp

section \<open>Overlapping loads\<close>

lemma GetUint32AtOffset_load:
  assumes v: "UNALIGNED_LOAD64 m p = Some v" and k: "k \<le> 4"
  shows "UNALIGNED_LOAD32 m (p + k) = Some (GetUint32AtOffset v k)"
proof -
  have fits: "p + 8 \<le> length m" using v by (auto simp: UNALIGNED_LOAD64_def mem_read_def split: if_splits)
  let ?bs = "take 8 (drop p m)"
  have vv: "v = of_nat (le_nat ?bs)" using v LOAD64_Some [OF fits] by simp
  have bs: "take 4 (drop (p + k) m) = take 4 (drop k ?bs)" using k by (simp add: drop_take min_absorb1 add.commute)
  have "UNALIGNED_LOAD32 m (p + k) = Some (of_nat (le_nat (take 4 (drop k ?bs))))"
    using fits k by (simp add: LOAD32_Some flip: bs)
  moreover have "(of_nat (le_nat (take 4 (drop k ?bs))) :: 32 word) = GetUint32AtOffset v k"
  proof (rule bit_word_eqI)
    fix n
    assume n: "n < LENGTH(32)"
    have i: "(8 * k + n) div 8 = k + n div 8" "(8 * k + n) mod 8 = n mod 8" by simp_all
    have "n div 8 < 4" using n by simp
    then show "bit (of_nat (le_nat (take 4 (drop k ?bs))) :: 32 word) n = bit (GetUint32AtOffset v k) n"
      using n k fits by (simp add: GetUint32AtOffset_def vv bit_ucast_iff bit_drop_bit_eq bit_of_nat_iff bit_le_nat i)
  qed
  ultimately show ?thesis by simp
qed

end
