(* ===== verification/SnappySinkSource.thy ===== *)
theory SnappySinkSource
  imports SnappyStubs "HOL-Library.Sublist"
begin

text \<open>
  \<open>snappy-sinksource.h\<close> and \<open>snappy-sinksource.cc\<close>: the abstract classes \<open>Source\<close> and \<open>Sink\<close>
  as records of operations with their contracts as locales, and the two implementations
  for flat arrays.
\<close>

section \<open>Sources\<close>

text \<open>\<open>Peek\<close> gives the region at the read position (its bytes stand for pointer and length).\<close>

record 's source_ops =
  Available :: "'s \<Rightarrow> nat"
  Peek :: "'s \<Rightarrow> bytes \<times> 's"
  Skip :: "nat \<Rightarrow> 's \<Rightarrow> 's"

locale source =
  fixes src :: "'s source_ops" and src_inv :: "'s \<Rightarrow> bool" and content :: "'s \<Rightarrow> bytes"
  assumes Available: "src_inv s \<Longrightarrow> Available src s = length (content s)"
    and Peek: "src_inv s \<Longrightarrow> Peek src s = (r, s') \<Longrightarrow>
        src_inv s' \<and> content s' = content s \<and> prefix r (content s) \<and> (r = [] \<longrightarrow> content s = [])"
    and Skip: "src_inv s \<Longrightarrow> n \<le> length (content s) \<Longrightarrow>
        src_inv (Skip src n s) \<and> content (Skip src n s) = drop n (content s)"
begin

lemma Peek_obtain:
  assumes "src_inv s"
  obtains r s' rest where "Peek src s = (r, s')" "src_inv s'" "content s' = content s"
    "content s = r @ rest" "r = [] \<Longrightarrow> content s = []"
proof -
  obtain r s' where "Peek src s = (r, s')" by fastforce
  with Peek [OF assms this] that show thesis by (auto simp: prefix_def)
qed

lemma Skip_zero: "src_inv s \<Longrightarrow> src_inv (Skip src 0 s) \<and> content (Skip src 0 s) = content s"
  using Skip [of s 0] by simp

text \<open>Skipping the beginning of what was peeked\<close>

lemma Peek_Skip:
  assumes "src_inv s" "Peek src s = (r, s')" "n \<le> length r"
  shows "src_inv (Skip src n s') \<and> content (Skip src n s') = drop n (content s)"
proof -
  from Peek [OF assms(1,2)] have "src_inv s'" "content s' = content s" "length r \<le> length (content s)"
    by (auto simp: prefix_def)
  with Skip [of s' n] assms(3) show ?thesis by simp
qed

end

record ByteArraySource =
  src_array :: bytes
  src_ptr :: nat
  src_left :: nat

definition ByteArraySource_init :: "bytes \<Rightarrow> ByteArraySource" where
  "ByteArraySource_init p = \<lparr>src_array = p, src_ptr = 0, src_left = length p\<rparr>"

definition ByteArraySource_Available :: "ByteArraySource \<Rightarrow> nat" where
  "ByteArraySource_Available s = src_left s"

definition ByteArraySource_Peek :: "ByteArraySource \<Rightarrow> bytes \<times> ByteArraySource" where
  "ByteArraySource_Peek s = (take (src_left s) (drop (src_ptr s) (src_array s)), s)"

text \<open>\<open>left_\<close> is a \<open>size_t\<close>: skipping more than is left wraps it around.\<close>

definition ByteArraySource_Skip :: "nat \<Rightarrow> ByteArraySource \<Rightarrow> ByteArraySource" where
  "ByteArraySource_Skip n s =
     s\<lparr>src_left := unat (of_nat (src_left s) - of_nat n :: 64 word), src_ptr := src_ptr s + n\<rparr>"

definition byte_array_source :: "ByteArraySource source_ops" where
  "byte_array_source =
     \<lparr>Available = ByteArraySource_Available, Peek = ByteArraySource_Peek, Skip = ByteArraySource_Skip\<rparr>"

definition bas_inv :: "ByteArraySource \<Rightarrow> bool" where
  "bas_inv s \<longleftrightarrow> src_ptr s + src_left s = length (src_array s) \<and> length (src_array s) < 2 ^ 64"

definition bas_content :: "ByteArraySource \<Rightarrow> bytes" where
  "bas_content s = drop (src_ptr s) (src_array s)"

lemma unat_diff64: "n \<le> m \<Longrightarrow> m < 2 ^ 64 \<Longrightarrow> unat (of_nat m - of_nat n :: 64 word) = m - n"
  by (simp add: unat_of_nat flip: of_nat_diff)

interpretation array_source: source byte_array_source bas_inv bas_content
proof
  fix s :: ByteArraySource and r s' n
  assume inv: "bas_inv s"
  show "Available byte_array_source s = length (bas_content s)"
    using inv by (auto simp: byte_array_source_def ByteArraySource_Available_def bas_content_def bas_inv_def)
  show "Peek byte_array_source s = (r, s') \<Longrightarrow> bas_inv s' \<and> bas_content s' = bas_content s \<and>
      prefix r (bas_content s) \<and> (r = [] \<longrightarrow> bas_content s = [])"
    using inv by (auto simp: byte_array_source_def ByteArraySource_Peek_def bas_content_def bas_inv_def)
  assume "n \<le> length (bas_content s)"
  then show "bas_inv (Skip byte_array_source n s) \<and>
      bas_content (Skip byte_array_source n s) = drop n (bas_content s)"
    using inv by (auto simp: byte_array_source_def ByteArraySource_Skip_def bas_content_def bas_inv_def
        unat_diff64 add.commute)
qed

lemma bas_init: "length p < 2 ^ 64 \<Longrightarrow> bas_inv (ByteArraySource_init p) \<and> bas_content (ByteArraySource_init p) = p"
  by (simp add: bas_inv_def bas_content_def ByteArraySource_init_def)

section \<open>Sinks\<close>

text \<open>
  Memory a caller may fill and hand back to \<open>Append\<close>: the sink's own memory at its write
  position, or other memory (the caller's scratch buffer).
\<close>

datatype sink_memory = OwnMemory bytes | OtherMemory bytes

fun memory_of :: "sink_memory \<Rightarrow> bytes" where
  "memory_of (OwnMemory m) = m"
| "memory_of (OtherMemory m) = m"

fun update_memory :: "sink_memory \<Rightarrow> bytes \<Rightarrow> sink_memory" where
  "update_memory (OwnMemory m) m' = OwnMemory m'"
| "update_memory (OtherMemory m) m' = OtherMemory m'"

lemma memory_of_update [simp]: "memory_of (update_memory b m) = m"
  by (cases b) simp_all

record 'k sink_ops =
  Append :: "sink_memory \<Rightarrow> nat \<Rightarrow> 'k \<Rightarrow> 'k option"
  GetAppendBuffer :: "nat \<Rightarrow> bytes \<Rightarrow> 'k \<Rightarrow> sink_memory"

text \<open>The default of class \<open>Sink\<close>\<close>

definition Sink_GetAppendBuffer :: "nat \<Rightarrow> bytes \<Rightarrow> 'k \<Rightarrow> sink_memory" where
  "Sink_GetAppendBuffer len scratch k = OtherMemory scratch"

text \<open>
  The contract: \<open>written\<close> is what was appended and \<open>room\<close> the number of bytes the sink can
  still take.
\<close>

locale sink =
  fixes snk :: "'k sink_ops" and snk_inv :: "'k \<Rightarrow> bool" and written :: "'k \<Rightarrow> bytes" and room :: "'k \<Rightarrow> nat"
  assumes GetAppendBuffer: "snk_inv k \<Longrightarrow> need \<le> length scratch \<Longrightarrow> need \<le> room k \<Longrightarrow>
      need \<le> length (memory_of (GetAppendBuffer snk n scratch k))"
    and Append_other: "snk_inv k \<Longrightarrow> n \<le> length m \<Longrightarrow> n \<le> room k \<Longrightarrow>
      \<exists>k'. Append snk (OtherMemory m) n k = Some k' \<and> snk_inv k' \<and>
        written k' = written k @ take n m \<and> room k' = room k - n"
    and Append_own: "snk_inv k \<Longrightarrow> GetAppendBuffer snk l scratch k = OwnMemory m \<Longrightarrow>
      length m' = length m \<Longrightarrow> n \<le> length m \<Longrightarrow> n \<le> room k \<Longrightarrow>
      \<exists>k'. Append snk (OwnMemory m') n k = Some k' \<and> snk_inv k' \<and>
        written k' = written k @ take n m' \<and> room k' = room k - n"
begin

lemma Append_buffer:
  assumes "snk_inv k" "n \<le> length m'" "n \<le> room k"
    and "length m' = length (memory_of (GetAppendBuffer snk l scratch k))"
  shows "\<exists>k'. Append snk (update_memory (GetAppendBuffer snk l scratch k) m') n k = Some k' \<and> snk_inv k' \<and>
     written k' = written k @ take n m' \<and> room k' = room k - n"
proof (cases "GetAppendBuffer snk l scratch k")
  case (OwnMemory m)
  with Append_own [OF assms(1) OwnMemory, of m' n] assms show ?thesis by simp
next
  case (OtherMemory m)
  with Append_other [OF assms(1,2,3)] show ?thesis by simp
qed

end

record UncheckedByteArraySink =
  snk_array :: bytes
  snk_dest :: nat

definition UncheckedByteArraySink_init :: "bytes \<Rightarrow> UncheckedByteArraySink" where
  "UncheckedByteArraySink_init dest = \<lparr>snk_array = dest, snk_dest = 0\<rparr>"

definition UncheckedByteArraySink_Append ::
  "sink_memory \<Rightarrow> nat \<Rightarrow> UncheckedByteArraySink \<Rightarrow> UncheckedByteArraySink option" where
  "UncheckedByteArraySink_Append data n k =
     do {
       a \<leftarrow> (case data of
               OtherMemory m \<Rightarrow> do { bs \<leftarrow> mem_read m 0 n; mem_write (snk_array k) (snk_dest k) bs }
             | OwnMemory m \<Rightarrow> Some (take (snk_dest k) (snk_array k) @ m));
       Some (k\<lparr>snk_array := a, snk_dest := snk_dest k + n\<rparr>)
     }"

definition UncheckedByteArraySink_GetAppendBuffer ::
  "nat \<Rightarrow> bytes \<Rightarrow> UncheckedByteArraySink \<Rightarrow> sink_memory" where
  "UncheckedByteArraySink_GetAppendBuffer len scratch k = OwnMemory (drop (snk_dest k) (snk_array k))"

definition CurrentDestination :: "UncheckedByteArraySink \<Rightarrow> nat" where
  "CurrentDestination k = snk_dest k"

definition byte_array_sink :: "UncheckedByteArraySink sink_ops" where
  "byte_array_sink =
     \<lparr>Append = UncheckedByteArraySink_Append, GetAppendBuffer = UncheckedByteArraySink_GetAppendBuffer\<rparr>"

definition bask_inv :: "UncheckedByteArraySink \<Rightarrow> bool" where
  "bask_inv k \<longleftrightarrow> snk_dest k \<le> length (snk_array k)"

definition bask_written :: "UncheckedByteArraySink \<Rightarrow> bytes" where
  "bask_written k = take (snk_dest k) (snk_array k)"

definition bask_room :: "UncheckedByteArraySink \<Rightarrow> nat" where
  "bask_room k = length (snk_array k) - snk_dest k"

interpretation array_sink: sink byte_array_sink bask_inv bask_written bask_room
proof
  fix k :: UncheckedByteArraySink and need n l :: nat and scratch m m' :: bytes
  assume inv: "bask_inv k"
  show "need \<le> length scratch \<Longrightarrow> need \<le> bask_room k \<Longrightarrow>
      need \<le> length (memory_of (GetAppendBuffer byte_array_sink n scratch k))"
    by (simp add: byte_array_sink_def UncheckedByteArraySink_GetAppendBuffer_def bask_room_def)
  show "n \<le> length m \<Longrightarrow> n \<le> bask_room k \<Longrightarrow>
      \<exists>k'. Append byte_array_sink (OtherMemory m) n k = Some k' \<and> bask_inv k' \<and>
        bask_written k' = bask_written k @ take n m \<and> bask_room k' = bask_room k - n"
    using inv
    by (auto simp: byte_array_sink_def UncheckedByteArraySink_Append_def bask_inv_def bask_written_def
        bask_room_def mem_simps)
  show "GetAppendBuffer byte_array_sink l scratch k = OwnMemory m \<Longrightarrow> length m' = length m \<Longrightarrow>
      n \<le> length m \<Longrightarrow> n \<le> bask_room k \<Longrightarrow>
      \<exists>k'. Append byte_array_sink (OwnMemory m') n k = Some k' \<and> bask_inv k' \<and>
        bask_written k' = bask_written k @ take n m' \<and> bask_room k' = bask_room k - n"
    using inv
    by (auto simp: byte_array_sink_def UncheckedByteArraySink_Append_def bask_inv_def bask_written_def
        bask_room_def UncheckedByteArraySink_GetAppendBuffer_def)
qed

lemma bask_init: "bask_inv (UncheckedByteArraySink_init d) \<and> bask_written (UncheckedByteArraySink_init d) = [] \<and>
    bask_room (UncheckedByteArraySink_init d) = length d"
  by (simp add: bask_inv_def bask_written_def bask_room_def UncheckedByteArraySink_init_def)

end
