(* ===== verification/SnappyVarint.thy ===== *)
theory SnappyVarint
  imports SnappyStubs
begin

text \<open>
  Class \<open>Varint\<close> (\<open>snappy-stubs-internal.h\<close>, \<open>snappy-stubs-internal.cc\<close>): base-128 encoding
  of 32-bit values, least significant group first.
\<close>

unbundle bit_operations_syntax

section \<open>Encoding\<close>

definition Encode32 :: "32 word \<Rightarrow> bytes" where
  "Encode32 v =
     (if v < push_bit 7 1 then [ucast v]
      else if v < push_bit 14 1 then [ucast (v OR 128), ucast (drop_bit 7 v)]
      else if v < push_bit 21 1 then
        [ucast (v OR 128), ucast (drop_bit 7 v OR 128), ucast (drop_bit 14 v)]
      else if v < push_bit 28 1 then
        [ucast (v OR 128), ucast (drop_bit 7 v OR 128), ucast (drop_bit 14 v OR 128), ucast (drop_bit 21 v)]
      else
        [ucast (v OR 128), ucast (drop_bit 7 v OR 128), ucast (drop_bit 14 v OR 128),
         ucast (drop_bit 21 v OR 128), ucast (drop_bit 28 v)])"

definition Append32 :: "bytes \<Rightarrow> 32 word \<Rightarrow> bytes" where
  "Append32 s v = s @ Encode32 v"

section \<open>Parsing\<close>

text \<open>
  \<open>Parse32WithLimit\<close> on the bytes between \<open>ptr\<close> and \<open>limit\<close>: the value and the bytes after it.
\<close>

definition varint_group :: "byte \<Rightarrow> nat \<Rightarrow> 32 word" where
  "varint_group b shift = push_bit shift (ucast b AND 127)"

definition Parse32WithLimit :: "bytes \<Rightarrow> (32 word \<times> bytes) option" where
  "Parse32WithLimit l =
     (case l of [] \<Rightarrow> None | b # l \<Rightarrow>
      let result = varint_group b 0 in if b < 128 then Some (result, l) else
     (case l of [] \<Rightarrow> None | b # l \<Rightarrow>
      let result = result OR varint_group b 7 in if b < 128 then Some (result, l) else
     (case l of [] \<Rightarrow> None | b # l \<Rightarrow>
      let result = result OR varint_group b 14 in if b < 128 then Some (result, l) else
     (case l of [] \<Rightarrow> None | b # l \<Rightarrow>
      let result = result OR varint_group b 21 in if b < 128 then Some (result, l) else
     (case l of [] \<Rightarrow> None | b # l \<Rightarrow>
      let result = result OR varint_group b 28 in if b < 16 then Some (result, l) else None)))))"

section \<open>Round trip\<close>

lemma low7: "(ucast b AND 127 :: 32 word) = take_bit 7 (ucast b)" for b :: byte
proof -
  have "(127 :: 32 word) = mask 7" by (simp add: mask_eq_exp_minus_1)
  then show ?thesis by (simp add: take_bit_eq_mask)
qed

lemma varint_group_last: "varint_group (ucast w) s = push_bit s (take_bit 7 w)" for w :: "32 word"
proof -
  have "take_bit 7 (ucast (ucast w :: byte) :: 32 word) = take_bit 7 w"
    by (rule bit_word_eqI) (auto simp: bit_ucast_iff bit_take_bit_iff)
  then show ?thesis by (simp add: varint_group_def low7)
qed

lemma varint_group_more: "varint_group (ucast (w OR 128)) s = push_bit s (take_bit 7 w)" for w :: "32 word"
proof -
  have "(128 :: 32 word) = 2 ^ 7" by simp
  then have "take_bit 7 (w OR 128) = take_bit 7 w"
    by (simp only:) (rule bit_word_eqI, auto simp: bit_or_iff bit_take_bit_iff bit_exp_iff)
  then show ?thesis by (simp add: varint_group_last)
qed

lemma bit_bound: "bit w n \<Longrightarrow> 2 ^ n \<le> unat w" for w :: "'a::len word"
proof (rule ccontr)
  assume b: "bit w n" and "\<not> 2 ^ n \<le> unat w"
  then have "unat w div 2 ^ n = 0" by simp
  moreover have "bit (unat w) n" using b by (simp add: bit_unsigned_iff)
  ultimately show False by (simp add: bit_iff_odd)
qed

lemma bit_less: "bit w n \<Longrightarrow> unat w < 2 ^ k \<Longrightarrow> n < k" for w :: "'a::len word"
  using bit_bound [of w n] by (meson le_less_trans not_le power_increasing one_le_numeral order_trans)

lemma more_flag: "\<not> ucast (w OR 128) < (128 :: byte)" for w :: "32 word"
proof
  assume l: "ucast (w OR 128) < (128 :: byte)"
  have "(128 :: 32 word) = 2 ^ 7" by simp
  then have "bit (ucast (w OR 128) :: byte) 7"
    by (simp only:) (simp add: bit_ucast_iff bit_or_iff bit_exp_iff)
  then have "2 ^ 7 \<le> unat (ucast (w OR 128) :: byte)" by (rule bit_bound)
  with l show False by (simp add: word_less_nat_alt)
qed

lemma last_flag: "drop_bit k v = (w :: 32 word) \<Longrightarrow> unat v < 2 ^ (7 + k) \<Longrightarrow> ucast w < (128 :: byte)"
proof -
  assume w: "drop_bit k v = w" and v: "unat v < 2 ^ (7 + k)"
  have "unat w = unat v div 2 ^ k" unfolding w [symmetric] by (simp only: unat_drop_bit_eq) (simp only: drop_bit_eq_div)
  then have "unat w < 128" using v by (simp add: div_less_iff_less_mult power_add)
  then show ?thesis 
    by (simp add: word_less_nat_alt unsigned_ucast_eq take_bit_nat_less_eq_self [THEN le_less_trans])
qed

lemma encode_limits:
  "v < push_bit 7 1 \<longleftrightarrow> unat v < 2 ^ 7" "v < push_bit 14 1 \<longleftrightarrow> unat v < 2 ^ 14"
  "v < push_bit 21 1 \<longleftrightarrow> unat v < 2 ^ 21" "v < push_bit 28 1 \<longleftrightarrow> unat v < 2 ^ 28" for v :: "32 word"
  by (simp_all add: word_less_nat_alt)

lemmas bits32 = bit_or_iff bit_push_bit_iff bit_take_bit_iff bit_drop_bit_eq

lemma bit_group:
  "bit (push_bit s (take_bit 7 (drop_bit s v))) n \<longleftrightarrow> s \<le> n \<and> n < s + 7 \<and> n < 32 \<and> bit v n" for v :: "32 word"
  by (auto simp: bits32)

lemma join_groups:
  fixes v :: "32 word"
  shows "unat v < 2 ^ 7 \<Longrightarrow> take_bit 7 v = v"
    and "unat v < 2 ^ 14 \<Longrightarrow> take_bit 7 v OR push_bit 7 (take_bit 7 (drop_bit 7 v)) = v"
    and "unat v < 2 ^ 21 \<Longrightarrow> take_bit 7 v OR push_bit 7 (take_bit 7 (drop_bit 7 v)) OR
        push_bit 14 (take_bit 7 (drop_bit 14 v)) = v"
    and "unat v < 2 ^ 28 \<Longrightarrow> take_bit 7 v OR push_bit 7 (take_bit 7 (drop_bit 7 v)) OR
        push_bit 14 (take_bit 7 (drop_bit 14 v)) OR push_bit 21 (take_bit 7 (drop_bit 21 v)) = v"
    and "take_bit 7 v OR push_bit 7 (take_bit 7 (drop_bit 7 v)) OR
        push_bit 14 (take_bit 7 (drop_bit 14 v)) OR push_bit 21 (take_bit 7 (drop_bit 21 v)) OR
        push_bit 28 (take_bit 7 (drop_bit 28 v)) = v"
proof -
  note b = bit_less [of v _ 7, simplified] bit_less [of v _ 14, simplified]
    bit_less [of v _ 21, simplified] bit_less [of v _ 28, simplified]
  show "unat v < 2 ^ 7 \<Longrightarrow> take_bit 7 v = v"
    by (rule bit_word_eqI) (auto simp: bit_group bit_or_iff bit_take_bit_iff dest: b)
  show "unat v < 2 ^ 14 \<Longrightarrow> take_bit 7 v OR push_bit 7 (take_bit 7 (drop_bit 7 v)) = v"
    by (rule bit_word_eqI) (auto simp: bit_group bit_or_iff bit_take_bit_iff dest: b)
  show "unat v < 2 ^ 21 \<Longrightarrow> take_bit 7 v OR push_bit 7 (take_bit 7 (drop_bit 7 v)) OR
        push_bit 14 (take_bit 7 (drop_bit 14 v)) = v"
    by (rule bit_word_eqI) (auto simp: bit_group bit_or_iff bit_take_bit_iff dest: b)
  show "unat v < 2 ^ 28 \<Longrightarrow> take_bit 7 v OR push_bit 7 (take_bit 7 (drop_bit 7 v)) OR
        push_bit 14 (take_bit 7 (drop_bit 14 v)) OR push_bit 21 (take_bit 7 (drop_bit 21 v)) = v"
    by (rule bit_word_eqI) (auto simp: bit_group bit_or_iff bit_take_bit_iff dest: b)
  show "take_bit 7 v OR push_bit 7 (take_bit 7 (drop_bit 7 v)) OR
        push_bit 14 (take_bit 7 (drop_bit 14 v)) OR push_bit 21 (take_bit 7 (drop_bit 21 v)) OR
        push_bit 28 (take_bit 7 (drop_bit 28 v)) = v"
    by (rule bit_word_eqI) (auto simp: bit_group bit_or_iff bit_take_bit_iff)
qed

lemma last_small: "drop_bit 28 v = (w :: 32 word) \<Longrightarrow> ucast w < (16 :: byte)"
proof -
  assume w: "drop_bit 28 v = w"
  have "unat w = unat v div 2 ^ 28" unfolding w [symmetric] by (simp only: unat_drop_bit_eq) (simp only: drop_bit_eq_div)
  then have "unat w < 16" using unsigned_less [of v] by (simp add: div_less_iff_less_mult)
  then show ?thesis
    by (simp add: word_less_nat_alt unsigned_ucast_eq take_bit_nat_less_eq_self [THEN le_less_trans])
qed

lemmas groups = varint_group_last varint_group_more more_flag push_bit_0_id or.assoc

lemma parse_encode: "Parse32WithLimit (Encode32 v @ rest) = Some (v, rest)"
proof -
  consider "unat v < 2 ^ 7" | "\<not> unat v < 2 ^ 7" "unat v < 2 ^ 14" | "\<not> unat v < 2 ^ 14" "unat v < 2 ^ 21"
    | "\<not> unat v < 2 ^ 21" "unat v < 2 ^ 28" | "\<not> unat v < 2 ^ 28" by blast
  then show ?thesis
  proof cases
    case 1
    then show ?thesis unfolding Encode32_def encode_limits using last_flag [of 0 v v] join_groups(1) [of v]
      by (simp add: Parse32WithLimit_def Let_def groups)
  next
    case 2
    then show ?thesis unfolding Encode32_def encode_limits using last_flag [of 7 v, OF refl] join_groups(2) [of v]
      by (simp add: Parse32WithLimit_def Let_def groups)
  next
    case 3
    then show ?thesis unfolding Encode32_def encode_limits using last_flag [of 14 v, OF refl] join_groups(3) [of v]
      by (simp add: Parse32WithLimit_def Let_def groups)
  next
    case 4
    then show ?thesis unfolding Encode32_def encode_limits using last_flag [of 21 v, OF refl] join_groups(4) [of v]
      by (simp add: Parse32WithLimit_def Let_def groups)
  next
    case 5
    then show ?thesis unfolding Encode32_def encode_limits using last_small [of v, OF refl] join_groups(5) [of v]
      by (simp add: Parse32WithLimit_def Let_def groups)
  qed
qed

lemma Encode32_length: "1 \<le> length (Encode32 v) \<and> length (Encode32 v) \<le> 5"
  by (simp add: Encode32_def)

text \<open>
  C31: Appending the encoding of any 32-bit value to a string adds one to five bytes, and
  Parse32WithLimit on them reads the value back and stops right behind, whatever follows.
\<close>

theorem varint_roundtrip:
  "Parse32WithLimit (drop (length s) (Append32 s v) @ rest) = Some (v, rest) \<and>
   take (length s) (Append32 s v) = s \<and> length s < length (Append32 s v) \<and> length (Append32 s v) \<le> length s + 5"
  using parse_encode [of v rest] Encode32_length [of v] by (auto simp: Append32_def)

end
