(* ===== verification/SnappyCompress.thy ===== *)
theory SnappyCompress
  imports SnappyEmit SnappyMatch SnappySinkSource SnappyVarint
begin

text \<open>
  The compressor: hashing, the working memory (\<open>snappy-internal.h\<close>), \<open>CompressFragment\<close>,
  \<open>Compress\<close> over any source and sink, and the flat-array and string routines.
\<close>

unbundle bit_operations_syntax

abbreviation (input) kBlockSize :: nat where "kBlockSize \<equiv> 65536"
abbreviation (input) kMaxHashTableSize :: nat where "kMaxHashTableSize \<equiv> 16384"
abbreviation (input) kInputMarginBytes :: nat where "kInputMarginBytes \<equiv> 15"

section \<open>Hashing\<close>

definition HashBytes :: "32 word \<Rightarrow> nat \<Rightarrow> 32 word" where
  "HashBytes bytes shift = drop_bit shift (bytes * 0x1e35a7bd)"

definition Hash :: "bytes \<Rightarrow> nat \<Rightarrow> nat \<Rightarrow> 32 word option" where
  "Hash inp p shift = map_option (\<lambda>bytes. HashBytes bytes shift) (UNALIGNED_LOAD32 inp p)"

type_synonym hash_table = "16 word list"

definition table_read :: "hash_table \<Rightarrow> 32 word \<Rightarrow> nat option" where
  "table_read table hash = (if unat hash < length table then Some (unat (table ! unat hash)) else None)"

definition table_write :: "hash_table \<Rightarrow> 32 word \<Rightarrow> nat \<Rightarrow> hash_table option" where
  "table_write table hash v = (if unat hash < length table then Some (table[unat hash := of_nat v]) else None)"

section \<open>Working memory\<close>

record WorkingMemory =
  small_table :: hash_table
  large_table :: "hash_table option"

text \<open>The constructor leaves \<open>small_table_\<close> uninitialised: its contents are an argument.\<close>

definition WorkingMemory_init :: "hash_table \<Rightarrow> WorkingMemory" where
  "WorkingMemory_init junk = \<lparr>small_table = junk, large_table = None\<rparr>"

function hash_table_size :: "nat \<Rightarrow> nat \<Rightarrow> nat" where
  "hash_table_size input_size htsize =
     (if 0 < htsize \<and> htsize < kMaxHashTableSize \<and> htsize < input_size
      then hash_table_size input_size (2 * htsize) else htsize)"
  by pat_completeness auto
termination
  by (relation "measure (\<lambda>(input_size, htsize). kMaxHashTableSize - htsize)") auto

declare hash_table_size.simps [simp del]

text \<open>
  The result tells whether the large table is used and gives its contents after \<open>memset\<close>; the
  contents of a new large table are an argument.
\<close>

definition GetHashTable ::
  "hash_table \<Rightarrow> nat \<Rightarrow> WorkingMemory \<Rightarrow> bool \<times> hash_table \<times> nat \<times> WorkingMemory" where
  "GetHashTable junk input_size wmem =
     (let htsize = hash_table_size input_size 256;
          large = \<not> htsize \<le> length (small_table wmem);
          wmem = (if large \<and> large_table wmem = None then wmem\<lparr>large_table := Some junk\<rparr> else wmem);
          table = (if large then the (large_table wmem) else small_table wmem)
      in (large, replicate htsize 0 @ drop htsize table, htsize, wmem))"

definition store_table :: "bool \<Rightarrow> hash_table \<Rightarrow> WorkingMemory \<Rightarrow> WorkingMemory" where
  "store_table large table wmem =
     (if large then wmem\<lparr>large_table := Some table\<rparr> else wmem\<lparr>small_table := table\<rparr>)"

section \<open>One block\<close>

text \<open>
  Positions in the input \<open>inp\<close> and the output \<open>m\<close> stand for the pointers. The scan of step 1
  ends with a match, the pair of \<open>ip\<close> and \<open>candidate\<close>, or near the end of the input.
\<close>

partial_function (option) scan ::
  "bytes \<Rightarrow> nat \<Rightarrow> nat \<Rightarrow> hash_table \<Rightarrow> nat \<Rightarrow> 32 word \<Rightarrow> 32 word \<Rightarrow> (hash_table \<times> (nat \<times> nat) option) option" where
  "scan inp shift ip_limit table next_ip next_hash skip =
     do {
       let ip = next_ip;
       let hash = next_hash;
       h \<leftarrow> Hash inp ip shift;
       assert_that (hash = h);
       let bytes_between_hash_lookups = drop_bit 5 skip;
       let skip = skip + 1;
       let next_ip = ip + unat bytes_between_hash_lookups;
       if ip_limit < next_ip then Some (table, None)
       else do {
         next_hash \<leftarrow> Hash inp next_ip shift;
         candidate \<leftarrow> table_read table hash;
         assert_that (candidate < ip);
         table \<leftarrow> table_write table hash ip;
         a \<leftarrow> UNALIGNED_LOAD32 inp ip;
         b \<leftarrow> UNALIGNED_LOAD32 inp candidate;
         if a \<noteq> b then scan inp shift ip_limit table next_ip next_hash skip
         else Some (table, Some (ip, candidate))
       }
     }"

text \<open>
  The loop of step 3. It ends with the output and \<open>ip\<close>, and with the hash of the next
  position unless the input is nearly exhausted.
\<close>

partial_function (option) emit_copies ::
  "bytes \<Rightarrow> nat \<Rightarrow> nat \<Rightarrow> bytes \<Rightarrow> nat \<Rightarrow> hash_table \<Rightarrow> nat \<Rightarrow> nat \<Rightarrow>
    (bytes \<times> nat \<times> hash_table \<times> nat \<times> 32 word option) option" where
  "emit_copies inp shift ip_limit m op table ip candidate =
     do {
       let base = ip;
       n \<leftarrow> FindMatchLength inp (candidate + 4) (ip + 4) (length inp);
       let matched = 4 + n;
       let ip = ip + matched;
       let offset = base - candidate;
       xs \<leftarrow> mem_read inp base matched;
       ys \<leftarrow> mem_read inp candidate matched;
       assert_that (xs = ys);
       (m, op) \<leftarrow> EmitCopy m op offset matched;
       let insert_tail = ip - 1;
       if ip_limit \<le> ip then Some (m, op, table, ip, None)
       else do {
         input_bytes \<leftarrow> UNALIGNED_LOAD64 inp insert_tail;
         let prev_hash = HashBytes (GetUint32AtOffset input_bytes 0) shift;
         table \<leftarrow> table_write table prev_hash (ip - 1);
         let cur_hash = HashBytes (GetUint32AtOffset input_bytes 1) shift;
         candidate \<leftarrow> table_read table cur_hash;
         candidate_bytes \<leftarrow> UNALIGNED_LOAD32 inp candidate;
         table \<leftarrow> table_write table cur_hash ip;
         if GetUint32AtOffset input_bytes 1 = candidate_bytes
         then emit_copies inp shift ip_limit m op table ip candidate
         else Some (m, op, table, ip, Some (HashBytes (GetUint32AtOffset input_bytes 2) shift))
       }
     }"

text \<open>The outer loop; its result ends with \<open>next_emit\<close>.\<close>

partial_function (option) fragment_loop ::
  "bytes \<Rightarrow> nat \<Rightarrow> nat \<Rightarrow> bytes \<Rightarrow> nat \<Rightarrow> hash_table \<Rightarrow> nat \<Rightarrow> nat \<Rightarrow> 32 word \<Rightarrow>
    (bytes \<times> nat \<times> hash_table \<times> nat) option" where
  "fragment_loop inp shift ip_limit m op table next_emit ip next_hash =
     do {
       assert_that (next_emit < ip);
       (table, found) \<leftarrow> scan inp shift ip_limit table ip next_hash 32;
       (case found of
          None \<Rightarrow> Some (m, op, table, next_emit)
        | Some (ip, candidate) \<Rightarrow>
            do {
              assert_that (next_emit + 16 \<le> length inp);
              (m, op) \<leftarrow> EmitLiteral m op inp next_emit (ip - next_emit) True;
              (m, op, table, ip, again) \<leftarrow> emit_copies inp shift ip_limit m op table ip candidate;
              (case again of
                 None \<Rightarrow> Some (m, op, table, ip)
               | Some next_hash \<Rightarrow> fragment_loop inp shift ip_limit m op table ip (ip + 1) next_hash)
            })
     }"

definition CompressFragment ::
  "bytes \<Rightarrow> bytes \<Rightarrow> hash_table \<Rightarrow> nat \<Rightarrow> (bytes \<times> nat \<times> hash_table) option" where
  "CompressFragment inp m table table_size =
     do {
       assert_that (length inp \<le> kBlockSize);
       assert_that (table_size AND (table_size - 1) = 0);
       let shift = nat (32 - Log2Floor (of_nat table_size));
       assert_that (unat (drop_bit shift (-1 :: 32 word)) = table_size - 1);
       (m, op, table, next_emit) \<leftarrow>
         (if kInputMarginBytes \<le> length inp
          then do {
            next_hash \<leftarrow> Hash inp 1 shift;
            fragment_loop inp shift (length inp - kInputMarginBytes) m 0 table 0 1 next_hash
          }
          else Some (m, 0, table, 0));
       (m, op) \<leftarrow>
         (if next_emit < length inp then EmitLiteral m op inp next_emit (length inp - next_emit) False
          else Some (m, op));
       Some (m, op, table)
     }"

section \<open>Whole inputs\<close>

text \<open>The loop that gathers a block in \<open>scratch\<close>\<close>

partial_function (option) gather ::
  "'s source_ops \<Rightarrow> nat \<Rightarrow> 's \<Rightarrow> bytes \<Rightarrow> nat \<Rightarrow> ('s \<times> bytes \<times> nat) option" where
  "gather src num_to_read reader scratch bytes_read =
     (if bytes_read < num_to_read
      then
        (case Peek src reader of (fragment, reader) \<Rightarrow>
          (let n = min (length fragment) (num_to_read - bytes_read) in
           do {
             scratch \<leftarrow> mem_write scratch bytes_read (take n fragment);
             gather src num_to_read (Skip src n reader) scratch (bytes_read + n)
           }))
      else Some (reader, scratch, bytes_read))"

text \<open>
  The next block: the fragment, the reader, what is still to be skipped and \<open>scratch\<close>. The
  argument \<open>fresh n\<close> is what the memory of \<open>new char[n]\<close> holds.
\<close>

definition next_block ::
  "(nat \<Rightarrow> bytes) \<Rightarrow> 's source_ops \<Rightarrow> nat \<Rightarrow> 's \<Rightarrow> bytes option \<Rightarrow>
    (bytes \<times> 's \<times> nat \<times> bytes option) option" where
  "next_block fresh src num_to_read reader scratch =
     (case Peek src reader of (fragment, reader) \<Rightarrow>
       do {
         assert_that (fragment \<noteq> []);
         let bytes_read = length fragment;
         if num_to_read \<le> bytes_read then Some (take num_to_read fragment, reader, num_to_read, scratch)
         else do {
           let buf = (case scratch of None \<Rightarrow> fresh num_to_read | Some s \<Rightarrow> s);
           buf \<leftarrow> mem_write buf 0 fragment;
           (reader, buf, bytes_read) \<leftarrow> gather src num_to_read (Skip src bytes_read reader) buf bytes_read;
           assert_that (bytes_read = num_to_read);
           Some (take num_to_read buf, reader, 0, Some buf)
         }
       })"

text \<open>The arguments \<open>large_junk\<close> and \<open>fresh\<close> are the contents of newly allocated memory.\<close>

partial_function (option) compress_loop ::
  "(nat \<Rightarrow> bytes) \<Rightarrow> hash_table \<Rightarrow> 's source_ops \<Rightarrow> 'k sink_ops \<Rightarrow> nat \<Rightarrow> nat \<Rightarrow> WorkingMemory \<Rightarrow>
    bytes option \<Rightarrow> bytes option \<Rightarrow> 's \<Rightarrow> 'k \<Rightarrow> (nat \<times> 's \<times> 'k) option" where
  "compress_loop fresh large_junk src snk N written wmem scratch scratch_output reader writer =
     (if N > 0
      then do {
        let num_to_read = min N kBlockSize;
        (fragment, reader, pending_advance, scratch) \<leftarrow> next_block fresh src num_to_read reader scratch;
        assert_that (length fragment = num_to_read);
        let (large, table, table_size, wmem) = GetHashTable large_junk num_to_read wmem;
        let max_output = MaxCompressedLength num_to_read;
        let output = (case scratch_output of None \<Rightarrow> fresh max_output | Some b \<Rightarrow> b);
        let dest = GetAppendBuffer snk max_output output writer;
        (dest', n, table) \<leftarrow> CompressFragment fragment (memory_of dest) table table_size;
        writer \<leftarrow> Append snk (update_memory dest dest') n writer;
        compress_loop fresh large_junk src snk (N - num_to_read) (written + n) (store_table large table wmem)
          scratch (Some (case dest of OtherMemory _ \<Rightarrow> dest' | OwnMemory _ \<Rightarrow> output))
          (Skip src pending_advance reader) writer
      }
      else Some (written, reader, writer))"

definition Compress ::
  "(nat \<Rightarrow> bytes) \<Rightarrow> hash_table \<Rightarrow> hash_table \<Rightarrow> 's source_ops \<Rightarrow> 'k sink_ops \<Rightarrow> 's \<Rightarrow> 'k \<Rightarrow>
    (nat \<times> 's \<times> 'k) option" where
  "Compress fresh small_junk large_junk src snk reader writer =
     do {
       let N = Available src reader;
       let ulength = Encode32 (of_nat N);
       writer \<leftarrow> Append snk (OtherMemory ulength) (length ulength) writer;
       compress_loop fresh large_junk src snk N (length ulength) (WorkingMemory_init small_junk) None None
         reader writer
     }"

text \<open>
  \<open>RawCompress\<close> returns the output array and \<open>*compressed_length\<close>.
\<close>

definition RawCompress ::
  "(nat \<Rightarrow> bytes) \<Rightarrow> hash_table \<Rightarrow> hash_table \<Rightarrow> bytes \<Rightarrow> bytes \<Rightarrow> (bytes \<times> nat) option" where
  "RawCompress fresh small_junk large_junk input compressed =
     do {
       (_, _, writer) \<leftarrow> Compress fresh small_junk large_junk byte_array_source byte_array_sink
         (ByteArraySource_init input) (UncheckedByteArraySink_init compressed);
       Some (snk_array writer, CurrentDestination writer)
     }"

end
