(* ===== verification/SnappyFragment.thy ===== *)
theory SnappyFragment
  imports SnappyCompress
begin

text \<open>
  \<open>CompressFragment\<close>: no access outside a buffer, no failed assertion, termination, the size
  of its output, and that the output decodes to the input after any history.
\<close>

section \<open>The hash table\<close>

text \<open>\<open>tab k t ip\<close>: the first \<open>2 ^ k\<close> entries are positions before \<open>ip\<close>.\<close>

definition tab :: "nat \<Rightarrow> hash_table \<Rightarrow> nat \<Rightarrow> bool" where
  "tab k t ip \<longleftrightarrow> 2 ^ k \<le> length t \<and> (\<forall>i<2 ^ k. unat (t ! i) < ip)"

lemma tab_mono: "tab k t ip \<Longrightarrow> ip \<le> ip' \<Longrightarrow> tab k t ip'"
  by (fastforce simp: tab_def)

lemma HashBytes_bound:
  assumes "k \<le> 32"
  shows "unat (HashBytes b (32 - k)) < 2 ^ k"
proof -
  let ?x = "b * 0x1e35a7bd"
  have "unat ?x < 2 ^ 32" using unsigned_less [of ?x] by simp
  also have "(2::nat) ^ 32 = 2 ^ k * 2 ^ (32 - k)" using assms by (simp flip: power_add)
  finally have "unat ?x div 2 ^ (32 - k) < 2 ^ k" by (rule less_mult_imp_div_less)
  then show ?thesis unfolding HashBytes_def unat_drop_bit_eq by (simp only: drop_bit_eq_div)
qed

lemma table_read_ok:
  assumes "tab k t ip" "k \<le> 32"
  obtains c where "table_read t (HashBytes b (32 - k)) = Some c" "c < ip"
proof
  let ?h = "unat (HashBytes b (32 - k))"
  have "?h < 2 ^ k" using HashBytes_bound [OF assms(2)] .
  with assms(1) show "table_read t (HashBytes b (32 - k)) = Some (unat (t ! ?h))" "unat (t ! ?h) < ip"
    by (simp_all add: table_read_def tab_def)
qed

lemma table_write_ok:
  assumes "tab k t ip" "k \<le> 32" "v < ip'" "ip \<le> ip'" "v < 65536"
  obtains t' where "table_write t (HashBytes b (32 - k)) v = Some t'" "tab k t' ip'" "length t' = length t"
proof
  let ?h = "unat (HashBytes b (32 - k))"
  let ?t = "t[?h := of_nat v]"
  have h: "?h < 2 ^ k" using HashBytes_bound [OF assms(2)] .
  with assms(1) show "table_write t (HashBytes b (32 - k)) v = Some ?t" by (simp add: table_write_def tab_def)
  have "unat (of_nat v :: 16 word) = v" using assms(5) by (simp add: unat_of_nat)
  with assms(1,3,4) h show "tab k ?t ip'" by (fastforce simp: tab_def nth_list_update)
  show "length ?t = length t" by simp
qed

lemma Hash_Some: "p + 4 \<le> length inp \<Longrightarrow> \<exists>b. UNALIGNED_LOAD32 inp p = Some b \<and> Hash inp p shift = Some (HashBytes b shift)"
  by (simp add: Hash_def LOAD32_Some)

lemma equal_loads:
  assumes "UNALIGNED_LOAD32 inp p = UNALIGNED_LOAD32 inp q" "p + 4 \<le> length inp" "q + 4 \<le> length inp"
  shows "agree inp p q 4"
proof -
  have "take 4 (drop p inp) = take 4 (drop q inp)" using assms LOAD32_eq by blast
  with assms(2,3) agree_extend [of inp p q 0 4] show ?thesis by (simp add: agree_def)
qed

section \<open>Step 1\<close>

lemma scan_ok:
  assumes "k \<le> 32" "lim + 15 \<le> length inp" "length inp \<le> 65536"
    and "tab k t ip" "1 \<le> ip" "ip \<le> lim + 1" "Hash inp ip (32 - k) = Some nh"
    and "32 \<le> unat skip" "unat skip \<le> 32 + ip"
  shows "\<exists>t' r. scan inp (32 - k) lim t ip nh skip = Some (t', r) \<and> length t' = length t \<and>
     (\<forall>ip' c. r = Some (ip', c) \<longrightarrow> ip \<le> ip' \<and> ip' < lim \<and> c < ip' \<and> tab k t' (ip' + 1) \<and> agree inp c ip' 4)"
  using assms
proof (induction "lim + 1 - ip" arbitrary: t ip nh skip rule: less_induct)
  case less
  note k = less.prems(1) and inp = less.prems(2,3) and tab = less.prems(4) and ip = less.prems(5,6)
    and nh = less.prems(7) and skip = less.prems(8,9)
  let ?step = "unat (drop_bit 5 skip)"
  have step: "1 \<le> ?step"
  proof -
    have "?step = unat skip div 2 ^ 5" unfolding unat_drop_bit_eq by (simp only: drop_bit_eq_div)
    with skip(1) show ?thesis by (simp add: Suc_le_eq div_greater_zero_iff)
  qed
  show ?case
  proof (cases "lim < ip + ?step")
    case True
    then have "scan inp (32 - k) lim t ip nh skip = Some (t, None)"
      using nh by (subst scan.simps) (simp add: Let_def)
    then show ?thesis by simp
  next
    case False
    have b: "ip + 4 \<le> length inp" "ip + ?step + 4 \<le> length inp" using False inp step by linarith+
    obtain x where x: "UNALIGNED_LOAD32 inp ip = Some x" "nh = HashBytes x (32 - k)"
      using Hash_Some [OF b(1), of "32 - k"] nh by auto
    obtain nh' where nh': "Hash inp (ip + ?step) (32 - k) = Some nh'" using Hash_Some [OF b(2)] by blast
    obtain c where c: "table_read t nh = Some c" "c < ip" using table_read_ok [OF tab k] x(2) by metis
    have "ip < ip + 1" "ip \<le> ip + 1" "ip < 65536" using b(1) inp(2) by simp_all
    from table_write_ok [OF tab k this] x(2) obtain t' where
      t': "table_write t nh ip = Some t'" "tab k t' (ip + 1)" "length t' = length t" by metis
    have bc: "c + 4 \<le> length inp" using c(2) b(1) by simp
    obtain y where y: "UNALIGNED_LOAD32 inp c = Some y" using Hash_Some [OF bc] by blast
    show ?thesis
    proof (cases "x = y")
      case True
      then have "scan inp (32 - k) lim t ip nh skip = Some (t', Some (ip, c))"
        using nh nh' c t'(1) x(1) y False by (subst scan.simps) (simp add: Let_def)
      moreover have "agree inp c ip 4" using equal_loads [OF _ bc b(1)] x(1) y True by simp
      moreover have "ip < lim" using False step by linarith
      ultimately show ?thesis using t'(2,3) c(2) by simp
    next
      case ne: False
      have run: "scan inp (32 - k) lim t ip nh skip = scan inp (32 - k) lim t' (ip + ?step) nh' (skip + 1)"
        using nh nh' c t'(1) x(1) y False ne by (subst scan.simps) (simp add: Let_def)
      have lt: "lim + 1 - (ip + ?step) < lim + 1 - ip" using step False by linarith
      have "unat skip + 1 < 2 ^ 32" using skip(2) b(1) inp(2) by simp
      then have "unat (skip + 1) = unat skip + 1" by (simp add: unat_word_ariths)
      then have sk: "32 \<le> unat (skip + 1)" "unat (skip + 1) \<le> 32 + (ip + ?step)" using skip step by simp_all
      have "tab k t' (ip + ?step)" using tab_mono [OF t'(2)] step by simp
      from less.hyps [OF lt k inp this _ _ nh' sk] ip False obtain t'' r where
        r: "scan inp (32 - k) lim t' (ip + ?step) nh' (skip + 1) = Some (t'', r)" "length t'' = length t'"
          "\<And>ip' c. r = Some (ip', c) \<Longrightarrow>
             ip + ?step \<le> ip' \<and> ip' < lim \<and> c < ip' \<and> tab k t'' (ip' + 1) \<and> agree inp c ip' 4"
        by auto
      with run t'(3) show ?thesis by fastforce
    qed
  qed
qed

section \<open>Output\<close>

text \<open>The output so far decodes to the first \<open>ip\<close> bytes of the input, whatever came before.\<close>

definition covers :: "bytes \<Rightarrow> bytes \<Rightarrow> nat \<Rightarrow> nat \<Rightarrow> bool" where
  "covers inp m op ip \<longleftrightarrow>
     op \<le> length m \<and> (\<forall>wr prev. wr_ok wr \<longrightarrow> decode wr (take op m) prev = Some (prev @ take ip inp))"

lemma covers_start: "covers inp m 0 0"
  by (simp add: covers_def)

lemma covers_extend:
  assumes "covers inp m op ip" "appended m op bs m'"
    and "\<And>wr prev. wr_ok wr \<Longrightarrow> decode wr bs (prev @ take ip inp) = Some (prev @ take ip' inp)"
  shows "covers inp m' (op + length bs) ip'"
  using assms decode_append [of _ "take op m" _ _ bs] by (auto simp: covers_def appended_def)

lemma covers_literal:
  assumes "covers inp m op p" "1 \<le> n" "n \<le> 65536" "p + n \<le> length inp"
    and "appended m op (literal_code (take n (drop p inp))) m'"
  shows "covers inp m' (op + length (literal_code (take n (drop p inp)))) (p + n)"
proof (rule covers_extend [OF assms(1,5)])
  fix wr and prev :: bytes
  assume wr: "wr_ok wr"
  let ?bs = "take n (drop p inp)"
  have "length ?bs = n" using assms(4) by simp
  then have "?bs \<noteq> []" "length ?bs < 2 ^ 32" using assms(2,3) by auto
  from decode_one [OF parse_literal_code [OF this wr], of "prev @ take p inp" _ "[]"]
  show "decode wr (literal_code ?bs) (prev @ take p inp) = Some (prev @ take (p + n) inp)"
    by (simp add: take_add)
qed

lemma covers_copy:
  assumes "covers inp m op base" "c < base" "agree inp c base n" "base + n \<le> length inp" "4 \<le> n" "length inp \<le> 65536"
    and "appended m op (copies_code (base - c) n) m'"
  shows "covers inp m' (op + length (copies_code (base - c) n)) (base + n)"
proof (rule covers_extend [OF assms(1,7)])
  fix wr and prev :: bytes
  have "decode wr (copies_code (base - c) n) (prev @ take base inp) = Some (copy_from (base - c) n (prev @ take base inp))"
    using assms by (intro decode_copies_code) simp_all
  moreover have "copy_from (length prev + base - (length prev + c)) n (take (length prev + base) (prev @ inp)) =
      take (length prev + base + n) (prev @ inp)"
    using assms by (intro copy_from_match) (auto simp: agree_def nth_append add.assoc)
  ultimately show "decode wr (copies_code (base - c) n) (prev @ take base inp) = Some (prev @ take (base + n) inp)"
    by simp
qed

text \<open>The room of a block: no write goes beyond it.\<close>

definition room_for :: "nat \<Rightarrow> nat \<Rightarrow> bool" where
  "room_for block n \<longleftrightarrow> 66 * block + 1300 \<le> 65 * n"

lemma literal_code_size:
  assumes "1 \<le> length bs" "length bs \<le> 65536"
  shows "length (literal_code bs) \<le> length bs + 3"
    and "65 * length (literal_code bs) \<le> 66 * length bs + 69"
proof -
  let ?n = "length bs" and ?d = "length (digits (length bs - 1))"
  have ne: "bs \<noteq> []" using assms(1) by auto
  have len: "length (literal_code bs) = ?n + 1 + (if ?n \<le> 60 then 0 else ?d)"
    using literal_code_length [OF ne assms(2)] .
  have d2: "?d \<le> 2" using digits_length [of "?n - 1" 2] assms by simp
  then show "length (literal_code bs) \<le> ?n + 3" using len by simp
  have d1: "?d \<le> 1" if "?n \<le> 256" using digits_length [of "?n - 1" 1] that assms by simp
  consider "?n \<le> 60" | "60 < ?n" "?n \<le> 256" | "256 < ?n" by linarith
  then show "65 * length (literal_code bs) \<le> 66 * ?n + 69"
    using len d1 d2 by cases simp_all
qed

lemma EmitLiteral_covers:
  assumes cov: "covers inp m op p" and bnd: "65 * op \<le> 66 * p" and n: "1 \<le> n" "p + n \<le> length inp"
    and inp: "length inp \<le> 65536" and room: "room_for (length inp) (length m)"
    and fast: "fast \<Longrightarrow> p + 16 \<le> length inp"
  shows "\<exists>m' op'. EmitLiteral m op inp p n fast = Some (m', op') \<and> length m' = length m \<and>
     covers inp m' op' (p + n) \<and> 65 * op' \<le> 66 * (p + n) + 69 \<and> op' \<le> op + n + 3"
proof -
  let ?bs = "take n (drop p inp)"
  let ?op = "op + length (literal_code ?bs)"
  have bs: "length ?bs = n" "1 \<le> length ?bs" "length ?bs \<le> 65536" using n inp by simp_all
  note size = literal_code_size [OF bs(2,3), unfolded bs(1)]
  have fits: "op + length (literal_code ?bs) \<le> length m" "op + 17 \<le> length m"
    using size(1) bnd n room by (simp_all add: room_for_def)
  have n': "n \<le> 65536" using n inp by simp
  have "fast \<Longrightarrow> n \<le> 16 \<Longrightarrow> p + 16 \<le> length inp \<and> op + 17 \<le> length m" using fast fits(2) by simp
  from EmitLiteral_ok [OF n(1) n' n(2) fits(1) this] obtain m' where
    m': "EmitLiteral m op inp p n fast = Some (m', ?op)" "appended m op (literal_code ?bs) m'" by blast
  have "covers inp m' ?op (p + n)" using covers_literal [OF cov n(1) n' n(2) m'(2)] .
  moreover have "65 * ?op \<le> 66 * (p + n) + 69" "?op \<le> op + n + 3" using size bnd by simp_all
  moreover have "length m' = length m" using m'(2) by (simp add: appended_def)
  ultimately show ?thesis using m'(1) by blast
qed

section \<open>Step 3\<close>

lemma copy_fits: "65 * (op + l) \<le> 66 * (b + n) \<Longrightarrow> b + n \<le> s \<Longrightarrow> room_for s k \<Longrightarrow> op + l \<le> k"
  by (simp add: room_for_def distrib_left)

lemma EmitCopy_covers:
  assumes cov: "covers inp m op base" and bnd: "65 * op \<le> 66 * base + 69" and c: "c < base"
    and ag: "agree inp c base n" and n: "4 \<le> n" "base + n \<le> length inp"
    and inp: "length inp \<le> 65536" and room: "room_for (length inp) (length m)"
  shows "\<exists>m' op'. EmitCopy m op (base - c) n = Some (m', op') \<and> length m' = length m \<and>
     covers inp m' op' (base + n) \<and> 65 * op' \<le> 66 * (base + n)"
proof -
  let ?op = "op + length (copies_code (base - c) n)"
  have len: "length (copies_code (base - c) n) < n" using copies_code_length [OF n(1)] .
  have off: "base - c < 65536" using n inp by simp
  have size: "65 * ?op \<le> 66 * (base + n)" 
  proof -
    have "length (copies_code (base - c) n) + 1 \<le> n" using len by simp
    then have "65 * length (copies_code (base - c) n) + 65 \<le> 65 * n" by simp
    with bnd n(1) show ?thesis by simp
  qed
  moreover have "?op \<le> length m" using copy_fits [OF size n(2) room] .
  ultimately obtain m' where m': "EmitCopy m op (base - c) n = Some (m', ?op)" "appended m op (copies_code (base - c) n) m'"
    using EmitCopy_ok [OF n(1) off] by blast
  have "covers inp m' ?op (base + n)" using covers_copy [OF cov c ag n(2,1) inp m'(2)] .
  moreover have "length m' = length m" using m'(2) by (simp add: appended_def)
  ultimately show ?thesis using m'(1) size by blast
qed

lemma emit_copies_ok:
  assumes "k \<le> 32" "lim + 15 = length inp" "length inp \<le> 65536" "room_for (length inp) (length m)"
    and "tab k t (ip + 1)" "c < ip" "ip < lim" "agree inp c ip 4"
    and "covers inp m op ip" "65 * op \<le> 66 * ip + 69"
  shows "\<exists>m' op' t' ip' h. emit_copies inp (32 - k) lim m op t ip c = Some (m', op', t', ip', h) \<and>
     length m' = length m \<and> length t' = length t \<and> ip < ip' \<and> ip' \<le> length inp \<and>
     covers inp m' op' ip' \<and> 65 * op' \<le> 66 * ip' \<and>
     (\<forall>h'. h = Some h' \<longrightarrow> ip' < lim \<and> tab k t' (ip' + 1) \<and> Hash inp (ip' + 1) (32 - k) = Some h')"
  using assms
proof (induction "lim - ip" arbitrary: m op t ip c rule: less_induct)
  case less
  note k = less.prems(1) and inp = less.prems(2,3) and room = less.prems(4) and tab = less.prems(5)
    and c = less.prems(6) and ip = less.prems(7) and ag = less.prems(8) and cov = less.prems(9,10)
  have "c + 4 \<le> ip + 4" "ip + 4 \<le> length inp" "length inp \<le> length inp" using c ip inp by simp_all
  from FindMatchLength_ok [OF this] obtain n where
    n: "FindMatchLength inp (c + 4) (ip + 4) (length inp) = Some n" "longest_match inp (c + 4) (ip + 4) (length inp) n"
    by blast
  let ?n = "4 + n" and ?ip = "ip + (4 + n)"
  have ipn: "?ip \<le> length inp" using n(2) by (simp add: longest_match_def)
  have ag': "agree inp c ip ?n"
    unfolding agree_def
  proof (intro allI impI)
    fix i
    assume i: "i < ?n"
    show "inp ! (c + i) = inp ! (ip + i)"
    proof (cases "i < 4")
      case True
      with ag show ?thesis by (simp add: agree_def)
    next
      case False
      then obtain j where j: "i = 4 + j" by (metis le_Suc_ex not_less)
      with i n(2) have "inp ! (c + 4 + j) = inp ! (ip + 4 + j)" by (simp add: longest_match_def agree_def)
      with j show ?thesis by (simp add: add.assoc)
    qed
  qed
  have rd: "mem_read inp ip ?n = Some (take ?n (drop ip inp))" "mem_read inp c ?n = Some (take ?n (drop c inp))"
    using ipn c by (simp_all add: mem_simps)
  have same: "take ?n (drop ip inp) = take ?n (drop c inp)"
    using ag' ipn c by (auto simp: list_eq_iff_nth_eq agree_def)
  obtain m1 op1 where e: "EmitCopy m op (ip - c) ?n = Some (m1, op1)" "length m1 = length m" "covers inp m1 op1 ?ip"
    "65 * op1 \<le> 66 * ?ip"
    using EmitCopy_covers [OF cov c ag' _ ipn inp(2) room] by auto
  note step = emit_copies.simps [of inp "32 - k" lim m op t ip c]
  show ?case
  proof (cases "lim \<le> ?ip")
    case True
    then have "emit_copies inp (32 - k) lim m op t ip c = Some (m1, op1, t, ?ip, None)"
      using n(1) rd same e(1) by (simp add: step Let_def)
    with e ipn show ?thesis by simp
  next
    case False
    have ld: "?ip - 1 + 8 \<le> length inp" "?ip + 4 \<le> length inp" "?ip + 1 + 4 \<le> length inp" using False inp by simp_all
    obtain v where v: "UNALIGNED_LOAD64 inp (?ip - 1) = Some v" using LOAD64_Some [OF ld(1)] by blast
    let ?H = "\<lambda>j. HashBytes (GetUint32AtOffset v j) (32 - k)"
    have "?ip - 1 + 1 = ?ip" "?ip - 1 + 2 = ?ip + 1" "1 \<le> (4::nat)" "2 \<le> (4::nat)" by simp_all
    then have w: "UNALIGNED_LOAD32 inp ?ip = Some (GetUint32AtOffset v 1)"
      "UNALIGNED_LOAD32 inp (?ip + 1) = Some (GetUint32AtOffset v 2)"
      using GetUint32AtOffset_load [OF v, of 1] GetUint32AtOffset_load [OF v, of 2] by metis+
    have p: "?ip - 1 < ?ip" "ip + 1 \<le> ?ip" "?ip - 1 < 65536" "?ip < ?ip + 1" "?ip \<le> ?ip + 1" "?ip < 65536"
      using ld(2) inp(2) by simp_all
    obtain t1 where t1: "table_write t (?H 0) (?ip - 1) = Some t1" "tab k t1 ?ip" "length t1 = length t"
      using table_write_ok [OF tab k p(1,2,3)] .
    obtain c1 where c1: "table_read t1 (?H 1) = Some c1" "c1 < ?ip" using table_read_ok [OF t1(2) k] .
    obtain t2 where t2: "table_write t1 (?H 1) ?ip = Some t2" "tab k t2 (?ip + 1)" "length t2 = length t1"
      using table_write_ok [OF t1(2) k p(4,5,6)] .
    have bc: "c1 + 4 \<le> length inp" using c1(2) ld(2) by simp
    obtain cb where cb: "UNALIGNED_LOAD32 inp c1 = Some cb" using LOAD32_Some [OF bc] by blast
    have run: "emit_copies inp (32 - k) lim m op t ip c =
        (if GetUint32AtOffset v 1 = cb then emit_copies inp (32 - k) lim m1 op1 t2 ?ip c1
         else Some (m1, op1, t2, ?ip, Some (?H 2)))"
      using n(1) rd same e(1) False v t1(1) c1(1) t2(1) cb by (simp add: step Let_def)
    show ?thesis
    proof (cases "GetUint32AtOffset v 1 = cb")
      case True
      have ag2: "agree inp c1 ?ip 4" using equal_loads [OF _ bc ld(2)] w(1) cb True by simp
      have nx: "65 * op1 \<le> 66 * ?ip + 69" "lim - ?ip < lim - ip" "?ip < lim" "room_for (length inp) (length m1)"
        using e(2,4) False room by simp_all
      obtain m' op' t' ip' h where
        r: "emit_copies inp (32 - k) lim m1 op1 t2 ?ip c1 = Some (m', op', t', ip', h)"
          "length m' = length m1" "length t' = length t2" "?ip < ip'" "ip' \<le> length inp"
          "covers inp m' op' ip'" "65 * op' \<le> 66 * ip'"
          "\<forall>h'. h = Some h' \<longrightarrow> ip' < lim \<and> tab k t' (ip' + 1) \<and> Hash inp (ip' + 1) (32 - k) = Some h'"
        using less.hyps [OF nx(2) k inp nx(4) t2(2) c1(2) nx(3) ag2 e(3) nx(1)] by blast
      have "ip < ip'" using r(4) by simp
      with r run True e(2) t1(3) t2(3) show ?thesis by auto
    next
      case ne: False
      have "Hash inp (?ip + 1) (32 - k) = Some (?H 2)" using w(2) by (simp add: Hash_def)
      with run ne e t1(3) t2 ipn False show ?thesis by simp
    qed
  qed
qed

section \<open>The block\<close>

lemma fragment_loop_ok:
  assumes "k \<le> 32" "lim + 15 = length inp" "length inp \<le> 65536" "room_for (length inp) (length m)"
    and "tab k t ip" "next_emit < ip" "ip \<le> lim + 1" "Hash inp ip (32 - k) = Some nh"
    and "covers inp m op next_emit" "65 * op \<le> 66 * next_emit"
  shows "\<exists>m' op' t' ne. fragment_loop inp (32 - k) lim m op t next_emit ip nh = Some (m', op', t', ne) \<and>
     length m' = length m \<and> length t' = length t \<and> ne \<le> length inp \<and> covers inp m' op' ne \<and> 65 * op' \<le> 66 * ne"
  using assms
proof (induction "lim + 1 - ip" arbitrary: m op t next_emit ip nh rule: less_induct)
  case less
  note k = less.prems(1) and inp = less.prems(2,3) and room = less.prems(4) and tab = less.prems(5)
    and ne = less.prems(6) and ip = less.prems(7) and nh = less.prems(8) and cov = less.prems(9,10)
  note step = fragment_loop.simps [of inp "32 - k" lim m op t next_emit ip nh]
  have pre: "lim + 15 \<le> length inp" "1 \<le> ip" "32 \<le> unat (32 :: 32 word)" "unat (32 :: 32 word) \<le> 32 + ip"
    using inp ne by simp_all
  obtain t1 found where sc: "scan inp (32 - k) lim t ip nh 32 = Some (t1, found)" "length t1 = length t"
    "\<And>ip' c. found = Some (ip', c) \<Longrightarrow> ip \<le> ip' \<and> ip' < lim \<and> c < ip' \<and> tab k t1 (ip' + 1) \<and> agree inp c ip' 4"
    using scan_ok [OF k pre(1) inp(2) tab pre(2) ip nh pre(3,4)] by blast
  show ?case
  proof (cases found)
    case None
    have "next_emit \<le> length inp" using ne ip inp by simp
    with None sc(1,2) ne cov show ?thesis by (simp add: step)
  next
    case (Some p)
    obtain ip1 c where p: "p = (ip1, c)" by (cases p)
    with sc(3) Some have f: "ip \<le> ip1" "ip1 < lim" "c < ip1" "tab k t1 (ip1 + 1)" "agree inp c ip1 4" by blast+
    have lit: "1 \<le> ip1 - next_emit" "next_emit + (ip1 - next_emit) \<le> length inp" "next_emit + 16 \<le> length inp"
      "next_emit + (ip1 - next_emit) = ip1"
      using f ne inp by simp_all
    obtain m1 op1 where e: "EmitLiteral m op inp next_emit (ip1 - next_emit) True = Some (m1, op1)" "length m1 = length m"
      "covers inp m1 op1 ip1" "65 * op1 \<le> 66 * ip1 + 69"
      using EmitLiteral_covers [OF cov lit(1,2) inp(2) room, of True] lit(3,4) by auto
    have room1: "room_for (length inp) (length m1)" using room e(2) by simp
    obtain m2 op2 t2 ip2 h where r: "emit_copies inp (32 - k) lim m1 op1 t1 ip1 c = Some (m2, op2, t2, ip2, h)"
      "length m2 = length m1" "length t2 = length t1" "ip1 < ip2" "ip2 \<le> length inp" "covers inp m2 op2 ip2"
      "65 * op2 \<le> 66 * ip2"
      "\<forall>h'. h = Some h' \<longrightarrow> ip2 < lim \<and> tab k t2 (ip2 + 1) \<and> Hash inp (ip2 + 1) (32 - k) = Some h'"
      using emit_copies_ok [OF k inp room1 f(4,3,2,5) e(3,4)] by blast
    show ?thesis
    proof (cases h)
      case None
      with Some p sc(1,2) ne lit(3) e(1,2) r show ?thesis by (simp add: step)
    next
      case h': (Some h')
      have nx: "ip2 < lim" "tab k t2 (ip2 + 1)" "Hash inp (ip2 + 1) (32 - k) = Some h'" using r(8) h' by blast+
      have run: "fragment_loop inp (32 - k) lim m op t next_emit ip nh =
          fragment_loop inp (32 - k) lim m2 op2 t2 ip2 (ip2 + 1) h'"
        using Some p sc(1) ne lit(3) e(1) r(1) h' by (simp add: step)
      have b: "lim + 1 - (ip2 + 1) < lim + 1 - ip" "ip2 < ip2 + 1" "ip2 + 1 \<le> lim + 1" "room_for (length inp) (length m2)"
        using nx(1) f(1) r(2,4) room1 by simp_all
      from less.hyps [OF b(1) k inp b(4) nx(2) b(2,3) nx(3) r(6,7)] show ?thesis
        unfolding run r(2,3) e(2) sc(2) .
    qed
  qed
qed

lemma power_of_two_and: "(2::nat) ^ k AND (2 ^ k - 1) = 0"
  using take_bit_eq_mask [of k "2 ^ k :: nat"] by (simp add: mask_eq_exp_minus_1 take_bit_eq_mod)

lemma shift_assertion: "k \<le> 32 \<Longrightarrow> unat (drop_bit (32 - k) (-1 :: 32 word)) = 2 ^ k - 1"
proof -
  assume k: "k \<le> 32"
  have "unat (-1 :: 32 word) = 2 ^ 32 - 1" by (simp add: unsigned_minus_1_eq_mask mask_eq_exp_minus_1)
  moreover have "((2::nat) ^ 32 - 1) div 2 ^ (32 - k) = 2 ^ k - 1"
  proof -
    have "drop_bit (32 - k) (mask 32 :: nat) = mask k"
      using k by (intro bit_eqI) (auto simp: bit_drop_bit_eq bit_mask_iff)
    then show ?thesis by (simp add: mask_eq_exp_minus_1 drop_bit_eq_div)
  qed
  ultimately show ?thesis unfolding unat_drop_bit_eq by (simp only: drop_bit_eq_div)
qed

lemma CompressFragment_ok:
  assumes inp: "length inp \<le> 65536" and room: "room_for (length inp) (length m)"
    and k: "k \<le> 14" "2 ^ k \<le> length t" "\<forall>i<2 ^ k. t ! i = 0"
  shows "\<exists>m' op t'. CompressFragment inp m t (2 ^ k) = Some (m', op, t') \<and> length m' = length m \<and>
     length t' = length t \<and> op \<le> length m \<and> 65 * op \<le> 66 * length inp + 195 \<and>
     (\<forall>wr prev. wr_ok wr \<longrightarrow> decode wr (take op m') prev = Some (prev @ inp))"
proof -
  have k32: "k \<le> 32" using k(1) by simp
  have pk: "(2::nat) ^ k \<le> 2 ^ 14" using k(1) by (intro power_increasing) simp_all
  then have u: "unat (of_nat (2 ^ k) :: 32 word) = 2 ^ k" by (simp add: unat_of_nat del: of_nat_power)
  have "Log2Floor (of_nat (2 ^ k)) = int k" by (rule Log2Floor_eq) (simp_all only: u, simp_all)
  then have sh: "nat (32 - Log2Floor (of_nat (2 ^ k))) = 32 - k" using k32 by (simp add: nat_diff_distrib)
  have t0: "tab k t 1" using k(2,3) by (simp add: tab_def)
  define start where "start =
    (if kInputMarginBytes \<le> length inp
     then Option.bind (Hash inp 1 (32 - k)) (fragment_loop inp (32 - k) (length inp - kInputMarginBytes) m 0 t 0 1)
     else Some (m, 0, t, 0))"
  have "\<exists>m1 op1 t1 ne. start = Some (m1, op1, t1, ne) \<and> length m1 = length m \<and> length t1 = length t \<and>
      ne \<le> length inp \<and> covers inp m1 op1 ne \<and> 65 * op1 \<le> 66 * ne"
  proof (cases "kInputMarginBytes \<le> length inp")
    case False
    then show ?thesis by (simp add: start_def covers_start)
  next
    case True
    have "1 + 4 \<le> length inp" using True by simp
    from Hash_Some [OF this] obtain nh where nh: "Hash inp 1 (32 - k) = Some nh" by blast
    have b: "length inp - 15 + 15 = length inp" "(0::nat) < 1" "1 \<le> length inp - 15 + 1" "65 * (0::nat) \<le> 66 * 0"
      using True by simp_all
    from fragment_loop_ok [OF k32 b(1) inp room t0 b(2,3) nh covers_start b(4)] True nh show ?thesis
      by (simp add: start_def)
  qed
  then obtain m1 op1 t1 ne where s: "start = Some (m1, op1, t1, ne)" "length m1 = length m" "length t1 = length t"
    "ne \<le> length inp" "covers inp m1 op1 ne" "65 * op1 \<le> 66 * ne" by blast
  have run: "CompressFragment inp m t (2 ^ k) =
      Option.bind (if ne < length inp then EmitLiteral m1 op1 inp ne (length inp - ne) False else Some (m1, op1))
        (\<lambda>(m, op). Some (m, op, t1))"
    using s(1) inp power_of_two_and [of k] shift_assertion [OF k32]
    unfolding start_def CompressFragment_def Let_def sh by (cases "kInputMarginBytes \<le> length inp") simp_all
  show ?thesis
  proof (cases "ne < length inp")
    case True
    have room1: "room_for (length inp) (length m1)" using room s(2) by simp
    have lit: "1 \<le> length inp - ne" "ne + (length inp - ne) \<le> length inp" "ne + (length inp - ne) = length inp"
      using True by simp_all
    obtain m2 op2 where e: "EmitLiteral m1 op1 inp ne (length inp - ne) False = Some (m2, op2)" "length m2 = length m1"
      "covers inp m2 op2 (length inp)" "65 * op2 \<le> 66 * length inp + 69"
      using EmitLiteral_covers [OF s(5,6) lit(1,2) inp room1, of False] lit(3) by auto
    with run True s(2,3) show ?thesis by (simp add: covers_def)
  next
    case False
    then have "ne = length inp" using s(4) by simp
    with run False s show ?thesis by (simp add: covers_def)
  qed
qed

end
