(* ===== verification/SnappyCompressSpec.thy ===== *)
theory SnappyCompressSpec
  imports SnappyFragment
begin

text \<open>
  \<open>Compress\<close> over any source and sink that keep their contracts: it returns, stays within
  \<open>MaxCompressedLength\<close>, and what it appends is the length prefix and elements that decode to
  the content of the source.
\<close>

section \<open>Working memory\<close>

definition wmem_ok :: "WorkingMemory \<Rightarrow> bool" where
  "wmem_ok w \<longleftrightarrow> length (small_table w) = 1024 \<and>
     (case large_table w of None \<Rightarrow> True | Some t \<Rightarrow> length t = kMaxHashTableSize)"

lemma hash_table_size_power:
  "8 \<le> j \<Longrightarrow> j \<le> 14 \<Longrightarrow> \<exists>k. hash_table_size n (2 ^ j) = 2 ^ k \<and> 8 \<le> k \<and> k \<le> 14"
proof (induction "14 - j" arbitrary: j rule: less_induct)
  case less
  show ?case
  proof (cases "(2::nat) ^ j < kMaxHashTableSize \<and> 2 ^ j < n")
    case False
    then have "hash_table_size n (2 ^ j) = 2 ^ j" by (subst hash_table_size.simps) auto
    with less.prems show ?thesis by blast
  next
    case True
    then have "(2::nat) ^ j < 2 ^ 14" by simp
    then have "j < 14" by (rule power_less_imp_less_exp [rotated]) simp
    moreover have "hash_table_size n (2 ^ j) = hash_table_size n (2 ^ Suc j)"
      using True by (subst hash_table_size.simps) simp
    ultimately show ?thesis using less.hyps [of "Suc j"] less.prems by simp
  qed
qed

lemma GetHashTable_ok:
  assumes "wmem_ok w" "length junk = kMaxHashTableSize" "GetHashTable junk n w = (large, t, sz, w')"
  obtains k where "sz = 2 ^ k" "k \<le> 14" "2 ^ k \<le> length t" "\<forall>i<2 ^ k. t ! i = 0"
    "\<And>t'. length t' = length t \<Longrightarrow> wmem_ok (store_table large t' w')"
proof -
  obtain k where k: "hash_table_size n 256 = 2 ^ k" "k \<le> 14"
    using hash_table_size_power [of 8 n] by auto
  have k14: "(2::nat) ^ k \<le> kMaxHashTableSize" using power_increasing [OF k(2), of "2 :: nat"] by simp
  note r = assms(3) [unfolded GetHashTable_def Let_def k(1) prod.inject]
  let ?tab = "if large then the (large_table w') else small_table w'"
  have w': "wmem_ok w'" "large \<longleftrightarrow> \<not> 2 ^ k \<le> length (small_table w)" "small_table w' = small_table w"
    "large \<Longrightarrow> large_table w' \<noteq> None"
    using r assms(1,2) by (auto simp: wmem_ok_def split: if_splits)
  have t: "t = replicate (2 ^ k) 0 @ drop (2 ^ k) ?tab" using r by auto
  have len: "2 ^ k \<le> length ?tab" "length ?tab = (if large then kMaxHashTableSize else 1024)"
    using w' k14 assms(1) by (auto simp: wmem_ok_def)
  have lt: "length t = length ?tab" using t len(1) by simp
  show thesis
  proof (rule that [of k])
    show "sz = 2 ^ k" using r by auto
    show "k \<le> 14" by (rule k(2))
    show "2 ^ k \<le> length t" using lt len(1) by simp
    show "\<forall>i<2 ^ k. t ! i = 0" by (simp add: t nth_append)
    show "wmem_ok (store_table large t' w')" if "length t' = length t" for t'
      using that w'(1) lt len(2) by (auto simp: store_table_def wmem_ok_def split: if_splits)
  qed
qed

section \<open>Reading blocks\<close>

context source
begin

lemma gather_ok:
  assumes "src_inv s" "br \<le> num" "num \<le> length buf" "num - br \<le> length (content s)"
  shows "\<exists>s' buf'. gather src num s buf br = Some (s', buf', num) \<and> src_inv s' \<and>
     content s' = drop (num - br) (content s) \<and> length buf' = length buf \<and>
     take num buf' = take br buf @ take (num - br) (content s)"
  using assms
proof (induction "num - br" arbitrary: s buf br rule: less_induct)
  case less
  show ?case
  proof (cases "br < num")
    case False
    with less.prems show ?thesis by (subst gather.simps) simp
  next
    case True
    obtain r s1 rest where p: "Peek src s = (r, s1)" "src_inv s1" "content s1 = content s"
      "content s = r @ rest" "r = [] \<Longrightarrow> content s = []"
      using Peek_obtain [OF less.prems(1)] by metis
    have r: "r \<noteq> []" using p(5) less.prems(4) True by auto
    let ?n = "min (length r) (num - br)"
    let ?s2 = "Skip src ?n s1"
    have n: "0 < ?n" "?n \<le> length r" "br + ?n \<le> num" using True r less.prems(2) by auto
    have s2: "src_inv ?s2" "content ?s2 = drop ?n (content s)"
      using Peek_Skip [OF less.prems(1) p(1) n(2)] by simp_all
    let ?b = "take br buf @ take ?n r @ drop (br + length (take ?n r)) buf"
    have w: "mem_write buf br (take ?n r) = Some ?b"
      using n less.prems(3) by (intro mem_write_Some) simp
    have step: "gather src num s buf br = gather src num ?s2 ?b (br + ?n)"
      using True p(1) w by (subst gather.simps) (simp add: Let_def)
    have lb: "length ?b = length buf" "take (br + ?n) ?b = take br buf @ take ?n r"
      using n less.prems(3) by (simp_all add: min_def)
    have less': "num - (br + ?n) < num - br" "br + ?n \<le> num" "num \<le> length ?b" "num - (br + ?n) \<le> length (content ?s2)"
    proof -
      show "num - (br + ?n) < num - br" using n True by linarith
      show "br + ?n \<le> num" "num \<le> length ?b" using n(3) lb(1) less.prems(3) by simp_all
      show "num - (br + ?n) \<le> length (content ?s2)" unfolding s2(2) length_drop using less.prems(4) by linarith
    qed
    have drop: "drop (num - (br + ?n)) (content ?s2) = drop (num - br) (content s)"
      unfolding s2(2) drop_drop using n(3) by (simp only: le_add_diff_inverse diff_diff_left [symmetric]) simp
    have take: "take (br + ?n) ?b @ take (num - (br + ?n)) (content ?s2) = take br buf @ take (num - br) (content s)"
    proof -
      have "take ?n r = take ?n (content s)" using p(4) n(2) by simp
      moreover have "take ?n (content s) @ take (num - (br + ?n)) (drop ?n (content s)) =
          take (?n + (num - (br + ?n))) (content s)" by (simp only: take_add)
      moreover have "?n + (num - (br + ?n)) = num - br" using n(3) by linarith
      ultimately show ?thesis unfolding lb(2) s2(2) by simp
    qed
    from less.hyps [OF less'(1) s2(1) less'(2,3,4)] show ?thesis
      unfolding step drop take lb(1) .
  qed
qed

lemma next_block_ok:
  assumes inv: "src_inv s" and num: "1 \<le> num" "num \<le> length (content s)"
    and fresh: "\<And>n. length (fresh n) = n" and sc: "\<And>b. scratch = Some b \<Longrightarrow> num \<le> length b"
  shows "\<exists>s' pend scratch'. next_block fresh src num s scratch = Some (take num (content s), s', pend, scratch') \<and>
     src_inv (Skip src pend s') \<and> content (Skip src pend s') = drop num (content s) \<and>
     (\<forall>b. scratch' = Some b \<longrightarrow> num \<le> length b)"
proof -
  obtain r s1 rest where p: "Peek src s = (r, s1)" "src_inv s1" "content s1 = content s"
    "content s = r @ rest" "r = [] \<Longrightarrow> content s = []"
    using Peek_obtain [OF inv] by metis
  have r: "r \<noteq> []" using p(5) num by auto
  show ?thesis
  proof (cases "num \<le> length r")
    case True
    then have "take num r = take num (content s)" using p(4) by simp
    moreover have "src_inv (Skip src num s1)" "content (Skip src num s1) = drop num (content s)"
      using Peek_Skip [OF inv p(1) True] by simp_all
    ultimately show ?thesis using p(1) r True sc by (simp add: next_block_def Let_def)
  next
    case False
    let ?buf = "case scratch of None \<Rightarrow> fresh num | Some b \<Rightarrow> b" and ?s2 = "Skip src (length r) s1"
    have buf: "num \<le> length ?buf" using sc fresh by (cases scratch) auto
    let ?b = "take 0 ?buf @ r @ drop (0 + length r) ?buf"
    have w: "mem_write ?buf 0 r = Some ?b" using buf False by (intro mem_write_Some) simp
    have lb: "length ?b = length ?buf" using buf False by simp
    have s2: "src_inv ?s2" "content ?s2 = rest" using Peek_Skip [OF inv p(1), of "length r"] p(4) by simp_all
    have g: "length r \<le> num" "num \<le> length ?b" "num - length r \<le> length (content ?s2)"
      using False buf lb s2(2) num(2) p(4) by simp_all
    obtain s3 b3 where b3: "gather src num ?s2 ?b (length r) = Some (s3, b3, num)" "src_inv s3"
      "content s3 = drop (num - length r) rest" "length b3 = length ?b"
      "take num b3 = take (length r) ?b @ take (num - length r) rest"
      using gather_ok [OF s2(1) g] unfolding s2(2) by blast
    have "take (length r) ?b = r" by simp
    then have frag: "take num b3 = take num (content s)" using b3(5) p(4) False by simp
    have "next_block fresh src num s scratch = Some (take num (content s), s3, 0, Some b3)"
      using p(1) r False w b3(1) frag by (simp add: next_block_def Let_def)
    moreover have "src_inv (Skip src 0 s3)" "content (Skip src 0 s3) = drop num (content s)"
      using Skip_zero [OF b3(2)] b3(3) p(4) False by simp_all
    moreover have "num \<le> length b3" using b3(4) g(2) by simp
    ultimately show ?thesis by auto
  qed
qed

end

section \<open>All blocks\<close>

definition block_need :: "nat \<Rightarrow> nat" where
  "block_need n = n + n div 65 + 21"

lemma room_for_need: "block_need n \<le> k \<Longrightarrow> room_for n k"
proof -
  assume "block_need n \<le> k"
  moreover have "n \<le> 65 * (n div 65) + 64" by (simp add: mult_div_mod_eq [symmetric] add.commute [of _ "n mod 65"])
  ultimately show ?thesis unfolding block_need_def room_for_def by simp
qed

lemma MaxCompressedLength_small: "n < 2 ^ 62 \<Longrightarrow> MaxCompressedLength n = 32 + n + n div 6"
  by (simp add: MaxCompressedLength_def)

lemma need_below_max: "n \<le> kBlockSize \<Longrightarrow> block_need n \<le> MaxCompressedLength n"
  by (simp add: MaxCompressedLength_small block_need_def)

text \<open>The room that a sink needs for the blocks of \<open>n\<close> more bytes\<close>

definition enough_room :: "nat \<Rightarrow> nat \<Rightarrow> bool" where
  "enough_room n k \<longleftrightarrow> (0 < n \<longrightarrow> 66 * n + 195 * (n div kBlockSize) + 1365 \<le> 65 * k)"

lemma enough_room_block:
  assumes "enough_room n k" "0 < n"
  shows "block_need (min n kBlockSize) \<le> k"
    and "65 * out \<le> 66 * min n kBlockSize + 195 \<Longrightarrow> enough_room (n - min n kBlockSize) (k - out) \<and> out \<le> k"
proof -
  let ?b = "min n kBlockSize"
  have e: "66 * n + 195 * (n div kBlockSize) + 1365 \<le> 65 * k" using assms by (simp add: enough_room_def)
  have "65 * (?b div 65) \<le> ?b" by (rule times_div_less_eq_dividend)
  then have "65 * block_need ?b \<le> 66 * ?b + 1365" by (simp add: block_need_def)
  also have "\<dots> \<le> 65 * k" using e by simp
  finally show "block_need ?b \<le> k" by simp
  assume out: "65 * out \<le> 66 * ?b + 195"
  have "65 * out \<le> 65 * k" using out e by simp
  then have ok: "out \<le> k" by simp
  have "enough_room (n - ?b) (k - out)"
  proof (cases "kBlockSize < n")
    case False
    then show ?thesis by (simp add: enough_room_def)
  next
    case True
    then have b: "?b = kBlockSize" by simp
    have d: "n div kBlockSize = Suc ((n - kBlockSize) div kBlockSize)" using True by (simp add: le_div_geq)
    have "66 * (n - kBlockSize) + 195 * ((n - kBlockSize) div kBlockSize) + 1365 + 65 * out \<le> 65 * k"
      using e out True unfolding b d by simp
    then have "66 * (n - kBlockSize) + 195 * ((n - kBlockSize) div kBlockSize) + 1365 \<le> 65 * (k - out)"
      by (simp only: diff_mult_distrib2)
    then show ?thesis unfolding b enough_room_def by blast
  qed
  with ok show "enough_room (n - ?b) (k - out) \<and> out \<le> k" by simp
qed

definition blocks :: "nat \<Rightarrow> nat" where
  "blocks n = (n + 65535) div kBlockSize"

lemma blocks_step:
  assumes "0 < n"
  shows "blocks n = Suc (blocks (n - min n kBlockSize))"
proof (cases "n < kBlockSize")
  case True
  then have "blocks n = 1" using assms unfolding blocks_def by (simp add: div_nat_eqI)
  with True show ?thesis by (simp add: blocks_def)
next
  case False
  then have "n + 65535 = (n - kBlockSize + 65535) + kBlockSize" by simp
  then have "blocks n = Suc ((n - kBlockSize + 65535) div kBlockSize)"
    unfolding blocks_def by (simp only: div_add_self2)
  with False show ?thesis by (simp add: blocks_def)
qed

text \<open>What a compressed string is: the length, then elements that decode to the input\<close>

definition encodes :: "bytes \<Rightarrow> bytes \<Rightarrow> bool" where
  "encodes enc x \<longleftrightarrow>
     (\<exists>body. enc = Encode32 (of_nat (length x)) @ body \<and> (\<forall>wr. wr_ok wr \<longrightarrow> decode wr body [] = Some x))"

lemma compressed_sizes:
  assumes room: "32 + n + n div 6 \<le> k" and pre: "p \<le> 5"
  shows "enough_room n (k - p)"
    and "65 * e \<le> 66 * n + 195 * blocks n \<Longrightarrow> p + e \<le> 32 + n + n div 6"
proof -
  let ?q = "n div 6" and ?b = "n div kBlockSize"
  have n: "n \<le> 6 * ?q + 5" using mult_div_mod_eq [of 6 n] mod_less_divisor [of 6 n] by linarith
  have "?b \<le> n div 65532" by (rule div_le_mono2) simp_all
  also have "n div 65532 = ?q div 10922" by (simp flip: div_mult2_eq)
  finally have "10922 * ?b \<le> 10922 * (?q div 10922)" by simp
  also have "\<dots> \<le> ?q" by (rule times_div_less_eq_dividend)
  finally have b: "195 * ?b \<le> ?q" by simp
  have "65 * (27 + n + ?q) \<le> 65 * (k - p)" using room pre by simp
  with n b show "enough_room n (k - p)" unfolding enough_room_def by simp
  assume e: "65 * e \<le> 66 * n + 195 * blocks n"
  have "blocks n \<le> (n + kBlockSize) div kBlockSize" unfolding blocks_def by (rule div_le_mono) simp
  then have "blocks n \<le> Suc ?b" by simp
  with e n b have "65 * e \<le> 65 * (27 + n + ?q)" by simp
  with pre show "p + e \<le> 32 + n + ?q" by simp
qed

locale compression = source src src_inv content + sink snk snk_inv written room
  for src :: "'s source_ops" and src_inv :: "'s \<Rightarrow> bool" and content :: "'s \<Rightarrow> bytes"
    and snk :: "'k sink_ops" and snk_inv :: "'k \<Rightarrow> bool" and written :: "'k \<Rightarrow> bytes" and room :: "'k \<Rightarrow> nat"
begin

lemma block_ok:
  assumes N: "0 < N" "length (content s) = N" and inv: "src_inv s" "snk_inv k" "enough_room N (room k)" "wmem_ok w"
    and fresh: "\<And>n. length (fresh n) = n" and junk: "length junk = kMaxHashTableSize"
    and sc: "\<And>b. scratch = Some b \<Longrightarrow> min N kBlockSize \<le> length b"
    and so: "\<And>b. scratch_output = Some b \<Longrightarrow> block_need (min N kBlockSize) \<le> length b"
  shows "\<exists>enc w' scratch' so' s' k'.
     compress_loop fresh junk src snk N n w scratch scratch_output s k =
       compress_loop fresh junk src snk (N - min N kBlockSize) (n + length enc) w' scratch' (Some so') s' k' \<and>
     src_inv s' \<and> content s' = drop (min N kBlockSize) (content s) \<and>
     snk_inv k' \<and> written k' = written k @ enc \<and> room k' = room k - length enc \<and>
     enough_room (N - min N kBlockSize) (room k') \<and> wmem_ok w' \<and>
     (\<forall>b. scratch' = Some b \<longrightarrow> min N kBlockSize \<le> length b) \<and> block_need (min N kBlockSize) \<le> length so' \<and>
     length enc \<le> room k \<and> 65 * length enc \<le> 66 * min N kBlockSize + 195 \<and>
     (\<forall>wr prev. wr_ok wr \<longrightarrow> decode wr enc prev = Some (prev @ take (min N kBlockSize) (content s)))"
proof -
  let ?b = "min N kBlockSize" and ?inp = "take (min N kBlockSize) (content s)"
  have b: "1 \<le> ?b" "?b \<le> length (content s)" "length ?inp = ?b" "?b \<le> kBlockSize" using N by simp_all
  obtain s1 pend scratch' where nb: "next_block fresh src ?b s scratch = Some (?inp, s1, pend, scratch')"
    "src_inv (Skip src pend s1)" "content (Skip src pend s1) = drop ?b (content s)"
    "\<forall>b. scratch' = Some b \<longrightarrow> ?b \<le> length b"
    using next_block_ok [OF inv(1) b(1,2) fresh sc] by blast
  obtain large t sz w1 where ht: "GetHashTable junk ?b w = (large, t, sz, w1)" by (metis prod_cases4)
  obtain kk where kk: "sz = 2 ^ kk" "kk \<le> 14" "2 ^ kk \<le> length t" "\<forall>i<2 ^ kk. t ! i = 0"
    "\<And>t'. length t' = length t \<Longrightarrow> wmem_ok (store_table large t' w1)"
    using GetHashTable_ok [OF inv(4) junk ht] by blast
  let ?out = "case scratch_output of None \<Rightarrow> fresh (MaxCompressedLength ?b) | Some b \<Rightarrow> b"
  let ?dest = "GetAppendBuffer snk (MaxCompressedLength ?b) ?out k"
  have out: "block_need ?b \<le> length ?out" using so need_below_max [OF b(4)] fresh by (cases scratch_output) auto
  have need: "block_need ?b \<le> room k" using enough_room_block(1) [OF inv(3) N(1)] .
  have "block_need ?b \<le> length (memory_of ?dest)" using GetAppendBuffer [OF inv(2) out need] .
  then have "room_for (length ?inp) (length (memory_of ?dest))" "length ?inp \<le> 65536"
    using room_for_need b(3,4) by simp_all
  then obtain m' op t' where cf: "CompressFragment ?inp (memory_of ?dest) t (2 ^ kk) = Some (m', op, t')"
    "length m' = length (memory_of ?dest)" "length t' = length t" "op \<le> length (memory_of ?dest)"
    "65 * op \<le> 66 * ?b + 195"
    "\<And>wr prev. wr_ok wr \<Longrightarrow> decode wr (take op m') prev = Some (prev @ ?inp)"
    using CompressFragment_ok [of ?inp "memory_of ?dest" kk t] kk(2,3,4) unfolding b(3) by blast
  note fits = enough_room_block(2) [OF inv(3) N(1) cf(5)]
  have "op \<le> length m'" using cf(2,4) by simp
  from Append_buffer [OF inv(2) this _ cf(2)] fits obtain k' where
    k': "Append snk (update_memory ?dest m') op k = Some k'" "snk_inv k'" "written k' = written k @ take op m'"
      "room k' = room k - op" by blast
  let ?so = "case ?dest of OtherMemory _ \<Rightarrow> m' | OwnMemory _ \<Rightarrow> ?out"
  have so': "block_need ?b \<le> length ?so"
    using out cf(2) \<open>block_need ?b \<le> length (memory_of ?dest)\<close> by (cases ?dest) simp_all
  have run: "compress_loop fresh junk src snk N n w scratch scratch_output s k =
      compress_loop fresh junk src snk (N - ?b) (n + op) (store_table large t' w1) scratch' (Some ?so)
        (Skip src pend s1) k'"
    using N(1) nb(1) b(3) ht kk(1) cf(1) k'(1) by (subst compress_loop.simps) (simp add: Let_def)
  have "length (take op m') = op" using cf(2,4) by simp
  with run nb(2,3,4) k' fits kk(5) [OF cf(3)] so' cf(5,6) show ?thesis
    by (intro exI [of _ "take op m'"] exI [of _ "store_table large t' w1"] exI [of _ scratch'] exI [of _ ?so]
        exI [of _ "Skip src pend s1"] exI [of _ k'] conjI) simp_all
qed

lemma compress_loop_ok:
  assumes "length (content s) = N" "src_inv s" "snk_inv k" "enough_room N (room k)" "wmem_ok w"
    and "\<And>n. length (fresh n) = n" "length junk = kMaxHashTableSize"
    and "\<And>b. scratch = Some b \<Longrightarrow> min N kBlockSize \<le> length b"
    and "\<And>b. scratch_output = Some b \<Longrightarrow> block_need (min N kBlockSize) \<le> length b"
  shows "\<exists>enc s' k'. compress_loop fresh junk src snk N n w scratch scratch_output s k = Some (n + length enc, s', k') \<and>
     src_inv s' \<and> content s' = [] \<and> snk_inv k' \<and> written k' = written k @ enc \<and> length enc \<le> room k \<and>
     room k' = room k - length enc \<and> 65 * length enc \<le> 66 * N + 195 * blocks N \<and>
     (\<forall>wr prev. wr_ok wr \<longrightarrow> decode wr enc prev = Some (prev @ content s))"
  using assms
proof (induction N arbitrary: n w scratch scratch_output s k rule: less_induct)
  case (less N)
  show ?case
  proof (cases "N = 0")
    case True
    with less.prems show ?thesis
      by (intro exI [of _ "[]"]) (subst compress_loop.simps, simp add: blocks_def)
  next
    case False
    then have N: "0 < N" by simp
    let ?b = "min N kBlockSize"
    note fresh = less.prems(6) and junk = less.prems(7)
    obtain enc w' scratch' so' s1 k1 where
      run: "compress_loop fresh junk src snk N n w scratch scratch_output s k =
        compress_loop fresh junk src snk (N - ?b) (n + length enc) w' scratch' (Some so') s1 k1"
      and s1: "src_inv s1" "content s1 = drop ?b (content s)"
      and k1: "snk_inv k1" "written k1 = written k @ enc" "room k1 = room k - length enc" "enough_room (N - ?b) (room k1)"
      and w': "wmem_ok w'" "\<forall>b. scratch' = Some b \<longrightarrow> ?b \<le> length b" "block_need ?b \<le> length so'" "length enc \<le> room k"
        "65 * length enc \<le> 66 * ?b + 195"
      and dec: "\<And>wr prev. wr_ok wr \<Longrightarrow> decode wr enc prev = Some (prev @ take ?b (content s))"
      using block_ok [OF N less.prems(1,2,3,4,5) fresh junk less.prems(8,9), where n = n] by blast
    have lt: "N - ?b < N" using N by simp
    have len: "length (content s1) = N - ?b" using s1(2) less.prems(1) by simp
    have mono: "min (N - ?b) kBlockSize \<le> ?b" by simp
    have sc: "min (N - ?b) kBlockSize \<le> length b" if "scratch' = Some b" for b
      by (rule le_trans [OF mono]) (use w'(2) that in blast)
    have "block_need (min (N - ?b) kBlockSize) \<le> block_need ?b"
      using mono unfolding block_need_def by (intro add_mono div_le_mono) simp_all
    then have so: "Some so' = Some b \<Longrightarrow> block_need (min (N - ?b) kBlockSize) \<le> length b" for b
      using w'(3) by simp
    obtain enc' s2 k2 where r: "compress_loop fresh junk src snk (N - ?b) (n + length enc) w' scratch' (Some so') s1 k1 =
        Some (n + length enc + length enc', s2, k2)"
      "src_inv s2" "content s2 = []" "snk_inv k2" "written k2 = written k1 @ enc'" "length enc' \<le> room k1"
      "room k2 = room k1 - length enc'" "65 * length enc' \<le> 66 * (N - ?b) + 195 * blocks (N - ?b)"
      "\<forall>wr prev. wr_ok wr \<longrightarrow> decode wr enc' prev = Some (prev @ content s1)"
      using less.IH [OF lt len s1(1) k1(1,4) w'(1) fresh junk sc so, where n = "n + length enc"] by blast
    have "decode wr (enc @ enc') prev = Some (prev @ content s)" if "wr_ok wr" for wr prev
      using decode_append [OF dec [OF that, of prev], of enc'] r(9) that s1(2) by simp
    moreover have "65 * length (enc @ enc') \<le> 66 * N + 195 * blocks N"
      using w'(5) r(8) blocks_step [OF N] by simp
    ultimately show ?thesis using run r k1 w'(4) by (intro exI [of _ "enc @ enc'"]) (simp add: add.assoc)
  qed
qed

lemma Compress_ok:
  assumes inv: "src_inv s" "snk_inv k" and N: "length (content s) < 2 ^ 32"
    and room: "MaxCompressedLength (length (content s)) \<le> room k"
    and fresh: "\<And>n. length (fresh n) = n" and junk: "length small_junk = 1024" "length large_junk = kMaxHashTableSize"
  shows "\<exists>enc s' k'. Compress fresh small_junk large_junk src snk s k = Some (length enc, s', k') \<and>
     src_inv s' \<and> content s' = [] \<and> snk_inv k' \<and> written k' = written k @ enc \<and> room k' = room k - length enc \<and>
     length enc \<le> MaxCompressedLength (length (content s)) \<and> encodes enc (content s)"
proof -
  let ?N = "length (content s)" and ?pre = "Encode32 (of_nat (length (content s)))"
  have av: "Available src s = ?N" using Available [OF inv(1)] .
  have max: "MaxCompressedLength ?N = 32 + ?N + ?N div 6" using N by (intro MaxCompressedLength_small) simp
  have pre: "length ?pre \<le> 5" by (simp add: Encode32_def)
  then have "length ?pre \<le> room k" using room max by simp
  with Append_other [OF inv(2), of "length ?pre" ?pre] obtain k1 where
    k1: "Append snk (OtherMemory ?pre) (length ?pre) k = Some k1" "snk_inv k1" "written k1 = written k @ ?pre"
      "room k1 = room k - length ?pre" by auto
  note sizes = compressed_sizes [OF room [unfolded max] pre]
  have er: "enough_room ?N (room k1)" unfolding k1(4) by (rule sizes(1))
  have wm: "wmem_ok (WorkingMemory_init small_junk)" using junk(1) by (simp add: wmem_ok_def WorkingMemory_init_def)
  obtain enc s' k' where r: "compress_loop fresh large_junk src snk ?N (length ?pre) (WorkingMemory_init small_junk) None None s k1 =
      Some (length ?pre + length enc, s', k')"
    "src_inv s'" "content s' = []" "snk_inv k'" "written k' = written k1 @ enc" "length enc \<le> room k1"
    "room k' = room k1 - length enc" "65 * length enc \<le> 66 * ?N + 195 * blocks ?N"
    "\<forall>wr prev. wr_ok wr \<longrightarrow> decode wr enc prev = Some (prev @ content s)"
    using compress_loop_ok [OF refl inv(1) k1(2) er wm fresh junk(2), of None None "length ?pre"] by blast
  have "length ?pre + length enc \<le> MaxCompressedLength ?N" unfolding max by (rule sizes(2) [OF r(8)])
  moreover have "encodes (?pre @ enc) (content s)" using r(9) by (auto simp: encodes_def)
  moreover have "Compress fresh small_junk large_junk src snk s k = Some (length (?pre @ enc), s', k')"
    using k1(1) r(1) by (simp add: Compress_def av Let_def)
  ultimately show ?thesis using r k1 by (intro exI [of _ "?pre @ enc"]) simp
qed

end

interpretation array_compression: compression byte_array_source bas_inv bas_content byte_array_sink bask_inv bask_written bask_room
  by unfold_locales

end
