(* ===== verification/SnappyWriters.thy ===== *)
theory SnappyWriters
  imports SnappyFormat
begin

text \<open>
  The writers the decompressor is templatized on: the signature documented above
  \<open>wordmask\<close> in \<open>snappy.cc\<close> as a record of operations, its contract as a locale, and the
  implementations \<open>SnappyArrayWriter\<close> and \<open>SnappyDecompressionValidator\<close>.
\<close>

section \<open>The interface\<close>

text \<open>
  The pointer \<open>ip\<close> stands for the memory it points to. Every operation returns its \<open>bool\<close>
  and the new state; \<open>None\<close> is an access outside a buffer.
\<close>

record 'w writer_ops =
  SetExpectedLength :: "nat \<Rightarrow> 'w \<Rightarrow> 'w"
  CheckLength :: "'w \<Rightarrow> bool"
  WAppend :: "bytes \<Rightarrow> nat \<Rightarrow> 'w \<Rightarrow> (bool \<times> 'w) option"
  TryFastAppend :: "bytes \<Rightarrow> nat \<Rightarrow> nat \<Rightarrow> 'w \<Rightarrow> (bool \<times> 'w) option"
  AppendFromSelf :: "nat \<Rightarrow> nat \<Rightarrow> 'w \<Rightarrow> (bool \<times> 'w) option"

text \<open>\<open>rep L out w\<close>: the writer \<open>w\<close> expects \<open>L\<close> bytes and has produced \<open>out\<close>.\<close>

locale decompression_writer =
  fixes wr :: "'w writer_ops" and start :: "nat \<Rightarrow> 'w \<Rightarrow> bool" and rep :: "nat \<Rightarrow> bytes \<Rightarrow> 'w \<Rightarrow> bool"
  assumes SetExpectedLength: "start L w \<Longrightarrow> rep L [] (SetExpectedLength wr L w)"
    and rep_bound: "rep L out w \<Longrightarrow> length out \<le> L \<and> L < 2 ^ 32"
    and CheckLength: "rep L out w \<Longrightarrow> CheckLength wr w \<longleftrightarrow> length out = L"
    and Append_ok: "rep L out w \<Longrightarrow> n \<le> length m \<Longrightarrow> length out + n \<le> L \<Longrightarrow>
      \<exists>w'. WAppend wr m n w = Some (True, w') \<and> rep L (out @ take n m) w'"
    and Append_full: "rep L out w \<Longrightarrow> n \<le> length m \<Longrightarrow> L < length out + n \<Longrightarrow>
      \<exists>w'. WAppend wr m n w = Some (False, w')"
    and TryFastAppend: "rep L out w \<Longrightarrow> avail \<le> length m \<Longrightarrow> 1 \<le> n \<Longrightarrow>
      TryFastAppend wr m avail n w = Some (False, w) \<or>
      (\<exists>w'. TryFastAppend wr m avail n w = Some (True, w') \<and> n \<le> 60 \<and> n + kMaximumTagLength \<le> avail \<and>
        rep L (out @ take n m) w')"
    and AppendFromSelf_ok: "rep L out w \<Longrightarrow> 1 \<le> n \<Longrightarrow> n \<le> 64 \<Longrightarrow> 0 < off \<Longrightarrow> off \<le> length out \<Longrightarrow>
      length out + n \<le> L \<Longrightarrow>
      \<exists>w'. AppendFromSelf wr off n w = Some (True, w') \<and> rep L (copy_from off n out) w'"
    and AppendFromSelf_bad: "rep L out w \<Longrightarrow> 1 \<le> n \<Longrightarrow> n \<le> 64 \<Longrightarrow> off < 2 ^ 33 \<Longrightarrow>
      off = 0 \<or> length out < off \<or> L < length out + n \<Longrightarrow>
      \<exists>w'. AppendFromSelf wr off n w = Some (False, w')"

section \<open>Copies inside a buffer\<close>

text \<open>\<open>IncrementalCopy\<close>: a do-while loop, byte by byte\<close>

function IncrementalCopy :: "bytes \<Rightarrow> nat \<Rightarrow> nat \<Rightarrow> nat \<Rightarrow> bytes option" where
  "IncrementalCopy m src op len =
     do {
       b \<leftarrow> mem_read m src 1;
       m \<leftarrow> mem_write m op b;
       (if len - 1 > 0 then IncrementalCopy m (src + 1) (op + 1) (len - 1) else Some m)
     }"
  by pat_completeness auto
termination
  by (relation "measure (\<lambda>(m, src, op, len). len)") auto

declare IncrementalCopy.simps [simp del]

abbreviation (input) kMaxIncrementCopyOverflow :: nat where "kMaxIncrementCopyOverflow \<equiv> 10"

text \<open>
  \<open>IncrementalCopyFastPath\<close>: the loop that doubles the pattern until source and destination
  are eight bytes apart, then the loop that copies eight bytes at a time. The first does
  not end when they coincide.
\<close>

partial_function (option) expand_pattern ::
  "bytes \<Rightarrow> nat \<Rightarrow> nat \<Rightarrow> int \<Rightarrow> (bytes \<times> nat \<times> int) option" where
  "expand_pattern m src op len =
     (if op - src < 8
      then do { m \<leftarrow> UnalignedCopy64 m src m op;
                expand_pattern m src (op + (op - src)) (len - int (op - src)) }
      else Some (m, op, len))"

partial_function (option) copy_words :: "bytes \<Rightarrow> nat \<Rightarrow> nat \<Rightarrow> int \<Rightarrow> bytes option" where
  "copy_words m src op len =
     (if len > 0
      then do { m \<leftarrow> UnalignedCopy64 m src m op; copy_words m (src + 8) (op + 8) (len - 8) }
      else Some m)"

definition IncrementalCopyFastPath :: "bytes \<Rightarrow> nat \<Rightarrow> nat \<Rightarrow> int \<Rightarrow> bytes option" where
  "IncrementalCopyFastPath m src op len =
     do { (m, op, len) \<leftarrow> expand_pattern m src op len; copy_words m src op len }"

text \<open>\<open>filled p m n\<close>: the first \<open>n\<close> bytes of the buffer are those of the sequence \<open>p\<close>.\<close>

definition filled_to :: "(nat \<Rightarrow> byte) \<Rightarrow> bytes \<Rightarrow> nat \<Rightarrow> bool" where
  "filled_to p m n \<longleftrightarrow> n \<le> length m \<and> (\<forall>j<n. m ! j = p j)"

lemma filled_to_mono: "filled_to p m n \<Longrightarrow> k \<le> n \<Longrightarrow> filled_to p m k"
  by (simp add: filled_to_def)

lemma filled_to_take: "filled_to p m n \<Longrightarrow> filled_to p m' n \<longleftrightarrow> n \<le> length m' \<and> take n m' = take n m"
  by (auto simp: filled_to_def list_eq_iff_nth_eq)

text \<open>
  One copy of \<open>k\<close> bytes from \<open>src\<close> to \<open>op\<close>, of which the first \<open>j\<close> were already known and
  continue the sequence.
\<close>

lemma filled_to_copy:
  assumes f: "filled_to p m op" and r: "mem_read m src k = Some bs" and w: "mem_write m op bs = Some m'"
    and j: "j \<le> k" "src + j \<le> op" and p: "\<And>i. i < j \<Longrightarrow> p (op + i) = p (src + i)"
  shows "filled_to p m' (op + j)" and "length m' = length m"
proof -
  have bs: "bs = take k (drop src m)" "length bs = k" "src + k \<le> length m" using mem_readD [OF r] by blast+
  show len: "length m' = length m" using mem_writeD(1) [OF w] .
  have m': "m' = take op m @ bs @ drop (op + k) m" and le: "op + k \<le> length m"
    using w bs by (auto simp: mem_write_def split: if_splits)
  have "m' ! i = p i" if "i < op + j" for i
  proof (cases "i < op")
    case True
    with f m' le show ?thesis by (simp add: filled_to_def nth_append)
  next
    case False
    have "i - op < length bs" using False that j bs(2) by simp
    then have "m' ! i = bs ! (i - op)" using False m' le by (simp add: nth_append)
    also have "\<dots> = m ! (src + (i - op))" using False that j bs by simp
    also have "\<dots> = p (src + (i - op))" using f False that j by (simp add: filled_to_def)
    also have "\<dots> = p (op + (i - op))" using p [of "i - op"] False that by simp
    finally show ?thesis using False by simp
  qed
  with len le j show "filled_to p m' (op + j)" by (simp add: filled_to_def)
qed

lemma copy64_filled:
  assumes "filled_to p m op" and "src + 8 \<le> length m" and "op + 8 \<le> length m"
    and "j \<le> 8" "src + j \<le> op" and "\<And>i. i < j \<Longrightarrow> p (op + i) = p (src + i)"
  shows "\<exists>m'. UnalignedCopy64 m src m op = Some m' \<and> filled_to p m' (op + j) \<and> length m' = length m"
proof -
  let ?bs = "take 8 (drop src m)"
  have r: "mem_read m src 8 = Some ?bs" using assms(2) by (rule mem_read_Some)
  have "length ?bs = 8" using assms(2) by simp
  then obtain m' where w: "mem_write m op ?bs = Some m'" using assms(3) by (simp add: mem_write_def)
  have "UnalignedCopy64 m src m op = Some m'" using r w by (simp add: UnalignedCopy64_eq)
  with filled_to_copy [OF assms(1) r w assms(4,5,6)] show ?thesis by blast
qed

lemma IncrementalCopy_filled:
  assumes "filled_to p m op" and "0 < off" "src + off = op" and "1 \<le> n" "op + n \<le> length m"
    and "\<And>j. src \<le> j \<Longrightarrow> p (j + off) = p j"
  shows "\<exists>m'. IncrementalCopy m src op n = Some m' \<and> filled_to p m' (op + n) \<and> length m' = length m"
  using assms
proof (induction m src op n rule: IncrementalCopy.induct)
  case (1 m src op len)
  have r: "mem_read m src 1 = Some (take 1 (drop src m))"
    using "1.prems" by (intro mem_read_Some) simp
  have l: "length (take 1 (drop src m)) = 1" using "1.prems" by simp
  obtain m1 where w: "mem_write m op (take 1 (drop src m)) = Some m1"
    using "1.prems" l by (simp add: mem_write_def)
  have "p (op + i) = p (src + i)" if "i < 1" for i
    using "1.prems"(3) "1.prems"(6) [of src] that by simp
  from filled_to_copy [OF "1.prems"(1) r w, of 1] this "1.prems"(2,3)
  have m1: "filled_to p m1 (op + 1)" "length m1 = length m" by auto
  show ?case
  proof (cases "len - 1 > 0")
    case True
    have "src + 1 + off = op + 1" "1 \<le> len - 1" "op + 1 + (len - 1) \<le> length m1"
      using "1.prems"(3,5) m1(2) True by simp_all
    from "1.IH" [OF r w True m1(1) "1.prems"(2) this] "1.prems"(6) True m1(2) obtain m' where
      "IncrementalCopy m1 (src + 1) (op + 1) (len - 1) = Some m'" "filled_to p m' (op + len)"
      "length m' = length m" by auto
    with True r w show ?thesis by (simp add: IncrementalCopy.simps [of m src op len])
  next
    case False
    then have len: "len = 1" using "1.prems"(4) by simp
    from r w m1 show ?thesis unfolding len by (simp add: IncrementalCopy.simps [of m src op "Suc 0"])
  qed
qed

lemma copy_words_filled:
  assumes "filled_to p m op" and "src + 8 \<le> op" and "int op + len + 7 \<le> int (length m)"
    and "\<And>j. src \<le> j \<Longrightarrow> p (j + (op - src)) = p j"
  shows "\<exists>m'. copy_words m src op len = Some m' \<and> filled_to p m' (op + nat len) \<and> length m' = length m"
  using assms
proof (induction "nat len" arbitrary: m src op len rule: less_induct)
  case less
  show ?case
  proof (cases "len > 0")
    case True
    let ?d = "op - src"
    have per: "p (op + i) = p (src + i)" for i
      using less.prems(4) [of "src + i"] less.prems(2) by (simp add: add.commute add.left_commute)
    have "op + 8 \<le> length m" "src + 8 \<le> length m" using less.prems(2,3) True by linarith+
    from copy64_filled [OF less.prems(1) this(2,1), of 8] less.prems(2) per obtain m1 where
      m1: "UnalignedCopy64 m src m op = Some m1" "filled_to p m1 (op + 8)" "length m1 = length m" by auto
    have "nat (len - 8) < nat len" "src + 8 + 8 \<le> op + 8" "int (op + 8) + (len - 8) + 7 \<le> int (length m1)"
      using True less.prems(2,3) m1(3) by linarith+
    moreover have "p (j + (op + 8 - (src + 8))) = p j" if "src + 8 \<le> j" for j
      using less.prems(4) [of j] that by simp
    ultimately obtain m' where m': "copy_words m1 (src + 8) (op + 8) (len - 8) = Some m'"
      "filled_to p m' (op + 8 + nat (len - 8))" "length m' = length m"
      using less.hyps [OF _ m1(2)] m1(3) by metis
    have "op + nat len \<le> op + 8 + nat (len - 8)" by linarith
    with m' m1 True show ?thesis
      by (subst copy_words.simps) (auto intro: filled_to_mono)
  next
    case False
    with less.prems show ?thesis by (subst copy_words.simps) simp
  qed
qed

text \<open>
  The doubling loop: it ends with source and destination at least eight bytes apart, a
  multiple of the pattern, and writes at most eleven bytes past where it started.
\<close>

lemma expand_pattern_filled:
  assumes "filled_to p m op" and "0 < d" "op = src + k * d" "0 < k"
    and "\<And>j. src \<le> j \<Longrightarrow> p (j + d) = p j"
    and "src + d + 11 \<le> length m" "\<not> 8 \<le> k * d \<Longrightarrow> \<exists>e. k = 2 ^ e"
  shows "\<exists>m' op' k'. expand_pattern m src op len = Some (m', op', len - int (op' - op)) \<and>
     op' = src + k' * d \<and> 8 \<le> k' * d \<and> op \<le> op' \<and> filled_to p m' op' \<and> length m' = length m"
  using assms
proof (induction "8 - (op - src)" arbitrary: m op k len rule: less_induct)
  case less
  have per: "p (src + i + k * d) = p (src + i)" for i
  proof (induction k)
    case (Suc k)
    have "p (src + i + k * d + d) = p (src + i + k * d)" using less.prems(5) [of "src + i + k * d"] by simp
    with Suc show ?case by (simp add: ac_simps)
  qed simp
  show ?case
  proof (cases "op - src < 8")
    case True
    have d: "op - src = k * d" using less.prems(3) by simp
    obtain e where e: "k = 2 ^ e" using True d less.prems(7) by auto
    have "k * d \<le> d + 3"
    proof -
      have kd: "k * d < 8" using True d by simp
      have "e < 3"
      proof (rule ccontr)
        assume "\<not> e < 3"
        then have "(2::nat) ^ 3 \<le> 2 ^ e" by (intro power_increasing) auto
        then have "8 * 1 \<le> k * d" using e less.prems(2) by (intro mult_le_mono) auto
        with kd show False by simp
      qed
      then have "e = 0 \<or> e = 1 \<or> e = 2" by auto
      with e kd show ?thesis by auto
    qed
    then have fits: "src + 8 \<le> length m" "op + 8 \<le> length m" using less.prems(3,6) by linarith+
    have "p (op + i) = p (src + i)" for i using per [of i] less.prems(3) by (simp add: ac_simps)
    from copy64_filled [OF less.prems(1) fits, of "op - src"] this True less.prems(3) obtain m1 where
      m1: "UnalignedCopy64 m src m op = Some m1" "filled_to p m1 (op + (op - src))" "length m1 = length m"
      by auto
    let ?op = "op + (op - src)" and ?len = "len - int (op - src)"
    have dec: "8 - (?op - src) < 8 - (op - src)"
    proof -
      have "0 < op - src" using less.prems(2,3,4) by simp
      with True less.prems(3) show ?thesis by linarith
    qed
    have eq: "?op = src + (2 * k) * d" "0 < 2 * k" using less.prems(3,4) by simp_all
    have pow: "\<exists>e. 2 * k = 2 ^ e" using e by (intro exI [of _ "Suc e"]) simp
    have fit: "src + d + 11 \<le> length m1" using less.prems(6) m1(3) by simp
    from less.hyps [OF dec m1(2) less.prems(2) eq less.prems(5) fit pow, of ?len] obtain m' op' k' where m':
      "expand_pattern m1 src ?op ?len = Some (m', op', ?len - int (op' - ?op))"
      "op' = src + k' * d" "8 \<le> k' * d" "?op \<le> op'" "filled_to p m' op'" "length m' = length m1"
      by blast
    have "len - int (op - src) - int (op' - (op + (op - src))) = len - int (op' - op)"
      using m'(4) by linarith
    moreover have "expand_pattern m src op len = Some (m', op', ?len - int (op' - ?op))"
      using m'(1) m1(1) True by (subst expand_pattern.simps) simp
    moreover have "op \<le> op'" using m'(4) by simp
    ultimately show ?thesis using m' m1(3) by auto
  next
    case False
    with less.prems show ?thesis by (subst expand_pattern.simps) (auto intro!: exI [of _ k])
  qed
qed

lemma IncrementalCopyFastPath_filled:
  assumes f: "filled_to p m op" and d: "0 < d" "op = src + d" and n: "1 \<le> n"
    and room: "op + n + kMaxIncrementCopyOverflow \<le> length m" and per: "\<And>j. src \<le> j \<Longrightarrow> p (j + d) = p j"
  shows "\<exists>m'. IncrementalCopyFastPath m src op (int n) = Some m' \<and> filled_to p m' (op + n) \<and> length m' = length m"
proof -
  have "src + d + 11 \<le> length m" using room n d by simp
  moreover have "op = src + 1 * d" "\<exists>e. 1 = (2::nat) ^ e" using d(2) by (simp_all add: exI [of _ 0])
  ultimately obtain m1 op1 k where
    e: "expand_pattern m src op (int n) = Some (m1, op1, int n - int (op1 - op))"
      "op1 = src + k * d" "8 \<le> k * d" "op \<le> op1" "filled_to p m1 op1" "length m1 = length m"
    using expand_pattern_filled [OF f d(1), of src 1 "int n"] per by (metis zero_less_one)
  have per': "p (j + (op1 - src)) = p j" if "src \<le> j" for j
  proof -
    have "p (j + k * d) = p j"
    proof (induction k)
      case (Suc k)
      have "p (j + k * d + d) = p (j + k * d)" using per [of "j + k * d"] that by simp
      with Suc show ?case by (simp add: ac_simps)
    qed simp
    with e(2) show ?thesis by simp
  qed
  have "src + 8 \<le> op1" using e(2,3) by simp
  show ?thesis
  proof (cases "op1 \<le> op + n")
    case True
    have "int op1 + (int n - int (op1 - op)) + 7 \<le> int (length m1)" using True e(4,6) room by linarith
    from copy_words_filled [OF e(5) \<open>src + 8 \<le> op1\<close> this per'] obtain m2 where
      m2: "copy_words m1 src op1 (int n - int (op1 - op)) = Some m2"
        "filled_to p m2 (op1 + nat (int n - int (op1 - op)))" "length m2 = length m1" by blast
    have "op1 + nat (int n - int (op1 - op)) = op + n" using True e(4) by linarith
    with e m2 show ?thesis by (simp add: IncrementalCopyFastPath_def)
  next
    case False
    then have "copy_words m1 src op1 (int n - int (op1 - op)) = Some m1"
      using e(4) by (subst copy_words.simps) auto
    with e False show ?thesis by (auto simp: IncrementalCopyFastPath_def intro: filled_to_mono)
  qed
qed

text \<open>A copy that stays inside a buffer does the same in the beginning of a larger one.\<close>

lemma mem_read_frame: "mem_read m p n = Some bs \<Longrightarrow> mem_read (m @ t) p n = Some bs"
  by (auto simp: mem_read_def split: if_splits)

lemma mem_write_frame: "mem_write m p bs = Some m' \<Longrightarrow> mem_write (m @ t) p bs = Some (m' @ t)"
  by (auto simp: mem_write_def split: if_splits)

lemma copy64_frame: "UnalignedCopy64 m src m op = Some m' \<Longrightarrow> UnalignedCopy64 (m @ t) src (m @ t) op = Some (m' @ t)"
  by (auto simp: UnalignedCopy64_eq mem_read_frame mem_write_frame split: bind_splits)

lemma IncrementalCopy_frame:
  "IncrementalCopy m src op len = Some m' \<Longrightarrow> IncrementalCopy (m @ t) src op len = Some (m' @ t)"
proof (induction m src op len rule: IncrementalCopy.induct)
  case (1 m src op len)
  from "1.prems" obtain b m1 where b: "mem_read m src 1 = Some b" "mem_write m op b = Some m1"
    and rest: "(if len - 1 > 0 then IncrementalCopy m1 (src + 1) (op + 1) (len - 1) else Some m1) = Some m'"
    by (subst (asm) IncrementalCopy.simps) (auto split: bind_splits)
  show ?case
  proof (cases "len - 1 > 0")
    case True
    with "1.IH" b rest show ?thesis
      by (subst IncrementalCopy.simps) (auto simp: mem_read_frame mem_write_frame)
  next
    case False
    with b rest show ?thesis by (subst IncrementalCopy.simps) (auto simp: mem_read_frame mem_write_frame)
  qed
qed

lemma expand_pattern_frame:
  "expand_pattern m src op len = Some r \<Longrightarrow> expand_pattern (m @ t) src op len = Some (fst r @ t, snd r)"
proof (rule expand_pattern.raw_induct
    [where P = "\<lambda>m src op len r. expand_pattern (m @ t) src op len = Some (fst r @ t, snd r)", rotated])
  fix rec m src op len r
  assume IH: "\<And>m src op len r. rec m src op len = Some r \<Longrightarrow> expand_pattern (m @ t) src op len = Some (fst r @ t, snd r)"
    and "(if op - src < 8
      then Option.bind (UnalignedCopy64 m src m op) (\<lambda>m. rec m src (op + (op - src)) (len - int (op - src)))
      else Some (m, op, len)) = Some r"
  then show "expand_pattern (m @ t) src op len = Some (fst r @ t, snd r)"
    by (subst expand_pattern.simps) (auto simp: copy64_frame split: if_splits bind_splits)
qed

lemma copy_words_frame:
  "copy_words m src op len = Some m' \<Longrightarrow> copy_words (m @ t) src op len = Some (m' @ t)"
proof (rule copy_words.raw_induct [where P = "\<lambda>m src op len m'. copy_words (m @ t) src op len = Some (m' @ t)", rotated])
  fix rec m src op len m'
  assume IH: "\<And>m src op len m'. rec m src op len = Some m' \<Longrightarrow> copy_words (m @ t) src op len = Some (m' @ t)"
    and "(if len > 0
      then Option.bind (UnalignedCopy64 m src m op) (\<lambda>m. rec m (src + 8) (op + 8) (len - 8))
      else Some m) = Some m'"
  then show "copy_words (m @ t) src op len = Some (m' @ t)"
    by (subst copy_words.simps) (auto simp: copy64_frame split: if_splits bind_splits)
qed

lemma IncrementalCopyFastPath_frame:
  "IncrementalCopyFastPath m src op len = Some m' \<Longrightarrow> IncrementalCopyFastPath (m @ t) src op len = Some (m' @ t)"
  by (auto simp: IncrementalCopyFastPath_def expand_pattern_frame copy_words_frame split: bind_splits)

text \<open>What a filled buffer says about copies\<close>

lemma filled_copy_from:
  assumes "0 < off" "off \<le> length out" "filled_to (repeated off out) m (length out + n)"
  shows "take (length out + n) m = copy_from off n out"
  using assms by (intro copy_from_eqI) (auto simp: filled_to_def)

lemma filled_start:
  "take (length out) m = out \<Longrightarrow> length out \<le> length m \<Longrightarrow> filled_to (repeated off out) m (length out)"
  by (auto simp: filled_to_def repeated_def) (metis nth_take)

text \<open>
  C28: IncrementalCopyFastPath is IncrementalCopy on the bytes that are to be copied: when ten
  more bytes can be written, both end, and the first \<open>op + n\<close> bytes of the buffer are the
  old ones followed by the \<open>n\<close> bytes that the byte-by-byte copy produces.
\<close>

theorem IncrementalCopyFastPath_equiv:
  assumes "0 < d" and "1 \<le> n" and "src + d + n + kMaxIncrementCopyOverflow \<le> length m"
  shows "\<exists>m1 m2. IncrementalCopyFastPath m src (src + d) (int n) = Some m1 \<and>
     IncrementalCopy m src (src + d) n = Some m2 \<and>
     take (src + d + n) m1 = take (src + d + n) m2 \<and>
     take (src + d + n) m1 = copy_from d n (take (src + d) m)"
proof -
  let ?op = "src + d" and ?out = "take (src + d) m"
  have out: "length ?out = ?op" "d \<le> length ?out" using assms(3) by simp_all
  have f: "filled_to (repeated d ?out) m ?op" using filled_start [of ?out m d] out by simp
  have per: "src \<le> j \<Longrightarrow> repeated d ?out (j + d) = repeated d ?out j" for j
    using repeated_period [OF assms(1) out(2)] out(1) by simp
  have "?op + n + kMaxIncrementCopyOverflow \<le> length m" "?op + n \<le> length m" using assms(3) by simp_all
  with IncrementalCopyFastPath_filled [OF f assms(1) refl assms(2) _ per] IncrementalCopy_filled [OF f assms(1) refl assms(2) _ per]
  obtain m1 m2 where m: "IncrementalCopyFastPath m src ?op (int n) = Some m1" "filled_to (repeated d ?out) m1 (?op + n)"
    "IncrementalCopy m src ?op n = Some m2" "filled_to (repeated d ?out) m2 (?op + n)" by blast
  have "take (?op + n) m1 = copy_from d n ?out" "take (?op + n) m2 = copy_from d n ?out"
    using filled_copy_from [OF assms(1) out(2), of m1 n] filled_copy_from [OF assms(1) out(2), of m2 n] m(2,4) out(1)
    by simp_all
  with m(1,3) show ?thesis by simp
qed

lemma IncrementalCopyFastPath_equiv_witness:
  "\<exists>m1 m2. IncrementalCopyFastPath [1, 2, 0, 0, 0, 0, 0, 0, 0, 0, 0, 0, 0, 0, 0] 0 2 (int 3) = Some m1 \<and>
     IncrementalCopy [1, 2, 0, 0, 0, 0, 0, 0, 0, 0, 0, 0, 0, 0, 0] 0 2 3 = Some m2 \<and>
     take 5 m1 = take 5 m2 \<and> take 5 m1 = copy_from 2 3 [1, 2]"
  using IncrementalCopyFastPath_equiv [of 2 3 0 "[1, 2, 0, 0, 0, 0, 0, 0, 0, 0, 0, 0, 0, 0, 0]"]
  by (simp flip: numeral_2_eq_2)

section \<open>SnappyArrayWriter\<close>

record SnappyArrayWriter =
  aw_mem :: bytes
  aw_base :: nat
  aw_op :: nat
  aw_op_limit :: nat

definition SnappyArrayWriter_init :: "bytes \<Rightarrow> SnappyArrayWriter" where
  "SnappyArrayWriter_init dst = \<lparr>aw_mem = dst, aw_base = 0, aw_op = 0, aw_op_limit = 0\<rparr>"

definition ArrayWriter_SetExpectedLength :: "nat \<Rightarrow> SnappyArrayWriter \<Rightarrow> SnappyArrayWriter" where
  "ArrayWriter_SetExpectedLength len w = w\<lparr>aw_op_limit := aw_op w + len\<rparr>"

definition ArrayWriter_CheckLength :: "SnappyArrayWriter \<Rightarrow> bool" where
  "ArrayWriter_CheckLength w \<longleftrightarrow> aw_op w = aw_op_limit w"

definition ArrayWriter_Append ::
  "bytes \<Rightarrow> nat \<Rightarrow> SnappyArrayWriter \<Rightarrow> (bool \<times> SnappyArrayWriter) option" where
  "ArrayWriter_Append ip len w =
     (let op = aw_op w; space_left = aw_op_limit w - op in
      if space_left < len then Some (False, w)
      else do {
        bs \<leftarrow> mem_read ip 0 len;
        m \<leftarrow> mem_write (aw_mem w) op bs;
        Some (True, w\<lparr>aw_mem := m, aw_op := op + len\<rparr>)
      })"

definition ArrayWriter_TryFastAppend ::
  "bytes \<Rightarrow> nat \<Rightarrow> nat \<Rightarrow> SnappyArrayWriter \<Rightarrow> (bool \<times> SnappyArrayWriter) option" where
  "ArrayWriter_TryFastAppend ip available len w =
     (let op = aw_op w; space_left = aw_op_limit w - op in
      if len \<le> 16 \<and> 16 + kMaximumTagLength \<le> available \<and> 16 \<le> space_left
      then do {
        m \<leftarrow> UnalignedCopy64 ip 0 (aw_mem w) op;
        m \<leftarrow> UnalignedCopy64 ip 8 m (op + 8);
        Some (True, w\<lparr>aw_mem := m, aw_op := op + len\<rparr>)
      }
      else Some (False, w))"

text \<open>The test \<open>produced <= offset - 1u\<close> wraps around for the offset zero.\<close>

definition ArrayWriter_AppendFromSelf ::
  "nat \<Rightarrow> nat \<Rightarrow> SnappyArrayWriter \<Rightarrow> (bool \<times> SnappyArrayWriter) option" where
  "ArrayWriter_AppendFromSelf offset len w =
     (let op = aw_op w; space_left = aw_op_limit w - op; produced = op - aw_base w in
      if of_nat produced \<le> (of_nat offset - 1 :: 64 word) then Some (False, w)
      else if len \<le> 16 \<and> 8 \<le> offset \<and> 16 \<le> space_left
      then do {
        m \<leftarrow> UnalignedCopy64 (aw_mem w) (op - offset) (aw_mem w) op;
        m \<leftarrow> UnalignedCopy64 m (op - offset + 8) m (op + 8);
        Some (True, w\<lparr>aw_mem := m, aw_op := op + len\<rparr>)
      }
      else if len + kMaxIncrementCopyOverflow \<le> space_left
      then do {
        m \<leftarrow> IncrementalCopyFastPath (aw_mem w) (op - offset) op (int len);
        Some (True, w\<lparr>aw_mem := m, aw_op := op + len\<rparr>)
      }
      else if space_left < len then Some (False, w)
      else do {
        m \<leftarrow> IncrementalCopy (aw_mem w) (op - offset) op len;
        Some (True, w\<lparr>aw_mem := m, aw_op := op + len\<rparr>)
      })"

definition array_writer :: "SnappyArrayWriter writer_ops" where
  "array_writer =
     \<lparr>SetExpectedLength = ArrayWriter_SetExpectedLength, CheckLength = ArrayWriter_CheckLength,
      WAppend = ArrayWriter_Append, TryFastAppend = ArrayWriter_TryFastAppend,
      AppendFromSelf = ArrayWriter_AppendFromSelf\<rparr>"

text \<open>The buffer was \<open>M\<close> at the start and is never changed beyond the expected length.\<close>

definition aw_start :: "bytes \<Rightarrow> nat \<Rightarrow> SnappyArrayWriter \<Rightarrow> bool" where
  "aw_start M L w \<longleftrightarrow> aw_base w = 0 \<and> aw_op w = 0 \<and> L \<le> length M \<and> aw_mem w = M \<and> L < 2 ^ 32"

definition aw_rep :: "bytes \<Rightarrow> nat \<Rightarrow> bytes \<Rightarrow> SnappyArrayWriter \<Rightarrow> bool" where
  "aw_rep M L out w \<longleftrightarrow>
     aw_base w = 0 \<and> aw_op w = length out \<and> aw_op_limit w = L \<and> length out \<le> L \<and>
     L \<le> length M \<and> length (aw_mem w) = length M \<and> drop L (aw_mem w) = drop L M \<and>
     take (length out) (aw_mem w) = out \<and> L < 2 ^ 32"

text \<open>The wrap-around test in plain terms\<close>

lemma offset_test:
  assumes "produced < 2 ^ 63" and "offset < 2 ^ 63"
  shows "of_nat produced \<le> (of_nat offset - 1 :: 64 word) \<longleftrightarrow> offset = 0 \<or> produced < offset"
proof (cases "offset = 0")
  case True
  then show ?thesis by simp
next
  case False
  then have "(of_nat offset - 1 :: 64 word) = of_nat (offset - 1)" by simp
  moreover have "unat (of_nat (offset - 1) :: 64 word) = offset - 1" "unat (of_nat produced :: 64 word) = produced"
    using assms by (simp_all add: unat_of_nat del: of_nat_diff)
  ultimately have "of_nat produced \<le> (of_nat offset - 1 :: 64 word) \<longleftrightarrow> produced \<le> offset - 1"
    by (simp only: word_le_nat_alt)
  with False show ?thesis by auto
qed

lemma aw_rep_advance:
  assumes "aw_rep M L out w" "length m = length (aw_mem w)" "length out + n \<le> L" "length out' = length out + n"
    and "take (length out') m = out'" "drop L m = drop L (aw_mem w)"
  shows "aw_rep M L out' (w\<lparr>aw_mem := m, aw_op := aw_op w + n\<rparr>)"
  using assms by (simp add: aw_rep_def)

lemma aw_Append:
  assumes "aw_rep M L out w" "n \<le> length m"
  shows "length out + n \<le> L \<Longrightarrow> \<exists>w'. ArrayWriter_Append m n w = Some (True, w') \<and> aw_rep M L (out @ take n m) w'"
    and "L < length out + n \<Longrightarrow> ArrayWriter_Append m n w = Some (False, w)"
proof -
  have r: "mem_read m 0 n = Some (take n m)" using assms(2) by (simp add: mem_simps)
  show "length out + n \<le> L \<Longrightarrow> \<exists>w'. ArrayWriter_Append m n w = Some (True, w') \<and> aw_rep M L (out @ take n m) w'"
    using assms r by (auto simp: ArrayWriter_Append_def aw_rep_def mem_simps Let_def)
  show "L < length out + n \<Longrightarrow> ArrayWriter_Append m n w = Some (False, w)"
    using assms by (auto simp: ArrayWriter_Append_def aw_rep_def Let_def)
qed

lemma two_words:
  assumes "16 \<le> length src" and "op + 16 \<le> length m"
  shows "\<exists>m1. UnalignedCopy64 src 0 m op = Some m1 \<and>
     UnalignedCopy64 src 8 m1 (op + 8) = Some (take op m @ take 16 src @ drop (op + 16) m)"
proof -
  let ?m1 = "take op m @ take 8 src @ drop (op + 8) m"
  have 1: "UnalignedCopy64 src 0 m op = Some ?m1"
    using assms by (simp add: UnalignedCopy64_eq mem_simps)
  have "UnalignedCopy64 src 8 ?m1 (op + 8) = Some (take op m @ (take 8 src @ take 8 (drop 8 src)) @ drop (op + 16) m)"
    using assms by (simp add: UnalignedCopy64_eq mem_simps add.commute)
  moreover have "take 8 src @ take 8 (drop 8 src) = take 16 src"
    using take_add [of 8 8 src] by simp
  ultimately show ?thesis using 1 by simp
qed

lemma aw_TryFastAppend:
  assumes "aw_rep M L out w" "avail \<le> length m" "1 \<le> n"
  shows "ArrayWriter_TryFastAppend m avail n w = Some (False, w) \<or>
      (\<exists>w'. ArrayWriter_TryFastAppend m avail n w = Some (True, w') \<and> n \<le> 60 \<and> n + kMaximumTagLength \<le> avail \<and>
        aw_rep M L (out @ take n m) w')"
proof (cases "n \<le> 16 \<and> 16 + kMaximumTagLength \<le> avail \<and> 16 \<le> L - length out")
  case True
  have "16 \<le> length m" "aw_op w + 16 \<le> length (aw_mem w)" using True assms by (auto simp: aw_rep_def)
  from two_words [OF this] obtain m1 where c: "UnalignedCopy64 m 0 (aw_mem w) (aw_op w) = Some m1"
    "UnalignedCopy64 m 8 m1 (aw_op w + 8) = Some (take (aw_op w) (aw_mem w) @ take 16 m @ drop (aw_op w + 16) (aw_mem w))"
    by blast
  let ?w = "w\<lparr>aw_mem := take (aw_op w) (aw_mem w) @ take 16 m @ drop (aw_op w + 16) (aw_mem w), aw_op := aw_op w + n\<rparr>"
  have "aw_rep M L (out @ take n m) ?w"
    using True assms by (intro aw_rep_advance [OF assms(1)]) (auto simp: aw_rep_def min_def)
  with c True assms(1) show ?thesis
    by (auto simp: ArrayWriter_TryFastAppend_def aw_rep_def Let_def)
next
  case False
  with assms(1) show ?thesis by (auto simp: ArrayWriter_TryFastAppend_def aw_rep_def Let_def)
qed

lemma aw_rep_copy:
  assumes "aw_rep M L out w" "0 < off" "off \<le> length out" "length out + n \<le> L"
    and "filled_to (repeated off out) m (length out + n)" "length m = L"
  shows "aw_rep M L (copy_from off n out) (w\<lparr>aw_mem := m @ drop L (aw_mem w), aw_op := aw_op w + n\<rparr>)"
  using filled_copy_from [OF assms(2,3,5)] assms by (intro aw_rep_advance [OF assms(1)]) (simp_all add: aw_rep_def)

lemma aw_AppendFromSelf_ok:
  assumes rep: "aw_rep M L out w" and n: "1 \<le> n" "n \<le> 64" and off: "0 < off" "off \<le> length out"
    and fits: "length out + n \<le> L"
  shows "\<exists>w'. ArrayWriter_AppendFromSelf off n w = Some (True, w') \<and> aw_rep M L (copy_from off n out) w'"
proof -
  let ?m = "take L (aw_mem w)" and ?t = "drop L (aw_mem w)" and ?p = "repeated off out" and ?op = "length out" and ?src = "length out - off"
  have w: "aw_op w = ?op" "aw_base w = 0" "aw_op_limit w = L" "length ?m = L" "L < 2 ^ 32"
    and f: "filled_to ?p ?m ?op"
    using rep filled_start [of out ?m off] by (auto simp: aw_rep_def min_def)
  have mem: "aw_mem w = ?m @ ?t" by simp
  have test: "\<not> of_nat ?op \<le> (of_nat off - 1 :: 64 word)"
    using offset_test [of ?op off] off fits w(5) by simp
  have src: "?src + off = ?op" using off by simp
  have per: "?src \<le> j \<Longrightarrow> ?p (j + off) = ?p j" for j using repeated_period [OF off] .
  consider (words) "n \<le> 16 \<and> 8 \<le> off \<and> 16 \<le> L - ?op"
    | (fast) "\<not> (n \<le> 16 \<and> 8 \<le> off \<and> 16 \<le> L - ?op)" "n + kMaxIncrementCopyOverflow \<le> L - ?op"
    | (slow) "\<not> (n \<le> 16 \<and> 8 \<le> off \<and> 16 \<le> L - ?op)" "\<not> n + kMaxIncrementCopyOverflow \<le> L - ?op"
    by blast
  then show ?thesis
  proof cases
    case words
    then have room: "?src + 8 \<le> length ?m" "?op + 8 \<le> length ?m" "?src + 8 \<le> ?op" "?op + 16 \<le> length ?m"
      using w(4) off by linarith+
    have p1: "?p (?op + i) = ?p (?src + i)" for i using per [of "?src + i"] src by (simp add: ac_simps)
    from copy64_filled [OF f room(1,2) _ room(3) p1] obtain m1 where
      m1: "UnalignedCopy64 ?m ?src ?m ?op = Some m1" "filled_to ?p m1 (?op + 8)" "length m1 = length ?m" by auto
    have p2: "?p (?op + 8 + i) = ?p (?src + 8 + i)" for i using p1 [of "8 + i"] by (simp add: ac_simps)
    have room2: "?src + 8 + 8 \<le> length m1" "?op + 8 + 8 \<le> length m1" "?src + 8 + 8 \<le> ?op + 8"
      using room m1(3) by simp_all
    from copy64_filled [OF m1(2) room2(1,2) _ room2(3) p2] obtain m2 where
      m2: "UnalignedCopy64 m1 (?src + 8) m1 (?op + 8) = Some m2" "filled_to ?p m2 (?op + 8 + 8)"
        "length m2 = length m1" by auto
    have "filled_to ?p m2 (?op + n)" using m2(2) words by (elim filled_to_mono) simp
    from aw_rep_copy [OF rep off fits this] m2(3) m1(3) w(1,4)
    have r: "aw_rep M L (copy_from off n out) (w\<lparr>aw_mem := m2 @ ?t, aw_op := ?op + n\<rparr>)" by simp
    have "UnalignedCopy64 (aw_mem w) ?src (aw_mem w) ?op = Some (m1 @ ?t)"
      "UnalignedCopy64 (m1 @ ?t) (?src + 8) (m1 @ ?t) (?op + 8) = Some (m2 @ ?t)"
      using copy64_frame [OF m1(1), of ?t] copy64_frame [OF m2(1), of ?t] by (simp_all flip: mem)
    with r show ?thesis using words test w(1,2,3)
      by (simp add: ArrayWriter_AppendFromSelf_def Let_def)
  next
    case fast
    have "?op + n + kMaxIncrementCopyOverflow \<le> length ?m" using fast(2) fits w(4) by linarith
    from IncrementalCopyFastPath_filled [OF f off(1) src [symmetric] n(1) this per] obtain m1 where
      m1: "IncrementalCopyFastPath ?m ?src ?op (int n) = Some m1" "filled_to ?p m1 (?op + n)" "length m1 = length ?m"
      by blast
    from aw_rep_copy [OF rep off fits m1(2)] m1(3) w(1,4)
    have "aw_rep M L (copy_from off n out) (w\<lparr>aw_mem := m1 @ ?t, aw_op := ?op + n\<rparr>)" by simp
    moreover have "IncrementalCopyFastPath (aw_mem w) ?src ?op (int n) = Some (m1 @ ?t)"
      using IncrementalCopyFastPath_frame [OF m1(1), of ?t] by (simp flip: mem)
    hence "ArrayWriter_AppendFromSelf off n w = Some (True, w\<lparr>aw_mem := m1 @ ?t, aw_op := ?op + n\<rparr>)"
      unfolding ArrayWriter_AppendFromSelf_def Let_def w(1,2,3) diff_zero if_not_P [OF test] if_not_P [OF fast(1)]
        if_P [OF fast(2)] by simp
    ultimately show ?thesis by blast
  next
    case slow
    have "?op + n \<le> length ?m" using fits w(4) by linarith
    from IncrementalCopy_filled [OF f off(1) src n(1) this per] obtain m1 where
      m1: "IncrementalCopy ?m ?src ?op n = Some m1" "filled_to ?p m1 (?op + n)" "length m1 = length ?m"
      by blast
    from aw_rep_copy [OF rep off fits m1(2)] m1(3) w(1,4)
    have "aw_rep M L (copy_from off n out) (w\<lparr>aw_mem := m1 @ ?t, aw_op := ?op + n\<rparr>)" by simp
    moreover have "IncrementalCopy (aw_mem w) ?src ?op n = Some (m1 @ ?t)" "\<not> L - ?op < n"
      using IncrementalCopy_frame [OF m1(1), of ?t] fits by (simp_all flip: mem)
    hence "ArrayWriter_AppendFromSelf off n w = Some (True, w\<lparr>aw_mem := m1 @ ?t, aw_op := ?op + n\<rparr>)"
      unfolding ArrayWriter_AppendFromSelf_def Let_def w(1,2,3) diff_zero if_not_P [OF test] if_not_P [OF slow(1)]
        if_not_P [OF slow(2)] by simp
    ultimately show ?thesis by blast
  qed
qed

lemma aw_AppendFromSelf_bad:
  assumes "aw_rep M L out w" "1 \<le> n" "off < 2 ^ 33" "off = 0 \<or> length out < off \<or> L < length out + n"
  shows "ArrayWriter_AppendFromSelf off n w = Some (False, w)"
proof -
  have w: "aw_op w = length out" "aw_base w = 0" "aw_op_limit w = L" "length out \<le> L" "L < 2 ^ 32"
    using assms(1) by (auto simp: aw_rep_def)
  have "of_nat (length out) \<le> (of_nat off - 1 :: 64 word) \<longleftrightarrow> off = 0 \<or> length out < off"
    using assms(3) w by (intro offset_test) simp_all
  with assms(2,4) w show ?thesis by (auto simp: ArrayWriter_AppendFromSelf_def Let_def)
qed

interpretation array: decompression_writer array_writer "aw_start M" "aw_rep M" for M
proof
  show "aw_start M L w \<Longrightarrow> aw_rep M L [] (SetExpectedLength array_writer L w)" for L w
    by (simp add: aw_start_def aw_rep_def array_writer_def ArrayWriter_SetExpectedLength_def)
  show "aw_rep M L out w \<Longrightarrow> length out \<le> L \<and> L < 2 ^ 32" for M L out w
    by (simp add: aw_rep_def)
  show "aw_rep M L out w \<Longrightarrow> CheckLength array_writer w \<longleftrightarrow> length out = L" for M L out w
    by (simp add: aw_rep_def array_writer_def ArrayWriter_CheckLength_def)
  show "TryFastAppend array_writer m avail n w = Some (False, w) \<or>
      (\<exists>w'. TryFastAppend array_writer m avail n w = Some (True, w') \<and> n \<le> 60 \<and>
        n + kMaximumTagLength \<le> avail \<and> aw_rep M L (out @ take n m) w')"
    if "aw_rep M L out w" "avail \<le> length m" "1 \<le> n" for M L out w avail m n
    using aw_TryFastAppend [OF that] by (simp add: array_writer_def)
  show "\<exists>w'. AppendFromSelf array_writer off n w = Some (False, w')"
    if "aw_rep M L out w" "1 \<le> n" "off < 2 ^ 33" "off = 0 \<or> length out < off \<or> L < length out + n" for M L out w n off
    using aw_AppendFromSelf_bad [OF that] by (simp add: array_writer_def)
qed (auto simp: array_writer_def aw_Append aw_AppendFromSelf_ok)

section \<open>SnappyDecompressionValidator\<close>

record SnappyDecompressionValidator =
  dv_expected :: nat
  dv_produced :: nat

definition SnappyDecompressionValidator_init :: SnappyDecompressionValidator where
  "SnappyDecompressionValidator_init = \<lparr>dv_expected = 0, dv_produced = 0\<rparr>"

definition Validator_SetExpectedLength ::
  "nat \<Rightarrow> SnappyDecompressionValidator \<Rightarrow> SnappyDecompressionValidator" where
  "Validator_SetExpectedLength len w = w\<lparr>dv_expected := len\<rparr>"

definition Validator_CheckLength :: "SnappyDecompressionValidator \<Rightarrow> bool" where
  "Validator_CheckLength w \<longleftrightarrow> dv_expected w = dv_produced w"

definition Validator_Append ::
  "bytes \<Rightarrow> nat \<Rightarrow> SnappyDecompressionValidator \<Rightarrow> (bool \<times> SnappyDecompressionValidator) option" where
  "Validator_Append ip len w =
     (let w = w\<lparr>dv_produced := dv_produced w + len\<rparr> in Some (dv_produced w \<le> dv_expected w, w))"

definition Validator_TryFastAppend ::
  "bytes \<Rightarrow> nat \<Rightarrow> nat \<Rightarrow> SnappyDecompressionValidator \<Rightarrow> (bool \<times> SnappyDecompressionValidator) option" where
  "Validator_TryFastAppend ip available len w = Some (False, w)"

definition Validator_AppendFromSelf ::
  "nat \<Rightarrow> nat \<Rightarrow> SnappyDecompressionValidator \<Rightarrow> (bool \<times> SnappyDecompressionValidator) option" where
  "Validator_AppendFromSelf offset len w =
     (if of_nat (dv_produced w) \<le> (of_nat offset - 1 :: 64 word) then Some (False, w)
      else
        (let w = w\<lparr>dv_produced := dv_produced w + len\<rparr> in Some (dv_produced w \<le> dv_expected w, w)))"

definition validator :: "SnappyDecompressionValidator writer_ops" where
  "validator =
     \<lparr>SetExpectedLength = Validator_SetExpectedLength, CheckLength = Validator_CheckLength,
      WAppend = Validator_Append, TryFastAppend = Validator_TryFastAppend,
      AppendFromSelf = Validator_AppendFromSelf\<rparr>"

definition dv_start :: "nat \<Rightarrow> SnappyDecompressionValidator \<Rightarrow> bool" where
  "dv_start L w \<longleftrightarrow> dv_produced w = 0 \<and> L < 2 ^ 32"

definition dv_rep :: "nat \<Rightarrow> bytes \<Rightarrow> SnappyDecompressionValidator \<Rightarrow> bool" where
  "dv_rep L out w \<longleftrightarrow> dv_expected w = L \<and> dv_produced w = length out \<and> length out \<le> L \<and> L < 2 ^ 32"

lemma dv_AppendFromSelf:
  assumes "dv_rep L out w" "off < 2 ^ 33"
  shows "Validator_AppendFromSelf off n w =
    (if off = 0 \<or> length out < off then Some (False, w)
     else Some (length out + n \<le> L, w\<lparr>dv_produced := length out + n\<rparr>))"
  using assms offset_test [of "length out" off]
  by (simp add: Validator_AppendFromSelf_def dv_rep_def Let_def)

interpretation validation: decompression_writer validator dv_start dv_rep
proof
  show "dv_start L w \<Longrightarrow> dv_rep L [] (SetExpectedLength validator L w)" for L w
    by (simp add: dv_start_def dv_rep_def validator_def Validator_SetExpectedLength_def)
  show "dv_rep L out w \<Longrightarrow> length out \<le> L \<and> L < 2 ^ 32" for M L out w
    by (simp add: dv_rep_def)
  show "dv_rep L out w \<Longrightarrow> CheckLength validator w \<longleftrightarrow> length out = L" for M L out w
    by (auto simp: dv_rep_def validator_def Validator_CheckLength_def)
  show "\<exists>w'. WAppend validator m n w = Some (True, w') \<and> dv_rep L (out @ take n m) w'"
    if "dv_rep L out w" "n \<le> length m" "length out + n \<le> L" for M L out w n m
    using that by (simp add: validator_def Validator_Append_def dv_rep_def Let_def)
  show "\<exists>w'. WAppend validator m n w = Some (False, w')"
    if "dv_rep L out w" "n \<le> length m" "L < length out + n" for M L out w n m
    using that by (simp add: validator_def Validator_Append_def dv_rep_def Let_def)
  show "\<exists>w'. AppendFromSelf validator off n w = Some (True, w') \<and> dv_rep L (copy_from off n out) w'"
    if "dv_rep L out w" "1 \<le> n" "n \<le> 64" "0 < off" "off \<le> length out" "length out + n \<le> L" for M L out w n off
    using that dv_AppendFromSelf [of L out w off n] by (simp add: validator_def dv_rep_def)
  show "\<exists>w'. AppendFromSelf validator off n w = Some (False, w')"
    if "dv_rep L out w" "off < 2 ^ 33" "off = 0 \<or> length out < off \<or> L < length out + n" for M L out w n off
    using that dv_AppendFromSelf [of L out w off n] by (auto simp: validator_def)
qed (auto simp: validator_def Validator_TryFastAppend_def)

end
