(* ===== verification/SnappyDecompress.thy ===== *)
theory SnappyDecompress
  imports SnappyWriters SnappySinkSource SnappyVarint
begin

text \<open>
  Class \<open>SnappyDecompressor\<close> and \<open>InternalUncompress\<close> of \<open>snappy.cc\<close>, over any source and
  any writer.
\<close>

unbundle bit_operations_syntax

section \<open>State\<close>

text \<open>
  \<open>d_buf\<close> is the memory that \<open>ip_\<close> and \<open>ip_limit_\<close> point into: the region last peeked from
  the reader, or \<open>scratch_\<close>. The local variable \<open>ip\<close> of \<open>DecompressAllTags\<close> and the member
  \<open>ip_\<close> it is stored to before every refill are the one field \<open>d_ip\<close>.
\<close>

record 's SnappyDecompressor =
  d_reader :: 's
  d_buf :: bytes
  d_ip :: nat
  d_ip_limit :: nat
  d_peeked :: "32 word"
  d_eof :: bool
  d_scratch :: bytes

text \<open>The constructor; \<open>scratch_\<close> starts with whatever its memory holds.\<close>

definition SnappyDecompressor_init :: "bytes \<Rightarrow> 's \<Rightarrow> 's SnappyDecompressor" where
  "SnappyDecompressor_init scratch reader =
     \<lparr>d_reader = reader, d_buf = [], d_ip = 0, d_ip_limit = 0, d_peeked = 0, d_eof = False,
      d_scratch = scratch\<rparr>"

definition SnappyDecompressor_destroy :: "'s source_ops \<Rightarrow> 's SnappyDecompressor \<Rightarrow> 's" where
  "SnappyDecompressor_destroy src d = Skip src (unat (d_peeked d)) (d_reader d)"

section \<open>The length prefix\<close>

function ReadUncompressedLength_loop ::
  "'s source_ops \<Rightarrow> 's \<Rightarrow> 32 word \<Rightarrow> nat \<Rightarrow> 32 word option \<times> 's" where
  "ReadUncompressedLength_loop src s result shift =
     (if 32 \<le> shift then (None, s)
      else
        (case Peek src s of
           ([], s) \<Rightarrow> (None, s)
         | (c # _, s) \<Rightarrow>
             (let s = Skip src 1 s; result = result OR push_bit shift (ucast (c AND 0x7f))
              in if c < 128 then (Some result, s)
                 else ReadUncompressedLength_loop src s result (shift + 7))))"
  by pat_completeness auto
termination
  by (relation "measure (\<lambda>(src, s, result, shift). 32 - shift)") auto

declare ReadUncompressedLength_loop.simps [simp del]

definition ReadUncompressedLength ::
  "'s source_ops \<Rightarrow> 's SnappyDecompressor \<Rightarrow> 32 word option \<times> 's SnappyDecompressor" where
  "ReadUncompressedLength src d =
     (let (r, s) = ReadUncompressedLength_loop src (d_reader d) 0 0 in (r, d\<lparr>d_reader := s\<rparr>))"

section \<open>Refilling\<close>

text \<open>The loop that stitches a tag together in \<open>scratch_\<close>\<close>

partial_function (option) stitch ::
  "'s source_ops \<Rightarrow> 's \<Rightarrow> bytes \<Rightarrow> nat \<Rightarrow> nat \<Rightarrow> (bool \<times> 's \<times> bytes) option" where
  "stitch src s scratch nbuf needed =
     (if nbuf < needed
      then
        (case Peek src s of (r, s) \<Rightarrow>
          if r = [] then Some (False, s, scratch)
          else
            (let to_add = min (needed - nbuf) (unat (of_nat (length r) :: 32 word)) in
             do {
               bs \<leftarrow> mem_read r 0 to_add;
               scratch \<leftarrow> mem_write scratch nbuf bs;
               stitch src (Skip src to_add s) scratch (nbuf + to_add) needed
             }))
      else
        do {
          assert_that (nbuf = needed);
          Some (True, s, scratch)
        })"

text \<open>\<open>RefillTag\<close>, from where the next tag byte is known to be buffered\<close>

definition RefillTag_buffered ::
  "'s source_ops \<Rightarrow> 's SnappyDecompressor \<Rightarrow> (bool \<times> 's SnappyDecompressor) option" where
  "RefillTag_buffered src d =
     do {
       assert_that (d_ip d < d_ip_limit d);
       c \<leftarrow> mem_byte (d_buf d) (d_ip d);
       let entry = char_table ! unat c;
       let needed = drop_bit 11 entry + 1;
       assert_that (needed \<le> length (d_scratch d));
       let nbuf = unat (of_nat (d_ip_limit d - d_ip d) :: 32 word);
       if nbuf < needed then
         do {
           bs \<leftarrow> mem_read (d_buf d) (d_ip d) nbuf;
           scratch \<leftarrow> mem_write (d_scratch d) 0 bs;
           let s = Skip src (unat (d_peeked d)) (d_reader d);
           (ok, s, scratch) \<leftarrow> stitch src s scratch nbuf needed;
           let d = d\<lparr>d_reader := s, d_peeked := 0, d_scratch := scratch\<rparr>;
           if \<not> ok then Some (False, d)
           else Some (True, d\<lparr>d_buf := scratch, d_ip := 0, d_ip_limit := needed\<rparr>)
         }
       else if nbuf < kMaximumTagLength then
         do {
           bs \<leftarrow> mem_read (d_buf d) (d_ip d) nbuf;
           scratch \<leftarrow> mem_write (d_scratch d) 0 bs;
           let s = Skip src (unat (d_peeked d)) (d_reader d);
           Some (True, d\<lparr>d_reader := s, d_peeked := 0, d_scratch := scratch, d_buf := scratch,
                         d_ip := 0, d_ip_limit := nbuf\<rparr>)
         }
       else Some (True, d)
     }"

definition RefillTag ::
  "'s source_ops \<Rightarrow> 's SnappyDecompressor \<Rightarrow> (bool \<times> 's SnappyDecompressor) option" where
  "RefillTag src d =
     (if d_ip d = d_ip_limit d
      then
        (case Peek src (Skip src (unat (d_peeked d)) (d_reader d)) of (r, s) \<Rightarrow>
          (let d = d\<lparr>d_reader := s, d_peeked := of_nat (length r)\<rparr> in
           if r = [] then Some (False, d\<lparr>d_eof := True\<rparr>)
           else RefillTag_buffered src (d\<lparr>d_buf := r, d_ip := 0, d_ip_limit := length r\<rparr>)))
      else RefillTag_buffered src d)"

definition MAYBE_REFILL ::
  "'s source_ops \<Rightarrow> 's SnappyDecompressor \<Rightarrow> (bool \<times> 's SnappyDecompressor) option" where
  "MAYBE_REFILL src d =
     (if d_ip_limit d - d_ip d < kMaximumTagLength then RefillTag src d else Some (True, d))"

section \<open>Tags\<close>

text \<open>
  The part of a literal that spans regions: regions are appended whole until the rest of
  the literal is buffered. The flag tells whether to go on.
\<close>

partial_function (option) literal_regions ::
  "'s source_ops \<Rightarrow> 'w writer_ops \<Rightarrow> nat \<Rightarrow> 's SnappyDecompressor \<Rightarrow> 'w \<Rightarrow>
    (bool \<times> nat \<times> 's SnappyDecompressor \<times> 'w) option" where
  "literal_regions src wr literal_length d w =
     (let avail = d_ip_limit d - d_ip d in
      if avail < literal_length
      then
        do {
          (ok, w) \<leftarrow> WAppend wr (drop (d_ip d) (d_buf d)) avail w;
          if \<not> ok then Some (False, literal_length, d, w)
          else
            (case Peek src (Skip src (unat (d_peeked d)) (d_reader d)) of (r, s) \<Rightarrow>
              (let d = d\<lparr>d_reader := s, d_buf := r, d_ip := 0, d_peeked := of_nat (length r)\<rparr> in
               if r = [] then Some (False, literal_length - avail, d, w)
               else literal_regions src wr (literal_length - avail) (d\<lparr>d_ip_limit := length r\<rparr>) w))
        }
      else Some (True, literal_length, d, w))"

definition append_literal ::
  "'s source_ops \<Rightarrow> 'w writer_ops \<Rightarrow> nat \<Rightarrow> 's SnappyDecompressor \<Rightarrow> 'w \<Rightarrow>
    (bool \<times> 's SnappyDecompressor \<times> 'w) option" where
  "append_literal src wr literal_length d w =
     do {
       (go_on, literal_length, d, w) \<leftarrow> literal_regions src wr literal_length d w;
       if \<not> go_on then Some (False, d, w)
       else
         do {
           (ok, w) \<leftarrow> WAppend wr (drop (d_ip d) (d_buf d)) literal_length w;
           if \<not> ok then Some (False, d, w)
           else Some (True, d\<lparr>d_ip := d_ip d + literal_length\<rparr>, w)
         }
     }"

text \<open>The length of a literal whose length follows the tag: 32-bit arithmetic\<close>

definition long_literal_length ::
  "nat \<Rightarrow> 's SnappyDecompressor \<Rightarrow> (nat \<times> 's SnappyDecompressor) option" where
  "long_literal_length literal_length d =
     (if 61 \<le> literal_length
      then
        do {
          let literal_length_length = literal_length - 60;
          v \<leftarrow> Load32 (d_buf d) (d_ip d);
          Some (unat ((v AND wordmask ! literal_length_length) + 1),
                d\<lparr>d_ip := d_ip d + literal_length_length\<rparr>)
        }
      else Some (literal_length, d))"

partial_function (option) tag_loop ::
  "'s source_ops \<Rightarrow> 'w writer_ops \<Rightarrow> 's SnappyDecompressor \<Rightarrow> 'w \<Rightarrow> ('s SnappyDecompressor \<times> 'w) option" where
  "tag_loop src wr d w =
     do {
       b \<leftarrow> mem_byte (d_buf d) (d_ip d);
       let c = unat b;
       let d = d\<lparr>d_ip := d_ip d + 1\<rparr>;
       if c AND 0x3 = LITERAL then
         do {
           let literal_length = drop_bit 2 c + 1;
           (ok, w) \<leftarrow> TryFastAppend wr (drop (d_ip d) (d_buf d)) (d_ip_limit d - d_ip d) literal_length w;
           if ok
           then
             do {
               assert_that (literal_length < 61);
               tag_loop src wr (d\<lparr>d_ip := d_ip d + literal_length\<rparr>) w
             }
           else
             do {
               (literal_length, d) \<leftarrow> long_literal_length literal_length d;
               (ok, d, w) \<leftarrow> append_literal src wr literal_length d w;
               if \<not> ok then Some (d, w)
               else
                 do {
                   (ok, d) \<leftarrow> MAYBE_REFILL src d;
                   if \<not> ok then Some (d, w) else tag_loop src wr d w
                 }
             }
         }
       else
         do {
           let entry = char_table ! c;
           v \<leftarrow> Load32 (d_buf d) (d_ip d);
           let trailer = v AND wordmask ! (drop_bit 11 entry);
           let length = entry AND 0xff;
           let d = d\<lparr>d_ip := d_ip d + drop_bit 11 entry\<rparr>;
           let copy_offset = (of_nat (entry AND 0x700) :: 32 word);
           (ok, w) \<leftarrow> AppendFromSelf wr (unat (copy_offset + trailer)) length w;
           if \<not> ok then Some (d, w)
           else
             do {
               (ok, d) \<leftarrow> MAYBE_REFILL src d;
               if \<not> ok then Some (d, w) else tag_loop src wr d w
             }
         }
     }"

definition DecompressAllTags ::
  "'s source_ops \<Rightarrow> 'w writer_ops \<Rightarrow> 's SnappyDecompressor \<Rightarrow> 'w \<Rightarrow> ('s SnappyDecompressor \<times> 'w) option" where
  "DecompressAllTags src wr d w =
     do {
       (ok, d) \<leftarrow> MAYBE_REFILL src d;
       if \<not> ok then Some (d, w) else tag_loop src wr d w
     }"

definition InternalUncompressAllTags ::
  "'s source_ops \<Rightarrow> 'w writer_ops \<Rightarrow> 's SnappyDecompressor \<Rightarrow> 'w \<Rightarrow> 32 word \<Rightarrow>
    (bool \<times> 's SnappyDecompressor \<times> 'w) option" where
  "InternalUncompressAllTags src wr d w uncompressed_len =
     do {
       let w = SetExpectedLength wr (unat uncompressed_len) w;
       (d, w) \<leftarrow> DecompressAllTags src wr d w;
       Some (d_eof d \<and> CheckLength wr w, d, w)
     }"

definition InternalUncompress ::
  "bytes \<Rightarrow> 's source_ops \<Rightarrow> 'w writer_ops \<Rightarrow> 's \<Rightarrow> 'w \<Rightarrow> (bool \<times> 's \<times> 'w) option" where
  "InternalUncompress scratch src wr r w =
     (case ReadUncompressedLength src (SnappyDecompressor_init scratch r) of
        (None, d) \<Rightarrow> Some (False, SnappyDecompressor_destroy src d, w)
      | (Some uncompressed_len, d) \<Rightarrow>
          do {
            (ok, d, w) \<leftarrow> InternalUncompressAllTags src wr d w uncompressed_len;
            Some (ok, SnappyDecompressor_destroy src d, w)
          })"

end
