(* ===== verification/SnappyRefillSpec.thy ===== *)
theory SnappyRefillSpec
  imports SnappyDecompress
begin

text \<open>
  The decompressor's side of the source: the tags and what the table gives for them, refilling,
  and one round of the loop over the tags for any writer. What the decompressor has buffered
  followed by what its source still has is always the rest of the stream (\<open>holds\<close>).
\<close>

unbundle bit_operations_syntax

section \<open>Tags\<close>

definition tag_needed :: "byte \<Rightarrow> nat" where
  "tag_needed c = drop_bit 11 (char_table ! unat c) + 1"

lemma and_700: "x AND 0x700 = 256 * (x div 256 mod 8)" for x :: nat
proof -
  have "x AND push_bit 8 k = push_bit 8 (drop_bit 8 x AND k)" for k
    by (rule bit_eqI) (auto simp: bit_and_iff bit_push_bit_iff bit_drop_bit_eq)
  from this [of 7] show ?thesis by (simp add: and_masks push_bit_eq_mult drop_bit_eq_div)
qed

lemma entry_fields:
  fixes len high extra e :: nat
  assumes "len < 256" "high < 8" "e = len + 256 * high + 2048 * extra"
  shows "drop_bit 11 e = extra" "e AND 0xff = len" "e AND 0x700 = 256 * high"
proof -
  have "len + 256 * high < 2048" using assms by linarith
  then show "drop_bit 11 e = extra" unfolding assms(3) by (simp add: drop_bit_eq_div)
  have "e = len + 256 * (high + 8 * extra)" using assms(3) by simp
  then have "e mod 256 = len" "e div 256 = high + 8 * extra"
    using assms(1) by (simp_all only: mod_mult_self2 mod_less div_mult_self2 zero_neq_numeral div_less not_False_eq_True)
  then show "e AND 0xff = len" "e AND 0x700 = 256 * high" using assms(2) by (simp_all add: and_masks and_700)
qed

lemma literal_entry: "c < 256 \<Longrightarrow> c mod 4 = 0 \<Longrightarrow> drop_bit 11 (char_table ! c) = (if c div 4 < 60 then 0 else c div 4 - 59)"
  by (rule entry_fields(1) [of "if c div 4 < 60 then c div 4 + 1 else 1" 0])
    (simp_all add: char_table_nth table_entry_def)

lemma copy1_entry:
  assumes "c < 256" "c mod 4 = 1"
  shows "drop_bit 11 (char_table ! c) = 1" "char_table ! c AND 0xff = 4 + c div 4 mod 8"
    "char_table ! c AND 0x700 = 256 * (c div 32)"
proof -
  have "c div 4 mod 8 < 8" by simp
  then have "4 + c div 4 mod 8 < 256" by linarith
  moreover have "c div 32 < 8" using assms(1) by simp
  moreover have "char_table ! c = (4 + c div 4 mod 8) + 256 * (c div 32) + 2048 * 1"
    using assms by (simp add: char_table_nth table_entry_def)
  ultimately show "drop_bit 11 (char_table ! c) = 1" "char_table ! c AND 0xff = 4 + c div 4 mod 8"
    "char_table ! c AND 0x700 = 256 * (c div 32)" by (rule entry_fields)+
qed

lemma copy24_entry:
  assumes "c < 256" "c mod 4 = 2 \<or> c mod 4 = 3"
  shows "drop_bit 11 (char_table ! c) = (if c mod 4 = 2 then 2 else 4)"
    "char_table ! c AND 0xff = c div 4 + 1" "char_table ! c AND 0x700 = 0"
proof -
  have "c div 4 + 1 < 256" "(0::nat) < 8" using assms(1) by simp_all
  moreover have "char_table ! c = (c div 4 + 1) + 256 * 0 + 2048 * (if c mod 4 = 2 then 2 else 4)"
    using assms by (auto simp: char_table_nth table_entry_def)
  ultimately have "drop_bit 11 (char_table ! c) = (if c mod 4 = 2 then 2 else 4)"
    "char_table ! c AND 0xff = c div 4 + 1" "char_table ! c AND 0x700 = 256 * 0"
    by (rule entry_fields)+
  then show "drop_bit 11 (char_table ! c) = (if c mod 4 = 2 then 2 else 4)"
    "char_table ! c AND 0xff = c div 4 + 1" "char_table ! c AND 0x700 = 0" by simp_all
qed

lemma tag_kind: "unat (c :: byte) mod 4 = 0 \<or> unat c mod 4 = 1 \<or> unat c mod 4 = 2 \<or> unat c mod 4 = 3"
  by linarith

lemma tag_needed_le: "tag_needed c \<le> kMaximumTagLength"
proof -
  have c: "unat c < 256" by simp
  then have "unat c div 4 < 64" by linarith
  show ?thesis
    using tag_kind [of c] literal_entry [OF c(1)] copy1_entry(1) [OF c(1)] copy24_entry(1) [OF c(1)] \<open>unat c div 4 < 64\<close>
    by (cases "unat c mod 4 = 0") (auto simp: tag_needed_def split: if_splits)
qed

text \<open>A stream that ends inside the tag of its first element has no first element.\<close>

lemma parse_truncated: "length r + 1 < tag_needed c \<Longrightarrow> parse_element wr (c # r) = None"
proof -
  assume l: "length r + 1 < tag_needed c"
  have c: "unat c < 256" by simp
  show ?thesis
    using tag_kind [of c] literal_entry [OF c] copy1_entry(1) [OF c] copy24_entry(1) [OF c] l
    by (elim disjE) (auto simp: tag_needed_def parse_element_def take_copy_def Let_def split: if_splits)
qed

section \<open>Masks\<close>

lemma wordmask_low:
  assumes "k \<le> 4"
  shows "unat (of_nat n AND wordmask ! k :: 32 word) = n mod 256 ^ k"
proof -
  have "wordmask ! k = mask (8 * k)"
    using assms by (auto simp: wordmask_def mask_eq_exp_minus_1 numeral_eq_Suc le_Suc_eq)
  then have "(of_nat n AND wordmask ! k :: 32 word) = take_bit (8 * k) (of_nat n)"
    by (simp add: take_bit_eq_mask)
  moreover have "unat (take_bit (8 * k) (of_nat n) :: 32 word) = n mod 256 ^ k"
  proof -
    have "(256::nat) ^ k = 2 ^ (8 * k)" by (simp add: power_mult)
    moreover have "(2::nat) ^ (8 * k) dvd 2 ^ 32" using assms by (intro le_imp_power_dvd) simp
    ultimately show ?thesis
      by (subst unsigned_take_bit_eq) (simp add: take_bit_eq_mod unat_of_nat mod_mod_cancel)
  qed
  ultimately show ?thesis by simp
qed

section \<open>Reading\<close>

text \<open>The length prefix as a function of the bytes alone\<close>

function varint32 :: "bytes \<Rightarrow> 32 word \<Rightarrow> nat \<Rightarrow> (32 word \<times> bytes) option" where
  "varint32 bs result shift =
     (if 32 \<le> shift then None
      else
        (case bs of
           [] \<Rightarrow> None
         | c # bs \<Rightarrow>
             (let result = result OR varint_group c shift
              in if c < 128 then Some (result, bs) else varint32 bs result (shift + 7))))"
  by pat_completeness auto
termination
  by (relation "measure (\<lambda>(bs, result, shift). 32 - shift)") auto

declare varint32.simps [simp del]

lemma varint32_shorter: "varint32 bs result shift = Some (v, rest) \<Longrightarrow> length rest \<le> length bs"
proof (induction bs result shift rule: varint32.induct)
  case (1 bs result shift)
  show ?case
  proof (cases "32 \<le> shift \<or> bs = []")
    case True
    with "1.prems" show ?thesis by (auto simp: varint32.simps [of bs] split: if_splits)
  next
    case False
    then obtain c bs' where bs: "bs = c # bs'" by (cases bs) auto
    show ?thesis
    proof (cases "c < 128")
      case True
      with False "1.prems" bs show ?thesis by (simp add: varint32.simps [of "c # bs'"] Let_def)
    next
      case ge: False
      with False "1.prems" bs have "varint32 bs' (result OR varint_group c shift) (shift + 7) = Some (v, rest)"
        by (simp add: varint32.simps [of "c # bs'"] Let_def)
      with "1.IH" [OF _ bs refl] False ge bs show ?thesis by simp
    qed
  qed
qed

text \<open>What a compressed string means: the announced length, then elements that produce it\<close>

definition stream_output :: "bytes \<Rightarrow> bytes option" where
  "stream_output bs =
     (case varint32 bs 0 0 of
        None \<Rightarrow> None
      | Some (n, rest) \<Rightarrow>
          (case decode wrap32 rest [] of
             None \<Rightarrow> None
           | Some out \<Rightarrow> if length out = unat n then Some out else None))"

lemma varint_group_eq: "varint_group c shift = push_bit shift (ucast (c AND 0x7f))"
proof -
  have "(ucast (c AND 0x7f) :: 32 word) = ucast c AND 127"
    by (rule bit_word_eqI) (auto simp: bit_and_iff bit_ucast_iff dest: bit_imp_le_length)
  then show ?thesis by (simp add: varint_group_def)
qed

context source
begin

lemma read_length:
  assumes "src_inv s"
  shows "\<exists>s'. ReadUncompressedLength_loop src s result shift =
       (map_option fst (varint32 (content s) result shift), s') \<and> src_inv s' \<and>
     (\<forall>v rest. varint32 (content s) result shift = Some (v, rest) \<longrightarrow> content s' = rest)"
  using assms
proof (induction "32 - shift" arbitrary: s result shift rule: less_induct)
  case less
  note loop = ReadUncompressedLength_loop.simps [of src s result shift]
  show ?case
  proof (cases "32 \<le> shift")
    case True
    with less.prems show ?thesis by (simp add: loop varint32.simps [of "content s" result shift])
  next
    case False
    obtain r s1 rest where p: "Peek src s = (r, s1)" "src_inv s1" "content s1 = content s"
      "content s = r @ rest" "r = [] \<Longrightarrow> content s = []"
      using Peek_obtain [OF less.prems] by metis
    show ?thesis
    proof (cases r)
      case Nil
      with p False show ?thesis by (simp add: loop varint32.simps [of "[]"])
    next
      case (Cons c r')
      note spec = varint32.simps [of "c # r' @ rest" result shift]
      let ?s2 = "Skip src 1 s1" and ?res = "result OR varint_group c shift"
      have s2: "src_inv ?s2" "content ?s2 = r' @ rest"
        using Skip [OF p(2), of 1] p(3,4) Cons by simp_all
      show ?thesis
      proof (cases "c < 128")
        case True
        with False Cons p s2 show ?thesis by (simp add: loop spec Let_def varint_group_eq)
      next
        case ge: False
        have "32 - (shift + 7) < 32 - shift" using False by simp
        from less.hyps [OF this s2(1), of ?res] s2(2) ge False Cons p(1,4) show ?thesis
          by (simp add: loop spec Let_def varint_group_eq)
      qed
    qed
  qed
qed

end

section \<open>The invariant\<close>

text \<open>
  \<open>holds d rest\<close>: the bytes still to be decoded are those between \<open>ip_\<close> and \<open>ip_limit_\<close>
  and those of the reader after the ones that were peeked. \<open>ready d\<close>: the next tag is
  buffered whole, and four bytes after it can be read.
\<close>

definition ready :: "'s SnappyDecompressor \<Rightarrow> bool" where
  "ready d \<longleftrightarrow>
     d_ip d < d_ip_limit d \<and> tag_needed (d_buf d ! d_ip d) \<le> d_ip_limit d - d_ip d \<and>
     d_ip d + kMaximumTagLength \<le> length (d_buf d)"

definition window :: "'s SnappyDecompressor \<Rightarrow> bytes" where
  "window d = take (d_ip_limit d - d_ip d) (drop (d_ip d) (d_buf d))"

context source
begin

definition holds :: "'s SnappyDecompressor \<Rightarrow> bytes \<Rightarrow> bool" where
  "holds d rest \<longleftrightarrow>
     src_inv (d_reader d) \<and> d_ip_limit d \<le> length (d_buf d) \<and> d_ip d \<le> d_ip_limit d \<and>
     unat (d_peeked d) \<le> length (content (d_reader d)) \<and> length rest < 2 ^ 32 \<and>
     rest = window d @ drop (unat (d_peeked d)) (content (d_reader d)) \<and>
     length (d_scratch d) = kMaximumTagLength \<and> \<not> d_eof d"

lemma stitch_ok:
  assumes "src_inv s" and "nbuf \<le> needed" "needed \<le> length scratch" and "length (content s) < 2 ^ 32"
  shows "if needed - nbuf \<le> length (content s)
     then \<exists>s' scratch'. stitch src s scratch nbuf needed = Some (True, s', scratch') \<and> src_inv s' \<and>
       content s' = drop (needed - nbuf) (content s) \<and> length scratch' = length scratch \<and>
       take needed scratch' = take nbuf scratch @ take (needed - nbuf) (content s)
     else \<exists>s' scratch'. stitch src s scratch nbuf needed = Some (False, s', scratch')"
  using assms
proof (induction "needed - nbuf" arbitrary: s scratch nbuf rule: less_induct)
  case less
  show ?case
  proof (cases "nbuf < needed")
    case False
    with less.prems show ?thesis by (subst (1 2) stitch.simps) simp
  next
    case True
    obtain r s1 rest where p: "Peek src s = (r, s1)" "src_inv s1" "content s1 = content s"
      "content s = r @ rest" "r = [] \<Longrightarrow> content s = []"
      using Peek_obtain [OF less.prems(1)] by metis
    show ?thesis
    proof (cases "r = []")
      case r: True
      with True p show ?thesis by (subst (1 2) stitch.simps) simp
    next
      case r: False
      let ?n = "min (needed - nbuf) (length r)" and ?s2 = "Skip src (min (needed - nbuf) (length r)) s1"
      have lr: "unat (of_nat (length r) :: 32 word) = length r"
        using p(4) less.prems(4) by (simp add: unat_of_nat)
      have n: "0 < ?n" "?n \<le> length r" using True r by auto
      have rd: "mem_read r 0 ?n = Some (take ?n r)" by (simp add: mem_simps)
      have fits: "nbuf + length (take ?n r) \<le> length scratch" using True less.prems(3) by simp
      let ?sc = "take nbuf scratch @ take ?n r @ drop (nbuf + length (take ?n r)) scratch"
      have w: "mem_write scratch nbuf (take ?n r) = Some ?sc" using fits by (rule mem_write_Some)
      have s2: "src_inv ?s2" "content ?s2 = drop ?n (content s)"
        using Skip [OF p(2), of ?n] p(3,4) by simp_all
      have step: "stitch src s scratch nbuf needed = stitch src ?s2 ?sc (nbuf + ?n) needed"
        using True p(1) r lr rd w by (subst stitch.simps) (simp add: Let_def)
      have sc: "length ?sc = length scratch" "take (nbuf + ?n) ?sc = take nbuf scratch @ take ?n r"
        using fits n less.prems(2,3) True by (simp_all add: min_def)
      have less': "needed - (nbuf + ?n) < needed - nbuf" "nbuf + ?n \<le> needed" "needed \<le> length ?sc"
        "length (content ?s2) < 2 ^ 32"
      proof -
        show "needed - (nbuf + ?n) < needed - nbuf" using n(1) True by linarith
        show "nbuf + ?n \<le> needed" using True by simp
        show "needed \<le> length ?sc" "length (content ?s2) < 2 ^ 32" using less.prems(3,4) sc(1) s2(2) by simp_all
      qed
      have take: "take (nbuf + ?n) ?sc @ take (needed - (nbuf + ?n)) (content ?s2) =
          take nbuf scratch @ take (needed - nbuf) (content s)"
      proof -
        have "take ?n r = take ?n (content s)" using p(4) n(2) by simp
        moreover have "take ?n (content s) @ take (needed - (nbuf + ?n)) (drop ?n (content s)) =
            take (?n + (needed - (nbuf + ?n))) (content s)" by (simp add: take_add)
        moreover have "?n + (needed - (nbuf + ?n)) = needed - nbuf" using True by auto
        ultimately show ?thesis unfolding sc(2) s2(2) by simp
      qed
      have drop: "drop (needed - (nbuf + ?n)) (content ?s2) = drop (needed - nbuf) (content s)"
        unfolding s2(2) using less'(2) by simp
      have cond: "needed - (nbuf + ?n) \<le> length (content ?s2) \<longleftrightarrow> needed - nbuf \<le> length (content s)"
        unfolding s2(2) using n p(4) by auto
      from less.hyps [OF less'(1) s2(1) less'(2,3,4)] show ?thesis
        unfolding step cond drop take sc(1) .
    qed
  qed
qed

lemma window_length: "d_ip_limit d \<le> length (d_buf d) \<Longrightarrow> length (window d) = d_ip_limit d - d_ip d"
  by (simp add: window_def)

lemma holds_content_small: "holds d rest \<Longrightarrow> length (drop (unat (d_peeked d)) (content (d_reader d))) < 2 ^ 32"
  by (auto simp: holds_def)

text \<open>Skipping what was peeked leaves the bytes after the window.\<close>

lemma holds_skip:
  assumes "holds d rest"
  shows "src_inv (Skip src (unat (d_peeked d)) (d_reader d))"
    and "content (Skip src (unat (d_peeked d)) (d_reader d)) = drop (unat (d_peeked d)) (content (d_reader d))"
  using assms Skip [of "d_reader d" "unat (d_peeked d)"] by (simp_all add: holds_def)

lemma buffered_facts:
  assumes h: "holds d (c # r)" and ip: "d_ip d < d_ip_limit d"
  shows "length (window d) = d_ip_limit d - d_ip d"
    and "unat (of_nat (d_ip_limit d - d_ip d) :: 32 word) = d_ip_limit d - d_ip d"
    and "d_buf d ! d_ip d = c" "mem_byte (d_buf d) (d_ip d) = Some c"
    and "mem_read (d_buf d) (d_ip d) (d_ip_limit d - d_ip d) = Some (window d)"
    and "d_ip_limit d - d_ip d \<le> Suc (length r)" "window d ! 0 = c"
proof -
  have lim: "d_ip_limit d \<le> length (d_buf d)" and small: "length (c # r) < 2 ^ 32"
    and rest: "c # r = window d @ drop (unat (d_peeked d)) (content (d_reader d))"
    using h unfolding holds_def by blast+
  show lw: "length (window d) = d_ip_limit d - d_ip d" using window_length [OF lim] .
  then show "unat (of_nat (d_ip_limit d - d_ip d) :: 32 word) = d_ip_limit d - d_ip d"
    using small rest by (simp add: unat_of_nat)
  show w0: "window d ! 0 = c" using rest lw ip by (metis length_greater_0_conv nth_append nth_Cons_0 zero_less_diff)
  then show hd: "d_buf d ! d_ip d = c" using ip lim by (simp add: window_def)
  then show "mem_byte (d_buf d) (d_ip d) = Some c" using ip lim by (simp add: mem_byte_def)
  show "mem_read (d_buf d) (d_ip d) (d_ip_limit d - d_ip d) = Some (window d)"
    using lim ip by (simp add: mem_read_def window_def)
  show "d_ip_limit d - d_ip d \<le> Suc (length r)"
    using arg_cong [OF rest, of length] by (simp add: lw)
qed

text \<open>Bytes moved to the front of \<open>scratch_\<close>\<close>

lemma to_scratch:
  assumes "length (d_scratch d) = 5" and "length (window d) \<le> 5"
  shows "mem_write (d_scratch d) 0 (window d) = Some (window d @ drop (length (window d)) (d_scratch d))"
  using mem_write_Some [of 0 "window d" "d_scratch d"] assms by simp

lemma RefillTag_enough:
  assumes h: "holds d (c # r)" and ip: "d_ip d < d_ip_limit d" and enough: "tag_needed c \<le> d_ip_limit d - d_ip d"
  shows "\<exists>d'. RefillTag_buffered src d = Some (True, d') \<and> holds d' (c # r) \<and> ready d'"
proof -
  let ?nb = "d_ip_limit d - d_ip d" and ?s = "Skip src (unat (d_peeked d)) (d_reader d)"
  note b = buffered_facts [OF h ip] and s = holds_skip [OF h]
  have sc: "length (d_scratch d) = 5" and lim: "d_ip_limit d \<le> length (d_buf d)" and ne: "\<not> d_eof d"
    and small: "length (c # r) < 2 ^ 32" and rest: "c # r = window d @ content ?s"
    using h unfolding holds_def s(2) by blast+
  have need: "Suc (drop_bit 11 (char_table ! unat c)) = tag_needed c" by (simp add: tag_needed_def)
  have n4: "drop_bit 11 (char_table ! unat c) \<le> 4" using tag_needed_le [of c] by (simp add: tag_needed_def)
  show ?thesis
  proof (cases "?nb < kMaximumTagLength")
    case False
    then have "RefillTag_buffered src d = Some (True, d)"
      using b ip sc n4 tag_needed_le [of c] by (simp add: RefillTag_buffered_def need Let_def)
    moreover have "ready d" using False tag_needed_le [of c] ip lim b(3) by (simp add: ready_def)
    ultimately show ?thesis using h by auto
  next
    case short: True
    let ?sc = "window d @ drop (length (window d)) (d_scratch d)"
    let ?d = "d\<lparr>d_reader := ?s, d_peeked := 0, d_scratch := ?sc, d_buf := ?sc, d_ip := 0, d_ip_limit := ?nb\<rparr>"
    have w: "mem_write (d_scratch d) 0 (window d) = Some ?sc" using to_scratch [OF sc] short b(1) by simp
    have "RefillTag_buffered src d = Some (True, ?d)"
      using b w enough short ip sc n4 by (simp add: RefillTag_buffered_def need Let_def not_less)
    moreover have "window ?d = window d" using b(1) by (subst window_def) simp
    then have "holds ?d (c # r)" using s(1) small rest sc ne short b(1) by (simp add: holds_def)
    moreover have "?sc ! 0 = c" using b(1,7) ip by (simp add: nth_append)
    then have "ready ?d" using enough ip sc short b(1) by (simp add: ready_def)
    ultimately show ?thesis by blast
  qed
qed

lemma RefillTag_stitches:
  assumes h: "holds d (c # r)" and ip: "d_ip d < d_ip_limit d" and few: "d_ip_limit d - d_ip d < tag_needed c"
  shows "if tag_needed c \<le> Suc (length r)
     then \<exists>d'. RefillTag_buffered src d = Some (True, d') \<and> holds d' (c # r) \<and> ready d'
     else \<exists>d'. RefillTag_buffered src d = Some (False, d') \<and> \<not> d_eof d'"
proof -
  let ?nb = "d_ip_limit d - d_ip d" and ?s = "Skip src (unat (d_peeked d)) (d_reader d)"
  let ?sc = "window d @ drop (length (window d)) (d_scratch d)"
  note b = buffered_facts [OF h ip] and s = holds_skip [OF h]
  have sc: "length (d_scratch d) = 5" and ne: "\<not> d_eof d" and small: "length (c # r) < 2 ^ 32"
    and rest: "c # r = window d @ content ?s" using h unfolding holds_def s(2) by blast+
  have need: "Suc (drop_bit 11 (char_table ! unat c)) = tag_needed c" by (simp add: tag_needed_def)
  have n4: "drop_bit 11 (char_table ! unat c) \<le> 4" using tag_needed_le [of c] by (simp add: tag_needed_def)
  have w: "mem_write (d_scratch d) 0 (window d) = Some ?sc"
    using to_scratch [OF sc] few tag_needed_le [of c] b(1) by simp
  have lsc: "length ?sc = 5" using few tag_needed_le [of c] b(1) sc by simp
  have pre: "?nb \<le> tag_needed c" "tag_needed c \<le> length ?sc" "length (content ?s) < 2 ^ 32"
    using few tag_needed_le [of c] lsc holds_content_small [OF h] s(2) by simp_all
  have len: "tag_needed c - ?nb \<le> length (content ?s) \<longleftrightarrow> tag_needed c \<le> Suc (length r)"
    using arg_cong [OF rest, of length] b(1) by auto
  show ?thesis
  proof (cases "tag_needed c \<le> Suc (length r)")
    case enough: True
    from stitch_ok [OF s(1) pre] len enough obtain s' scr where
      st: "stitch src ?s ?sc ?nb (tag_needed c) = Some (True, s', scr)" "src_inv s'"
        "content s' = drop (tag_needed c - ?nb) (content ?s)" "length scr = length ?sc"
        "take (tag_needed c) scr = take ?nb ?sc @ take (tag_needed c - ?nb) (content ?s)" by auto
    let ?d = "d\<lparr>d_reader := s', d_peeked := 0, d_scratch := scr, d_buf := scr, d_ip := 0, d_ip_limit := tag_needed c\<rparr>"
    have run: "RefillTag_buffered src d = Some (True, ?d)"
      using b w few st(1) ip sc n4 by (simp add: RefillTag_buffered_def need Let_def)
    have win: "window ?d = window d @ take (tag_needed c - ?nb) (content ?s)"
      using st(5) b(1) by (subst window_def) simp
    have "c # r = window ?d @ content s'"
      unfolding win st(3) append_assoc append_take_drop_id by (rule rest)
    moreover have "window ?d ! 0 = c" using b(1,7) ip unfolding win by (simp add: nth_append)
    then have "scr ! 0 = c" using few by (simp add: window_def)
    ultimately have "holds ?d (c # r)" "ready ?d"
      using st(2,4) small lsc pre(2) few ne by (simp_all add: holds_def ready_def)
    with run enough show ?thesis by auto
  next
    case False
    from stitch_ok [OF s(1) pre] len False obtain s' scr where
      "stitch src ?s ?sc ?nb (tag_needed c) = Some (False, s', scr)" by auto
    with b w few False ne ip sc n4 show ?thesis by (simp add: RefillTag_buffered_def need Let_def)
  qed
qed

lemma RefillTag_buffered_ok:
  assumes h: "holds d (c # r)" and ip: "d_ip d < d_ip_limit d"
  shows "if tag_needed c \<le> Suc (length r)
     then \<exists>d'. RefillTag_buffered src d = Some (True, d') \<and> holds d' (c # r) \<and> ready d'
     else \<exists>d'. RefillTag_buffered src d = Some (False, d') \<and> \<not> d_eof d'"
proof (cases "d_ip_limit d - d_ip d < tag_needed c")
  case True
  then show ?thesis by (rule RefillTag_stitches [OF h ip])
next
  case False
  with buffered_facts(6) [OF h ip] have "tag_needed c \<le> Suc (length r)" by linarith
  with RefillTag_enough [OF h ip] False show ?thesis by simp
qed

text \<open>Consuming bytes of the window\<close>

lemma holds_advance:
  assumes h: "holds d rest" and n: "n \<le> d_ip_limit d - d_ip d"
  shows "holds (d\<lparr>d_ip := d_ip d + n\<rparr>) (drop n rest)"
    and "take n (drop (d_ip d) (d_buf d)) = take n rest"
    and "n \<le> length rest"
proof -
  have lim: "d_ip_limit d \<le> length (d_buf d)" and rest: "rest = window d @ drop (unat (d_peeked d)) (content (d_reader d))"
    using h by (auto simp: holds_def)
  have w: "n \<le> length (window d)" using n window_length [OF lim] by simp
  then show "n \<le> length rest" using rest by simp
  have "take n rest = take n (window d)" unfolding rest using w by simp
  also have "\<dots> = take n (drop (d_ip d) (d_buf d))" using n by (simp add: window_def min_absorb1)
  finally show "take n (drop (d_ip d) (d_buf d)) = take n rest" by simp
  have "drop n rest = drop n (window d) @ drop (unat (d_peeked d)) (content (d_reader d))"
    by (subst rest) (simp add: w)
  moreover have "window (d\<lparr>d_ip := d_ip d + n\<rparr>) = drop n (window d)"
    by (subst window_def) (simp add: window_def drop_take add.commute)
  moreover have "length rest < 2 ^ 32" using h unfolding holds_def by blast
  then have "length (drop n rest) < 2 ^ 32" by (simp only: length_drop)
  moreover have "d_ip d \<le> d_ip_limit d" using h unfolding holds_def by blast
  with n have "d_ip d + n \<le> d_ip_limit d" by linarith
  ultimately show "holds (d\<lparr>d_ip := d_ip d + n\<rparr>) (drop n rest)"
    using h unfolding holds_def by simp
qed

text \<open>
  What a refill must do, by the bytes that are left: report the end when there are none,
  fail when they end inside the tag, and otherwise leave the state ready.
\<close>

definition refilled :: "(bool \<times> 's SnappyDecompressor) option \<Rightarrow> bytes \<Rightarrow> bool" where
  "refilled res rest \<longleftrightarrow>
     (case rest of
        [] \<Rightarrow> (\<exists>d'. res = Some (False, d') \<and> d_eof d')
      | c # r \<Rightarrow>
          if tag_needed c \<le> Suc (length r) then (\<exists>d'. res = Some (True, d') \<and> holds d' rest \<and> ready d')
          else (\<exists>d'. res = Some (False, d') \<and> \<not> d_eof d'))"

lemma holds_length: "holds d rest \<Longrightarrow> d_ip_limit d - d_ip d \<le> length rest"
  using window_length [of d] by (auto simp: holds_def)

lemma refilled_buffered:
  assumes h: "holds d rest" and ip: "d_ip d < d_ip_limit d"
  shows "refilled (RefillTag_buffered src d) rest"
proof (cases rest)
  case Nil
  with holds_length [OF h] ip show ?thesis by simp
next
  case (Cons c r)
  with RefillTag_buffered_ok [of d c r] h ip show ?thesis by (simp add: refilled_def)
qed

text \<open>The region that a read at the end of the window gives\<close>

lemma next_region:
  assumes h: "holds d rest" and "Peek src (Skip src (unat (d_peeked d)) (d_reader d)) = (r, s)"
  shows "src_inv s" and "content s = drop (unat (d_peeked d)) (content (d_reader d))"
    and "prefix r (content s)" and "r = [] \<longrightarrow> content s = []"
    and "unat (of_nat (length r) :: 32 word) = length r"
proof -
  note sk = holds_skip [OF h]
  from Peek [OF sk(1) assms(2)] sk(2) show p: "src_inv s"
    "content s = drop (unat (d_peeked d)) (content (d_reader d))" "prefix r (content s)"
    "r = [] \<longrightarrow> content s = []"
    by auto
  have "length r < 2 ^ 32"
    using prefix_length_le [OF p(3)] holds_content_small [OF h] p(2) by simp
  then show "unat (of_nat (length r) :: 32 word) = length r" by (simp add: unat_of_nat)
qed

lemma RefillTag_ok:
  assumes h: "holds d rest"
  shows "refilled (RefillTag src d) rest"
proof (cases "d_ip d = d_ip_limit d")
  case False
  with h have "d_ip d < d_ip_limit d" by (simp add: holds_def)
  with False refilled_buffered [OF h] show ?thesis by (simp add: RefillTag_def)
next
  case True
  obtain r s where p: "Peek src (Skip src (unat (d_peeked d)) (d_reader d)) = (r, s)" by fastforce
  note reg = next_region [OF h p]
  have rest: "rest = content s" "length rest < 2 ^ 32" "length (d_scratch d) = 5" "\<not> d_eof d"
    using h True reg(2) by (auto simp: holds_def window_def)
  show ?thesis
  proof (cases "r = []")
    case r: True
    with reg rest have "rest = []" by simp
    with True p r show ?thesis by (simp add: RefillTag_def Let_def refilled_def)
  next
    case r: False
    let ?d = "d\<lparr>d_reader := s, d_peeked := of_nat (length r), d_buf := r, d_ip := 0, d_ip_limit := length r\<rparr>"
    have "content s = r @ drop (length r) (content s)" using reg(3) by (auto simp: prefix_def)
    moreover have "window ?d = r" by (subst window_def) simp
    moreover have "length r \<le> length (content s)" using reg(3) by (rule prefix_length_le)
    ultimately have "holds ?d rest" unfolding rest(1) using reg(1,5) rest by (simp add: holds_def)
    moreover have "RefillTag src d = RefillTag_buffered src ?d"
      using True p r by (simp add: RefillTag_def Let_def)
    ultimately show ?thesis using refilled_buffered [of ?d rest] r by simp
  qed
qed

lemma ready_long: "holds d rest \<Longrightarrow> kMaximumTagLength \<le> d_ip_limit d - d_ip d \<Longrightarrow> ready d"
  using tag_needed_le [of "d_buf d ! d_ip d"] by (auto simp: ready_def holds_def)

lemma MAYBE_REFILL_ok:
  assumes h: "holds d rest"
  shows "refilled (MAYBE_REFILL src d) rest"
proof (cases "d_ip_limit d - d_ip d < kMaximumTagLength")
  case True
  with RefillTag_ok [OF h] show ?thesis by (simp add: MAYBE_REFILL_def)
next
  case False
  then have long: "kMaximumTagLength \<le> d_ip_limit d - d_ip d" by simp
  show ?thesis
  proof (cases rest)
    case Nil
    with holds_length [OF h] long show ?thesis by simp
  next
    case (Cons c r)
    have "tag_needed c \<le> Suc (length r)"
      using tag_needed_le [of c] long holds_length [OF h] Cons by simp
    with False h ready_long [OF h long] Cons show ?thesis by (simp add: MAYBE_REFILL_def refilled_def)
  qed
qed

end

section \<open>Decoding\<close>

lemma run_element_grows: "run_element e out = Some o' \<Longrightarrow> length out \<le> length o'"
  by (cases e) (auto split: if_splits)

lemma decode_grows: "decode wr rest out = Some o' \<Longrightarrow> length out \<le> length o'"
proof (induction wr rest out rule: decode.induct)
  case (1 wr rest out)
  show ?case
  proof (cases "rest = []")
    case False
    then obtain e r o1 where p: "parse_element wr rest = Some (e, r)" "run_element e out = Some o1"
      using "1.prems" by (auto simp: decode.simps [of wr rest] split: option.splits)
    have "decode wr r o1 = Some o'" using "1.prems" decode_step [OF p] by simp
    with "1.IH" [OF False p(1) refl p(2)] run_element_grows [OF p(2)] show ?thesis by simp
  qed (use "1.prems" in simp)
qed

lemma decode_too_long:
  assumes "parse_element wr rest = Some (e, r)" "run_element e out = Some o1" "L < length o1"
  shows "decode wr rest out = None \<or> (\<exists>o'. decode wr rest out = Some o' \<and> L < length o')"
  unfolding decode_step [OF assms(1,2)]
  by (cases "decode wr r o1") (use decode_grows [of wr r o1] assms(3) in auto)

text \<open>The first element by the kind of its tag\<close>

lemma parse_short_literal:
  "unat c mod 4 = LITERAL \<Longrightarrow> unat c div 4 < 60 \<Longrightarrow> parse_element wr (c # r) = take_literal (unat c div 4 + 1) r"
  by (simp add: parse_element_def Let_def)

lemma parse_long_literal:
  "unat c mod 4 = LITERAL \<Longrightarrow> \<not> unat c div 4 < 60 \<Longrightarrow> unat c div 4 - 59 \<le> length r \<Longrightarrow>
   parse_element wr (c # r) =
     take_literal (wr (le_nat (take (unat c div 4 - 59) r) + 1)) (drop (unat c div 4 - 59) r)"
  by (simp add: parse_element_def Let_def)

lemma parse_copy:
  fixes c :: byte
  assumes "unat c mod 4 \<noteq> LITERAL"
  obtains k high len where "drop_bit 11 (char_table ! unat c) = k" "char_table ! unat c AND 0xff = len"
    "char_table ! unat c AND 0x700 = high" "parse_element wr (c # r) = take_copy k high len r"
    "1 \<le> len" "len \<le> 64" "k \<le> 4" "high + 256 ^ k \<le> 2 ^ 32"
proof -
  have c: "unat c < 256" by simp
  then have u: "unat c div 4 < 64" "unat c div 32 < 8" "unat c div 4 mod 8 < 8" by linarith+
  consider (c1) "unat c mod 4 = 1" | (c2) "unat c mod 4 = 2" | (c4) "unat c mod 4 = 3"
    using tag_kind [of c] assms by linarith
  then show thesis
  proof cases
    case c1
    note e = copy1_entry [OF c c1]
    have "parse_element wr (c # r) = take_copy 1 (256 * (unat c div 32)) (4 + unat c div 4 mod 8) r"
      by (simp add: parse_element_def Let_def c1)
    from that [OF e(1,2,3) this] u show thesis by simp
  next
    case c2
    note e = copy24_entry [OF c disjI1 [OF c2], unfolded if_P [OF c2]]
    have "parse_element wr (c # r) = take_copy 2 0 (unat c div 4 + 1) r"
      by (simp add: parse_element_def Let_def c2)
    from that [OF e(1,2,3) this] u show thesis by simp
  next
    case c4
    then have n: "unat c mod 4 \<noteq> 2" by simp
    note e = copy24_entry [OF c disjI2 [OF c4], unfolded if_not_P [OF n]]
    have "parse_element wr (c # r) = take_copy 4 0 (unat c div 4 + 1) r"
      by (simp add: parse_element_def Let_def c4)
    from that [OF e(1,2,3) this] u show thesis by simp
  qed
qed

context source
begin

lemma ready_facts:
  assumes h: "holds d rest" and "ready d"
  obtains c r where "rest = c # r" "mem_byte (d_buf d) (d_ip d) = Some c"
    "holds (d\<lparr>d_ip := Suc (d_ip d)\<rparr>) r" "drop_bit 11 (char_table ! unat c) \<le> d_ip_limit d - Suc (d_ip d)"
    "Suc (d_ip d) \<le> d_ip_limit d"
    "Load32 (d_buf d) (Suc (d_ip d)) = Some (of_nat (le_nat (take 4 (drop (Suc (d_ip d)) (d_buf d)))))"
proof -
  have r: "d_ip d < d_ip_limit d" "tag_needed (d_buf d ! d_ip d) \<le> d_ip_limit d - d_ip d"
    "d_ip d + 5 \<le> length (d_buf d)" using assms(2) by (simp_all add: ready_def)
  then obtain c r where rest: "rest = c # r" using holds_length [OF h] by (cases rest) auto
  have one: "1 \<le> d_ip_limit d - d_ip d" using r(1) by simp
  from holds_advance [OF h one] rest have adv: "holds (d\<lparr>d_ip := Suc (d_ip d)\<rparr>) r"
    "take 1 (drop (d_ip d) (d_buf d)) = [c]" by simp_all
  have "d_buf d ! d_ip d = c" using adv(2) r(3) by (simp add: take_Suc_conv_app_nth)
  with that [OF rest _ adv(1)] r show thesis
    by (simp add: mem_byte_def tag_needed_def Load32_def LOAD32_Some)
qed

lemma tag_length_ok:
  assumes h: "holds d r" and c: "unat c mod 4 = LITERAL"
    and "drop_bit 11 (char_table ! unat c) \<le> d_ip_limit d - d_ip d"
    and ld: "Load32 (d_buf d) (d_ip d) = Some (of_nat (le_nat (take 4 (drop (d_ip d) (d_buf d)))))"
  shows "\<exists>len d' j. long_literal_length (unat c div 4 + 1) d = Some (len, d') \<and> holds d' (drop j r) \<and>
     parse_element wrap32 (c # r) = take_literal len (drop j r)"
proof (cases "unat c div 4 < 60")
  case True
  with h show ?thesis
    by (intro exI [of _ "unat c div 4 + 1"] exI [of _ d] exI [of _ "0 :: nat"])
      (simp add: long_literal_length_def parse_short_literal [OF c True])
next
  case False
  have c': "unat c < 256" by simp
  then have u: "unat c div 4 < 64" by linarith
  let ?k = "unat c div 4 - 59"
  have k: "?k \<le> 4" "?k \<le> d_ip_limit d - d_ip d"
    using assms(3) literal_entry [OF c' c] False u by (simp_all only: if_False)
  note adv = holds_advance [OF h k(2)]
  let ?v = "of_nat (le_nat (take 4 (drop (d_ip d) (d_buf d)))) :: 32 word"
  have "unat (?v AND wordmask ! ?k) = le_nat (take ?k r)"
    unfolding wordmask_low [OF k(1)] le_nat_take [symmetric] take_take using k(1) adv(2) by (simp add: min_absorb1)
  then have "unat ((?v AND wordmask ! ?k) + 1) = wrap32 (le_nat (take ?k r) + 1)"
    by (simp add: unat_word_ariths)
  with False k ld adv show ?thesis
    by (intro exI [of _ "wrap32 (le_nat (take ?k r) + 1)"] exI [of _ "d\<lparr>d_ip := d_ip d + ?k\<rparr>"] exI [of _ ?k])
      (simp add: long_literal_length_def parse_long_literal [OF c False adv(3)] Suc_diff_le)
qed

text \<open>
  One round of the loop over any writer, by the kind of its tag: what it reads is the next
  element, and what is left to do is an operation of the writer and the rest of the loop.
\<close>

lemma tag_kind_bits: "unat c AND 3 = unat c mod 4" "drop_bit 2 (unat c) = unat c div 4" for c :: byte
  using take_bit_eq_mask [of 2 "unat c"] by (simp_all add: take_bit_eq_mod mask_eq_exp_minus_1 drop_bit_eq_div)

lemma ready_tag:
  assumes "holds d (c # r)" and "ready d"
  shows "mem_byte (d_buf d) (d_ip d) = Some c" and "holds (d\<lparr>d_ip := Suc (d_ip d)\<rparr>) r"
    and "drop_bit 11 (char_table ! unat c) \<le> d_ip_limit d - Suc (d_ip d)"
    and "Load32 (d_buf d) (Suc (d_ip d)) = Some (of_nat (le_nat (take 4 (drop (Suc (d_ip d)) (d_buf d)))))"
  by (rule ready_facts [OF assms]; simp)+

lemma fast_literal_step:
  assumes h: "holds d (c # r)" and "ready d" and lit: "unat c mod 4 = LITERAL"
    and fast: "TryFastAppend wr (drop (Suc (d_ip d)) (d_buf d)) (d_ip_limit d - Suc (d_ip d)) (unat c div 4 + 1) w = Some (True, w')"
    and n: "unat c div 4 + 1 \<le> 60" "unat c div 4 + 1 + kMaximumTagLength \<le> d_ip_limit d - Suc (d_ip d)"
  obtains d' j where "tag_loop src wr d w = tag_loop src wr d' w'" "holds d' (drop j r)" "ready d'"
    "j = unat c div 4 + 1" "parse_element wrap32 (c # r) = Some (Literal (take j r), drop j r)"
    "take j (drop (Suc (d_ip d)) (d_buf d)) = take j r"
proof -
  let ?d = "d\<lparr>d_ip := Suc (d_ip d)\<rparr>" and ?n = "unat c div 4 + 1"
  note b = ready_tag(1) [OF h assms(2)] and h' = ready_tag(2) [OF h assms(2)]
  have "?n \<le> d_ip_limit ?d - d_ip ?d" using n(2) by simp
  note adv = holds_advance [OF h' this]
  have "ready (?d\<lparr>d_ip := d_ip ?d + ?n\<rparr>)" by (rule ready_long [OF adv(1)]) (use n(2) in simp)
  moreover have "parse_element wrap32 (c # r) = Some (Literal (take ?n r), drop ?n r)"
    using parse_short_literal [OF lit, of wrap32 r] n(1) adv(3) by (simp add: take_literal_def)
  moreover have "tag_loop src wr d w = tag_loop src wr (?d\<lparr>d_ip := d_ip ?d + ?n\<rparr>) w'"
    using b lit fast n(1) by (subst tag_loop.simps) (simp add: tag_kind_bits Let_def)
  ultimately show thesis using that [OF _ adv(1)] adv(2) by simp
qed

lemma literal_step:
  assumes h: "holds d (c # r)" and "ready d" and lit: "unat c mod 4 = LITERAL"
    and slow: "TryFastAppend wr (drop (Suc (d_ip d)) (d_buf d)) (d_ip_limit d - Suc (d_ip d)) (unat c div 4 + 1) w = Some (False, w')"
  obtains len d' j where "holds d' (drop j r)" "parse_element wrap32 (c # r) = take_literal len (drop j r)"
    "tag_loop src wr d w =
       Option.bind (append_literal src wr len d' w') (\<lambda>(ok, d, w).
         if \<not> ok then Some (d, w)
         else Option.bind (MAYBE_REFILL src d) (\<lambda>(ok, d). if \<not> ok then Some (d, w) else tag_loop src wr d w))"
proof -
  let ?d = "d\<lparr>d_ip := Suc (d_ip d)\<rparr>"
  note b = ready_tag(1) [OF h assms(2)] and h' = ready_tag(2) [OF h assms(2)]
  have k: "drop_bit 11 (char_table ! unat c) \<le> d_ip_limit ?d - d_ip ?d"
    and ld: "Load32 (d_buf ?d) (d_ip ?d) = Some (of_nat (le_nat (take 4 (drop (d_ip ?d) (d_buf ?d)))))"
    using ready_tag(3,4) [OF h assms(2)] by simp_all
  from tag_length_ok [OF h' lit k ld] obtain len d' j where
    t: "long_literal_length (unat c div 4 + 1) ?d = Some (len, d')" "holds d' (drop j r)"
      "parse_element wrap32 (c # r) = take_literal len (drop j r)" by blast
  show thesis
    by (rule that [OF t(2,3)]) (use b lit slow t(1) in \<open>subst tag_loop.simps, simp add: tag_kind_bits\<close>)
qed

lemma copy_step:
  fixes wr :: "'w writer_ops" and w :: 'w
  assumes h: "holds d (c # r)" and "ready d" and kind: "unat c mod 4 \<noteq> LITERAL"
  obtains off len j d' where "parse_element wrap32 (c # r) = Some (Copy off len, drop j r)"
    "1 \<le> len" "len \<le> 64" "off < 2 ^ 33" "holds d' (drop j r)"
    "tag_loop src wr d w =
       Option.bind (AppendFromSelf wr off len w) (\<lambda>(ok, w).
         if \<not> ok then Some (d', w)
         else Option.bind (MAYBE_REFILL src d') (\<lambda>(ok, d). if \<not> ok then Some (d, w) else tag_loop src wr d w))"
proof -
  let ?d = "d\<lparr>d_ip := Suc (d_ip d)\<rparr>"
  note b = ready_tag(1) [OF h assms(2)] and h' = ready_tag(2) [OF h assms(2)] and ld = ready_tag(4) [OF h assms(2)]
  have k: "drop_bit 11 (char_table ! unat c) \<le> d_ip_limit ?d - d_ip ?d"
    using ready_tag(3) [OF h assms(2)] by simp
  obtain kk high len where e: "drop_bit 11 (char_table ! unat c) = kk" "char_table ! unat c AND 0xff = len"
    "char_table ! unat c AND 0x700 = high" and p: "parse_element wrap32 (c # r) = take_copy kk high len r"
    and bnd: "1 \<le> len" "len \<le> 64" "kk \<le> 4" "high + 256 ^ kk \<le> 2 ^ 32"
    using parse_copy [OF kind, of wrap32 r] by metis
  note adv = holds_advance [OF h' k [unfolded e(1)]]
  let ?off = "high + le_nat (take kk r)" and ?d2 = "?d\<lparr>d_ip := d_ip ?d + kk\<rparr>"
  let ?v = "of_nat (le_nat (take 4 (drop (Suc (d_ip d)) (d_buf d)))) :: 32 word"
  have pe: "parse_element wrap32 (c # r) = Some (Copy ?off len, drop kk r)"
    using p adv(3) by (simp add: take_copy_def)
  have off: "?off < 2 ^ 32"
    using le_nat_bound [of "take kk r"] bnd(4) adv(3) by simp
  have tr: "unat (?v AND wordmask ! kk) = le_nat (take kk r)"
    unfolding wordmask_low [OF bnd(3)] le_nat_take [symmetric] take_take
    using bnd(3) adv(2) by (simp add: min_absorb1)
  have "unat ((of_nat high :: 32 word) + (?v AND wordmask ! kk)) = ?off"
    using off by (simp add: unat_word_ariths unat_of_nat tr mod_add_left_eq)
  then have "tag_loop src wr d w =
      Option.bind (AppendFromSelf wr ?off len w) (\<lambda>(ok, w).
        if \<not> ok then Some (?d2, w)
        else Option.bind (MAYBE_REFILL src ?d2) (\<lambda>(ok, d). if \<not> ok then Some (d, w) else tag_loop src wr d w))"
    using b kind ld by (subst tag_loop.simps) (simp add: tag_kind_bits e Let_def cong: if_cong)
  with that [OF pe bnd(1,2) _ adv(1)] off show thesis by simp
qed

end

end
