(* ===== verification/SnappyDecompressSpec.thy ===== *)
theory SnappyDecompressSpec
  imports SnappyRefillSpec
begin

text \<open>
  The decompressor against the format: over any source and writer that keep their
  contracts, it never leaves a buffer, it ends, and it succeeds exactly on the streams that
  decode to the announced length, leaving the decoded bytes with the writer.
\<close>

unbundle bit_operations_syntax

locale decompression = source src src_inv content + decompression_writer wr start rep
  for src :: "'s source_ops" and src_inv :: "'s \<Rightarrow> bool" and content :: "'s \<Rightarrow> bytes"
    and wr :: "'w writer_ops" and start :: "nat \<Rightarrow> 'w \<Rightarrow> bool" and rep :: "nat \<Rightarrow> bytes \<Rightarrow> 'w \<Rightarrow> bool"
begin

lemma literal_regions_ok:
  assumes "holds d rest" "rep L out w"
  shows "(\<exists>n d' w'. literal_regions src wr len d w = Some (False, n, d', w') \<and> \<not> d_eof d' \<and>
        \<not> (len \<le> length rest \<and> length out + len \<le> L)) \<or>
      (\<exists>k d' w'. literal_regions src wr len d w = Some (True, len - k, d', w') \<and> k \<le> len \<and> k \<le> length rest \<and>
        holds d' (drop k rest) \<and> rep L (out @ take k rest) w' \<and> len - k \<le> d_ip_limit d' - d_ip d')"
  using assms
proof (induction "length (drop (unat (d_peeked d)) (content (d_reader d)))" arbitrary: d w rest out len rule: less_induct)
  case less
  note h = less.prems(1) and rep = less.prems(2)
  let ?a = "d_ip_limit d - d_ip d"
  show ?case
  proof (cases "?a < len")
    case False
    then have run: "literal_regions src wr len d w = Some (True, len - 0, d, w)" by (simp add: literal_regions.simps)
    show ?thesis by (rule disjI2, rule exI [of _ 0], rule exI [of _ d], rule exI [of _ w]) (use run False h rep in simp)
  next
    case True
    have lim: "d_ip_limit d \<le> length (d_buf d)" "\<not> d_eof d" "length (d_scratch d) = 5" "length rest < 2 ^ 32"
      and rest: "rest = window d @ drop (unat (d_peeked d)) (content (d_reader d))"
      using h by (auto simp: holds_def)
    have a: "?a \<le> length (drop (d_ip d) (d_buf d))" using lim(1) by simp
    show ?thesis
    proof (cases "length out + ?a \<le> L")
      case full: False
      then obtain w' where "WAppend wr (drop (d_ip d) (d_buf d)) ?a w = Some (False, w')"
        using Append_full [OF rep a] by auto
      with True full lim(2) show ?thesis by (subst (1 2) literal_regions.simps) auto
    next
      case fits: True
      from Append_ok [OF rep a fits] obtain w' where
        w': "WAppend wr (drop (d_ip d) (d_buf d)) ?a w = Some (True, w')" "rep L (out @ window d) w'"
        by (auto simp: window_def)
      obtain r s where p: "Peek src (Skip src (unat (d_peeked d)) (d_reader d)) = (r, s)" by fastforce
      note reg = next_region [OF h p]
      have rest': "rest = window d @ content s" using rest reg(2) by simp
      have lw: "length (window d) = ?a" using window_length [OF lim(1)] .
      show ?thesis
      proof (cases "r = []")
        case True': True
        with reg(4) rest' lw have "length rest = ?a" by simp
        with True True' p w'(1) lim(2) show ?thesis by (subst (1 2) literal_regions.simps) (simp add: Let_def)
      next
        case r: False
        let ?d = "d\<lparr>d_reader := s, d_buf := r, d_ip := 0, d_peeked := of_nat (length r), d_ip_limit := length r\<rparr>"
        have run: "literal_regions src wr len d w = literal_regions src wr (len - ?a) ?d w'"
          using True p r w'(1) by (subst literal_regions.simps) (simp add: Let_def)
        have lr: "length r \<le> length (content s)" using reg(3) by (rule prefix_length_le)
        have "content s = r @ drop (length r) (content s)" using reg(3) by (auto simp: prefix_def)
        moreover have "window ?d = r" by (subst window_def) simp
        ultimately have h': "holds ?d (content s)" using reg(1,5) lim lr rest' by (simp add: holds_def)
        have less': "length (drop (unat (d_peeked ?d)) (content (d_reader ?d))) <
            length (drop (unat (d_peeked d)) (content (d_reader d)))"
        proof -
          have "0 < length r" using r by simp
          with lr have "length (content s) - length r < length (content s)" by linarith
          then show ?thesis unfolding reg(2) [symmetric] by (simp add: reg(5))
        qed
        from less.hyps [OF less' h' w'(2), of "len - ?a"] show ?thesis
        proof (elim disjE exE conjE, goal_cases)
          case (1 n d' w'')
          have "\<not> (len \<le> length rest \<and> length out + len \<le> L)"
            using 1(3) True lw by (auto simp: rest')
          with 1 run show ?case by auto
        next
          case (2 k d' w'')
          have "take (?a + k) rest = window d @ take k (content s)" "drop (?a + k) rest = drop k (content s)"
            using lw by (simp_all add: rest')
          with 2 run True lw show ?case
            by (intro disjI2 exI [of _ "?a + k"] exI [of _ d'] exI [of _ w'']) (simp add: rest')
        qed
      qed
    qed
  qed
qed

lemma append_literal_ok:
  assumes h: "holds d rest" and rep: "rep L out w"
  shows "if len \<le> length rest \<and> length out + len \<le> L
     then \<exists>d' w'. append_literal src wr len d w = Some (True, d', w') \<and> holds d' (drop len rest) \<and>
       rep L (out @ take len rest) w'
     else \<exists>d' w'. append_literal src wr len d w = Some (False, d', w') \<and> \<not> d_eof d'"
  using literal_regions_ok [OF h rep, of len]
proof (elim disjE exE conjE, goal_cases)
  case (1 n d' w')
  then show ?thesis by (auto simp: append_literal_def)
next
  case (2 k d' w')
  note run = 2(1) and h' = 2(4) and rep' = 2(5) and len = 2(6)
  note adv = holds_advance [OF h' len]
  have m: "len - k \<le> length (drop (d_ip d') (d_buf d'))" using h' len by (auto simp: holds_def)
  have enough: "len \<le> length rest" using adv(3) 2(2,3) by simp
  have l: "length (out @ take k rest) + (len - k) = length out + len" using 2(2,3) by simp
  show ?thesis
  proof (cases "length out + len \<le> L")
    case True
    from Append_ok [OF rep' m] True l obtain w'' where
      a: "WAppend wr (drop (d_ip d') (d_buf d')) (len - k) w' = Some (True, w'')"
        "rep L ((out @ take k rest) @ take (len - k) (drop k rest)) w''" using adv(2) by auto
    have "take k rest @ take (len - k) (drop k rest) = take len rest" "drop (len - k) (drop k rest) = drop len rest"
      using take_add [of k "len - k" rest] 2(2) by simp_all
    with a(2) adv(1) have "rep L (out @ take len rest) w''" "holds (d'\<lparr>d_ip := d_ip d' + (len - k)\<rparr>) (drop len rest)"
      by simp_all
    with a(1) run enough True show ?thesis by (auto simp: append_literal_def)
  next
    case False
    from Append_full [OF rep' m] False l obtain w'' where
      "WAppend wr (drop (d_ip d') (d_buf d')) (len - k) w' = Some (False, w'')" by auto
    with run False h' show ?thesis by (auto simp: append_literal_def holds_def)
  qed
qed

text \<open>
  The outcome of the loop on a state that holds \<open>rest\<close> when \<open>out\<close> was produced: it ends, and
  it reaches the end of the stream exactly when the rest decodes to at most \<open>L\<close> bytes.
\<close>

definition outcome_ok :: "nat \<Rightarrow> bytes \<Rightarrow> bytes \<Rightarrow> ('s SnappyDecompressor \<times> 'w) option \<Rightarrow> bool" where
  "outcome_ok L rest out res \<longleftrightarrow>
     (\<exists>d w. res = Some (d, w) \<and>
        (d_eof d \<longrightarrow> (\<exists>o'. decode wrap32 rest out = Some o' \<and> rep L o' w)) \<and>
        ((\<exists>o'. decode wrap32 rest out = Some o' \<and> length o' \<le> L) \<longrightarrow> d_eof d))"

lemma outcome_stop:
  assumes "\<not> d_eof d" and "decode wrap32 rest out = None \<or> (\<exists>o'. decode wrap32 rest out = Some o' \<and> L < length o')"
  shows "outcome_ok L rest out (Some (d, w))"
  using assms by (auto simp: outcome_ok_def)

text \<open>What every element does after it was run\<close>

lemma continue_ok:
  assumes h: "holds d rest" and rep: "rep L out w"
    and IH: "\<And>d w. holds d rest \<Longrightarrow> ready d \<Longrightarrow> rep L out w \<Longrightarrow> outcome_ok L rest out (tag_loop src wr d w)"
  shows "outcome_ok L rest out
     (Option.bind (MAYBE_REFILL src d) (\<lambda>(ok, d). if \<not> ok then Some (d, w) else tag_loop src wr d w))"
proof (cases rest)
  case Nil
  with MAYBE_REFILL_ok [OF h] obtain d' where "MAYBE_REFILL src d = Some (False, d')" "d_eof d'"
    by (auto simp: refilled_def)
  with Nil rep show ?thesis by (simp add: outcome_ok_def)
next
  case (Cons c r)
  show ?thesis
  proof (cases "tag_needed c \<le> Suc (length r)")
    case True
    with Cons MAYBE_REFILL_ok [OF h] obtain d' where "MAYBE_REFILL src d = Some (True, d')" "holds d' rest" "ready d'"
      by (auto simp: refilled_def)
    with IH rep show ?thesis by simp
  next
    case False
    with Cons MAYBE_REFILL_ok [OF h] obtain d' where d': "MAYBE_REFILL src d = Some (False, d')" "\<not> d_eof d'"
      by (auto simp: refilled_def)
    have "decode wrap32 rest out = None"
      using False parse_truncated [of r c wrap32] decode_parse_None [of wrap32 rest] Cons by simp
    with d' show ?thesis by (simp add: outcome_stop)
  qed
qed

text \<open>
  One round: the next element is run, and the loop goes on with a shorter rest; \<open>IH\<close> is what
  the rest of the loop does.
\<close>

lemma run_and_continue:
  assumes IH: "\<And>d rest' out w. length rest' < length rest \<Longrightarrow> holds d rest' \<Longrightarrow> ready d \<Longrightarrow> rep L out w \<Longrightarrow>
      outcome_ok L rest' out (tag_loop src wr d w)"
    and pe: "parse_element wrap32 rest = Some (e, r')" and e: "run_element e out = Some o1"
    and "holds d' r'" and "rep L o1 w'"
  shows "outcome_ok L rest out
    (Option.bind (MAYBE_REFILL src d') (\<lambda>(ok, d). if \<not> ok then Some (d, w') else tag_loop src wr d w'))"
proof -
  from continue_ok [OF assms(4,5) IH [OF parse_element_shorter [OF pe]]]
  show ?thesis unfolding outcome_ok_def decode_step [OF pe e] by simp
qed

lemma literal_round:
  assumes IH: "\<And>d rest' out w. length rest' < length rest \<Longrightarrow> holds d rest' \<Longrightarrow> ready d \<Longrightarrow> rep L out w \<Longrightarrow>
      outcome_ok L rest' out (tag_loop src wr d w)"
    and pe: "parse_element wrap32 rest = take_literal len r'" and h: "holds d' r'" and rep: "rep L out w" and "rest \<noteq> []"
  shows "outcome_ok L rest out
    (Option.bind (append_literal src wr len d' w) (\<lambda>(ok, d, w).
       if \<not> ok then Some (d, w)
       else Option.bind (MAYBE_REFILL src d) (\<lambda>(ok, d). if \<not> ok then Some (d, w) else tag_loop src wr d w)))"
proof (cases "len \<le> length r'")
  case False
  then have "decode wrap32 rest out = None"
    using pe \<open>rest \<noteq> []\<close> by (intro decode_parse_None) (simp_all add: take_literal_def)
  with append_literal_ok [OF h rep, of len] False show ?thesis by (auto simp: outcome_stop)
next
  case enough: True
  then have pe': "parse_element wrap32 rest = Some (Literal (take len r'), drop len r')"
    using pe by (simp add: take_literal_def)
  note lit = append_literal_ok [OF h rep, of len] and run = run_element.simps(1)
  show ?thesis
  proof (cases "length out + len \<le> L")
    case True
    with lit enough obtain d2 w2 where "append_literal src wr len d' w = Some (True, d2, w2)"
      "holds d2 (drop len r')" "rep L (out @ take len r') w2" by auto
    with run_and_continue [OF IH pe' run] show ?thesis by simp
  next
    case False
    with lit obtain d2 w2 where a: "append_literal src wr len d' w = Some (False, d2, w2)" "\<not> d_eof d2" by auto
    have "L < length (out @ take len r')" using False enough by simp
    from outcome_stop [OF a(2) decode_too_long [OF pe' run this]] a(1) show ?thesis by simp
  qed
qed

lemma copy_round:
  assumes IH: "\<And>d rest' out w. length rest' < length rest \<Longrightarrow> holds d rest' \<Longrightarrow> ready d \<Longrightarrow> rep L out w \<Longrightarrow>
      outcome_ok L rest' out (tag_loop src wr d w)"
    and pe: "parse_element wrap32 rest = Some (Copy off len, r')" and bnd: "1 \<le> len" "len \<le> 64" "off < 2 ^ 33"
    and h: "holds d' r'" and rep: "rep L out w"
  shows "outcome_ok L rest out
    (Option.bind (AppendFromSelf wr off len w) (\<lambda>(ok, w).
       if \<not> ok then Some (d', w)
       else Option.bind (MAYBE_REFILL src d') (\<lambda>(ok, d). if \<not> ok then Some (d, w) else tag_loop src wr d w)))"
proof (cases "off = 0 \<or> length out < off \<or> L < length out + len")
  case True
  from AppendFromSelf_bad [OF rep bnd True] obtain w' where a: "AppendFromSelf wr off len w = Some (False, w')" by blast
  have ne: "\<not> d_eof d'" using h by (simp add: holds_def)
  have "decode wrap32 rest out = None \<or> (\<exists>o'. decode wrap32 rest out = Some o' \<and> L < length o')"
  proof (cases "off = 0 \<or> length out < off")
    case bad: True
    then have "run_element (Copy off len) out = None" by simp
    from disjI1 [OF decode_run_None [OF pe this]] show ?thesis .
  next
    case ok: False
    then have "run_element (Copy off len) out = Some (copy_from off len out)" by simp
    from decode_too_long [OF pe this] ok True show ?thesis by auto
  qed
  from outcome_stop [OF ne this] a show ?thesis by simp
next
  case ok: False
  from AppendFromSelf_ok [OF rep bnd(1,2), of off] ok obtain w' where
    a: "AppendFromSelf wr off len w = Some (True, w')" "rep L (copy_from off len out) w'" by auto
  have "run_element (Copy off len) out = Some (copy_from off len out)" using ok by simp
  from run_and_continue [OF IH pe this h a(2)] a(1) show ?thesis by simp
qed

lemma tag_loop_ok:
  assumes "holds d rest" "ready d" "rep L out w"
  shows "outcome_ok L rest out (tag_loop src wr d w)"
  using assms
proof (induction "length rest" arbitrary: d rest out w rule: less_induct)
  case less
  note rep = less.prems(3)
  have IH: "outcome_ok L rest' out (tag_loop src wr d w)"
    if "length rest' < length rest" "holds d rest'" "ready d" "rep L out w" for d rest' out w
    using less.hyps that by blast
  obtain c r where rest: "rest = c # r" using ready_facts [OF less.prems(1,2)] by metis
  note h = less.prems(1) [unfolded rest]
  show ?case
  proof (cases "unat c mod 4 = LITERAL")
    case lit: True
    let ?m = "drop (Suc (d_ip d)) (d_buf d)" and ?avail = "d_ip_limit d - Suc (d_ip d)"
    have "d_ip_limit d \<le> length (d_buf d)" using h by (simp add: holds_def)
    then have "?avail \<le> length ?m" "1 \<le> unat c div 4 + 1" by (simp_all add: diff_le_mono)
    from TryFastAppend [OF rep this] show ?thesis
    proof (elim disjE exE conjE, goal_cases)
      case (2 w')
      obtain d' j where
        f: "tag_loop src wr d w = tag_loop src wr d' w'" "holds d' (drop j r)" "ready d'"
          "j = unat c div 4 + 1" "parse_element wrap32 rest = Some (Literal (take j r), drop j r)"
          "take j ?m = take j r"
        using fast_literal_step [OF h less.prems(2) lit 2(1,2,3), folded rest] .
      have "rep L (out @ take j r) w'" using 2(4) f(4,6) by simp
      from IH [OF parse_element_shorter [OF f(5)] f(2,3) this] show ?case
        unfolding f(1) outcome_ok_def decode_step [OF f(5) run_element.simps(1)] .
    next
      case 1
      obtain len d' j where
        l: "holds d' (drop j r)" "parse_element wrap32 rest = take_literal len (drop j r)"
        "tag_loop src wr d w = Option.bind (append_literal src wr len d' w) (\<lambda>(ok, d, w).
           if \<not> ok then Some (d, w)
           else Option.bind (MAYBE_REFILL src d) (\<lambda>(ok, d). if \<not> ok then Some (d, w) else tag_loop src wr d w))"
        using literal_step [OF h less.prems(2) lit 1(1), folded rest] .
      have "rest \<noteq> []" by (simp add: rest)
      from literal_round [OF IH l(2,1) rep this] show ?case unfolding l(3) .
    qed
  next
    case False
    obtain off len j d' where
      c: "parse_element wrap32 rest = Some (Copy off len, drop j r)" "1 \<le> len" "len \<le> 64" "off < 2 ^ 33"
        "holds d' (drop j r)"
      and run: "tag_loop src wr d w = Option.bind (AppendFromSelf wr off len w) (\<lambda>(ok, w).
         if \<not> ok then Some (d', w)
         else Option.bind (MAYBE_REFILL src d') (\<lambda>(ok, d). if \<not> ok then Some (d, w) else tag_loop src wr d w))"
      using copy_step [of d c r wr w, OF h less.prems(2) False, folded rest] .
    from copy_round [OF IH c rep] show ?thesis unfolding run .
  qed
qed

lemma DecompressAllTags_ok:
  assumes "src_inv s" "length (content s) < 2 ^ 32" "length scratch = kMaximumTagLength" "rep L [] w"
  shows "outcome_ok L (content s) []
     (DecompressAllTags src wr (SnappyDecompressor_init scratch r\<lparr>d_reader := s\<rparr>) w)"
  unfolding DecompressAllTags_def
proof (rule continue_ok)
  show "holds (SnappyDecompressor_init scratch r\<lparr>d_reader := s\<rparr>) (content s)"
    using assms by (simp add: holds_def SnappyDecompressor_init_def window_def)
qed (use assms(4) tag_loop_ok in auto)

lemma InternalUncompress_ok:
  assumes inv: "src_inv s" and small: "length (content s) < 2 ^ 32" and sc: "length scratch = kMaximumTagLength"
    and start: "\<And>n rest. varint32 (content s) 0 0 = Some (n, rest) \<Longrightarrow> start (unat n) w"
  shows "\<exists>ok s' w'. InternalUncompress scratch src wr s w = Some (ok, s', w') \<and>
     (ok \<longleftrightarrow> stream_output (content s) \<noteq> None) \<and>
     (\<forall>out. stream_output (content s) = Some out \<longrightarrow> rep (length out) out w')"
proof -
  obtain s1 where rl: "ReadUncompressedLength_loop src s 0 0 = (map_option fst (varint32 (content s) 0 0), s1)"
    and s1: "src_inv s1" "\<And>v rest. varint32 (content s) 0 0 = Some (v, rest) \<Longrightarrow> content s1 = rest"
    using read_length [OF inv, of 0 0] by blast
  let ?d = "SnappyDecompressor_init scratch s\<lparr>d_reader := s1\<rparr>"
  have read: "ReadUncompressedLength src (SnappyDecompressor_init scratch s) =
      (map_option fst (varint32 (content s) 0 0), ?d)"
    using rl by (simp add: ReadUncompressedLength_def SnappyDecompressor_init_def)
  show ?thesis
  proof (cases "varint32 (content s) 0 0")
    case None
    with read show ?thesis
      by (intro exI [of _ False]) (simp add: InternalUncompress_def stream_output_def)
  next
    case (Some p)
    obtain n rest where v: "varint32 (content s) 0 0 = Some (n, rest)" using Some by (cases p) simp
    let ?w = "SetExpectedLength wr (unat n) w"
    have c: "content s1 = rest" using s1(2) v .
    have "length rest \<le> length (content s)" using varint32_shorter [OF v] .
    with small c have "length (content s1) < 2 ^ 32" by simp
    from DecompressAllTags_ok [OF s1(1) this sc SetExpectedLength [OF start [OF v]], of s] c obtain d' w' where
      run: "DecompressAllTags src wr ?d ?w = Some (d', w')"
      and eof: "d_eof d' \<Longrightarrow> \<exists>o'. decode wrap32 rest [] = Some o' \<and> rep (unat n) o' w'"
      "\<And>o'. decode wrap32 rest [] = Some o' \<Longrightarrow> length o' \<le> unat n \<Longrightarrow> d_eof d'"
      unfolding outcome_ok_def by auto
    have "InternalUncompress scratch src wr s w = Some (d_eof d' \<and> CheckLength wr w', SnappyDecompressor_destroy src d', w')"
      by (simp add: InternalUncompress_def read v InternalUncompressAllTags_def run)
    moreover have "d_eof d' \<and> CheckLength wr w' \<longleftrightarrow> stream_output (content s) \<noteq> None"
      using eof CheckLength by (fastforce simp: stream_output_def v split: option.splits)
    moreover have "\<forall>out. stream_output (content s) = Some out \<longrightarrow> rep (length out) out w'"
      using eof by (fastforce simp: stream_output_def v split: option.splits if_splits)
    ultimately show ?thesis by blast
  qed
qed

end

interpretation array_array: decompression byte_array_source bas_inv bas_content array_writer "aw_start M" "aw_rep M" for M
  by unfold_locales

interpretation array_validation: decompression byte_array_source bas_inv bas_content validator dv_start dv_rep
  by unfold_locales

end
