(* ===== verification/SnappyUncompress.thy ===== *)
theory SnappyUncompress
  imports SnappyDecompressSpec
begin

text \<open>
  The decompression routines of \<open>snappy.h\<close> and \<open>snappy-c.h\<close>: \<open>GetUncompressedLength\<close>,
  \<open>RawUncompress\<close>, \<open>Uncompress\<close>, \<open>IsValidCompressedBuffer\<close> and their C names, and what they
  mean in terms of the format.
\<close>

section \<open>Routines\<close>

text \<open>
  The argument \<open>scratch\<close> is what the memory of the decompressor's \<open>scratch_\<close> happens to
  hold. A flat array is handed over as its contents and returned as its new contents.
\<close>

definition GetUncompressedLength_source ::
  "bytes \<Rightarrow> 's source_ops \<Rightarrow> 's \<Rightarrow> 32 word option \<times> 's" where
  "GetUncompressedLength_source scratch src s =
     (let (result, d) = ReadUncompressedLength src (SnappyDecompressor_init scratch s)
      in (result, SnappyDecompressor_destroy src d))"

definition GetUncompressedLength :: "bytes \<Rightarrow> nat option" where
  "GetUncompressedLength start = map_option (\<lambda>(v, _). unat v) (Parse32WithLimit start)"

definition RawUncompress_source ::
  "bytes \<Rightarrow> 's source_ops \<Rightarrow> 's \<Rightarrow> bytes \<Rightarrow> (bool \<times> bytes \<times> 's) option" where
  "RawUncompress_source scratch src s uncompressed =
     do {
       (ok, s, w) \<leftarrow> InternalUncompress scratch src array_writer s (SnappyArrayWriter_init uncompressed);
       Some (ok, aw_mem w, s)
     }"

definition RawUncompress :: "bytes \<Rightarrow> bytes \<Rightarrow> bytes \<Rightarrow> (bool \<times> bytes) option" where
  "RawUncompress scratch compressed uncompressed =
     do {
       (ok, m, _) \<leftarrow> RawUncompress_source scratch byte_array_source (ByteArraySource_init compressed) uncompressed;
       Some (ok, m)
     }"

text \<open>\<open>std::string::resize\<close>, which \<open>STLStringResizeUninitialized\<close> calls\<close>

definition string_resize :: "bytes \<Rightarrow> nat \<Rightarrow> bytes" where
  "string_resize s n = take n s @ replicate (n - length s) 0"

text \<open>The argument \<open>max_size\<close> is what \<open>uncompressed->max_size()\<close> returns.\<close>

definition Uncompress :: "bytes \<Rightarrow> nat \<Rightarrow> bytes \<Rightarrow> bytes \<Rightarrow> (bool \<times> bytes) option" where
  "Uncompress scratch max_size compressed uncompressed =
     (case GetUncompressedLength compressed of
        None \<Rightarrow> Some (False, uncompressed)
      | Some ulength \<Rightarrow>
          if max_size < ulength then Some (False, uncompressed)
          else RawUncompress scratch compressed (string_resize uncompressed ulength))"

definition IsValidCompressedBuffer :: "bytes \<Rightarrow> bytes \<Rightarrow> bool option" where
  "IsValidCompressedBuffer scratch compressed =
     do {
       (ok, _, _) \<leftarrow> InternalUncompress scratch byte_array_source validator
         (ByteArraySource_init compressed) SnappyDecompressionValidator_init;
       Some ok
     }"

section \<open>The C interface\<close>

datatype snappy_status = SNAPPY_OK | SNAPPY_INVALID_INPUT | SNAPPY_BUFFER_TOO_SMALL

text \<open>Results: the status, the output array and \<open>*uncompressed_length\<close>\<close>

definition snappy_uncompress ::
  "bytes \<Rightarrow> bytes \<Rightarrow> bytes \<Rightarrow> nat \<Rightarrow> (snappy_status \<times> bytes \<times> nat) option" where
  "snappy_uncompress scratch compressed uncompressed uncompressed_length =
     (case GetUncompressedLength compressed of
        None \<Rightarrow> Some (SNAPPY_INVALID_INPUT, uncompressed, uncompressed_length)
      | Some real_uncompressed_length \<Rightarrow>
          if uncompressed_length < real_uncompressed_length
          then Some (SNAPPY_BUFFER_TOO_SMALL, uncompressed, uncompressed_length)
          else
            do {
              (ok, m) \<leftarrow> RawUncompress scratch compressed uncompressed;
              Some (if ok then (SNAPPY_OK, m, real_uncompressed_length)
                    else (SNAPPY_INVALID_INPUT, m, uncompressed_length))
            })"

definition snappy_uncompressed_length :: "bytes \<Rightarrow> nat \<Rightarrow> snappy_status \<times> nat" where
  "snappy_uncompressed_length compressed result =
     (case GetUncompressedLength compressed of
        Some n \<Rightarrow> (SNAPPY_OK, n)
      | None \<Rightarrow> (SNAPPY_INVALID_INPUT, result))"

definition snappy_validate_compressed_buffer :: "bytes \<Rightarrow> bytes \<Rightarrow> snappy_status option" where
  "snappy_validate_compressed_buffer scratch compressed =
     do {
       ok \<leftarrow> IsValidCompressedBuffer scratch compressed;
       Some (if ok then SNAPPY_OK else SNAPPY_INVALID_INPUT)
     }"

section \<open>Length prefixes\<close>

text \<open>What \<open>Parse32WithLimit\<close> accepts, the decompressor reads alike.\<close>

lemmas varint32_unfold =
  varint32.simps [of _ _ "0 :: nat"] varint32.simps [of _ _ "7 :: nat"] varint32.simps [of _ _ "14 :: nat"]
  varint32.simps [of _ _ "21 :: nat"] varint32.simps [of _ _ "28 :: nat"]

lemma parse_varint32: "Parse32WithLimit bs = Some r \<Longrightarrow> varint32 bs 0 0 = Some r"
proof -
  have small: "b < 16 \<Longrightarrow> b < 128" for b :: byte by (simp add: word_less_nat_alt)
  show "Parse32WithLimit bs = Some r \<Longrightarrow> varint32 bs 0 0 = Some r"
    by (auto simp: Parse32WithLimit_def varint32_unfold Let_def small split: list.splits if_splits)
qed

lemma varint32_encode: "varint32 (Encode32 v @ rest) 0 0 = Some (v, rest)"
  by (rule parse_varint32) (rule parse_encode)

lemma stream_output_length: "stream_output bs = Some out \<Longrightarrow> varint32 bs 0 0 = Some (v, rest) \<Longrightarrow> length out = unat v"
  by (auto simp: stream_output_def split: option.splits if_splits)

end
