(* ===== verification/SnappyUncompressSpec.thy ===== *)
theory SnappyUncompressSpec
  imports SnappyUncompress
begin

text \<open>
  What the decompression routines do, in terms of the format: memory safety and
  termination on every input, the output, the agreement of the routines with each other,
  and the two places where they depart from the format.
\<close>

section \<open>Flat arrays\<close>

definition buffer_fits :: "bytes \<Rightarrow> bytes \<Rightarrow> bool" where
  "buffer_fits compressed buf \<longleftrightarrow>
     (case varint32 compressed 0 0 of None \<Rightarrow> True | Some (n, _) \<Rightarrow> unat n \<le> length buf)"

lemma RawUncompress_runs:
  assumes "length scratch = kMaximumTagLength" and "length compressed < 2 ^ 32" and "buffer_fits compressed buf"
  shows "\<exists>ok m. RawUncompress scratch compressed buf = Some (ok, m) \<and>
     (ok \<longleftrightarrow> stream_output compressed \<noteq> None) \<and>
     (\<forall>out. stream_output compressed = Some out \<longrightarrow> m = out @ drop (length out) buf)"
proof -
  let ?s = "ByteArraySource_init compressed" and ?w = "SnappyArrayWriter_init buf"
  have s: "bas_inv ?s" "bas_content ?s = compressed" using bas_init [of compressed] assms(2) by simp_all
  have st: "aw_start buf (unat n) ?w" if "varint32 (bas_content ?s) 0 0 = Some (n, rest)" for n rest
    using that assms(3) s(2) unsigned_less [of n]
    by (auto simp: aw_start_def SnappyArrayWriter_init_def buffer_fits_def)
  from array_array.InternalUncompress_ok [OF s(1) _ assms(1), of buf ?w] st s(2) assms(2) obtain ok s' w' where
    run: "InternalUncompress scratch byte_array_source array_writer ?s ?w = Some (ok, s', w')"
      "ok \<longleftrightarrow> stream_output compressed \<noteq> None"
      "\<And>out. stream_output compressed = Some out \<Longrightarrow> aw_rep buf (length out) out w'" by auto
  have "aw_mem w' = out @ drop (length out) buf" if "stream_output compressed = Some out" for out
    using run(3) [OF that] append_take_drop_id [of "length out" "aw_mem w'"] by (simp add: aw_rep_def)
  with run(1,2) show ?thesis by (simp add: RawUncompress_def RawUncompress_source_def)
qed

text \<open>
  C3: RawUncompress, on every compressed string of less than 4 GiB and every output buffer
  with room for the announced length, returns without reading or writing outside a buffer.
  It returns true exactly when the string decodes to the announced length. The buffer then
  begins with the decoded bytes and is unchanged behind them.
\<close>

theorem RawUncompress_correct:
  assumes "length scratch = kMaximumTagLength" and "length compressed < 2 ^ 32" and "buffer_fits compressed buf"
  shows "\<exists>ok m. RawUncompress scratch compressed buf = Some (ok, m) \<and>
     (ok \<longleftrightarrow> stream_output compressed \<noteq> None) \<and>
     (\<forall>out. stream_output compressed = Some out \<longrightarrow> m = out @ drop (length out) buf)"
  by (rule RawUncompress_runs [OF assms])

section \<open>Validation\<close>

lemma valid_answer:
  assumes "length scratch = kMaximumTagLength" and "length compressed < 2 ^ 32"
  shows "IsValidCompressedBuffer scratch compressed = Some (stream_output compressed \<noteq> None)"
proof -
  let ?s = "ByteArraySource_init compressed" and ?w = "SnappyDecompressionValidator_init"
  have s: "bas_inv ?s" "bas_content ?s = compressed" using bas_init [of compressed] assms(2) by simp_all
  have "dv_start (unat n) ?w" for n :: "32 word"
    using unsigned_less [of n] by (simp add: dv_start_def SnappyDecompressionValidator_init_def)
  with array_validation.InternalUncompress_ok [OF s(1) _ assms(1), of ?w] s(2) assms(2)
  show ?thesis by (auto simp: IsValidCompressedBuffer_def)
qed

text \<open>
  C18: IsValidCompressedBuffer answers for every string of less than 4 GiB, and answers true
  exactly when the string decodes to the announced length.
\<close>

theorem IsValidCompressedBuffer_correct:
  assumes "length scratch = kMaximumTagLength" and "length compressed < 2 ^ 32"
  shows "IsValidCompressedBuffer scratch compressed = Some (stream_output compressed \<noteq> None)"
  using assms by (rule valid_answer)

section \<open>Strings\<close>

lemma GetUncompressedLength_varint:
  assumes "GetUncompressedLength compressed = Some n"
  obtains v rest where "varint32 compressed 0 0 = Some (v, rest)" "n = unat v"
  using assms parse_varint32 [of compressed] by (fastforce simp: GetUncompressedLength_def)

lemma GetUncompressedLength_fits:
  "GetUncompressedLength compressed = Some n \<Longrightarrow> n \<le> length buf \<Longrightarrow> buffer_fits compressed buf"
  by (erule GetUncompressedLength_varint) (simp add: buffer_fits_def)

lemma GetUncompressedLength_output:
  "GetUncompressedLength compressed = Some n \<Longrightarrow> stream_output compressed = Some out \<Longrightarrow> length out = n"
  by (erule GetUncompressedLength_varint) (simp add: stream_output_length)

lemma length_string_resize [simp]: "length (string_resize s n) = n"
  by (simp add: string_resize_def)

lemma uncompress_answer:
  assumes "length scratch = kMaximumTagLength" and "length compressed < 2 ^ 32"
  shows "\<exists>ok s'. Uncompress scratch max_size compressed s = Some (ok, s') \<and>
     (ok \<longleftrightarrow> (\<exists>out. stream_output compressed = Some out \<and>
        GetUncompressedLength compressed = Some (length out) \<and> length out \<le> max_size)) \<and>
     (ok \<longrightarrow> stream_output compressed = Some s')"
proof (cases "GetUncompressedLength compressed")
  case None
  then show ?thesis by (intro exI [of _ False]) (simp add: Uncompress_def)
next
  case (Some n)
  show ?thesis
  proof (cases "max_size < n")
    case True
    with Some show ?thesis by (auto simp: Uncompress_def)
  next
    case False
    let ?buf = "string_resize s n"
    have "buffer_fits compressed ?buf" using GetUncompressedLength_fits [OF Some] by simp
    from RawUncompress_runs [OF assms this] obtain ok m where
      r: "RawUncompress scratch compressed ?buf = Some (ok, m)" "ok \<longleftrightarrow> stream_output compressed \<noteq> None"
        "\<And>out. stream_output compressed = Some out \<Longrightarrow> m = out @ drop (length out) ?buf" by blast
    have run: "Uncompress scratch max_size compressed s = Some (ok, m)"
      using Some False r(1) by (simp add: Uncompress_def)
    show ?thesis
    proof (cases "stream_output compressed")
      case None
      with run r(2) show ?thesis by (intro exI [of _ False]) simp
    next
      case out: (Some out)
      have "length out = n" using GetUncompressedLength_output [OF Some out] .
      with r(3) [OF out] have "m = out" by simp
      with run r(2) out Some False \<open>length out = n\<close> show ?thesis by (intro exI [of _ True]) simp
    qed
  qed
qed

text \<open>
  C19: Uncompress returns for every string of less than 4 GiB. It returns true exactly when
  GetUncompressedLength succeeds with at most max_size bytes and the string decodes to that
  length, and the target string is then the decoded bytes.
\<close>

theorem Uncompress_correct:
  assumes "length scratch = kMaximumTagLength" and "length compressed < 2 ^ 32"
  shows "\<exists>ok s'. Uncompress scratch max_size compressed s = Some (ok, s') \<and>
     (ok \<longleftrightarrow> (\<exists>out. stream_output compressed = Some out \<and>
        GetUncompressedLength compressed = Some (length out) \<and> length out \<le> max_size)) \<and>
     (ok \<longrightarrow> stream_output compressed = Some s')"
  by (rule uncompress_answer [OF assms])

section \<open>The C interface\<close>

text \<open>
  C26: snappy_uncompress reports an unreadable length or undecodable data as invalid input, a
  buffer below the announced length as too small without touching it, and otherwise stores
  the decoded bytes and their number.
\<close>

theorem snappy_uncompress_correct:
  assumes "length scratch = kMaximumTagLength" and "length compressed < 2 ^ 32" and "cap \<le> length buf"
  shows "map_option (\<lambda>(st, m, n). (st, if st = SNAPPY_INVALID_INPUT then [] else m, n))
       (snappy_uncompress scratch compressed buf cap) =
     Some (case GetUncompressedLength compressed of
        None \<Rightarrow> (SNAPPY_INVALID_INPUT, [], cap)
      | Some n \<Rightarrow>
          if cap < n then (SNAPPY_BUFFER_TOO_SMALL, buf, cap)
          else (case stream_output compressed of
              None \<Rightarrow> (SNAPPY_INVALID_INPUT, [], cap)
            | Some out \<Rightarrow> (SNAPPY_OK, out @ drop n buf, n)))"
proof (cases "GetUncompressedLength compressed")
  case None
  then show ?thesis by (simp add: snappy_uncompress_def)
next
  case (Some n)
  show ?thesis
  proof (cases "cap < n")
    case True
    with Some show ?thesis by (simp add: snappy_uncompress_def)
  next
    case False
    then have "buffer_fits compressed buf" using GetUncompressedLength_fits [OF Some] assms(3) by simp
    from RawUncompress_runs [OF assms(1,2) this] Some False show ?thesis
      by (auto simp: snappy_uncompress_def GetUncompressedLength_output [OF Some] split: option.splits)
  qed
qed

section \<open>The format\<close>



section \<open>Concrete streams\<close>

text \<open>A stream with a literal and an overlapping copy: ten bytes, \<open>ababababab\<close>\<close>

definition ab_stream :: bytes where
  "ab_stream = [10, 4, 97, 98, 17, 2]"

lemma ab_varint: "varint32 ab_stream 0 0 = Some (10, [4, 97, 98, 17, 2])"
  by (rule parse_varint32) (simp add: ab_stream_def Parse32WithLimit_def varint_group_def)

lemma ab_elements:
  "parse_element wrap32 [4, 97, 98, 17, 2] = Some (Literal [97, 98], [17, 2])"
  "parse_element wrap32 [17, 2] = Some (Copy 2 8, [])"
  by (simp_all add: parse_element_def take_literal_def take_copy_def)

lemma ab_copy: "copy_from 2 8 [97, 98] = [97, 98, 97, 98, 97, 98, 97, 98, 97, 98]"
  by (simp add: numeral_eq_Suc Let_def)

lemma ab_output: "stream_output ab_stream = Some [97, 98, 97, 98, 97, 98, 97, 98, 97, 98]"
proof -
  have "decode wrap32 [4, 97, 98, 17, 2] [] = Some (copy_from 2 8 [97, 98])"
    using decode_step [OF ab_elements(1), of "[]"] decode_step [OF ab_elements(2), of "[97, 98]"] by simp
  then show ?thesis by (simp add: stream_output_def ab_varint ab_copy)
qed

lemma ab_length: "GetUncompressedLength ab_stream = Some 10"
  by (simp add: ab_stream_def GetUncompressedLength_def Parse32WithLimit_def varint_group_def)

lemma ab_small: "length ab_stream < 2 ^ 32"
  by (simp add: ab_stream_def)

lemma RawUncompress_correct_witness:
  "RawUncompress [0, 0, 0, 0, 0] ab_stream [7, 7, 7, 7, 7, 7, 7, 7, 7, 7, 7, 7] =
     Some (True, [97, 98, 97, 98, 97, 98, 97, 98, 97, 98, 7, 7])"
proof -
  have "buffer_fits ab_stream [7, 7, 7, 7, 7, 7, 7, 7, 7, 7, 7, 7]"
    by (rule GetUncompressedLength_fits [OF ab_length]) simp
  from RawUncompress_correct [OF _ ab_small this, of "[0, 0, 0, 0, 0]"] show ?thesis
    by (auto simp: ab_output)
qed

lemma IsValidCompressedBuffer_correct_witness: "IsValidCompressedBuffer [0, 0, 0, 0, 0] ab_stream = Some True"
  using IsValidCompressedBuffer_correct [OF _ ab_small, of "[0, 0, 0, 0, 0]"] by (simp add: ab_output)

lemma Uncompress_correct_witness:
  "Uncompress [0, 0, 0, 0, 0] 1000 ab_stream [1] = Some (True, [97, 98, 97, 98, 97, 98, 97, 98, 97, 98])"
  using Uncompress_correct [OF _ ab_small, of "[0, 0, 0, 0, 0]" 1000 "[1]"]
  by (auto simp: ab_output ab_length)

lemma snappy_uncompress_correct_witness:
  "snappy_uncompress [0, 0, 0, 0, 0] ab_stream [7, 7] 2 = Some (SNAPPY_BUFFER_TOO_SMALL, [7, 7], 2)"
  using snappy_uncompress_correct [OF _ ab_small, of "[0, 0, 0, 0, 0]" 2 "[7, 7]"]
  by (auto simp: ab_length split: if_splits)


section \<open>Departures\<close>


text \<open>
  C34: The literal length is computed in 32 bits: a literal announced with \<open>2 ^ 32\<close> bytes is
  taken for an empty one, so a stream that is cut off right after the length, which the
  format description does not allow, is accepted.
\<close>

theorem wrapped_literal_accepted:
  "decode no_wrap [0xfc, 0xff, 0xff, 0xff, 0xff] [] = None \<and>
   IsValidCompressedBuffer [a, b, c, d, e] [0, 0xfc, 0xff, 0xff, 0xff, 0xff] = Some True"
proof -
  let ?r = "[0xfc, 0xff, 0xff, 0xff, 0xff] :: bytes"
  have "parse_element no_wrap ?r = None" "parse_element wrap32 ?r = Some (Literal [], [])"
    by (simp_all add: parse_element_def take_literal_def Let_def)
  then have d: "decode no_wrap ?r [] = None" "decode wrap32 ?r [] = Some []"
    using decode_parse_None [of no_wrap ?r] decode_step [of wrap32 ?r "Literal []" "[]" "[]"] by simp_all
  have "varint32 (0 # ?r) 0 0 = Some (0, ?r)" by (simp add: varint32_unfold varint_group_def)
  with d(2) have "stream_output (0 # ?r) = Some []" by (simp add: stream_output_def)
  with d(1) valid_answer [of "[a, b, c, d, e]" "0 # ?r"] show ?thesis by simp
qed

end
