(* ===== verification/SnappyRoundTrip.thy ===== *)
theory SnappyRoundTrip
  imports SnappyCompressSpec SnappyUncompressSpec
begin

text \<open>
  The compression routines of \<open>snappy.h\<close> and \<open>snappy-c.h\<close> on strings, and the round trip:
  whatever is compressed is decompressed to itself.
\<close>

section \<open>Routines\<close>

text \<open>\<open>Compress\<close> to a string: the result is the string and the returned size.\<close>

definition Compress_string ::
  "(nat \<Rightarrow> bytes) \<Rightarrow> hash_table \<Rightarrow> hash_table \<Rightarrow> bytes \<Rightarrow> bytes \<Rightarrow> (bytes \<times> nat) option" where
  "Compress_string fresh small_junk large_junk input compressed =
     do {
       let buf = string_resize compressed (MaxCompressedLength (length input));
       (buf, compressed_length) \<leftarrow> RawCompress fresh small_junk large_junk input buf;
       Some (string_resize buf compressed_length, compressed_length)
     }"

definition snappy_max_compressed_length :: "nat \<Rightarrow> nat" where
  "snappy_max_compressed_length source_length = MaxCompressedLength source_length"

definition snappy_compress ::
  "(nat \<Rightarrow> bytes) \<Rightarrow> hash_table \<Rightarrow> hash_table \<Rightarrow> bytes \<Rightarrow> bytes \<Rightarrow> nat \<Rightarrow> (snappy_status \<times> bytes \<times> nat) option" where
  "snappy_compress fresh small_junk large_junk input compressed compressed_length =
     (if compressed_length < snappy_max_compressed_length (length input)
      then Some (SNAPPY_BUFFER_TOO_SMALL, compressed, compressed_length)
      else do {
        (compressed, compressed_length) \<leftarrow> RawCompress fresh small_junk large_junk input compressed;
        Some (SNAPPY_OK, compressed, compressed_length)
      })"

section \<open>Correctness\<close>

text \<open>What the memory of a \<open>WorkingMemory\<close> and of \<open>new char[n]\<close> can hold\<close>

definition memory_ok :: "(nat \<Rightarrow> bytes) \<Rightarrow> hash_table \<Rightarrow> hash_table \<Rightarrow> bool" where
  "memory_ok fresh small_junk large_junk \<longleftrightarrow>
     (\<forall>n. length (fresh n) = n) \<and> length small_junk = 1024 \<and> length large_junk = kMaxHashTableSize"

lemma RawCompress_ok:
  assumes mem: "memory_ok fresh sj lj" and small: "length input < 2 ^ 32"
    and buf: "MaxCompressedLength (length input) \<le> length buf"
  shows "\<exists>m n. RawCompress fresh sj lj input buf = Some (m, n) \<and> length m = length buf \<and>
     n \<le> MaxCompressedLength (length input) \<and> encodes (take n m) input"
proof -
  let ?s = "ByteArraySource_init input" and ?k = "UncheckedByteArraySink_init buf"
  have s: "bas_inv ?s" "bas_content ?s = input" using bas_init [of input] small by simp_all
  have k: "bask_inv ?k" "bask_written ?k = []" "bask_room ?k = length buf" using bask_init by simp_all
  have m: "\<And>n. length (fresh n) = n" "length sj = 1024" "length lj = kMaxHashTableSize"
    using mem by (simp_all add: memory_ok_def)
  have "length (bas_content ?s) < 2 ^ 32" "MaxCompressedLength (length (bas_content ?s)) \<le> bask_room ?k"
    using s(2) k(3) small buf by simp_all
  from array_compression.Compress_ok [OF s(1) k(1) this m] obtain enc s' k' where
    r: "Compress fresh sj lj byte_array_source byte_array_sink ?s ?k = Some (length enc, s', k')" "bask_inv k'"
      "bask_written k' = enc" "bask_room k' = length buf - length enc"
      "length enc \<le> MaxCompressedLength (length input)" "encodes enc input"
    unfolding s(2) k(2,3) by auto
  have d: "snk_dest k' = length enc" "take (length enc) (snk_array k') = enc"
    using r(2,3) by (auto simp: bask_inv_def bask_written_def)
  have "length (snk_array k') = length buf" using r(2,4,5) d(1) buf by (simp add: bask_inv_def bask_room_def)
  with r d show ?thesis by (simp add: RawCompress_def CurrentDestination_def)
qed

lemma encodes_output:
  assumes "encodes enc x" "length x < 2 ^ 32"
  shows "stream_output enc = Some x" "GetUncompressedLength enc = Some (length x)"
proof -
  obtain body where b: "enc = Encode32 (of_nat (length x)) @ body" "\<And>wr. wr_ok wr \<Longrightarrow> decode wr body [] = Some x"
    using assms(1) by (auto simp: encodes_def)
  have u: "unat (of_nat (length x) :: 32 word) = length x" using assms(2) by (simp add: unat_of_nat)
  show "stream_output enc = Some x"
    using b(2) [OF wr_ok_instances(2)] u by (simp add: stream_output_def b(1) varint32_encode)
  show "GetUncompressedLength enc = Some (length x)"
    using u by (simp add: GetUncompressedLength_def b(1) parse_encode)
qed

text \<open>
  C4: RawCompress returns for every input of less than 4 GiB and every output buffer of at
  least MaxCompressedLength bytes: no access leaves a buffer and no assertion fails, whatever
  the uninitialised memory holds. The output has at most MaxCompressedLength bytes and
  is a well-formed stream of the format description that decodes to the input.
\<close>

theorem RawCompress_correct:
  assumes "memory_ok fresh small_junk large_junk" and "length input < 2 ^ 32"
    and "MaxCompressedLength (length input) \<le> length buf"
  shows "\<exists>m n. RawCompress fresh small_junk large_junk input buf = Some (m, n) \<and> length m = length buf \<and>
     n \<le> MaxCompressedLength (length input) \<and>
     (\<exists>body. take n m = Encode32 (of_nat (length input)) @ body \<and> decode no_wrap body [] = Some input)"
  using RawCompress_ok [OF assms] wr_ok_instances(1) unfolding encodes_def by blast

lemma Compress_string_ok:
  assumes "memory_ok fresh sj lj" and "length input < 2 ^ 32"
  shows "\<exists>c. Compress_string fresh sj lj input s = Some (c, length c) \<and> encodes c input \<and>
     length c \<le> MaxCompressedLength (length input)"
proof -
  let ?buf = "string_resize s (MaxCompressedLength (length input))"
  obtain m n where r: "RawCompress fresh sj lj input ?buf = Some (m, n)" "length m = length ?buf"
    "n \<le> MaxCompressedLength (length input)" "encodes (take n m) input"
    using RawCompress_ok [OF assms, of ?buf] by auto
  have "n \<le> length m" using r(2,3) by simp
  then have "string_resize m n = take n m" "length (take n m) = n" by (simp_all add: string_resize_def)
  with r show ?thesis by (simp add: Compress_string_def)
qed

text \<open>
  C1: Round trip. Compress succeeds on every input of less than 2 GiB, and Uncompress of its
  result succeeds and gives the input back, into whatever string, when the input is no longer
  than the longest string.
\<close>

theorem compress_uncompress:
  assumes "memory_ok fresh small_junk large_junk" and "length scratch = kMaximumTagLength"
    and "length input < 2 ^ 31" and "length input \<le> max_size"
  shows "\<exists>c. Compress_string fresh small_junk large_junk input s = Some (c, length c) \<and>
     Uncompress scratch max_size c t = Some (True, input) \<and>
     IsValidCompressedBuffer scratch c = Some True \<and> GetUncompressedLength c = Some (length input)"
proof -
  have small: "length input < 2 ^ 32" using assms(3) by simp
  obtain c where c: "Compress_string fresh small_junk large_junk input s = Some (c, length c)" "encodes c input"
    "length c \<le> MaxCompressedLength (length input)"
    using Compress_string_ok [OF assms(1) small] by blast
  note out = encodes_output [OF c(2) small]
  have lc: "length c < 2 ^ 32" using c(3) assms(3) by (simp add: MaxCompressedLength_small)
  have "Uncompress scratch max_size c t = Some (True, input)"
    using uncompress_answer [OF assms(2) lc, of max_size t] out assms(4) by auto
  with c(1) out valid_answer [OF assms(2) lc] show ?thesis by simp
qed

text \<open>
  C27: For inputs of less than 2 GiB, snappy_compress refuses a buffer below
  snappy_max_compressed_length without touching it, and with any larger one succeeds with a string that snappy_uncompress turns back into the
  input.
\<close>

theorem snappy_compress_correct:
  assumes "memory_ok fresh small_junk large_junk" and "length scratch = kMaximumTagLength"
    and "length input < 2 ^ 31" and "cap \<le> length buf" and "length input \<le> length out"
  shows "if cap < snappy_max_compressed_length (length input)
     then snappy_compress fresh small_junk large_junk input buf cap = Some (SNAPPY_BUFFER_TOO_SMALL, buf, cap)
     else \<exists>m n. snappy_compress fresh small_junk large_junk input buf cap = Some (SNAPPY_OK, m, n) \<and> n \<le> cap \<and>
       snappy_uncompress scratch (take n m) out (length out) =
         Some (SNAPPY_OK, input @ drop (length input) out, length input)"
proof (cases "cap < snappy_max_compressed_length (length input)")
  case True
  then show ?thesis by (simp add: snappy_compress_def)
next
  case False
  have small: "length input < 2 ^ 32" using assms(3) by simp
  have cap: "MaxCompressedLength (length input) \<le> cap" using False by (simp add: snappy_max_compressed_length_def)
  have "MaxCompressedLength (length input) \<le> length buf" using cap assms(4) by simp
  from RawCompress_ok [OF assms(1) small this] obtain m n where
    r: "RawCompress fresh small_junk large_junk input buf = Some (m, n)" "length m = length buf"
      "n \<le> MaxCompressedLength (length input)" "encodes (take n m) input" by blast
  note e = encodes_output [OF r(4) small]
  have "length (take n m) < 2 ^ 32" using r(3) assms(3) by (simp add: MaxCompressedLength_small)
  from RawUncompress_runs [OF assms(2) this GetUncompressedLength_fits [OF e(2) assms(5)]] e assms(5)
  have "snappy_uncompress scratch (take n m) out (length out) =
      Some (SNAPPY_OK, input @ drop (length input) out, length input)"
    by (auto simp: snappy_uncompress_def)
  with False r(1,3) cap show ?thesis by (simp add: snappy_compress_def)
qed

section \<open>Witnesses\<close>

definition zero_memory :: "nat \<Rightarrow> bytes" where
  "zero_memory n = replicate n 0"

lemma zero_memory_ok: "memory_ok zero_memory (replicate 1024 0) (replicate 16384 0)"
  by (simp add: memory_ok_def zero_memory_def)

lemma RawCompress_correct_witness:
  "\<exists>m n. RawCompress zero_memory (replicate 1024 0) (replicate 16384 0) [1, 2, 3] (replicate 40 0) = Some (m, n) \<and>
     length m = 40 \<and> n \<le> MaxCompressedLength 3 \<and>
     (\<exists>body. take n m = Encode32 3 @ body \<and> decode no_wrap body [] = Some [1, 2, 3])"
  using RawCompress_correct [OF zero_memory_ok, of "[1, 2, 3]" "replicate 40 0"]
  by (simp add: MaxCompressedLength_small)

lemma compress_uncompress_witness:
  "\<exists>c. Compress_string zero_memory (replicate 1024 0) (replicate 16384 0) [1, 2, 3] [] = Some (c, length c) \<and>
     Uncompress [0, 0, 0, 0, 0] 100 c [9] = Some (True, [1, 2, 3]) \<and>
     IsValidCompressedBuffer [0, 0, 0, 0, 0] c = Some True \<and> GetUncompressedLength c = Some 3"
  using compress_uncompress [OF zero_memory_ok, of "[0, 0, 0, 0, 0]" "[1, 2, 3]" 100 "[]" "[9]"]
  by (simp flip: numeral_3_eq_3)

lemma snappy_compress_correct_witness:
  "\<exists>m n. snappy_compress zero_memory (replicate 1024 0) (replicate 16384 0) [1, 2, 3] (replicate 40 0) 40 =
       Some (SNAPPY_OK, m, n) \<and> n \<le> 40 \<and>
     snappy_uncompress [0, 0, 0, 0, 0] (take n m) [7, 7, 7, 7] 4 = Some (SNAPPY_OK, [1, 2, 3, 7], 3)"
  using snappy_compress_correct [OF zero_memory_ok, of "[0, 0, 0, 0, 0]" "[1, 2, 3]" 40 "replicate 40 0" "[7, 7, 7, 7]"]
  by (simp add: snappy_max_compressed_length_def MaxCompressedLength_small flip: numeral_3_eq_3)

end
