(* ===== verification/SnappyIOVec.thy ===== *)
theory SnappyIOVec
  imports SnappyUncompressSpec
begin

text \<open>
  Uncompressing into scattered buffers: \<open>SnappyIOVecWriter\<close> and \<open>RawUncompressToIOVec\<close>
  (\<open>snappy.cc\<close>), the writer as another instance of the contract of \<open>SnappyWriters\<close>.
\<close>

section \<open>The writer\<close>

text \<open>
  The array of \<open>struct iovec\<close> is the list of its buffers, which do not overlap;
  \<open>output_iov_count_\<close> is its length. The limit starts as \<open>(size_t) -1\<close>. The index is an
  \<open>int\<close> that is never negative; counting it beyond \<open>INT_MAX\<close> is undefined behaviour.
\<close>

definition int_succ :: "nat \<Rightarrow> nat option" where
  "int_succ i = (if i < 2 ^ 31 - 1 then Some (i + 1) else None)"

record SnappyIOVecWriter =
  output_iov :: "bytes list"
  curr_iov_index :: nat
  curr_iov_written :: nat
  total_written :: nat
  output_limit :: nat

definition SnappyIOVecWriter_init :: "bytes list \<Rightarrow> SnappyIOVecWriter" where
  "SnappyIOVecWriter_init iov =
     \<lparr>output_iov = iov, curr_iov_index = 0, curr_iov_written = 0, total_written = 0,
      output_limit = 2 ^ 64 - 1\<rparr>"

definition iov_at :: "SnappyIOVecWriter \<Rightarrow> nat \<Rightarrow> bytes option" where
  "iov_at w i = (if i < length (output_iov w) then Some (output_iov w ! i) else None)"

definition IOVec_SetExpectedLength :: "nat \<Rightarrow> SnappyIOVecWriter \<Rightarrow> SnappyIOVecWriter" where
  "IOVec_SetExpectedLength len w = w\<lparr>output_limit := len\<rparr>"

definition IOVec_CheckLength :: "SnappyIOVecWriter \<Rightarrow> bool" where
  "IOVec_CheckLength w \<longleftrightarrow> total_written w = output_limit w"

text \<open>The loop of \<open>Append\<close>; \<open>p\<close> is how far \<open>ip\<close> has advanced.\<close>

partial_function (option) IOVec_append_loop ::
  "bytes \<Rightarrow> nat \<Rightarrow> nat \<Rightarrow> SnappyIOVecWriter \<Rightarrow> (bool \<times> SnappyIOVecWriter) option" where
  "IOVec_append_loop ip p len w =
     (if len > 0
      then do {
        iov \<leftarrow> iov_at w (curr_iov_index w);
        assert_that (curr_iov_written w \<le> length iov);
        next_index \<leftarrow> (if length iov \<le> curr_iov_written w then int_succ (curr_iov_index w) else Some (curr_iov_index w));
        (if length iov \<le> curr_iov_written w \<and> length (output_iov w) \<le> next_index
         then Some (False, w)
         else do {
           let w = (if length iov \<le> curr_iov_written w
                    then w\<lparr>curr_iov_written := 0, curr_iov_index := next_index\<rparr> else w);
           iov \<leftarrow> iov_at w (curr_iov_index w);
           let to_write = min len (length iov - curr_iov_written w);
           bs \<leftarrow> mem_read ip p to_write;
           m \<leftarrow> mem_write iov (curr_iov_written w) bs;
           IOVec_append_loop ip (p + to_write) (len - to_write)
             (w\<lparr>output_iov := (output_iov w)[curr_iov_index w := m],
                curr_iov_written := curr_iov_written w + to_write,
                total_written := total_written w + to_write\<rparr>)
         })
      }
      else Some (True, w))"

definition IOVec_Append ::
  "bytes \<Rightarrow> nat \<Rightarrow> SnappyIOVecWriter \<Rightarrow> (bool \<times> SnappyIOVecWriter) option" where
  "IOVec_Append ip len w =
     (if output_limit w < total_written w + len then Some (False, w)
      else IOVec_append_loop ip 0 len w)"

definition IOVec_TryFastAppend ::
  "bytes \<Rightarrow> nat \<Rightarrow> nat \<Rightarrow> SnappyIOVecWriter \<Rightarrow> (bool \<times> SnappyIOVecWriter) option" where
  "IOVec_TryFastAppend ip available len w =
     (let space_left = output_limit w - total_written w in
      if len \<le> 16 \<and> 16 + kMaximumTagLength \<le> available \<and> 16 \<le> space_left
      then do {
        iov \<leftarrow> iov_at w (curr_iov_index w);
        (if 16 \<le> length iov - curr_iov_written w
         then do {
           m \<leftarrow> UnalignedCopy64 ip 0 iov (curr_iov_written w);
           m \<leftarrow> UnalignedCopy64 ip 8 m (curr_iov_written w + 8);
           Some (True, w\<lparr>output_iov := (output_iov w)[curr_iov_index w := m],
             curr_iov_written := curr_iov_written w + len,
             total_written := total_written w + len\<rparr>)
         }
         else Some (False, w))
      }
      else Some (False, w))"

text \<open>\<open>AppendFromSelf\<close>: the loop that locates the source, then the loop that copies.\<close>

partial_function (option) IOVec_locate ::
  "SnappyIOVecWriter \<Rightarrow> nat \<Rightarrow> nat \<Rightarrow> nat \<Rightarrow> (nat \<times> nat) option" where
  "IOVec_locate w from_index from_offset offset =
     (if offset > 0
      then if offset \<le> from_offset then Some (from_index, from_offset - offset)
           else do {
             assert_that (0 < from_index);
             iov \<leftarrow> iov_at w (from_index - 1);
             IOVec_locate w (from_index - 1) (length iov) (offset - from_offset)
           }
      else Some (from_index, from_offset))"

partial_function (option) IOVec_copy_loop ::
  "nat \<Rightarrow> nat \<Rightarrow> nat \<Rightarrow> SnappyIOVecWriter \<Rightarrow> (bool \<times> SnappyIOVecWriter) option" where
  "IOVec_copy_loop from_index from_offset len w =
     (if len > 0
      then do {
        assert_that (from_index \<le> curr_iov_index w);
        (if from_index \<noteq> curr_iov_index w
         then do {
           iov \<leftarrow> iov_at w from_index;
           let to_copy = min (length iov - from_offset) len;
           (_, w) \<leftarrow> IOVec_Append (drop from_offset iov) to_copy w;
           (if len - to_copy > 0
            then do { from_index \<leftarrow> int_succ from_index; IOVec_copy_loop from_index 0 (len - to_copy) w }
            else IOVec_copy_loop from_index from_offset (len - to_copy) w)
         }
         else do {
           iov \<leftarrow> iov_at w (curr_iov_index w);
           assert_that (curr_iov_written w \<le> length iov);
           let to_copy = min (length iov - curr_iov_written w) len;
           (if to_copy = 0
            then do {
              next_index \<leftarrow> int_succ (curr_iov_index w);
              (if length (output_iov w) \<le> next_index then Some (False, w)
               else IOVec_copy_loop from_index from_offset len
                      (w\<lparr>curr_iov_index := next_index, curr_iov_written := 0\<rparr>))
            }
            else do {
              m \<leftarrow> IncrementalCopy iov from_offset (curr_iov_written w) to_copy;
              IOVec_copy_loop from_index (from_offset + to_copy) (len - to_copy)
                (w\<lparr>output_iov := (output_iov w)[curr_iov_index w := m],
                   curr_iov_written := curr_iov_written w + to_copy,
                   total_written := total_written w + to_copy\<rparr>)
            })
         })
      }
      else Some (True, w))"

definition IOVec_AppendFromSelf ::
  "nat \<Rightarrow> nat \<Rightarrow> SnappyIOVecWriter \<Rightarrow> (bool \<times> SnappyIOVecWriter) option" where
  "IOVec_AppendFromSelf offset len w =
     (if total_written w < offset \<or> offset = 0 then Some (False, w)
      else let space_left = output_limit w - total_written w in
      if space_left < len then Some (False, w)
      else do {
        (from_index, from_offset) \<leftarrow> IOVec_locate w (curr_iov_index w) (curr_iov_written w) offset;
        IOVec_copy_loop from_index from_offset len w
      })"

definition iovec_writer :: "SnappyIOVecWriter writer_ops" where
  "iovec_writer =
     \<lparr>SetExpectedLength = IOVec_SetExpectedLength, CheckLength = IOVec_CheckLength,
      WAppend = IOVec_Append, TryFastAppend = IOVec_TryFastAppend,
      AppendFromSelf = IOVec_AppendFromSelf\<rparr>"

definition RawUncompressToIOVec_source ::
  "bytes \<Rightarrow> 's source_ops \<Rightarrow> 's \<Rightarrow> bytes list \<Rightarrow> (bool \<times> bytes list \<times> 's) option" where
  "RawUncompressToIOVec_source scratch src s iov =
     do {
       (ok, s, w) \<leftarrow> InternalUncompress scratch src iovec_writer s (SnappyIOVecWriter_init iov);
       Some (ok, output_iov w, s)
     }"

definition RawUncompressToIOVec :: "bytes \<Rightarrow> bytes \<Rightarrow> bytes list \<Rightarrow> (bool \<times> bytes list) option" where
  "RawUncompressToIOVec scratch compressed iov =
     do {
       (ok, bs, _) \<leftarrow> RawUncompressToIOVec_source scratch byte_array_source (ByteArraySource_init compressed) iov;
       Some (ok, bs)
     }"

end
