(* ===== verification/SnappyIOVecSpec.thy ===== *)
theory SnappyIOVecSpec
  imports SnappyIOVec
begin

text \<open>
  \<open>SnappyIOVecWriter\<close> keeps the contract of a decompression writer when the buffers have
  room for the expected length: seen as one flat buffer, it is written in order.
\<close>

section \<open>The flat view\<close>

definition iov_pos :: "bytes list \<Rightarrow> nat \<Rightarrow> nat \<Rightarrow> nat" where
  "iov_pos iov i n = length (concat (take i iov)) + n"

lemma iov_pos_0: "iov_pos iov 0 n = n"
  by (simp add: iov_pos_def)

lemma iov_pos_Suc: "i < length iov \<Longrightarrow> iov_pos iov (Suc i) n = iov_pos iov i (length (iov ! i) + n)"
  by (simp add: iov_pos_def take_Suc_conv_app_nth)

lemma iov_pos_add: "iov_pos iov i (n + k) = iov_pos iov i n + k"
  by (simp add: iov_pos_def)

lemma iov_pos_base: "iov_pos iov i n = iov_pos iov i 0 + n"
  by (simp add: iov_pos_def)

lemma iov_pos_shape: "map length iov = map length iov' \<Longrightarrow> iov_pos iov i n = iov_pos iov' i n"
  by (simp add: iov_pos_def length_concat flip: take_map)

lemma concat_split: "i < length iov \<Longrightarrow> concat iov = concat (take i iov) @ iov ! i @ concat (drop (Suc i) iov)"
  by (subst (1) id_take_nth_drop) simp_all

lemma concat_shape: "map length iov = map length iov' \<Longrightarrow> length (concat iov) = length (concat iov')"
  by (simp add: length_concat)

lemma iov_pos_le: "i < length iov \<Longrightarrow> n \<le> length (iov ! i) \<Longrightarrow> iov_pos iov i n \<le> length (concat iov)"
  by (simp add: concat_split [of i iov] iov_pos_def)

lemma iov_pos_mono:
  assumes "i < j" "j \<le> length iov" "n \<le> length (iov ! i)"
  shows "iov_pos iov i n \<le> iov_pos iov j 0"
proof -
  have "take j iov = take (Suc i) iov @ drop (Suc i) (take j iov)"
    using assms(1) by (metis Suc_leI append_take_drop_id min.absorb1 take_take)
  moreover have "take (Suc i) iov = take i iov @ [iov ! i]"
    using assms by (intro take_Suc_conv_app_nth) simp
  ultimately have "concat (take j iov) = concat (take i iov) @ iov ! i @ concat (drop (Suc i) (take j iov))"
    by (metis append.assoc concat_append concat.simps append_Nil2)
  with assms(3) show ?thesis by (simp add: iov_pos_def)
qed

text \<open>Reading and writing one buffer, in the flat view\<close>

lemma iov_read:
  assumes "i < length iov" "n + k \<le> length (iov ! i)"
  shows "take k (drop n (iov ! i)) = take k (drop (iov_pos iov i n) (concat iov))"
  using assms by (simp add: concat_split [of i iov] iov_pos_def)

lemma iov_write:
  assumes "i < length iov" "n + length bs \<le> length (iov ! i)"
  shows "concat (iov[i := take n (iov ! i) @ bs @ drop (n + length bs) (iov ! i)]) =
    take (iov_pos iov i n) (concat iov) @ bs @ drop (iov_pos iov i n + length bs) (concat iov)"
  using assms by (simp add: upd_conv_take_nth_drop concat_split [of i iov] iov_pos_def)

text \<open>
  The state in which \<open>L\<close> bytes are expected and \<open>out\<close> was produced, of the buffers that held
  \<open>V\<close> at first
\<close>

definition iov_start :: "bytes list \<Rightarrow> nat \<Rightarrow> SnappyIOVecWriter \<Rightarrow> bool" where
  "iov_start V L w \<longleftrightarrow> output_iov w = V \<and> curr_iov_index w = 0 \<and> curr_iov_written w = 0 \<and>
     total_written w = 0 \<and> V \<noteq> [] \<and> length V < 2 ^ 31 \<and> L \<le> length (concat V) \<and> L < 2 ^ 32"

definition iov_rep :: "bytes list \<Rightarrow> nat \<Rightarrow> bytes \<Rightarrow> SnappyIOVecWriter \<Rightarrow> bool" where
  "iov_rep V L out w \<longleftrightarrow>
     map length (output_iov w) = map length V \<and> curr_iov_index w < length (output_iov w) \<and>
     curr_iov_written w \<le> length (output_iov w ! curr_iov_index w) \<and>
     iov_pos (output_iov w) (curr_iov_index w) (curr_iov_written w) = length out \<and>
     total_written w = length out \<and> output_limit w = L \<and> length out \<le> L \<and>
     L \<le> length (concat V) \<and> L < 2 ^ 32 \<and> length V < 2 ^ 31 \<and>
     take (length out) (concat (output_iov w)) = out \<and>
     drop L (concat (output_iov w)) = drop L (concat V)"

lemma iov_repD:
  assumes "iov_rep V L out w"
  shows "curr_iov_index w < length (output_iov w)"
    and "curr_iov_written w \<le> length (output_iov w ! curr_iov_index w)"
    and "iov_pos (output_iov w) (curr_iov_index w) (curr_iov_written w) = length out"
    and "total_written w = length out" and "output_limit w = L" and "length out \<le> L"
    and "L < 2 ^ 32" and "take (length out) (concat (output_iov w)) = out"
    and "L \<le> length (concat (output_iov w))" and "length (output_iov w) = length V"
    and "iov_at w (curr_iov_index w) = Some (output_iov w ! curr_iov_index w)"
    and "i < length (output_iov w) \<Longrightarrow> int_succ i = Some (i + 1)"
  using assms concat_shape [of "output_iov w" V] map_eq_imp_length_eq [of length "output_iov w" length V]
  by (simp_all add: iov_rep_def iov_at_def int_succ_def)

text \<open>Writing \<open>bs\<close> at the current place and counting \<open>k\<close> bytes of it as produced\<close>

lemma iov_advance:
  assumes rep: "iov_rep V L out w"
    and fits: "curr_iov_written w + length bs \<le> length (output_iov w ! curr_iov_index w)"
      "length out + length bs \<le> L" and k: "k \<le> length bs"
    and m: "m = take (curr_iov_written w) (output_iov w ! curr_iov_index w) @ bs @
       drop (curr_iov_written w + length bs) (output_iov w ! curr_iov_index w)"
  shows "iov_rep V L (out @ take k bs)
    (w\<lparr>output_iov := (output_iov w)[curr_iov_index w := m],
       curr_iov_written := curr_iov_written w + k, total_written := total_written w + k\<rparr>)"
proof -
  let ?iov = "output_iov w" and ?i = "curr_iov_index w" and ?n = "curr_iov_written w"
  note w = iov_repD [OF rep]
  have len: "length m = length (?iov ! ?i)" using m fits(1) by simp
  then have shape: "map length (?iov[?i := m]) = map length ?iov" by (simp add: map_update list_update_same_conv w(1))
  have flat: "concat (?iov[?i := m]) = out @ bs @ drop (length out + length bs) (concat ?iov)"
    unfolding m iov_write [OF w(1) fits(1)] w(3,8) by (rule refl)
  have "drop L (concat (?iov[?i := m])) = drop L (concat ?iov)"
    using fits(2) by (simp add: flat)
  moreover have "take (length out + k) (concat (?iov[?i := m])) = out @ take k bs"
    using k by (simp add: flat)
  moreover have "iov_pos (?iov[?i := m]) ?i (?n + k) = length out + k"
    using iov_pos_shape [OF shape] w(3) by (simp add: iov_pos_add)
  ultimately show ?thesis
    using rep fits k shape len by (simp add: iov_rep_def)
qed

text \<open>A full buffer that is not the last one: moving on to the next\<close>

lemma iov_next:
  assumes rep: "iov_rep V L out w" and full: "length (output_iov w ! curr_iov_index w) \<le> curr_iov_written w"
    and more: "length out < L"
  shows "curr_iov_index w + 1 < length (output_iov w)"
    and "iov_rep V L out (w\<lparr>curr_iov_written := 0, curr_iov_index := curr_iov_index w + 1\<rparr>)"
proof -
  let ?iov = "output_iov w" and ?i = "curr_iov_index w"
  note w = iov_repD [OF rep]
  have pos: "iov_pos ?iov (Suc ?i) 0 = length out"
    using w(1,2,3) full iov_pos_Suc [OF w(1), of 0] by simp
  show next_i: "?i + 1 < length ?iov"
  proof (rule ccontr)
    assume "\<not> ?thesis"
    with w(1) have "Suc ?i = length ?iov" by simp
    with pos have "length out = length (concat ?iov)" by (simp add: iov_pos_def)
    with more w(9) show False by simp
  qed
  with pos rep show "iov_rep V L out (w\<lparr>curr_iov_written := 0, curr_iov_index := ?i + 1\<rparr>)"
    by (simp add: iov_rep_def)
qed

section \<open>Append\<close>

lemma iov_append_step:
  assumes "0 < n" and "iov_at w (curr_iov_index w) = Some iov" and "curr_iov_written w \<le> length iov"
    and "int_succ (curr_iov_index w) = Some (curr_iov_index w + 1)"
    and "\<not> (length iov \<le> curr_iov_written w \<and> length (output_iov w) \<le> curr_iov_index w + 1)"
    and w1: "w1 = (if length iov \<le> curr_iov_written w
      then w\<lparr>curr_iov_written := 0, curr_iov_index := curr_iov_index w + 1\<rparr> else w)"
    and "iov_at w1 (curr_iov_index w1) = Some iov1" and k: "k = min n (length iov1 - curr_iov_written w1)"
    and "mem_read ip p k = Some bs" and "mem_write iov1 (curr_iov_written w1) bs = Some m"
  shows "IOVec_append_loop ip p n w = IOVec_append_loop ip (p + k) (n - k)
    (w1\<lparr>output_iov := (output_iov w1)[curr_iov_index w1 := m],
        curr_iov_written := curr_iov_written w1 + k, total_written := total_written w1 + k\<rparr>)"
proof -
  let ?next = "if length iov \<le> curr_iov_written w then curr_iov_index w + 1 else curr_iov_index w"
  have n: "(if length iov \<le> curr_iov_written w then int_succ (curr_iov_index w) else Some (curr_iov_index w)) = Some ?next"
    using assms(4) by simp
  have c: "\<not> (length iov \<le> curr_iov_written w \<and> length (output_iov w) \<le> ?next)"
    and w1': "w1 = (if length iov \<le> curr_iov_written w then w\<lparr>curr_iov_written := 0, curr_iov_index := ?next\<rparr> else w)"
    using assms(5) w1 by simp_all
  show ?thesis
    by (subst IOVec_append_loop.simps)
      (simp only: assms(1-3,7,9,10) n c assert_that_def Let_def if_True if_False Option.bind.simps
        w1' [symmetric] k [symmetric] simp_thms)
qed

lemma iov_append_loop:
  assumes "iov_rep V L out w" "p + n \<le> length ip" "length out + n \<le> L"
  shows "\<exists>w'. IOVec_append_loop ip p n w = Some (True, w') \<and> iov_rep V L (out @ take n (drop p ip)) w' \<and>
    curr_iov_index w \<le> curr_iov_index w'"
  using assms
proof (induction "n + (length V - curr_iov_index w)" arbitrary: n p out w rule: less_induct)
  case less
  note w = iov_repD [OF less.prems(1)]
  show ?case
  proof (cases "n = 0")
    case True
    with less.prems(1) show ?thesis by (simp add: IOVec_append_loop.simps)
  next
    case n: False
    let ?full = "length (output_iov w ! curr_iov_index w) \<le> curr_iov_written w"
    have more: "length out < L" using n less.prems(3) by simp
    note nx = iov_next [OF less.prems(1) _ more]
    obtain w1 where w1: "w1 = (if ?full
      then w\<lparr>curr_iov_written := 0, curr_iov_index := curr_iov_index w + 1\<rparr> else w)" by blast
    have rep: "iov_rep V L out w1" using less.prems(1) nx(2) w1 by simp
    have idx: "curr_iov_index w \<le> curr_iov_index w1" using w1 by simp
    note v = iov_repD [OF rep]
    let ?iov = "output_iov w1 ! curr_iov_index w1"
    obtain k where k: "k = min n (length ?iov - curr_iov_written w1)" by blast
    obtain bs where bs: "bs = take k (drop p ip)" by blast
    have r: "mem_read ip p k = Some bs" "length bs = k"
      using less.prems(2) by (simp_all add: bs k mem_simps)
    have room: "curr_iov_written w1 + length bs \<le> length ?iov" "length out + length bs \<le> L"
      using v(2) r(2) less.prems(3) k by simp_all
    let ?m = "take (curr_iov_written w1) ?iov @ bs @ drop (curr_iov_written w1 + length bs) ?iov"
    let ?w2 = "w1\<lparr>output_iov := (output_iov w1)[curr_iov_index w1 := ?m],
      curr_iov_written := curr_iov_written w1 + k, total_written := total_written w1 + k\<rparr>"
    have rep': "iov_rep V L (out @ bs) ?w2"
      using iov_advance [OF rep room _ refl, of k] r(2) by simp
    have "0 < k \<or> curr_iov_index w < curr_iov_index w1" using n k w1 by auto
    then have dec: "n - k + (length V - curr_iov_index ?w2) < n + (length V - curr_iov_index w)"
      using v(1,10) idx k n by auto
    have le: "p + k + (n - k) \<le> length ip" "length (out @ bs) + (n - k) \<le> L"
      using less.prems(2,3) r(2) k by simp_all
    from less.hyps [OF dec rep' le] obtain w' where
      w': "IOVec_append_loop ip (p + k) (n - k) ?w2 = Some (True, w')"
        "iov_rep V L ((out @ bs) @ take (n - k) (drop (p + k) ip)) w'" "curr_iov_index ?w2 \<le> curr_iov_index w'"
      by blast
    have "bs @ take (n - k) (drop (p + k) ip) = take n (drop p ip)"
      using take_add [of k "n - k" "drop p ip"] k bs by (simp add: add.commute)
    then have "iov_rep V L (out @ take n (drop p ip)) w'" using w'(2) by simp
    moreover have "\<not> (?full \<and> length (output_iov w) \<le> curr_iov_index w + 1)" using nx(1) by linarith
    then have "IOVec_append_loop ip p n w = Some (True, w')"
      using iov_append_step [OF _ w(11,2) w(12) [OF w(1)] _ w1 v(11) k r(1) mem_write_Some [OF room(1)]] n w'(1) by simp
    ultimately show ?thesis using w'(3) idx by auto
  qed
qed

lemma iov_Append:
  assumes "iov_rep V L out w" "n \<le> length m"
  shows "length out + n \<le> L \<Longrightarrow> \<exists>w'. IOVec_Append m n w = Some (True, w') \<and>
      iov_rep V L (out @ take n m) w' \<and> curr_iov_index w \<le> curr_iov_index w'"
    and "L < length out + n \<Longrightarrow> IOVec_Append m n w = Some (False, w)"
  using iov_append_loop [OF assms(1), of 0 n m] assms(2) iov_repD [OF assms(1)]
  by (simp_all add: IOVec_Append_def)

lemma iov_TryFastAppend:
  assumes rep: "iov_rep V L out w" and m: "avail \<le> length m"
  shows "IOVec_TryFastAppend m avail n w = Some (False, w) \<or>
      (\<exists>w'. IOVec_TryFastAppend m avail n w = Some (True, w') \<and> n \<le> 60 \<and> n + kMaximumTagLength \<le> avail \<and>
        iov_rep V L (out @ take n m) w')"
proof -
  note w = iov_repD [OF rep]
  let ?iov = "output_iov w ! curr_iov_index w" and ?n = "curr_iov_written w"
  show ?thesis
  proof (cases "n \<le> 16 \<and> 16 + kMaximumTagLength \<le> avail \<and> 16 \<le> L - length out \<and> 16 \<le> length ?iov - ?n")
    case True
    have "16 \<le> length m" "?n + 16 \<le> length ?iov" using True m by auto
    from two_words [OF this] obtain m1 where c: "UnalignedCopy64 m 0 ?iov ?n = Some m1"
      "UnalignedCopy64 m 8 m1 (?n + 8) = Some (take ?n ?iov @ take 16 m @ drop (?n + 16) ?iov)" by blast
    have 16: "length (take 16 m) = 16" using \<open>16 \<le> length m\<close> by simp
    have "iov_rep V L (out @ take n (take 16 m)) (w\<lparr>output_iov := (output_iov w)[curr_iov_index w :=
        take ?n ?iov @ take 16 m @ drop (?n + 16) ?iov],
      curr_iov_written := ?n + n, total_written := total_written w + n\<rparr>)"
      using True w(6) 16 by (intro iov_advance [OF rep]) auto
    then show ?thesis
      using True c w(4,5,11) by (simp add: IOVec_TryFastAppend_def Let_def min_absorb1)
  next
    case False
    then show ?thesis using w(4,5,11) by (auto simp: IOVec_TryFastAppend_def Let_def)
  qed
qed

section \<open>AppendFromSelf\<close>

lemma iov_locate:
  assumes "i < length (output_iov w)" "n \<le> length (output_iov w ! i)" "0 < off" "off \<le> iov_pos (output_iov w) i n"
  shows "\<exists>i' n'. IOVec_locate w i n off = Some (i', n') \<and> i' \<le> i \<and> n' < length (output_iov w ! i') \<and>
    iov_pos (output_iov w) i' n' + off = iov_pos (output_iov w) i n"
  using assms
proof (induction i arbitrary: n off)
  case 0
  then show ?case by (simp add: IOVec_locate.simps [of w 0] iov_pos_0)
next
  case (Suc i)
  show ?case
  proof (cases "off \<le> n")
    case True
    have "iov_pos (output_iov w) (Suc i) (n - off) + off = iov_pos (output_iov w) (Suc i) n"
      using True by (simp flip: iov_pos_add)
    with True Suc.prems show ?thesis by (auto simp: IOVec_locate.simps [of w "Suc i"])
  next
    case False
    let ?l = "length (output_iov w ! i)"
    have pos: "iov_pos (output_iov w) (Suc i) n = iov_pos (output_iov w) i ?l + n"
      using iov_pos_Suc [of i "output_iov w" n] Suc.prems(1) by (simp add: iov_pos_add)
    have "i < length (output_iov w)" "0 < off - n" "off - n \<le> iov_pos (output_iov w) i ?l"
      using False Suc.prems pos by simp_all
    from Suc.IH [OF this(1) order_refl this(2,3)] obtain i' n' where
      "IOVec_locate w i ?l (off - n) = Some (i', n')" "i' \<le> i" "n' < length (output_iov w ! i')"
      "iov_pos (output_iov w) i' n' + (off - n) = iov_pos (output_iov w) i ?l" by blast
    with False Suc.prems(1,3) pos show ?thesis
      by (auto simp: IOVec_locate.simps [of w "Suc i"] iov_at_def)
  qed
qed

text \<open>Bytes copied from so far back that they do not overlap\<close>

lemma copy_from_short:
  assumes "k \<le> off" "off \<le> length out"
  shows "copy_from off k out = out @ take k (drop (length out - off) out)"
  using assms(1)
proof (induction k)
  case (Suc k)
  have "length out - off + k < length out" using Suc.prems assms(2) by simp
  then show ?case
    using Suc assms(2) by (simp add: Let_def nth_append take_Suc_conv_app_nth add.commute)
qed simp

text \<open>A copy inside the current buffer\<close>

lemma iov_incremental:
  assumes rep: "iov_rep V L out w" and off: "0 < off" "off \<le> length out"
    and from_n: "iov_pos (output_iov w) (curr_iov_index w) n + off = length out"
    and k: "0 < k" "curr_iov_written w + k \<le> length (output_iov w ! curr_iov_index w)" "length out + k \<le> L"
  shows "\<exists>m. IncrementalCopy (output_iov w ! curr_iov_index w) n (curr_iov_written w) k = Some m \<and>
    iov_rep V L (copy_from off k out) (w\<lparr>output_iov := (output_iov w)[curr_iov_index w := m],
       curr_iov_written := curr_iov_written w + k, total_written := total_written w + k\<rparr>)"
proof -
  note w = iov_repD [OF rep]
  let ?iov = "output_iov w ! curr_iov_index w" and ?n = "curr_iov_written w"
  let ?base = "iov_pos (output_iov w) (curr_iov_index w) 0"
  let ?p = "\<lambda>j. repeated off out (?base + j)" and ?m = "take (?n + k) ?iov"
  have pos: "?base + ?n = length out" "?base + n + off = length out"
    using w(3) from_n iov_pos_base [of "output_iov w" "curr_iov_index w" ?n]
      iov_pos_base [of "output_iov w" "curr_iov_index w" n] by linarith+
  have n: "n + off = ?n" using pos by simp
  have len: "length ?m = ?n + k" using k(2) by simp
  have "?iov ! j = out ! (?base + j)" if "j < ?n" for j
  proof -
    have "take 1 (drop j ?iov) = take 1 (drop (?base + j) (concat (output_iov w)))"
      unfolding iov_pos_base [of "output_iov w" "curr_iov_index w" j, symmetric]
      by (rule iov_read [OF w(1)]) (use that w(2) in linarith)
    moreover have "j < length ?iov" "?base + j < length (concat (output_iov w))"
      using that w(2,6,9) pos(1) by linarith+
    ultimately have "?iov ! j = concat (output_iov w) ! (?base + j)"
      by (simp add: take_Suc_conv_app_nth hd_drop_conv_nth)
    then show ?thesis using w(8) pos(1) that by (metis nth_take add_strict_left_mono)
  qed
  then have f: "filled_to ?p ?m ?n"
    using len filled_start [of out out off] pos(1) by (auto simp: filled_to_def)
  have per: "?p (j + off) = ?p j" if "n \<le> j" for j
    using repeated_period [OF off, of "?base + j"] that pos(2) by (simp add: add.assoc)
  have room: "1 \<le> k" "?n + k \<le> length ?m" using k(1) len by linarith+
  from IncrementalCopy_filled [OF f off(1) n room per] obtain m1 where
    m1: "IncrementalCopy ?m n ?n k = Some m1" "filled_to ?p m1 (?n + k)" "length m1 = length ?m" by blast
  let ?m1 = "m1 @ drop (?n + k) ?iov"
  have c: "IncrementalCopy ?iov n ?n k = Some ?m1"
    using IncrementalCopy_frame [OF m1(1), of "drop (?n + k) ?iov"] by simp
  have start: "take ?n m1 = take ?n ?iov"
    using f m1(2) by (intro nth_equalityI) (use len m1(3) in \<open>simp_all add: filled_to_def\<close>)
  let ?bs = "drop ?n m1"
  have bs: "length ?bs = k" using m1(3) len by simp
  have "(out @ ?bs) ! j = repeated off out j" if j: "j < length out + k" for j
  proof (cases "j < length out")
    case True
    then show ?thesis by (simp add: repeated_def nth_append)
  next
    case False
    let ?d = "j - length out"
    have d: "?d < k" "?base + (?n + ?d) = j" using False j pos(1) by simp_all
    then have "m1 ! (?n + ?d) = repeated off out j" using m1(2) by (simp add: filled_to_def)
    then show ?thesis using False d m1(3) len by (simp add: nth_append)
  qed
  then have "out @ ?bs = copy_from off k out"
    using bs by (intro copy_from_eqI [OF off]) simp_all
  moreover have m: "?m1 = take ?n ?iov @ ?bs @ drop (?n + length ?bs) ?iov"
    unfolding bs using start by (metis append.assoc append_take_drop_id)
  have "?n + length ?bs \<le> length ?iov" "length out + length ?bs \<le> L" "k \<le> length ?bs"
    unfolding bs using k by simp_all
  from iov_advance [OF rep this m] have
    "iov_rep V L (out @ ?bs) (w\<lparr>output_iov := (output_iov w)[curr_iov_index w := ?m1],
       curr_iov_written := ?n + k, total_written := total_written w + k\<rparr>)"
    unfolding take_all [OF eq_imp_le [OF bs]] .
  ultimately show ?thesis using c by auto
qed

text \<open>A copy from an earlier buffer\<close>

lemma iov_from_earlier:
  assumes rep: "iov_rep V L out w" and off: "off \<le> length out"
    and i: "i < curr_iov_index w" "n + k \<le> length (output_iov w ! i)"
    and pos: "iov_pos (output_iov w) i n + off = length out" and fits: "length out + k \<le> L"
  shows "\<exists>w'. IOVec_Append (drop n (output_iov w ! i)) k w = Some (True, w') \<and>
    iov_rep V L (copy_from off k out) w' \<and> curr_iov_index w \<le> curr_iov_index w'"
proof -
  note w = iov_repD [OF rep]
  let ?iov = "output_iov w" and ?q = "length out - off"
  have q: "iov_pos ?iov i n = ?q" using pos by simp
  have "iov_pos ?iov i (n + k) \<le> iov_pos ?iov (curr_iov_index w) 0"
    using i w(1) by (intro iov_pos_mono) simp_all
  then have k: "k \<le> off" using pos w(3) iov_pos_base [of ?iov "curr_iov_index w" "curr_iov_written w"]
    iov_pos_add [of ?iov i n k] by linarith
  have "take k (drop n (?iov ! i)) = take k (drop ?q (concat ?iov))"
    using iov_read [of i ?iov n k] i w(1) q by simp
  also have "\<dots> = take k (drop ?q (take (length out) (concat ?iov)))"
    using k off by (simp add: drop_take min_absorb1)
  finally have "copy_from off k out = out @ take k (drop n (?iov ! i))"
    using copy_from_short [OF k off] by (simp add: w(8))
  moreover have "k \<le> length (drop n (?iov ! i))" using i(2) by simp
  ultimately show ?thesis using iov_Append(1) [OF rep _ fits] by simp
qed

lemma iov_swap: "w\<lparr>curr_iov_index := a, curr_iov_written := b\<rparr> = w\<lparr>curr_iov_written := b, curr_iov_index := a\<rparr>"
  by simp

lemma iov_rep_pos: "iov_rep V L out w \<Longrightarrow> iov_pos (output_iov w) i n = iov_pos V i n"
  by (intro iov_pos_shape) (simp add: iov_rep_def)

lemma iov_rep_length:
  assumes "iov_rep V L out w" "i < length V"
  shows "length (output_iov w ! i) = length (V ! i)"
proof -
  have "map length (output_iov w) ! i = map length V ! i" using assms(1) by (simp add: iov_rep_def)
  with assms(2) iov_repD(10) [OF assms(1)] show ?thesis by simp
qed

lemma iov_copy_loop:
  assumes "iov_rep V L out w" "0 < off" "off \<le> length out" "i \<le> curr_iov_index w" "n \<le> length (V ! i)"
    and "iov_pos V i n + off = length out" "length out + len \<le> L"
  shows "\<exists>w'. IOVec_copy_loop i n len w = Some (True, w') \<and> iov_rep V L (copy_from off len out) w'"
  using assms
proof (induction "len + (length V - i) + (length V - curr_iov_index w)" arbitrary: i n len out w rule: less_induct)
  case less
  note rep = less.prems(1) and off = less.prems(2,3)
  note w = iov_repD [OF rep] and P = iov_rep_pos [OF rep] and Len = iov_rep_length [OF rep]
  have iV: "i < length V" "curr_iov_index w < length V" using less.prems(4) w(1,10) by simp_all
  have add: "copy_from off (len - k) (copy_from off k out) = copy_from off len out" if "k \<le> len" for k
    using copy_from_add [of off k "len - k" out] that by simp
  consider (finished) "len = 0" | (earlier) "0 < len" "i < curr_iov_index w" | (same) "0 < len" "i = curr_iov_index w"
    using less.prems(4) by linarith
  then show ?case
  proof cases
    case finished
    with rep show ?thesis by (simp add: IOVec_copy_loop.simps [of i n 0])
  next
    case earlier
    let ?iov = "output_iov w ! i"
    obtain k where k: "k = min (length ?iov - n) len" by blast
    have "n + k \<le> length ?iov" "iov_pos (output_iov w) i n + off = length out" "length out + k \<le> L"
      using k less.prems(5,6,7) P Len iV by auto
    from iov_from_earlier [OF rep off(2) earlier(2) this] obtain w1 where
      w1: "IOVec_Append (drop n ?iov) k w = Some (True, w1)" "iov_rep V L (copy_from off k out) w1"
        "curr_iov_index w \<le> curr_iov_index w1" by blast
    have step: "IOVec_copy_loop i n len w =
      (if len - k > 0 then IOVec_copy_loop (i + 1) 0 (len - k) w1 else IOVec_copy_loop i n (len - k) w1)"
      using earlier w1(1) iV w(10) w(12) [of i]
      by (subst IOVec_copy_loop.simps) (simp add: iov_at_def Let_def flip: k)
    show ?thesis
    proof (cases "len - k > 0")
      case True
      then have kl: "k = length (V ! i) - n" "k \<le> len" using k Len iV by auto
      have "iov_pos V (i + 1) 0 + off = length (copy_from off k out)"
        using iov_pos_Suc [OF iV(1), of 0] iov_pos_add [of V i n k] kl less.prems(5,6) by simp
      moreover have "len - k + (length V - (i + 1)) + (length V - curr_iov_index w1) <
        len + (length V - i) + (length V - curr_iov_index w)"
        using iV w1(3) by linarith
      moreover have "length (copy_from off k out) + (len - k) \<le> L" using kl(2) less.prems(7) by simp
      ultimately obtain w' where "IOVec_copy_loop (i + 1) 0 (len - k) w1 = Some (True, w')"
        "iov_rep V L (copy_from off (len - k) (copy_from off k out)) w'"
        using less.hyps [of "len - k" "i + 1" w1 "copy_from off k out" 0] w1(2,3) off earlier(2) by auto
      with True kl(2) step show ?thesis by (simp add: add)
    next
      case False
      then have "len - k = 0" "k = len" using k by simp_all
      with step w1(2) show ?thesis by (simp add: IOVec_copy_loop.simps [of i n 0])
    qed
  next
    case same
    let ?iov = "output_iov w ! curr_iov_index w" and ?n = "curr_iov_written w"
    obtain k where k: "k = min (length ?iov - ?n) len" by blast
    have step: "IOVec_copy_loop i n len w =
      (if k = 0 then if length (output_iov w) \<le> curr_iov_index w + 1 then Some (False, w)
         else IOVec_copy_loop i n len (w\<lparr>curr_iov_index := curr_iov_index w + 1, curr_iov_written := 0\<rparr>)
       else do {
         m \<leftarrow> IncrementalCopy ?iov n ?n k;
         IOVec_copy_loop i (n + k) (len - k) (w\<lparr>output_iov := (output_iov w)[curr_iov_index w := m],
           curr_iov_written := ?n + k, total_written := total_written w + k\<rparr>) })"
      using same w(2,11) w(12) [OF w(1)] by (subst IOVec_copy_loop.simps) (simp add: Let_def flip: k)
    show ?thesis
    proof (cases "k = 0")
      case True
      let ?w = "w\<lparr>curr_iov_written := 0, curr_iov_index := curr_iov_index w + 1\<rparr>"
      have "length ?iov \<le> ?n" "length out < L" using True k same(1) less.prems(7) by auto
      note nx = iov_next [OF rep this]
      have "len + (length V - i) + (length V - curr_iov_index ?w) < len + (length V - i) + (length V - curr_iov_index w)"
        using iV by simp
      from less.hyps [OF this nx(2) off _ less.prems(5,6,7)] same(2) obtain w' where
        "IOVec_copy_loop i n len ?w = Some (True, w')" "iov_rep V L (copy_from off len out) w'" by auto
      with True step nx(1) show ?thesis by (simp add: iov_swap)
    next
      case False
      have pre: "iov_pos (output_iov w) (curr_iov_index w) n + off = length out" "0 < k"
        "?n + k \<le> length ?iov" "length out + k \<le> L"
        using less.prems(6,7) False k w(2) P same(2) by auto
      from iov_incremental [OF rep off pre] obtain m where
        m: "IncrementalCopy ?iov n ?n k = Some m" "iov_rep V L (copy_from off k out)
          (w\<lparr>output_iov := (output_iov w)[curr_iov_index w := m],
             curr_iov_written := ?n + k, total_written := total_written w + k\<rparr>)" (is "iov_rep _ _ _ ?w") by blast
      have "n + off = ?n" using pre(1) w(3) iov_pos_base [of "output_iov w" "curr_iov_index w" n]
        iov_pos_base [of "output_iov w" "curr_iov_index w" ?n] by linarith
      then have "n + k \<le> length (V ! i)" using pre(3) Len same(2) iV by simp
      moreover have "iov_pos V i (n + k) + off = length (copy_from off k out)"
        using less.prems(6) by (simp add: iov_pos_add)
      moreover have "len - k + (length V - i) + (length V - curr_iov_index ?w) <
        len + (length V - i) + (length V - curr_iov_index w)"
        using False same(1) by simp
      moreover have kl: "k \<le> len" "length (copy_from off k out) + (len - k) \<le> L" using k less.prems(7) by simp_all
      ultimately obtain w' where "IOVec_copy_loop i (n + k) (len - k) ?w = Some (True, w')"
        "iov_rep V L (copy_from off (len - k) (copy_from off k out)) w'"
        using less.hyps [of "len - k" i ?w "copy_from off k out" "n + k"] m(2) off same(2) by auto
      with False m(1) step show ?thesis by (simp add: add [OF kl(1)])
    qed
  qed
qed

lemma iov_AppendFromSelf:
  assumes rep: "iov_rep V L out w"
  shows "0 < off \<Longrightarrow> off \<le> length out \<Longrightarrow> length out + n \<le> L \<Longrightarrow>
      \<exists>w'. IOVec_AppendFromSelf off n w = Some (True, w') \<and> iov_rep V L (copy_from off n out) w'"
    and "off = 0 \<or> length out < off \<or> L < length out + n \<Longrightarrow> IOVec_AppendFromSelf off n w = Some (False, w)"
proof -
  note w = iov_repD [OF rep]
  show "off = 0 \<or> length out < off \<or> L < length out + n \<Longrightarrow> IOVec_AppendFromSelf off n w = Some (False, w)"
    using w(4-6) by (auto simp: IOVec_AppendFromSelf_def Let_def)
  assume a: "0 < off" "off \<le> length out" "length out + n \<le> L"
  from iov_locate [OF w(1,2) a(1)] a(2) w(3) obtain i p where
    loc: "IOVec_locate w (curr_iov_index w) (curr_iov_written w) off = Some (i, p)" "i \<le> curr_iov_index w"
      "p < length (output_iov w ! i)" "iov_pos (output_iov w) i p + off = length out" by auto
  have "p \<le> length (V ! i)" "iov_pos V i p + off = length out"
    using loc(2,3,4) w(1,10) iov_rep_length [OF rep, of i] iov_rep_pos [OF rep, of i p] by simp_all
  from iov_copy_loop [OF rep a(1,2) loc(2) this a(3)]
  show "\<exists>w'. IOVec_AppendFromSelf off n w = Some (True, w') \<and> iov_rep V L (copy_from off n out) w'"
    using loc(1) a w(4-6) by (auto simp: IOVec_AppendFromSelf_def Let_def)
qed

section \<open>The contract\<close>

interpretation iovec: decompression_writer iovec_writer "iov_start V" "iov_rep V" for V
proof
  fix L n off avail :: nat and out m :: bytes and w
  show "iov_start V L w \<Longrightarrow> iov_rep V L [] (SetExpectedLength iovec_writer L w)"
    by (auto simp: iov_start_def iov_rep_def iovec_writer_def IOVec_SetExpectedLength_def iov_pos_0)
  assume rep: "iov_rep V L out w"
  note w = iov_repD [OF rep]
  show "length out \<le> L \<and> L < 2 ^ 32" using w(6,7) by simp
  show "CheckLength iovec_writer w \<longleftrightarrow> length out = L"
    using w(4,5) by (simp add: iovec_writer_def IOVec_CheckLength_def)
  show "n \<le> length m \<Longrightarrow> length out + n \<le> L \<Longrightarrow>
      \<exists>w'. WAppend iovec_writer m n w = Some (True, w') \<and> iov_rep V L (out @ take n m) w'"
    using iov_Append(1) [OF rep] by (auto simp: iovec_writer_def)
  show "n \<le> length m \<Longrightarrow> L < length out + n \<Longrightarrow> \<exists>w'. WAppend iovec_writer m n w = Some (False, w')"
    using iov_Append(2) [OF rep] by (auto simp: iovec_writer_def)
  show "avail \<le> length m \<Longrightarrow> TryFastAppend iovec_writer m avail n w = Some (False, w) \<or>
      (\<exists>w'. TryFastAppend iovec_writer m avail n w = Some (True, w') \<and> n \<le> 60 \<and> n + kMaximumTagLength \<le> avail \<and>
        iov_rep V L (out @ take n m) w')"
    using iov_TryFastAppend [OF rep] by (auto simp: iovec_writer_def)
  show "0 < off \<Longrightarrow> off \<le> length out \<Longrightarrow> length out + n \<le> L \<Longrightarrow>
      \<exists>w'. AppendFromSelf iovec_writer off n w = Some (True, w') \<and> iov_rep V L (copy_from off n out) w'"
    using iov_AppendFromSelf(1) [OF rep] by (auto simp: iovec_writer_def)
  show "off = 0 \<or> length out < off \<or> L < length out + n \<Longrightarrow>
      \<exists>w'. AppendFromSelf iovec_writer off n w = Some (False, w')"
    using iov_AppendFromSelf(2) [OF rep] by (auto simp: iovec_writer_def)
qed

interpretation array_iovec: decompression byte_array_source bas_inv bas_content iovec_writer "iov_start V" "iov_rep V" for V
  by unfold_locales

section \<open>Uncompressing into scattered buffers\<close>

lemma RawUncompressToIOVec_ok:
  assumes "length scratch = kMaximumTagLength" and "length compressed < 2 ^ 32" and "iov \<noteq> []" "length iov < 2 ^ 31"
    and "buffer_fits compressed (concat iov)"
  shows "\<exists>ok iov'. RawUncompressToIOVec scratch compressed iov = Some (ok, iov') \<and>
     (ok \<longleftrightarrow> stream_output compressed \<noteq> None) \<and>
     (\<forall>out. stream_output compressed = Some out \<longrightarrow>
        map length iov' = map length iov \<and> concat iov' = out @ drop (length out) (concat iov))"
proof -
  let ?s = "ByteArraySource_init compressed" and ?w = "SnappyIOVecWriter_init iov"
  have s: "bas_inv ?s" "bas_content ?s = compressed" using bas_init [of compressed] assms(2) by simp_all
  have st: "iov_start iov (unat n) ?w" if "varint32 (bas_content ?s) 0 0 = Some (n, rest)" for n rest
    using that assms(3-5) s(2) unsigned_less [of n]
    by (auto simp: iov_start_def SnappyIOVecWriter_init_def buffer_fits_def)
  from array_iovec.InternalUncompress_ok [OF s(1) _ assms(1), of iov ?w] st s(2) assms(2) obtain ok s' w' where
    run: "InternalUncompress scratch byte_array_source iovec_writer ?s ?w = Some (ok, s', w')"
      "ok \<longleftrightarrow> stream_output compressed \<noteq> None"
      "\<And>out. stream_output compressed = Some out \<Longrightarrow> iov_rep iov (length out) out w'" by auto
  have "map length (output_iov w') = map length iov \<and> concat (output_iov w') = out @ drop (length out) (concat iov)"
    if "stream_output compressed = Some out" for out
    using run(3) [OF that] append_take_drop_id [of "length out" "concat (output_iov w')"] by (simp add: iov_rep_def)
  with run(1,2) show ?thesis by (simp add: RawUncompressToIOVec_def RawUncompressToIOVec_source_def)
qed

text \<open>
  C5: RawUncompressToIOVec, on every compressed string of less than 4 GiB and at least one
  buffer, the buffers less than 2^31 and together with room for the announced length, returns without an
  access outside a buffer or an overflow of its indices. It returns true exactly when the string decodes to the announced
  length. The buffers keep their sizes; one after the other they then hold the decoded bytes,
  and behind these what they held before.
\<close>

theorem RawUncompressToIOVec_correct:
  assumes "length scratch = kMaximumTagLength" and "length compressed < 2 ^ 32" and "iov \<noteq> []" "length iov < 2 ^ 31"
    and "buffer_fits compressed (concat iov)"
  shows "\<exists>ok iov'. RawUncompressToIOVec scratch compressed iov = Some (ok, iov') \<and>
     (ok \<longleftrightarrow> stream_output compressed \<noteq> None) \<and>
     (\<forall>out. stream_output compressed = Some out \<longrightarrow>
        map length iov' = map length iov \<and> concat iov' = out @ drop (length out) (concat iov))"
  by (rule RawUncompressToIOVec_ok [OF assms])

lemma RawUncompressToIOVec_correct_witness:
  "\<exists>iov'. RawUncompressToIOVec [0, 0, 0, 0, 0] ab_stream [[7, 7, 7], [], [7, 7, 7, 7, 7, 7, 7, 7, 7]] = Some (True, iov') \<and>
     concat iov' = [97, 98, 97, 98, 97, 98, 97, 98, 97, 98, 7, 7]"
proof -
  have "buffer_fits ab_stream (concat [[7, 7, 7], [], [7, 7, 7, 7, 7, 7, 7, 7, 7]])"
    by (rule GetUncompressedLength_fits [OF ab_length]) simp
  from RawUncompressToIOVec_correct [OF _ ab_small _ _ this, of "[0, 0, 0, 0, 0]"] show ?thesis
    by (auto simp: ab_output)
qed

end
