(* ===== verification/SnappyIOVecSafety.thy ===== *)
theory SnappyIOVecSafety
  imports SnappyIOVecSpec
begin

text \<open>
  Uncompressing into buffers of any sizes, also too small ones: the decompressor with a writer
  of which only memory safety is known, and \<open>SnappyIOVecWriter\<close> as such a writer.
\<close>

section \<open>Decompression with a writer that stays within its memory\<close>

locale bounded_writer =
  fixes wr :: "'w writer_ops" and start :: "'w \<Rightarrow> bool" and w_inv :: "nat \<Rightarrow> 'w \<Rightarrow> bool"
  assumes SetExpectedLength_runs: "start w \<Longrightarrow> L < 2 ^ 32 \<Longrightarrow> w_inv L (SetExpectedLength wr L w)"
    and WAppend_runs: "w_inv L w \<Longrightarrow> n \<le> length m \<Longrightarrow> \<exists>ok w'. WAppend wr m n w = Some (ok, w') \<and> w_inv L w'"
    and TryFastAppend_runs: "w_inv L w \<Longrightarrow> avail \<le> length m \<Longrightarrow> 1 \<le> n \<Longrightarrow>
      \<exists>ok w'. TryFastAppend wr m avail n w = Some (ok, w') \<and> w_inv L w' \<and>
        (ok \<longrightarrow> n \<le> 60 \<and> n + kMaximumTagLength \<le> avail)"
    and AppendFromSelf_runs: "w_inv L w \<Longrightarrow> 1 \<le> n \<Longrightarrow> n \<le> 64 \<Longrightarrow>
      \<exists>ok w'. AppendFromSelf wr off n w = Some (ok, w') \<and> w_inv L w'"

locale bounded_decompression = source src src_inv content + bounded_writer wr start w_inv
  for src :: "'s source_ops" and src_inv :: "'s \<Rightarrow> bool" and content :: "'s \<Rightarrow> bytes"
    and wr :: "'w writer_ops" and start :: "'w \<Rightarrow> bool" and w_inv :: "nat \<Rightarrow> 'w \<Rightarrow> bool"
begin

lemma literal_regions_runs:
  assumes "holds d rest" "w_inv L w"
  shows "\<exists>go n d' w'. literal_regions src wr len d w = Some (go, n, d', w') \<and> w_inv L w' \<and>
     (go \<longrightarrow> (\<exists>k. holds d' (drop k rest)) \<and> n \<le> d_ip_limit d' - d_ip d')"
  using assms
proof (induction "length (drop (unat (d_peeked d)) (content (d_reader d)))" arbitrary: d w rest len rule: less_induct)
  case less
  note h = less.prems(1)
  let ?a = "d_ip_limit d - d_ip d"
  show ?case
  proof (cases "?a < len")
    case False
    then have "literal_regions src wr len d w = Some (True, len, d, w)" by (simp add: literal_regions.simps)
    moreover have "holds d (drop 0 rest)" using h by simp
    then have "\<exists>k. holds d (drop k rest)" by blast
    moreover have "len \<le> ?a" using False by simp
    ultimately show ?thesis using less.prems(2) by blast
  next
    case True
    have lim: "d_ip_limit d \<le> length (d_buf d)" "\<not> d_eof d" "length (d_scratch d) = 5" "length rest < 2 ^ 32"
      and rest: "rest = window d @ drop (unat (d_peeked d)) (content (d_reader d))"
      using h by (auto simp: holds_def)
    have a: "?a \<le> length (drop (d_ip d) (d_buf d))" using lim(1) by simp
    obtain ok w' where w': "WAppend wr (drop (d_ip d) (d_buf d)) ?a w = Some (ok, w')" "w_inv L w'"
      using WAppend_runs [OF less.prems(2) a] by blast
    obtain r s where p: "Peek src (Skip src (unat (d_peeked d)) (d_reader d)) = (r, s)" by fastforce
    note reg = next_region [OF h p]
    show ?thesis
    proof (cases "ok \<and> r \<noteq> []")
      case False
      with True p w' show ?thesis by (subst literal_regions.simps) (auto simp: Let_def)
    next
      case go: True
      let ?d = "d\<lparr>d_reader := s, d_buf := r, d_ip := 0, d_peeked := of_nat (length r), d_ip_limit := length r\<rparr>"
      have run: "literal_regions src wr len d w = literal_regions src wr (len - ?a) ?d w'"
        using True p go w'(1) by (subst literal_regions.simps) (simp add: Let_def)
      have rest': "rest = window d @ content s" using rest reg(2) by simp
      have lw: "length (window d) = ?a" using window_length [OF lim(1)] .
      have lr: "length r \<le> length (content s)" using reg(3) by (rule prefix_length_le)
      have "content s = r @ drop (length r) (content s)" using reg(3) by (auto simp: prefix_def)
      moreover have "window ?d = r" by (subst window_def) simp
      ultimately have h': "holds ?d (content s)" using reg(1,5) lim lr rest' by (simp add: holds_def)
      have "0 < length r" using go by simp
      with lr have "length (content s) - length r < length (content s)" by linarith
      then have "length (drop (unat (d_peeked ?d)) (content (d_reader ?d))) <
          length (drop (unat (d_peeked d)) (content (d_reader d)))"
        unfolding reg(2) [symmetric] by (simp add: reg(5))
      from less.hyps [OF this h' w'(2), of "len - ?a"] obtain go n d' w'' where
        "literal_regions src wr (len - ?a) ?d w' = Some (go, n, d', w'')" "w_inv L w''"
        "go \<longrightarrow> (\<exists>k. holds d' (drop k (content s))) \<and> n \<le> d_ip_limit d' - d_ip d'" by blast
      moreover have "drop (?a + k) rest = drop k (content s)" for k using lw by (simp add: rest')
      ultimately show ?thesis unfolding run by metis
    qed
  qed
qed

lemma append_literal_runs:
  assumes h: "holds d rest" and inv: "w_inv L w"
  shows "\<exists>ok d' w'. append_literal src wr len d w = Some (ok, d', w') \<and> w_inv L w' \<and>
     (ok \<longrightarrow> (\<exists>k. holds d' (drop k rest)))"
proof -
  obtain go n d1 w1 where r: "literal_regions src wr len d w = Some (go, n, d1, w1)" "w_inv L w1"
    "go \<Longrightarrow> \<exists>k. holds d1 (drop k rest)" "go \<Longrightarrow> n \<le> d_ip_limit d1 - d_ip d1"
    using literal_regions_runs [OF assms, of len] by blast
  show ?thesis
  proof (cases go)
    case False
    with r(1,2) show ?thesis by (simp add: append_literal_def ex_bool_eq)
  next
    case True
    then obtain k where k: "holds d1 (drop k rest)" using r(3) by blast
    have "n \<le> length (drop (d_ip d1) (d_buf d1))" using k r(4) [OF True] by (auto simp: holds_def)
    from WAppend_runs [OF r(2) this] obtain ok w2 where
      w2: "WAppend wr (drop (d_ip d1) (d_buf d1)) n w1 = Some (ok, w2)" "w_inv L w2" by blast
    have "holds (d1\<lparr>d_ip := d_ip d1 + n\<rparr>) (drop (n + k) rest)"
      using holds_advance(1) [OF k r(4) [OF True]] by (simp add: add.commute)
    with True r(1) w2 show ?thesis by (auto simp: append_literal_def)
  qed
qed

text \<open>After an element: the next refill ends the loop or it goes on.\<close>

lemma continue_runs:
  assumes h: "holds d rest" and "w_inv L w"
    and IH: "\<And>d w. holds d rest \<Longrightarrow> ready d \<Longrightarrow> w_inv L w \<Longrightarrow> \<exists>d' w'. tag_loop src wr d w = Some (d', w') \<and> w_inv L w'"
  shows "\<exists>d' w'. Option.bind (MAYBE_REFILL src d) (\<lambda>(ok, d). if \<not> ok then Some (d, w) else tag_loop src wr d w) =
     Some (d', w') \<and> w_inv L w'"
proof -
  from MAYBE_REFILL_ok [OF h] obtain ok d1 where "MAYBE_REFILL src d = Some (ok, d1)" "ok \<longrightarrow> holds d1 rest \<and> ready d1"
    by (auto simp: refilled_def split: list.splits if_splits)
  with IH assms(2) show ?thesis by (cases ok) auto
qed

lemma tag_loop_runs:
  assumes "holds d rest" "ready d" "w_inv L w"
  shows "\<exists>d' w'. tag_loop src wr d w = Some (d', w') \<and> w_inv L w'"
  using assms
proof (induction "length rest" arbitrary: d rest w rule: less_induct)
  case less
  note inv = less.prems(3)
  obtain c r where rest: "rest = c # r" using ready_facts [OF less.prems(1,2)] by metis
  note h = less.prems(1) [unfolded rest]
  have shorter: "length (drop j r) < length rest" for j by (simp add: rest)
  have go_on: "\<exists>d'' w''. Option.bind (MAYBE_REFILL src d') (\<lambda>(ok, d). if \<not> ok then Some (d, w') else tag_loop src wr d w') =
      Some (d'', w'') \<and> w_inv L w''" if "holds d' (drop j r)" "w_inv L w'" for d' j w'
    using continue_runs [OF that] less.hyps [OF shorter] by blast
  show ?case
  proof (cases "unat c mod 4 = LITERAL")
    case lit: True
    let ?m = "drop (Suc (d_ip d)) (d_buf d)" and ?avail = "d_ip_limit d - Suc (d_ip d)" and ?n = "unat c div 4 + 1"
    have "d_ip_limit d \<le> length (d_buf d)" using h by (simp add: holds_def)
    then have "?avail \<le> length ?m" "1 \<le> ?n" by (simp_all add: diff_le_mono)
    from TryFastAppend_runs [OF inv this] obtain fast w1 where
      t: "TryFastAppend wr ?m ?avail ?n w = Some (fast, w1)" "w_inv L w1"
        "fast \<Longrightarrow> ?n \<le> 60" "fast \<Longrightarrow> ?n + kMaximumTagLength \<le> ?avail" by blast
    show ?thesis
    proof (cases fast)
      case f: True
      obtain d' j where "tag_loop src wr d w = tag_loop src wr d' w1" "holds d' (drop j r)" "ready d'"
        using fast_literal_step [OF h less.prems(2) lit t(1) [unfolded eqTrueI [OF f]] t(3,4) [OF f]] by metis
      then show ?thesis using less.hyps [OF shorter _ _ t(2)] by simp
    next
      case False
      from t(1) False have slow: "TryFastAppend wr ?m ?avail ?n w = Some (False, w1)" by simp
      obtain len d1 i where h1: "holds d1 (drop i r)" and "parse_element wrap32 (c # r) = take_literal len (drop i r)"
        and run: "tag_loop src wr d w = Option.bind (append_literal src wr len d1 w1) (\<lambda>(ok, d, w).
          if \<not> ok then Some (d, w)
          else Option.bind (MAYBE_REFILL src d) (\<lambda>(ok, d). if \<not> ok then Some (d, w) else tag_loop src wr d w))"
        using literal_step [OF h less.prems(2) lit slow] .
      from append_literal_runs [OF h1 t(2), of len] obtain ok d2 w2 where
        a: "append_literal src wr len d1 w1 = Some (ok, d2, w2)" "w_inv L w2" "ok \<Longrightarrow> \<exists>j. holds d2 (drop (j + i) r)" by auto
      then show ?thesis using run go_on [OF _ a(2)] by (cases ok) auto
    qed
  next
    case False
    obtain off len j d1 where "parse_element wrap32 (c # r) = Some (Copy off len, drop j r)"
      and bnd: "1 \<le> len" "len \<le> 64" and "off < 2 ^ 33" and h1: "holds d1 (drop j r)"
      and run: "tag_loop src wr d w = Option.bind (AppendFromSelf wr off len w) (\<lambda>(ok, w).
        if \<not> ok then Some (d1, w)
        else Option.bind (MAYBE_REFILL src d1) (\<lambda>(ok, d). if \<not> ok then Some (d, w) else tag_loop src wr d w))"
      using copy_step [of d c r wr w, OF h less.prems(2) False] .
    obtain ok w1 where "AppendFromSelf wr off len w = Some (ok, w1)" "w_inv L w1"
      using AppendFromSelf_runs [OF inv bnd] by blast
    with run go_on [OF h1] show ?thesis by (cases ok) simp_all
  qed
qed

lemma InternalUncompress_runs:
  assumes inv: "src_inv s" and small: "length (content s) < 2 ^ 32" and sc: "length scratch = kMaximumTagLength"
    and start: "start w"
  shows "\<exists>ok s' w'. InternalUncompress scratch src wr s w = Some (ok, s', w') \<and>
     (varint32 (content s) 0 0 = None \<longrightarrow> \<not> ok \<and> w' = w) \<and>
     (\<forall>n rest. varint32 (content s) 0 0 = Some (n, rest) \<longrightarrow> w_inv (unat n) w' \<and> (ok \<longrightarrow> CheckLength wr w'))"
proof -
  obtain s1 where rl: "ReadUncompressedLength_loop src s 0 0 = (map_option fst (varint32 (content s) 0 0), s1)"
    and s1: "src_inv s1" "\<And>v rest. varint32 (content s) 0 0 = Some (v, rest) \<Longrightarrow> content s1 = rest"
    using read_length [OF inv, of 0 0] by blast
  let ?d = "SnappyDecompressor_init scratch s\<lparr>d_reader := s1\<rparr>"
  have read: "ReadUncompressedLength src (SnappyDecompressor_init scratch s) =
      (map_option fst (varint32 (content s) 0 0), ?d)"
    using rl by (simp add: ReadUncompressedLength_def SnappyDecompressor_init_def)
  show ?thesis
  proof (cases "varint32 (content s) 0 0")
    case None
    with read show ?thesis by (intro exI [of _ False]) (simp add: InternalUncompress_def)
  next
    case (Some p)
    obtain n rest where v: "varint32 (content s) 0 0 = Some (n, rest)" using Some by (cases p) simp
    have "length rest \<le> length (content s)" using varint32_shorter [OF v] .
    then have "holds ?d rest"
      using small s1(1) s1(2) [OF v] sc by (simp add: holds_def SnappyDecompressor_init_def window_def)
    moreover have "w_inv (unat n) (SetExpectedLength wr (unat n) w)"
      using start unsigned_less [of n] by (intro SetExpectedLength_runs) simp_all
    ultimately have "\<exists>d' w'. DecompressAllTags src wr ?d (SetExpectedLength wr (unat n) w) = Some (d', w') \<and> w_inv (unat n) w'"
      unfolding DecompressAllTags_def by (rule continue_runs) (rule tag_loop_runs)
    then obtain d' w' where run: "DecompressAllTags src wr ?d (SetExpectedLength wr (unat n) w) = Some (d', w')"
      "w_inv (unat n) w'" by blast
    then show ?thesis
      by (simp add: InternalUncompress_def read v InternalUncompressAllTags_def)
  qed
qed

end

section \<open>Scattered buffers\<close>

lemma IncrementalCopy_runs:
  "1 \<le> len \<Longrightarrow> src \<le> op \<Longrightarrow> op + len \<le> length m \<Longrightarrow>
     \<exists>m'. IncrementalCopy m src op len = Some m' \<and> length m' = length m"
proof (induction m src op len rule: IncrementalCopy.induct)
  case (1 m src op len)
  let ?b = "take 1 (drop src m)"
  let ?m = "take op m @ ?b @ drop (op + length ?b) m"
  have b: "mem_read m src 1 = Some ?b" "length ?b = 1" using "1.prems" by (simp_all add: mem_simps)
  have w: "mem_write m op ?b = Some ?m" using "1.prems" by (intro mem_write_Some) simp
  have l: "length ?m = length m" using "1.prems" by simp
  show ?case
  proof (cases "len - 1 > 0")
    case True
    then have "1 \<le> len - 1" "src + 1 \<le> op + 1" "op + 1 + (len - 1) \<le> length ?m" using "1.prems" l by simp_all
    from "1.IH" [OF b(1) w True this] obtain m' where
      "IncrementalCopy ?m (src + 1) (op + 1) (len - 1) = Some m'" "length m' = length m" unfolding l by blast
    then show ?thesis
      by (subst IncrementalCopy.simps) (simp only: b(1) w Option.bind.simps True if_True, blast)
  next
    case False
    with b(1) w l show ?thesis by (subst IncrementalCopy.simps) simp
  qed
qed

text \<open>
  The state of a writer with the limit \<open>L\<close>, on buffers of the sizes of \<open>V\<close>: what it counts is
  what lies before the place it writes to.
\<close>

definition iov_safe :: "bytes list \<Rightarrow> nat \<Rightarrow> SnappyIOVecWriter \<Rightarrow> bool" where
  "iov_safe V L w \<longleftrightarrow>
     map length (output_iov w) = map length V \<and> curr_iov_index w < length (output_iov w) \<and>
     curr_iov_written w \<le> length (output_iov w ! curr_iov_index w) \<and>
     iov_pos (output_iov w) (curr_iov_index w) (curr_iov_written w) = total_written w \<and>
     output_limit w = L \<and> total_written w \<le> L \<and> length V < 2 ^ 31"

lemma iov_safeD:
  assumes "iov_safe V L w"
  shows "curr_iov_index w < length (output_iov w)"
    and "curr_iov_written w \<le> length (output_iov w ! curr_iov_index w)"
    and "iov_pos (output_iov w) (curr_iov_index w) (curr_iov_written w) = total_written w"
    and "output_limit w = L" and "total_written w \<le> L" and "length (output_iov w) = length V"
    and "iov_at w (curr_iov_index w) = Some (output_iov w ! curr_iov_index w)"
    and "i < length V \<Longrightarrow> length (output_iov w ! i) = length (V ! i)"
    and "j < length (output_iov w) \<Longrightarrow> int_succ j = Some (j + 1)"
proof -
  have "map length (output_iov w) = map length V" using assms by (simp add: iov_safe_def)
  then show "i < length V \<Longrightarrow> length (output_iov w ! i) = length (V ! i)" "length (output_iov w) = length V"
    by (metis nth_map length_map)+
  then show "j < length (output_iov w) \<Longrightarrow> int_succ j = Some (j + 1)"
    using assms by (simp add: int_succ_def iov_safe_def)
qed (use assms in \<open>simp_all add: iov_safe_def iov_at_def\<close>)

lemma iov_safe_write:
  assumes inv: "iov_safe V L w" and "length m = length (output_iov w ! curr_iov_index w)"
    and "curr_iov_written w + k \<le> length m" and "total_written w + k \<le> L"
  shows "iov_safe V L (w\<lparr>output_iov := (output_iov w)[curr_iov_index w := m],
    curr_iov_written := curr_iov_written w + k, total_written := total_written w + k\<rparr>)"
proof -
  note w = iov_safeD [OF inv]
  have shape: "map length ((output_iov w)[curr_iov_index w := m]) = map length (output_iov w)"
    using assms(2) w(1) by (simp add: map_update list_update_same_conv)
  show ?thesis
    using inv assms(2-4) w(1-5) shape iov_pos_shape [OF shape] by (simp add: iov_safe_def iov_pos_add)
qed

lemma iov_safe_next:
  assumes inv: "iov_safe V L w" and "length (output_iov w ! curr_iov_index w) \<le> curr_iov_written w"
    and "curr_iov_index w + 1 < length (output_iov w)"
  shows "iov_safe V L (w\<lparr>curr_iov_written := 0, curr_iov_index := curr_iov_index w + 1\<rparr>)"
  using assms iov_safeD [OF inv] iov_pos_Suc [OF iov_safeD(1) [OF inv], of 0]
  by (simp add: iov_safe_def)

lemma iov_safe_append:
  assumes "iov_safe V L w" "p + n \<le> length ip" "total_written w + n \<le> L"
  shows "\<exists>ok w'. IOVec_append_loop ip p n w = Some (ok, w') \<and> iov_safe V L w' \<and>
     curr_iov_index w \<le> curr_iov_index w' \<and> total_written w' \<le> total_written w + n"
  using assms
proof (induction "n + (length V - curr_iov_index w)" arbitrary: n p w rule: less_induct)
  case less
  note w = iov_safeD [OF less.prems(1)]
  let ?full = "length (output_iov w ! curr_iov_index w) \<le> curr_iov_written w"
  consider (finished) "n = 0" | (stuck) "0 < n" "?full" "length (output_iov w) \<le> curr_iov_index w + 1"
    | (step) "0 < n" "\<not> (?full \<and> length (output_iov w) \<le> curr_iov_index w + 1)" by linarith
  then show ?case
  proof cases
    case finished
    with less.prems(1) show ?thesis by (simp add: IOVec_append_loop.simps ex_bool_eq)
  next
    case stuck
    with less.prems(1) w(2,7) w(9) [OF w(1)] show ?thesis by (subst IOVec_append_loop.simps) (simp add: ex_bool_eq)
  next
    case step
    obtain w1 where w1: "w1 = (if ?full
      then w\<lparr>curr_iov_written := 0, curr_iov_index := curr_iov_index w + 1\<rparr> else w)" by blast
    have inv: "iov_safe V L w1" using less.prems(1) iov_safe_next [OF less.prems(1)] step(2) w1 by auto
    have idx: "curr_iov_index w \<le> curr_iov_index w1" "total_written w1 = total_written w" using w1 by simp_all
    note v = iov_safeD [OF inv]
    let ?iov = "output_iov w1 ! curr_iov_index w1"
    obtain k where k: "k = min n (length ?iov - curr_iov_written w1)" by blast
    obtain bs where bs: "bs = take k (drop p ip)" by blast
    have r: "mem_read ip p k = Some bs" "length bs = k"
      using less.prems(2) by (simp_all add: bs k mem_simps)
    have room: "curr_iov_written w1 + length bs \<le> length ?iov" using v(2) r(2) k by simp
    let ?m = "take (curr_iov_written w1) ?iov @ bs @ drop (curr_iov_written w1 + length bs) ?iov"
    let ?w2 = "w1\<lparr>output_iov := (output_iov w1)[curr_iov_index w1 := ?m],
      curr_iov_written := curr_iov_written w1 + k, total_written := total_written w1 + k\<rparr>"
    have inv': "iov_safe V L ?w2"
      using room r(2) less.prems(3) idx(2) k by (intro iov_safe_write [OF inv]) simp_all
    have "0 < k \<or> curr_iov_index w < curr_iov_index w1" using step(1) k w1 by auto
    then have dec: "n - k + (length V - curr_iov_index ?w2) < n + (length V - curr_iov_index w)"
      using v(1,6) idx(1) k step(1) by auto
    have le: "p + k + (n - k) \<le> length ip" "total_written ?w2 + (n - k) \<le> L"
      using less.prems(2,3) k idx(2) by simp_all
    have kn: "k \<le> n" using k by simp
    from less.hyps [OF dec inv' le] idx kn show ?thesis
      unfolding iov_append_step [OF step(1) w(7,2) w(9) [OF w(1)] step(2) w1 v(7) k r(1) mem_write_Some [OF room]] by auto
  qed
qed

lemma iov_safe_Append:
  assumes inv: "iov_safe V L w" and "n \<le> length m"
  shows "\<exists>ok w'. IOVec_Append m n w = Some (ok, w') \<and> iov_safe V L w' \<and>
     curr_iov_index w \<le> curr_iov_index w' \<and> total_written w' \<le> total_written w + n"
  using iov_safe_append [OF inv, of 0 n m] assms iov_safeD(4) [OF inv]
  by (cases "L < total_written w + n") (simp_all add: IOVec_Append_def ex_bool_eq)

lemma iov_safe_TryFastAppend:
  assumes inv: "iov_safe V L w" and m: "avail \<le> length m"
  shows "\<exists>ok w'. IOVec_TryFastAppend m avail n w = Some (ok, w') \<and> iov_safe V L w' \<and>
     (ok \<longrightarrow> n \<le> 60 \<and> n + kMaximumTagLength \<le> avail)"
proof -
  note w = iov_safeD [OF inv]
  let ?iov = "output_iov w ! curr_iov_index w" and ?n = "curr_iov_written w"
  show ?thesis
  proof (cases "n \<le> 16 \<and> 16 + kMaximumTagLength \<le> avail \<and> 16 \<le> L - total_written w \<and> 16 \<le> length ?iov - ?n")
    case True
    have "16 \<le> length m" "?n + 16 \<le> length ?iov" using True m by auto
    from two_words [OF this] obtain m1 m2 where c: "UnalignedCopy64 m 0 ?iov ?n = Some m1"
      "UnalignedCopy64 m 8 m1 (?n + 8) = Some m2" "m2 = take ?n ?iov @ take 16 m @ drop (?n + 16) ?iov" by blast
    have l: "length m2 = length ?iov" using c(3) \<open>16 \<le> length m\<close> \<open>?n + 16 \<le> length ?iov\<close> by simp
    have "iov_safe V L (w\<lparr>output_iov := (output_iov w)[curr_iov_index w := m2],
      curr_iov_written := ?n + n, total_written := total_written w + n\<rparr>)"
      using True l w(5) by (intro iov_safe_write [OF inv]) auto
    then show ?thesis using True c(1,2) w(4,7) by (simp add: IOVec_TryFastAppend_def Let_def ex_bool_eq)
  next
    case False
    then show ?thesis using inv w(4,7) by (auto simp: IOVec_TryFastAppend_def Let_def)
  qed
qed

text \<open>
  The copy loop. Its source stays behind the place it writes to, also when a buffer ran full
  and the source has moved on alone.
\<close>

lemma iov_safe_copy:
  assumes "iov_safe V L w" "i \<le> curr_iov_index w" "n \<le> length (V ! i)"
    and "i = curr_iov_index w \<Longrightarrow> n \<le> curr_iov_written w" "total_written w + len \<le> L"
  shows "\<exists>ok w'. IOVec_copy_loop i n len w = Some (ok, w') \<and> iov_safe V L w'"
  using assms
proof (induction "len + (length V - i) + (length V - curr_iov_index w)" arbitrary: i n len w rule: less_induct)
  case less
  note inv = less.prems(1)
  note w = iov_safeD [OF inv]
  have iV: "i < length V" "curr_iov_index w < length V" using less.prems(2) w(1,6) by simp_all
  consider (finished) "len = 0" | (earlier) "0 < len" "i < curr_iov_index w" | (same) "0 < len" "i = curr_iov_index w"
    using less.prems(2) by linarith
  then show ?case
  proof cases
    case finished
    with inv show ?thesis by (simp add: IOVec_copy_loop.simps [of i n 0] ex_bool_eq)
  next
    case earlier
    let ?iov = "output_iov w ! i"
    obtain k where k: "k = min (length ?iov - n) len" by blast
    have "k \<le> length (drop n ?iov)" using k by simp
    from iov_safe_Append [OF inv this] obtain ok w1 where
      w1: "IOVec_Append (drop n ?iov) k w = Some (ok, w1)" "iov_safe V L w1"
        "curr_iov_index w \<le> curr_iov_index w1" "total_written w1 \<le> total_written w + k" by blast
    have step: "IOVec_copy_loop i n len w =
      (if len - k > 0 then IOVec_copy_loop (i + 1) 0 (len - k) w1 else IOVec_copy_loop i n (len - k) w1)"
      using earlier w1(1) iV w(6) w(9) [of i]
      by (subst IOVec_copy_loop.simps) (simp add: iov_at_def Let_def flip: k)
    show ?thesis
    proof (cases "len - k > 0")
      case True
      have "len - k + (length V - (i + 1)) + (length V - curr_iov_index w1) <
        len + (length V - i) + (length V - curr_iov_index w)"
        using iV w1(3) by linarith
      moreover have "total_written w1 + (len - k) \<le> L" using w1(4) less.prems(5) True by linarith
      ultimately show ?thesis
        using less.hyps [of "len - k" "i + 1" w1 0] w1(2,3) earlier(2) True step by simp
    next
      case False
      then have "len - k = 0" by simp
      with step w1(2) show ?thesis by (simp add: IOVec_copy_loop.simps [of i n 0] ex_bool_eq)
    qed
  next
    case same
    let ?iov = "output_iov w ! curr_iov_index w" and ?n = "curr_iov_written w"
    have n: "n \<le> ?n" using less.prems(4) same(2) .
    obtain k where k: "k = min (length ?iov - ?n) len" by blast
    have step: "IOVec_copy_loop i n len w =
      (if k = 0 then if length (output_iov w) \<le> curr_iov_index w + 1 then Some (False, w)
         else IOVec_copy_loop i n len (w\<lparr>curr_iov_index := curr_iov_index w + 1, curr_iov_written := 0\<rparr>)
       else do {
         m \<leftarrow> IncrementalCopy ?iov n ?n k;
         IOVec_copy_loop i (n + k) (len - k) (w\<lparr>output_iov := (output_iov w)[curr_iov_index w := m],
           curr_iov_written := ?n + k, total_written := total_written w + k\<rparr>) })"
      using same w(2,7) w(9) [OF w(1)] by (subst IOVec_copy_loop.simps) (simp add: Let_def flip: k)
    show ?thesis
    proof (cases "k = 0")
      case True
      show ?thesis
      proof (cases "length (output_iov w) \<le> curr_iov_index w + 1")
        case last: True
        with True step inv show ?thesis by (simp add: ex_bool_eq)
      next
        case False
        let ?w = "w\<lparr>curr_iov_written := 0, curr_iov_index := curr_iov_index w + 1\<rparr>"
        have "length ?iov \<le> ?n" using True k same(1) by auto
        with False have safe: "iov_safe V L ?w" by (intro iov_safe_next [OF inv]) simp_all
        have "len + (length V - i) + (length V - curr_iov_index ?w) < len + (length V - i) + (length V - curr_iov_index w)"
          using iV by simp
        from less.hyps [OF this safe _ less.prems(3)] same(2) less.prems(5) have
          "\<exists>ok w'. IOVec_copy_loop i n len ?w = Some (ok, w') \<and> iov_safe V L w'" by simp
        with True False step show ?thesis by (simp add: iov_swap)
      qed
    next
      case False
      have fits: "1 \<le> k" "?n + k \<le> length ?iov" "total_written w + k \<le> L"
        using False k w(2) less.prems(5) by auto
      from IncrementalCopy_runs [OF fits(1) n fits(2)] obtain m where
        m: "IncrementalCopy ?iov n ?n k = Some m" "length m = length ?iov" by blast
      let ?w = "w\<lparr>output_iov := (output_iov w)[curr_iov_index w := m],
           curr_iov_written := ?n + k, total_written := total_written w + k\<rparr>"
      have "iov_safe V L ?w" using m(2) fits by (intro iov_safe_write [OF inv]) simp_all
      moreover have "n + k \<le> length (V ! i)" using n fits(2) w(8) [OF iV(1)] same(2) by simp
      moreover have "len - k + (length V - i) + (length V - curr_iov_index ?w) <
        len + (length V - i) + (length V - curr_iov_index w)"
        using False same(1) by simp
      moreover have "total_written ?w + (len - k) \<le> L" using k less.prems(5) by simp
      ultimately have "\<exists>ok w'. IOVec_copy_loop i (n + k) (len - k) ?w = Some (ok, w') \<and> iov_safe V L w'"
        using less.hyps [of "len - k" i ?w "n + k"] same(2) n by simp
      with False m(1) step show ?thesis by simp
    qed
  qed
qed

lemma iov_safe_AppendFromSelf:
  assumes inv: "iov_safe V L w"
  shows "\<exists>ok w'. IOVec_AppendFromSelf off n w = Some (ok, w') \<and> iov_safe V L w'"
proof -
  note w = iov_safeD [OF inv]
  show ?thesis
  proof (cases "total_written w < off \<or> off = 0 \<or> L - total_written w < n")
    case True
    with inv w(4) show ?thesis by (auto simp: IOVec_AppendFromSelf_def Let_def)
  next
    case False
    with iov_locate [OF w(1,2), of off] w(3) obtain i p where
      loc: "IOVec_locate w (curr_iov_index w) (curr_iov_written w) off = Some (i, p)" "i \<le> curr_iov_index w"
        "p < length (output_iov w ! i)" "iov_pos (output_iov w) i p + off = total_written w" by auto
    have "p \<le> curr_iov_written w" if "i = curr_iov_index w"
      using loc(4) w(3) that by (simp add: iov_pos_def)
    moreover have "p \<le> length (V ! i)" using loc(2,3) w(1,6) w(8) [of i] by simp
    ultimately have "\<exists>ok w'. IOVec_copy_loop i p n w = Some (ok, w') \<and> iov_safe V L w'"
      using False w(5) by (intro iov_safe_copy [OF inv loc(2)]) auto
    with False loc(1) w(4) show ?thesis by (simp add: IOVec_AppendFromSelf_def Let_def)
  qed
qed

definition iov_fresh :: "bytes list \<Rightarrow> SnappyIOVecWriter \<Rightarrow> bool" where
  "iov_fresh V w \<longleftrightarrow> V \<noteq> [] \<and> length V < 2 ^ 31 \<and> output_iov w = V \<and> curr_iov_index w = 0 \<and> curr_iov_written w = 0 \<and> total_written w = 0"

interpretation bounded_iovec: bounded_writer iovec_writer "iov_fresh V" "iov_safe V" for V
proof
  fix L n off avail :: nat and m :: bytes and w
  show "iov_fresh V w \<Longrightarrow> iov_safe V L (SetExpectedLength iovec_writer L w)"
    by (auto simp: iov_fresh_def iov_safe_def iovec_writer_def IOVec_SetExpectedLength_def iov_pos_0)
  assume inv: "iov_safe V L w"
  show "n \<le> length m \<Longrightarrow> \<exists>ok w'. WAppend iovec_writer m n w = Some (ok, w') \<and> iov_safe V L w'"
    using iov_safe_Append [OF inv, of n m] by (auto simp: iovec_writer_def)
  show "avail \<le> length m \<Longrightarrow> \<exists>ok w'. TryFastAppend iovec_writer m avail n w = Some (ok, w') \<and> iov_safe V L w' \<and>
      (ok \<longrightarrow> n \<le> 60 \<and> n + kMaximumTagLength \<le> avail)"
    using iov_safe_TryFastAppend [OF inv] by (simp add: iovec_writer_def)
  show "\<exists>ok w'. AppendFromSelf iovec_writer off n w = Some (ok, w') \<and> iov_safe V L w'"
    using iov_safe_AppendFromSelf [OF inv] by (simp add: iovec_writer_def)
qed

interpretation bounded_array_iovec: bounded_decompression byte_array_source bas_inv bas_content iovec_writer
  "iov_fresh V" "iov_safe V" for V
  by unfold_locales

text \<open>What the writer has counted fits into the buffers.\<close>

lemma iov_safe_capacity: "iov_safe V L w \<Longrightarrow> total_written w \<le> length (concat V)"
  using iov_pos_le [of "curr_iov_index w" "output_iov w" "curr_iov_written w"] concat_shape [of "output_iov w" V]
  by (simp add: iov_safe_def)

lemma RawUncompressToIOVec_runs:
  assumes "length scratch = kMaximumTagLength" and "length compressed < 2 ^ 32" and "iov \<noteq> []" "length iov < 2 ^ 31"
  shows "\<exists>ok iov'. RawUncompressToIOVec scratch compressed iov = Some (ok, iov') \<and>
     map length iov' = map length iov \<and> (ok \<longrightarrow> buffer_fits compressed (concat iov))"
proof -
  let ?s = "ByteArraySource_init compressed" and ?w = "SnappyIOVecWriter_init iov"
  have s: "bas_inv ?s" "bas_content ?s = compressed" using bas_init [of compressed] assms(2) by simp_all
  have st: "iov_fresh iov ?w" using assms(3,4) by (simp add: iov_fresh_def SnappyIOVecWriter_init_def)
  from bounded_array_iovec.InternalUncompress_runs [OF s(1) _ assms(1) st] s(2) assms(2) obtain ok s' w' where
    run: "InternalUncompress scratch byte_array_source iovec_writer ?s ?w = Some (ok, s', w')"
      "varint32 compressed 0 0 = None \<longrightarrow> \<not> ok \<and> w' = ?w"
      "\<forall>n rest. varint32 compressed 0 0 = Some (n, rest) \<longrightarrow>
         iov_safe iov (unat n) w' \<and> (ok \<longrightarrow> CheckLength iovec_writer w')" by auto
  have "map length (output_iov w') = map length iov \<and> (ok \<longrightarrow> buffer_fits compressed (concat iov))"
  proof (cases "varint32 compressed 0 0")
    case None
    with run(2) show ?thesis by (simp add: SnappyIOVecWriter_init_def)
  next
    case (Some p)
    obtain n rest where v: "varint32 compressed 0 0 = Some (n, rest)" using Some by (cases p) simp
    with run(3) have inv: "iov_safe iov (unat n) w'" and "ok \<longrightarrow> CheckLength iovec_writer w'" by auto
    then have "ok \<longrightarrow> unat n \<le> length (concat iov)"
      using iov_safe_capacity [OF inv] iov_safeD(4) [OF inv] by (auto simp: iovec_writer_def IOVec_CheckLength_def)
    with inv v show ?thesis by (simp add: iov_safe_def buffer_fits_def)
  qed
  with run(1) show ?thesis by (simp add: RawUncompressToIOVec_def RawUncompressToIOVec_source_def)
qed

text \<open>
  C35: RawUncompressToIOVec is memory safe for every compressed string of less than 4 GiB and
  every non-empty list of less than 2^31 buffers, whatever their sizes: it returns without an access outside a
  buffer or an overflow of its indices, and the buffers keep their sizes. When they are too small for the announced length it
  returns false.
\<close>

theorem RawUncompressToIOVec_safe:
  assumes "length scratch = kMaximumTagLength" and "length compressed < 2 ^ 32" and "iov \<noteq> []" "length iov < 2 ^ 31"
  shows "\<exists>ok iov'. RawUncompressToIOVec scratch compressed iov = Some (ok, iov') \<and>
     map length iov' = map length iov \<and> (ok \<longrightarrow> buffer_fits compressed (concat iov))"
  by (rule RawUncompressToIOVec_runs [OF assms])

lemma RawUncompressToIOVec_safe_witness:
  "\<exists>iov'. RawUncompressToIOVec [0, 0, 0, 0, 0] ab_stream [[7, 7, 7], [7, 7]] = Some (False, iov') \<and>
     map length iov' = [3, 2]"
proof -
  have "\<not> buffer_fits ab_stream (concat [[7, 7, 7], [7, 7]])"
    by (simp add: buffer_fits_def ab_varint)
  with RawUncompressToIOVec_safe [of "[0, 0, 0, 0, 0]" ab_stream "[[7, 7, 7], [7, 7]]"] ab_small show ?thesis
    by auto
qed

end
