(* ===== verification/SnappyPorts.thy ===== *)
theory SnappyPorts
  imports SnappyStubs
begin

text \<open>
  \<open>snappy-stubs-internal.h\<close> on machines of either byte order and pointer size: the byte
  swaps, class \<open>LittleEndian\<close>, and the 32-bit branch of \<open>UnalignedCopy64\<close>. The model of
  \<open>SnappyStubs\<close>, a little-endian 64-bit machine, is the same on all of them.
\<close>

section \<open>The host\<close>

text \<open>How the target lays out an integer in memory; \<open>WORDS_BIGENDIAN\<close> selects \<open>BigEndian\<close>.\<close>

datatype byte_order = LittleEndianHost | BigEndianHost

definition host_bytes :: "byte_order \<Rightarrow> bytes \<Rightarrow> bytes" where
  "host_bytes bo bs = (case bo of LittleEndianHost \<Rightarrow> bs | BigEndianHost \<Rightarrow> rev bs)"

definition host_load16 :: "byte_order \<Rightarrow> bytes \<Rightarrow> nat \<Rightarrow> 16 word option" where
  "host_load16 bo m p = map_option (\<lambda>bs. of_nat (le_nat (host_bytes bo bs))) (mem_read m p 2)"

definition host_load32 :: "byte_order \<Rightarrow> bytes \<Rightarrow> nat \<Rightarrow> 32 word option" where
  "host_load32 bo m p = map_option (\<lambda>bs. of_nat (le_nat (host_bytes bo bs))) (mem_read m p 4)"

definition host_store16 :: "byte_order \<Rightarrow> bytes \<Rightarrow> nat \<Rightarrow> 16 word \<Rightarrow> bytes option" where
  "host_store16 bo m p v = mem_write m p (host_bytes bo (le_bytes 2 (unat v)))"

definition host_store32 :: "byte_order \<Rightarrow> bytes \<Rightarrow> nat \<Rightarrow> 32 word \<Rightarrow> bytes option" where
  "host_store32 bo m p v = mem_write m p (host_bytes bo (le_bytes 4 (unat v)))"

section \<open>Byte swaps\<close>

definition bswap_16 :: "16 word \<Rightarrow> 16 word" where
  "bswap_16 x = push_bit 8 x OR drop_bit 8 x"

definition bswap_32 :: "32 word \<Rightarrow> 32 word" where
  "bswap_32 x =
     (let x = drop_bit 8 (x AND 0xff00ff00) OR push_bit 8 (x AND 0x00ff00ff)
      in drop_bit 16 x OR push_bit 16 x)"

definition bswap_64 :: "64 word \<Rightarrow> 64 word" where
  "bswap_64 x =
     (let x = drop_bit 8 (x AND 0xff00ff00ff00ff00) OR push_bit 8 (x AND 0x00ff00ff00ff00ff);
          x = drop_bit 16 (x AND 0xffff0000ffff0000) OR push_bit 16 (x AND 0x0000ffff0000ffff)
      in drop_bit 32 x OR push_bit 32 x)"

section \<open>Class LittleEndian\<close>

definition FromHost16 :: "byte_order \<Rightarrow> 16 word \<Rightarrow> 16 word" where
  "FromHost16 bo x = (case bo of BigEndianHost \<Rightarrow> bswap_16 x | LittleEndianHost \<Rightarrow> x)"

definition ToHost16 :: "byte_order \<Rightarrow> 16 word \<Rightarrow> 16 word" where
  "ToHost16 bo x = (case bo of BigEndianHost \<Rightarrow> bswap_16 x | LittleEndianHost \<Rightarrow> x)"

definition FromHost32 :: "byte_order \<Rightarrow> 32 word \<Rightarrow> 32 word" where
  "FromHost32 bo x = (case bo of BigEndianHost \<Rightarrow> bswap_32 x | LittleEndianHost \<Rightarrow> x)"

definition ToHost32 :: "byte_order \<Rightarrow> 32 word \<Rightarrow> 32 word" where
  "ToHost32 bo x = (case bo of BigEndianHost \<Rightarrow> bswap_32 x | LittleEndianHost \<Rightarrow> x)"

definition LittleEndian_Load16 :: "byte_order \<Rightarrow> bytes \<Rightarrow> nat \<Rightarrow> 16 word option" where
  "LittleEndian_Load16 bo m p = map_option (ToHost16 bo) (host_load16 bo m p)"

definition LittleEndian_Store16 :: "byte_order \<Rightarrow> bytes \<Rightarrow> nat \<Rightarrow> 16 word \<Rightarrow> bytes option" where
  "LittleEndian_Store16 bo m p v = host_store16 bo m p (FromHost16 bo v)"

definition LittleEndian_Load32 :: "byte_order \<Rightarrow> bytes \<Rightarrow> nat \<Rightarrow> 32 word option" where
  "LittleEndian_Load32 bo m p = map_option (ToHost32 bo) (host_load32 bo m p)"

definition LittleEndian_Store32 :: "byte_order \<Rightarrow> bytes \<Rightarrow> nat \<Rightarrow> 32 word \<Rightarrow> bytes option" where
  "LittleEndian_Store32 bo m p v = host_store32 bo m p (FromHost32 bo v)"

section \<open>The 32-bit branch of UnalignedCopy64\<close>

text \<open>
  Source and destination are in one memory, as in \<open>IncrementalCopyFastPath\<close>. The first word is
  stored before the second one is loaded.
\<close>

definition UnalignedCopy64_64bit :: "bytes \<Rightarrow> nat \<Rightarrow> nat \<Rightarrow> bytes option" where
  "UnalignedCopy64_64bit m src dst = do { v \<leftarrow> mem_read m src 8; mem_write m dst v }"

definition UnalignedCopy64_32bit :: "bytes \<Rightarrow> nat \<Rightarrow> nat \<Rightarrow> bytes option" where
  "UnalignedCopy64_32bit m src dst =
     do {
       v \<leftarrow> mem_read m src 4;
       m \<leftarrow> mem_write m dst v;
       v \<leftarrow> mem_read m (src + 4) 4;
       mem_write m (dst + 4) v
     }"

section \<open>Swapping is reversing\<close>

lemma bit_le_word: "bit (of_nat (le_nat bs) :: 'a::len word) i \<longleftrightarrow>
    i < LENGTH('a) \<and> i div 8 < length bs \<and> bit (bs ! (i div 8)) (i mod 8)"
  by (auto simp: bit_of_nat_iff bit_le_nat)

text \<open>The masks are decided bit by bit.\<close>

definition below_16 :: "nat list" where
  "below_16 = [0, 1, 2, 3, 4, 5, 6, 7, 8, 9, 10, 11, 12, 13, 14, 15]"

definition below_32 :: "nat list" where
  "below_32 = below_16 @ map ((+) 16) below_16"

definition below_64 :: "nat list" where
  "below_64 = below_32 @ map ((+) 32) below_32"

lemma below_16: "i < 16 \<Longrightarrow> i \<in> set below_16"
  unfolding below_16_def by simp presburger

lemma below_twice: "(\<And>i. i < n \<Longrightarrow> i \<in> set xs) \<Longrightarrow> i < n + n \<Longrightarrow> i \<in> set (xs @ map ((+) n) xs)" for i n :: nat
  by (cases "i < n") (auto simp: image_iff intro!: bexI [of _ "i - n"])

lemma below_32: "i < 32 \<Longrightarrow> i \<in> set below_32" and below_64: "j < 64 \<Longrightarrow> j \<in> set below_64"
proof -
  have 32: "i < 32 \<Longrightarrow> i \<in> set below_32" for i
    using below_twice [of 16 below_16 i, OF below_16] by (simp add: below_32_def)
  then show "i < 32 \<Longrightarrow> i \<in> set below_32" .
  show "j < 64 \<Longrightarrow> j \<in> set below_64"
    using below_twice [of 32 below_32 j, OF 32] by (simp add: below_64_def)
qed

lemmas below_defs = below_16_def below_32_def below_64_def

lemma bswap_16_rev: "bswap_16 (of_nat (le_nat [a, b])) = of_nat (le_nat [b, a])"
proof (rule bit_word_eqI)
  fix i assume "i < LENGTH(16)"
  then have i: "i \<in> set below_16" by (simp add: below_16)
  have "\<forall>i \<in> set below_16. bit (bswap_16 (of_nat (le_nat [a, b]))) i \<longleftrightarrow> bit (of_nat (le_nat [b, a]) :: 16 word) i"
    unfolding bswap_16_def bit_simps bit_le_word
    by (simp add: below_defs bit_simps bit_le_nat del: le_nat.simps)
  with i show "bit (bswap_16 (of_nat (le_nat [a, b]))) i \<longleftrightarrow> bit (of_nat (le_nat [b, a]) :: 16 word) i" by blast
qed

lemma bswap_32_rev: "bswap_32 (of_nat (le_nat [a, b, c, d])) = of_nat (le_nat [d, c, b, a])"
proof (rule bit_word_eqI)
  fix i assume "i < LENGTH(32)"
  then have i: "i \<in> set below_32" by (simp add: below_32)
  have "\<forall>i \<in> set below_32. bit (bswap_32 (of_nat (le_nat [a, b, c, d]))) i \<longleftrightarrow>
      bit (of_nat (le_nat [d, c, b, a]) :: 32 word) i"
    unfolding bswap_32_def Let_def bit_simps bit_le_word
    by (simp add: below_defs bit_simps bit_le_nat del: le_nat.simps)
  with i show "bit (bswap_32 (of_nat (le_nat [a, b, c, d]))) i \<longleftrightarrow> bit (of_nat (le_nat [d, c, b, a]) :: 32 word) i"
    by blast
qed

lemma bswap_64_rev: "bswap_64 (of_nat (le_nat [a, b, c, d, e, f, g, h])) = of_nat (le_nat [h, g, f, e, d, c, b, a])"
proof (rule bit_word_eqI)
  fix i assume "i < LENGTH(64)"
  then have i: "i \<in> set below_64" by (simp add: below_64)
  have "\<forall>i \<in> set below_64. bit (bswap_64 (of_nat (le_nat [a, b, c, d, e, f, g, h]))) i \<longleftrightarrow>
      bit (of_nat (le_nat [h, g, f, e, d, c, b, a]) :: 64 word) i"
    unfolding bswap_64_def Let_def bit_simps bit_le_word
    by (simp add: below_defs bit_simps bit_le_nat del: le_nat.simps)
  with i show "bit (bswap_64 (of_nat (le_nat [a, b, c, d, e, f, g, h]))) i \<longleftrightarrow>
      bit (of_nat (le_nat [h, g, f, e, d, c, b, a]) :: 64 word) i" by blast
qed

section \<open>The model is the same on every host\<close>

lemma list2: "length bs = 2 \<Longrightarrow> \<exists>a b. bs = [a, b]" and
  list4: "length bs = 4 \<Longrightarrow> \<exists>a b c d. bs = [a, b, c, d]" for bs :: "'a list"
  by (auto simp: numeral_eq_Suc length_Suc_conv)

lemma ToHost16_bytes: "length bs = 2 \<Longrightarrow> ToHost16 bo (of_nat (le_nat (host_bytes bo bs))) = of_nat (le_nat bs)"
  by (cases bo) (auto simp: ToHost16_def host_bytes_def bswap_16_rev simp del: le_nat.simps dest!: list2)

lemma ToHost32_bytes: "length bs = 4 \<Longrightarrow> ToHost32 bo (of_nat (le_nat (host_bytes bo bs))) = of_nat (le_nat bs)"
  by (cases bo) (auto simp: ToHost32_def host_bytes_def bswap_32_rev simp del: le_nat.simps dest!: list4)

lemma word16_bytes: "of_nat (le_nat (le_bytes 2 (unat v))) = (v :: 16 word)"
proof -
  have "unat v < 2 ^ 16" using unsigned_less [of v] by simp
  then show ?thesis by (simp add: le_nat_bytes)
qed

lemma word32_bytes: "of_nat (le_nat (le_bytes 4 (unat v))) = (v :: 32 word)"
proof -
  have "unat v < 2 ^ 32" using unsigned_less [of v] by simp
  then show ?thesis by (simp add: le_nat_bytes)
qed

lemma unat_le_nat16: "length bs = 2 \<Longrightarrow> unat (of_nat (le_nat bs) :: 16 word) = le_nat bs"
  using le_nat_bound [of bs] by (simp add: unat_of_nat)

lemma FromHost16_bytes: "host_bytes bo (le_bytes 2 (unat (FromHost16 bo v))) = le_bytes 2 (unat v)"
proof (cases bo)
  case BigEndianHost
  let ?b = "le_bytes 2 (unat v)"
  obtain a b where ab: "?b = [a, b]" using list2 [of ?b] by auto
  have "bswap_16 v = of_nat (le_nat [b, a])"
    using bswap_16_rev [of a b] word16_bytes [of v] unfolding ab by simp
  moreover have "unat (of_nat (le_nat [b, a]) :: 16 word) = le_nat [b, a]"
    by (rule unat_le_nat16) simp
  ultimately show ?thesis
    using BigEndianHost ab by (simp only: FromHost16_def host_bytes_def byte_order.case le_bytes_nat) (simp add: le_bytes_nat del: le_nat.simps)
qed (simp add: FromHost16_def host_bytes_def)

lemma FromHost32_bytes: "host_bytes bo (le_bytes 4 (unat (FromHost32 bo v))) = le_bytes 4 (unat v)"
proof (cases bo)
  case BigEndianHost
  let ?b = "le_bytes 4 (unat v)"
  obtain a b c d where ab: "?b = [a, b, c, d]" using list4 [of ?b] by auto
  have "bswap_32 v = of_nat (le_nat [d, c, b, a])"
    using bswap_32_rev [of a b c d] word32_bytes [of v] unfolding ab by simp
  moreover have "unat (of_nat (le_nat [d, c, b, a]) :: 32 word) = le_nat [d, c, b, a]"
    by (rule unat_le_nat32) simp
  ultimately show ?thesis
    using BigEndianHost ab by (simp only: FromHost32_def host_bytes_def byte_order.case le_bytes_nat) (simp add: le_bytes_nat del: le_nat.simps)
qed (simp add: FromHost32_def host_bytes_def)

text \<open>Byte order. On hosts of either byte order, \<open>LittleEndian::Load16\<close> and \<open>Load32\<close> read the bytes in
  memory as a little-endian number, \<open>Store16\<close> and \<open>Store32\<close> write them so, and all of them fail
  only outside the buffer: a stream written on one machine is read alike on the other.\<close>

theorem LittleEndian_any_host:
  "LittleEndian_Load16 bo m p = map_option (\<lambda>bs. of_nat (le_nat bs)) (mem_read m p 2) \<and>
   LittleEndian_Load32 bo m p = Load32 m p \<and>
   LittleEndian_Store16 bo m p v = Store16 m p v \<and>
   LittleEndian_Store32 bo m p u = mem_write m p (le_bytes 4 (unat u))"
proof (intro conjI)
  show "LittleEndian_Load16 bo m p = map_option (\<lambda>bs. of_nat (le_nat bs)) (mem_read m p 2)"
    by (cases "mem_read m p 2") (auto simp: LittleEndian_Load16_def host_load16_def ToHost16_bytes dest: mem_readD)
  show "LittleEndian_Load32 bo m p = Load32 m p"
    by (cases "mem_read m p 4")
      (auto simp: LittleEndian_Load32_def host_load32_def Load32_def UNALIGNED_LOAD32_def ToHost32_bytes dest: mem_readD)
  show "LittleEndian_Store16 bo m p v = Store16 m p v"
    by (simp add: LittleEndian_Store16_def host_store16_def Store16_def FromHost16_bytes)
  show "LittleEndian_Store32 bo m p u = mem_write m p (le_bytes 4 (unat u))"
    by (simp add: LittleEndian_Store32_def host_store32_def FromHost32_bytes)
qed

lemma mem_write_nth:
  assumes "mem_write m p bs = Some m'" and "i < length m"
  shows "m' ! i = (if p \<le> i \<and> i < p + length bs then bs ! (i - p) else m ! i)"
  using assms by (auto simp: mem_write_def nth_append min_def split: if_splits)

lemma UnalignedCopy64_bounds:
  assumes "src \<le> dst"
  shows "UnalignedCopy64_64bit m src dst = None \<longleftrightarrow> length m < dst + 8"
    and "UnalignedCopy64_32bit m src dst = None \<longleftrightarrow> length m < dst + 8"
  using assms
  by (auto simp: UnalignedCopy64_64bit_def UnalignedCopy64_32bit_def mem_read_def mem_write_def bind_eq_None_conv)

text \<open>Pointer size. The two branches of \<open>UnalignedCopy64\<close> stay inside the memory alike and change at most eight bytes;
  when they copy forwards they write the same bytes up to the distance between source and destination, so the same eight bytes when the
  distance is eight or more.\<close>

theorem UnalignedCopy64_branches:
  assumes "src \<le> dst" and "dst + 8 \<le> length m"
  shows "\<exists>m64 m32. UnalignedCopy64_64bit m src dst = Some m64 \<and> UnalignedCopy64_32bit m src dst = Some m32 \<and>
    length m64 = length m \<and> length m32 = length m \<and>
    (\<forall>i<length m. (i < dst \<or> dst + 8 \<le> i \<longrightarrow> m64 ! i = m ! i \<and> m32 ! i = m ! i) \<and>
       (i < dst + (dst - src) \<longrightarrow> m64 ! i = m32 ! i))"
proof -
  obtain m64 where 64: "UnalignedCopy64_64bit m src dst = Some m64"
    using UnalignedCopy64_bounds(1) [OF assms(1), of m] assms(2) by (cases "UnalignedCopy64_64bit m src dst") auto
  obtain m32 where 32: "UnalignedCopy64_32bit m src dst = Some m32"
    using UnalignedCopy64_bounds(2) [OF assms(1), of m] assms(2) by (cases "UnalignedCopy64_32bit m src dst") auto
  have r: "mem_read m src 8 = Some (take 8 (drop src m))" using assms by (simp add: mem_simps)
  have w64: "mem_write m dst (take 8 (drop src m)) = Some m64" using 64 r by (simp add: UnalignedCopy64_64bit_def)
  have "mem_read m src 4 = Some (take 4 (drop src m))" using assms by (simp add: mem_simps)
  then obtain m1 where w1: "mem_write m dst (take 4 (drop src m)) = Some m1"
      and w2: "mem_write m1 (dst + 4) (take 4 (drop (src + 4) m1)) = Some m32"
    using 32 assms by (auto simp: UnalignedCopy64_32bit_def bind_eq_Some_conv dest!: mem_readD)
  note len = mem_writeD(1) [OF w64] mem_writeD(1) [OF w1] mem_writeD(1) [OF w2]
  have n64: "m64 ! i = (if dst \<le> i \<and> i < dst + 8 then m ! (src + (i - dst)) else m ! i)" if "i < length m" for i
    using mem_write_nth [OF w64 that] assms by (cases "dst \<le> i \<and> i < dst + 8") auto
  have n1: "m1 ! i = (if dst \<le> i \<and> i < dst + 4 then m ! (src + (i - dst)) else m ! i)" if "i < length m" for i
    using mem_write_nth [OF w1 that] assms by (cases "dst \<le> i \<and> i < dst + 4") auto
  have n32: "m32 ! i = (if dst + 4 \<le> i \<and> i < dst + 8 then m1 ! (src + (i - dst)) else m1 ! i)" if "i < length m" for i
  proof (cases "dst + 4 \<le> i \<and> i < dst + 8")
    case True
    from True obtain k where "i = dst + 4 + k" using le_Suc_ex by blast
    moreover from this True have "k < 4" by simp
    ultimately show ?thesis using mem_write_nth [OF w2, of i] that len assms by (simp add: add.assoc)
  next
    case False
    with mem_write_nth [OF w2, of i] that len assms show ?thesis by auto
  qed
  have "m64 ! i = m32 ! i" if i: "i < length m" "i < dst + (dst - src)" for i
    using n1 [OF i(1)] n1 [of "src + (i - dst)"] assms i unfolding n64 [OF i(1)] n32 [OF i(1)] by auto
  moreover have "m64 ! i = m ! i \<and> m32 ! i = m ! i" if "i < length m" "i < dst \<or> dst + 8 \<le> i" for i
    using that n64 n1 n32 by auto
  ultimately show ?thesis using 64 32 len by auto
qed

theorem UnalignedCopy64_branches_witness:
  "\<exists>m64 m32. UnalignedCopy64_64bit [1, 2, 3, 4, 5, 6, 7, 8, 9, 10, 11] 0 3 = Some m64 \<and>
     UnalignedCopy64_32bit [1, 2, 3, 4, 5, 6, 7, 8, 9, 10, 11] 0 3 = Some m32 \<and> m64 ! 5 = m32 ! 5 \<and> m64 ! 8 \<noteq> m32 ! 8"
proof -
  have "UnalignedCopy64_64bit [1, 2, 3, 4, 5, 6, 7, 8, 9, 10, 11] 0 3 = Some [1, 2, 3, 1, 2, 3, 4, 5, 6, 7, 8]"
    "UnalignedCopy64_32bit [1, 2, 3, 4, 5, 6, 7, 8, 9, 10, 11] 0 3 = Some [1, 2, 3, 1, 2, 3, 4, 2, 3, 4, 8]"
    by code_simp+
  with UnalignedCopy64_branches [of 0 3 "[1, 2, 3, 4, 5, 6, 7, 8, 9, 10, 11]"] show ?thesis by auto
qed

text \<open>Byte swaps. The three portable byte swaps reverse the bytes of a word.\<close>

theorem bswap_reverses:
  "bswap_16 (of_nat (le_nat [a, b])) = of_nat (le_nat [b, a]) \<and>
   bswap_32 (of_nat (le_nat [a, b, c, d])) = of_nat (le_nat [d, c, b, a]) \<and>
   bswap_64 (of_nat (le_nat [a, b, c, d, e, f, g, h])) = of_nat (le_nat [h, g, f, e, d, c, b, a])"
  by (intro conjI bswap_16_rev bswap_32_rev bswap_64_rev)

section \<open>Bit scans\<close>

text \<open>Bit scans. The portable \<open>Log2Floor\<close> is the position of the highest set bit, with -1 for zero, and
  \<open>FindLSBSetNonZero\<close> and \<open>FindLSBSetNonZero64\<close> find the lowest set bit of a word that is not zero.\<close>

theorem bit_scans_correct:
  "(n = 0 \<longrightarrow> Log2Floor n = -1) \<and>
   (n \<noteq> 0 \<longrightarrow> 0 \<le> Log2Floor n \<and> 2 ^ nat (Log2Floor n) \<le> unat n \<and> unat n < 2 ^ Suc (nat (Log2Floor n)) \<and>
      lsb_at n (FindLSBSetNonZero n)) \<and>
   (m \<noteq> 0 \<longrightarrow> lsb_at m (FindLSBSetNonZero64 m))"
proof (intro conjI impI)
  show "n = 0 \<Longrightarrow> Log2Floor n = -1" by (simp add: Log2Floor_def)
  show "lsb_at n (FindLSBSetNonZero n)" if "n \<noteq> 0"
    using lsb_exists [OF that] by (auto simp: FindLSBSetNonZero_lsb)
  show "lsb_at m (FindLSBSetNonZero64 m)" if "m \<noteq> 0"
    using lsb_exists [OF that] by (auto simp: FindLSBSetNonZero64_lsb)
  assume nz: "n \<noteq> 0"
  have "unat n < 2 ^ 2 ^ Suc 4" using unsigned_less [of n] by simp
  from Log2Floor_loop_correct [OF nz this, of 0] nz obtain k where
    "Log2Floor n = int k" "2 ^ k \<le> unat n" "unat n < 2 ^ Suc k" by (auto simp: Log2Floor_def)
  then show "0 \<le> Log2Floor n" "2 ^ nat (Log2Floor n) \<le> unat n" "unat n < 2 ^ Suc (nat (Log2Floor n))" by simp_all
qed

theorem bit_scans_correct_witness:
  "Log2Floor 1000 = 9 \<and> lsb_at (1000 :: 32 word) (FindLSBSetNonZero 1000) \<and> FindLSBSetNonZero 1000 = 3"
  using bit_scans_correct [of 1000 1] by simp code_simp

end
