(* ===== verification/SnappyTestTools.thy ===== *)
theory SnappyTestTools
  imports SnappyEmit "HOL-Library.Signed_Division"
begin

text \<open>
  What the unit tests of Snappy are made with: the random numbers of \<open>snappy-test.h\<close>, and the
  routines of \<open>snappy_unittest.cc\<close> that write compressed streams by hand. The latter reach the
  elements that the compressor never emits: copies with four-byte offsets, short copies and
  long literals of any length.
\<close>

section \<open>Class ACMRandom\<close>

text \<open>The state is \<open>seed_\<close>; every operation returns its value and the next state.\<close>

definition ACM_M :: "32 word" where
  "ACM_M = 2147483647"

definition ACM_Next :: "32 word \<Rightarrow> 32 word \<times> 32 word" where
  "ACM_Next seed =
     (let product = ucast seed * 16807 :: 64 word;
          seed = ucast (drop_bit 31 product + (product AND ucast ACM_M)) :: 32 word;
          seed = (if ACM_M < seed then seed - ACM_M else seed)
      in (seed, seed))"

text \<open>The operands are of type \<open>int32\<close>; a division by zero and a shift by a negative number are \<open>None\<close>.\<close>

definition ACM_Uniform :: "int \<Rightarrow> 32 word \<Rightarrow> (int \<times> 32 word) option" where
  "ACM_Uniform n seed =
     do {
       assert_that (n \<noteq> 0);
       let (r, seed) = ACM_Next seed;
       Some (sint r smod n, seed)
     }"

definition ACM_Rand8 :: "32 word \<Rightarrow> 8 word \<times> 32 word" where
  "ACM_Rand8 seed = (let (r, seed) = ACM_Next seed in (ucast (drop_bit 1 r AND 0xff), seed))"

definition ACM_OneIn :: "int \<Rightarrow> 32 word \<Rightarrow> (bool \<times> 32 word) option" where
  "ACM_OneIn x seed = do { (r, seed) \<leftarrow> ACM_Uniform x seed; Some (r = 0, seed) }"

definition ACM_Skewed :: "int \<Rightarrow> 32 word \<Rightarrow> (32 word \<times> 32 word) option" where
  "ACM_Skewed max_log seed =
     do {
       assert_that (max_log + 1 \<noteq> 0);
       let (r, seed) = ACM_Next seed;
       let base = (sint r - 1) smod (max_log + 1);
       assert_that (0 \<le> base \<and> base < 32);
       let (r, seed) = ACM_Next seed;
       Some ((r - 1) AND (push_bit (nat base) 1 - 1), seed)
     }"

lemma ACM_Next_unat:
  "\<exists>r. ACM_Next seed = (r, r) \<and>
     (let p = unat seed * 16807; s = p div 2147483648 + p mod 2147483648
      in unat r = (if 2147483647 < s then s - 2147483647 else s))"
proof -
  let ?p = "ucast seed * 16807 :: 64 word" and ?n = "unat seed * 16807"
  have seed: "unat seed < 2 ^ 32" using unsigned_less [of seed] by simp
  have p: "unat ?p = ?n"
    using seed by (simp add: unat_word_ariths unsigned_ucast_eq take_bit_eq_mod)
  have hi: "unat (drop_bit 31 ?p) = ?n div 2147483648"
    unfolding unat_drop_bit_eq p by (simp only: drop_bit_eq_div) simp
  have "?p AND ucast ACM_M = take_bit 31 ?p"
    by (simp add: ACM_M_def take_bit_eq_mask mask_eq_exp_minus_1 and.commute)
  then have lo: "unat (?p AND ucast ACM_M) = ?n mod 2147483648"
    by (simp only: unsigned_take_bit_eq p) (simp add: take_bit_eq_mod)
  let ?s = "?n div 2147483648 + ?n mod 2147483648"
  have "?n < 33614 * 2147483648" using seed by simp
  then have "?n div 2147483648 < 33614" by (rule less_mult_imp_div_less)
  moreover have "?n mod 2147483648 < 2147483648" by simp
  ultimately have small: "?s < 2 ^ 32" by simp
  let ?w = "ucast (drop_bit 31 ?p + (?p AND ucast ACM_M)) :: 32 word"
  have "unat (drop_bit 31 ?p + (?p AND ucast ACM_M)) = ?s"
    using small hi lo by (simp add: unat_word_ariths)
  then have w: "unat ?w = ?s" using small by (simp add: unsigned_ucast_eq take_bit_eq_mod)
  have m: "unat ACM_M = 2147483647" by (simp add: ACM_M_def)
  have less: "ACM_M < ?w \<longleftrightarrow> 2147483647 < ?s" by (simp only: word_less_nat_alt w m)
  have sub: "2147483647 < ?s \<Longrightarrow> unat (?w - ACM_M) = ?s - 2147483647"
    using less w m by (simp add: unat_sub_if_size word_le_nat_alt)
  let ?r = "if ACM_M < ?w then ?w - ACM_M else ?w"
  have "ACM_Next seed = (?r, ?r)" by (simp only: ACM_Next_def Let_def)
  moreover have "unat ?r = (if 2147483647 < ?s then ?s - 2147483647 else ?s)"
    using less sub w by (simp only: split: if_split) blast
  ultimately show ?thesis by (auto simp only: Let_def)
qed

lemma mersenne: "p mod 2147483647 = (p div 2147483648 + p mod 2147483648) mod 2147483647" for p :: nat
proof -
  have "p = p div 2147483648 * 2147483648 + p mod 2147483648" by simp
  then have "p = p div 2147483648 + p mod 2147483648 + 2147483647 * (p div 2147483648)" by linarith
  then show ?thesis by (metis mod_mult_self2)
qed

definition ACM_valid :: "32 word \<Rightarrow> bool" where
  "ACM_valid seed \<longleftrightarrow> 0 < unat seed \<and> unat seed < 2147483647"

lemma multiplier_coprime: "coprime (2147483647 :: nat) 16807"
  by (simp add: coprime_iff_gcd_eq_1 gcd_non_0_nat)

lemma ACM_Next_valid:
  assumes "ACM_valid seed"
  shows "\<exists>r. ACM_Next seed = (r, r) \<and> unat r = unat seed * 16807 mod 2147483647 \<and> ACM_valid r"
proof -
  let ?p = "unat seed * 16807" and ?M = "2147483647 :: nat"
  let ?s = "?p div 2147483648 + ?p mod 2147483648"
  obtain r where r: "ACM_Next seed = (r, r)" "unat r = (if ?M < ?s then ?s - ?M else ?s)"
    using ACM_Next_unat [of seed] by (auto simp: Let_def)
  have "\<not> ?M dvd ?p"
  proof
    assume "?M dvd ?p"
    then have "?M dvd unat seed" using multiplier_coprime by (simp add: coprime_dvd_mult_left_iff)
    with assms show False by (auto simp: ACM_valid_def dest: dvd_imp_le)
  qed
  then have nz: "?p mod ?M \<noteq> 0" by (simp add: dvd_eq_mod_eq_0)
  have "?p < ?M * 16807" using assms by (simp add: ACM_valid_def)
  then have "?p div 2147483648 < 16807" by simp
  moreover have "?p mod 2147483648 \<le> ?M" by simp
  ultimately have s: "?s < 2 * ?M" by linarith
  have "?s mod ?M = (if ?M < ?s then ?s - ?M else ?s)"
  proof (cases "?M < ?s")
    case True
    then have "?s mod ?M = (?s - ?M) mod ?M" by (intro le_mod_geq) simp
    with True s show ?thesis by simp
  next
    case False
    moreover have "?s \<noteq> ?M" using nz mersenne [of ?p] by auto
    ultimately show ?thesis by simp
  qed
  with r mersenne [of ?p] have "unat r = ?p mod ?M" by simp
  with r(1) nz show ?thesis by (auto simp: ACM_valid_def)
qed

lemma sint_small: "unat (r :: 32 word) < 2147483647 \<Longrightarrow> sint r = int (unat r)"
proof -
  assume "unat r < 2147483647"
  then have u: "uint r < 2147483648" "0 \<le> uint r" unfolding uint_nat by linarith+
  then have "signed_take_bit 31 (uint r) = uint r" by (intro signed_take_bit_int_eq_self order_trans [OF _ u(2)]) (use u(1) in simp_all)
  then show ?thesis by (simp add: sint_uint)
qed

lemma ACMRandom_step:
  assumes "ACM_valid seed"
  shows "\<exists>r. ACM_Next seed = (r, r) \<and> unat r = unat seed * 16807 mod 2147483647 \<and> ACM_valid r"
    and "0 < n \<Longrightarrow> \<exists>v s. ACM_Uniform n seed = Some (v, s) \<and> 0 \<le> v \<and> v < n \<and> ACM_valid s"
    and "0 \<le> k \<and> k < 32 \<Longrightarrow> \<exists>v s. ACM_Skewed k seed = Some (v, s) \<and> unat v < 2 ^ nat k \<and> ACM_valid s"
proof -
  obtain r where r: "ACM_Next seed = (r, r)" "unat r = unat seed * 16807 mod 2147483647" "ACM_valid r"
    using ACM_Next_valid [OF assms] by blast
  obtain r' where r': "ACM_Next r = (r', r')" "ACM_valid r'" using ACM_Next_valid [OF r(3)] by blast
  have pos: "0 < sint r" using r(3) using sint_small [of r] unfolding ACM_valid_def by linarith
  show "\<exists>r. ACM_Next seed = (r, r) \<and> unat r = unat seed * 16807 mod 2147483647 \<and> ACM_valid r"
    by (rule ACM_Next_valid [OF assms])
  show "\<exists>v s. ACM_Uniform n seed = Some (v, s) \<and> 0 \<le> v \<and> v < n \<and> ACM_valid s" if "0 < n"
    using that r smod_int_compares(1,2) [of "sint r" n] pos by (simp add: ACM_Uniform_def)
  show "\<exists>v s. ACM_Skewed k seed = Some (v, s) \<and> unat v < 2 ^ nat k \<and> ACM_valid s" if "0 \<le> k \<and> k < 32"
  proof -
    let ?b = "(sint r - 1) smod (k + 1)"
    have b: "0 \<le> ?b" "?b < k + 1" using pos that by (intro smod_int_compares; simp)+
    have "(r' - 1) AND (push_bit (nat ?b) 1 - 1) = take_bit (nat ?b) (r' - 1)"
      by (simp add: take_bit_eq_mask mask_eq_exp_minus_1)
    then have "unat ((r' - 1) AND (push_bit (nat ?b) 1 - 1)) < 2 ^ nat ?b"
      by (simp only: unsigned_take_bit_eq) simp
    also have "(2 :: nat) ^ nat ?b \<le> 2 ^ nat k" using b by (intro power_increasing) simp_all
    finally show ?thesis using r(1) r' b that by (simp add: ACM_Skewed_def)
  qed
qed

text \<open>
  Random numbers. From a state between 1 and M - 1 the generator computes the next number of Lehmer's
  sequence, seed * 16807 mod (2^31 - 1), without a division, and the state stays between 1 and M - 1; Uniform
  and Skewed are defined there and stay in their ranges.
\<close>

theorem ACMRandom_correct:
  assumes "ACM_valid seed"
  shows "(\<exists>r. ACM_Next seed = (r, r) \<and> unat r = unat seed * 16807 mod 2147483647 \<and> ACM_valid r) \<and>
    (0 < n \<longrightarrow> (\<exists>v s. ACM_Uniform n seed = Some (v, s) \<and> 0 \<le> v \<and> v < n \<and> ACM_valid s)) \<and>
    (0 \<le> k \<and> k < 32 \<longrightarrow> (\<exists>v s. ACM_Skewed k seed = Some (v, s) \<and> unat v < 2 ^ nat k \<and> ACM_valid s))"
  using ACMRandom_step [OF assms] by blast

theorem ACMRandom_correct_witness:
  "\<exists>v s. ACM_Uniform 10 301 = Some (v, s) \<and> 0 \<le> v \<and> v < 10 \<and> ACM_Next 301 = (5058907, 5058907)"
proof -
  have "ACM_valid 301" by (simp add: ACM_valid_def)
  moreover have "ACM_Next 301 = (5058907, 5058907)" by code_simp
  ultimately show ?thesis using ACMRandom_correct [of 301 10 0] by auto
qed

section \<open>Streams written by hand\<close>

text \<open>The loop of \<open>AppendLiteral\<close> fills an array of four bytes.\<close>

function literal_number :: "nat \<Rightarrow> bytes \<Rightarrow> bytes option" where
  "literal_number n number =
     (if n > 0
      then do {
        assert_that (length number < 4);
        literal_number (drop_bit 8 n) (number @ [of_nat (n AND 0xff)])
      }
      else Some number)"
  by pat_completeness auto
termination
  by (relation "measure fst") (auto simp: drop_bit_eq_div)

declare literal_number.simps [simp del]

definition AppendLiteral :: "bytes \<Rightarrow> bytes \<Rightarrow> bytes option" where
  "AppendLiteral dst literal =
     (if literal = [] then Some dst
      else
        let n = length literal - 1 in
        if n < 60 then Some (dst @ [of_nat (0 OR push_bit 2 n)] @ literal)
        else do {
          number \<leftarrow> literal_number n [];
          Some (dst @ [of_nat (0 OR push_bit 2 (59 + length number))] @ number @ literal)
        })"

function AppendCopy :: "bytes \<Rightarrow> nat \<Rightarrow> nat \<Rightarrow> bytes" where
  "AppendCopy dst offset len =
     (if len > 0
      then
        let to_copy = (if len \<ge> 68 then 64 else if len > 64 then 60 else len);
            piece =
              (if to_copy \<ge> 4 \<and> to_copy < 12 \<and> offset < 2048
               then [of_nat (1 OR push_bit 2 (to_copy - 4) OR push_bit 5 (drop_bit 8 offset)), of_nat (offset AND 0xff)]
               else if offset < 65536
               then [of_nat (2 OR push_bit 2 (to_copy - 1)), of_nat (offset AND 0xff), of_nat (drop_bit 8 offset)]
               else [of_nat (3 OR push_bit 2 (to_copy - 1)), of_nat (offset AND 0xff), of_nat (drop_bit 8 offset AND 0xff),
                     of_nat (drop_bit 16 offset AND 0xff), of_nat (drop_bit 24 offset AND 0xff)])
        in AppendCopy (dst @ piece) offset (len - to_copy)
      else dst)"
  by pat_completeness auto
termination
  by (relation "measure (\<lambda>(dst, offset, len). len)") auto

declare AppendCopy.simps [simp del]

text \<open>What they append is elements of the format.\<close>

lemma literal_number_digits:
  "length acc + length (digits n) \<le> 4 \<Longrightarrow> literal_number n acc = Some (acc @ digits n)"
proof (induction n acc rule: literal_number.induct)
  case (1 n acc)
  show ?case
  proof (cases "n = 0")
    case True
    then show ?thesis by (simp add: literal_number.simps digits.simps)
  next
    case False
    then have d: "digits n = of_nat (n mod 256) # digits (n div 256)" by (subst digits.simps) simp
    with "1.prems" False "1.IH" show ?thesis
      by (subst literal_number.simps) (simp add: drop_bit_eq_div and_masks)
  qed
qed

lemma AppendLiteral_code:
  assumes "lit \<noteq> []" "length lit < 2 ^ 31"
  shows "AppendLiteral dst lit = Some (dst @ literal_code lit)"
proof (cases "length lit - 1 < 60")
  case True
  with assms(1) show ?thesis by (simp add: AppendLiteral_def literal_code_def push_bit_eq_mult mult.commute)
next
  case False
  have "length (digits (length lit - 1)) \<le> 4" using assms(2) by (intro digits_length) simp
  with False assms(1) show ?thesis
    by (simp add: AppendLiteral_def literal_code_def Let_def literal_number_digits push_bit_eq_mult mult.commute)
qed

definition copy_piece :: "nat \<Rightarrow> nat \<Rightarrow> bytes" where
  "copy_piece off n =
     (if n \<ge> 4 \<and> n < 12 \<and> off < 2048 then copy_code off n
      else if off < 65536 then of_nat (2 + 4 * (n - 1)) # le_bytes 2 off
      else of_nat (3 + 4 * (n - 1)) # le_bytes 4 off)"

lemma byte_mod [simp]: "(of_nat (x mod 256) :: byte) = of_nat x"
  by (simp add: word_unat_eq_iff)

lemma copy_tags:
  "a < 8 \<Longrightarrow> 1 OR push_bit 2 a OR push_bit 5 b = 1 + 4 * a + 32 * b"
  "2 OR push_bit 2 a = 2 + 4 * a" "3 OR push_bit 2 a = 3 + 4 * a" for a b :: nat
  using or_push [of 1 2 a] or_push [of "1 + 4 * a" 5 b] or_push [of 2 2 a] or_push [of 3 2 a]
  by (simp_all flip: or.assoc)

lemma le_bytes_24:
  "le_bytes 2 v = [of_nat v, of_nat (v div 256)]"
  "le_bytes 4 v = [of_nat v, of_nat (v div 256), of_nat (v div 256 div 256), of_nat (v div 256 div 256 div 256)]"
proof -
  have n: "(2 :: nat) = Suc (Suc 0)" "(4 :: nat) = Suc (Suc (Suc (Suc 0)))" by simp_all
  show "le_bytes 2 v = [of_nat v, of_nat (v div 256)]"
    "le_bytes 4 v = [of_nat v, of_nat (v div 256), of_nat (v div 256 div 256), of_nat (v div 256 div 256 div 256)]"
    unfolding n by (simp_all only: le_bytes.simps)
qed

lemma AppendCopy_piece:
  "(if k \<ge> 4 \<and> k < 12 \<and> off < 2048
    then [of_nat (1 OR push_bit 2 (k - 4) OR push_bit 5 (drop_bit 8 off)), of_nat (off AND 0xff)]
    else if off < 65536
    then [of_nat (2 OR push_bit 2 (k - 1)), of_nat (off AND 0xff), of_nat (drop_bit 8 off)]
    else [of_nat (3 OR push_bit 2 (k - 1)), of_nat (off AND 0xff), of_nat (drop_bit 8 off AND 0xff),
          of_nat (drop_bit 16 off AND 0xff), of_nat (drop_bit 24 off AND 0xff)]) = copy_piece off k"
proof -
  have d: "drop_bit 8 off = off div 256" "drop_bit 16 off = off div 256 div 256" "drop_bit 24 off = off div 256 div 256 div 256"
    by (simp_all add: drop_bit_eq_div flip: div_mult2_eq)
  have "k - 4 < 8" if "k \<ge> 4 \<and> k < 12 \<and> off < 2048" using that by auto
  note tag = copy_tags(1) [OF this]
  show ?thesis
  proof (cases "k \<ge> 4 \<and> k < 12 \<and> off < 2048")
    case True
    show ?thesis using True by (simp only: tag [OF True] copy_piece_def copy_code_def d and_masks if_True byte_mod simp_thms)
  next
    case False
    show ?thesis using False
      by (simp only: if_False copy_piece_def d and_masks le_bytes_24 copy_tags(2,3) byte_mod)
  qed
qed

lemma AppendCopy_step:
  "AppendCopy dst off len =
     (if 0 < len
      then let k = (if 68 \<le> len then 64 else if 64 < len then 60 else len)
           in AppendCopy (dst @ copy_piece off k) off (len - k)
      else dst)"
  by (subst AppendCopy.simps, unfold AppendCopy_piece Let_def) (rule refl)

lemma parse_copy_piece:
  assumes "1 \<le> n" "n \<le> 64" "off < 2 ^ 32"
  shows "parse_element wr (copy_piece off n) = Some (Copy off n, [])"
proof -
  consider (a) "n \<ge> 4" "n < 12" "off < 2048" | (b) "copy_piece off n = of_nat (2 + 4 * (n - 1)) # le_bytes 2 off" "off < 65536"
    | (c) "copy_piece off n = of_nat (3 + 4 * (n - 1)) # le_bytes 4 off"
    unfolding copy_piece_def by metis
  then show ?thesis
  proof cases
    case a
    then show ?thesis using parse_copy_code [of n off wr] assms by (simp add: copy_piece_def)
  next
    case b
    let ?t = "2 + 4 * (n - 1)"
    have t: "?t < 256" "?t mod 4 = 2" "?t div 4 = n - 1" using assms(1,2) by (simp_all only: mod_mult_self2) simp_all
    have u: "unat (of_nat ?t :: byte) = ?t" using t(1) by (simp only: unat_byte mod_less)
    show ?thesis unfolding b(1) parse_element_def list.case Let_def u t
      using assms b(2) by (simp add: take_copy_def le_nat_bytes)
  next
    case c
    let ?t = "3 + 4 * (n - 1)"
    have t: "?t < 256" "?t mod 4 = 3" "?t div 4 = n - 1" using assms(1,2) by (simp_all only: mod_mult_self2) simp_all
    have u: "unat (of_nat ?t :: byte) = ?t" using t(1) by (simp only: unat_byte mod_less)
    show ?thesis unfolding c(1) parse_element_def list.case Let_def u t
      using assms by (simp add: take_copy_def le_nat_bytes)
  qed
qed

text \<open>A stream that begins with \<open>pre\<close>, after which \<open>dst\<close> has elements for \<open>out\<close>\<close>

definition stream_of :: "bytes \<Rightarrow> bytes \<Rightarrow> bytes \<Rightarrow> bool" where
  "stream_of pre dst out \<longleftrightarrow> (\<exists>body. dst = pre @ body \<and> (\<forall>wr. wr_ok wr \<longrightarrow> decode wr body [] = Some out))"

lemma stream_of_extend:
  "stream_of pre dst out \<Longrightarrow> (\<And>wr. wr_ok wr \<Longrightarrow> decode wr more out = Some out') \<Longrightarrow> stream_of pre (dst @ more) out'"
  by (force simp: stream_of_def decode_append)

lemma AppendLiteral_stream:
  assumes "stream_of pre dst out" and "length lit < 2 ^ 31"
  shows "\<exists>d. AppendLiteral dst lit = Some d \<and> stream_of pre d (out @ lit) \<and> length d \<le> length dst + 5 + length lit"
proof (cases "lit = []")
  case True
  with assms(1) show ?thesis by (simp add: AppendLiteral_def)
next
  case False
  have "decode wr (literal_code lit) out = Some (out @ lit)" if "wr_ok wr" for wr
    using parse_literal_code [OF False _ that] assms(2) by (simp add: decode_step)
  from stream_of_extend [OF assms(1) this] have "stream_of pre (dst @ literal_code lit) (out @ lit)" by simp
  moreover have "length (digits (length lit - 1)) \<le> 4" using assms(2) by (intro digits_length) simp
  then have "length (literal_code lit) \<le> 5 + length lit" by (simp add: literal_code_def Let_def)
  ultimately show ?thesis using AppendLiteral_code [OF False assms(2), of dst] by simp
qed

lemma AppendCopy_stream:
  assumes "stream_of pre dst out" and "0 < off" and "off \<le> length out" and "off < 2 ^ 31"
  shows "stream_of pre (AppendCopy dst off len) (copy_from off len out) \<and>
     length (AppendCopy dst off len) \<le> length dst + 5 * len"
  using assms
proof (induction len arbitrary: dst out rule: less_induct)
  case (less len)
  show ?case
  proof (cases "len = 0")
    case True
    with less.prems show ?thesis by (simp add: AppendCopy_step)
  next
    case False
    define k where "k = (if 68 \<le> len then 64 else if 64 < len then 60 else len)"
    have k: "1 \<le> k" "k \<le> 64" "k \<le> len" using False by (auto simp: k_def)
    have "decode wr (copy_piece off k) out = Some (copy_from off k out)" for wr
      using parse_copy_piece [OF k(1,2), of off wr] less.prems(2,3,4) by (simp add: decode_step)
    from stream_of_extend [OF less.prems(1) this]
    have "stream_of pre (dst @ copy_piece off k) (copy_from off k out)" by simp
    from less.IH [OF _ this, of "len - k"] k less.prems(2,3,4)
    have *: "stream_of pre (AppendCopy (dst @ copy_piece off k) off (len - k)) (copy_from off (len - k) (copy_from off k out))"
      "length (AppendCopy (dst @ copy_piece off k) off (len - k)) \<le> length (dst @ copy_piece off k) + 5 * (len - k)"
      by simp_all
    have "length (copy_piece off k) \<le> 5 * k" using k(1) by (simp add: copy_piece_def copy_code_def le_bytes_24)
    moreover have "AppendCopy dst off len = AppendCopy (dst @ copy_piece off k) off (len - k)"
      using False by (subst AppendCopy_step) (simp add: k_def)
    ultimately show ?thesis using k * by (simp flip: copy_from_add)
  qed
qed

text \<open>
  Hand-made streams. Whatever has been written before, appending a literal of less than
  2 GiB with AppendLiteral, or with AppendCopy a copy of any length from any distance within the
  output, adds elements that extend the decoded output by the literal, or by the copied bytes.
\<close>

theorem hand_made_elements:
  assumes "stream_of pre dst out"
  shows "(length lit < 2 ^ 31 \<longrightarrow> (\<exists>d. AppendLiteral dst lit = Some d \<and> stream_of pre d (out @ lit))) \<and>
    (0 < off \<and> off \<le> length out \<and> off < 2 ^ 31 \<longrightarrow> stream_of pre (AppendCopy dst off len) (copy_from off len out))"
  using AppendLiteral_stream [OF assms] AppendCopy_stream [OF assms] by blast

theorem hand_made_elements_witness:
  "stream_of [] (AppendCopy [8, 97, 98, 99] 3 70) (copy_from 3 70 [97, 98, 99])"
proof -
  have "parse_element wr [8, 97, 98, 99] = Some (Literal [97, 98, 99], [])" for wr
    by (simp add: parse_element_def take_literal_def Let_def)
  then have "stream_of [] [8, 97, 98, 99] [97, 98, 99]" by (simp add: stream_of_def decode_step)
  from hand_made_elements [OF this, of "[]" 3 70] show ?thesis by simp
qed

end
