(* ===== verification/SnappyTests.thy ===== *)
theory SnappyTests
  imports SnappyTestTools SnappyRoundTrip SnappyIOVecSpec
begin

text \<open>
  The tests of \<open>snappy_unittest.cc\<close> as functions: \<open>Verify\<close> and the checks it is made of, for
  every input, and the tests of single features. A failed \<open>CHECK\<close> is \<open>None\<close>.
\<close>

section \<open>Memory\<close>

text \<open>What the memory that a test allocates happens to hold\<close>

record test_memory =
  tm_new :: "nat \<Rightarrow> bytes"
  tm_small :: hash_table
  tm_large :: hash_table
  tm_scratch :: bytes
  tm_max_size :: nat

definition test_memory_ok :: "test_memory \<Rightarrow> bool" where
  "test_memory_ok tm \<longleftrightarrow> memory_ok (tm_new tm) (tm_small tm) (tm_large tm) \<and>
     length (tm_scratch tm) = kMaximumTagLength \<and> 2 ^ 31 \<le> tm_max_size tm"

section \<open>Verify\<close>

text \<open>The checks on a compressed string that \<open>VerifyString\<close> and \<open>VerifyIOVec\<close> begin with\<close>

definition compress_checked :: "test_memory \<Rightarrow> bytes \<Rightarrow> bytes option" where
  "compress_checked tm input =
     do {
       (compressed, written) \<leftarrow> Compress_string (tm_new tm) (tm_small tm) (tm_large tm) input [];
       assert_that (written = length compressed);
       assert_that (length compressed \<le> MaxCompressedLength (length input));
       ok \<leftarrow> IsValidCompressedBuffer (tm_scratch tm) compressed;
       assert_that ok;
       Some compressed
     }"

definition VerifyString :: "test_memory \<Rightarrow> bytes \<Rightarrow> nat option" where
  "VerifyString tm input =
     do {
       compressed \<leftarrow> compress_checked tm input;
       (ok, uncompressed) \<leftarrow> Uncompress (tm_scratch tm) (tm_max_size tm) compressed [];
       assert_that ok;
       assert_that (uncompressed = input);
       Some (length uncompressed)
     }"

text \<open>
  \<open>VerifyIOVec\<close>: the lengths of the buffers, of which \<open>k\<close> are left, with \<open>used\<close> bytes so far.
  The last length is a subtraction of type \<open>size_t\<close>, which wraps around when the random
  lengths exceed the input.
\<close>

fun iov_lengths :: "nat \<Rightarrow> nat \<Rightarrow> nat \<Rightarrow> 32 word \<Rightarrow> nat list option" where
  "iov_lengths 0 len_all used rnd = Some []"
| "iov_lengths (Suc k) len_all used rnd =
     (if k = 0 then Some [nat ((int len_all - int used) mod 2 ^ 64)]
      else do {
        (one, rnd) \<leftarrow> ACM_OneIn 5 rnd;
        (len, rnd) \<leftarrow> (if one then Some (0, rnd) else ACM_Uniform (int len_all) rnd);
        rest \<leftarrow> iov_lengths k len_all (used + nat len) rnd;
        Some (nat len # rest)
      })"

text \<open>The buffers lie one behind the other in \<open>buf\<close>, and may run into what lies \<open>beyond\<close>.\<close>

fun cut :: "nat list \<Rightarrow> bytes \<Rightarrow> bytes list" where
  "cut [] m = []"
| "cut (n # ns) m = take n m # cut ns (drop n m)"

definition VerifyIOVec :: "test_memory \<Rightarrow> bytes \<Rightarrow> bytes \<Rightarrow> unit option" where
  "VerifyIOVec tm beyond input =
     do {
       compressed \<leftarrow> compress_checked tm input;
       let buf = tm_new tm (length input);
       let (r, rnd) = ACM_Next (of_nat (length input));
       let num = nat (sint r smod 10 + 1);
       let num = (if length input < num then length input else num);
       lens \<leftarrow> iov_lengths num (length input) 0 rnd;
       (ok, iov) \<leftarrow> RawUncompressToIOVec (tm_scratch tm) compressed (cut lens (buf @ beyond));
       assert_that ok;
       assert_that (take (length input) (concat iov) = input);
       Some ()
     }"

definition VerifyNonBlockedCompression :: "test_memory \<Rightarrow> bytes \<Rightarrow> unit option" where
  "VerifyNonBlockedCompression tm input =
     (if kBlockSize < length input then Some ()
      else do {
        let prefix = Append32 [] (of_nat (length input));
        let (large, table, table_size, wmem) =
          GetHashTable (tm_large tm) (length input) (WorkingMemory_init (tm_small tm));
        let compressed = string_resize prefix (length prefix + MaxCompressedLength (length input));
        (dest, end, table) \<leftarrow> CompressFragment input (drop (length prefix) compressed) table table_size;
        let compressed = string_resize (take (length prefix) compressed @ dest) (length prefix + end);
        (ok, uncomp_str) \<leftarrow> Uncompress (tm_scratch tm) (tm_max_size tm) compressed [];
        assert_that ok;
        assert_that (uncomp_str = input);
        Some ()
      })"

partial_function (option) expand_loop :: "bytes \<Rightarrow> bytes \<Rightarrow> bytes option" where
  "expand_loop input data =
     (if length data < 3 * kBlockSize then expand_loop input (data @ input) else Some data)"

definition Expand :: "bytes \<Rightarrow> bytes option" where
  "Expand input = expand_loop input input"

definition Verify :: "test_memory \<Rightarrow> bytes \<Rightarrow> bytes \<Rightarrow> nat option" where
  "Verify tm beyond input =
     do {
       result \<leftarrow> VerifyString tm input;
       VerifyNonBlockedCompression tm input;
       VerifyIOVec tm beyond input;
       (if input \<noteq> []
        then do {
          expanded \<leftarrow> Expand input;
          VerifyNonBlockedCompression tm expanded;
          VerifyIOVec tm beyond input
        }
        else Some ());
       Some result
     }"

section \<open>Every input passes\<close>

lemma compress_checked_ok:
  assumes "test_memory_ok tm" and "length input < 2 ^ 31"
  shows "\<exists>c. compress_checked tm input = Some c \<and> encodes c input \<and> length c < 2 ^ 32"
proof -
  have m: "memory_ok (tm_new tm) (tm_small tm) (tm_large tm)" "length (tm_scratch tm) = kMaximumTagLength"
    using assms(1) by (simp_all add: test_memory_ok_def)
  have small: "length input < 2 ^ 32" using assms(2) by simp
  obtain c where c: "Compress_string (tm_new tm) (tm_small tm) (tm_large tm) input [] = Some (c, length c)"
    "encodes c input" "length c \<le> MaxCompressedLength (length input)"
    using Compress_string_ok [OF m(1) small] by blast
  have lc: "length c < 2 ^ 32" using c(3) assms(2) by (simp add: MaxCompressedLength_small)
  have "IsValidCompressedBuffer (tm_scratch tm) c = Some True"
    using valid_answer [OF m(2) lc] encodes_output [OF c(2) small] by simp
  with c lc show ?thesis by (simp add: compress_checked_def)
qed

lemma uncompress_encoded:
  assumes "test_memory_ok tm" and "length input < 2 ^ 31" and "encodes c input" and "length c < 2 ^ 32"
  shows "Uncompress (tm_scratch tm) (tm_max_size tm) c t = Some (True, input)"
proof -
  have small: "length input < 2 ^ 32" using assms(2) by simp
  have "length (tm_scratch tm) = kMaximumTagLength" "length input \<le> tm_max_size tm"
    using assms(1,2) by (simp_all add: test_memory_ok_def)
  with uncompress_answer [OF _ assms(4), of "tm_scratch tm" "tm_max_size tm" t] encodes_output [OF assms(3) small]
  show ?thesis by auto
qed

lemma VerifyString_ok:
  "test_memory_ok tm \<Longrightarrow> length input < 2 ^ 31 \<Longrightarrow> VerifyString tm input = Some (length input)"
  using compress_checked_ok [of tm input] uncompress_encoded [of tm input] by (auto simp: VerifyString_def)

text \<open>The buffers of \<open>VerifyIOVec\<close>, of which there are at most ten, together hold the input.\<close>

lemma cut_length [simp]: "length (cut ns m) = length ns"
  by (induction ns arbitrary: m) simp_all

lemma iov_lengths_count: "iov_lengths k len used rnd = Some ns \<Longrightarrow> length ns \<le> k"
  by (induction k arbitrary: used rnd ns) (fastforce simp: bind_eq_Some_conv split: if_splits)+

lemma concat_cut: "concat (cut ns m) = take (sum_list ns) m"
  by (induction ns arbitrary: m) (simp_all add: take_add)

lemma last_length: "len < 2 ^ 31 \<Longrightarrow> len \<le> used + nat ((int len - int used) mod 2 ^ 64)"
  by (cases "used \<le> len") (simp_all add: nat_diff_distrib)

lemma iov_lengths_ok:
  assumes "ACM_valid rnd" and "0 < len" and "len < 2 ^ 31" and "0 < k"
  shows "\<exists>ns. iov_lengths k len used rnd = Some ns \<and> ns \<noteq> [] \<and> len \<le> used + sum_list ns"
  using assms
proof (induction k arbitrary: used rnd)
  case (Suc k)
  show ?case
  proof (cases "k = 0")
    case True
    with last_length [OF Suc.prems(3), of used] show ?thesis by simp
  next
    case False
    obtain v s where v: "ACM_Uniform 5 rnd = Some (v, s)" "ACM_valid s"
      using ACMRandom_step(2) [OF Suc.prems(1), of 5] by auto
    obtain l s' where l: "(if v = 0 then Some (0, s) else ACM_Uniform (int len) s) = Some (l, s')" "ACM_valid s'"
      using ACMRandom_step(2) [OF v(2), of "int len"] v(2) Suc.prems(2) by (cases "v = 0") auto
    obtain ns where "iov_lengths k len (used + nat l) s' = Some ns" "ns \<noteq> []" "len \<le> used + nat l + sum_list ns"
      using Suc.IH [OF l(2) Suc.prems(2,3)] False by blast
    with v l False show ?thesis by (simp add: ACM_OneIn_def)
  qed
qed simp

text \<open>The empty input is compressed to its length, and uncompressed into no buffers at all.\<close>

lemmas array_simps = byte_array_source_def ByteArraySource_init_def ByteArraySource_Available_def
  ByteArraySource_Peek_def ByteArraySource_Skip_def byte_array_sink_def UncheckedByteArraySink_init_def
  UncheckedByteArraySink_Append_def CurrentDestination_def

lemma encode_zero: "Encode32 0 = [0]"
  by code_simp

lemma compress_nothing: "Compress_string fresh small large [] [] = Some ([0], 1)"
  by (simp add: Compress_string_def RawCompress_def Compress_def compress_loop.simps array_simps encode_zero
    MaxCompressedLength_small string_resize_def mem_read_def mem_write_def Let_def)

lemma empty_compressed: "compress_checked tm [] = Some c \<Longrightarrow> c = [0]"
  by (auto simp: compress_checked_def compress_nothing bind_eq_Some_conv)

lemma empty_iov: "RawUncompressToIOVec scratch [0] [] = Some (True, [])"
proof -
  have "ReadUncompressedLength_loop byte_array_source (ByteArraySource_init [0]) 0 0 =
      (Some 0, \<lparr>src_array = [0], src_ptr = 1, src_left = 0\<rparr>)"
    by (simp add: ReadUncompressedLength_loop.simps array_simps Let_def)
  then show ?thesis
    by (simp add: RawUncompressToIOVec_def RawUncompressToIOVec_source_def InternalUncompress_def
      InternalUncompressAllTags_def DecompressAllTags_def MAYBE_REFILL_def RefillTag_def
      ReadUncompressedLength_def SnappyDecompressor_init_def SnappyDecompressor_destroy_def
      iovec_writer_def IOVec_SetExpectedLength_def IOVec_CheckLength_def SnappyIOVecWriter_init_def
      array_simps Let_def)
qed

lemma VerifyIOVec_ok:
  assumes "test_memory_ok tm" and "length input < 2 ^ 31 - 1"
  shows "VerifyIOVec tm beyond input = Some ()"
proof -
  let ?len = "length input" and ?buf = "tm_new tm (length input) @ beyond"
  have scratch: "length (tm_scratch tm) = kMaximumTagLength" "length (tm_new tm ?len) = ?len"
    using assms(1) by (simp_all add: test_memory_ok_def memory_ok_def)
  obtain c where c: "compress_checked tm input = Some c" "encodes c input" "length c < 2 ^ 32"
    using compress_checked_ok [OF assms(1), of input] assms(2) by auto
  show ?thesis
  proof (cases "input = []")
    case True
    with c(1) have "c = [0]" by (simp add: empty_compressed)
    with c(1) True show ?thesis by (simp add: VerifyIOVec_def empty_iov Let_def split: prod.split)
  next
    case False
    then have "ACM_valid (of_nat ?len)" using assms(2) by (simp add: ACM_valid_def unat_of_nat)
    then obtain r where r: "ACM_Next (of_nat ?len) = (r, r)" "ACM_valid r" using ACMRandom_step(1) by blast
    let ?k = "nat (sint r smod 10 + 1)"
    let ?n = "if ?len < ?k then ?len else ?k"
    have "0 \<le> sint r smod 10"
      using r(2) sint_small [of r] smod_int_compares(2) [of "sint r" 10] by (simp add: ACM_valid_def)
    then have "0 < ?n" using False by simp
    then obtain ns where ns: "iov_lengths ?n ?len 0 r = Some ns" "ns \<noteq> []" "?len \<le> sum_list ns"
      using iov_lengths_ok [OF r(2), of ?len ?n 0] False assms(2) by auto
    let ?iov = "cut ns ?buf"
    have e: "stream_output c = Some input" "GetUncompressedLength c = Some ?len"
      using encodes_output [OF c(2)] assms(2) by simp_all
    have "?len \<le> length (concat ?iov)" using ns(3) scratch(2) by (simp add: concat_cut)
    moreover have "?iov \<noteq> []" using ns(2) by (cases ns) simp_all
    moreover have "length ?iov < 2 ^ 31"
      using iov_lengths_count [OF ns(1)] assms(2) by (auto split: if_splits)
    ultimately obtain ok iov' where "RawUncompressToIOVec (tm_scratch tm) c ?iov = Some (ok, iov')" "ok"
      "concat iov' = input @ drop ?len (concat ?iov)"
      using RawUncompressToIOVec_ok [OF scratch(1) c(3), of ?iov] GetUncompressedLength_fits [OF e(2)] e(1)
      by auto
    then show ?thesis
      unfolding VerifyIOVec_def Let_def c(1) bind.bind_lunit r(1) prod.case ns(1) by (simp add: assert_that_def)
  qed
qed

lemma VerifyNonBlocked_ok:
  assumes "test_memory_ok tm"
  shows "VerifyNonBlockedCompression tm input = Some ()"
proof (cases "kBlockSize < length input")
  case True
  then show ?thesis by (simp add: VerifyNonBlockedCompression_def)
next
  case False
  let ?len = "length input" and ?p = "Encode32 (of_nat (length input))"
  let ?c = "string_resize ?p (length ?p + MaxCompressedLength ?len)"
  have mem: "length (tm_small tm) = 1024" "length (tm_large tm) = kMaxHashTableSize"
    using assms by (simp_all add: test_memory_ok_def memory_ok_def)
  obtain large t sz w where g: "GetHashTable (tm_large tm) ?len (WorkingMemory_init (tm_small tm)) = (large, t, sz, w)"
    by (metis prod_cases4)
  have "wmem_ok (WorkingMemory_init (tm_small tm))" using mem(1) by (simp add: wmem_ok_def WorkingMemory_init_def)
  from GetHashTable_ok [OF this mem(2) g]
  obtain k where k: "sz = 2 ^ k" "k \<le> 14" "2 ^ k \<le> length t" "\<forall>i<2 ^ k. t ! i = 0" by metis
  have "length (drop (length ?p) ?c) = MaxCompressedLength ?len" by simp
  then have "room_for ?len (length (drop (length ?p) ?c))"
    using room_for_need [OF need_below_max] False by simp
  from CompressFragment_ok [OF _ this k(2-4)] False obtain d op t' where
    d: "CompressFragment input (drop (length ?p) ?c) t (2 ^ k) = Some (d, op, t')" "op \<le> length d"
      "\<And>wr prev. wr_ok wr \<Longrightarrow> decode wr (take op d) prev = Some (prev @ input)"
      "65 * op \<le> 66 * ?len + 195"
    by auto
  have enc: "encodes (?p @ take op d) input" using d(3) by (auto simp: encodes_def)
  have cut: "string_resize (take (length ?p) ?c @ d) (length ?p + op) = ?p @ take op d"
    using d(2) by (simp add: string_resize_def)
  have small: "?len < 2 ^ 31" "length (?p @ take op d) < 2 ^ 32"
    using False d(2,4) Encode32_length [of "of_nat ?len"] by simp_all
  from uncompress_encoded [OF assms small(1) enc small(2)] show ?thesis
    unfolding VerifyNonBlockedCompression_def Append32_def
    using False g d(1) k(1) cut by (simp add: Let_def)
qed

section \<open>Expand\<close>

text \<open>How many more copies of \<open>len\<close> bytes the loop appends when \<open>d\<close> bytes are missing\<close>

lemma missing_copies:
  fixes d len :: nat
  assumes "0 < d" and "0 < len"
  shows "(d + len - 1) div len = Suc ((d - len + len - 1) div len)"
proof -
  obtain e where e: "d = Suc e" using assms(1) by (cases d) simp_all
  have "(e + len) div len = Suc (e div len)" using div_add_self2 [of len e] assms(2) by simp
  moreover have "len \<le> d \<Longrightarrow> d - len + len - 1 = e" "\<not> len \<le> d \<Longrightarrow> (d - len + len - 1) div len = 0 \<and> e div len = 0"
    using assms(2) e by simp_all
  ultimately show ?thesis unfolding e by (cases "len \<le> Suc e") (simp_all add: e)
qed

lemma expand_loop_copies:
  assumes "input \<noteq> []"
  shows "expand_loop input data =
     Some (data @ concat (replicate ((3 * kBlockSize - length data + length input - 1) div length input) input))"
proof (induction "3 * kBlockSize - length data" arbitrary: data rule: less_induct)
  case less
  let ?d = "3 * kBlockSize - length data"
  show ?case
  proof (cases "length data < 3 * kBlockSize")
    case False
    then show ?thesis using assms by (simp add: expand_loop.simps)
  next
    case True
    have "3 * kBlockSize - length (data @ input) < ?d" using True assms by (cases input) simp_all
    moreover have "3 * kBlockSize - length (data @ input) = ?d - length input" by simp
    ultimately have "expand_loop input (data @ input) = Some ((data @ input) @
        concat (replicate ((?d - length input + length input - 1) div length input) input))"
      using less.hyps [of "data @ input"] by simp
    with True assms missing_copies [of ?d "length input"]
    show ?thesis by (simp add: expand_loop.simps [of _ data])
  qed
qed

lemma expand_loop_stuck: "expand_loop [] data = Some r \<Longrightarrow> 3 * kBlockSize \<le> length data"
proof -
  have "input = [] \<longrightarrow> 3 * kBlockSize \<le> length data" if "expand_loop input data = Some r" for input data r
    by (rule expand_loop.raw_induct [OF _ that]) (fastforce split: if_splits)
  then show "expand_loop [] data = Some r \<Longrightarrow> 3 * kBlockSize \<le> length data" by blast
qed

text \<open>
  Expand returns exactly for a non-empty input, which it repeats until there are three
  blocks: its result is the least number of copies that reaches them. For the empty input its
  loop runs forever.
\<close>

theorem Expand_terminates:
  "Expand input =
     (if input = [] then None
      else Some (concat (replicate ((3 * kBlockSize + length input - 1) div length input) input)))"
proof (cases "input = []")
  case True
  then show ?thesis using expand_loop_stuck [of "[]"] by (cases "Expand input") (auto simp: Expand_def)
next
  case False
  show ?thesis
  proof (cases "length input < 3 * kBlockSize")
    case True
    with False missing_copies [of "3 * kBlockSize" "length input"] expand_loop_copies [OF False, of input]
    show ?thesis by (simp add: Expand_def)
  next
    case large: False
    with False missing_copies [of "3 * kBlockSize" "length input"] expand_loop_copies [OF False, of input]
    show ?thesis by (simp add: Expand_def)
  qed
qed

lemma Verify_ok:
  assumes "test_memory_ok tm" and "length input < 2 ^ 27"
  shows "Verify tm beyond input = Some (length input)"
proof -
  have "VerifyString tm input = Some (length input)" "VerifyIOVec tm beyond input = Some ()"
    using VerifyString_ok [OF assms(1)] VerifyIOVec_ok [OF assms(1)] assms(2) by simp_all
  moreover have "input \<noteq> [] \<Longrightarrow> \<exists>expanded. Expand input = Some expanded"
    by (simp add: Expand_def expand_loop_copies)
  ultimately show ?thesis
    using VerifyNonBlocked_ok [OF assms(1)] by (cases "input = []") (auto simp: Verify_def)
qed

text \<open>
  C36: Verify passes on every input of less than 128 MiB and returns its length: every check
  of VerifyString, VerifyNonBlockedCompression and VerifyIOVec holds, whatever uninitialised
  memory contains and whichever buffers VerifyIOVec picks.
\<close>

theorem Verify_passes:
  assumes "test_memory_ok tm" and "length input < 2 ^ 27"
  shows "Verify tm beyond input = Some (length input)"
  by (rule Verify_ok [OF assms])

definition calm_memory :: test_memory where
  "calm_memory = \<lparr>tm_new = \<lambda>n. replicate n 0, tm_small = replicate 1024 0,
     tm_large = replicate kMaxHashTableSize 0, tm_scratch = replicate kMaximumTagLength 0, tm_max_size = 2 ^ 63\<rparr>"

theorem Verify_passes_witness:
  "Verify calm_memory [] [97, 98, 97, 98] = Some 4 \<and> Verify calm_memory [] [] = Some 0"
proof -
  have "test_memory_ok calm_memory" by (simp add: test_memory_ok_def memory_ok_def calm_memory_def)
  from Verify_passes [OF this] show ?thesis by simp
qed

text \<open>The check on the expanded input never compresses anything.\<close>

lemma expanded_unchecked: "Expand input = Some expanded \<Longrightarrow> kBlockSize < length expanded"
proof -
  assume e: "Expand input = Some expanded"
  have "3 * kBlockSize \<le> length r" if "expand_loop input data = Some r" for data r
    by (rule expand_loop.raw_induct [OF _ that]) (auto split: if_splits)
  with e show ?thesis by (fastforce simp: Expand_def)
qed

end
