(* ===== verification/SnappyUnitTests.thy ===== *)
theory SnappyUnitTests
  imports SnappyTests SnappyIOVecSafety
begin

text \<open>
  The tests of single features in \<open>snappy_unittest.cc\<close>, each a function that is \<open>None\<close> when a
  check fails, and the theorem that they pass.
\<close>

definition chars :: "string \<Rightarrow> bytes" where
  "chars s = map (\<lambda>c. of_nat (of_char c)) s"

section \<open>Verified inputs\<close>

text \<open>A sequence of calls of \<open>Verify\<close>, which returns a size that the tests ignore\<close>

fun verify_all :: "test_memory \<Rightarrow> bytes \<Rightarrow> bytes list \<Rightarrow> unit option" where
  "verify_all tm beyond [] = Some ()"
| "verify_all tm beyond (x # xs) = do { Verify tm beyond x; verify_all tm beyond xs }"

definition SimpleTests :: "test_memory \<Rightarrow> bytes \<Rightarrow> unit option" where
  "SimpleTests tm beyond =
     verify_all tm beyond
       (map chars ['''', ''a'', ''ab'', ''abc''] @
        map (\<lambda>n. chars ''aaaaaaa'' @ replicate n (of_nat (of_char (CHR ''b''))) @ chars ''aaaaa'' @ chars ''abc'')
          [16, 256, 2047, 65536] @
        [chars ''abcaaaaaaa'' @ replicate 65536 (of_nat (of_char (CHR ''b''))) @ chars ''aaaaa'' @ chars ''abc''])"

text \<open>The bytes that \<open>MaxBlowup\<close> takes from a generator seeded with \<open>i\<close>, on a little-endian machine\<close>

definition blowup_bytes :: "nat \<Rightarrow> bytes" where
  "blowup_bytes i = le_bytes 4 (unat (fst (ACM_Next (of_nat i))))"

definition MaxBlowup :: "test_memory \<Rightarrow> bytes \<Rightarrow> unit option" where
  "MaxBlowup tm beyond =
     do {
       let input = concat (map blowup_bytes [0..<20000]);
       let input = input @ concat (map blowup_bytes (rev [0..<20000]));
       Verify tm beyond input;
       Some ()
     }"

section \<open>Copies from far away\<close>

fun append_fragments :: "nat \<Rightarrow> bytes \<Rightarrow> bytes \<Rightarrow> bytes \<Rightarrow> (bytes \<times> bytes) option" where
  "append_fragments 0 fragment compressed src = Some (compressed, src)"
| "append_fragments (Suc n) fragment compressed src =
     do {
       compressed \<leftarrow> AppendLiteral compressed fragment;
       append_fragments n fragment compressed (src @ fragment)
     }"

definition FourByteOffset :: "test_memory \<Rightarrow> unit option" where
  "FourByteOffset tm =
     do {
       let fragment1 = chars ''012345689abcdefghijklmnopqrstuvwxyz'';
       let fragment2 = chars ''some other string'';
       let n1 = 2;
       let n2 = 100000 div length fragment2;
       let len = n1 * length fragment1 + n2 * length fragment2;
       let compressed = Append32 [] (of_nat len);
       compressed \<leftarrow> AppendLiteral compressed fragment1;
       (compressed, src) \<leftarrow> append_fragments n2 fragment2 compressed fragment1;
       let compressed = AppendCopy compressed (length src) (length fragment1);
       let src = src @ fragment1;
       assert_that (len = length src);
       ok \<leftarrow> IsValidCompressedBuffer (tm_scratch tm) compressed;
       assert_that ok;
       (ok, uncompressed) \<leftarrow> Uncompress (tm_scratch tm) (tm_max_size tm) compressed [];
       assert_that ok;
       assert_that (uncompressed = src);
       Some ()
     }"

section \<open>Scattered output\<close>

definition IOVecEdgeCases :: "test_memory \<Rightarrow> unit option" where
  "IOVecEdgeCases tm =
     do {
       let iov = map (tm_new tm) [2, 1, 4, 8, 128];
       let compressed = Append32 [] 22;
       compressed \<leftarrow> AppendLiteral compressed (chars ''abc123'');
       let compressed = AppendCopy compressed 3 3;
       let compressed = AppendCopy compressed 6 9;
       let compressed = AppendCopy compressed 17 4;
       (ok, iov) \<leftarrow> RawUncompressToIOVec (tm_scratch tm) compressed iov;
       assert_that ok;
       assert_that (take 2 (iov ! 0) = chars ''ab'');
       assert_that (take 1 (iov ! 1) = chars ''c'');
       assert_that (take 4 (iov ! 2) = chars ''1231'');
       assert_that (take 8 (iov ! 3) = chars ''23123123'');
       assert_that (take 7 (iov ! 4) = chars ''123bc12'');
       Some ()
     }"

definition IOVecLiteralOverflow :: "test_memory \<Rightarrow> unit option" where
  "IOVecLiteralOverflow tm =
     do {
       let iov = map (tm_new tm) [3, 4];
       let compressed = Append32 [] 8;
       compressed \<leftarrow> AppendLiteral compressed (chars ''12345678'');
       (ok, iov) \<leftarrow> RawUncompressToIOVec (tm_scratch tm) compressed iov;
       assert_that (\<not> ok);
       Some ()
     }"

definition IOVecCopyOverflow :: "test_memory \<Rightarrow> unit option" where
  "IOVecCopyOverflow tm =
     do {
       let iov = map (tm_new tm) [3, 4];
       let compressed = Append32 [] 8;
       compressed \<leftarrow> AppendLiteral compressed (chars ''123'');
       let compressed = AppendCopy compressed 3 5;
       (ok, iov) \<leftarrow> RawUncompressToIOVec (tm_scratch tm) compressed iov;
       assert_that (\<not> ok);
       Some ()
     }"

section \<open>Corrupted streams\<close>

definition CheckUncompressedLength :: "test_memory \<Rightarrow> bytes \<Rightarrow> bool option" where
  "CheckUncompressedLength tm compressed =
     do {
       let result1 = (GetUncompressedLength compressed \<noteq> None);
       let (len, source) =
         GetUncompressedLength_source (tm_scratch tm) byte_array_source (ByteArraySource_init compressed);
       let result2 = (len \<noteq> None);
       assert_that (result1 = result2);
       Some result1
     }"

text \<open>The checks that \<open>TruncatedVarint\<close> and \<open>UnterminatedVarint\<close> make of their streams\<close>

definition rejected :: "test_memory \<Rightarrow> bytes \<Rightarrow> unit option" where
  "rejected tm compressed =
     do {
       ok \<leftarrow> CheckUncompressedLength tm compressed;
       assert_that (\<not> ok);
       ok \<leftarrow> IsValidCompressedBuffer (tm_scratch tm) compressed;
       assert_that (\<not> ok);
       (ok, uncompressed) \<leftarrow> Uncompress (tm_scratch tm) (tm_max_size tm) compressed [];
       assert_that (\<not> ok);
       Some ()
     }"

definition TruncatedVarint :: "test_memory \<Rightarrow> unit option" where
  "TruncatedVarint tm = rejected tm [0xf0]"

definition UnterminatedVarint :: "test_memory \<Rightarrow> unit option" where
  "UnterminatedVarint tm = rejected tm [128, 128, 128, 128, 128, 10]"

definition ReadPastEndOfBuffer :: "test_memory \<Rightarrow> unit option" where
  "ReadPastEndOfBuffer tm =
     do {
       let compressed = Append32 [] 1;
       compressed \<leftarrow> AppendLiteral compressed (chars ''x'');
       (ok, uncompressed) \<leftarrow> Uncompress (tm_scratch tm) (tm_max_size tm) compressed [];
       assert_that ok;
       assert_that (uncompressed = chars ''x'');
       Some ()
     }"

definition ZeroOffsetCopy :: "test_memory \<Rightarrow> unit option" where
  "ZeroOffsetCopy tm =
     do {
       (ok, uncompressed) \<leftarrow> RawUncompress (tm_scratch tm) [0x40, 0x12, 0, 0] (tm_new tm 100);
       assert_that (\<not> ok);
       Some ()
     }"

definition ZeroOffsetCopyValidation :: "test_memory \<Rightarrow> unit option" where
  "ZeroOffsetCopyValidation tm =
     do {
       ok \<leftarrow> IsValidCompressedBuffer (tm_scratch tm) [0x05, 0x12, 0, 0];
       assert_that (\<not> ok);
       Some ()
     }"

section \<open>Match lengths\<close>

text \<open>
  A string literal of C ends in a zero byte, which one of the cases compares as well. The two
  strings lie one behind the other.
\<close>

definition c_string :: "string \<Rightarrow> bytes" where
  "c_string s = chars (s @ [CHR 0x00])"

definition TestFindMatchLength :: "bytes \<Rightarrow> bytes \<Rightarrow> nat \<Rightarrow> nat option" where
  "TestFindMatchLength s1 s2 len = FindMatchLength (s1 @ s2) 0 (length s1) (length s1 + len)"

definition FindMatchLength_cases :: "(nat \<times> string \<times> string \<times> nat) list" where
  "FindMatchLength_cases =
    [(6, ''012345'', ''012345'', 6),
     (11, ''01234567abc'', ''01234567abc'', 11),
     (9, ''01234567abc'', ''01234567axc'', 9),
     (11, ''01234567abc!'', ''01234567abc!'', 11),
     (11, ''01234567abc!'', ''01234567abc?'', 11),
     (0, ''01234567xxxxxxxx'', ''?1234567xxxxxxxx'', 16),
     (1, ''01234567xxxxxxxx'', ''0?234567xxxxxxxx'', 16),
     (4, ''01234567xxxxxxxx'', ''01237654xxxxxxxx'', 16),
     (7, ''01234567xxxxxxxx'', ''0123456?xxxxxxxx'', 16),
     (8, ''abcdefgh01234567xxxxxxxx'', ''abcdefgh?1234567xxxxxxxx'', 24),
     (9, ''abcdefgh01234567xxxxxxxx'', ''abcdefgh0?234567xxxxxxxx'', 24),
     (12, ''abcdefgh01234567xxxxxxxx'', ''abcdefgh01237654xxxxxxxx'', 24),
     (15, ''abcdefgh01234567xxxxxxxx'', ''abcdefgh0123456?xxxxxxxx'', 24),
     (0, ''01234567'', ''?1234567'', 8),
     (1, ''01234567'', ''0?234567'', 8),
     (2, ''01234567'', ''01?34567'', 8),
     (3, ''01234567'', ''012?4567'', 8),
     (4, ''01234567'', ''0123?567'', 8),
     (5, ''01234567'', ''01234?67'', 8),
     (6, ''01234567'', ''012345?7'', 8),
     (7, ''01234567'', ''0123456?'', 8),
     (7, ''01234567'', ''0123456?'', 7),
     (7, ''01234567!'', ''0123456??'', 7),
     (10, ''xxxxxxabcd'', ''xxxxxxabcd'', 10),
     (10, ''xxxxxxabcd?'', ''xxxxxxabcd?'', 10),
     (13, ''xxxxxxabcdef'', ''xxxxxxabcdef'', 13),
     (12, ''xxxxxx0123abc!'', ''xxxxxx0123abc!'', 12),
     (12, ''xxxxxx0123abc!'', ''xxxxxx0123abc?'', 12),
     (11, ''xxxxxx0123abc'', ''xxxxxx0123axc'', 13),
     (6, ''xxxxxx0123xxxxxxxx'', ''xxxxxx?123xxxxxxxx'', 18),
     (7, ''xxxxxx0123xxxxxxxx'', ''xxxxxx0?23xxxxxxxx'', 18),
     (8, ''xxxxxx0123xxxxxxxx'', ''xxxxxx0132xxxxxxxx'', 18),
     (9, ''xxxxxx0123xxxxxxxx'', ''xxxxxx012?xxxxxxxx'', 18),
     (6, ''xxxxxx0123'', ''xxxxxx?123'', 10),
     (7, ''xxxxxx0123'', ''xxxxxx0?23'', 10),
     (8, ''xxxxxx0123'', ''xxxxxx0132'', 10),
     (9, ''xxxxxx0123'', ''xxxxxx012?'', 10),
     (10, ''xxxxxxabcd0123xx'', ''xxxxxxabcd?123xx'', 16),
     (11, ''xxxxxxabcd0123xx'', ''xxxxxxabcd0?23xx'', 16),
     (12, ''xxxxxxabcd0123xx'', ''xxxxxxabcd0132xx'', 16),
     (13, ''xxxxxxabcd0123xx'', ''xxxxxxabcd012?xx'', 16),
     (10, ''xxxxxxabcd0123'', ''xxxxxxabcd?123'', 14),
     (11, ''xxxxxxabcd0123'', ''xxxxxxabcd0?23'', 14),
     (12, ''xxxxxxabcd0123'', ''xxxxxxabcd0132'', 14),
     (13, ''xxxxxxabcd0123'', ''xxxxxxabcd012?'', 14)]"

definition FindMatchLength_test :: "unit option" where
  "FindMatchLength_test =
     assert_that (\<forall>(expected, s1, s2, len) \<in> set FindMatchLength_cases.
       TestFindMatchLength (c_string s1) (c_string s2) len = Some expected)"

section \<open>They pass\<close>

lemma chars_inj: "inj (\<lambda>c. of_nat (of_char c) :: byte)"
proof (rule injI)
  fix c d :: char
  assume "(of_nat (of_char c) :: byte) = of_nat (of_char d)"
  then have "(of_char c :: nat) mod 256 = of_char d mod 256" by (simp add: word_unat_eq_iff unat_of_nat)
  then have "(of_char c :: nat) = of_char d" by simp
  then show "c = d" by simp
qed

lemma common_prefix_map:
  "inj f \<Longrightarrow> length (longest_common_prefix (map f xs) (map f ys)) = length (longest_common_prefix xs ys)"
  by (induction xs ys rule: longest_common_prefix.induct) (simp_all add: inj_eq)

lemma TestFindMatchLength_prefix:
  assumes "n \<le> length b + 1"
  shows "TestFindMatchLength (c_string a) (c_string b) n =
     Some (length (longest_common_prefix (a @ [CHR 0x00] @ b @ [CHR 0x00]) (take n (b @ [CHR 0x00]))))"
proof -
  let ?f = "\<lambda>c. of_nat (of_char c) :: byte" and ?m = "c_string a @ c_string b"
  have len: "length (c_string s) = length s + 1" for s by (simp add: c_string_def chars_def)
  from FindMatchLength_ok [of 0 "length (c_string a)" "length (c_string a) + n" ?m] assms obtain k where
    k: "FindMatchLength ?m 0 (length (c_string a)) (length (c_string a) + n) = Some k"
      "longest_match ?m 0 (length (c_string a)) (length (c_string a) + n) k"
    by (auto simp: len)
  have zero: "take j [0] = map ?f (take j [CHR 0x00])" for j by (cases j) simp_all
  have "k = length (longest_common_prefix (map ?f (a @ [CHR 0x00] @ b @ [CHR 0x00])) (map ?f (take n (b @ [CHR 0x00]))))"
    using longest_match_prefix [OF k(2)] assms by (simp add: len) (simp add: c_string_def chars_def take_map zero)
  with k(1) show ?thesis by (simp only: TestFindMatchLength_def common_prefix_map [OF chars_inj])
qed

lemma FindMatchLength_test_passes: "FindMatchLength_test = Some ()"
  by (simp add: FindMatchLength_test_def FindMatchLength_cases_def TestFindMatchLength_prefix assert_that_def)

lemma cut_concat: "cut (map length xs) (concat xs) = xs"
  by (induction xs) simp_all

lemma scratch_ok: "test_memory_ok tm \<Longrightarrow> length (tm_scratch tm) = kMaximumTagLength"
  and new_ok: "test_memory_ok tm \<Longrightarrow> length (tm_new tm n) = n"
  and max_size_ok: "test_memory_ok tm \<Longrightarrow> 2 ^ 31 \<le> tm_max_size tm"
  by (simp_all add: test_memory_ok_def memory_ok_def)

lemma stream_of_start: "stream_of pre pre []"
  by (simp add: stream_of_def)

lemma stream_of_encodes: "stream_of (Append32 [] (of_nat (length out))) d out \<Longrightarrow> encodes d out"
  by (simp add: stream_of_def encodes_def Append32_def)

lemma append_fragments_stream:
  assumes "stream_of pre c s" and "length f < 2 ^ 31"
  shows "\<exists>c'. append_fragments n f c s = Some (c', s @ concat (replicate n f)) \<and>
     stream_of pre c' (s @ concat (replicate n f)) \<and> length c' \<le> length c + n * (5 + length f)"
  using assms
proof (induction n arbitrary: c s)
  case (Suc n)
  from AppendLiteral_stream [OF Suc.prems] obtain d where d: "AppendLiteral c f = Some d" "stream_of pre d (s @ f)"
    "length d \<le> length c + 5 + length f" by blast
  from Suc.IH [OF d(2) Suc.prems(2)] d(1,3) show ?case by auto
qed simp

lemma FourByteOffset_passes:
  assumes "test_memory_ok tm"
  shows "FourByteOffset tm = Some ()"
proof -
  let ?f1 = "chars ''012345689abcdefghijklmnopqrstuvwxyz''" and ?f2 = "chars ''some other string''"
  let ?n = "100000 div length ?f2"
  let ?hd = "Append32 [] (of_nat (2 * length ?f1 + ?n * length ?f2))"
  have f: "length ?f1 = 35" "length ?f2 = 17" by (simp_all add: chars_def)
  have pre: "length ?hd \<le> 5" by (simp add: Append32_def Encode32_length)
  obtain c1 where c1: "AppendLiteral ?hd ?f1 = Some c1" "stream_of ?hd c1 ?f1" "length c1 \<le> length ?hd + 40"
    using AppendLiteral_stream [OF stream_of_start, of ?f1 ?hd] f(1) by auto
  obtain c2 s where c2: "append_fragments ?n ?f2 c1 ?f1 = Some (c2, s)" "stream_of ?hd c2 s"
    "s = ?f1 @ concat (replicate ?n ?f2)" "length c2 \<le> length c1 + ?n * 22"
    using append_fragments_stream [OF c1(2), of ?f2 ?n] f by auto
  have ls: "length s = 35 + 5882 * 17" by (simp add: c2(3) f length_concat sum_list_replicate)
  let ?c3 = "AppendCopy c2 (length s) (length ?f1)"
  have c3: "stream_of ?hd ?c3 (copy_from (length s) 35 s)" "length ?c3 \<le> length c2 + 5 * 35"
    using AppendCopy_stream [OF c2(2), of "length s" 35] ls f by simp_all
  have "copy_from (length s) 35 s = s @ ?f1"
    using copy_from_short [of 35 "length s" s] ls f by (simp add: c2(3))
  with c3(1) have e: "encodes ?c3 (s @ ?f1)"
    by (intro stream_of_encodes) (simp add: ls f)
  have small: "length (s @ ?f1) < 2 ^ 31" "length ?c3 < 2 ^ 32"
    using c3(2) c2(4) c1(3) pre ls f by simp_all
  have "stream_output ?c3 = Some (s @ ?f1)" using encodes_output(1) [OF e] small(1) by simp
  with valid_answer [OF scratch_ok [OF assms] small(2)]
  have "IsValidCompressedBuffer (tm_scratch tm) ?c3 = Some True" by simp
  moreover note uncompress_encoded [OF assms small(1) e small(2)]
  ultimately show ?thesis
    unfolding FourByteOffset_def Let_def c1(1) bind.bind_lunit c2(1) prod.case using ls f by (simp add: assert_that_def)
qed

lemma IOVecEdgeCases_passes:
  assumes "test_memory_ok tm"
  shows "IOVecEdgeCases tm = Some ()"
proof -
  let ?pre = "Append32 [] 22" and ?iov = "map (tm_new tm) [2, 1, 4, 8, 128]"
  have lit: "length (chars ''abc123'') = 6" by (simp add: chars_def)
  obtain c0 where c0: "AppendLiteral ?pre (chars ''abc123'') = Some c0" "stream_of ?pre c0 (chars ''abc123'')"
    "length c0 \<le> length ?pre + 11"
    using AppendLiteral_stream [OF stream_of_start, of "chars ''abc123''" ?pre] lit by auto
  let ?c1 = "AppendCopy c0 3 3"
  let ?c2 = "AppendCopy ?c1 6 9"
  let ?c3 = "AppendCopy ?c2 17 4"
  let ?o1 = "copy_from 3 3 (chars ''abc123'')"
  let ?o2 = "copy_from 6 9 ?o1"
  let ?out = "copy_from 17 4 ?o2"
  have c1: "stream_of ?pre ?c1 ?o1" "length ?c1 \<le> length c0 + 15"
    using AppendCopy_stream [OF c0(2), of 3 3] lit by simp_all
  have c2: "stream_of ?pre ?c2 ?o2" "length ?c2 \<le> length ?c1 + 45"
    using AppendCopy_stream [OF c1(1), of 6 9] lit by simp_all
  have c3: "stream_of ?pre ?c3 ?out" "length ?c3 \<le> length ?c2 + 20"
    using AppendCopy_stream [OF c2(1), of 17 4] lit by simp_all
  have out: "?out = chars ''abc123123123123123bc12''"
    by (simp add: chars_def numeral_eq_Suc Let_def)
  have "encodes ?c3 ?out" using c3(1) by (intro stream_of_encodes) (simp add: lit)
  note e = encodes_output [OF this]
  have small: "length ?c3 < 2 ^ 32"
    using c3(2) c2(2) c1(2) c0(3) Encode32_length [of 22] by (simp add: Append32_def)
  have n: "length (tm_new tm n) = n" for n by (rule new_ok [OF assms])
  have "buffer_fits ?c3 (concat ?iov)"
    by (rule GetUncompressedLength_fits [OF e(2)]) (simp_all add: n lit)
  with RawUncompressToIOVec_ok [OF scratch_ok [OF assms] small, of ?iov] e(1) obtain iov' where
    r: "RawUncompressToIOVec (tm_scratch tm) ?c3 ?iov = Some (True, iov')" "map length iov' = [2, 1, 4, 8, 128]"
      "concat iov' = ?out @ drop 22 (concat ?iov)"
    by (auto simp: n lit)
  have "iov' = cut [2, 1, 4, 8, 128] (?out @ drop 22 (concat ?iov))"
    using cut_concat [of iov'] r(2,3) by simp
  note iov = this [unfolded out]
  have "take 2 (iov' ! 0) = chars ''ab''" "take 1 (iov' ! 1) = chars ''c''" "take 4 (iov' ! 2) = chars ''1231''"
    "take 8 (iov' ! 3) = chars ''23123123''" "take 7 (iov' ! 4) = chars ''123bc12''"
    by (simp_all add: iov chars_def)
  with r(1) c0(1) show ?thesis
    unfolding IOVecEdgeCases_def Let_def by (simp add: assert_that_def)
qed

lemma ReadPastEndOfBuffer_passes:
  assumes "test_memory_ok tm"
  shows "ReadPastEndOfBuffer tm = Some ()"
proof -
  have lit: "length (chars ''x'') = 1" by (simp add: chars_def)
  obtain c where c: "AppendLiteral (Append32 [] 1) (chars ''x'') = Some c" "stream_of (Append32 [] 1) c (chars ''x'')"
    "length c \<le> length (Append32 [] 1) + 6"
    using AppendLiteral_stream [OF stream_of_start, of "chars ''x''" "Append32 [] 1"] lit by auto
  have "encodes c (chars ''x'')" using c(2) by (intro stream_of_encodes) (simp add: lit)
  moreover have "length c < 2 ^ 32" using c(3) Encode32_length [of 1] by (simp add: Append32_def)
  ultimately have "Uncompress (tm_scratch tm) (tm_max_size tm) c [] = Some (True, chars ''x'')"
    using uncompress_encoded [OF assms, of "chars ''x''" c "[]"] lit by simp
  with c(1) show ?thesis by (simp add: ReadPastEndOfBuffer_def assert_that_def Let_def)
qed

lemma rejected_ok:
  assumes "test_memory_ok tm" and "length c < 2 ^ 32"
    and "GetUncompressedLength c = None" and "varint32 c 0 0 = None"
  shows "rejected tm c = Some ()"
proof -
  have "stream_output c = None" using assms(4) by (simp add: stream_output_def)
  with valid_answer [OF scratch_ok [OF assms(1)] assms(2)]
  have "IsValidCompressedBuffer (tm_scratch tm) c = Some False" by simp
  moreover have "fst (ReadUncompressedLength_loop byte_array_source (ByteArraySource_init c) 0 0) = None"
    using array_source.read_length [of "ByteArraySource_init c" 0 0] bas_init [of c] assms(2,4) by auto
  ultimately show ?thesis using assms(3)
    by (auto simp: rejected_def CheckUncompressedLength_def Uncompress_def GetUncompressedLength_source_def
      ReadUncompressedLength_def SnappyDecompressor_init_def assert_that_def Let_def split: prod.splits)
qed

lemma TruncatedVarint_passes: "test_memory_ok tm \<Longrightarrow> TruncatedVarint tm = Some ()"
  and UnterminatedVarint_passes: "test_memory_ok tm \<Longrightarrow> UnterminatedVarint tm = Some ()"
  by (simp_all add: TruncatedVarint_def UnterminatedVarint_def rejected_ok GetUncompressedLength_def
    Parse32WithLimit_def varint32_unfold varint32.simps [of _ _ 35] varint_group_def Let_def)

lemma zero_offset_stream: "b < 128 \<Longrightarrow> stream_output (b # [0x12, 0, 0]) = None"
proof -
  have "parse_element wrap32 [0x12, 0, 0] = Some (Copy 0 5, [])"
    by (simp add: parse_element_def take_copy_def Let_def)
  then have "decode wrap32 [0x12, 0, 0] [] = None" by (rule decode_run_None) simp
  then show "b < 128 \<Longrightarrow> stream_output (b # [0x12, 0, 0]) = None"
    by (simp add: stream_output_def varint32_unfold Let_def)
qed

lemma ZeroOffsetCopyValidation_passes: "test_memory_ok tm \<Longrightarrow> ZeroOffsetCopyValidation tm = Some ()"
  using valid_answer [of "tm_scratch tm" "[0x05, 0x12, 0, 0]"] zero_offset_stream [of 5]
  by (simp add: ZeroOffsetCopyValidation_def scratch_ok assert_that_def)

lemma ZeroOffsetCopy_passes:
  assumes "test_memory_ok tm"
  shows "ZeroOffsetCopy tm = Some ()"
proof -
  have "GetUncompressedLength [0x40, 0x12, 0, 0] = Some 64"
    by (simp add: GetUncompressedLength_def Parse32WithLimit_def varint_group_def)
  then have "buffer_fits [0x40, 0x12, 0, 0] (tm_new tm 100)"
    by (rule GetUncompressedLength_fits) (simp add: new_ok [OF assms])
  from RawUncompress_runs [OF scratch_ok [OF assms] _ this] zero_offset_stream [of 64] show ?thesis
    by (auto simp: ZeroOffsetCopy_def assert_that_def)
qed

text \<open>Buffers that are too small\<close>

lemma overflow_rejected:
  assumes "test_memory_ok tm" and "c = Append32 [] 8 @ rest" and "length c < 2 ^ 32"
  shows "\<exists>iov. RawUncompressToIOVec (tm_scratch tm) c (map (tm_new tm) [3, 4]) = Some (False, iov)"
proof -
  have "varint32 c 0 0 = Some (8, rest)" using varint32_encode [of 8 rest] by (simp add: assms(2) Append32_def)
  then have "\<not> buffer_fits c (concat (map (tm_new tm) [3, 4]))" by (simp add: buffer_fits_def new_ok [OF assms(1)])
  with RawUncompressToIOVec_runs [OF scratch_ok [OF assms(1)] assms(3), of "map (tm_new tm) [3, 4]"]
  show ?thesis by auto
qed

lemma IOVecOverflow_passes:
  assumes "test_memory_ok tm"
  shows "IOVecLiteralOverflow tm = Some ()" and "IOVecCopyOverflow tm = Some ()"
proof -
  have lit: "length (chars ''12345678'') = 8" "length (chars ''123'') = 3" by (simp_all add: chars_def)
  have pre: "length (Append32 [] 8) \<le> 5" by (simp add: Append32_def Encode32_length)
  obtain c where c: "AppendLiteral (Append32 [] 8) (chars ''12345678'') = Some c"
    "stream_of (Append32 [] 8) c (chars ''12345678'')" "length c \<le> length (Append32 [] 8) + 13"
    using AppendLiteral_stream [OF stream_of_start, of "chars ''12345678''" "Append32 [] 8"] lit by auto
  from c(2) obtain rest where "c = Append32 [] 8 @ rest" by (auto simp: stream_of_def)
  from overflow_rejected [OF assms this] c(1,3) pre show "IOVecLiteralOverflow tm = Some ()"
    by (auto simp: IOVecLiteralOverflow_def assert_that_def Let_def)
  obtain d where d: "AppendLiteral (Append32 [] 8) (chars ''123'') = Some d"
    "stream_of (Append32 [] 8) d (chars ''123'')" "length d \<le> length (Append32 [] 8) + 8"
    using AppendLiteral_stream [OF stream_of_start, of "chars ''123''" "Append32 [] 8"] lit by auto
  have e: "stream_of (Append32 [] 8) (AppendCopy d 3 5) (copy_from 3 5 (chars ''123''))"
    "length (AppendCopy d 3 5) \<le> length d + 25"
    using AppendCopy_stream [OF d(2), of 3 5] lit by simp_all
  from e(1) obtain rest' where "AppendCopy d 3 5 = Append32 [] 8 @ rest'" by (auto simp: stream_of_def)
  from overflow_rejected [OF assms this] d(1,3) e(2) pre show "IOVecCopyOverflow tm = Some ()"
    by (auto simp: IOVecCopyOverflow_def assert_that_def Let_def)
qed

lemma verify_all_ok:
  "test_memory_ok tm \<Longrightarrow> \<forall>x \<in> set xs. length x < 2 ^ 27 \<Longrightarrow> verify_all tm beyond xs = Some ()"
  by (induction xs) (simp_all add: Verify_ok)

lemma SimpleTests_passes: "test_memory_ok tm \<Longrightarrow> SimpleTests tm beyond = Some ()"
  unfolding SimpleTests_def by (rule verify_all_ok) (auto simp: chars_def)

lemma MaxBlowup_passes:
  assumes "test_memory_ok tm"
  shows "MaxBlowup tm beyond = Some ()"
proof -
  have four: "length (blowup_bytes i) = 4" for i by (simp add: blowup_bytes_def)
  have "length (concat (map blowup_bytes xs)) = 4 * length xs" for xs by (induction xs) (simp_all add: four)
  then have "length (concat (map blowup_bytes [0..<20000]) @ concat (map blowup_bytes (rev [0..<20000]))) < 2 ^ 27"
    by (simp add: rev_map)
  with Verify_ok [OF assms this] show ?thesis unfolding MaxBlowup_def Let_def by simp
qed

text \<open>
  The tests on chosen inputs and of single features pass, whatever uninitialised memory
  holds: the simple strings, the input of maximal blowup, copies from more
  than 64 KiB back, copies across scattered buffers, buffers that are too small, truncated and
  unterminated lengths, a stream that ends with a literal, copies with offset zero, and the table
  of match lengths.
\<close>

theorem feature_tests_pass:
  assumes "test_memory_ok tm"
  shows "SimpleTests tm beyond = Some () \<and> MaxBlowup tm beyond = Some () \<and>
    FourByteOffset tm = Some () \<and> IOVecEdgeCases tm = Some () \<and>
    IOVecLiteralOverflow tm = Some () \<and> IOVecCopyOverflow tm = Some () \<and>
    TruncatedVarint tm = Some () \<and> UnterminatedVarint tm = Some () \<and>
    ReadPastEndOfBuffer tm = Some () \<and> ZeroOffsetCopy tm = Some () \<and>
    ZeroOffsetCopyValidation tm = Some () \<and> FindMatchLength_test = Some ()"
  using SimpleTests_passes MaxBlowup_passes FourByteOffset_passes IOVecEdgeCases_passes IOVecOverflow_passes TruncatedVarint_passes
    UnterminatedVarint_passes ReadPastEndOfBuffer_passes ZeroOffsetCopy_passes
    ZeroOffsetCopyValidation_passes FindMatchLength_test_passes assms by simp

theorem feature_tests_pass_witness: "IOVecEdgeCases calm_memory = Some () \<and> TruncatedVarint calm_memory = Some ()"
proof -
  have "test_memory_ok calm_memory" by (simp add: test_memory_ok_def memory_ok_def calm_memory_def)
  from feature_tests_pass [OF this] show ?thesis by simp
qed

end
