(* ===== verification/SnappyGuardPage.thy ===== *)
theory SnappyGuardPage
  imports SnappyStubs
begin

text \<open>
  Class \<open>DataEndingAtUnreadablePage\<close> of \<open>snappy_unittest.cc\<close>: a copy of a string that ends where
  an unreadable page begins, so that reading one byte too much is caught.
\<close>

unbundle bit_operations_syntax

text \<open>
  Addresses are offsets in the mapping. \<open>g_mem\<close> are its bytes, those from \<open>g_protected_page\<close> on
  are unreadable.
\<close>

record guarded_data =
  g_mem :: bytes
  g_alloc_size :: "64 word"
  g_protected_page :: "64 word"
  g_data :: "64 word"
  g_size :: "64 word"

definition space_for_string :: "64 word \<Rightarrow> 64 word \<Rightarrow> 64 word" where
  "space_for_string page_size sz = (sz + page_size - 1) AND NOT (page_size - 1)"

text \<open>\<open>mmap\<close> gives zeros, or fails; \<open>mprotect\<close> may fail.\<close>

definition DataEndingAtUnreadablePage :: "64 word \<Rightarrow> bool \<Rightarrow> bool \<Rightarrow> bytes \<Rightarrow> guarded_data option" where
  "DataEndingAtUnreadablePage page_size mmap_fails mprotect_fails s =
     do {
       let sz = of_nat (length s);
       let space = space_for_string page_size sz;
       let alloc_size = space + page_size;
       assert_that (\<not> mmap_fails);
       let dst = space - sz;
       mem \<leftarrow> mem_write (replicate (unat alloc_size) 0) (unat dst) s;
       assert_that (\<not> mprotect_fails);
       Some \<lparr>g_mem = mem, g_alloc_size = alloc_size, g_protected_page = space, g_data = dst, g_size = sz\<rparr>
     }"

definition guarded_read :: "guarded_data \<Rightarrow> nat \<Rightarrow> nat \<Rightarrow> bytes option" where
  "guarded_read g i n = mem_read (take (unat (g_protected_page g)) (g_mem g)) (unat (g_data g) + i) n"

section \<open>Where the string lies\<close>

lemma and_not_mask_shift: "w AND NOT (mask k) = push_bit k (drop_bit k w)" for w :: "64 word"
  by (rule bit_word_eqI) (auto simp: bit_simps)

lemma unat_round_up:
  assumes "k < 62" and "n < 2 ^ 62"
  shows "unat (space_for_string (2 ^ k) (of_nat n)) = (n + 2 ^ k - 1) div 2 ^ k * 2 ^ k"
proof -
  have p: "(2 :: nat) ^ k < 2 ^ 62" using assms(1) by (rule power_strict_increasing) simp
  have sum: "n + 2 ^ k - 1 < 2 ^ 64" using assms(2) p by simp
  have "1 \<le> n + 2 ^ k" by (simp add: trans_le_add2)
  then have "of_nat n + 2 ^ k - 1 = (of_nat (n + 2 ^ k - 1) :: 64 word)" by (simp only: of_nat_diff) simp
  then have w: "unat (of_nat n + 2 ^ k - 1 :: 64 word) = n + 2 ^ k - 1" using sum by (simp add: unat_of_nat)
  have "unat (push_bit k (drop_bit k (of_nat n + 2 ^ k - 1 :: 64 word))) = (n + 2 ^ k - 1) div 2 ^ k * 2 ^ k mod 2 ^ 64"
    unfolding unsigned_push_bit_eq unsigned_drop_bit_eq w using sum
    by (simp add: take_bit_eq_mod push_bit_eq_mult drop_bit_eq_div)
  moreover have "(n + 2 ^ k - 1) div 2 ^ k * 2 ^ k < 2 ^ 64"
    using sum by (meson div_times_less_eq_dividend le_less_trans)
  ultimately show ?thesis
    by (simp add: space_for_string_def mask_eq_exp_minus_1 [symmetric] and_not_mask_shift)
qed

text \<open>
  Whatever the page size, a power of two: the string is there, a read of it succeeds exactly when
  it stays inside, and less than a page is wasted in front of it.
\<close>

lemma guarded_data_correct:
  assumes "k < 61" and "length s < 2 ^ 61"
  shows "\<exists>g. DataEndingAtUnreadablePage (2 ^ k) False False s = Some g \<and> unat (g_size g) = length s \<and>
    unat (g_data g) < 2 ^ k \<and> 2 ^ k dvd unat (g_protected_page g) \<and>
    (\<forall>i n. guarded_read g i n = (if i + n \<le> length s then Some (take n (drop i s)) else None))"
proof -
  let ?n = "length s" and ?space = "space_for_string (2 ^ k) (of_nat (length s))"
  define N where "N = (?n + 2 ^ k - 1) div 2 ^ k * 2 ^ k"
  have sp: "unat ?space = N" unfolding N_def by (rule unat_round_up) (use assms in simp_all)
  have sz: "unat (of_nat ?n :: 64 word) = ?n" using assms(2) by (simp add: unat_of_nat)
  have "?n + 2 ^ k - 1 < N + 2 ^ k"
    using dividend_less_div_times [of "2 ^ k" "?n + 2 ^ k - 1"] by (simp add: N_def add.commute)
  moreover have "N \<le> ?n + 2 ^ k - 1" unfolding N_def by (rule div_times_less_eq_dividend)
  moreover have "(0 :: nat) < 2 ^ k" by simp
  ultimately have N: "?n \<le> N" "N - ?n < 2 ^ k" by linarith+
  have dst: "unat (?space - of_nat ?n) = N - ?n"
    using N(1) sp sz by (simp add: unat_sub word_le_nat_alt)
  have "(2 :: nat) ^ k < 2 ^ 61" using assms(1) by (rule power_strict_increasing) simp
  then have "N + 2 ^ k < 2 ^ 64" "(2 :: nat) ^ k < 2 ^ 64" using N assms(2) by simp_all
  moreover from this(2) have "unat (of_nat (2 ^ k) :: 64 word) = 2 ^ k" by (simp only: unat_of_nat) simp
  ultimately have alloc: "unat (?space + 2 ^ k) = N + 2 ^ k"
    using sp by (simp add: unat_word_ariths)
  have w: "mem_write (replicate (N + 2 ^ k) 0) (N - ?n) s = Some (replicate (N - ?n) 0 @ s @ replicate (2 ^ k) 0)"
    using N(1) by (simp add: mem_write_def min_def)
  show ?thesis
    using N sz w by (auto simp: DataEndingAtUnreadablePage_def Let_def alloc dst sp guarded_read_def mem_read_def)
      (simp_all add: N_def)
qed

end
