(* ===== verification/ZLibWrapper.thy ===== *)
theory ZLibWrapper
  imports SnappyStubs "HOL-Library.Signed_Division"
begin

text \<open>
  Class \<open>ZLib\<close> of \<open>snappy-test.h\<close> and \<open>snappy-test.cc\<close>, the wrapper around zlib that the Snappy
  tests compare with. The library zlib is not part of the repository: its operations are a
  parameter. \<open>None\<close> is a stream used that was never initialised, a live stream initialised over,
  an access outside a buffer, or a failed \<open>CHECK\<close> or \<open>assert\<close>.
\<close>

section \<open>The library\<close>

abbreviation (input) "Z_OK \<equiv> 0 :: int"
abbreviation (input) "Z_STREAM_END \<equiv> 1 :: int"
abbreviation (input) "Z_STREAM_ERROR \<equiv> - 2 :: int"
abbreviation (input) "Z_DATA_ERROR \<equiv> - 3 :: int"
abbreviation (input) "Z_MEM_ERROR \<equiv> - 4 :: int"
abbreviation (input) "Z_BUF_ERROR \<equiv> - 5 :: int"
abbreviation (input) "Z_SYNC_FLUSH \<equiv> 2 :: int"
abbreviation (input) "Z_FINISH \<equiv> 4 :: int"
abbreviation (input) "MAX_WBITS \<equiv> 15 :: int"

text \<open>
  \<open>'c\<close> and \<open>'d\<close> are the internal states of a compressor and a decompressor, \<open>'w\<close> is what else the
  library depends on, such as the memory it allocates. \<open>deflate\<close> and \<open>inflate\<close> get the flush mode,
  the input and the room for output; they return a code, the number of bytes read and the bytes
  written.
\<close>

record ('c, 'd, 'w) zlib =
  z_deflateInit2 :: "int \<Rightarrow> int \<Rightarrow> int \<Rightarrow> 'w \<Rightarrow> int \<times> 'c \<times> 'w"
  z_deflateReset :: "'c \<Rightarrow> 'w \<Rightarrow> int \<times> 'c \<times> 'w"
  z_deflateEnd :: "'c \<Rightarrow> 'w \<Rightarrow> 'w"
  z_deflate :: "int \<Rightarrow> bytes \<Rightarrow> nat \<Rightarrow> 'c \<Rightarrow> 'w \<Rightarrow> int \<times> nat \<times> bytes \<times> 'c \<times> 'w"
  z_inflateInit2 :: "int \<Rightarrow> 'w \<Rightarrow> int \<times> 'd \<times> 'w"
  z_inflateReset :: "'d \<Rightarrow> 'w \<Rightarrow> int \<times> 'd \<times> 'w"
  z_inflateEnd :: "'d \<Rightarrow> 'w \<Rightarrow> 'w"
  z_inflate :: "int \<Rightarrow> bytes \<Rightarrow> nat \<Rightarrow> 'd \<Rightarrow> 'w \<Rightarrow> int \<times> nat \<times> bytes \<times> 'd \<times> 'w"

text \<open>
  A \<open>z_stream\<close>: \<open>Unset\<close> is memory that was never initialised, \<open>Ended\<close> a stream whose internal
  state has been freed, on which the library returns \<open>Z_STREAM_ERROR\<close>.
\<close>

datatype 'z internal_state = Unset | Ended | Live 'z

record 'z z_stream =
  next_in :: bytes
  avail_in :: nat
  next_out :: nat
  avail_out :: nat
  total_in :: nat
  total_out :: nat
  z_state :: "'z internal_state"

fun is_live :: "'z internal_state \<Rightarrow> bool" where
  "is_live (Live z) = True"
| "is_live _ = False"

section \<open>The object\<close>

record ('c, 'd, 'w) ZLib =
  compression_level :: int
  window_bits :: int
  mem_level :: int
  comp_stream :: "'c z_stream"
  comp_init :: bool
  uncomp_stream :: "'d z_stream"
  uncomp_init :: bool
  first_chunk :: bool
  zl_world :: 'w

section \<open>Calls of the library on the streams of the object\<close>

definition deflate_init ::
  "('c, 'd, 'w) zlib \<Rightarrow> ('c, 'd, 'w) ZLib \<Rightarrow> (int \<times> ('c, 'd, 'w) ZLib) option" where
  "deflate_init zl s =
     do {
       assert_that (\<not> is_live (z_state (comp_stream s)));
       let (err, c, w) = z_deflateInit2 zl (compression_level s) (window_bits s) (mem_level s) (zl_world s);
       Some (err, if err = Z_OK
         then s\<lparr>comp_stream := (comp_stream s)\<lparr>total_in := 0, total_out := 0, z_state := Live c\<rparr>, zl_world := w\<rparr>
         else s\<lparr>zl_world := w\<rparr>)
     }"

definition deflate_reset ::
  "('c, 'd, 'w) zlib \<Rightarrow> ('c, 'd, 'w) ZLib \<Rightarrow> (int \<times> ('c, 'd, 'w) ZLib) option" where
  "deflate_reset zl s =
     (case z_state (comp_stream s) of
        Unset \<Rightarrow> None
      | Ended \<Rightarrow> Some (Z_STREAM_ERROR, s)
      | Live c \<Rightarrow>
          let (err, c, w) = z_deflateReset zl c (zl_world s) in
          Some (err, if err = Z_OK
            then s\<lparr>comp_stream := (comp_stream s)\<lparr>total_in := 0, total_out := 0, z_state := Live c\<rparr>, zl_world := w\<rparr>
            else s\<lparr>comp_stream := (comp_stream s)\<lparr>z_state := Live c\<rparr>, zl_world := w\<rparr>))"

definition deflate_end :: "('c, 'd, 'w) zlib \<Rightarrow> ('c, 'd, 'w) ZLib \<Rightarrow> ('c, 'd, 'w) ZLib option" where
  "deflate_end zl s =
     (case z_state (comp_stream s) of
        Unset \<Rightarrow> None
      | Ended \<Rightarrow> Some s
      | Live c \<Rightarrow> Some (s\<lparr>comp_stream := (comp_stream s)\<lparr>z_state := Ended\<rparr>, zl_world := z_deflateEnd zl c (zl_world s)\<rparr>))"

text \<open>What \<open>deflate\<close> and \<open>inflate\<close> do to the fields of the stream besides its internal state\<close>

definition advance_stream :: "nat \<Rightarrow> bytes \<Rightarrow> 'z \<Rightarrow> 'z z_stream \<Rightarrow> 'z z_stream" where
  "advance_stream n out z st =
     st\<lparr>next_in := drop n (next_in st), avail_in := avail_in st - n,
        next_out := next_out st + length out, avail_out := avail_out st - length out,
        total_in := total_in st + n, total_out := total_out st + length out, z_state := Live z\<rparr>"

definition call_deflate ::
  "('c, 'd, 'w) zlib \<Rightarrow> int \<Rightarrow> bytes \<Rightarrow> ('c, 'd, 'w) ZLib \<Rightarrow> (int \<times> bytes \<times> ('c, 'd, 'w) ZLib) option" where
  "call_deflate zl flush dest s =
     (let st = comp_stream s in
      case z_state st of
        Unset \<Rightarrow> None
      | Ended \<Rightarrow> Some (Z_STREAM_ERROR, dest, s)
      | Live c \<Rightarrow>
          do {
            input \<leftarrow> mem_read (next_in st) 0 (avail_in st);
            let (err, n, out, c, w) = z_deflate zl flush input (avail_out st) c (zl_world s);
            dest \<leftarrow> mem_write dest (next_out st) out;
            Some (err, dest, s\<lparr>comp_stream := advance_stream n out c st, zl_world := w\<rparr>)
          })"

definition inflate_init ::
  "('c, 'd, 'w) zlib \<Rightarrow> ('c, 'd, 'w) ZLib \<Rightarrow> (int \<times> ('c, 'd, 'w) ZLib) option" where
  "inflate_init zl s =
     do {
       assert_that (\<not> is_live (z_state (uncomp_stream s)));
       let (err, d, w) = z_inflateInit2 zl MAX_WBITS (zl_world s);
       Some (err, if err = Z_OK
         then s\<lparr>uncomp_stream := (uncomp_stream s)\<lparr>total_in := 0, total_out := 0, z_state := Live d\<rparr>, zl_world := w\<rparr>
         else s\<lparr>zl_world := w\<rparr>)
     }"

definition inflate_reset ::
  "('c, 'd, 'w) zlib \<Rightarrow> ('c, 'd, 'w) ZLib \<Rightarrow> (int \<times> ('c, 'd, 'w) ZLib) option" where
  "inflate_reset zl s =
     (case z_state (uncomp_stream s) of
        Unset \<Rightarrow> None
      | Ended \<Rightarrow> Some (Z_STREAM_ERROR, s)
      | Live d \<Rightarrow>
          let (err, d, w) = z_inflateReset zl d (zl_world s) in
          Some (err, if err = Z_OK
            then s\<lparr>uncomp_stream := (uncomp_stream s)\<lparr>total_in := 0, total_out := 0, z_state := Live d\<rparr>, zl_world := w\<rparr>
            else s\<lparr>uncomp_stream := (uncomp_stream s)\<lparr>z_state := Live d\<rparr>, zl_world := w\<rparr>))"

definition inflate_end :: "('c, 'd, 'w) zlib \<Rightarrow> ('c, 'd, 'w) ZLib \<Rightarrow> ('c, 'd, 'w) ZLib option" where
  "inflate_end zl s =
     (case z_state (uncomp_stream s) of
        Unset \<Rightarrow> None
      | Ended \<Rightarrow> Some s
      | Live d \<Rightarrow> Some (s\<lparr>uncomp_stream := (uncomp_stream s)\<lparr>z_state := Ended\<rparr>, zl_world := z_inflateEnd zl d (zl_world s)\<rparr>))"

definition call_inflate ::
  "('c, 'd, 'w) zlib \<Rightarrow> int \<Rightarrow> bytes \<Rightarrow> ('c, 'd, 'w) ZLib \<Rightarrow> (int \<times> bytes \<times> ('c, 'd, 'w) ZLib) option" where
  "call_inflate zl flush dest s =
     (let st = uncomp_stream s in
      case z_state st of
        Unset \<Rightarrow> None
      | Ended \<Rightarrow> Some (Z_STREAM_ERROR, dest, s)
      | Live d \<Rightarrow>
          do {
            input \<leftarrow> mem_read (next_in st) 0 (avail_in st);
            let (err, n, out, d, w) = z_inflate zl flush input (avail_out st) d (zl_world s);
            dest \<leftarrow> mem_write dest (next_out st) out;
            Some (err, dest, s\<lparr>uncomp_stream := advance_stream n out d st, zl_world := w\<rparr>)
          })"

section \<open>Construction, reset and destruction\<close>

definition ZLib_Reset :: "('c, 'd, 'w) ZLib \<Rightarrow> ('c, 'd, 'w) ZLib" where
  "ZLib_Reset s = s\<lparr>first_chunk := True\<rparr>"

definition ZLib_Reinit :: "('c, 'd, 'w) zlib \<Rightarrow> ('c, 'd, 'w) ZLib \<Rightarrow> ('c, 'd, 'w) ZLib option" where
  "ZLib_Reinit zl s =
     do {
       let s = s\<lparr>compression_level := - 1, window_bits := MAX_WBITS, mem_level := 8\<rparr>;
       s \<leftarrow> (if comp_init s
             then do { s \<leftarrow> deflate_end zl s; Some (s\<lparr>comp_init := False\<rparr>) }
             else Some s);
       s \<leftarrow> (if uncomp_init s
             then do { s \<leftarrow> inflate_end zl s; Some (s\<lparr>uncomp_init := False\<rparr>) }
             else Some s);
       Some (s\<lparr>first_chunk := True\<rparr>)
     }"

text \<open>The constructor: the two streams are members without initialiser.\<close>

definition unset_stream :: "'z z_stream" where
  "unset_stream = \<lparr>next_in = [], avail_in = 0, next_out = 0, avail_out = 0, total_in = 0, total_out = 0, z_state = Unset\<rparr>"

definition ZLib_new :: "('c, 'd, 'w) zlib \<Rightarrow> 'w \<Rightarrow> ('c, 'd, 'w) ZLib option" where
  "ZLib_new zl w =
     ZLib_Reinit zl \<lparr>compression_level = 0, window_bits = 0, mem_level = 0, comp_stream = unset_stream, comp_init = False,
       uncomp_stream = unset_stream, uncomp_init = False, first_chunk = False, zl_world = w\<rparr>"

definition ZLib_destroy :: "('c, 'd, 'w) zlib \<Rightarrow> ('c, 'd, 'w) ZLib \<Rightarrow> ('c, 'd, 'w) ZLib option" where
  "ZLib_destroy zl s =
     do {
       s \<leftarrow> (if comp_init s then deflate_end zl s else Some s);
       if uncomp_init s then inflate_end zl s else Some s
     }"

section \<open>Compressing\<close>

definition CompressErrorInit :: "('c, 'd, 'w) zlib \<Rightarrow> ('c, 'd, 'w) ZLib \<Rightarrow> ('c, 'd, 'w) ZLib option" where
  "CompressErrorInit zl s = do { s \<leftarrow> deflate_end zl s; Some (ZLib_Reset (s\<lparr>comp_init := False\<rparr>)) }"

text \<open>The conversions to \<open>uInt\<close> keep 32 bits.\<close>

definition CompressInit ::
  "('c, 'd, 'w) zlib \<Rightarrow> nat \<Rightarrow> bytes \<Rightarrow> nat \<Rightarrow> ('c, 'd, 'w) ZLib \<Rightarrow> (int \<times> ('c, 'd, 'w) ZLib) option" where
  "CompressInit zl destLen source sourceLen s =
     (let s = s\<lparr>comp_stream := (comp_stream s)\<lparr>next_in := source, avail_in := sourceLen mod 2 ^ 32\<rparr>\<rparr> in
      if avail_in (comp_stream s) \<noteq> sourceLen then Some (Z_BUF_ERROR, s)
      else
        let s = s\<lparr>comp_stream := (comp_stream s)\<lparr>next_out := 0, avail_out := destLen mod 2 ^ 32\<rparr>\<rparr> in
        if avail_out (comp_stream s) \<noteq> destLen then Some (Z_BUF_ERROR, s)
        else if \<not> first_chunk s then Some (Z_OK, s)
        else do {
          s \<leftarrow> (if comp_init s
                then do {
                  (err, s) \<leftarrow> deflate_reset zl s;
                  if err \<noteq> Z_OK then do { s \<leftarrow> deflate_end zl s; Some (s\<lparr>comp_init := False\<rparr>) }
                  else Some s
                }
                else Some s);
          if \<not> comp_init s
          then do {
            (err, s) \<leftarrow> deflate_init zl s;
            if err \<noteq> Z_OK then Some (err, s) else Some (Z_OK, s\<lparr>comp_init := True\<rparr>)
          }
          else Some (Z_OK, s)
        })"

text \<open>
  The results are the code, what \<open>*destLen\<close> and \<open>*sourceLen\<close> are afterwards, the output buffer
  and the object. \<open>compressed_size\<close> is an \<open>int\<close>, which is extended with its sign when it is
  stored to \<open>*destLen\<close>.
\<close>

definition compress_done ::
  "bytes \<Rightarrow> nat \<Rightarrow> 32 word \<Rightarrow> int \<Rightarrow> ('c, 'd, 'w) ZLib \<Rightarrow> (int \<times> nat \<times> nat \<times> bytes \<times> ('c, 'd, 'w) ZLib) option" where
  "compress_done dest sourceLen compressed_size err s =
     do {
       assert_that (err = Z_OK \<or> err = Z_STREAM_END \<or> err = Z_BUF_ERROR);
       let err = (if err = Z_STREAM_END then Z_OK else err);
       let compressed_size = of_nat (total_out (comp_stream s)) - compressed_size;
       Some (err, unat (scast compressed_size :: 64 word), sourceLen, dest, s)
     }"

definition CompressAtMostOrAll ::
  "('c, 'd, 'w) zlib \<Rightarrow> bytes \<Rightarrow> nat \<Rightarrow> bytes \<Rightarrow> nat \<Rightarrow> int \<Rightarrow> ('c, 'd, 'w) ZLib \<Rightarrow>
    (int \<times> nat \<times> nat \<times> bytes \<times> ('c, 'd, 'w) ZLib) option" where
  "CompressAtMostOrAll zl dest destLen source sourceLen flush s =
     do {
       (err, s) \<leftarrow> CompressInit zl destLen source sourceLen s;
       if err \<noteq> Z_OK then Some (err, destLen, sourceLen, dest, s)
       else do {
         let compressed_size = (of_nat (total_out (comp_stream s)) :: 32 word);
         let s = (if first_chunk s then s\<lparr>first_chunk := False\<rparr> else s);
         (err, dest, s) \<leftarrow> call_deflate zl flush dest s;
         let st = comp_stream s;
         let sourceLen = avail_in st;
         if (err = Z_STREAM_END \<or> err = Z_OK) \<and> avail_in st = 0 \<and> avail_out st \<noteq> 0
         then compress_done dest sourceLen compressed_size err s
         else if err = Z_STREAM_END \<and> 0 < avail_in st then Some (Z_BUF_ERROR, destLen, sourceLen, dest, s)
         else if err \<noteq> Z_OK \<and> err \<noteq> Z_STREAM_END \<and> err \<noteq> Z_BUF_ERROR
         then do { s \<leftarrow> CompressErrorInit zl s; Some (err, destLen, sourceLen, dest, s) }
         else if avail_out st = 0 then compress_done dest sourceLen compressed_size Z_BUF_ERROR s
         else compress_done dest sourceLen compressed_size err s
       }
     }"

definition CompressChunkOrAll ::
  "('c, 'd, 'w) zlib \<Rightarrow> bytes \<Rightarrow> nat \<Rightarrow> bytes \<Rightarrow> nat \<Rightarrow> int \<Rightarrow> ('c, 'd, 'w) ZLib \<Rightarrow>
    (int \<times> nat \<times> bytes \<times> ('c, 'd, 'w) ZLib) option" where
  "CompressChunkOrAll zl dest destLen source sourceLen flush s =
     do {
       (ret, destLen, sourceLen, dest, s) \<leftarrow> CompressAtMostOrAll zl dest destLen source sourceLen flush s;
       s \<leftarrow> (if ret = Z_BUF_ERROR then CompressErrorInit zl s else Some s);
       Some (ret, destLen, dest, s)
     }"

definition ZLib_Compress ::
  "('c, 'd, 'w) zlib \<Rightarrow> bytes \<Rightarrow> nat \<Rightarrow> bytes \<Rightarrow> nat \<Rightarrow> ('c, 'd, 'w) ZLib \<Rightarrow>
    (int \<times> nat \<times> bytes \<times> ('c, 'd, 'w) ZLib) option" where
  "ZLib_Compress zl dest destLen source sourceLen s =
     do {
       (err, destLen, dest, s) \<leftarrow> CompressChunkOrAll zl dest destLen source sourceLen Z_FINISH s;
       if err \<noteq> Z_OK then Some (err, destLen, dest, s) else Some (Z_OK, destLen, dest, ZLib_Reset s)
     }"

section \<open>Uncompressing\<close>

definition UncompressErrorInit :: "('c, 'd, 'w) zlib \<Rightarrow> ('c, 'd, 'w) ZLib \<Rightarrow> ('c, 'd, 'w) ZLib option" where
  "UncompressErrorInit zl s = do { s \<leftarrow> inflate_end zl s; Some (ZLib_Reset (s\<lparr>uncomp_init := False\<rparr>)) }"

definition UncompressInit ::
  "('c, 'd, 'w) zlib \<Rightarrow> nat \<Rightarrow> bytes \<Rightarrow> nat \<Rightarrow> ('c, 'd, 'w) ZLib \<Rightarrow> (int \<times> ('c, 'd, 'w) ZLib) option" where
  "UncompressInit zl destLen source sourceLen s =
     (let s = s\<lparr>uncomp_stream := (uncomp_stream s)\<lparr>next_in := source, avail_in := sourceLen mod 2 ^ 32\<rparr>\<rparr> in
      if avail_in (uncomp_stream s) \<noteq> sourceLen then Some (Z_BUF_ERROR, s)
      else
        let s = s\<lparr>uncomp_stream := (uncomp_stream s)\<lparr>next_out := 0, avail_out := destLen mod 2 ^ 32\<rparr>\<rparr> in
        if avail_out (uncomp_stream s) \<noteq> destLen then Some (Z_BUF_ERROR, s)
        else if \<not> first_chunk s then Some (Z_OK, s)
        else do {
          s \<leftarrow> (if uncomp_init s
                then do {
                  (err, s) \<leftarrow> inflate_reset zl s;
                  if err \<noteq> Z_OK then UncompressErrorInit zl s else Some s
                }
                else Some s);
          if \<not> uncomp_init s
          then do {
            (err, s) \<leftarrow> inflate_init zl s;
            if err \<noteq> Z_OK then Some (err, s) else Some (Z_OK, s\<lparr>uncomp_init := True\<rparr>)
          }
          else Some (Z_OK, s)
        })"

definition uncompress_done ::
  "bytes \<Rightarrow> nat \<Rightarrow> nat \<Rightarrow> int \<Rightarrow> ('c, 'd, 'w) ZLib \<Rightarrow> (int \<times> nat \<times> nat \<times> bytes \<times> ('c, 'd, 'w) ZLib) option" where
  "uncompress_done dest sourceLen old_total_out err s =
     do {
       assert_that (err = Z_OK \<or> err = Z_BUF_ERROR \<or> err = Z_STREAM_END);
       let err = (if err = Z_STREAM_END then Z_OK else err);
       Some (err, total_out (uncomp_stream s) - old_total_out, sourceLen, dest, s)
     }"

definition UncompressAtMostOrAll ::
  "('c, 'd, 'w) zlib \<Rightarrow> bytes \<Rightarrow> nat \<Rightarrow> bytes \<Rightarrow> nat \<Rightarrow> int \<Rightarrow> ('c, 'd, 'w) ZLib \<Rightarrow>
    (int \<times> nat \<times> nat \<times> bytes \<times> ('c, 'd, 'w) ZLib) option" where
  "UncompressAtMostOrAll zl dest destLen source sourceLen flush s =
     do {
       (err, s) \<leftarrow> UncompressInit zl destLen source sourceLen s;
       if err \<noteq> Z_OK then Some (err, destLen, sourceLen, dest, s)
       else
         let old_total_out = total_out (uncomp_stream s);
             old_total_in = total_in (uncomp_stream s);
             first = first_chunk s;
             s = (if first then s\<lparr>first_chunk := False\<rparr> else s) in
         if first \<and> sourceLen = 0 then Some (Z_OK, 0, sourceLen, dest, s)
         else do {
           (err, dest, s) \<leftarrow> call_inflate zl flush dest s;
           let st = uncomp_stream s;
           assert_that (total_in st - old_total_in \<le> sourceLen);
           let sourceLen = avail_in st;
           if (err = Z_STREAM_END \<or> err = Z_OK) \<and> avail_in st = 0
           then uncompress_done dest sourceLen old_total_out err s
           else if err = Z_STREAM_END \<and> 0 < avail_in st
           then do { s \<leftarrow> UncompressErrorInit zl s; Some (Z_DATA_ERROR, destLen, sourceLen, dest, s) }
           else if err \<noteq> Z_OK \<and> err \<noteq> Z_STREAM_END \<and> err \<noteq> Z_BUF_ERROR
           then do { s \<leftarrow> UncompressErrorInit zl s; Some (err, destLen, sourceLen, dest, s) }
           else if avail_out st = 0 then uncompress_done dest sourceLen old_total_out Z_BUF_ERROR s
           else uncompress_done dest sourceLen old_total_out err s
         }
     }"

definition UncompressChunkOrAll ::
  "('c, 'd, 'w) zlib \<Rightarrow> bytes \<Rightarrow> nat \<Rightarrow> bytes \<Rightarrow> nat \<Rightarrow> int \<Rightarrow> ('c, 'd, 'w) ZLib \<Rightarrow>
    (int \<times> nat \<times> bytes \<times> ('c, 'd, 'w) ZLib) option" where
  "UncompressChunkOrAll zl dest destLen source sourceLen flush s =
     do {
       (ret, destLen, sourceLen, dest, s) \<leftarrow> UncompressAtMostOrAll zl dest destLen source sourceLen flush s;
       s \<leftarrow> (if ret = Z_BUF_ERROR then UncompressErrorInit zl s else Some s);
       Some (ret, destLen, dest, s)
     }"

definition UncompressAtMost ::
  "('c, 'd, 'w) zlib \<Rightarrow> bytes \<Rightarrow> nat \<Rightarrow> bytes \<Rightarrow> nat \<Rightarrow> ('c, 'd, 'w) ZLib \<Rightarrow>
    (int \<times> nat \<times> nat \<times> bytes \<times> ('c, 'd, 'w) ZLib) option" where
  "UncompressAtMost zl dest destLen source sourceLen s =
     UncompressAtMostOrAll zl dest destLen source sourceLen Z_SYNC_FLUSH s"

text \<open>\<open>dummyin\<close> and \<open>dummyout\<close> are one byte each, of which none is used.\<close>

definition UncompressChunkDone :: "('c, 'd, 'w) zlib \<Rightarrow> ('c, 'd, 'w) ZLib \<Rightarrow> (bool \<times> ('c, 'd, 'w) ZLib) option" where
  "UncompressChunkDone zl s =
     do {
       assert_that (\<not> first_chunk s \<and> uncomp_init s);
       (err, dummylen, dummyout, s) \<leftarrow> UncompressChunkOrAll zl [0] 0 [0] 0 Z_FINISH s;
       if err \<noteq> Z_OK then Some (False, s) else Some (True, ZLib_Reset s)
     }"

definition ZLib_Uncompress ::
  "('c, 'd, 'w) zlib \<Rightarrow> bytes \<Rightarrow> nat \<Rightarrow> bytes \<Rightarrow> nat \<Rightarrow> ('c, 'd, 'w) ZLib \<Rightarrow>
    (int \<times> nat \<times> bytes \<times> ('c, 'd, 'w) ZLib) option" where
  "ZLib_Uncompress zl dest destLen source sourceLen s =
     do {
       (err, destLen, dest, s) \<leftarrow> UncompressChunkOrAll zl dest destLen source sourceLen Z_FINISH s;
       if err \<noteq> Z_OK then Some (err, destLen, dest, ZLib_Reset s)
       else do {
         (all_done, s) \<leftarrow> UncompressChunkDone zl s;
         Some (if \<not> all_done then Z_DATA_ERROR else Z_OK, destLen, dest, s)
       }
     }"

definition MinCompressbufSize :: "int \<Rightarrow> int option" where
  "MinCompressbufSize uncompress_size =
     (let n = uncompress_size + uncompress_size sdiv 1000 + 40
      in if - (2 ^ 31) \<le> n \<and> n < 2 ^ 31 then Some n else None)"

end
