(* ===== verification/ZLibSpec.thy ===== *)
theory ZLibSpec
  imports ZLibWrapper
begin

text \<open>
  What class \<open>ZLib\<close> guarantees for any library that keeps zlib's documented behaviour: no stream
  is used before it is initialised, initialised twice or left behind, and what was compressed is
  uncompressed again. The rules of use, and what happens outside of them, are explicit.
\<close>

section \<open>What is relied on of the library\<close>

text \<open>\<open>deflate\<close> and \<open>inflate\<close> stay within input and output; initialisation never reports a full buffer.\<close>

definition zlib_bounded :: "('c, 'd, 'w) zlib \<Rightarrow> bool" where
  "zlib_bounded zl \<longleftrightarrow>
     (\<forall>f x n c w err k out c' w'. z_deflate zl f x n c w = (err, k, out, c', w') \<longrightarrow> k \<le> length x \<and> length out \<le> n) \<and>
     (\<forall>f x n d w err k out d' w'. z_inflate zl f x n d w = (err, k, out, d', w') \<longrightarrow> k \<le> length x \<and> length out \<le> n) \<and>
     (\<forall>l b m w err c w'. z_deflateInit2 zl l b m w = (err, c, w') \<longrightarrow> err \<noteq> Z_BUF_ERROR) \<and>
     (\<forall>b w err d w'. z_inflateInit2 zl b w = (err, d, w') \<longrightarrow> err \<noteq> Z_BUF_ERROR)"

lemma zlib_boundedD:
  assumes "zlib_bounded zl"
  shows "z_deflate zl f x n c w = (err, k, out, c', w') \<Longrightarrow> k \<le> length x \<and> length out \<le> n"
    and "z_inflate zl f x n d w = (err, k, out, d', w') \<Longrightarrow> k \<le> length x \<and> length out \<le> n"
    and "z_deflateInit2 zl l b m w = (err, c', w') \<Longrightarrow> err \<noteq> Z_BUF_ERROR"
    and "z_inflateInit2 zl b w = (err, d', w') \<Longrightarrow> err \<noteq> Z_BUF_ERROR"
proof -
  note z = assms [unfolded zlib_bounded_def]
  show "z_deflate zl f x n c w = (err, k, out, c', w') \<Longrightarrow> k \<le> length x \<and> length out \<le> n"
    using z [THEN conjunct1] by blast
  show "z_inflate zl f x n d w = (err, k, out, d', w') \<Longrightarrow> k \<le> length x \<and> length out \<le> n"
    using z [THEN conjunct2, THEN conjunct1] by blast
  show "z_deflateInit2 zl l b m w = (err, c', w') \<Longrightarrow> err \<noteq> Z_BUF_ERROR"
    using z [THEN conjunct2, THEN conjunct2, THEN conjunct1] by blast
  show "z_inflateInit2 zl b w = (err, d', w') \<Longrightarrow> err \<noteq> Z_BUF_ERROR"
    using z [THEN conjunct2, THEN conjunct2, THEN conjunct2] by blast
qed

section \<open>The invariant\<close>

text \<open>
  The two flags say which stream is live. Between calls \<open>first_chunk_\<close> is false only while chunks
  are uncompressed.
\<close>

definition zlib_inv :: "('c, 'd, 'w) ZLib \<Rightarrow> bool" where
  "zlib_inv s \<longleftrightarrow>
     comp_init s = is_live (z_state (comp_stream s)) \<and> uncomp_init s = is_live (z_state (uncomp_stream s)) \<and>
     (\<not> first_chunk s \<longrightarrow> uncomp_init s)"

lemma is_liveE:
  assumes "is_live st"
  obtains z where "st = Live z"
  using assms by (cases st) auto

lemma ZLib_new_ok: "\<exists>s. ZLib_new zl w = Some s \<and> zlib_inv s \<and> first_chunk s"
  by (simp add: ZLib_new_def ZLib_Reinit_def zlib_inv_def unset_stream_def)

lemma ZLib_Reset_inv: "zlib_inv s \<Longrightarrow> zlib_inv (ZLib_Reset s)"
  by (simp add: zlib_inv_def ZLib_Reset_def)

lemma ZLib_Reinit_ok: "zlib_inv s \<Longrightarrow> \<exists>s'. ZLib_Reinit zl s = Some s' \<and> zlib_inv s' \<and> first_chunk s'"
  by (auto simp: ZLib_Reinit_def zlib_inv_def deflate_end_def inflate_end_def Let_def elim!: is_liveE)

lemma ZLib_destroy_ok:
  "zlib_inv s \<Longrightarrow> \<exists>s'. ZLib_destroy zl s = Some s' \<and> \<not> is_live (z_state (comp_stream s')) \<and> \<not> is_live (z_state (uncomp_stream s'))"
  by (auto simp: ZLib_destroy_def zlib_inv_def deflate_end_def inflate_end_def elim!: is_liveE)

section \<open>Compress\<close>

text \<open>A compressor from which nothing has been compressed since it was initialised or reset\<close>

definition fresh_compressor :: "('c, 'd, 'w) zlib \<Rightarrow> 'c \<Rightarrow> bool" where
  "fresh_compressor zl c \<longleftrightarrow>
     (\<exists>l b m w w'. z_deflateInit2 zl l b m w = (Z_OK, c, w')) \<or> (\<exists>c0 w w'. z_deflateReset zl c0 w = (Z_OK, c, w'))"

text \<open>The state that \<open>deflate\<close> is called in\<close>

definition ready_to_deflate :: "('c, 'd, 'w) zlib \<Rightarrow> nat \<Rightarrow> bytes \<Rightarrow> nat \<Rightarrow> ('c, 'd, 'w) ZLib \<Rightarrow> bool" where
  "ready_to_deflate zl destLen source sourceLen s \<longleftrightarrow>
     (let st = comp_stream s in
      (\<exists>c. z_state st = Live c \<and> fresh_compressor zl c) \<and> comp_init s \<and> next_in st = source \<and> avail_in st = sourceLen \<and> next_out st = 0 \<and>
      avail_out st = destLen \<and> total_out st = 0)"

lemma CompressInit_ok:
  assumes zl: "zlib_bounded zl" and inv: "zlib_inv s" "first_chunk s" and len: "destLen < 2 ^ 32" "sourceLen < 2 ^ 32"
  shows "\<exists>err s'. CompressInit zl destLen source sourceLen s = Some (err, s') \<and> zlib_inv s' \<and> first_chunk s' \<and>
    err \<noteq> Z_BUF_ERROR \<and> (err = Z_OK \<longrightarrow> ready_to_deflate zl destLen source sourceLen s')"
proof -
  have init: "\<exists>err s'. deflate_init zl s = Some (err, s') \<and> zlib_inv (if err = Z_OK then s'\<lparr>comp_init := True\<rparr> else s') \<and>
      first_chunk s' \<and> err \<noteq> Z_BUF_ERROR \<and> (err = Z_OK \<longrightarrow> ready_to_deflate zl destLen source sourceLen (s'\<lparr>comp_init := True\<rparr>))"
    if "zlib_inv s" "\<not> comp_init s" "first_chunk s" "next_in (comp_stream s) = source" "avail_in (comp_stream s) = sourceLen"
      "next_out (comp_stream s) = 0" "avail_out (comp_stream s) = destLen" for s :: "('a, 'b, 'c) ZLib"
  proof -
    obtain err c w where i: "z_deflateInit2 zl (compression_level s) (window_bits s) (mem_level s) (zl_world s) = (err, c, w)"
      by (metis prod_cases3)
    from zlib_boundedD(3) [OF zl i] i that show ?thesis
      by (auto simp: deflate_init_def zlib_inv_def ready_to_deflate_def fresh_compressor_def Let_def)
  qed
  let ?s = "s\<lparr>comp_stream := (comp_stream s)\<lparr>next_in := source, avail_in := sourceLen, next_out := 0, avail_out := destLen\<rparr>\<rparr>"
  have s: "zlib_inv ?s" "first_chunk ?s" "next_in (comp_stream ?s) = source" "avail_in (comp_stream ?s) = sourceLen"
      "next_out (comp_stream ?s) = 0" "avail_out (comp_stream ?s) = destLen" "comp_init ?s = comp_init s"
    using inv by (simp_all add: zlib_inv_def)
  show ?thesis
  proof (cases "comp_init s")
    case False
    with init [OF s(1) _ s(2-6)] s(7) show ?thesis
      using len inv(2) by (auto simp: CompressInit_def Let_def)
  next
    case True
    then obtain c where c: "z_state (comp_stream s) = Live c" using inv(1) by (auto simp: zlib_inv_def elim: is_liveE)
    obtain err c' w where r: "z_deflateReset zl c (zl_world s) = (err, c', w)" by (metis prod_cases3)
    show ?thesis
    proof (cases "err = Z_OK")
      case True
      with r c \<open>comp_init s\<close> len inv show ?thesis
        by (auto simp: CompressInit_def Let_def deflate_reset_def zlib_inv_def ready_to_deflate_def fresh_compressor_def)
    next
      case False
      let ?s1 = "?s\<lparr>comp_stream := (comp_stream ?s)\<lparr>z_state := Ended\<rparr>, zl_world := z_deflateEnd zl c' w, comp_init := False\<rparr>"
      have "zlib_inv ?s1" "\<not> comp_init ?s1" "first_chunk ?s1" "next_in (comp_stream ?s1) = source"
        "avail_in (comp_stream ?s1) = sourceLen" "next_out (comp_stream ?s1) = 0" "avail_out (comp_stream ?s1) = destLen"
        using inv by (simp_all add: zlib_inv_def)
      from init [OF this] False r c \<open>comp_init s\<close> len inv(2) show ?thesis
        by (auto simp: CompressInit_def Let_def deflate_reset_def deflate_end_def)
    qed
  qed
qed

text \<open>
  After \<open>deflate\<close>, however it ended: the object can be given back or cleared. What is not taken
  back yet is only \<open>first_chunk_\<close>.
\<close>

lemma CompressErrorInit_ok:
  assumes "is_live (z_state (comp_stream s))" and "uncomp_init s = is_live (z_state (uncomp_stream s))"
  shows "\<exists>s'. CompressErrorInit zl s = Some s' \<and> zlib_inv s' \<and> first_chunk s'"
  using assms by (auto simp: CompressErrorInit_def deflate_end_def ZLib_Reset_def zlib_inv_def elim!: is_liveE)

definition compressed_as :: "('c, 'd, 'w) zlib \<Rightarrow> nat \<Rightarrow> bytes \<Rightarrow> bytes \<Rightarrow> bool" where
  "compressed_as zl destLen x y \<longleftrightarrow>
     (\<exists>c w err k c' w'. fresh_compressor zl c \<and> z_deflate zl Z_FINISH x destLen c w = (err, k, y, c', w') \<and>
        (err = Z_STREAM_END \<and> k = length x \<or> err = Z_OK) \<and> length y < destLen)"

lemma deflate_finish:
  assumes zl: "zlib_bounded zl" and r: "ready_to_deflate zl destLen source sourceLen s"
    and dest: "destLen \<le> length dest" and source: "sourceLen \<le> length source"
    and u: "uncomp_init s = is_live (z_state (uncomp_stream s))"
  shows "\<exists>err k out s'. call_deflate zl Z_FINISH dest s = Some (err, out @ drop (length out) dest, s') \<and>
    is_live (z_state (comp_stream s')) \<and> comp_init s' \<and> uncomp_init s' = is_live (z_state (uncomp_stream s')) \<and>
    first_chunk s' = first_chunk s \<and>
    avail_in (comp_stream s') = sourceLen - k \<and> avail_out (comp_stream s') = destLen - length out \<and>
    total_out (comp_stream s') = length out \<and> k \<le> sourceLen \<and> length out \<le> destLen \<and>
    (\<exists>c w c' w'. fresh_compressor zl c \<and> z_deflate zl Z_FINISH (take sourceLen source) destLen c w = (err, k, out, c', w'))"
proof -
  obtain c where c: "z_state (comp_stream s) = Live c" "fresh_compressor zl c" using r by (auto simp: ready_to_deflate_def Let_def)
  obtain err k out c' w' where
    d: "z_deflate zl Z_FINISH (take sourceLen source) destLen c (zl_world s) = (err, k, out, c', w')" by (metis prod_cases5)
  have b: "k \<le> sourceLen" "length out \<le> destLen" using zlib_boundedD(1) [OF zl d] source by simp_all
  let ?s = "s\<lparr>comp_stream := advance_stream k out c' (comp_stream s), zl_world := w'\<rparr>"
  have rd: "mem_read (next_in (comp_stream s)) 0 (avail_in (comp_stream s)) = Some (take sourceLen source)"
    using r source by (simp add: ready_to_deflate_def Let_def mem_read_def)
  have wr: "mem_write dest (next_out (comp_stream s)) out = Some (out @ drop (length out) dest)"
    using r b(2) dest mem_write_Some [of 0 out dest] by (simp add: ready_to_deflate_def Let_def)
  have "call_deflate zl Z_FINISH dest s = Some (err, out @ drop (length out) dest, ?s)"
    using r c(1) rd wr d by (simp add: call_deflate_def Let_def ready_to_deflate_def)
  moreover have "is_live (z_state (comp_stream ?s))" "comp_init ?s" "uncomp_init ?s = is_live (z_state (uncomp_stream ?s))"
    "first_chunk ?s = first_chunk s" "avail_in (comp_stream ?s) = sourceLen - k" "avail_out (comp_stream ?s) = destLen - length out"
    "total_out (comp_stream ?s) = length out"
    using r u by (simp_all add: advance_stream_def ready_to_deflate_def Let_def)
  ultimately show ?thesis using b c(2) d by blast
qed

lemma ZLib_Compress_ok:
  assumes zl: "zlib_bounded zl" and inv: "zlib_inv s" "first_chunk s" and len: "destLen < 2 ^ 32" "sourceLen < 2 ^ 32"
    and dest: "destLen \<le> length dest" and source: "sourceLen \<le> length source"
  shows "\<exists>err dl dest' s'. ZLib_Compress zl dest destLen source sourceLen s = Some (err, dl, dest', s') \<and>
    zlib_inv s' \<and> first_chunk s' \<and> length dest' = length dest \<and>
    (err = Z_OK \<longrightarrow> (\<exists>y. compressed_as zl destLen (take sourceLen source) y \<and> dest' = y @ drop (length y) dest \<and>
       dl = unat (scast (of_nat (length y) :: 32 word) :: 64 word)))"
proof -
  obtain e s1 where i: "CompressInit zl destLen source sourceLen s = Some (e, s1)" "zlib_inv s1" "first_chunk s1"
    "e \<noteq> Z_BUF_ERROR" "e = Z_OK \<Longrightarrow> ready_to_deflate zl destLen source sourceLen s1"
    using CompressInit_ok [OF zl inv len] by blast
  show ?thesis
  proof (cases "e = Z_OK")
    case False
    with i show ?thesis by (simp add: ZLib_Compress_def CompressChunkOrAll_def CompressAtMostOrAll_def)
  next
    case True
    let ?s1 = "s1\<lparr>first_chunk := False\<rparr>"
    have "ready_to_deflate zl destLen source sourceLen ?s1" "uncomp_init ?s1 = is_live (z_state (uncomp_stream ?s1))"
      and tot: "total_out (comp_stream s1) = 0"
      using i(2) i(5) [OF True] by (simp_all add: ready_to_deflate_def zlib_inv_def Let_def)
    from deflate_finish [OF zl this(1) dest source this(2)] obtain err k out s2 where
      d: "call_deflate zl Z_FINISH dest ?s1 = Some (err, out @ drop (length out) dest, s2)"
      "is_live (z_state (comp_stream s2))" "comp_init s2" "uncomp_init s2 = is_live (z_state (uncomp_stream s2))"
      "avail_in (comp_stream s2) = sourceLen - k" "avail_out (comp_stream s2) = destLen - length out"
      "total_out (comp_stream s2) = length out" "k \<le> sourceLen" "length out \<le> destLen"
      "\<exists>c w c' w'. fresh_compressor zl c \<and> z_deflate zl Z_FINISH (take sourceLen source) destLen c w = (err, k, out, c', w')"
      by blast
    obtain s3 where s3: "CompressErrorInit zl s2 = Some s3" "zlib_inv s3" "first_chunk s3"
      using CompressErrorInit_ok [OF d(2,4)] by blast
    have inv2: "zlib_inv (ZLib_Reset s2)" "first_chunk (ZLib_Reset s2)"
      using d(2-4) by (simp_all add: zlib_inv_def ZLib_Reset_def)
    have length': "length (out @ drop (length out) dest) = length dest" using d(9) dest by simp
    have good: "compressed_as zl destLen (take sourceLen source) out"
      if "err = Z_STREAM_END \<and> k = sourceLen \<or> err = Z_OK" "length out < destLen"
    proof -
      from d(10) obtain c w c' w' where "fresh_compressor zl c"
        "z_deflate zl Z_FINISH (take sourceLen source) destLen c w = (err, k, out, c', w')" by blast
      with that source show ?thesis unfolding compressed_as_def by (intro exI conjI) (assumption | simp)+
    qed
    note run = ZLib_Compress_def CompressChunkOrAll_def CompressAtMostOrAll_def i(1) compress_done_def i(3) tot
    consider (ok) "err = Z_STREAM_END \<or> err = Z_OK" "k = sourceLen" "length out < destLen"
      | (extra) "err = Z_STREAM_END" "k < sourceLen"
      | (bad) "err \<noteq> Z_OK" "err \<noteq> Z_STREAM_END" "err \<noteq> Z_BUF_ERROR"
      | (full) "err = Z_OK \<or> err = Z_STREAM_END \<and> k = sourceLen \<or> err = Z_BUF_ERROR" "length out = destLen"
      | (more) "err = Z_OK" "k < sourceLen" "length out < destLen"
      | (buf) "err = Z_BUF_ERROR" "length out < destLen"
      using d(8,9) by linarith
    then show ?thesis
    proof cases
      case ok
      with good d(1,5-7) inv2 length' show ?thesis using True by (auto simp: run)
    next
      case extra
      with d(1,5-7) s3 length' show ?thesis using True by (auto simp: run)
    next
      case bad
      with d(1,5-7) s3 length' show ?thesis using True by (auto simp: run)
    next
      case full
      with d(1,5-8) s3 length' show ?thesis using True by (auto simp: run)
    next
      case more
      with good d(1,5-7) inv2 length' show ?thesis using True by (auto simp: run)
    next
      case buf
      with d(1,5-7) s3 length' show ?thesis using True by (auto simp: run)
    qed
  qed
qed

section \<open>Uncompress\<close>

definition fresh_decompressor :: "('c, 'd, 'w) zlib \<Rightarrow> 'd \<Rightarrow> bool" where
  "fresh_decompressor zl d \<longleftrightarrow>
     (\<exists>b w w'. z_inflateInit2 zl b w = (Z_OK, d, w')) \<or> (\<exists>d0 w w'. z_inflateReset zl d0 w = (Z_OK, d, w'))"

definition inflate_init_succeeds :: "('c, 'd, 'w) zlib \<Rightarrow> bool" where
  "inflate_init_succeeds zl \<longleftrightarrow> (\<forall>b w. fst (z_inflateInit2 zl b w) = Z_OK)"

definition ready_to_inflate :: "nat \<Rightarrow> bytes \<Rightarrow> nat \<Rightarrow> ('c, 'd, 'w) ZLib \<Rightarrow> bool" where
  "ready_to_inflate destLen source sourceLen s \<longleftrightarrow>
     (let st = uncomp_stream s in
      is_live (z_state st) \<and> uncomp_init s \<and> next_in st = source \<and> avail_in st = sourceLen \<and> next_out st = 0 \<and>
      avail_out st = destLen)"

definition fresh_stream :: "('c, 'd, 'w) zlib \<Rightarrow> ('c, 'd, 'w) ZLib \<Rightarrow> bool" where
  "fresh_stream zl s \<longleftrightarrow>
     (let st = uncomp_stream s in (\<exists>d. z_state st = Live d \<and> fresh_decompressor zl d) \<and> total_in st = 0 \<and> total_out st = 0)"

lemma inflate_init_ok:
  assumes zl: "zlib_bounded zl" and "zlib_inv s" "\<not> uncomp_init s" "first_chunk s"
    and "next_in (uncomp_stream s) = source" "avail_in (uncomp_stream s) = sourceLen"
      "next_out (uncomp_stream s) = 0" "avail_out (uncomp_stream s) = destLen"
  shows "\<exists>err s'. inflate_init zl s = Some (err, s') \<and> zlib_inv (if err = Z_OK then s'\<lparr>uncomp_init := True\<rparr> else s') \<and>
    first_chunk s' \<and> err \<noteq> Z_BUF_ERROR \<and>
    (inflate_init_succeeds zl \<longrightarrow> err = Z_OK) \<and>
    (err = Z_OK \<longrightarrow> ready_to_inflate destLen source sourceLen (s'\<lparr>uncomp_init := True\<rparr>) \<and> fresh_stream zl s')"
proof -
  obtain err d w where i: "z_inflateInit2 zl MAX_WBITS (zl_world s) = (err, d, w)" by (metis prod_cases3)
  then have "inflate_init_succeeds zl \<longrightarrow> err = Z_OK" unfolding inflate_init_succeeds_def by (metis fst_conv)
  with zlib_boundedD(4) [OF zl i] i assms(2-) show ?thesis
    by (auto simp: inflate_init_def zlib_inv_def ready_to_inflate_def fresh_stream_def fresh_decompressor_def Let_def)
qed

lemma UncompressInit_ok:
  assumes zl: "zlib_bounded zl" and inv: "zlib_inv s" and len: "destLen < 2 ^ 32" "sourceLen < 2 ^ 32"
  shows "\<exists>err s'. UncompressInit zl destLen source sourceLen s = Some (err, s') \<and> zlib_inv s' \<and>
    first_chunk s' = first_chunk s \<and> err \<noteq> Z_BUF_ERROR \<and>
    (inflate_init_succeeds zl \<longrightarrow> err = Z_OK) \<and>
    (err = Z_OK \<longrightarrow> ready_to_inflate destLen source sourceLen s' \<and> (first_chunk s \<longrightarrow> fresh_stream zl s'))"
proof -
  let ?s = "s\<lparr>uncomp_stream := (uncomp_stream s)\<lparr>next_in := source, avail_in := sourceLen, next_out := 0, avail_out := destLen\<rparr>\<rparr>"
  have s: "zlib_inv ?s" "next_in (uncomp_stream ?s) = source" "avail_in (uncomp_stream ?s) = sourceLen"
      "next_out (uncomp_stream ?s) = 0" "avail_out (uncomp_stream ?s) = destLen"
    using inv by (auto simp: zlib_inv_def)
  consider (chunk) "\<not> first_chunk s" | (first) "first_chunk s" "\<not> uncomp_init s" | (reset) "first_chunk s" "uncomp_init s" by blast
  then show ?thesis
  proof cases
    case chunk
    with inv len show ?thesis by (auto simp: UncompressInit_def Let_def zlib_inv_def ready_to_inflate_def)
  next
    case first
    with inflate_init_ok [OF zl s(1) _ _ s(2-5)] len show ?thesis by (auto simp: UncompressInit_def Let_def fresh_stream_def)
  next
    case reset
    then obtain d where d: "z_state (uncomp_stream s) = Live d" using inv by (auto simp: zlib_inv_def elim: is_liveE)
    obtain err d' w where r: "z_inflateReset zl d (zl_world s) = (err, d', w)" by (metis prod_cases3)
    show ?thesis
    proof (cases "err = Z_OK")
      case True
      with r d reset len inv show ?thesis
        by (auto simp: UncompressInit_def Let_def inflate_reset_def zlib_inv_def ready_to_inflate_def fresh_stream_def
            fresh_decompressor_def)
    next
      case False
      let ?s1 = "?s\<lparr>uncomp_stream := (uncomp_stream ?s)\<lparr>z_state := Ended\<rparr>, zl_world := z_inflateEnd zl d' w,
        uncomp_init := False, first_chunk := True\<rparr>"
      have "zlib_inv ?s1" "\<not> uncomp_init ?s1" "first_chunk ?s1" "next_in (uncomp_stream ?s1) = source"
        "avail_in (uncomp_stream ?s1) = sourceLen" "next_out (uncomp_stream ?s1) = 0" "avail_out (uncomp_stream ?s1) = destLen"
        using inv by (simp_all add: zlib_inv_def)
      from inflate_init_ok [OF zl this] False r d reset len show ?thesis
        by (auto simp: UncompressInit_def Let_def inflate_reset_def UncompressErrorInit_def inflate_end_def ZLib_Reset_def
            fresh_stream_def)
    qed
  qed
qed

lemma UncompressErrorInit_ok:
  assumes "is_live (z_state (uncomp_stream s))" and "comp_init s = is_live (z_state (comp_stream s))"
  shows "\<exists>s'. UncompressErrorInit zl s = Some s' \<and> zlib_inv s' \<and> first_chunk s'"
  using assms by (auto simp: UncompressErrorInit_def inflate_end_def ZLib_Reset_def zlib_inv_def elim!: is_liveE)

lemma inflate_step:
  assumes zl: "zlib_bounded zl" and r: "ready_to_inflate destLen source sourceLen s"
    and dest: "destLen \<le> length dest" and source: "sourceLen \<le> length source"
  shows "\<exists>err k out d w s'. call_inflate zl flush dest s = Some (err, out @ drop (length out) dest, s') \<and>
    is_live (z_state (uncomp_stream s')) \<and> uncomp_init s' \<and> comp_init s' = comp_init s \<and> comp_stream s' = comp_stream s \<and>
    first_chunk s' = first_chunk s \<and>
    avail_in (uncomp_stream s') = sourceLen - k \<and> avail_out (uncomp_stream s') = destLen - length out \<and>
    total_in (uncomp_stream s') = total_in (uncomp_stream s) + k \<and>
    total_out (uncomp_stream s') = total_out (uncomp_stream s) + length out \<and> k \<le> sourceLen \<and> length out \<le> destLen \<and>
    z_state (uncomp_stream s') = Live d \<and>
    (\<forall>d0. z_state (uncomp_stream s) = Live d0 \<longrightarrow>
       z_inflate zl flush (take sourceLen source) destLen d0 (zl_world s) = (err, k, out, d, w))"
proof -
  obtain d0 where d0: "z_state (uncomp_stream s) = Live d0" using r by (auto simp: ready_to_inflate_def Let_def elim: is_liveE)
  obtain err k out d w where
    d: "z_inflate zl flush (take sourceLen source) destLen d0 (zl_world s) = (err, k, out, d, w)" by (metis prod_cases5)
  have b: "k \<le> sourceLen" "length out \<le> destLen" using zlib_boundedD(2) [OF zl d] source by simp_all
  let ?s = "s\<lparr>uncomp_stream := advance_stream k out d (uncomp_stream s), zl_world := w\<rparr>"
  have rd: "mem_read (next_in (uncomp_stream s)) 0 (avail_in (uncomp_stream s)) = Some (take sourceLen source)"
    using r source by (simp add: ready_to_inflate_def Let_def mem_read_def)
  have wr: "mem_write dest (next_out (uncomp_stream s)) out = Some (out @ drop (length out) dest)"
    using r b(2) dest mem_write_Some [of 0 out dest] by (simp add: ready_to_inflate_def Let_def)
  have "call_inflate zl flush dest s = Some (err, out @ drop (length out) dest, ?s)"
    using r d0 rd wr d by (simp add: call_inflate_def Let_def ready_to_inflate_def)
  moreover have "is_live (z_state (uncomp_stream ?s))" "uncomp_init ?s" "comp_init ?s = comp_init s" "comp_stream ?s = comp_stream s"
    "first_chunk ?s = first_chunk s" "avail_in (uncomp_stream ?s) = sourceLen - k" "avail_out (uncomp_stream ?s) = destLen - length out"
    "total_in (uncomp_stream ?s) = total_in (uncomp_stream s) + k"
    "total_out (uncomp_stream ?s) = total_out (uncomp_stream s) + length out" "z_state (uncomp_stream ?s) = Live d"
    using r by (simp_all add: advance_stream_def ready_to_inflate_def Let_def)
  moreover have "\<forall>d1. z_state (uncomp_stream s) = Live d1 \<longrightarrow>
       z_inflate zl flush (take sourceLen source) destLen d1 (zl_world s) = (err, k, out, d, w)"
    using d0 d by simp
  ultimately show ?thesis using b by blast
qed

lemma UncompressAtMostOrAll_ok:
  assumes zl: "zlib_bounded zl" and inv: "zlib_inv s" and len: "destLen < 2 ^ 32" "sourceLen < 2 ^ 32"
    and dest: "destLen \<le> length dest" and source: "sourceLen \<le> length source"
  shows "\<exists>err dl sl dest' s'. UncompressAtMostOrAll zl dest destLen source sourceLen flush s = Some (err, dl, sl, dest', s') \<and>
    zlib_inv s' \<and> length dest' = length dest \<and> (err = Z_BUF_ERROR \<longrightarrow> uncomp_init s') \<and>
    (err = Z_OK \<longrightarrow> \<not> first_chunk s' \<and> uncomp_init s')"
proof -
  obtain e s1 where i: "UncompressInit zl destLen source sourceLen s = Some (e, s1)" "zlib_inv s1" "first_chunk s1 = first_chunk s"
    "e \<noteq> Z_BUF_ERROR" "e = Z_OK \<Longrightarrow> ready_to_inflate destLen source sourceLen s1"
    using UncompressInit_ok [OF zl inv len] by blast
  show ?thesis
  proof (cases "e = Z_OK")
    case False
    with i show ?thesis by (simp add: UncompressAtMostOrAll_def)
  next
    case True
    let ?s1 = "if first_chunk s1 then s1\<lparr>first_chunk := False\<rparr> else s1"
    have r1: "ready_to_inflate destLen source sourceLen ?s1" "\<not> first_chunk ?s1" "comp_init ?s1 = is_live (z_state (comp_stream ?s1))"
      "total_in (uncomp_stream ?s1) = total_in (uncomp_stream s1)"
      using i(2) i(5) [OF True] by (simp_all add: ready_to_inflate_def zlib_inv_def Let_def)
    obtain err k out d w s2 where
      c: "call_inflate zl flush dest ?s1 = Some (err, out @ drop (length out) dest, s2)"
      "is_live (z_state (uncomp_stream s2))" "uncomp_init s2" "comp_init s2 = comp_init ?s1" "comp_stream s2 = comp_stream ?s1"
      "first_chunk s2 = first_chunk ?s1"
      "avail_in (uncomp_stream s2) = sourceLen - k" "total_in (uncomp_stream s2) = total_in (uncomp_stream ?s1) + k"
      "k \<le> sourceLen" "length out \<le> destLen"
      using inflate_step [OF zl r1(1) dest source, of flush] by blast
    have inv2: "zlib_inv s2" using c(2-6) r1(2,3) by (simp add: zlib_inv_def)
    obtain s3 where s3: "UncompressErrorInit zl s2 = Some s3" "zlib_inv s3" "first_chunk s3"
      using UncompressErrorInit_ok [OF c(2), of zl] c(4,5) r1(3) by metis
    have length': "length (out @ drop (length out) dest) = length dest" using c(10) dest by simp
    have first2: "\<not> first_chunk s2" using c(6) r1(2) by simp
    show ?thesis
    proof (cases "first_chunk s1 \<and> sourceLen = 0")
      case e: True
      with i(1,2) i(5) [OF True] True show ?thesis
        by (auto simp: UncompressAtMostOrAll_def ready_to_inflate_def zlib_inv_def Let_def)
    next
      case ne: False
      note run = UncompressAtMostOrAll_def i(1) uncompress_done_def Let_def
      have in_k: "total_in (uncomp_stream s2) - total_in (uncomp_stream s1) \<le> sourceLen" using c(8,9) r1(4) by simp
      consider (ok) "err = Z_STREAM_END \<or> err = Z_OK" | (bad) "err \<noteq> Z_OK" "err \<noteq> Z_STREAM_END" "err \<noteq> Z_BUF_ERROR"
        | (buf) "err = Z_BUF_ERROR" by blast
      then show ?thesis
      proof cases
        case ok
        with ne c(1,3,7) s3 inv2 length' in_k first2 True show ?thesis by (auto simp: run)
      next
        case bad
        with ne c(1,3,7) s3 inv2 length' in_k first2 True show ?thesis by (auto simp: run)
      next
        case buf
        with ne c(1,3,7) s3 inv2 length' in_k first2 True show ?thesis by (auto simp: run)
      qed
    qed
  qed
qed

lemma UncompressChunkOrAll_ok:
  assumes zl: "zlib_bounded zl" and inv: "zlib_inv s" and len: "destLen < 2 ^ 32" "sourceLen < 2 ^ 32"
    and dest: "destLen \<le> length dest" and source: "sourceLen \<le> length source"
  shows "\<exists>err dl dest' s'. UncompressChunkOrAll zl dest destLen source sourceLen flush s = Some (err, dl, dest', s') \<and>
    zlib_inv s' \<and> length dest' = length dest \<and> (err = Z_OK \<longrightarrow> \<not> first_chunk s' \<and> uncomp_init s')"
proof -
  obtain err dl sl dest' s' where u:
    "UncompressAtMostOrAll zl dest destLen source sourceLen flush s = Some (err, dl, sl, dest', s')"
    "zlib_inv s'" "length dest' = length dest" "err = Z_BUF_ERROR \<Longrightarrow> uncomp_init s'"
    "err = Z_OK \<Longrightarrow> \<not> first_chunk s' \<and> uncomp_init s'"
    using UncompressAtMostOrAll_ok [OF assms] by blast
  show ?thesis
  proof (cases "err = Z_BUF_ERROR")
    case True
    have "is_live (z_state (uncomp_stream s'))" "comp_init s' = is_live (z_state (comp_stream s'))"
      using u(2) u(4) [OF True] by (simp_all add: zlib_inv_def)
    with UncompressErrorInit_ok [OF this, of zl] u(1,3) True show ?thesis by (auto simp: UncompressChunkOrAll_def)
  next
    case False
    with u show ?thesis by (simp add: UncompressChunkOrAll_def)
  qed
qed

lemma UncompressChunkDone_ok:
  assumes zl: "zlib_bounded zl" and inv: "zlib_inv s" and "\<not> first_chunk s"
  shows "\<exists>ok s'. UncompressChunkDone zl s = Some (ok, s') \<and> zlib_inv s' \<and> (ok \<longrightarrow> first_chunk s')"
proof -
  have init: "uncomp_init s" using inv assms(3) by (auto simp: zlib_inv_def)
  obtain err dl dest' s' where u: "UncompressChunkOrAll zl [0] 0 [0] 0 Z_FINISH s = Some (err, dl, dest', s')" "zlib_inv s'"
    using UncompressChunkOrAll_ok [OF zl inv, of 0 0 "[0]" "[0]" Z_FINISH] by auto
  with init assms(3) ZLib_Reset_inv [OF u(2)] show ?thesis
    by (cases "err = Z_OK") (simp_all add: UncompressChunkDone_def ZLib_Reset_def ex_bool_eq)
qed

lemma ZLib_Uncompress_ok:
  assumes zl: "zlib_bounded zl" and inv: "zlib_inv s" and len: "destLen < 2 ^ 32" "sourceLen < 2 ^ 32"
    and dest: "destLen \<le> length dest" and source: "sourceLen \<le> length source"
  shows "\<exists>err dl dest' s'. ZLib_Uncompress zl dest destLen source sourceLen s = Some (err, dl, dest', s') \<and>
    zlib_inv s' \<and> length dest' = length dest"
proof -
  obtain err dl dest' s' where u: "UncompressChunkOrAll zl dest destLen source sourceLen Z_FINISH s = Some (err, dl, dest', s')"
    "zlib_inv s'" "length dest' = length dest" "err = Z_OK \<Longrightarrow> \<not> first_chunk s'"
    using UncompressChunkOrAll_ok [OF assms] by blast
  show ?thesis
  proof (cases "err = Z_OK")
    case False
    with u ZLib_Reset_inv [OF u(2)] show ?thesis by (simp add: ZLib_Uncompress_def)
  next
    case True
    obtain ok s'' where "UncompressChunkDone zl s' = Some (ok, s'')" "zlib_inv s''"
      using UncompressChunkDone_ok [OF zl u(2) u(4) [OF True]] by blast
    with True u show ?thesis by (simp add: ZLib_Uncompress_def)
  qed
qed

section \<open>Any use of an object\<close>

text \<open>The calls that the public part of the class offers\<close>

datatype zlib_call =
    CallCompress bytes nat bytes nat
  | CallUncompress bytes nat bytes nat
  | CallUncompressAtMost bytes nat bytes nat
  | CallUncompressChunkDone
  | CallReset
  | CallReinit

primrec run_zlib_call :: "('c, 'd, 'w) zlib \<Rightarrow> zlib_call \<Rightarrow> ('c, 'd, 'w) ZLib \<Rightarrow> ('c, 'd, 'w) ZLib option" where
  "run_zlib_call zl (CallCompress dest dl source sl) s = map_option (\<lambda>(err, dl, dest, s). s) (ZLib_Compress zl dest dl source sl s)"
| "run_zlib_call zl (CallUncompress dest dl source sl) s =
     map_option (\<lambda>(err, dl, dest, s). s) (ZLib_Uncompress zl dest dl source sl s)"
| "run_zlib_call zl (CallUncompressAtMost dest dl source sl) s =
     map_option (\<lambda>(err, dl, sl, dest, s). s) (UncompressAtMost zl dest dl source sl s)"
| "run_zlib_call zl CallUncompressChunkDone s = map_option snd (UncompressChunkDone zl s)"
| "run_zlib_call zl CallReset s = Some (ZLib_Reset s)"
| "run_zlib_call zl CallReinit s = ZLib_Reinit zl s"

text \<open>
  The rules of use: the lengths are true and below 4 GiB, nothing is compressed in the middle of a
  chunk sequence, and a chunk sequence is finished only when there is one.
\<close>

fun zlib_permitted :: "zlib_call \<Rightarrow> ('c, 'd, 'w) ZLib \<Rightarrow> bool" where
  "zlib_permitted (CallCompress dest dl source sl) s \<longleftrightarrow>
     dl \<le> length dest \<and> sl \<le> length source \<and> dl < 2 ^ 32 \<and> sl < 2 ^ 32 \<and> first_chunk s"
| "zlib_permitted (CallUncompress dest dl source sl) s \<longleftrightarrow> dl \<le> length dest \<and> sl \<le> length source \<and> dl < 2 ^ 32 \<and> sl < 2 ^ 32"
| "zlib_permitted (CallUncompressAtMost dest dl source sl) s \<longleftrightarrow>
     dl \<le> length dest \<and> sl \<le> length source \<and> dl < 2 ^ 32 \<and> sl < 2 ^ 32"
| "zlib_permitted CallUncompressChunkDone s \<longleftrightarrow> \<not> first_chunk s"
| "zlib_permitted CallReset s \<longleftrightarrow> True"
| "zlib_permitted CallReinit s \<longleftrightarrow> True"

inductive zlib_reachable :: "('c, 'd, 'w) zlib \<Rightarrow> ('c, 'd, 'w) ZLib \<Rightarrow> bool" for zl where
  created: "ZLib_new zl w = Some s \<Longrightarrow> zlib_reachable zl s"
| called: "zlib_reachable zl s \<Longrightarrow> zlib_permitted c s \<Longrightarrow> run_zlib_call zl c s = Some s' \<Longrightarrow> zlib_reachable zl s'"

lemma zlib_call_ok:
  assumes "zlib_bounded zl" and "zlib_inv s" and "zlib_permitted c s"
  shows "\<exists>s'. run_zlib_call zl c s = Some s' \<and> zlib_inv s'"
proof (cases c)
  case (CallCompress dest dl source sl)
  with assms ZLib_Compress_ok [OF assms(1,2), of dl sl dest source] show ?thesis by auto
next
  case (CallUncompress dest dl source sl)
  with assms ZLib_Uncompress_ok [OF assms(1,2), of dl sl dest source] show ?thesis by auto
next
  case (CallUncompressAtMost dest dl source sl)
  with assms UncompressAtMostOrAll_ok [OF assms(1,2), of dl sl dest source Z_SYNC_FLUSH] show ?thesis
    by (auto simp: UncompressAtMost_def)
next
  case CallUncompressChunkDone
  with assms UncompressChunkDone_ok [OF assms(1,2)] show ?thesis by auto
next
  case CallReset
  with ZLib_Reset_inv [OF assms(2)] show ?thesis by simp
next
  case CallReinit
  with ZLib_Reinit_ok [OF assms(2), of zl] show ?thesis by auto
qed

lemma zlib_reachable_inv:
  assumes "zlib_bounded zl" and "zlib_reachable zl s"
  shows "zlib_inv s"
  using assms(2)
proof induction
  case (created w s)
  with ZLib_new_ok [of zl w] show ?case by auto
next
  case (called s c s')
  with zlib_call_ok [OF assms(1) called.IH called.hyps(2)] show ?case by auto
qed

text \<open>
  C21: use of a ZLib object. Whatever sequence of calls led to its state, every permitted call
  returns: no stream is used before it was initialised or initialised while it is live, no buffer is
  left, no CHECK fails. The destructor returns too, and leaves no live stream.
\<close>

theorem zlib_object_safe:
  assumes "zlib_bounded zl" and "zlib_reachable zl s"
  shows "(zlib_permitted c s \<longrightarrow> (\<exists>s'. run_zlib_call zl c s = Some s')) \<and>
    (\<exists>s'. ZLib_destroy zl s = Some s' \<and> \<not> is_live (z_state (comp_stream s')) \<and> \<not> is_live (z_state (uncomp_stream s')))"
  using zlib_call_ok [OF assms(1) zlib_reachable_inv [OF assms]] ZLib_destroy_ok [OF zlib_reachable_inv [OF assms]] by blast

section \<open>Round trip\<close>

text \<open>
  What zlib documents of its two halves, as long as memory suffices: with \<open>Z_FINISH\<close>, a fresh
  compressor that does not reach the end has filled the output; when it reaches the end it has
  written a stream from which a fresh decompressor with enough room restores the input in one
  call. A decompressor at the end of its stream says so again when it is asked again.
\<close>

definition at_end :: "('c, 'd, 'w) zlib \<Rightarrow> 'd \<Rightarrow> bool" where
  "at_end zl d \<longleftrightarrow> (\<forall>w. \<exists>d' w'. z_inflate zl Z_FINISH [] 0 d w = (Z_STREAM_END, 0, [], d', w'))"

definition zlib_stream_of :: "('c, 'd, 'w) zlib \<Rightarrow> bytes \<Rightarrow> bytes \<Rightarrow> bool" where
  "zlib_stream_of zl x y \<longleftrightarrow> y \<noteq> [] \<and>
     (\<forall>d n w. fresh_decompressor zl d \<longrightarrow> length x \<le> n \<longrightarrow>
        (\<exists>d' w'. z_inflate zl Z_FINISH y n d w = (Z_STREAM_END, length y, x, d', w') \<and> at_end zl d'))"

definition zlib_round_trips :: "('c, 'd, 'w) zlib \<Rightarrow> bool" where
  "zlib_round_trips zl \<longleftrightarrow> inflate_init_succeeds zl \<and>
     (\<forall>c x n w err k y c' w'. fresh_compressor zl c \<longrightarrow> z_deflate zl Z_FINISH x n c w = (err, k, y, c', w') \<longrightarrow>
        (err = Z_OK \<longrightarrow> length y = n) \<and> (err = Z_STREAM_END \<longrightarrow> k = length x \<longrightarrow> zlib_stream_of zl x y))"

lemma compressed_as_stream:
  assumes "zlib_round_trips zl" and "compressed_as zl n x y"
  shows "zlib_stream_of zl x y \<and> length y < n"
proof -
  obtain c w err k c' w' where "fresh_compressor zl c" "z_deflate zl Z_FINISH x n c w = (err, k, y, c', w')"
    "err = Z_STREAM_END \<and> k = length x \<or> err = Z_OK" and y: "length y < n"
    using assms(2) unfolding compressed_as_def by metis
  moreover from this assms(1) have "err = Z_OK \<longrightarrow> length y = n" "err = Z_STREAM_END \<longrightarrow> k = length x \<longrightarrow> zlib_stream_of zl x y"
    unfolding zlib_round_trips_def by metis+
  ultimately show ?thesis by auto
qed

lemma ChunkDone_at_end:
  assumes "zlib_bounded zl" and "zlib_inv s" "\<not> first_chunk s" and d: "z_state (uncomp_stream s) = Live d" "at_end zl d"
  shows "\<exists>s'. UncompressChunkDone zl s = Some (True, s') \<and> zlib_inv s' \<and> first_chunk s'"
proof -
  let ?s = "s\<lparr>uncomp_stream := (uncomp_stream s)\<lparr>next_in := [0], avail_in := 0, next_out := 0, avail_out := 0\<rparr>\<rparr>"
  have init: "uncomp_init s" using assms(2,3) by (auto simp: zlib_inv_def)
  obtain d' w' where e: "z_inflate zl Z_FINISH [] 0 d (zl_world s) = (Z_STREAM_END, 0, [], d', w')"
    using d(2) unfolding at_end_def by blast
  have i: "UncompressInit zl 0 [0] 0 s = Some (Z_OK, ?s)" using assms(3) by (simp add: UncompressInit_def Let_def)
  have c: "call_inflate zl Z_FINISH [0] ?s =
      Some (Z_STREAM_END, [0], ?s\<lparr>uncomp_stream := advance_stream 0 [] d' (uncomp_stream ?s), zl_world := w'\<rparr>)"
    using d(1) e by (simp add: call_inflate_def Let_def mem_read_def mem_write_def)
  have "UncompressChunkOrAll zl [0] 0 [0] 0 Z_FINISH s =
      Some (Z_OK, 0, [0], ?s\<lparr>uncomp_stream := advance_stream 0 [] d' (uncomp_stream ?s), zl_world := w'\<rparr>)"
    using assms(3) by (simp add: UncompressChunkOrAll_def UncompressAtMostOrAll_def i c advance_stream_def uncompress_done_def Let_def)
  then show ?thesis
    using init assms(2,3) by (auto simp: UncompressChunkDone_def ZLib_Reset_def zlib_inv_def advance_stream_def)
qed

lemma Uncompress_stream:
  assumes zl: "zlib_bounded zl" "inflate_init_succeeds zl" and inv: "zlib_inv s" "first_chunk s"
    and y: "zlib_stream_of zl x (take sourceLen source)" "sourceLen \<le> length source" "sourceLen < 2 ^ 32"
    and dest: "destLen \<le> length dest" "destLen < 2 ^ 32" "length x \<le> destLen"
  shows "\<exists>s'. ZLib_Uncompress zl dest destLen source sourceLen s = Some (Z_OK, length x, x @ drop (length x) dest, s') \<and>
    zlib_inv s' \<and> first_chunk s'"
proof -
  obtain s1 where i: "UncompressInit zl destLen source sourceLen s = Some (Z_OK, s1)" "zlib_inv s1" "first_chunk s1"
    "ready_to_inflate destLen source sourceLen s1" "fresh_stream zl s1"
    using UncompressInit_ok [OF zl(1) inv(1) dest(2) y(3)] zl(2) inv(2) by auto
  let ?s1 = "s1\<lparr>first_chunk := False\<rparr>"
  have ready: "ready_to_inflate destLen source sourceLen ?s1" using i(4) by (simp add: ready_to_inflate_def)
  obtain d where d: "z_state (uncomp_stream s1) = Live d" "fresh_decompressor zl d" "total_in (uncomp_stream s1) = 0"
    "total_out (uncomp_stream s1) = 0" using i(5) by (auto simp: fresh_stream_def Let_def)
  obtain d' w' where e: "z_inflate zl Z_FINISH (take sourceLen source) destLen d (zl_world s1) =
      (Z_STREAM_END, length (take sourceLen source), x, d', w')" "at_end zl d'"
    using y(1) d(2) dest(3) unfolding zlib_stream_of_def by blast
  from inflate_step [OF zl(1) ready dest(1) y(2), of Z_FINISH] d(1) e(1) y(2) obtain s2 where
    c: "call_inflate zl Z_FINISH dest ?s1 = Some (Z_STREAM_END, x @ drop (length x) dest, s2)"
      "is_live (z_state (uncomp_stream s2))" "uncomp_init s2" "comp_init s2 = comp_init s1" "comp_stream s2 = comp_stream s1"
      "\<not> first_chunk s2" "avail_in (uncomp_stream s2) = 0" "total_in (uncomp_stream s2) = sourceLen"
      "total_out (uncomp_stream s2) = length x" "z_state (uncomp_stream s2) = Live d'"
    using d(3,4) by auto
  have "0 < sourceLen" using y(1) by (auto simp: zlib_stream_of_def)
  then have u: "UncompressChunkOrAll zl dest destLen source sourceLen Z_FINISH s = Some (Z_OK, length x, x @ drop (length x) dest, s2)"
    using i(3) c(1,7-9) d(3,4) by (simp add: UncompressChunkOrAll_def UncompressAtMostOrAll_def i(1) uncompress_done_def Let_def)
  have "zlib_inv s2" using c(2-6) i(2) by (simp add: zlib_inv_def)
  from ChunkDone_at_end [OF zl(1) this c(6,10) e(2)] u show ?thesis by (auto simp: ZLib_Uncompress_def)
qed

lemma int_size: "n < 2 ^ 31 \<Longrightarrow> unat (scast (of_nat n :: 32 word) :: 64 word) = n"
proof -
  assume n: "n < 2 ^ 31"
  have "signed_take_bit 31 (int n) = int n"
    by (rule signed_take_bit_int_eq_self) (use n in simp_all)
  then have "sint (of_nat n :: 32 word) = int n" by (simp add: signed_of_nat)
  then have "scast (of_nat n :: 32 word) = (of_nat n :: 64 word)" by (metis of_int_of_nat_eq of_int_sint)
  then show ?thesis using n by (simp add: unat_of_nat)
qed

lemma Compress_stream:
  assumes zl: "zlib_bounded zl" "zlib_round_trips zl"
    and s: "zlib_inv s" "zlib_permitted (CallCompress dest destLen source sourceLen) s" "destLen < 2 ^ 31"
    and comp: "ZLib_Compress zl dest destLen source sourceLen s = Some (Z_OK, n, dest', s')"
  shows "n < destLen" and "n \<le> length dest'" and "zlib_stream_of zl (take sourceLen source) (take n dest')"
    and "zlib_inv s'"
proof -
  have p: "destLen \<le> length dest" "sourceLen \<le> length source" "destLen < 2 ^ 32" "sourceLen < 2 ^ 32" "first_chunk s"
    using s(2) by simp_all
  let ?x = "take sourceLen source"
  from ZLib_Compress_ok [OF zl(1) s(1) p(5,3,4,1,2)] comp obtain y where
    y: "compressed_as zl destLen ?x y" "dest' = y @ drop (length y) dest" "n = unat (scast (of_nat (length y) :: 32 word) :: 64 word)"
      "zlib_inv s'"
    by auto
  from compressed_as_stream [OF zl(2) y(1)] have st: "zlib_stream_of zl ?x y" "length y < destLen" by simp_all
  then have n: "n = length y" using y(3) s(3) by (simp only: int_size)
  with y st show "n < destLen" "n \<le> length dest'" "zlib_stream_of zl ?x (take n dest')" "zlib_inv s'" by simp_all
qed

lemma zlib_round_trip_ok:
  assumes zl: "zlib_bounded zl" "zlib_round_trips zl"
    and s: "zlib_reachable zl s" "zlib_permitted (CallCompress dest destLen source sourceLen) s" "destLen < 2 ^ 31"
    and comp: "ZLib_Compress zl dest destLen source sourceLen s = Some (Z_OK, n, dest', s')"
    and t: "zlib_reachable zl t" "first_chunk t" and out: "sourceLen \<le> room" "room \<le> length out" "room < 2 ^ 32"
  shows "n < destLen \<and> (\<exists>t'. ZLib_Uncompress zl out room dest' n t =
    Some (Z_OK, sourceLen, take sourceLen source @ drop sourceLen out, t'))"
proof -
  have p: "sourceLen \<le> length source" using s(2) by simp
  note st = Compress_stream [OF zl zlib_reachable_inv [OF zl(1) s(1)] s(2,3) comp]
  have "n < 2 ^ 32" using st(1) s(3) by simp
  moreover have "length (take sourceLen source) \<le> room" using out(1) p by simp
  moreover have "inflate_init_succeeds zl" using zl(2) by (simp add: zlib_round_trips_def)
  ultimately show ?thesis
    using Uncompress_stream [OF zl(1) _ zlib_reachable_inv [OF zl(1) t(1)] t(2) st(3,2), of room out] out p st(1)
    by (auto simp: min_absorb1 min_absorb2)
qed

text \<open>
  C22: round trip. When Compress into a buffer of less than 2 GiB (it keeps the number of bytes written in an int)
  returned Z_OK, the output buffer was strictly larger than the compressed string, and Uncompress of that string, by the same or any other object that is not in the
  middle of a chunk sequence, into any buffer that has room, returns Z_OK, the length of the input and the
  input.
\<close>

theorem zlib_round_trip:
  assumes "zlib_bounded zl" "zlib_round_trips zl"
    and "zlib_reachable zl s" "zlib_permitted (CallCompress dest destLen source sourceLen) s" "destLen < 2 ^ 31"
    and "ZLib_Compress zl dest destLen source sourceLen s = Some (Z_OK, n, dest', s')"
    and "zlib_reachable zl t" "first_chunk t" and "sourceLen \<le> room" "room \<le> length out" "room < 2 ^ 32"
  shows "n < destLen \<and> (\<exists>t'. ZLib_Uncompress zl out room dest' n t =
    Some (Z_OK, sourceLen, take sourceLen source @ drop sourceLen out, t'))"
  by (rule zlib_round_trip_ok [OF assms])

section \<open>A library that keeps the contract\<close>

text \<open>It compresses nothing: every byte is marked, and the end too. It stands for no code of the repository.\<close>

fun frame :: "bytes \<Rightarrow> bytes" where
  "frame [] = [0]"
| "frame (b # bs) = 1 # b # frame bs"

fun unframe :: "bytes \<Rightarrow> (bytes \<times> nat) option" where
  "unframe (m # bs) =
     (if m = 0 then Some ([], 1)
      else case bs of
        [] \<Rightarrow> None
      | b # bs \<Rightarrow> (case unframe bs of None \<Rightarrow> None | Some (x, n) \<Rightarrow> Some (b # x, n + 2)))"
| "unframe [] = None"

lemma unframe_frame: "unframe (frame x) = Some (x, length (frame x))"
  by (induction x) simp_all

lemma unframe_bound: "unframe y = Some (x, n) \<Longrightarrow> n \<le> length y"
  by (induction y arbitrary: x n rule: unframe.induct) (fastforce split: if_splits list.splits option.splits)+

definition framing_zlib :: "(unit, bool, unit) zlib" where
  "framing_zlib =
     \<lparr>z_deflateInit2 = \<lambda>l b m w. (Z_OK, (), w), z_deflateReset = \<lambda>c w. (Z_OK, c, w), z_deflateEnd = \<lambda>c w. w,
      z_deflate = \<lambda>f x n c w.
        (if length (frame x) \<le> n then (Z_STREAM_END, length x, frame x, c, w) else (Z_OK, 0, replicate n 0, c, w)),
      z_inflateInit2 = \<lambda>b w. (Z_OK, False, w), z_inflateReset = \<lambda>d w. (Z_OK, False, w), z_inflateEnd = \<lambda>d w. w,
      z_inflate = \<lambda>f y n d w.
        (if d then (if y = [] then Z_STREAM_END else Z_DATA_ERROR, 0, [], d, w)
         else case unframe y of
             None \<Rightarrow> (Z_DATA_ERROR, 0, [], d, w)
           | Some (x, k) \<Rightarrow> if length x \<le> n then (Z_STREAM_END, k, x, True, w) else (Z_BUF_ERROR, 0, [], d, w))\<rparr>"

lemma framing_bounded: "zlib_bounded framing_zlib"
  by (auto simp: zlib_bounded_def framing_zlib_def dest!: unframe_bound split: if_splits option.splits)

lemma framing_round_trips: "zlib_round_trips framing_zlib"
proof -
  have "fresh_decompressor framing_zlib d \<Longrightarrow> \<not> d" for d
    by (auto simp: fresh_decompressor_def framing_zlib_def)
  moreover have "at_end framing_zlib True" by (simp add: at_end_def framing_zlib_def ex_bool_eq)
  ultimately have "zlib_stream_of framing_zlib x (frame x)" for x
    by (cases x) (auto simp: zlib_stream_of_def framing_zlib_def unframe_frame simp del: frame.simps unframe.simps, simp_all)
  then show ?thesis
    by (auto simp: zlib_round_trips_def inflate_init_succeeds_def framing_zlib_def split: if_splits)
qed

definition framing_object :: "(unit, bool, unit) ZLib" where
  "framing_object = \<lparr>compression_level = - 1, window_bits = 15, mem_level = 8, comp_stream = unset_stream, comp_init = False,
     uncomp_stream = unset_stream, uncomp_init = False, first_chunk = True, zl_world = ()\<rparr>"

lemma framing_new: "ZLib_new framing_zlib () = Some framing_object"
  by (simp add: ZLib_new_def ZLib_Reinit_def framing_object_def)

lemma framing_reachable: "zlib_reachable framing_zlib framing_object"
  by (rule zlib_reachable.created [OF framing_new])

theorem zlib_object_safe_witness:
  "\<exists>s'. run_zlib_call framing_zlib (CallCompress [0, 0, 0, 0] 4 [7] 1) framing_object = Some s'"
proof -
  have "zlib_permitted (CallCompress [0, 0, 0, 0] 4 [7] 1) framing_object" by (simp add: framing_object_def)
  with zlib_object_safe [OF framing_bounded framing_reachable, of "CallCompress [0, 0, 0, 0] 4 [7] 1"] show ?thesis by auto
qed

theorem zlib_round_trip_witness:
  "\<exists>t'. ZLib_Uncompress framing_zlib [9, 9] 2 [1, 7, 0, 0] 3 framing_object = Some (Z_OK, 1, [7, 9], t')"
proof -
  have p: "zlib_permitted (CallCompress [0, 0, 0, 0] 4 [7] 1) framing_object" by (simp add: framing_object_def)
  have c: "map_option (\<lambda>(err, n, dest, s). (err, n, dest)) (ZLib_Compress framing_zlib [0, 0, 0, 0] 4 [7] 1 framing_object) =
    Some (Z_OK, 3, [1, 7, 0, 0])"
    by (simp add: framing_zlib_def framing_object_def unset_stream_def ZLib_Compress_def CompressChunkOrAll_def
        CompressAtMostOrAll_def CompressInit_def deflate_init_def call_deflate_def mem_read_def mem_write_def
        advance_stream_def compress_done_def Let_def)
  then obtain s' where "ZLib_Compress framing_zlib [0, 0, 0, 0] 4 [7] 1 framing_object = Some (Z_OK, 3, [1, 7, 0, 0], s')" by auto
  from zlib_round_trip [OF framing_bounded framing_round_trips framing_reachable p _ this framing_reachable, of 2 "[9, 9]"]
  show ?thesis by (simp add: framing_object_def)
qed

section \<open>Outside the rules\<close>

lemma CompressErrorInit_unset: "z_state (comp_stream s) = Unset \<Longrightarrow> CompressErrorInit zl s = None"
  by (simp add: CompressErrorInit_def deflate_end_def)

lemma UncompressErrorInit_unset: "z_state (uncomp_stream s) = Unset \<Longrightarrow> UncompressErrorInit zl s = None"
  by (simp add: UncompressErrorInit_def inflate_end_def)

text \<open>
  The rules of use are needed. On a new object, whatever the library, an input of 4 GiB or more makes
  Compress and Uncompress end a stream that was never initialised. After a call of UncompressAtMost,
  Compress runs on a stream that was never initialised.
\<close>

theorem zlib_uninitialised:
  assumes "ZLib_new zl w = Some s" and "2 ^ 32 \<le> sourceLen"
  shows "ZLib_Compress zl dest destLen source sourceLen s = None \<and>
    ZLib_Uncompress zl dest destLen source sourceLen s = None \<and>
    (\<exists>s1. run_zlib_call framing_zlib (CallUncompressAtMost [0, 0] 2 [1, 7, 0] 3) framing_object = Some s1 \<and>
       run_zlib_call framing_zlib (CallCompress [0, 0, 0, 0] 4 [7] 1) s1 = None)"
proof -
  have s: "z_state (comp_stream s) = Unset" "z_state (uncomp_stream s) = Unset"
    using assms(1) by (auto simp: ZLib_new_def ZLib_Reinit_def unset_stream_def)
  have "sourceLen mod 2 ^ 32 < 2 ^ 32" by simp
  with assms(2) have "sourceLen mod 2 ^ 32 \<noteq> sourceLen" by (metis leD)
  then have "ZLib_Compress zl dest destLen source sourceLen s = None" "ZLib_Uncompress zl dest destLen source sourceLen s = None"
    using s by (simp_all add: ZLib_Compress_def CompressChunkOrAll_def CompressAtMostOrAll_def CompressInit_def
        CompressErrorInit_unset ZLib_Uncompress_def UncompressChunkOrAll_def UncompressAtMostOrAll_def UncompressInit_def
        UncompressErrorInit_unset Let_def)
  moreover have "case run_zlib_call framing_zlib (CallUncompressAtMost [0, 0] 2 [1, 7, 0] 3) framing_object of
      None \<Rightarrow> False | Some s1 \<Rightarrow> run_zlib_call framing_zlib (CallCompress [0, 0, 0, 0] 4 [7] 1) s1 = None"
    by (simp add: UncompressAtMost_def UncompressAtMostOrAll_def UncompressInit_def inflate_init_def framing_zlib_def
        framing_object_def unset_stream_def call_inflate_def mem_read_def mem_write_def advance_stream_def uncompress_done_def
        ZLib_Compress_def CompressChunkOrAll_def CompressAtMostOrAll_def CompressInit_def call_deflate_def Let_def)
  ultimately show ?thesis by (auto split: option.splits)
qed

theorem zlib_uninitialised_witness:
  "ZLib_Compress framing_zlib [] 0 [] (2 ^ 32) framing_object = None"
  using zlib_uninitialised [OF framing_new, of "2 ^ 32"] by simp

end
