(* ===== verification/SnappyCodecs.thy ===== *)
theory SnappyCodecs
  imports SnappyUnitTests ZLibSpec "HOL-Library.Log_Nat"
begin

text \<open>
  The compression libraries that the test program of Snappy compares (\<open>Compress\<close>, \<open>Uncompress\<close>
  and \<open>Measure\<close> of \<open>snappy_unittest.cc\<close>). The other libraries are not part of the repository:
  each is a parameter that may be missing, as they are when they are not compiled in. \<open>None\<close> is a failed
  \<open>CHECK\<close>, a fatal log entry, an exception or an access outside a buffer.
\<close>

section \<open>Libraries\<close>

datatype CompressorType = ZLIB | LZO | LIBLZF | QUICKLZ | FASTLZ | SNAPPY

text \<open>
  The functions return their code and the bytes they write from the start of the output. Those of
  liblzf and FastLZ that know the room for output get it as an argument.
\<close>

record lzo_library =
  lzo1x_1_15_compress :: "bytes \<Rightarrow> int \<times> bytes"
  lzo1x_decompress :: "bytes \<Rightarrow> int \<times> bytes"

record lzf_library =
  lzf_compress :: "bytes \<Rightarrow> nat \<Rightarrow> int \<times> bytes"
  lzf_decompress :: "bytes \<Rightarrow> nat \<Rightarrow> int \<times> bytes"

record qlz_library =
  qlz_compress :: "bytes \<Rightarrow> int \<times> bytes"
  qlz_decompress :: "bytes \<Rightarrow> int \<times> bytes"

record fastlz_library =
  fastlz_compress_level :: "nat \<Rightarrow> bytes \<Rightarrow> int \<times> bytes"
  fastlz_decompress :: "bytes \<Rightarrow> nat \<Rightarrow> int \<times> bytes"

record ('c, 'd, 'w) libraries =
  lib_zlib :: "('c, 'd, 'w) zlib option"
  lib_lzo :: "lzo_library option"
  lib_lzf :: "lzf_library option"
  lib_qlz :: "qlz_library option"
  lib_fastlz :: "fastlz_library option"

section \<open>Room for output\<close>

text \<open>
  A \<open>double\<close> has 53 bits: \<open>round53 n\<close> is the one next to \<open>n\<close>, ties to even. The literal \<open>1.05\<close> is
  4728779608739021 / 2^52. A conversion to \<open>int\<close> that does not fit is undefined.
\<close>

definition round53 :: "nat \<Rightarrow> nat" where
  "round53 n =
     (if n < 2 ^ 53 then n
      else
        let e = floorlog 2 n - 53; q = n div 2 ^ e; r = n mod 2 ^ e
        in (if 2 ^ e < 2 * r \<or> 2 * r = 2 ^ e \<and> odd q then q + 1 else q) * 2 ^ e)"

definition fastlz_space :: "nat \<Rightarrow> nat option" where
  "fastlz_space n =
     (let c = (round53 (round53 n * 4728779608739021) + 2 ^ 52 - 1) div 2 ^ 52
      in if c < 2 ^ 31 then Some (max c 66) else None)"

text \<open>The conversion of a \<open>size_t\<close> to \<open>int\<close>\<close>

definition int_of_size :: "nat \<Rightarrow> int" where
  "int_of_size n = sint (of_nat n :: 32 word)"

definition MinimumRequiredOutputSpace :: "('c, 'd, 'w) libraries \<Rightarrow> nat \<Rightarrow> CompressorType \<Rightarrow> nat option" where
  "MinimumRequiredOutputSpace libs input_size ctype =
     (case ctype of
        ZLIB \<Rightarrow>
          (case lib_zlib libs of None \<Rightarrow> None
           | Some _ \<Rightarrow> map_option (\<lambda>n. nat (n mod 2 ^ 64)) (MinCompressbufSize (int_of_size input_size)))
      | LZO \<Rightarrow> map_option (\<lambda>_. (input_size + input_size div 64 + 16 + 3) mod 2 ^ 64) (lib_lzo libs)
      | LIBLZF \<Rightarrow> map_option (\<lambda>_. input_size) (lib_lzf libs)
      | QUICKLZ \<Rightarrow> map_option (\<lambda>_. (input_size + 36000) mod 2 ^ 64) (lib_qlz libs)
      | FASTLZ \<Rightarrow> (case lib_fastlz libs of None \<Rightarrow> None | Some _ \<Rightarrow> fastlz_space input_size)
      | SNAPPY \<Rightarrow> Some (MaxCompressedLength input_size))"

section \<open>Compress and Uncompress\<close>

text \<open>A size of type \<open>int\<close>; a negative one is an exception.\<close>

definition resize_int :: "bytes \<Rightarrow> int \<Rightarrow> bytes option" where
  "resize_int s n = (if n < 0 then None else Some (string_resize s (nat n)))"

definition unless_preallocated :: "bool \<Rightarrow> bytes \<Rightarrow> int \<Rightarrow> bytes option" where
  "unless_preallocated preallocated compressed destlen =
     (if preallocated then Some compressed else resize_int compressed destlen)"

definition compress_zlib ::
  "('c, 'd, 'w) zlib \<Rightarrow> bytes \<Rightarrow> bytes \<Rightarrow> bool \<Rightarrow> 'w \<Rightarrow> (bytes \<times> 'w) option" where
  "compress_zlib zl input compressed preallocated w =
     do {
       zlib \<leftarrow> ZLib_new zl w;
       (ret, destlen, compressed, zlib) \<leftarrow> ZLib_Compress zl compressed (length compressed) input (length input) zlib;
       assert_that (ret = Z_OK);
       zlib \<leftarrow> ZLib_destroy zl zlib;
       Some (if preallocated then compressed else string_resize compressed destlen, zl_world zlib)
     }"

definition compress_lzo :: "lzo_library \<Rightarrow> bytes \<Rightarrow> bytes \<Rightarrow> bool \<Rightarrow> bytes option" where
  "compress_lzo lib input compressed preallocated =
     do {
       let (ret, out) = lzo1x_1_15_compress lib input;
       compressed \<leftarrow> mem_write compressed 0 out;
       assert_that (ret = 0);
       Some (if preallocated then compressed else string_resize compressed (length out))
     }"

definition compress_lzf :: "lzf_library \<Rightarrow> bytes \<Rightarrow> bytes \<Rightarrow> bool \<Rightarrow> bytes option" where
  "compress_lzf lib input compressed preallocated =
     do {
       let (destlen, out) = lzf_compress lib input (length input);
       compressed \<leftarrow> mem_write compressed 0 out;
       let (compressed, destlen) =
         (if destlen = 0 then (input, int_of_size (length input)) else (compressed, destlen));
       unless_preallocated preallocated compressed destlen
     }"

definition compress_qlz :: "qlz_library \<Rightarrow> bytes \<Rightarrow> bytes \<Rightarrow> bool \<Rightarrow> bytes option" where
  "compress_qlz lib input compressed preallocated =
     do {
       let (destlen, out) = qlz_compress lib input;
       compressed \<leftarrow> mem_write compressed 0 out;
       assert_that (destlen \<noteq> 0);
       unless_preallocated preallocated compressed destlen
     }"

definition compress_fastlz :: "fastlz_library \<Rightarrow> bytes \<Rightarrow> bytes \<Rightarrow> bool \<Rightarrow> bytes option" where
  "compress_fastlz lib input compressed preallocated =
     do {
       let (destlen, out) = fastlz_compress_level lib 1 input;
       compressed \<leftarrow> mem_write compressed 0 out;
       compressed \<leftarrow> unless_preallocated preallocated compressed destlen;
       assert_that (destlen \<noteq> 0);
       Some compressed
     }"

definition compress_snappy :: "test_memory \<Rightarrow> bytes \<Rightarrow> bytes \<Rightarrow> bool \<Rightarrow> bytes option" where
  "compress_snappy tm input compressed preallocated =
     do {
       (compressed, destlen) \<leftarrow> RawCompress (tm_new tm) (tm_small tm) (tm_large tm) input compressed;
       assert_that (destlen \<le> MaxCompressedLength (length input));
       Some (if preallocated then compressed else string_resize compressed destlen)
     }"

text \<open>
  \<open>Compress\<close>: the returned flag, the string, and what the libraries depend on afterwards. A
  string that is not preallocated is resized first, which a library that was not compiled in does
  not survive.
\<close>

definition Compress_with ::
  "('c, 'd, 'w) libraries \<Rightarrow> test_memory \<Rightarrow> bytes \<Rightarrow> CompressorType \<Rightarrow> bytes \<Rightarrow> bool \<Rightarrow> 'w \<Rightarrow>
    (bool \<times> bytes \<times> 'w) option" where
  "Compress_with libs tm input ctype compressed preallocated w =
     do {
       compressed \<leftarrow> (if preallocated then Some compressed
          else map_option (string_resize compressed) (MinimumRequiredOutputSpace libs (length input) ctype));
       let not_compiled_in = Some (False, compressed, w);
       let returned = map_option (\<lambda>compressed. (True, compressed, w));
       (case ctype of
          ZLIB \<Rightarrow> (case lib_zlib libs of None \<Rightarrow> not_compiled_in
                   | Some lib \<Rightarrow> map_option (Pair True) (compress_zlib lib input compressed preallocated w))
        | LZO \<Rightarrow> (case lib_lzo libs of None \<Rightarrow> not_compiled_in
                  | Some lib \<Rightarrow> returned (compress_lzo lib input compressed preallocated))
        | LIBLZF \<Rightarrow> (case lib_lzf libs of None \<Rightarrow> not_compiled_in
                     | Some lib \<Rightarrow> returned (compress_lzf lib input compressed preallocated))
        | QUICKLZ \<Rightarrow> (case lib_qlz libs of None \<Rightarrow> not_compiled_in
                      | Some lib \<Rightarrow> returned (compress_qlz lib input compressed preallocated))
        | FASTLZ \<Rightarrow> (case lib_fastlz libs of None \<Rightarrow> not_compiled_in
                     | Some lib \<Rightarrow> returned (compress_fastlz lib input compressed preallocated))
        | SNAPPY \<Rightarrow> returned (compress_snappy tm input compressed preallocated))
     }"

definition uncompress_zlib :: "('c, 'd, 'w) zlib \<Rightarrow> bytes \<Rightarrow> int \<Rightarrow> bytes \<Rightarrow> 'w \<Rightarrow> (bytes \<times> 'w) option" where
  "uncompress_zlib zl compressed sz out w =
     do {
       out \<leftarrow> resize_int out sz;
       zlib \<leftarrow> ZLib_new zl w;
       (ret, destlen, out, zlib) \<leftarrow> ZLib_Uncompress zl out (length out) compressed (length compressed) zlib;
       assert_that (ret = Z_OK);
       assert_that (nat sz = destlen);
       zlib \<leftarrow> ZLib_destroy zl zlib;
       Some (out, zl_world zlib)
     }"

definition uncompress_lzo :: "lzo_library \<Rightarrow> bytes \<Rightarrow> int \<Rightarrow> bytes \<Rightarrow> bytes option" where
  "uncompress_lzo lib compressed sz out =
     do {
       out \<leftarrow> resize_int out sz;
       let (ret, written) = lzo1x_decompress lib compressed;
       out \<leftarrow> mem_write out 0 written;
       assert_that (ret = 0);
       assert_that (nat sz = length written);
       Some out
     }"

definition uncompress_lzf :: "lzf_library \<Rightarrow> bytes \<Rightarrow> int \<Rightarrow> bytes \<Rightarrow> bytes option" where
  "uncompress_lzf lib compressed sz out =
     do {
       out \<leftarrow> resize_int out sz;
       let (destlen, written) = lzf_decompress lib compressed (length out);
       out \<leftarrow> mem_write out 0 written;
       let (out, destlen) =
         (if destlen = 0 then (compressed, int_of_size (length compressed)) else (out, destlen));
       assert_that (destlen = sz);
       Some out
     }"

definition uncompress_qlz :: "qlz_library \<Rightarrow> bytes \<Rightarrow> int \<Rightarrow> bytes \<Rightarrow> bytes option" where
  "uncompress_qlz lib compressed sz out =
     do {
       out \<leftarrow> resize_int out sz;
       let (destlen, written) = qlz_decompress lib compressed;
       out \<leftarrow> mem_write out 0 written;
       assert_that (destlen = sz);
       Some out
     }"

definition uncompress_fastlz :: "fastlz_library \<Rightarrow> bytes \<Rightarrow> int \<Rightarrow> bytes \<Rightarrow> bytes option" where
  "uncompress_fastlz lib compressed sz out =
     do {
       out \<leftarrow> resize_int out sz;
       let (destlen, written) = fastlz_decompress lib compressed (nat sz);
       out \<leftarrow> mem_write out 0 written;
       assert_that (destlen = sz);
       Some out
     }"

text \<open>The branch of Snappy neither resizes the output nor looks at the result.\<close>

definition Uncompress_with ::
  "('c, 'd, 'w) libraries \<Rightarrow> test_memory \<Rightarrow> bytes \<Rightarrow> CompressorType \<Rightarrow> int \<Rightarrow> bytes \<Rightarrow> 'w \<Rightarrow>
    (bool \<times> bytes \<times> 'w) option" where
  "Uncompress_with libs tm compressed ctype sz out w =
     (let not_compiled_in = Some (False, out, w);
          returned = map_option (\<lambda>out. (True, out, w))
      in case ctype of
          ZLIB \<Rightarrow> (case lib_zlib libs of None \<Rightarrow> not_compiled_in
                   | Some lib \<Rightarrow> map_option (Pair True) (uncompress_zlib lib compressed sz out w))
        | LZO \<Rightarrow> (case lib_lzo libs of None \<Rightarrow> not_compiled_in
                  | Some lib \<Rightarrow> returned (uncompress_lzo lib compressed sz out))
        | LIBLZF \<Rightarrow> (case lib_lzf libs of None \<Rightarrow> not_compiled_in
                     | Some lib \<Rightarrow> returned (uncompress_lzf lib compressed sz out))
        | QUICKLZ \<Rightarrow> (case lib_qlz libs of None \<Rightarrow> not_compiled_in
                      | Some lib \<Rightarrow> returned (uncompress_qlz lib compressed sz out))
        | FASTLZ \<Rightarrow> (case lib_fastlz libs of None \<Rightarrow> not_compiled_in
                     | Some lib \<Rightarrow> returned (uncompress_fastlz lib compressed sz out))
        | SNAPPY \<Rightarrow> returned (map_option snd (RawUncompress (tm_scratch tm) compressed out)))"

section \<open>Measure\<close>

text \<open>
  The clocks and the printed rates are left out. The input is chopped into blocks, with positions
  of type \<open>int\<close>.
\<close>

definition measure_block :: "bytes \<Rightarrow> nat \<Rightarrow> nat \<Rightarrow> nat \<Rightarrow> bytes option" where
  "measure_block data len block_size b =
     do {
       assert_that ((b + 1) * block_size < 2 ^ 31);
       let input_start = b * block_size;
       let input_limit = min (int ((b + 1) * block_size)) (int_of_size len);
       mem_read data input_start (nat ((input_limit - int input_start) mod 2 ^ 64))
     }"

definition number_of_blocks :: "nat \<Rightarrow> nat \<Rightarrow> int" where
  "number_of_blocks len block_size = int_of_size ((len + block_size - 1) mod 2 ^ 64 div block_size)"

text \<open>Every block is compressed \<open>n\<close> times in a row; the blocks are uncompressed in turn, \<open>n\<close> times.\<close>

fun compress_times ::
  "nat \<Rightarrow> ('c, 'd, 'w) libraries \<Rightarrow> test_memory \<Rightarrow> bytes \<Rightarrow> CompressorType \<Rightarrow> bytes \<Rightarrow> bool \<Rightarrow> 'w \<Rightarrow> (bytes \<times> 'w) option" where
  "compress_times 0 libs tm input ctype compressed preallocated w = Some (compressed, w)"
| "compress_times (Suc n) libs tm input ctype compressed preallocated w =
     do {
       (ok, compressed, w) \<leftarrow> Compress_with libs tm input ctype compressed preallocated w;
       compress_times n libs tm input ctype compressed preallocated w
     }"

fun compress_blocks ::
  "nat \<Rightarrow> ('c, 'd, 'w) libraries \<Rightarrow> test_memory \<Rightarrow> CompressorType \<Rightarrow> bool \<Rightarrow> bytes list \<Rightarrow> bytes list \<Rightarrow> 'w \<Rightarrow>
    (bytes list \<times> 'w) option" where
  "compress_blocks n libs tm ctype preallocated (input # inputs) (c # cs) w =
     do {
       (c, w) \<leftarrow> compress_times n libs tm input ctype c preallocated w;
       (cs, w) \<leftarrow> compress_blocks n libs tm ctype preallocated inputs cs w;
       Some (c # cs, w)
     }"
| "compress_blocks n libs tm ctype preallocated inputs cs w = Some (cs, w)"

fun uncompress_blocks ::
  "('c, 'd, 'w) libraries \<Rightarrow> test_memory \<Rightarrow> CompressorType \<Rightarrow> bytes list \<Rightarrow> bytes list \<Rightarrow> bytes list \<Rightarrow> 'w \<Rightarrow>
    (bytes list \<times> 'w) option" where
  "uncompress_blocks libs tm ctype (input # inputs) (c # cs) (out # outs) w =
     do {
       (ok, out, w) \<leftarrow> Uncompress_with libs tm c ctype (int_of_size (length input)) out w;
       (outs, w) \<leftarrow> uncompress_blocks libs tm ctype inputs cs outs w;
       Some (out # outs, w)
     }"
| "uncompress_blocks libs tm ctype inputs cs outs w = Some (outs, w)"

fun uncompress_times ::
  "nat \<Rightarrow> ('c, 'd, 'w) libraries \<Rightarrow> test_memory \<Rightarrow> CompressorType \<Rightarrow> bytes list \<Rightarrow> bytes list \<Rightarrow> bytes list \<Rightarrow> 'w \<Rightarrow>
    (bytes list \<times> 'w) option" where
  "uncompress_times 0 libs tm ctype inputs cs outs w = Some (outs, w)"
| "uncompress_times (Suc n) libs tm ctype inputs cs outs w =
     do {
       (outs, w) \<leftarrow> uncompress_blocks libs tm ctype inputs cs outs w;
       uncompress_times n libs tm ctype inputs cs outs w
     }"

fun measure_runs ::
  "nat \<Rightarrow> ('c, 'd, 'w) libraries \<Rightarrow> test_memory \<Rightarrow> CompressorType \<Rightarrow> nat \<Rightarrow> nat \<Rightarrow> bytes list \<Rightarrow> bytes list \<Rightarrow> bytes list \<Rightarrow> 'w \<Rightarrow>
    (bytes list \<times> bytes list \<times> 'w) option" where
  "measure_runs 0 libs tm ctype repeats block_size inputs cs outs w = Some (cs, outs, w)"
| "measure_runs (Suc run) libs tm ctype repeats block_size inputs cs outs w =
     do {
       space \<leftarrow> MinimumRequiredOutputSpace libs block_size ctype;
       let cs = map (\<lambda>c. string_resize c space) cs;
       (cs, w) \<leftarrow> compress_blocks repeats libs tm ctype True inputs cs w;
       (cs, w) \<leftarrow> compress_blocks 1 libs tm ctype False inputs cs w;
       let outs = map2 (\<lambda>out input. string_resize out (length input)) outs inputs;
       (outs, w) \<leftarrow> uncompress_times repeats libs tm ctype inputs cs outs w;
       measure_runs run libs tm ctype repeats block_size inputs cs outs w
     }"

definition kRuns :: nat where
  "kRuns = 5"

text \<open>
  The result is \<open>None\<close> when the library is skipped, otherwise the printed size and the strings. On an empty
  vector \<open>input[0]\<close> is out of range.
\<close>

definition Measure ::
  "('c, 'd, 'w) libraries \<Rightarrow> test_memory \<Rightarrow> bytes \<Rightarrow> nat \<Rightarrow> CompressorType \<Rightarrow> nat \<Rightarrow> nat \<Rightarrow> 'w \<Rightarrow>
    ((32 word \<times> bytes list \<times> bytes list) option \<times> 'w) option" where
  "Measure libs tm data len ctype repeats block_size w =
     do {
       let num_blocks = number_of_blocks len block_size;
       assert_that (0 \<le> num_blocks);
       inputs \<leftarrow> those (map (measure_block data len block_size) [0..<nat num_blocks]);
       cs \<leftarrow> those (map (\<lambda>b. map_option (string_resize []) (MinimumRequiredOutputSpace libs block_size ctype))
                    [0..<nat num_blocks]);
       assert_that (inputs \<noteq> []);
       (ok, c, w) \<leftarrow> Compress_with libs tm (hd inputs) ctype (hd cs) True w;
       if \<not> ok then Some (None, w)
       else do {
         (cs, outs, w) \<leftarrow>
           measure_runs kRuns libs tm ctype repeats block_size inputs (c # tl cs) (replicate (nat num_blocks) []) w;
         Some (Some (of_nat (sum_list (map length cs)), cs, outs), w)
       }
     }"

end
