(* ===== verification/SnappyCodecSpec.thy ===== *)
theory SnappyCodecSpec
  imports SnappyCodecs
begin

text \<open>
  What the routines of \<open>SnappyCodecs\<close> do: every compressed string is uncompressed to its input, if
  the library keeps its documented contract; \<open>Measure\<close> with Snappy runs to its end on every
  input that is not empty, and never gets to skip a library that is not compiled in.
\<close>

section \<open>Contracts\<close>

text \<open>
  What a library documents: a string it has compressed is uncompressed to the input when there is
  room for it. liblzf and FastLZ return 0 when they have not compressed.
\<close>

definition lzo_round_trips :: "lzo_library \<Rightarrow> bool" where
  "lzo_round_trips lib \<longleftrightarrow> (\<forall>x out. lzo1x_1_15_compress lib x = (0, out) \<longrightarrow> lzo1x_decompress lib out = (0, x))"

definition lzf_round_trips :: "lzf_library \<Rightarrow> bool" where
  "lzf_round_trips lib \<longleftrightarrow>
     (\<forall>x n k out room. lzf_compress lib x n = (k, out) \<longrightarrow> k \<noteq> 0 \<longrightarrow> length x \<le> room \<longrightarrow>
        k = int (length out) \<and> length out \<le> n \<and> lzf_decompress lib out room = (int (length x), x))"

definition qlz_round_trips :: "qlz_library \<Rightarrow> bool" where
  "qlz_round_trips lib \<longleftrightarrow>
     (\<forall>x k out. qlz_compress lib x = (k, out) \<longrightarrow> k \<noteq> 0 \<longrightarrow>
        k = int (length out) \<and> qlz_decompress lib out = (int (length x), x))"

definition fastlz_round_trips :: "fastlz_library \<Rightarrow> bool" where
  "fastlz_round_trips lib \<longleftrightarrow>
     (\<forall>l x k out room. fastlz_compress_level lib l x = (k, out) \<longrightarrow> k \<noteq> 0 \<longrightarrow> length x \<le> room \<longrightarrow>
        k = int (length out) \<and> fastlz_decompress lib out room = (int (length x), x))"

definition codec_contract :: "('c, 'd, 'w) libraries \<Rightarrow> bool" where
  "codec_contract libs \<longleftrightarrow>
     pred_option (\<lambda>zl. zlib_bounded zl \<and> zlib_round_trips zl) (lib_zlib libs) \<and>
     pred_option lzo_round_trips (lib_lzo libs) \<and> pred_option lzf_round_trips (lib_lzf libs) \<and>
     pred_option qlz_round_trips (lib_qlz libs) \<and> pred_option fastlz_round_trips (lib_fastlz libs)"

section \<open>Snappy\<close>

lemma test_memory_okD:
  assumes "test_memory_ok tm"
  shows "memory_ok (tm_new tm) (tm_small tm) (tm_large tm)" and "length (tm_scratch tm) = kMaximumTagLength"
  using assms by (simp_all add: test_memory_ok_def)

lemma string_resize_take: "n \<le> length s \<Longrightarrow> string_resize s n = take n s"
  by (simp add: string_resize_def)

lemma string_resize_self [simp]: "string_resize s (length s) = s"
  by (simp add: string_resize_def)

lemma snappy_space [simp]: "MinimumRequiredOutputSpace libs n SNAPPY = Some (MaxCompressedLength n)"
  by (simp add: MinimumRequiredOutputSpace_def)

lemma compress_snappy_ok:
  assumes "test_memory_ok tm" and "length input < 2 ^ 32" and "MaxCompressedLength (length input) \<le> length c"
  shows "\<exists>m n. compress_snappy tm input c preallocated = Some (if preallocated then m else take n m) \<and>
    length m = length c \<and> n \<le> MaxCompressedLength (length input) \<and> n \<le> length m \<and> encodes (take n m) input"
proof -
  obtain m n where r: "RawCompress (tm_new tm) (tm_small tm) (tm_large tm) input c = Some (m, n)" "length m = length c"
    "n \<le> MaxCompressedLength (length input)" "encodes (take n m) input"
    using RawCompress_ok [OF test_memory_okD(1) [OF assms(1)] assms(2,3)] by blast
  moreover have "n \<le> length m" using r(2,3) assms(3) by simp
  ultimately show ?thesis
    by (intro exI [of _ m] exI [of _ n]) (simp add: compress_snappy_def string_resize_take)
qed

lemma uncompress_snappy_ok:
  assumes "test_memory_ok tm" and "length x < 2 ^ 31" and "encodes c x" and "length c < 2 ^ 32" and "length out = length x"
  shows "RawUncompress (tm_scratch tm) c out = Some (True, x)"
proof -
  have "length x < 2 ^ 32" using assms(2) by simp
  note e = encodes_output [OF assms(3) this]
  have "length x \<le> length out" using assms(5) by simp
  from RawUncompress_runs [OF test_memory_okD(2) [OF assms(1)] assms(4) GetUncompressedLength_fits [OF e(2) this]] e(1)
  show ?thesis using assms(5) by auto
qed

section \<open>Round trip\<close>

lemma mem_write_all: "length out = length bs \<Longrightarrow> mem_write out 0 bs = Some bs"
  by (simp add: mem_write_def)

lemma mem_write_resize:
  assumes "mem_write c 0 out = Some c'"
  shows "string_resize c' (length out) = out"
  using mem_writeD(3,4) [OF assms] mem_writeD(1) [OF assms] by (simp add: string_resize_take)

lemma int_of_size_small: "n < 2 ^ 31 \<Longrightarrow> int_of_size n = int n"
proof -
  assume n: "n < 2 ^ 31"
  have "signed_take_bit 31 (int n) = int n"
    by (rule signed_take_bit_int_eq_self) (use n in simp_all)
  then show ?thesis by (simp add: int_of_size_def signed_of_nat)
qed

lemma zlib_codec:
  assumes zl: "zlib_bounded zl" "zlib_round_trips zl" and x: "length x < 2 ^ 31" "length c < 2 ^ 31"
    and comp: "compress_zlib zl x c False w = Some (y, w1)"
  shows "\<exists>w3. uncompress_zlib zl y (int (length x)) out w2 = Some (x, w3)"
proof -
  obtain s where s: "ZLib_new zl w = Some s" "zlib_inv s" "first_chunk s" using ZLib_new_ok [of zl w] by auto
  obtain t where t: "ZLib_new zl w2 = Some t" "zlib_inv t" "first_chunk t" using ZLib_new_ok [of zl w2] by auto
  have "length x < 2 ^ 32" "length c < 2 ^ 32" using x by simp_all
  with ZLib_Compress_ok [OF zl(1) s(2,3), of "length c" "length x" c x] obtain err n c' s'
    where r: "ZLib_Compress zl c (length c) x (length x) s = Some (err, n, c', s')" "zlib_inv s'" by auto
  obtain s'' where d: "ZLib_destroy zl s' = Some s''" using ZLib_destroy_ok [OF r(2), of zl] by auto
  have "err = Z_OK" by (rule ccontr) (use comp s(1) r(1) in \<open>simp add: compress_zlib_def assert_that_def\<close>)
  with comp s(1) r(1) d have z: "ZLib_Compress zl c (length c) x (length x) s = Some (Z_OK, n, c', s')"
    "y = string_resize c' n" by (simp_all add: compress_zlib_def)
  have p: "zlib_permitted (CallCompress c (length c) x (length x)) s" using s(3) x by simp
  note st = Compress_stream [OF zl s(2) p x(2) z(1)]
  have y: "y = take n c'" "length y = n" "n < 2 ^ 32" using z(2) st(1,2) x(2) by (simp_all add: string_resize_take)
  let ?out = "string_resize out (length x)"
  have "inflate_init_succeeds zl" using zl(2) by (simp add: zlib_round_trips_def)
  moreover have "zlib_stream_of zl x (take (length y) y)" using st(3) y by simp
  ultimately obtain t' where "ZLib_Uncompress zl ?out (length ?out) y (length y) t = Some (Z_OK, length x, x, t')" "zlib_inv t'"
    using Uncompress_stream [OF zl(1) _ t(2,3), of x "length y" y "length ?out" ?out] y x(1) by auto
  with ZLib_destroy_ok [of t' zl] show ?thesis
    by (auto simp: uncompress_zlib_def resize_int_def t(1))
qed

lemma lzo_codec:
  assumes "lzo_round_trips lib" and "compress_lzo lib x c False = Some y"
  shows "uncompress_lzo lib y (int (length x)) out = Some x"
proof -
  obtain out' where o: "lzo1x_1_15_compress lib x = (0, out')" "y = out'"
    using assms(2) by (auto simp: compress_lzo_def bind_eq_Some_conv assert_that_def mem_write_resize split: prod.splits if_splits)
  then have "lzo1x_decompress lib y = (0, x)" using assms(1) unfolding lzo_round_trips_def by blast
  then show ?thesis by (simp add: uncompress_lzo_def resize_int_def mem_write_all)
qed

lemma lzf_codec:
  assumes "lzf_round_trips lib" and "compress_lzf lib x c False = Some y" and "fst (lzf_compress lib x (length x)) \<noteq> 0"
  shows "uncompress_lzf lib y (int (length x)) out = Some x"
proof -
  obtain k out' where o: "lzf_compress lib x (length x) = (k, out')" "k \<noteq> 0" using assms(3) by (metis prod.collapse)
  with assms(1) have k: "k = int (length out')" "length out' \<le> length x" "lzf_decompress lib out' (length x) = (int (length x), x)"
    unfolding lzf_round_trips_def by blast+
  have "y = out'"
    using assms(2) o k(1)
    by (auto simp: compress_lzf_def bind_eq_Some_conv unless_preallocated_def resize_int_def mem_write_resize)
  moreover have "x \<noteq> []" using k(1,2) o(2) by auto
  ultimately show ?thesis using k by (auto simp: uncompress_lzf_def resize_int_def mem_write_all)
qed

lemma qlz_codec:
  assumes "qlz_round_trips lib" and "compress_qlz lib x c False = Some y"
  shows "uncompress_qlz lib y (int (length x)) out = Some x"
proof -
  obtain k out' c' where o: "qlz_compress lib x = (k, out')" "k \<noteq> 0" "mem_write c 0 out' = Some c'"
    "resize_int c' k = Some y"
    using assms(2) by (auto simp: compress_qlz_def bind_eq_Some_conv assert_that_def unless_preallocated_def split: prod.splits if_splits)
  with assms(1) have k: "k = int (length out')" "qlz_decompress lib out' = (int (length x), x)"
    unfolding qlz_round_trips_def by blast+
  have "y = out'" using o(3,4) k(1) by (simp add: resize_int_def mem_write_resize)
  with k show ?thesis by (simp add: uncompress_qlz_def resize_int_def mem_write_all)
qed

lemma fastlz_codec:
  assumes "fastlz_round_trips lib" and "compress_fastlz lib x c False = Some y"
  shows "uncompress_fastlz lib y (int (length x)) out = Some x"
proof -
  obtain k out' c' where o: "fastlz_compress_level lib 1 x = (k, out')" "k \<noteq> 0" "mem_write c 0 out' = Some c'"
    "resize_int c' k = Some y"
    using assms(2) by (auto simp: compress_fastlz_def bind_eq_Some_conv assert_that_def unless_preallocated_def split: prod.splits if_splits)
  with assms(1) have k: "k = int (length out')" "fastlz_decompress lib out' (length x) = (int (length x), x)"
    unfolding fastlz_round_trips_def by blast+
  have "y = out'" using o(3,4) k(1) by (simp add: resize_int_def mem_write_resize)
  with k show ?thesis by (simp add: uncompress_fastlz_def resize_int_def mem_write_all)
qed

lemma zlib_space:
  "MinCompressbufSize (int_of_size n) = Some k \<Longrightarrow> n < 2 ^ 31 \<Longrightarrow> nat (k mod 2 ^ 64) < 2 ^ 31"
proof -
  assume k: "MinCompressbufSize (int_of_size n) = Some k" and n: "n < 2 ^ 31"
  have "0 \<le> int n sdiv 1000" by (simp add: signed_divide_int_def)
  with k int_of_size_small [OF n] have "0 \<le> k" "k < 2 ^ 31" by (auto simp: MinCompressbufSize_def Let_def split: if_splits)
  then show ?thesis by (simp add: nat_less_iff)
qed

text \<open>
  C23: whatever library compresses a string of less than 2 GiB, Uncompress gives the input back: with
  Snappy, if the output has the right length beforehand, and with every other library that keeps
  its documented contract, if it is liblzf then only when it has really compressed.
\<close>

theorem codec_round_trip:
  assumes "test_memory_ok tm" and "codec_contract libs" and "length input < 2 ^ 31"
    and "Compress_with libs tm input ctype c False w = Some (True, y, w1)"
    and "ctype = SNAPPY \<Longrightarrow> length out = length input"
    and "ctype = LIBLZF \<Longrightarrow> pred_option (\<lambda>lib. fst (lzf_compress lib input (length input)) \<noteq> 0) (lib_lzf libs)"
  shows "\<exists>w3. Uncompress_with libs tm y ctype (int (length input)) out w2 = Some (True, input, w3)"
proof -
  obtain sp where sp: "MinimumRequiredOutputSpace libs (length input) ctype = Some sp"
    using assms(4) by (auto simp: Compress_with_def split: Option.bind_splits)
  note run = assms(4) [unfolded Compress_with_def sp Let_def, simplified]
  note contract = assms(2) [unfolded codec_contract_def]
  show ?thesis
  proof (cases ctype)
    case ZLIB
    with run obtain zl where z: "lib_zlib libs = Some zl" "compress_zlib zl input (string_resize c sp) False w = Some (y, w1)"
      by (auto split: option.splits)
    have "length (string_resize c sp) < 2 ^ 31" using sp ZLIB z(1) zlib_space [OF _ assms(3)] by (auto simp: MinimumRequiredOutputSpace_def)
    from zlib_codec [OF _ _ assms(3) this z(2), of out w2] contract z(1) ZLIB show ?thesis
      by (auto simp: Uncompress_with_def)
  next
    case LZO
    with run obtain lib where z: "lib_lzo libs = Some lib" "compress_lzo lib input (string_resize c sp) False = Some y"
      by (auto split: option.splits)
    with lzo_codec [OF _ z(2), of out] contract LZO show ?thesis by (auto simp: Uncompress_with_def)
  next
    case LIBLZF
    with run obtain lib where z: "lib_lzf libs = Some lib" "compress_lzf lib input (string_resize c sp) False = Some y"
      by (auto split: option.splits)
    with lzf_codec [OF _ z(2), of out] contract LIBLZF assms(6) show ?thesis by (auto simp: Uncompress_with_def)
  next
    case QUICKLZ
    with run obtain lib where z: "lib_qlz libs = Some lib" "compress_qlz lib input (string_resize c sp) False = Some y"
      by (auto split: option.splits)
    with qlz_codec [OF _ z(2), of out] contract QUICKLZ show ?thesis by (auto simp: Uncompress_with_def)
  next
    case FASTLZ
    with run obtain lib where z: "lib_fastlz libs = Some lib" "compress_fastlz lib input (string_resize c sp) False = Some y"
      by (auto split: option.splits)
    with fastlz_codec [OF _ z(2), of out] contract FASTLZ show ?thesis by (auto simp: Uncompress_with_def)
  next
    case SNAPPY
    have small: "length input < 2 ^ 32" using assms(3) by simp
    have sp': "sp = MaxCompressedLength (length input)" using sp SNAPPY by simp
    with compress_snappy_ok [OF assms(1) small, of "string_resize c sp" False] run SNAPPY have
      y: "encodes y input" "length y \<le> MaxCompressedLength (length input)" by auto
    have "length y < 2 ^ 32" using y(2) assms(3) by (simp add: MaxCompressedLength_small)
    from uncompress_snappy_ok [OF assms(1,3) y(1) this assms(5) [OF SNAPPY]] SNAPPY show ?thesis
      by (simp add: Uncompress_with_def)
  qed
qed

section \<open>Measure\<close>

definition good_codes :: "bytes list \<Rightarrow> bytes list \<Rightarrow> bool" where
  "good_codes inputs cs \<longleftrightarrow> list_all2 (\<lambda>x c. encodes c x \<and> length c \<le> MaxCompressedLength (length x)) inputs cs"

definition small_blocks :: "nat \<Rightarrow> bytes list \<Rightarrow> bool" where
  "small_blocks sp inputs \<longleftrightarrow> (\<forall>x \<in> set inputs. length x < 2 ^ 31 \<and> MaxCompressedLength (length x) \<le> sp)"

lemma compress_times_snappy:
  assumes "test_memory_ok tm" and "length x < 2 ^ 31" and "MaxCompressedLength (length x) \<le> length c"
  shows "\<exists>c'. compress_times n libs tm x SNAPPY c True w = Some (c', w) \<and> length c' = length c"
  using assms(3)
proof (induction n arbitrary: c)
  case (Suc n)
  have "length x < 2 ^ 32" using assms(2) by simp
  from compress_snappy_ok [OF assms(1) this Suc.prems, of True] obtain m where
    "compress_snappy tm x c True = Some m" "length m = length c" by auto
  with Suc.IH [of m] Suc.prems show ?case by (auto simp: Compress_with_def)
qed simp

lemma compress_once_snappy:
  assumes "test_memory_ok tm" and "length x < 2 ^ 31"
  shows "\<exists>c'. compress_times (Suc 0) libs tm x SNAPPY c False w = Some (c', w) \<and> encodes c' x \<and>
    length c' \<le> MaxCompressedLength (length x)"
proof -
  have "length x < 2 ^ 32" using assms(2) by simp
  from compress_snappy_ok [OF assms(1) this, of "string_resize c (MaxCompressedLength (length x))" False]
  show ?thesis by (auto simp: Compress_with_def)
qed

lemma compress_blocks_times:
  assumes "test_memory_ok tm" and "small_blocks sp inputs" and "length cs = length inputs" and "\<forall>c \<in> set cs. length c = sp"
  shows "\<exists>cs'. compress_blocks n libs tm SNAPPY True inputs cs w = Some (cs', w) \<and> length cs' = length inputs"
  using assms(2-)
proof (induction inputs arbitrary: cs)
  case (Cons x xs)
  then obtain c cs0 where cs: "cs = c # cs0" by (cases cs) simp_all
  have x: "length x < 2 ^ 31" "MaxCompressedLength (length x) \<le> length c" using Cons.prems cs by (simp_all add: small_blocks_def)
  with compress_times_snappy [OF assms(1) x, of n libs w] Cons.IH [of cs0] Cons.prems cs show ?case
    by (auto simp: small_blocks_def simp del: compress_times.simps)
qed simp

lemma compress_blocks_once:
  assumes "test_memory_ok tm" and "small_blocks sp inputs" and "length cs = length inputs"
  shows "\<exists>cs'. compress_blocks (Suc 0) libs tm SNAPPY False inputs cs w = Some (cs', w) \<and> good_codes inputs cs'"
  using assms(2-)
proof (induction inputs arbitrary: cs)
  case (Cons x xs)
  then obtain c cs0 where cs: "cs = c # cs0" by (cases cs) simp_all
  have x: "length x < 2 ^ 31" using Cons.prems by (simp add: small_blocks_def)
  with compress_once_snappy [OF assms(1) x, of libs c w] Cons.IH [of cs0] Cons.prems cs show ?case
    by (auto simp: small_blocks_def good_codes_def simp del: compress_times.simps)
qed (simp add: good_codes_def)

lemma uncompress_blocks_ok:
  assumes "test_memory_ok tm" and "small_blocks sp inputs" and "good_codes inputs cs" and "map length outs = map length inputs"
  shows "uncompress_blocks libs tm SNAPPY inputs cs outs w = Some (inputs, w)"
  using assms(2-)
proof (induction inputs arbitrary: cs outs)
  case (Cons x xs)
  obtain c cs0 where cs: "cs = c # cs0" "encodes c x" "length c \<le> MaxCompressedLength (length x)" "good_codes xs cs0"
    using Cons.prems(2) by (auto simp: good_codes_def list_all2_Cons1)
  obtain out outs0 where outs: "outs = out # outs0" "length out = length x" "map length outs0 = map length xs"
    using Cons.prems(3) by (cases outs) simp_all
  have x: "length x < 2 ^ 31" using Cons.prems by (simp add: small_blocks_def)
  have "length c < 2 ^ 32" using cs(3) x by (simp add: MaxCompressedLength_small)
  note u = uncompress_snappy_ok [OF assms(1) x cs(2) this outs(2)]
  have "small_blocks sp xs" using Cons.prems(1) by (simp add: small_blocks_def)
  from Cons.IH [OF this cs(4) outs(3)] u show ?case by (simp add: cs(1) outs(1) Uncompress_with_def)
qed simp

lemma uncompress_times_ok:
  assumes "test_memory_ok tm" and "small_blocks sp inputs" and "good_codes inputs cs" and "map length outs = map length inputs"
  shows "uncompress_times n libs tm SNAPPY inputs cs outs w = Some (if n = 0 then outs else inputs, w)"
  using assms(4)
proof (induction n arbitrary: outs)
  case (Suc n)
  with uncompress_blocks_ok [OF assms(1-3) Suc.prems, of libs w] Suc.IH [of inputs] show ?case by simp
qed simp

lemma measure_runs_ok:
  assumes tm: "test_memory_ok tm" and small: "small_blocks (MaxCompressedLength block_size) inputs"
    and len: "length cs = length inputs" "length outs = length inputs" and outs: "0 < n \<or> good_codes inputs cs \<and> (0 < repeats \<longrightarrow> outs = inputs)"
  shows "\<exists>cs' outs'. measure_runs n libs tm SNAPPY repeats block_size inputs cs outs w = Some (cs', outs', w) \<and>
    good_codes inputs cs' \<and> (0 < repeats \<longrightarrow> outs' = inputs)"
  using len outs
proof (induction n arbitrary: cs outs)
  case (Suc n)
  let ?cs = "map (\<lambda>c. string_resize c (MaxCompressedLength block_size)) cs"
  let ?outs = "map2 (\<lambda>out input. string_resize out (length input)) outs inputs"
  have "length ?cs = length inputs" "\<forall>c \<in> set ?cs. length c = MaxCompressedLength block_size" using Suc.prems by simp_all
  from compress_blocks_times [OF tm small this, of repeats libs w] obtain cs1 where
    c1: "compress_blocks repeats libs tm SNAPPY True inputs ?cs w = Some (cs1, w)" "length cs1 = length inputs" by blast
  from compress_blocks_once [OF tm small c1(2), of libs w] obtain cs2 where
    c2: "compress_blocks (Suc 0) libs tm SNAPPY False inputs cs1 w = Some (cs2, w)" "good_codes inputs cs2" by blast
  have "map length ?outs = map length inputs" using Suc.prems(2) by (induction outs inputs rule: list_induct2) simp_all
  note u = uncompress_times_ok [OF tm small c2(2) this, of repeats libs w]
  have l: "length cs2 = length inputs" using c2(2) by (auto simp: good_codes_def dest: list_all2_lengthD)
  let ?outs2 = "if repeats = 0 then ?outs else inputs"
  have "length ?outs2 = length inputs" "good_codes inputs cs2 \<and> (0 < repeats \<longrightarrow> ?outs2 = inputs)"
    using Suc.prems c2(2) by simp_all
  from Suc.IH [OF l this(1)] this(2) c1 c2 u show ?case by (simp add: Let_def)
qed auto

text \<open>The blocks\<close>

definition block_of :: "bytes \<Rightarrow> nat \<Rightarrow> nat \<Rightarrow> bytes" where
  "block_of x block_size b = take block_size (drop (b * block_size) x)"

lemma concat_blocks: "concat (map (block_of x bs) [0..<n]) = take (n * bs) x"
proof (induction n)
  case (Suc n)
  have "Suc n * bs = n * bs + bs" by simp
  with Suc show ?case by (simp add: block_of_def take_add del: mult_Suc)
qed simp

lemma number_of_blocks_ok:
  assumes "0 < len" and "0 < bs" and "len + bs \<le> 2 ^ 31"
  shows "number_of_blocks len bs = int ((len + bs - 1) div bs)"
proof -
  have n: "len + bs - 1 < 2 ^ 31" using assms by simp
  then have "(len + bs - 1) div bs < 2 ^ 31" by (meson div_le_dividend le_less_trans)
  moreover have "(len + bs - 1) mod 2 ^ 64 = len + bs - 1" using n by simp
  ultimately show ?thesis by (simp only: number_of_blocks_def int_of_size_small)
qed

lemma measure_block_ok:
  assumes len: "0 < len" "len \<le> length data" and bs: "0 < bs" "len + bs \<le> 2 ^ 31" and b: "b < (len + bs - 1) div bs"
  shows "measure_block data len bs b = Some (block_of (take len data) bs b)"
proof -
  have "(b + 1) * bs \<le> (len + bs - 1) div bs * bs" using b by (intro mult_le_mono1) simp
  also have "\<dots> \<le> len + bs - 1" by (rule div_times_less_eq_dividend)
  finally have e: "b * bs + bs \<le> len + bs - 1" by simp
  define st where "st = b * bs"
  define n where "n = min bs (len - st)"
  have st: "st < len" "st + bs < 2 ^ 31" using e len(1) bs unfolding st_def by simp_all
  have "int_of_size len = int len" using bs by (intro int_of_size_small) simp
  then have "min (int (st + bs)) (int_of_size len) - int st = int n" using st(1) by (simp add: n_def)
  moreover have "n < 2 ^ 64" using bs by (simp add: n_def)
  then have "nat (int n mod 2 ^ 64) = n" by (simp add: nat_mod_as_int [symmetric])
  moreover have "mem_read data st n = Some (take n (drop st data))" using st(1) len(2) by (simp add: mem_read_def n_def)
  moreover have "take n (drop st data) = block_of (take len data) bs b"
    by (simp add: block_of_def n_def st_def drop_take min.commute)
  ultimately show ?thesis using st by (simp add: measure_block_def st_def [symmetric] add.commute Let_def)
qed

lemma those_map: "(\<And>x. x \<in> set xs \<Longrightarrow> f x = Some (g x)) \<Longrightarrow> those (map f xs) = Some (map g xs)"
  by (induction xs) simp_all

lemma MaxCompressedLength_mono: "m \<le> n \<Longrightarrow> n < 2 ^ 62 \<Longrightarrow> MaxCompressedLength m \<le> MaxCompressedLength n"
  by (simp add: MaxCompressedLength_small add_mono div_le_mono)

lemma Measure_ok:
  assumes tm: "test_memory_ok tm" and len: "0 < len" "len \<le> length data" and bs: "0 < bs" "len + bs \<le> 2 ^ 31"
  shows "\<exists>inputs cs outs. Measure libs tm data len SNAPPY repeats bs w = Some (Some (of_nat (sum_list (map length cs)), cs, outs), w) \<and>
    concat inputs = take len data \<and> good_codes inputs cs \<and> (0 < repeats \<longrightarrow> outs = inputs)"
proof -
  define N where "N = (len + bs - 1) div bs"
  let ?sp = "MaxCompressedLength bs"
  let ?xs = "map (block_of (take len data) bs) [0..<N]"
  have n: "number_of_blocks len bs = int N" unfolding N_def by (rule number_of_blocks_ok [OF len(1) bs])
  have "0 < N" using len(1) bs(1) by (simp add: N_def div_greater_zero_iff)
  have "len \<le> N * bs" using dividend_less_div_times [OF bs(1), of "len + bs - 1"] by (simp add: N_def)
  then have con: "concat ?xs = take len data" by (simp add: concat_blocks)
  have i: "those (map (measure_block data len bs) [0..<N]) = Some ?xs"
    by (rule those_map) (simp add: measure_block_ok [OF len bs] N_def)
  let ?c = "string_resize [] ?sp"
  have c: "those (map (\<lambda>b. map_option (string_resize []) (MinimumRequiredOutputSpace libs bs SNAPPY)) [0..<N]) =
      Some (map (\<lambda>b. ?c) [0..<N])" by (rule those_map) simp
  have small: "small_blocks ?sp ?xs"
    using bs by (auto simp: small_blocks_def block_of_def intro!: MaxCompressedLength_mono)
  have ne: "?xs \<noteq> []" using \<open>0 < N\<close> by simp
  then have "length (hd ?xs) < 2 ^ 32" "MaxCompressedLength (length (hd ?xs)) \<le> length ?c"
    using small hd_in_set [OF ne] unfolding small_blocks_def by fastforce+
  from compress_snappy_ok [OF tm this, of True] obtain m where m: "compress_snappy tm (hd ?xs) ?c True = Some m" by auto
  have hd: "hd (map (\<lambda>b. ?c) [0..<N]) = ?c" using \<open>0 < N\<close> by (simp add: hd_map)
  let ?cs = "m # tl (map (\<lambda>b. ?c) [0..<N])"
  have "length ?cs = length ?xs" "length (replicate N ([] :: bytes)) = length ?xs" using \<open>0 < N\<close> by simp_all
  from measure_runs_ok [OF tm small this, of kRuns repeats libs w] obtain cs outs where
    "measure_runs kRuns libs tm SNAPPY repeats bs ?xs ?cs (replicate N []) w = Some (cs, outs, w)"
    "good_codes ?xs cs" "0 < repeats \<longrightarrow> outs = ?xs" by (auto simp: kRuns_def)
  moreover from this have "Measure libs tm data len SNAPPY repeats bs w = Some (Some (of_nat (sum_list (map length cs)), cs, outs), w)"
    unfolding Measure_def n Let_def nat_int i c bind.bind_lunit hd
    using \<open>0 < N\<close> by (simp add: ne Compress_with_def m)
  ultimately show ?thesis using con by blast
qed

text \<open>
  C24: Measure with Snappy, on any non-empty input and with any block size as long as both together are
  at most 2 GiB, runs to its end: no position overflows, no check fails. The strings it has compressed decode to the
  blocks of the input in their order, the size it prints is that of these strings, and if it
  repeats anything at all its outputs are the blocks.
\<close>

theorem Measure_passes:
  assumes "test_memory_ok tm" and "0 < len" "len \<le> length data" and "0 < block_size" "len + block_size \<le> 2 ^ 31"
  shows "\<exists>inputs cs outs.
    Measure libs tm data len SNAPPY repeats block_size w = Some (Some (of_nat (sum_list (map length cs)), cs, outs), w) \<and>
    concat inputs = take len data \<and> good_codes inputs cs \<and> (0 < repeats \<longrightarrow> outs = inputs)"
  by (rule Measure_ok [OF assms])

section \<open>Libraries that are missing\<close>

lemma not_compiled_in:
  "Compress_with libs tm x ctype c True w = Some (False, c', w') \<Longrightarrow> MinimumRequiredOutputSpace libs n ctype = None"
  by (cases ctype) (auto simp: Compress_with_def MinimumRequiredOutputSpace_def split: option.splits)

lemma those_in: "those (map f xs) = Some ys \<Longrightarrow> x \<in> set xs \<Longrightarrow> f x \<noteq> None"
  by (induction xs arbitrary: ys) (auto split: option.splits)

lemma those_length: "those (map f xs) = Some ys \<Longrightarrow> length ys = length xs"
  by (induction xs arbitrary: ys) (auto split: option.splits)

text \<open>
  Measure never skips a library. Its trial compression is there to find out whether the library was compiled
  in, but when it was not, the buffers sized before it have ended the program; and with nothing
  to compress there is no first block to try.
\<close>

theorem Measure_never_skips:
  "Measure libs tm data len ctype repeats block_size w \<noteq> Some (None, w') \<and>
   (MinimumRequiredOutputSpace libs block_size ctype = None \<or> number_of_blocks len block_size \<le> 0 \<longrightarrow>
      Measure libs tm data len ctype repeats block_size w = None)"
proof -
  let ?N = "nat (number_of_blocks len block_size)"
  have *: "MinimumRequiredOutputSpace libs block_size ctype \<noteq> None \<and> 0 < ?N"
    if m: "Measure libs tm data len ctype repeats block_size w = Some q" for q
  proof -
    obtain inputs cs where i: "those (map (measure_block data len block_size) [0..<?N]) = Some inputs" "inputs \<noteq> []"
      "those (map (\<lambda>b. map_option (string_resize []) (MinimumRequiredOutputSpace libs block_size ctype)) [0..<?N]) = Some cs"
      using m by (auto simp: Measure_def bind_eq_Some_conv assert_that_def Let_def split: if_splits)
    have "0 < ?N" using those_length [OF i(1)] i(2) by (cases "?N = 0") simp_all
    then show ?thesis using those_in [OF i(3), of 0] by simp
  qed
  have "Measure libs tm data len ctype repeats block_size w \<noteq> Some (None, w')"
  proof
    assume m: "Measure libs tm data len ctype repeats block_size w = Some (None, w')"
    then obtain x c c' w'' where "Compress_with libs tm x ctype c True w = Some (False, c', w'')"
      by (auto simp: Measure_def bind_eq_Some_conv assert_that_def Let_def split: if_splits prod.splits)
    from not_compiled_in [OF this, of block_size] * [OF m] show False by simp
  qed
  moreover have "Measure libs tm data len ctype repeats block_size w = None"
    if "MinimumRequiredOutputSpace libs block_size ctype = None \<or> number_of_blocks len block_size \<le> 0"
  proof (rule ccontr)
    assume "Measure libs tm data len ctype repeats block_size w \<noteq> None"
    then obtain q where "Measure libs tm data len ctype repeats block_size w = Some q" by auto
    from * [OF this] that show False by simp
  qed
  ultimately show ?thesis by blast
qed

section \<open>Instances\<close>

text \<open>
  An instance of LZO that copies, and one of liblzf that never manages to compress: both keep the
  contracts. They stand for no code of the repository.
\<close>

definition copying_lzo :: lzo_library where
  "copying_lzo = \<lparr>lzo1x_1_15_compress = \<lambda>x. (0, x), lzo1x_decompress = \<lambda>y. (0, y)\<rparr>"

definition giving_up_lzf :: lzf_library where
  "giving_up_lzf = \<lparr>lzf_compress = \<lambda>x n. (0, []),
     lzf_decompress = \<lambda>y room. if y = [1, 2] \<and> 2 \<le> room then (2, [5, 5]) else (0, [])\<rparr>"

definition demo_libraries :: "(unit, bool, unit) libraries" where
  "demo_libraries = \<lparr>lib_zlib = None, lib_lzo = Some copying_lzo, lib_lzf = Some giving_up_lzf, lib_qlz = None, lib_fastlz = None\<rparr>"

lemma demo_contract: "codec_contract demo_libraries"
  by (simp add: codec_contract_def demo_libraries_def copying_lzo_def giving_up_lzf_def lzo_round_trips_def lzf_round_trips_def)

lemma calm_memory_ok: "test_memory_ok calm_memory"
  by (simp add: test_memory_ok_def memory_ok_def calm_memory_def)

theorem codec_round_trip_witness:
  "\<exists>w3. Uncompress_with demo_libraries calm_memory [7, 8] LZO 2 [] () = Some (True, [7, 8], w3)"
proof -
  have "Compress_with demo_libraries calm_memory [7, 8] LZO [] False () = Some (True, [7, 8], ())"
    by (simp add: Compress_with_def MinimumRequiredOutputSpace_def demo_libraries_def copying_lzo_def compress_lzo_def
        string_resize_def mem_write_def)
  from codec_round_trip [OF calm_memory_ok demo_contract _ this, of "[]" "()"] show ?thesis by simp
qed

theorem Measure_passes_witness:
  "\<exists>inputs cs outs. Measure demo_libraries calm_memory [1, 2, 3] 3 SNAPPY 1 2 () = Some (Some (of_nat (sum_list (map length cs)), cs, outs), ()) \<and>
    concat inputs = [1, 2, 3] \<and> good_codes inputs cs \<and> outs = inputs"
  using Measure_passes [OF calm_memory_ok, of 3 "[1, 2, 3]" 2 demo_libraries 1 "()"] by simp

theorem Measure_never_skips_witness:
  "Measure demo_libraries calm_memory [1, 2, 3] 3 FASTLZ 1 2 () = None"
  using Measure_never_skips [of demo_libraries calm_memory "[1, 2, 3]" 3 FASTLZ 1 2 "()" "()"]
  by (simp add: MinimumRequiredOutputSpace_def demo_libraries_def)

text \<open>
  A string that liblzf does not compress is stored as it is, and nothing tells it from a compressed
  one: when it happens to be decodable, Uncompress returns something else and no check notices.
\<close>

theorem stored_lzf_misread:
  "codec_contract demo_libraries \<and>
   Compress_with demo_libraries tm [1, 2] LIBLZF c False () = Some (True, [1, 2], ()) \<and>
   Uncompress_with demo_libraries tm [1, 2] LIBLZF 2 out () = Some (True, [5, 5], ())"
proof -
  have "mem_write s 0 [] = Some s" for s by (simp add: mem_write_def)
  moreover have "mem_write (string_resize out 2) 0 [5, 5] = Some [5, 5]" by (simp add: mem_write_all)
  moreover have "string_resize [1, 2 :: byte] 2 = [1, 2]" by (simp add: string_resize_take)
  ultimately show ?thesis
    by (auto simp: demo_contract) (simp_all add: Compress_with_def Uncompress_with_def MinimumRequiredOutputSpace_def
        demo_libraries_def giving_up_lzf_def compress_lzf_def uncompress_lzf_def unless_preallocated_def resize_int_def
        int_of_size_small)
qed

end
