(* ===== verification/SnappyTestFiles.thy ===== *)
theory SnappyTestFiles
  imports SnappyCodecSpec
begin

text \<open>
  The test program of Snappy as a tool: how it reads and writes files (\<open>snappy-test.h\<close>,
  \<open>snappy-test.cc\<close>), and its commands \<open>CompressFile\<close>, \<open>UncompressFile\<close> and \<open>MeasureFile\<close>
  (\<open>snappy_unittest.cc\<close>). Flags are a record; what is printed is left out.
\<close>

section \<open>Files\<close>

text \<open>
  \<open>fs_files\<close> is what can be opened for reading, \<open>fs_bad\<close> are the files on which reading fails,
  \<open>fs_writable\<close> tells what can be opened for writing and \<open>fs_room\<close> how many bytes fit.
\<close>

record file_system =
  fs_files :: "string \<Rightarrow> bytes option"
  fs_bad :: "string \<Rightarrow> bool"
  fs_writable :: "string \<Rightarrow> bool"
  fs_room :: "string \<Rightarrow> nat"

text \<open>A run returns, calls \<open>exit\<close>, or is aborted by a failed \<open>CHECK\<close>, an exception or undefined behaviour.\<close>

datatype 'a ran = Done 'a | Exited nat | Aborted

type_synonym ('s, 'a) run = "'s \<Rightarrow> 'a ran \<times> 's"

type_synonym 'a fs_run = "(file_system, 'a) run"

definition run_bind :: "('s, 'a) run \<Rightarrow> ('a \<Rightarrow> ('s, 'b) run) \<Rightarrow> ('s, 'b) run" where
  "run_bind m k s =
     (case m s of
        (Done x, s) \<Rightarrow> k x s
      | (Exited n, s) \<Rightarrow> (Exited n, s)
      | (Aborted, s) \<Rightarrow> (Aborted, s))"

definition run_done :: "'a \<Rightarrow> ('s, 'a) run" where
  "run_done x s = (Done x, s)"

definition or_abort :: "'a option \<Rightarrow> ('s, 'a) run" where
  "or_abort q s = (case q of None \<Rightarrow> (Aborted, s) | Some x \<Rightarrow> (Done x, s))"

text \<open>A \<open>FILE\<close> that is being read\<close>

record FILE =
  f_rest :: bytes
  f_eof :: bool
  f_error :: bool
  f_bad :: bool

definition fread :: "nat \<Rightarrow> FILE \<Rightarrow> bytes \<times> FILE" where
  "fread n fp =
     (if f_bad fp then ([], fp\<lparr>f_error := True\<rparr>)
      else (take n (f_rest fp),
            fp\<lparr>f_rest := drop n (f_rest fp), f_eof := f_eof fp \<or> length (f_rest fp) < n\<rparr>))"

text \<open>The loop of \<open>GetContents\<close>; \<open>None\<close> is the call of \<open>exit\<close>.\<close>

function read_chunks :: "FILE \<Rightarrow> bytes \<Rightarrow> bytes option" where
  "read_chunks fp data =
     (if f_eof fp then Some data
      else
        let (buf, fp') = fread 4096 fp
        in if buf = [] \<and> f_error fp' then None else read_chunks fp' (data @ buf))"
  by auto

text \<open>Every turn but the last reads 4096 bytes; the last one sees the end of the file.\<close>

termination
proof (relation "measure (\<lambda>(fp, data). length (f_rest fp) + (if f_eof fp then 0 else 1))")
  fix fp :: FILE and data r buf fp'
  assume run: "\<not> f_eof fp" "r = fread 4096 fp" "(buf, fp') = r" "\<not> (buf = [] \<and> f_error fp')"
  then have "\<not> f_bad fp" by (auto simp: fread_def)
  with run show "((fp', data @ buf), fp, data) \<in> measure (\<lambda>(fp, data). length (f_rest fp) + (if f_eof fp then 0 else 1))"
    by (auto simp: fread_def)
qed simp

declare read_chunks.simps [simp del]

text \<open>
  The functions of namespace \<open>file\<close> are declared to return a \<open>DummyStatus\<close> and have no \<open>return\<close>
  statement; the class is empty, and the model takes them to return.
\<close>

definition GetContents :: "string \<Rightarrow> bytes fs_run" where
  "GetContents filename fs =
     (case fs_files fs filename of
        None \<Rightarrow> (Exited 1, fs)
      | Some content \<Rightarrow>
          (case read_chunks \<lparr>f_rest = content, f_eof = False, f_error = False, f_bad = fs_bad fs filename\<rparr> [] of
             None \<Rightarrow> (Exited 1, fs)
           | Some data \<Rightarrow> (Done data, fs)))"

text \<open>\<open>fwrite\<close> of one item of \<open>n\<close> bytes: an item of no bytes counts as not written.\<close>

definition fwrite_one :: "nat \<Rightarrow> bytes \<Rightarrow> nat \<times> bytes" where
  "fwrite_one room str = (if str \<noteq> [] \<and> length str \<le> room then 1 else 0, take room str)"

definition SetContents :: "string \<Rightarrow> bytes \<Rightarrow> unit fs_run" where
  "SetContents filename str fs =
     (if \<not> fs_writable fs filename then (Exited 1, fs)
      else
        let (ret, written) = fwrite_one (fs_room fs filename) str;
            fs = fs\<lparr>fs_files := (fs_files fs)(filename \<mapsto> written)\<rparr>
        in if ret \<noteq> 1 then (Exited 1, fs) else (Done (), fs))"

text \<open>The argument \<open>srcdir\<close> is what \<open>getenv\<close> returns.\<close>

definition ReadTestDataFile :: "string option \<Rightarrow> string \<Rightarrow> nat \<Rightarrow> bytes fs_run" where
  "ReadTestDataFile srcdir base size_limit =
     run_bind (GetContents ((case srcdir of None \<Rightarrow> [] | Some d \<Rightarrow> d @ ''/'') @ ''testdata/'' @ base)) (\<lambda>contents.
     run_done (if 0 < size_limit then take size_limit contents else contents))"

section \<open>The commands\<close>

definition CompressFile :: "('c, 'd, 'w) libraries \<Rightarrow> test_memory \<Rightarrow> 'w \<Rightarrow> string \<Rightarrow> 'w fs_run" where
  "CompressFile libs tm w fname =
     run_bind (GetContents fname) (\<lambda>fullinput.
     run_bind (or_abort (Compress_with libs tm fullinput SNAPPY [] False w)) (\<lambda>(ok, compressed, w).
     run_bind (SetContents (fname @ ''.comp'') compressed) (\<lambda>_. run_done w)))"

definition UncompressFile :: "test_memory \<Rightarrow> string \<Rightarrow> unit fs_run" where
  "UncompressFile tm fname =
     run_bind (GetContents fname) (\<lambda>fullinput.
     run_bind (or_abort (CheckUncompressedLength tm fullinput)) (\<lambda>ok.
     run_bind (or_abort (if ok then GetUncompressedLength fullinput else None)) (\<lambda>uncompLength.
     run_bind (or_abort (Uncompress (tm_scratch tm) (tm_max_size tm) fullinput (string_resize [] uncompLength)))
       (\<lambda>(ok, uncompressed).
     run_bind (or_abort (assert_that ok)) (\<lambda>_.
     SetContents (fname @ ''.uncomp'') uncompressed)))))"

record test_flags =
  FLAGS_start_len :: int
  FLAGS_end_len :: int
  FLAGS_bytes :: int
  FLAGS_zlib :: bool
  FLAGS_lzo :: bool
  FLAGS_quicklz :: bool
  FLAGS_liblzf :: bool
  FLAGS_fastlz :: bool
  FLAGS_snappy :: bool
  FLAGS_write_compressed :: bool
  FLAGS_write_uncompressed :: bool

definition default_flags :: test_flags where
  "default_flags =
     \<lparr>FLAGS_start_len = - 1, FLAGS_end_len = - 1, FLAGS_bytes = 10485760, FLAGS_zlib = False, FLAGS_lzo = False,
      FLAGS_quicklz = False, FLAGS_liblzf = False, FLAGS_fastlz = False, FLAGS_snappy = True,
      FLAGS_write_compressed = False, FLAGS_write_uncompressed = False\<rparr>"

text \<open>The measurements of one length; the ones under \<open>if (0 && ...)\<close> never happen.\<close>

definition measured_codecs :: "test_flags \<Rightarrow> (CompressorType \<times> nat) list" where
  "measured_codecs flags =
     map snd (filter fst
       [(FLAGS_zlib flags, ZLIB, 1024 * 2 ^ 10), (FLAGS_lzo flags, LZO, 1024 * 2 ^ 10),
        (FLAGS_liblzf flags, LIBLZF, 1024 * 2 ^ 10), (FLAGS_quicklz flags, QUICKLZ, 1024 * 2 ^ 10),
        (FLAGS_fastlz flags, FASTLZ, 1024 * 2 ^ 10), (FLAGS_snappy flags, SNAPPY, 4096 * 2 ^ 10)])"

fun measure_codecs ::
  "('c, 'd, 'w) libraries \<Rightarrow> test_memory \<Rightarrow> bytes \<Rightarrow> nat \<Rightarrow> nat \<Rightarrow> (CompressorType \<times> nat) list \<Rightarrow> 'w \<Rightarrow> 'w option" where
  "measure_codecs libs tm input len repeats [] w = Some w"
| "measure_codecs libs tm input len repeats ((ctype, block_size) # cs) w =
     do {
       (result, w) \<leftarrow> Measure libs tm input len ctype repeats block_size w;
       measure_codecs libs tm input len repeats cs w
     }"

text \<open>One turn of the loop over the lengths: sums of type \<open>int\<close> must not overflow.\<close>

definition measure_len ::
  "('c, 'd, 'w) libraries \<Rightarrow> test_memory \<Rightarrow> test_flags \<Rightarrow> bytes \<Rightarrow> int \<Rightarrow> 'w \<Rightarrow> 'w option" where
  "measure_len libs tm flags fullinput len w =
     do {
       assert_that (len + 1 \<noteq> 0 \<and> len + 1 < 2 ^ 31 \<and> - (2 ^ 31) \<le> FLAGS_bytes flags + len \<and> FLAGS_bytes flags + len < 2 ^ 31);
       let repeats = (FLAGS_bytes flags + len) sdiv (len + 1);
       measure_codecs libs tm fullinput (nat (len mod 2 ^ 64)) (nat repeats) (measured_codecs flags) w
     }"

fun measure_lens ::
  "('c, 'd, 'w) libraries \<Rightarrow> test_memory \<Rightarrow> test_flags \<Rightarrow> bytes \<Rightarrow> int list \<Rightarrow> 'w \<Rightarrow> 'w option" where
  "measure_lens libs tm flags fullinput [] w = Some w"
| "measure_lens libs tm flags fullinput (len # lens) w =
     do {
       w \<leftarrow> measure_len libs tm flags fullinput len w;
       measure_lens libs tm flags fullinput lens w
     }"

definition MeasureFile ::
  "('c, 'd, 'w) libraries \<Rightarrow> test_memory \<Rightarrow> test_flags \<Rightarrow> string \<Rightarrow> 'w \<Rightarrow> 'w fs_run" where
  "MeasureFile libs tm flags fname w =
     run_bind (GetContents fname) (\<lambda>fullinput.
     let sz = int_of_size (length fullinput);
         start_len = (if FLAGS_start_len flags < 0 then sz else FLAGS_start_len flags);
         end_len = (if 0 \<le> FLAGS_end_len flags then min sz (FLAGS_end_len flags) else sz)
     in or_abort (measure_lens libs tm flags fullinput [start_len..end_len] w))"

text \<open>\<open>main\<close> with files on the command line, after the benchmarks\<close>

definition process_file ::
  "('c, 'd, 'w) libraries \<Rightarrow> test_memory \<Rightarrow> test_flags \<Rightarrow> 'w \<Rightarrow> string \<Rightarrow> 'w fs_run" where
  "process_file libs tm flags w fname =
     (if FLAGS_write_compressed flags then CompressFile libs tm w fname
      else if FLAGS_write_uncompressed flags then run_bind (UncompressFile tm fname) (\<lambda>_. run_done w)
      else MeasureFile libs tm flags fname w)"

fun process_files ::
  "('c, 'd, 'w) libraries \<Rightarrow> test_memory \<Rightarrow> test_flags \<Rightarrow> 'w \<Rightarrow> string list \<Rightarrow> nat fs_run" where
  "process_files libs tm flags w [] = run_done 0"
| "process_files libs tm flags w (fname # fnames) =
     run_bind (process_file libs tm flags w fname) (\<lambda>w. process_files libs tm flags w fnames)"

section \<open>Reading and writing\<close>

lemma read_chunks_eof: "f_eof fp \<Longrightarrow> read_chunks fp data = Some data"
  by (simp add: read_chunks.simps [of fp])

lemma read_chunks_all:
  assumes "\<not> f_bad fp" and "\<not> f_error fp" and "\<not> f_eof fp"
  shows "read_chunks fp data = Some (data @ f_rest fp)"
  using assms
proof (induction fp data rule: read_chunks.induct)
  case (1 fp data)
  let ?fp = "fp\<lparr>f_rest := drop 4096 (f_rest fp), f_eof := f_eof fp \<or> length (f_rest fp) < 4096\<rparr>"
  have r: "fread 4096 fp = (take 4096 (f_rest fp), ?fp)" using 1 by (simp add: fread_def)
  show ?case
  proof (cases "length (f_rest fp) < 4096")
    case True
    then have "f_eof ?fp" by simp
    with True 1(2-4) r show ?thesis by (simp add: read_chunks.simps [of fp] read_chunks_eof)
  next
    case False
    with 1(1) [OF _ r [symmetric] refl] 1(2-4) r show ?thesis by (simp add: read_chunks.simps [of fp])
  qed
qed

lemma read_chunks_bad: "f_bad fp \<Longrightarrow> \<not> f_eof fp \<Longrightarrow> read_chunks fp data = None"
  by (simp add: read_chunks.simps [of fp] fread_def)

lemma GetContents_ok:
  "GetContents f fs =
     (case fs_files fs f of
        None \<Rightarrow> (Exited 1, fs) | Some x \<Rightarrow> if fs_bad fs f then (Exited 1, fs) else (Done x, fs))"
  by (simp add: GetContents_def read_chunks_all read_chunks_bad split: option.split)

lemma SetContents_ok:
  assumes "fs_writable fs f" and "length str \<le> fs_room fs f"
  shows "SetContents f str fs =
    (if str = [] then Exited 1 else Done (), fs\<lparr>fs_files := (fs_files fs)(f \<mapsto> str)\<rparr>)"
  using assms by (simp add: SetContents_def fwrite_one_def)

text \<open>A file that can be read, and one that \<open>n\<close> bytes can be written to\<close>

definition readable :: "file_system \<Rightarrow> string \<Rightarrow> bytes \<Rightarrow> bool" where
  "readable fs f x \<longleftrightarrow> fs_files fs f = Some x \<and> \<not> fs_bad fs f"

definition can_write :: "file_system \<Rightarrow> string \<Rightarrow> nat \<Rightarrow> bool" where
  "can_write fs f n \<longleftrightarrow> fs_writable fs f \<and> n \<le> fs_room fs f"

lemma GetContents_readable: "readable fs f x \<Longrightarrow> GetContents f fs = (Done x, fs)"
  by (simp add: readable_def GetContents_ok)

section \<open>What the commands do\<close>

lemma CompressFile_ok:
  assumes tm: "test_memory_ok tm" and x: "readable fs f x" "length x < 2 ^ 31"
    and out: "can_write fs (f @ ''.comp'') (MaxCompressedLength (length x))"
  shows "\<exists>y. CompressFile libs tm w f fs = (Done w, fs\<lparr>fs_files := (fs_files fs)(f @ ''.comp'' \<mapsto> y)\<rparr>) \<and>
    encodes y x \<and> length y \<le> MaxCompressedLength (length x)"
proof -
  have "length x < 2 ^ 32" using x(2) by simp
  from compress_snappy_ok [OF tm this, of "string_resize [] (MaxCompressedLength (length x))" False] obtain y where
    y: "compress_snappy tm x (string_resize [] (MaxCompressedLength (length x))) False = Some y" "encodes y x"
      "length y \<le> MaxCompressedLength (length x)" by auto
  then have "y \<noteq> []" using Encode32_length [of "of_nat (length x)"] by (auto simp: encodes_def)
  with y out GetContents_readable [OF x(1)] show ?thesis
    by (auto simp: CompressFile_def Compress_with_def run_bind_def or_abort_def run_done_def SetContents_ok can_write_def)
qed

lemma CheckUncompressedLength_ok:
  assumes "test_memory_ok tm" and "length c < 2 ^ 32"
  shows "CheckUncompressedLength tm c =
    (if (GetUncompressedLength c = None) = (varint32 c 0 0 = None) then Some (GetUncompressedLength c \<noteq> None) else None)"
proof -
  have "fst (ReadUncompressedLength_loop byte_array_source (ByteArraySource_init c) 0 0) = map_option fst (varint32 c 0 0)"
    using array_source.read_length [of "ByteArraySource_init c" 0 0] bas_init [of c] assms(2) by auto
  then show ?thesis
    by (cases "varint32 c 0 0") (auto simp: CheckUncompressedLength_def GetUncompressedLength_source_def
      ReadUncompressedLength_def SnappyDecompressor_init_def assert_that_def Let_def split: prod.splits)
qed

lemma UncompressFile_ok:
  assumes tm: "test_memory_ok tm" and y: "readable fs f y" "encodes y x" "length y < 2 ^ 32" and x: "length x < 2 ^ 31"
    and out: "can_write fs (f @ ''.uncomp'') (length x)"
  shows "UncompressFile tm f fs =
    (if x = [] then Exited 1 else Done (), fs\<lparr>fs_files := (fs_files fs)(f @ ''.uncomp'' \<mapsto> x)\<rparr>)"
proof -
  have "length x < 2 ^ 32" using x by simp
  note e = encodes_output [OF y(2) this]
  have "varint32 y 0 0 \<noteq> None" using e(1) by (auto simp: stream_output_def split: option.splits)
  with e(2) have "CheckUncompressedLength tm y = Some True"
    by (simp add: CheckUncompressedLength_ok [OF tm y(3)])
  with e(2) GetContents_readable [OF y(1)] uncompress_encoded [OF tm x y(2,3)] out show ?thesis
    by (simp add: UncompressFile_def run_bind_def or_abort_def SetContents_ok can_write_def)
qed

text \<open>
  C25: the commands of the test program undo each other. CompressFile of a file of less than 2 GiB writes
  \<open>f.comp\<close>, and UncompressFile of that writes the contents of the file to \<open>f.comp.uncomp\<close> and changes
  nothing else; but if the file was empty, it ends with an error after it has written what it
  should, because it takes an item of no bytes for a failed write.
\<close>

theorem files_round_trip:
  assumes "test_memory_ok tm" and "readable fs f x" "length x < 2 ^ 31"
    and "can_write fs (f @ ''.comp'') (MaxCompressedLength (length x))" "\<not> fs_bad fs (f @ ''.comp'')"
    and "can_write fs (f @ ''.comp.uncomp'') (length x)"
  shows "\<exists>y fs'. CompressFile libs tm w f fs = (Done w, fs') \<and>
    fs' = fs\<lparr>fs_files := (fs_files fs)(f @ ''.comp'' \<mapsto> y)\<rparr> \<and>
    UncompressFile tm (f @ ''.comp'') fs' =
      (if x = [] then Exited 1 else Done (), fs'\<lparr>fs_files := (fs_files fs')(f @ ''.comp.uncomp'' \<mapsto> x)\<rparr>)"
proof -
  obtain y where y: "CompressFile libs tm w f fs = (Done w, fs\<lparr>fs_files := (fs_files fs)(f @ ''.comp'' \<mapsto> y)\<rparr>)"
    "encodes y x" "length y \<le> MaxCompressedLength (length x)"
    using CompressFile_ok [OF assms(1-4), of libs w] by blast
  let ?fs = "fs\<lparr>fs_files := (fs_files fs)(f @ ''.comp'' \<mapsto> y)\<rparr>"
  have "readable ?fs (f @ ''.comp'') y" "can_write ?fs ((f @ ''.comp'') @ ''.uncomp'') (length x)"
    using assms(5,6) by (simp_all add: readable_def can_write_def)
  moreover have "length y < 2 ^ 32" using y(3) assms(3) by (simp add: MaxCompressedLength_small)
  ultimately have "UncompressFile tm (f @ ''.comp'') ?fs =
      (if x = [] then Exited 1 else Done (), ?fs\<lparr>fs_files := (fs_files ?fs)((f @ ''.comp'') @ ''.uncomp'' \<mapsto> x)\<rparr>)"
    using UncompressFile_ok [OF assms(1) _ y(2) _ assms(3), of ?fs "f @ ''.comp''"] by simp
  with y(1) show ?thesis by (intro exI [of _ y] exI [of _ ?fs]) simp
qed

lemma measure_one: "measure_codecs libs tm x len r [(ctype, bs)] w = map_option snd (Measure libs tm x len ctype r bs w)"
  by (cases "Measure libs tm x len ctype r bs w") auto

lemma measure_len_default:
  assumes tm: "test_memory_ok tm" and len: "len = length x" "len + 10485760 < 2 ^ 31"
  shows "measure_len libs tm default_flags x (int len) w = (if len = 0 then None else Some w)"
proof -
  let ?r = "nat ((10485760 + int len) sdiv (int len + 1))"
  have codecs: "measured_codecs default_flags = [(SNAPPY, 4194304)]"
    by (simp add: measured_codecs_def default_flags_def)
  have range: "int len + 1 < 2 ^ 31" "FLAGS_bytes default_flags + int len < 2 ^ 31" "- (2 ^ 31) \<le> FLAGS_bytes default_flags + int len"
    "int len + 1 \<noteq> 0" using len(2) by (simp_all add: default_flags_def)
  have "nat (int len mod 2 ^ 64) = len" using len(2) by (simp add: nat_mod_as_int [symmetric])
  with range codecs have m: "measure_len libs tm default_flags x (int len) w =
      map_option snd (Measure libs tm x len SNAPPY ?r 4194304 w)"
    by (simp add: measure_len_def Let_def measure_one default_flags_def del: measure_codecs.simps)
  show ?thesis
  proof (cases "len = 0")
    case True
    then have "Measure libs tm x len SNAPPY ?r 4194304 w = None"
      by (simp add: Measure_def number_of_blocks_def int_of_size_def assert_that_def)
    with m True show ?thesis by simp
  next
    case False
    with Measure_ok [OF tm, of len x 4194304 libs ?r w] len m show ?thesis by auto
  qed
qed

text \<open>
  The program without flags, given a file: it reads it and measures Snappy on its whole
  contents, up to 2 GiB less the 10 MiB of FLAGS_bytes. An empty file makes it read outside of an empty vector.
\<close>

theorem MeasureFile_default:
  assumes "test_memory_ok tm" and "readable fs f x" and "length x + 10485760 < 2 ^ 31"
  shows "process_files libs tm default_flags w [f] fs = (if x = [] then Aborted else Done 0, fs)"
proof -
  have "int_of_size (length x) = int (length x)" using assms(3) by (intro int_of_size_small) simp
  then have "MeasureFile libs tm default_flags f w fs = (if x = [] then Aborted else Done w, fs)"
    using measure_len_default [OF assms(1) refl assms(3), of libs w] GetContents_readable [OF assms(2)]
    by (simp add: MeasureFile_def run_bind_def or_abort_def default_flags_def Let_def)
  then show ?thesis by (simp add: process_file_def default_flags_def run_bind_def run_done_def)
qed

section \<open>An example\<close>

definition demo_fs :: file_system where
  "demo_fs = \<lparr>fs_files = [''a'' \<mapsto> [1, 2, 3], ''b'' \<mapsto> []], fs_bad = \<lambda>f. False, fs_writable = \<lambda>f. True, fs_room = \<lambda>f. 1000\<rparr>"

lemma demo_readable: "readable demo_fs ''a'' [1, 2, 3]" "readable demo_fs ''b'' []"
  by (simp_all add: readable_def demo_fs_def)

lemma demo_can_write: "n \<le> 1000 \<Longrightarrow> can_write demo_fs f n"
  by (simp add: can_write_def demo_fs_def)

theorem files_round_trip_witness:
  "\<exists>y fs'. CompressFile demo_libraries calm_memory () ''b'' demo_fs = (Done (), fs') \<and>
    UncompressFile calm_memory ''b.comp'' fs' = (Exited 1, fs'\<lparr>fs_files := (fs_files fs')(''b.comp.uncomp'' \<mapsto> [])\<rparr>) \<and>
    fs' = demo_fs\<lparr>fs_files := (fs_files demo_fs)(''b.comp'' \<mapsto> y)\<rparr>"
proof -
  have "can_write demo_fs (''b'' @ ''.comp'') (MaxCompressedLength (length ([] :: bytes)))"
    "can_write demo_fs (''b'' @ ''.comp.uncomp'') (length ([] :: bytes))" "\<not> fs_bad demo_fs (''b'' @ ''.comp'')"
    by (simp_all add: demo_can_write MaxCompressedLength_small demo_fs_def [THEN arg_cong [of _ _ fs_bad]])
  with files_round_trip [OF calm_memory_ok demo_readable(2), of demo_libraries "()"] show ?thesis by auto
qed

theorem MeasureFile_default_witness:
  "process_files demo_libraries calm_memory default_flags () [''a''] demo_fs = (Done 0, demo_fs) \<and>
   process_files demo_libraries calm_memory default_flags () [''b''] demo_fs = (Aborted, demo_fs)"
  using MeasureFile_default [OF calm_memory_ok demo_readable(1), of demo_libraries "()"]
    MeasureFile_default [OF calm_memory_ok demo_readable(2), of demo_libraries "()"] by simp

end
