(* ===== verification/SnappyBenchmarks.thy ===== *)
theory SnappyBenchmarks
  imports SnappyTestFiles
begin

text \<open>
  The benchmarks of Snappy (\<open>snappy_unittest.cc\<close>) and their driver (\<open>snappy-test.h\<close>,
  \<open>snappy-test.cc\<close>, the POSIX branches): each benchmark checks what it measures. The clocks are a
  parameter.
\<close>

section \<open>Time\<close>

record timeval =
  tv_sec :: int
  tv_usec :: int

text \<open>What \<open>gettimeofday\<close> and \<open>getrusage\<close> answer; the latter may fail.\<close>

record reading =
  rd_real :: timeval
  rd_cpu :: "timeval option"

text \<open>A label, and the sizes of the ratio that \<open>BM_ZFlat\<close> prints behind it\<close>

type_synonym bm_label = "string \<times> (nat \<times> nat) option"

text \<open>
  The global variables, with the files, the readings of the clocks and the number of readings so
  far
\<close>

record bench =
  bm_fs :: file_system
  bm_clock :: "nat \<Rightarrow> reading"
  bm_readings :: nat
  benchmark_running :: bool
  benchmark_real_time_us :: int
  benchmark_cpu_time_us :: int
  benchmark_label :: "bm_label option"
  benchmark_bytes_processed :: int
  benchmark_start_real :: timeval
  benchmark_start_cpu :: timeval

text \<open>An \<open>int64\<close>, which must not overflow\<close>

definition int64 :: "int \<Rightarrow> int option" where
  "int64 n = (if - (2 ^ 63) \<le> n \<and> n < 2 ^ 63 then Some n else None)"

definition ResetBenchmarkTiming :: "(bench, unit) run" where
  "ResetBenchmarkTiming s = (Done (), s\<lparr>benchmark_real_time_us := 0, benchmark_cpu_time_us := 0\<rparr>)"

definition read_clocks :: "(bench, timeval \<times> timeval) run" where
  "read_clocks s =
     (let r = bm_clock s (bm_readings s); s = s\<lparr>bm_readings := bm_readings s + 1\<rparr>
      in case rd_cpu r of None \<Rightarrow> (Exited 1, s) | Some cpu \<Rightarrow> (Done (rd_real r, cpu), s))"

definition StartBenchmarkTiming :: "(bench, unit) run" where
  "StartBenchmarkTiming =
     run_bind read_clocks (\<lambda>(real, cpu) s.
       (Done (), s\<lparr>benchmark_start_real := real, benchmark_start_cpu := cpu, benchmark_running := True\<rparr>))"

definition add_elapsed :: "int \<Rightarrow> timeval \<Rightarrow> timeval \<Rightarrow> int option" where
  "add_elapsed time_us start stop =
     do {
       us \<leftarrow> int64 (1000000 * (tv_sec stop - tv_sec start));
       time_us \<leftarrow> int64 (time_us + us);
       int64 (time_us + (tv_usec stop - tv_usec start))
     }"

definition StopBenchmarkTiming :: "(bench, unit) run" where
  "StopBenchmarkTiming s =
     (if \<not> benchmark_running s then (Done (), s)
      else
        run_bind read_clocks (\<lambda>(real, cpu).
        run_bind (or_abort (add_elapsed (benchmark_real_time_us s) (benchmark_start_real s) real)) (\<lambda>real_us.
        run_bind (or_abort (add_elapsed (benchmark_cpu_time_us s) (benchmark_start_cpu s) cpu)) (\<lambda>cpu_us s.
          (Done (), s\<lparr>benchmark_real_time_us := real_us, benchmark_cpu_time_us := cpu_us, benchmark_running := False\<rparr>)))) s)"

definition SetBenchmarkLabel :: "bm_label \<Rightarrow> (bench, unit) run" where
  "SetBenchmarkLabel str s = (Done (), s\<lparr>benchmark_label := Some str\<rparr>)"

definition SetBenchmarkBytesProcessed :: "int \<Rightarrow> (bench, unit) run" where
  "SetBenchmarkBytesProcessed n s = (Done (), s\<lparr>benchmark_bytes_processed := n\<rparr>)"

section \<open>The benchmarks\<close>

text \<open>The files: label, file name and limit of the size\<close>

definition bm_files :: "(string \<times> string \<times> nat) list" where
  "bm_files =
     [(''html'', ''html'', 0), (''urls'', ''urls.10K'', 0), (''jpg'', ''house.jpg'', 0),
      (''jpg_200'', ''house.jpg'', 200), (''pdf'', ''mapreduce-osdi-1.pdf'', 0), (''html4'', ''html_x_4'', 0),
      (''cp'', ''cp.html'', 0), (''c'', ''fields.c'', 0), (''lsp'', ''grammar.lsp'', 0),
      (''xls'', ''kennedy.xls'', 0), (''xls_200'', ''kennedy.xls'', 200), (''txt1'', ''alice29.txt'', 0),
      (''txt2'', ''asyoulik.txt'', 0), (''txt3'', ''lcet10.txt'', 0), (''txt4'', ''plrabn12.txt'', 0),
      (''bin'', ''ptt5'', 0), (''bin_200'', ''ptt5'', 200), (''sum'', ''sum'', 0), (''man'', ''xargs.1'', 0),
      (''pb'', ''geo.protodata'', 0), (''gaviota'', ''kppkn.gtb'', 0)]"

definition on_files :: "'a fs_run \<Rightarrow> (bench, 'a) run" where
  "on_files m s = (case m (bm_fs s) of (r, fs) \<Rightarrow> (r, s\<lparr>bm_fs := fs\<rparr>))"

definition pick_file :: "string option \<Rightarrow> int \<Rightarrow> (bench, string \<times> bytes) run" where
  "pick_file srcdir arg =
     run_bind (or_abort (assert_that (0 \<le> arg))) (\<lambda>_.
     run_bind (or_abort (assert_that (arg < int (length bm_files)))) (\<lambda>_.
     let (label, filename, size_limit) = bm_files ! nat arg
     in run_bind (on_files (ReadTestDataFile srcdir filename size_limit)) (\<lambda>contents.
        run_done (label, contents))))"

text \<open>What the first three benchmarks share: the file, its compressed form, the settings\<close>

definition bm_uncompress ::
  "test_memory \<Rightarrow> string option \<Rightarrow> (bytes \<Rightarrow> bytes \<Rightarrow> unit option) \<Rightarrow> int \<Rightarrow> int \<Rightarrow> (bench, unit) run" where
  "bm_uncompress tm srcdir loop iters arg =
     run_bind StopBenchmarkTiming (\<lambda>_.
     run_bind (pick_file srcdir arg) (\<lambda>(label, contents).
     run_bind (or_abort (Compress_string (tm_new tm) (tm_small tm) (tm_large tm) contents [])) (\<lambda>(zcontents, n).
     run_bind (or_abort (int64 (iters * int (length contents)))) (\<lambda>n.
     run_bind (SetBenchmarkBytesProcessed n) (\<lambda>_.
     run_bind (SetBenchmarkLabel (label, None)) (\<lambda>_.
     run_bind StartBenchmarkTiming (\<lambda>_.
     run_bind (or_abort (loop contents zcontents)) (\<lambda>_.
     StopBenchmarkTiming))))))))"

fun uflat_loop :: "test_memory \<Rightarrow> nat \<Rightarrow> bytes \<Rightarrow> bytes \<Rightarrow> unit option" where
  "uflat_loop tm 0 zcontents dst = Some ()"
| "uflat_loop tm (Suc iters) zcontents dst =
     do {
       (ok, dst) \<leftarrow> RawUncompress (tm_scratch tm) zcontents dst;
       assert_that ok;
       uflat_loop tm iters zcontents dst
     }"

definition BM_UFlat :: "test_memory \<Rightarrow> string option \<Rightarrow> int \<Rightarrow> int \<Rightarrow> (bench, unit) run" where
  "BM_UFlat tm srcdir iters arg =
     bm_uncompress tm srcdir
       (\<lambda>contents zcontents. uflat_loop tm (nat iters) zcontents (tm_new tm (length contents))) iters arg"

fun uvalidate_loop :: "test_memory \<Rightarrow> nat \<Rightarrow> bytes \<Rightarrow> unit option" where
  "uvalidate_loop tm 0 zcontents = Some ()"
| "uvalidate_loop tm (Suc iters) zcontents =
     do {
       ok \<leftarrow> IsValidCompressedBuffer (tm_scratch tm) zcontents;
       assert_that ok;
       uvalidate_loop tm iters zcontents
     }"

definition BM_UValidate :: "test_memory \<Rightarrow> string option \<Rightarrow> int \<Rightarrow> int \<Rightarrow> (bench, unit) run" where
  "BM_UValidate tm srcdir iters arg =
     bm_uncompress tm srcdir (\<lambda>contents zcontents. uvalidate_loop tm (nat iters) zcontents) iters arg"

text \<open>The lengths of the ten buffers, \<open>k\<close> of which are left, with \<open>used\<close> bytes so far\<close>

fun bm_iov_lengths :: "nat \<Rightarrow> nat \<Rightarrow> nat \<Rightarrow> nat list" where
  "bm_iov_lengths 0 sz used = []"
| "bm_iov_lengths (Suc k) sz used =
     (if used = sz then 0 # bm_iov_lengths k sz used
      else
        let len = (if k = 0 then sz - used else sz div 10)
        in len # bm_iov_lengths k sz (used + len))"

fun uiovec_loop :: "test_memory \<Rightarrow> nat \<Rightarrow> bytes \<Rightarrow> bytes list \<Rightarrow> unit option" where
  "uiovec_loop tm 0 zcontents iov = Some ()"
| "uiovec_loop tm (Suc iters) zcontents iov =
     do {
       (ok, iov) \<leftarrow> RawUncompressToIOVec (tm_scratch tm) zcontents iov;
       assert_that ok;
       uiovec_loop tm iters zcontents iov
     }"

definition BM_UIOVec :: "test_memory \<Rightarrow> string option \<Rightarrow> int \<Rightarrow> int \<Rightarrow> (bench, unit) run" where
  "BM_UIOVec tm srcdir iters arg =
     bm_uncompress tm srcdir
       (\<lambda>contents zcontents.
          uiovec_loop tm (nat iters) zcontents
            (cut (bm_iov_lengths 10 (length contents) 0) (tm_new tm (length contents)))) iters arg"

fun zflat_loop :: "test_memory \<Rightarrow> nat \<Rightarrow> bytes \<Rightarrow> bytes \<Rightarrow> nat \<Rightarrow> nat option" where
  "zflat_loop tm 0 contents dst zsize = Some zsize"
| "zflat_loop tm (Suc iters) contents dst zsize =
     do {
       (dst, zsize) \<leftarrow> RawCompress (tm_new tm) (tm_small tm) (tm_large tm) contents dst;
       zflat_loop tm iters contents dst zsize
     }"

definition BM_ZFlat :: "test_memory \<Rightarrow> string option \<Rightarrow> int \<Rightarrow> int \<Rightarrow> (bench, unit) run" where
  "BM_ZFlat tm srcdir iters arg =
     run_bind StopBenchmarkTiming (\<lambda>_.
     run_bind (pick_file srcdir arg) (\<lambda>(label, contents).
     run_bind (or_abort (int64 (iters * int (length contents)))) (\<lambda>n.
     run_bind (SetBenchmarkBytesProcessed n) (\<lambda>_.
     run_bind StartBenchmarkTiming (\<lambda>_.
     run_bind (or_abort (zflat_loop tm (nat iters) contents (tm_new tm (MaxCompressedLength (length contents))) 0)) (\<lambda>zsize.
     run_bind StopBenchmarkTiming (\<lambda>_.
     SetBenchmarkLabel (label, Some (zsize, max 1 (length contents))))))))))"

section \<open>The driver\<close>

record Benchmark =
  bm_name :: string
  bm_function :: "int \<Rightarrow> int \<Rightarrow> (bench, unit) run"
  bm_start :: int
  bm_stop :: int

text \<open>A printed line; the speed is in bytes per second.\<close>

record bm_line =
  ln_case :: int
  ln_real_ns :: int
  ln_cpu_ns :: int
  ln_iterations :: int
  ln_speed :: "int option"
  ln_label :: bm_label

record BenchmarkRun =
  run_real_us :: int
  run_cpu_us :: int

text \<open>\<open>nth_element\<close> at the middle; of runs with the same time it may pick another one.\<close>

definition median_run :: "BenchmarkRun list \<Rightarrow> BenchmarkRun" where
  "median_run runs = sort_key run_cpu_us runs ! (length runs div 2)"

definition timed_run :: "Benchmark \<Rightarrow> int \<Rightarrow> int \<Rightarrow> (bench, unit) run" where
  "timed_run bm iterations test_case =
     run_bind ResetBenchmarkTiming (\<lambda>_.
     run_bind StartBenchmarkTiming (\<lambda>_.
     run_bind (bm_function bm iterations test_case) (\<lambda>_.
     StopBenchmarkTiming)))"

fun benchmark_runs :: "nat \<Rightarrow> Benchmark \<Rightarrow> int \<Rightarrow> int \<Rightarrow> (bench, BenchmarkRun list) run" where
  "benchmark_runs 0 bm iterations test_case = run_done []"
| "benchmark_runs (Suc n) bm iterations test_case =
     run_bind (timed_run bm iterations test_case) (\<lambda>_ s.
     run_bind (benchmark_runs n bm iterations test_case) (\<lambda>runs.
     run_done (\<lparr>run_real_us = benchmark_real_time_us s, run_cpu_us = benchmark_cpu_time_us s\<rparr> # runs)) s)"

definition iterations_for :: "int \<Rightarrow> int" where
  "iterations_for real_us = max (if 0 < real_us then 200000 * 100 div real_us else 0) 100"

definition run_case :: "Benchmark \<Rightarrow> int \<Rightarrow> (bench, bm_line) run" where
  "run_case bm test_case =
     run_bind (timed_run bm 100 test_case) (\<lambda>_ s.
     let num_iterations = iterations_for (benchmark_real_time_us s)
     in run_bind (benchmark_runs 5 bm num_iterations test_case) (\<lambda>runs s.
        let real_us = run_real_us (median_run runs);
            cpu_us = run_cpu_us (median_run runs)
        in run_bind (or_abort
             (do {
                speed \<leftarrow> (if cpu_us \<le> 0 then Some None
                  else map_option (\<lambda>n. Some (n sdiv cpu_us)) (int64 (benchmark_bytes_processed s * 1000000)));
                real_ns \<leftarrow> int64 (real_us * 1000);
                cpu_ns \<leftarrow> int64 (cpu_us * 1000);
                label \<leftarrow> benchmark_label s;
                Some \<lparr>ln_case = test_case, ln_real_ns = real_ns sdiv num_iterations, ln_cpu_ns = cpu_ns sdiv num_iterations,
                  ln_iterations = num_iterations, ln_speed = speed, ln_label = label\<rparr>
              })) run_done s) s)"

fun run_cases :: "Benchmark \<Rightarrow> int list \<Rightarrow> (bench, bm_line list) run" where
  "run_cases bm [] = run_done []"
| "run_cases bm (c # cs) =
     run_bind (run_case bm c) (\<lambda>line. run_bind (run_cases bm cs) (\<lambda>ls. run_done (line # ls)))"

definition Benchmark_Run :: "Benchmark \<Rightarrow> (bench, bm_line list) run" where
  "Benchmark_Run bm = run_cases bm [bm_start bm..bm_stop bm]"

definition Benchmark_BM_UFlat :: "test_memory \<Rightarrow> string option \<Rightarrow> Benchmark" where
  "Benchmark_BM_UFlat tm srcdir =
     \<lparr>bm_name = ''BM_UFlat'', bm_function = BM_UFlat tm srcdir, bm_start = 0, bm_stop = int (length bm_files) - 1\<rparr>"

definition Benchmark_BM_UValidate :: "test_memory \<Rightarrow> string option \<Rightarrow> Benchmark" where
  "Benchmark_BM_UValidate tm srcdir =
     \<lparr>bm_name = ''BM_UValidate'', bm_function = BM_UValidate tm srcdir, bm_start = 0, bm_stop = 4\<rparr>"

definition Benchmark_BM_UIOVec :: "test_memory \<Rightarrow> string option \<Rightarrow> Benchmark" where
  "Benchmark_BM_UIOVec tm srcdir =
     \<lparr>bm_name = ''BM_UIOVec'', bm_function = BM_UIOVec tm srcdir, bm_start = 0, bm_stop = 4\<rparr>"

definition Benchmark_BM_ZFlat :: "test_memory \<Rightarrow> string option \<Rightarrow> Benchmark" where
  "Benchmark_BM_ZFlat tm srcdir =
     \<lparr>bm_name = ''BM_ZFlat'', bm_function = BM_ZFlat tm srcdir, bm_start = 0, bm_stop = int (length bm_files) - 1\<rparr>"

definition RunSpecifiedBenchmarks :: "bool \<Rightarrow> test_memory \<Rightarrow> string option \<Rightarrow> (bench, unit) run" where
  "RunSpecifiedBenchmarks run_microbenchmarks tm srcdir =
     (if \<not> run_microbenchmarks then run_done ()
      else
        run_bind (Benchmark_Run (Benchmark_BM_UFlat tm srcdir)) (\<lambda>_.
        run_bind (Benchmark_Run (Benchmark_BM_UIOVec tm srcdir)) (\<lambda>_.
        run_bind (Benchmark_Run (Benchmark_BM_UValidate tm srcdir)) (\<lambda>_.
        run_bind (Benchmark_Run (Benchmark_BM_ZFlat tm srcdir)) (\<lambda>_. run_done ())))))"

end
