(* ===== verification/SnappyBenchmarkSpec.thy ===== *)
theory SnappyBenchmarkSpec
  imports SnappyBenchmarks
begin

text \<open>
  The benchmarks and their driver come to an end: every check in a benchmark passes, the driver
  prints one line for each case, and the numbers of iterations it chooses are bounded.
\<close>

section \<open>Runs that return\<close>

definition yields :: "('s, 'a) run \<Rightarrow> 's \<Rightarrow> ('a \<Rightarrow> 's \<Rightarrow> bool) \<Rightarrow> bool" where
  "yields m s P \<longleftrightarrow> (\<exists>x s'. m s = (Done x, s') \<and> P x s')"

lemma yields_bind: "yields m s P \<Longrightarrow> (\<And>x s'. P x s' \<Longrightarrow> yields (k x) s' Q) \<Longrightarrow> yields (run_bind m k) s Q"
  by (fastforce simp: yields_def run_bind_def)

lemma yields_done: "P x s \<Longrightarrow> yields (run_done x) s P"
  by (simp add: yields_def run_done_def)

lemma yields_abort: "q = Some x \<Longrightarrow> P x s \<Longrightarrow> yields (or_abort q) s P"
  by (simp add: yields_def or_abort_def)

lemma yields_weaken: "yields m s P \<Longrightarrow> (\<And>x s'. P x s' \<Longrightarrow> Q x s') \<Longrightarrow> yields m s Q"
  by (auto simp: yields_def)

section \<open>Clocks\<close>

text \<open>The times of a clock before 2038\<close>

definition sane_time :: "timeval \<Rightarrow> bool" where
  "sane_time t \<longleftrightarrow> 0 \<le> tv_sec t \<and> tv_sec t < 2 ^ 31 \<and> 0 \<le> tv_usec t \<and> tv_usec t < 1000000"

definition sane_clock :: "(nat \<Rightarrow> reading) \<Rightarrow> bool" where
  "sane_clock clock \<longleftrightarrow> (\<forall>n. sane_time (rd_real (clock n)) \<and> (\<exists>cpu. rd_cpu (clock n) = Some cpu \<and> sane_time cpu))"

text \<open>More microseconds than there are between two of them\<close>

definition max_interval :: int where
  "max_interval = 2200000000000000"

text \<open>At most \<open>k\<close> intervals have been added up since the last reset.\<close>

definition calm :: "int \<Rightarrow> bench \<Rightarrow> bool" where
  "calm k s \<longleftrightarrow> sane_clock (bm_clock s) \<and> \<bar>benchmark_real_time_us s\<bar> \<le> k * max_interval \<and> \<bar>benchmark_cpu_time_us s\<bar> \<le> k * max_interval \<and>
     (benchmark_running s \<longrightarrow> sane_time (benchmark_start_real s) \<and> sane_time (benchmark_start_cpu s))"

text \<open>What the timers leave alone\<close>

definition same_rest :: "bench \<Rightarrow> bench \<Rightarrow> bool" where
  "same_rest s s' \<longleftrightarrow> bm_fs s' = bm_fs s \<and> benchmark_label s' = benchmark_label s \<and>
     benchmark_bytes_processed s' = benchmark_bytes_processed s"

lemma read_clocks_ok:
  assumes "sane_clock (bm_clock s)"
  obtains real cpu where "read_clocks s = (Done (real, cpu), s\<lparr>bm_readings := bm_readings s + 1\<rparr>)"
    "sane_time real" "sane_time cpu"
proof -
  obtain cpu where "sane_time (rd_real (bm_clock s (bm_readings s)))" "rd_cpu (bm_clock s (bm_readings s)) = Some cpu" "sane_time cpu"
    using assms unfolding sane_clock_def by blast
  then show thesis by (intro that [of "rd_real (bm_clock s (bm_readings s))" cpu]) (simp_all add: read_clocks_def Let_def)
qed

lemma Reset_ok: "calm k s \<Longrightarrow> yields ResetBenchmarkTiming s (\<lambda>_ s'. calm 0 s' \<and> same_rest s s')"
  by (simp add: yields_def ResetBenchmarkTiming_def calm_def same_rest_def)

lemma Start_ok:
  assumes "calm k s"
  shows "yields StartBenchmarkTiming s (\<lambda>_ s'. calm k s' \<and> same_rest s s')"
proof -
  have "sane_clock (bm_clock s)" using assms by (simp add: calm_def)
  then obtain real cpu where "read_clocks s = (Done (real, cpu), s\<lparr>bm_readings := bm_readings s + 1\<rparr>)"
    "sane_time real" "sane_time cpu" by (rule read_clocks_ok)
  then show ?thesis using assms by (simp add: yields_def StartBenchmarkTiming_def run_bind_def calm_def same_rest_def)
qed

lemma add_elapsed_ok:
  assumes "\<bar>t\<bar> \<le> k * max_interval" and "k \<le> 100" and "sane_time a" and "sane_time b"
  shows "\<exists>t'. add_elapsed t a b = Some t' \<and> \<bar>t'\<bar> \<le> (k + 1) * max_interval"
proof -
  define ds where "ds = tv_sec b - tv_sec a"
  define du where "du = tv_usec b - tv_usec a"
  have "\<bar>ds\<bar> < 2 ^ 31" "\<bar>du\<bar> < 1000000" using assms(3,4) by (auto simp: ds_def du_def sane_time_def)
  moreover have "k * max_interval \<le> 100 * max_interval" using assms(2) by (simp add: max_interval_def)
  ultimately have "int64 (1000000 * ds) = Some (1000000 * ds)" "int64 (t + 1000000 * ds) = Some (t + 1000000 * ds)"
    "int64 (t + 1000000 * ds + du) = Some (t + 1000000 * ds + du)"
    "\<bar>t + 1000000 * ds + du\<bar> \<le> k * max_interval + max_interval"
    using assms(1) by (auto simp: int64_def max_interval_def)
  then show ?thesis
    unfolding add_elapsed_def ds_def [symmetric] du_def [symmetric]
    by (intro exI [of _ "t + 1000000 * ds + du"]) (simp add: distrib_right)
qed

lemma Stop_ok:
  assumes "calm k s" and "0 \<le> k" "k \<le> 100"
  shows "yields StopBenchmarkTiming s (\<lambda>_ s'. calm (k + 1) s' \<and> same_rest s s')"
proof (cases "benchmark_running s")
  case False
  with assms(1) show ?thesis by (simp add: yields_def StopBenchmarkTiming_def calm_def same_rest_def max_interval_def)
next
  case True
  note c = assms(1) [unfolded calm_def]
  obtain real cpu where r: "read_clocks s = (Done (real, cpu), s\<lparr>bm_readings := bm_readings s + 1\<rparr>)"
    "sane_time real" "sane_time cpu" using c read_clocks_ok by blast
  obtain real_us where "add_elapsed (benchmark_real_time_us s) (benchmark_start_real s) real = Some real_us"
    "\<bar>real_us\<bar> \<le> (k + 1) * max_interval" using add_elapsed_ok [OF _ assms(3) _ r(2)] c True by blast
  moreover obtain cpu_us where "add_elapsed (benchmark_cpu_time_us s) (benchmark_start_cpu s) cpu = Some cpu_us"
    "\<bar>cpu_us\<bar> \<le> (k + 1) * max_interval" using add_elapsed_ok [OF _ assms(3) _ r(3)] c True by blast
  ultimately show ?thesis using r c True
    by (simp add: yields_def StopBenchmarkTiming_def run_bind_def or_abort_def calm_def same_rest_def)
qed

section \<open>The benchmarks pass\<close>

lemma uflat_loop_ok:
  assumes "test_memory_ok tm" and "length x < 2 ^ 31" and "encodes z x" and "length z < 2 ^ 32" and "length dst = length x"
  shows "uflat_loop tm n z dst = Some ()"
  using assms(5)
proof (induction n arbitrary: dst)
  case (Suc n)
  with uncompress_snappy_ok [OF assms(1-4) Suc.prems] show ?case by simp
qed simp

lemma uvalidate_loop_ok:
  assumes "test_memory_ok tm" and "length x < 2 ^ 31" and "encodes z x" and "length z < 2 ^ 32"
  shows "uvalidate_loop tm n z = Some ()"
proof (induction n)
  case (Suc n)
  have "length x < 2 ^ 32" using assms(2) by simp
  with Suc valid_answer [OF test_memory_okD(2) [OF assms(1)] assms(4)] encodes_output [OF assms(3)] show ?case by simp
qed simp

lemma uiovec_loop_ok:
  assumes "test_memory_ok tm" and "length x < 2 ^ 31" and "encodes z x" and "length z < 2 ^ 32"
    and "iov \<noteq> []" and "length iov < 2 ^ 31" and "length x \<le> length (concat iov)"
  shows "uiovec_loop tm n z iov = Some ()"
  using assms(5-7)
proof (induction n arbitrary: iov)
  case (Suc n)
  have "length x < 2 ^ 32" using assms(2) by simp
  note e = encodes_output [OF assms(3) this]
  obtain iov' where r: "RawUncompressToIOVec (tm_scratch tm) z iov = Some (True, iov')" "map length iov' = map length iov"
    using RawUncompressToIOVec_ok [OF test_memory_okD(2) [OF assms(1)] assms(4) Suc.prems(1,2) GetUncompressedLength_fits [OF e(2) Suc.prems(3)]]
      e(1) by auto
  from r(2) have "length (concat iov') = length (concat iov)" "iov' \<noteq> []" "length iov' = length iov"
    using Suc.prems(1) by (auto simp: length_concat dest: map_eq_imp_length_eq)
  with Suc r(1) show ?case by simp
qed simp

lemma bm_iov_lengths_sum:
  "used \<le> sz \<Longrightarrow> used + (k - 1) * (sz div 10) \<le> sz \<Longrightarrow> 0 < k \<Longrightarrow> used + sum_list (bm_iov_lengths k sz used) = sz"
proof (induction k arbitrary: used)
  case (Suc k)
  show ?case
  proof (cases "used = sz")
    case True
    have "sum_list (bm_iov_lengths j sz sz) = 0" for j by (induction j) simp_all
    with True show ?thesis by simp
  next
    case False
    show ?thesis
    proof (cases "k = 0")
      case True
      with Suc.prems show ?thesis by simp
    next
      case k: False
      then have "k = Suc (k - 1)" by simp
      then have "used + sz div 10 + (k - 1) * (sz div 10) \<le> sz" using Suc.prems(2)
        by (metis add.assoc diff_Suc_1 mult_Suc)
      with Suc.IH [of "used + sz div 10"] k False show ?thesis by (simp add: Let_def add.assoc)
    qed
  qed
qed simp

lemma bm_iov_lengths_some: "0 < k \<Longrightarrow> bm_iov_lengths k sz used \<noteq> []"
  by (cases k) (simp_all add: Let_def)

lemma bm_iov_lengths_length: "length (bm_iov_lengths k sz used) = k"
  by (induction k arbitrary: used) (simp_all add: Let_def)

lemma bm_iov_ok:
  "length m = sz \<Longrightarrow> cut (bm_iov_lengths 10 sz 0) m \<noteq> [] \<and>
     length (cut (bm_iov_lengths 10 sz 0) m) < 2 ^ 31 \<and> length (concat (cut (bm_iov_lengths 10 sz 0) m)) = sz"
proof -
  assume "length m = sz"
  moreover have "sum_list (bm_iov_lengths 10 sz 0) = sz" using bm_iov_lengths_sum [of 0 sz 10] by simp
  moreover have "bm_iov_lengths 10 sz 0 \<noteq> []" by (rule bm_iov_lengths_some) simp
  then have "cut (bm_iov_lengths 10 sz 0) m \<noteq> []" by (cases "bm_iov_lengths 10 sz 0") simp_all
  ultimately show ?thesis by (simp add: concat_cut bm_iov_lengths_length)
qed

lemma zflat_loop_ok:
  assumes "test_memory_ok tm" and "length x < 2 ^ 32" and "MaxCompressedLength (length x) \<le> length dst"
  shows "\<exists>r. zflat_loop tm n x dst zsize = Some r"
  using assms(3)
proof (induction n arbitrary: dst zsize)
  case (Suc n)
  from RawCompress_ok [OF test_memory_okD(1) [OF assms(1)] assms(2) Suc.prems] obtain m k where
    "RawCompress (tm_new tm) (tm_small tm) (tm_large tm) x dst = Some (m, k)" "length m = length dst" by blast
  with Suc.IH [of m k] Suc.prems show ?case by simp
qed simp

section \<open>What the driver relies on\<close>

text \<open>
  The size of a file, times the most iterations, times a million fits an \<open>int64\<close>. A larger file could make
  the speed overflow if the clock said that a hundred iterations took a microsecond.
\<close>

definition max_file :: int where
  "max_file = 461168"

definition data_path :: "string option \<Rightarrow> string \<Rightarrow> string" where
  "data_path srcdir filename = (case srcdir of None \<Rightarrow> [] | Some d \<Rightarrow> d @ ''/'') @ ''testdata/'' @ filename"

definition data_files_ok :: "string option \<Rightarrow> file_system \<Rightarrow> bool" where
  "data_files_ok srcdir fs \<longleftrightarrow>
     (\<forall>(label, filename, size_limit) \<in> set bm_files. \<exists>x. readable fs (data_path srcdir filename) x \<and> int (length x) \<le> max_file)"

definition after_benchmark :: "int \<Rightarrow> file_system \<Rightarrow> int \<Rightarrow> bench \<Rightarrow> bool" where
  "after_benchmark k fs n s \<longleftrightarrow> calm k s \<and> bm_fs s = fs \<and> benchmark_label s \<noteq> None \<and>
     0 \<le> benchmark_bytes_processed s \<and> benchmark_bytes_processed s \<le> n * max_file"

lemma iterations_bounds: "100 \<le> iterations_for us \<and> iterations_for us \<le> 20000000"
proof -
  have "20000000 div us \<le> 20000000" if "0 < us" using that by (simp add: int_div_le_self)
  then show ?thesis by (simp add: iterations_for_def)
qed

lemma median_in: "length runs = 5 \<Longrightarrow> median_run runs \<in> set runs"
  by (metis median_run_def div_less_dividend length_sort nth_mem one_less_numeral_iff semiring_norm(76) set_sort zero_less_numeral)

text \<open>No more than half of the runs are faster than the median, and no more are slower.\<close>

lemma median_middle:
  assumes "length runs = 5"
  shows "3 \<le> length (filter (\<lambda>r. run_cpu_us r \<le> run_cpu_us (median_run runs)) runs) \<and>
    3 \<le> length (filter (\<lambda>r. run_cpu_us (median_run runs) \<le> run_cpu_us r) runs)"
proof -
  let ?xs = "sort_key run_cpu_us runs" and ?t = "run_cpu_us (median_run runs)"
  have m: "?t = run_cpu_us (?xs ! 2)" using assms by (simp add: median_run_def)
  have sorted: "i \<le> j \<Longrightarrow> j < 5 \<Longrightarrow> run_cpu_us (?xs ! i) \<le> run_cpu_us (?xs ! j)" for i j
    using sorted_nth_mono [of "map run_cpu_us ?xs" i j] assms by simp
  have count: "length (filter P ?xs) = length (filter P runs)" for P
    by (simp add: filter_sort)
  have "3 = length (take 3 ?xs)" "filter (\<lambda>r. run_cpu_us r \<le> ?t) (take 3 ?xs) = take 3 ?xs"
    using assms sorted m by (auto simp: filter_id_conv in_set_conv_nth)
  then have "3 \<le> length (filter (\<lambda>r. run_cpu_us r \<le> ?t) ?xs)"
    by (metis append_take_drop_id filter_append le_add1 length_append)
  moreover have "3 = length (drop 2 ?xs)" "filter (\<lambda>r. ?t \<le> run_cpu_us r) (drop 2 ?xs) = drop 2 ?xs"
    using assms sorted [of 2] m by (auto simp: filter_id_conv in_set_conv_nth)
  then have "3 \<le> length (filter (\<lambda>r. ?t \<le> run_cpu_us r) ?xs)"
    by (metis append_take_drop_id filter_append le_add2 length_append)
  ultimately show ?thesis by (simp add: count)
qed

lemma line_ok:
  assumes "\<bar>real_us\<bar> \<le> 3 * max_interval" "\<bar>cpu_us\<bar> \<le> 3 * max_interval" and "0 \<le> bytes" "bytes \<le> 20000000 * max_file"
  shows "int64 (real_us * 1000) = Some (real_us * 1000)" "int64 (cpu_us * 1000) = Some (cpu_us * 1000)"
    "int64 (bytes * 1000000) = Some (bytes * 1000000)"
  using assms by (auto simp: int64_def max_interval_def max_file_def)

locale benchmark_function =
  fixes f :: "int \<Rightarrow> int \<Rightarrow> (bench, unit) run" and files_ok :: "file_system \<Rightarrow> bool" and first :: int and last :: int
  assumes passes: "calm 0 s \<Longrightarrow> files_ok (bm_fs s) \<Longrightarrow> first \<le> c \<Longrightarrow> c \<le> last \<Longrightarrow> 100 \<le> n \<Longrightarrow> n \<le> 20000000 \<Longrightarrow>
    yields (f n c) s (\<lambda>_. after_benchmark 2 (bm_fs s) n)"
begin

lemma timed_run_ok:
  assumes "bm_function bm = f" and "calm k s" and "files_ok (bm_fs s)" and "first \<le> c" "c \<le> last" "100 \<le> n" "n \<le> 20000000"
  shows "yields (timed_run bm n c) s (\<lambda>_. after_benchmark 3 (bm_fs s) n)"
  unfolding timed_run_def assms(1)
proof (rule yields_bind [OF Reset_ok [OF assms(2)]], elim conjE)
  fix x s1 assume s1: "calm 0 s1" "same_rest s s1"
  show "yields (run_bind StartBenchmarkTiming (\<lambda>_. run_bind (f n c) (\<lambda>_. StopBenchmarkTiming))) s1
      (\<lambda>_. after_benchmark 3 (bm_fs s) n)"
  proof (rule yields_bind [OF Start_ok [OF s1(1)]], elim conjE)
    fix x s2 assume s2: "calm 0 s2" "same_rest s1 s2"
    have fs: "bm_fs s2 = bm_fs s" using s1(2) s2(2) by (simp add: same_rest_def)
    show "yields (run_bind (f n c) (\<lambda>_. StopBenchmarkTiming)) s2 (\<lambda>_. after_benchmark 3 (bm_fs s) n)"
    proof (rule yields_bind [OF passes [OF s2(1) _ assms(4-7)]])
      show "files_ok (bm_fs s2)" using assms(3) fs by simp
      fix x s3 assume s3: "after_benchmark 2 (bm_fs s2) n s3"
      then have "calm 2 s3" by (simp add: after_benchmark_def)
      from Stop_ok [OF this] s3 fs show "yields StopBenchmarkTiming s3 (\<lambda>_. after_benchmark 3 (bm_fs s) n)"
        by (auto simp: after_benchmark_def same_rest_def elim: yields_weaken)
    qed
  qed
qed

lemma benchmark_runs_ok:
  assumes "bm_function bm = f" and "after_benchmark 3 fs n' s" and "files_ok fs" and "first \<le> c" "c \<le> last" "100 \<le> n" "n \<le> 20000000"
  shows "yields (benchmark_runs j bm n c) s (\<lambda>runs s'. length runs = j \<and>
    (\<forall>r \<in> set runs. \<bar>run_real_us r\<bar> \<le> 3 * max_interval \<and> \<bar>run_cpu_us r\<bar> \<le> 3 * max_interval) \<and>
    after_benchmark 3 fs (if j = 0 then n' else n) s')"
  using assms(2)
proof (induction j arbitrary: s n')
  case 0
  then show ?case by (simp add: yields_def run_done_def)
next
  case (Suc j)
  have s: "calm 3 s" "files_ok (bm_fs s)" "bm_fs s = fs" using Suc.prems assms(3) by (simp_all add: after_benchmark_def)
  show ?case
    unfolding benchmark_runs.simps
  proof (rule yields_bind [OF timed_run_ok [OF assms(1) s(1,2) assms(4-7)]])
    fix x s1 assume s1: "after_benchmark 3 (bm_fs s) n s1"
    then have "calm 3 s1" by (simp add: after_benchmark_def)
    then have r: "\<bar>benchmark_real_time_us s1\<bar> \<le> 3 * max_interval" "\<bar>benchmark_cpu_time_us s1\<bar> \<le> 3 * max_interval"
      by (simp_all add: calm_def)
    from Suc.IH [OF s1 [unfolded s(3)]] show "yields (\<lambda>s. run_bind (benchmark_runs j bm n c)
        (\<lambda>runs. run_done (\<lparr>run_real_us = benchmark_real_time_us s, run_cpu_us = benchmark_cpu_time_us s\<rparr> # runs)) s) s1
        (\<lambda>runs s'. length runs = Suc j \<and>
          (\<forall>r \<in> set runs. \<bar>run_real_us r\<bar> \<le> 3 * max_interval \<and> \<bar>run_cpu_us r\<bar> \<le> 3 * max_interval) \<and>
          after_benchmark 3 fs (if Suc j = 0 then n' else n) s')"
      using r by (auto simp: yields_def run_bind_def run_done_def split: if_splits)
  qed
qed

lemma run_case_ok:
  assumes "bm_function bm = f" and "calm k s" and "files_ok (bm_fs s)" and "first \<le> c" "c \<le> last"
  shows "yields (run_case bm c) s (\<lambda>line s'. ln_case line = c \<and> 100 \<le> ln_iterations line \<and> ln_iterations line \<le> 20000000 \<and>
    calm 3 s' \<and> bm_fs s' = bm_fs s)"
  unfolding run_case_def
proof (rule yields_bind [OF timed_run_ok [OF assms]], simp_all only: Let_def)
  fix s1 assume s1: "after_benchmark 3 (bm_fs s) 100 s1"
  let ?n = "iterations_for (benchmark_real_time_us s1)"
  note n = iterations_bounds [of "benchmark_real_time_us s1"]
  obtain runs s2 where r: "benchmark_runs 5 bm ?n c s1 = (Done runs, s2)" "length runs = 5"
    "\<And>r. r \<in> set runs \<Longrightarrow> \<bar>run_real_us r\<bar> \<le> 3 * max_interval \<and> \<bar>run_cpu_us r\<bar> \<le> 3 * max_interval"
    "after_benchmark 3 (bm_fs s) ?n s2"
    using benchmark_runs_ok [OF assms(1) s1 assms(3-5), of ?n 5] n by (auto simp: yields_def)
  have "benchmark_bytes_processed s2 \<le> ?n * max_file" "0 \<le> benchmark_bytes_processed s2"
    "benchmark_label s2 \<noteq> None" "calm 3 s2" "bm_fs s2 = bm_fs s" using r(4) by (simp_all add: after_benchmark_def)
  moreover have "?n * max_file \<le> 20000000 * max_file" using n by (simp add: max_file_def)
  moreover note r(3) [OF median_in [OF r(2)]]
  ultimately show "yields (\<lambda>s. run_bind (benchmark_runs 5 bm (iterations_for (benchmark_real_time_us s)) c)
      (\<lambda>runs s'. run_bind (or_abort
          (do {
             speed \<leftarrow> (if run_cpu_us (median_run runs) \<le> 0 then Some None
               else map_option (\<lambda>n. Some (n sdiv run_cpu_us (median_run runs))) (int64 (benchmark_bytes_processed s' * 1000000)));
             real_ns \<leftarrow> int64 (run_real_us (median_run runs) * 1000);
             cpu_ns \<leftarrow> int64 (run_cpu_us (median_run runs) * 1000);
             label \<leftarrow> benchmark_label s';
             Some \<lparr>ln_case = c, ln_real_ns = real_ns sdiv iterations_for (benchmark_real_time_us s),
               ln_cpu_ns = cpu_ns sdiv iterations_for (benchmark_real_time_us s),
               ln_iterations = iterations_for (benchmark_real_time_us s), ln_speed = speed, ln_label = label\<rparr>
           })) run_done s') s) s1
      (\<lambda>line s'. ln_case line = c \<and> 100 \<le> ln_iterations line \<and> ln_iterations line \<le> 20000000 \<and> calm 3 s' \<and> bm_fs s' = bm_fs s)"
    using n line_ok [of "run_real_us (median_run runs)" "run_cpu_us (median_run runs)" "benchmark_bytes_processed s2"]
    by (auto simp: yields_def run_bind_def or_abort_def run_done_def r(1))
qed

lemma run_cases_ok:
  assumes "bm_function bm = f" and "calm k s" and "files_ok (bm_fs s)" and "\<forall>c \<in> set cs. first \<le> c \<and> c \<le> last"
  shows "yields (run_cases bm cs) s (\<lambda>ls s'. map ln_case ls = cs \<and>
    (\<forall>l \<in> set ls. 100 \<le> ln_iterations l \<and> ln_iterations l \<le> 20000000) \<and> calm (if cs = [] then k else 3) s' \<and> bm_fs s' = bm_fs s)"
  using assms(2-4)
proof (induction cs arbitrary: s k)
  case (Cons c cs)
  obtain l s1 where l: "run_case bm c s = (Done l, s1)" "ln_case l = c" "100 \<le> ln_iterations l" "ln_iterations l \<le> 20000000"
    "calm 3 s1" "bm_fs s1 = bm_fs s"
    using run_case_ok [OF assms(1) Cons.prems(1,2), of c] Cons.prems(3) by (auto simp: yields_def)
  with Cons.IH [OF l(5)] Cons.prems show ?case by (fastforce simp: yields_def run_bind_def run_done_def)
qed (simp add: yields_def run_done_def)

lemma Benchmark_Run_ok:
  assumes "bm_function bm = f" "bm_start bm = first" "bm_stop bm = last" and "calm 3 s" and "files_ok (bm_fs s)"
  shows "yields (Benchmark_Run bm) s (\<lambda>ls s'. map ln_case ls = [first..last] \<and>
    (\<forall>l \<in> set ls. 100 \<le> ln_iterations l \<and> ln_iterations l \<le> 20000000) \<and> calm 3 s' \<and> bm_fs s' = bm_fs s)"
  using run_cases_ok [OF assms(1,4,5), of "[first..last]"]
  by (auto simp: Benchmark_Run_def assms(2,3) elim!: yields_weaken split: if_splits)

end

section \<open>The benchmarks keep to it\<close>

lemma pick_file_ok:
  assumes "data_files_ok srcdir (bm_fs s)" and "0 \<le> arg" "arg < int (length bm_files)"
  shows "yields (pick_file srcdir arg) s (\<lambda>(label, contents) s'. s' = s \<and> int (length contents) \<le> max_file)"
proof -
  obtain label filename size_limit where f: "bm_files ! nat arg = (label, filename, size_limit)" by (metis prod_cases3)
  have "nat arg < length bm_files" using assms(2,3) by simp
  then have "(label, filename, size_limit) \<in> set bm_files" using f nth_mem by metis
  with assms(1) obtain x where x: "readable (bm_fs s) (data_path srcdir filename) x" "int (length x) \<le> max_file"
    unfolding data_files_ok_def by blast
  have r: "ReadTestDataFile srcdir filename size_limit (bm_fs s) =
      (Done (if 0 < size_limit then take size_limit x else x), bm_fs s)"
    using GetContents_readable [OF x(1)]
    by (simp add: ReadTestDataFile_def run_bind_def run_done_def data_path_def cong: option.case_cong)
  show ?thesis using assms(2,3) x(2)
    by (auto simp: pick_file_def f yields_def run_bind_def or_abort_def run_done_def on_files_def r min_le_iff_disj)
qed

lemma bytes_ok:
  assumes "100 \<le> n" "n \<le> 20000000" and "int (length x) \<le> max_file"
  shows "int64 (n * int (length x)) = Some (n * int (length x))" "0 \<le> n * int (length x)" "n * int (length x) \<le> n * max_file"
proof -
  show le: "0 \<le> n * int (length x)" "n * int (length x) \<le> n * max_file" using assms by (simp_all add: mult_left_mono)
  have "n * max_file \<le> 20000000 * max_file" using assms(2) by (simp add: max_file_def)
  with le show "int64 (n * int (length x)) = Some (n * int (length x))" by (simp add: int64_def max_file_def)
qed

lemma same_rest_after:
  assumes "calm k s'" and "same_rest s s'" and "benchmark_label s \<noteq> None" and "0 \<le> benchmark_bytes_processed s"
    "benchmark_bytes_processed s \<le> n * max_file"
  shows "after_benchmark k (bm_fs s) n s'"
  using assms by (simp add: after_benchmark_def same_rest_def)

lemma bm_uncompress_ok:
  assumes tm: "test_memory_ok tm" and s: "calm 0 s" "data_files_ok srcdir (bm_fs s)" and arg: "0 \<le> arg" "arg < int (length bm_files)"
    and n: "100 \<le> n" "n \<le> 20000000"
    and loop: "\<And>x z. length x < 2 ^ 31 \<Longrightarrow> encodes z x \<Longrightarrow> length z < 2 ^ 32 \<Longrightarrow> loop x z = Some ()"
  shows "yields (bm_uncompress tm srcdir loop n arg) s (\<lambda>_. after_benchmark 2 (bm_fs s) n)"
proof -
  obtain s1 where s1: "StopBenchmarkTiming s = (Done (), s1)" "calm 1 s1" "same_rest s s1"
    using Stop_ok [OF s(1)] by (auto simp: yields_def)
  have fs: "bm_fs s1 = bm_fs s" using s1(3) by (simp add: same_rest_def)
  obtain label x where x: "pick_file srcdir arg s1 = (Done (label, x), s1)" "int (length x) \<le> max_file"
    using pick_file_ok [of srcdir s1, OF _ arg] s(2) fs by (auto simp: yields_def)
  have small: "length x < 2 ^ 31" "length x < 2 ^ 32" using x(2) by (simp_all add: max_file_def)
  obtain z where z: "Compress_string (tm_new tm) (tm_small tm) (tm_large tm) x [] = Some (z, length z)" "encodes z x"
    "length z \<le> MaxCompressedLength (length x)"
    using Compress_string_ok [OF test_memory_okD(1) [OF tm] small(2)] by blast
  have "length z < 2 ^ 32" using z(3) small(1) by (simp add: MaxCompressedLength_small)
  note l = loop [OF small(1) z(2) this]
  let ?s = "s1\<lparr>benchmark_bytes_processed := n * int (length x), benchmark_label := Some (label, None)\<rparr>"
  have "calm 1 ?s" using s1(2) by (simp add: calm_def)
  then obtain s2 where s2: "StartBenchmarkTiming ?s = (Done (), s2)" "calm 1 s2" "same_rest ?s s2"
    using Start_ok by (fastforce simp: yields_def)
  obtain s3 where s3: "StopBenchmarkTiming s2 = (Done (), s3)" "calm 2 s3" "same_rest s2 s3"
    using Stop_ok [OF s2(2)] by (auto simp: yields_def)
  have "same_rest ?s s3" using s2(3) s3(3) by (simp add: same_rest_def)
  from same_rest_after [OF s3(2) this] bytes_ok [OF n x(2)] fs have "after_benchmark 2 (bm_fs s) n s3" by simp
  with s1(1) x(1) z(1) l s2(1) s3(1) bytes_ok(1) [OF n x(2)] show ?thesis
    by (simp add: yields_def bm_uncompress_def run_bind_def or_abort_def SetBenchmarkBytesProcessed_def SetBenchmarkLabel_def)
qed

lemma BM_ZFlat_ok:
  assumes tm: "test_memory_ok tm" and s: "calm 0 s" "data_files_ok srcdir (bm_fs s)" and arg: "0 \<le> arg" "arg < int (length bm_files)"
    and n: "100 \<le> n" "n \<le> 20000000"
  shows "yields (BM_ZFlat tm srcdir n arg) s (\<lambda>_. after_benchmark 2 (bm_fs s) n)"
proof -
  obtain s1 where s1: "StopBenchmarkTiming s = (Done (), s1)" "calm 1 s1" "same_rest s s1"
    using Stop_ok [OF s(1)] by (auto simp: yields_def)
  have fs: "bm_fs s1 = bm_fs s" using s1(3) by (simp add: same_rest_def)
  obtain label x where x: "pick_file srcdir arg s1 = (Done (label, x), s1)" "int (length x) \<le> max_file"
    using pick_file_ok [of srcdir s1, OF _ arg] s(2) fs by (auto simp: yields_def)
  have small: "length x < 2 ^ 32" using x(2) by (simp add: max_file_def)
  have "length (tm_new tm (MaxCompressedLength (length x))) = MaxCompressedLength (length x)"
    using test_memory_okD(1) [OF tm] by (simp add: memory_ok_def)
  then obtain zsize where z: "zflat_loop tm (nat n) x (tm_new tm (MaxCompressedLength (length x))) 0 = Some zsize"
    using zflat_loop_ok [OF tm small] by fastforce
  let ?s = "s1\<lparr>benchmark_bytes_processed := n * int (length x)\<rparr>"
  have "calm 1 ?s" using s1(2) by (simp add: calm_def)
  then obtain s2 where s2: "StartBenchmarkTiming ?s = (Done (), s2)" "calm 1 s2" "same_rest ?s s2"
    using Start_ok by (fastforce simp: yields_def)
  obtain s3 where s3: "StopBenchmarkTiming s2 = (Done (), s3)" "calm 2 s3" "same_rest s2 s3"
    using Stop_ok [OF s2(2)] by (auto simp: yields_def)
  have "after_benchmark 2 (bm_fs s) n (s3\<lparr>benchmark_label := Some l\<rparr>)" for l
    using s2(3) s3 bytes_ok [OF n x(2)] fs by (simp add: after_benchmark_def same_rest_def calm_def)
  with s1(1) x(1) z s2(1) s3(1) bytes_ok(1) [OF n x(2)] show ?thesis
    by (simp add: yields_def BM_ZFlat_def run_bind_def or_abort_def SetBenchmarkBytesProcessed_def SetBenchmarkLabel_def)
qed

lemma BM_UFlat_ok:
  assumes tm: "test_memory_ok tm" and s: "calm 0 s" "data_files_ok srcdir (bm_fs s)" and arg: "0 \<le> arg" "arg < int (length bm_files)"
    and n: "100 \<le> n" "n \<le> 20000000"
  shows "yields (BM_UFlat tm srcdir n arg) s (\<lambda>_. after_benchmark 2 (bm_fs s) n)"
  unfolding BM_UFlat_def
proof (rule bm_uncompress_ok [OF assms])
  fix x z :: bytes assume "length x < 2 ^ 31" "encodes z x" "length z < 2 ^ 32"
  from uflat_loop_ok [OF tm this] test_memory_okD(1) [OF tm]
  show "uflat_loop tm (nat n) z (tm_new tm (length x)) = Some ()" by (simp add: memory_ok_def)
qed

lemma BM_UValidate_ok:
  assumes tm: "test_memory_ok tm" and s: "calm 0 s" "data_files_ok srcdir (bm_fs s)" and arg: "0 \<le> arg" "arg < int (length bm_files)"
    and n: "100 \<le> n" "n \<le> 20000000"
  shows "yields (BM_UValidate tm srcdir n arg) s (\<lambda>_. after_benchmark 2 (bm_fs s) n)"
  unfolding BM_UValidate_def
  by (rule bm_uncompress_ok [OF assms]) (rule uvalidate_loop_ok [OF tm])

lemma BM_UIOVec_ok:
  assumes tm: "test_memory_ok tm" and s: "calm 0 s" "data_files_ok srcdir (bm_fs s)" and arg: "0 \<le> arg" "arg < int (length bm_files)"
    and n: "100 \<le> n" "n \<le> 20000000"
  shows "yields (BM_UIOVec tm srcdir n arg) s (\<lambda>_. after_benchmark 2 (bm_fs s) n)"
  unfolding BM_UIOVec_def
proof (rule bm_uncompress_ok [OF assms])
  fix x z :: bytes assume x: "length x < 2 ^ 31" "encodes z x" "length z < 2 ^ 32"
  have "length (tm_new tm (length x)) = length x" using test_memory_okD(1) [OF tm] by (simp add: memory_ok_def)
  note iov = bm_iov_ok [OF this]
  show "uiovec_loop tm (nat n) z (cut (bm_iov_lengths 10 (length x) 0) (tm_new tm (length x))) = Some ()"
    using uiovec_loop_ok [OF tm x] iov by simp
qed

definition bench_ready :: "test_memory \<Rightarrow> string option \<Rightarrow> file_system \<Rightarrow> bool" where
  "bench_ready tm srcdir fs \<longleftrightarrow> test_memory_ok tm \<and> data_files_ok srcdir fs"

lemma bm_files_length: "int (length bm_files) = 21"
  by (simp add: bm_files_def)

interpretation uflat: benchmark_function "BM_UFlat tm srcdir" "bench_ready tm srcdir" 0 20 for tm srcdir
  by unfold_locales (rule BM_UFlat_ok; simp add: bench_ready_def bm_files_length)

interpretation uvalidate: benchmark_function "BM_UValidate tm srcdir" "bench_ready tm srcdir" 0 4 for tm srcdir
  by unfold_locales (rule BM_UValidate_ok; simp add: bench_ready_def bm_files_length)

interpretation uiovec: benchmark_function "BM_UIOVec tm srcdir" "bench_ready tm srcdir" 0 4 for tm srcdir
  by unfold_locales (rule BM_UIOVec_ok; simp add: bench_ready_def bm_files_length)

interpretation zflat: benchmark_function "BM_ZFlat tm srcdir" "bench_ready tm srcdir" 0 20 for tm srcdir
  by unfold_locales (rule BM_ZFlat_ok; simp add: bench_ready_def bm_files_length)

section \<open>The whole run\<close>

definition good_lines :: "int \<Rightarrow> bm_line list \<Rightarrow> bool" where
  "good_lines n ls \<longleftrightarrow> map ln_case ls = [0..n] \<and> (\<forall>l \<in> set ls. 100 \<le> ln_iterations l \<and> ln_iterations l \<le> 20000000)"

definition bench_invariant :: "test_memory \<Rightarrow> string option \<Rightarrow> bench \<Rightarrow> bool" where
  "bench_invariant tm srcdir s \<longleftrightarrow> calm 3 s \<and> bench_ready tm srcdir (bm_fs s)"

lemma Benchmark_Runs_ok:
  assumes "bench_invariant tm srcdir s"
  shows "yields (Benchmark_Run (Benchmark_BM_UFlat tm srcdir)) s (\<lambda>ls s'. good_lines 20 ls \<and> bench_invariant tm srcdir s')"
    and "yields (Benchmark_Run (Benchmark_BM_UIOVec tm srcdir)) s (\<lambda>ls s'. good_lines 4 ls \<and> bench_invariant tm srcdir s')"
    and "yields (Benchmark_Run (Benchmark_BM_UValidate tm srcdir)) s (\<lambda>ls s'. good_lines 4 ls \<and> bench_invariant tm srcdir s')"
    and "yields (Benchmark_Run (Benchmark_BM_ZFlat tm srcdir)) s (\<lambda>ls s'. good_lines 20 ls \<and> bench_invariant tm srcdir s')"
proof -
  have s: "calm 3 s" "bench_ready tm srcdir (bm_fs s)" using assms by (simp_all add: bench_invariant_def)
  note simps = good_lines_def bench_invariant_def
  show "yields (Benchmark_Run (Benchmark_BM_UFlat tm srcdir)) s (\<lambda>ls s'. good_lines 20 ls \<and> bench_invariant tm srcdir s')"
    by (rule yields_weaken [OF uflat.Benchmark_Run_ok [OF _ _ _ s]])
      (use s(2) in \<open>simp_all add: simps Benchmark_BM_UFlat_def bm_files_length\<close>)
  show "yields (Benchmark_Run (Benchmark_BM_UIOVec tm srcdir)) s (\<lambda>ls s'. good_lines 4 ls \<and> bench_invariant tm srcdir s')"
    by (rule yields_weaken [OF uiovec.Benchmark_Run_ok [OF _ _ _ s]])
      (use s(2) in \<open>simp_all add: simps Benchmark_BM_UIOVec_def\<close>)
  show "yields (Benchmark_Run (Benchmark_BM_UValidate tm srcdir)) s (\<lambda>ls s'. good_lines 4 ls \<and> bench_invariant tm srcdir s')"
    by (rule yields_weaken [OF uvalidate.Benchmark_Run_ok [OF _ _ _ s]])
      (use s(2) in \<open>simp_all add: simps Benchmark_BM_UValidate_def\<close>)
  show "yields (Benchmark_Run (Benchmark_BM_ZFlat tm srcdir)) s (\<lambda>ls s'. good_lines 20 ls \<and> bench_invariant tm srcdir s')"
    by (rule yields_weaken [OF zflat.Benchmark_Run_ok [OF _ _ _ s]])
      (use s(2) in \<open>simp_all add: simps Benchmark_BM_ZFlat_def bm_files_length\<close>)
qed

text \<open>
  The benchmarks run through. With clocks of before 2038 and data files of at most max_file bytes
  each, every benchmark run by the driver returns: no check in it fails, no time overflows. The driver
  prints a line for each case in order, and has chosen between 100 and 20 million iterations for each.
\<close>

theorem benchmarks_run_through:
  assumes "bench_invariant tm srcdir s"
  shows "yields (RunSpecifiedBenchmarks run tm srcdir) s (\<lambda>_. bench_invariant tm srcdir) \<and>
    yields (Benchmark_Run (Benchmark_BM_UFlat tm srcdir)) s (\<lambda>ls s'. good_lines 20 ls) \<and>
    yields (Benchmark_Run (Benchmark_BM_UIOVec tm srcdir)) s (\<lambda>ls s'. good_lines 4 ls) \<and>
    yields (Benchmark_Run (Benchmark_BM_UValidate tm srcdir)) s (\<lambda>ls s'. good_lines 4 ls) \<and>
    yields (Benchmark_Run (Benchmark_BM_ZFlat tm srcdir)) s (\<lambda>ls s'. good_lines 20 ls)"
proof (intro conjI)
  show "yields (RunSpecifiedBenchmarks run tm srcdir) s (\<lambda>_. bench_invariant tm srcdir)"
    unfolding RunSpecifiedBenchmarks_def using assms
    by (auto intro!: yields_done yields_bind [OF Benchmark_Runs_ok(1)] yields_bind [OF Benchmark_Runs_ok(2)]
        yields_bind [OF Benchmark_Runs_ok(3)] yields_bind [OF Benchmark_Runs_ok(4)])
qed (use Benchmark_Runs_ok [OF assms] in \<open>auto elim: yields_weaken\<close>)

section \<open>An example\<close>

definition demo_bench :: bench where
  "demo_bench = \<lparr>bm_fs = demo_fs\<lparr>fs_files := (\<lambda>f. Some [1, 2, 3])\<rparr>,
     bm_clock = (\<lambda>n. \<lparr>rd_real = \<lparr>tv_sec = 0, tv_usec = 0\<rparr>, rd_cpu = Some \<lparr>tv_sec = 0, tv_usec = 0\<rparr>\<rparr>), bm_readings = 0,
     benchmark_running = False, benchmark_real_time_us = 0, benchmark_cpu_time_us = 0, benchmark_label = None,
     benchmark_bytes_processed = 0, benchmark_start_real = \<lparr>tv_sec = 0, tv_usec = 0\<rparr>,
     benchmark_start_cpu = \<lparr>tv_sec = 0, tv_usec = 0\<rparr>\<rparr>"

lemma demo_bench_invariant: "bench_invariant calm_memory None demo_bench"
proof -
  have "data_files_ok None (bm_fs demo_bench)"
    by (auto simp: data_files_ok_def demo_bench_def demo_fs_def readable_def max_file_def)
  then show ?thesis
    by (simp add: bench_invariant_def bench_ready_def calm_memory_ok)
      (simp add: calm_def demo_bench_def sane_clock_def sane_time_def max_interval_def)
qed

theorem benchmarks_run_through_witness:
  "yields (RunSpecifiedBenchmarks True calm_memory None) demo_bench (\<lambda>_. bench_invariant calm_memory None)"
  using benchmarks_run_through [OF demo_bench_invariant] by blast

end
