(* ===== verification/SnappyCorruption.thy ===== *)
theory SnappyCorruption
  imports SnappyTestFiles
begin

text \<open>
  The test \<open>VerifyCorrupted\<close> of \<open>snappy_unittest.cc\<close>: damaged streams must be refused. Three of
  its inputs are data files.
\<close>

section \<open>The test\<close>

text \<open>
  The two checks that are made of each damaged string; the result is the string that
  \<open>Uncompress\<close> was given, as it left it.
\<close>

definition refused :: "test_memory \<Rightarrow> bytes \<Rightarrow> bytes \<Rightarrow> bytes option" where
  "refused tm dest uncmp =
     do {
       ok \<leftarrow> IsValidCompressedBuffer (tm_scratch tm) dest;
       assert_that (\<not> ok);
       (ok, uncmp) \<leftarrow> Uncompress (tm_scratch tm) (tm_max_size tm) dest uncmp;
       assert_that (\<not> ok);
       Some uncmp
     }"

text \<open>Assignments to the first characters, which must exist\<close>

definition set_front :: "bytes \<Rightarrow> bytes \<Rightarrow> bytes option" where
  "set_front front dest = (if length front \<le> length dest then Some (front @ drop (length front) dest) else None)"

definition bad_file :: "test_memory \<Rightarrow> bytes \<Rightarrow> unit option" where
  "bad_file tm data =
     do {
       assert_that (case GetUncompressedLength data of None \<Rightarrow> True | Some ulen \<Rightarrow> ulen < 2 ^ 20);
       let (ulen2, source) =
         GetUncompressedLength_source (tm_scratch tm) byte_array_source (ByteArraySource_init data);
       assert_that (case ulen2 of None \<Rightarrow> True | Some ulen2 \<Rightarrow> ulen2 < 2 ^ 20);
       uncmp \<leftarrow> refused tm data [];
       Some ()
     }"

fun bad_files :: "test_memory \<Rightarrow> string option \<Rightarrow> string list \<Rightarrow> unit fs_run" where
  "bad_files tm srcdir [] = run_done ()"
| "bad_files tm srcdir (f # fs) =
     run_bind (ReadTestDataFile srcdir f 0) (\<lambda>data.
     run_bind (or_abort (bad_file tm data)) (\<lambda>_.
     bad_files tm srcdir fs))"

definition corrupt_strings :: "test_memory \<Rightarrow> nat \<Rightarrow> unit option" where
  "corrupt_strings tm sizeof_pointer =
     do {
       let source = chars (''making sure we don'' @ [CHR 0x27] @ ''t crash with corrupted input'');
       (dest, n) \<leftarrow> Compress_string (tm_new tm) (tm_small tm) (tm_large tm) source [];
       assert_that (3 < length dest);
       let dest = dest[1 := dest ! 1 - 1];
       let dest = dest[3 := dest ! 3 + 1];
       uncmp \<leftarrow> refused tm dest [];
       (dest, n) \<leftarrow> Compress_string (tm_new tm) (tm_small tm) (tm_large tm) (replicate 100000 65) dest;
       dest \<leftarrow> set_front [0, 0, 0, 0] dest;
       uncmp \<leftarrow> refused tm dest uncmp;
       (dest, uncmp) \<leftarrow>
         (if sizeof_pointer = 4
          then do {
            dest \<leftarrow> set_front [0xff, 0xff, 0xff, 0xff, 107] dest;
            uncmp \<leftarrow> refused tm dest uncmp;
            Some (dest, uncmp)
          }
          else Some (dest, uncmp));
       dest \<leftarrow> set_front [0xff, 0xff, 0xff, 0] dest;
       uncmp \<leftarrow> refused tm dest uncmp;
       Some ()
     }"

definition VerifyCorrupted :: "test_memory \<Rightarrow> string option \<Rightarrow> nat \<Rightarrow> unit fs_run" where
  "VerifyCorrupted tm srcdir sizeof_pointer =
     run_bind (or_abort (corrupt_strings tm sizeof_pointer)) (\<lambda>_.
     bad_files tm srcdir [''baddata1.snappy'', ''baddata2.snappy'', ''baddata3.snappy''])"

section \<open>Headers that lie\<close>

lemma refused_ok:
  assumes "test_memory_ok tm" and "length c < 2 ^ 32" and "stream_output c = None"
  shows "\<exists>s'. refused tm c s = Some s'"
proof -
  have "IsValidCompressedBuffer (tm_scratch tm) c = Some False"
    using valid_answer [OF test_memory_okD(2) [OF assms(1)] assms(2)] assms(3) by simp
  moreover obtain s' where "Uncompress (tm_scratch tm) (tm_max_size tm) c s = Some (False, s')"
    using uncompress_answer [OF test_memory_okD(2) [OF assms(1)] assms(2), of "tm_max_size tm" s] assms(3) by auto
  ultimately show ?thesis by (simp add: refused_def)
qed

lemma other_length: "decode wrap32 body [] = Some x \<Longrightarrow> length x \<noteq> unat n \<Longrightarrow> stream_output (Encode32 n @ body) = None"
  by (simp add: stream_output_def varint32_encode)

text \<open>A length of zero, and then zeros, which begin with a literal of one byte\<close>

lemma zeros_output: "stream_output (0 # 0 # 0 # rest) = None"
proof -
  have v: "varint32 (0 # 0 # 0 # rest) 0 0 = Some (0, 0 # 0 # rest)" by (simp add: varint32_unfold varint_group_def Let_def)
  have "parse_element wrap32 (0 # 0 # rest) = Some (Literal [0], rest)"
    by (simp add: parse_element_def take_literal_def Let_def)
  then have "decode wrap32 (0 # 0 # rest) [] = decode wrap32 rest [0]" by (rule decode_step) simp
  moreover have "decode wrap32 rest [0] = Some out \<Longrightarrow> out \<noteq> []" for out using decode_grows [of wrap32 rest "[0]" out] by auto
  ultimately show ?thesis by (auto simp: stream_output_def v split: option.splits)
qed

text \<open>
  A header that lies is found out. However the elements of a stream decode, with a header that announces
  another length than theirs the stream is refused by IsValidCompressedBuffer and by Uncompress,
  which return; and so is any string of four bytes or more after its first four have been set
  to zero, as VerifyCorrupted does it.
\<close>

theorem lying_header_refused:
  assumes "test_memory_ok tm"
  shows "(\<forall>n body x. decode wrap32 body [] = Some x \<longrightarrow> length x \<noteq> unat n \<longrightarrow> length (Encode32 n @ body) < 2 ^ 32 \<longrightarrow>
      refused tm (Encode32 n @ body) s \<noteq> None) \<and>
    (\<forall>c. 4 \<le> length c \<longrightarrow> length c < 2 ^ 32 \<longrightarrow>
      (\<exists>c' s'. set_front [0, 0, 0, 0] c = Some c' \<and> refused tm c' s = Some s'))"
proof (intro conjI allI impI)
  fix n :: "32 word" and body x :: bytes
  assume "decode wrap32 body [] = Some x" "length x \<noteq> unat n" "length (Encode32 n @ body) < 2 ^ 32"
  with refused_ok [OF assms, of "Encode32 n @ body" s] other_length [of body x n] show "refused tm (Encode32 n @ body) s \<noteq> None"
    by auto
next
  fix c :: bytes assume "4 \<le> length c" "length c < 2 ^ 32"
  then have "length ([0, 0, 0, 0] @ drop 4 c) < 2 ^ 32" by simp
  from refused_ok [OF assms this, of s] zeros_output [of "0 # drop 4 c"] obtain s' where
    "refused tm ([0, 0, 0, 0] @ drop 4 c) s = Some s'" by auto
  then show "\<exists>c' s'. set_front [0, 0, 0, 0] c = Some c' \<and> refused tm c' s = Some s'"
    using \<open>4 \<le> length c\<close> by (simp add: set_front_def eval_nat_numeral)
qed

theorem lying_header_refused_witness:
  "(\<exists>c' s'. set_front [0, 0, 0, 0] [3, 8, 1, 2, 3] = Some c' \<and> refused calm_memory c' [] = Some s')"
  using lying_header_refused [OF calm_memory_ok, of "[]"] by simp

end
