(* ===== verification/SnappyPeriod.thy ===== *)
theory SnappyPeriod
  imports SnappyTestTools
begin

text \<open>
  The period of the random generator of \<open>snappy-test.h\<close>: from every valid seed it goes through all
  numbers between 1 and M - 1, as the comment in \<open>ACMRandom::Next\<close> says. Loops of the tests that
  draw until a number has some property end because of it.
\<close>

section \<open>Powers of the multiplier\<close>

abbreviation (input) "lehmer_M \<equiv> 2147483647 :: nat"

text \<open>Reduction without a division, as \<open>Next\<close> does it, and squaring along the binary digits of the exponent\<close>

definition reduce_mod :: "nat \<Rightarrow> nat" where
  "reduce_mod p = (let s = drop_bit 31 p + take_bit 31 p in if lehmer_M \<le> s then s - lehmer_M else s)"

fun multiplier_power :: "num \<Rightarrow> nat" where
  "multiplier_power num.One = 16807"
| "multiplier_power (num.Bit0 n) = reduce_mod ((multiplier_power n)\<^sup>2)"
| "multiplier_power (num.Bit1 n) = reduce_mod (reduce_mod ((multiplier_power n)\<^sup>2) * 16807)"

lemma reduce_mod:
  assumes "a < lehmer_M" and "b < lehmer_M"
  shows "reduce_mod (a * b) = a * b mod lehmer_M"
proof -
  let ?p = "a * b" and ?s = "drop_bit 31 (a * b) + take_bit 31 (a * b)"
  have "?p < 2147483648 * lehmer_M"
    using mult_strict_mono [OF assms] by simp
  then have "?p div 2147483648 < lehmer_M" by (intro less_mult_imp_div_less) (simp add: mult.commute)
  moreover have "?p mod 2147483648 \<le> lehmer_M" using mod_less_divisor [of 2147483648 ?p] by linarith
  ultimately have s: "?s < lehmer_M + lehmer_M" "?s = ?p div 2147483648 + ?p mod 2147483648"
    by (simp_all add: drop_bit_eq_div take_bit_eq_mod)
  have "reduce_mod ?p < lehmer_M" using s(1) by (simp only: reduce_mod_def Let_def split: if_split) linarith
  moreover have "reduce_mod ?p mod lehmer_M = ?s mod lehmer_M"
    by (simp add: reduce_mod_def Let_def le_mod_geq)
  moreover have "?s mod lehmer_M = ?p mod lehmer_M" unfolding s(2) by (rule mersenne [symmetric])
  ultimately show ?thesis by simp
qed

lemma multiplier_power: "multiplier_power n = 16807 ^ numeral n mod lehmer_M"
proof (induction n)
  case One
  then show ?case by simp
next
  case (Bit0 n)
  have "16807 ^ numeral (num.Bit0 n) = 16807 ^ numeral n * (16807 :: nat) ^ numeral n"
    by (simp only: numeral_Bit0 power_add)
  then show ?case by (simp only: multiplier_power.simps Bit0.IH power2_eq_square reduce_mod mod_mult_eq mod_less_divisor zero_less_numeral)
next
  case (Bit1 n)
  have "16807 ^ numeral (num.Bit1 n) = 16807 ^ numeral n * 16807 ^ numeral n * (16807 :: nat)"
    by (simp only: numeral_Bit1 power_add power_one_right)
  moreover have "reduce_mod ((multiplier_power n)\<^sup>2) = 16807 ^ numeral n * 16807 ^ numeral n mod lehmer_M"
    by (simp only: Bit1.IH power2_eq_square reduce_mod mod_mult_eq mod_less_divisor zero_less_numeral)
  moreover have "reduce_mod (x mod lehmer_M * 16807) = x * 16807 mod lehmer_M" for x
    using reduce_mod [of "x mod lehmer_M" 16807] by (simp add: mod_mult_left_eq)
  ultimately show ?case by (simp only: multiplier_power.simps)
qed

text \<open>
  16807 is a primitive root: its power to M - 1 is 1, and no power to (M - 1) / p is, for the
  prime factors p of M - 1.
\<close>

lemma multiplier_full: "16807 ^ 2147483646 mod lehmer_M = 1"
  unfolding multiplier_power [symmetric] by (simp add: reduce_mod_def)

lemma multiplier_proper:
  "16807 ^ 1073741823 mod lehmer_M \<noteq> 1" "16807 ^ 715827882 mod lehmer_M \<noteq> 1" "16807 ^ 306783378 mod lehmer_M \<noteq> 1"
  "16807 ^ 195225786 mod lehmer_M \<noteq> 1" "16807 ^ 69273666 mod lehmer_M \<noteq> 1" "16807 ^ 14221746 mod lehmer_M \<noteq> 1"
  "16807 ^ 6487866 mod lehmer_M \<noteq> 1"
  unfolding multiplier_power [symmetric] by (simp_all add: reduce_mod_def)

section \<open>Full period\<close>

text \<open>A number whose only divisors are 1 and itself; it is removed from the product that \<open>h\<close> divides.\<close>

lemma small_prime:
  assumes "list_all (\<lambda>d. p mod d \<noteq> 0) [2..<p]" and "d dvd p" and "0 < p"
  shows "d = 1 \<or> d = p"
proof -
  have "d \<le> p" "d \<noteq> 0" using assms(2,3) dvd_imp_le by auto
  moreover have "p mod d = 0" using assms(2) by simp
  then have "\<not> (2 \<le> d \<and> d < p)" using assms(1) unfolding list_all_iff by (metis atLeastLessThan_iff set_upt)
  ultimately show ?thesis by linarith
qed

lemma divides_rest:
  fixes h :: nat
  assumes "list_all (\<lambda>d. p mod d \<noteq> 0) [2..<p]" and "0 < p" and "h dvd p * q" and "\<not> p dvd h"
  shows "h dvd q"
proof -
  have "gcd h p = 1 \<or> gcd h p = p" by (rule small_prime [OF assms(1) _ assms(2)]) simp
  moreover have "gcd h p \<noteq> p" using assms(4) by (metis gcd_dvd1)
  ultimately have "coprime h p" by (simp add: coprime_iff_gcd_eq_1)
  with assms(3) show ?thesis by (simp add: coprime_dvd_mult_right_iff)
qed

lemma period_factors:
  fixes h :: nat
  assumes "h dvd 2147483646" and "h \<noteq> 1"
  shows "2 dvd h \<or> 3 dvd h \<or> 7 dvd h \<or> 11 dvd h \<or> 31 dvd h \<or> 151 dvd h \<or> 331 dvd h"
proof (rule ccontr)
  assume "\<not> ?thesis"
  then have n: "\<not> 2 dvd h" "\<not> 3 dvd h" "\<not> 7 dvd h" "\<not> 11 dvd h" "\<not> 31 dvd h" "\<not> 151 dvd h" "\<not> 331 dvd h" by simp_all
  have "h dvd 2 * 1073741823" using assms(1) by simp
  from divides_rest [OF _ _ this n(1)] have "h dvd 3 * 357913941" by simp
  from divides_rest [OF _ _ this n(2)] have "h dvd 3 * 119304647" by simp
  from divides_rest [OF _ _ this n(2)] have "h dvd 7 * 17043521" by simp
  from divides_rest [OF _ _ this n(3)] have "h dvd 11 * 1549411" by simp
  from divides_rest [OF _ _ this n(4)] have "h dvd 31 * 49981" by simp
  from divides_rest [OF _ _ this n(5)] have "h dvd 151 * 331" by simp
  from divides_rest [OF _ _ this n(6)] have "h dvd 331 * 1" by simp
  from divides_rest [OF _ _ this n(7)] have "h dvd 1" by simp
  with assms(2) show False by simp
qed

lemma power_one: "16807 ^ k mod lehmer_M = 1 \<Longrightarrow> 16807 ^ (k * j) mod lehmer_M = 1"
  by (metis mod_less one_less_numeral_iff power_mod power_mult power_one semiring_norm(77))

lemma multiplier_order:
  assumes "0 < k" and "k < 2147483646"
  shows "16807 ^ k mod lehmer_M \<noteq> 1"
proof
  assume k: "16807 ^ k mod lehmer_M = 1"
  obtain x y where xy: "k * x = 2147483646 * y + gcd k 2147483646"
    using bezout_nat [of k 2147483646] assms(1) by auto
  let ?g = "gcd k 2147483646"
  have "16807 ^ (k * x) mod lehmer_M = 1" "16807 ^ (2147483646 * y) mod lehmer_M = 1"
    by (rule power_one [OF k], rule power_one [OF multiplier_full])
  then have g: "16807 ^ ?g mod lehmer_M = 1"
    unfolding xy power_add by (metis mod_mult_left_eq mult_1)
  obtain h where h: "2147483646 = ?g * h" by (metis dvdE gcd_dvd2)
  have "?g \<le> k" using assms(1) by (simp add: gcd_le1_nat)
  then have "h \<noteq> 1" using h assms(2) by auto
  have less: False if "p dvd h" "16807 ^ q mod lehmer_M \<noteq> 1" "p * q = 2147483646" "0 < p" for p q
  proof -
    from that(1) obtain c where "h = p * c" by (rule dvdE)
    with h that(3,4) have "q = ?g * c" by (metis mult.left_commute mult_left_cancel not_less0)
    with power_one [OF g] that(2) show False by simp
  qed
  have "h dvd 2147483646" by (metis h dvd_triv_right)
  from period_factors [OF this \<open>h \<noteq> 1\<close>] show False
  proof (elim disjE)
    show False if "2 dvd h" by (rule less [OF that multiplier_proper(1)]) simp_all
    show False if "3 dvd h" by (rule less [OF that multiplier_proper(2)]) simp_all
    show False if "7 dvd h" by (rule less [OF that multiplier_proper(3)]) simp_all
    show False if "11 dvd h" by (rule less [OF that multiplier_proper(4)]) simp_all
    show False if "31 dvd h" by (rule less [OF that multiplier_proper(5)]) simp_all
    show False if "151 dvd h" by (rule less [OF that multiplier_proper(6)]) simp_all
    show False if "331 dvd h" by (rule less [OF that multiplier_proper(7)]) simp_all
  qed
qed

lemma multiplier_power_coprime: "coprime lehmer_M (16807 ^ i)"
  using multiplier_coprime by (simp only: coprime_power_right_iff) simp

lemma multiplier_powers_distinct:
  assumes "i < j" and "j < 2147483646"
  shows "16807 ^ i mod lehmer_M \<noteq> 16807 ^ j mod lehmer_M"
proof
  assume e: "16807 ^ i mod lehmer_M = 16807 ^ j mod lehmer_M"
  have j: "16807 ^ j = 16807 ^ i * (16807 :: nat) ^ (j - i)" using assms(1) by (simp flip: power_add)
  have "lehmer_M dvd 16807 ^ j - 16807 ^ i" using e by (metis mod_eq_dvd_iff_nat assms(1) less_imp_le power_increasing one_le_numeral)
  also have "16807 ^ j - 16807 ^ i = 16807 ^ i * ((16807 :: nat) ^ (j - i) - 1)" by (simp add: j diff_mult_distrib2)
  finally have "lehmer_M dvd 16807 ^ (j - i) - 1"
    using multiplier_power_coprime by (simp add: coprime_dvd_mult_right_iff)
  then have "16807 ^ (j - i) mod lehmer_M = 1 mod lehmer_M"
    using mod_eq_dvd_iff_nat [of 1 "16807 ^ (j - i)" lehmer_M] by simp
  moreover have "16807 ^ (j - i) mod lehmer_M \<noteq> 1" using assms by (intro multiplier_order) simp_all
  ultimately show False by simp
qed

lemma multiplier_power_nonzero: "16807 ^ i mod lehmer_M \<noteq> 0"
proof
  assume "16807 ^ i mod lehmer_M = 0"
  then have "lehmer_M dvd 16807 ^ i" by auto
  from coprime_absorb_left [OF this] multiplier_power_coprime [of i] show False by auto
qed

lemma full_period:
  assumes "0 < s" and "s < lehmer_M"
  shows "\<exists>i < 2147483646. s = 16807 ^ i mod lehmer_M"
proof -
  let ?f = "\<lambda>i. 16807 ^ i mod lehmer_M" and ?I = "{..<2147483646 :: nat}"
  have inj: "inj_on ?f ?I"
    by (rule linorder_inj_onI) (use multiplier_powers_distinct in auto)
  have "?f ` ?I \<subseteq> {0<..<lehmer_M}" using multiplier_power_nonzero by auto
  moreover have "card (?f ` ?I) = card {0<..<lehmer_M}" using card_image [OF inj] by simp
  ultimately have "?f ` ?I = {0<..<lehmer_M}" by (intro card_subset_eq) simp_all
  moreover have "s \<in> {0<..<lehmer_M}" using assms by simp
  ultimately have "s \<in> ?f ` ?I" by simp
  then show ?thesis by blast
qed

section \<open>Positions in the sequence\<close>

definition position :: "nat \<Rightarrow> 32 word \<Rightarrow> bool" where
  "position e rnd \<longleftrightarrow> unat rnd = 16807 ^ e mod 2147483647"

lemma position_valid: "position e rnd \<Longrightarrow> ACM_valid rnd"
  using multiplier_power_nonzero [of e] by (simp add: position_def ACM_valid_def)

lemma valid_position:
  assumes "ACM_valid rnd"
  obtains e where "position e rnd" and "e < 2147483646"
  using full_period [of "unat rnd"] assms by (auto simp: position_def ACM_valid_def)

lemma Next_position:
  assumes "position e rnd"
  obtains r where "ACM_Next rnd = (r, r)" "position (Suc e) r" "sint r = int (16807 ^ Suc e mod 2147483647)"
proof -
  obtain r where r: "ACM_Next rnd = (r, r)" "unat r = unat rnd * 16807 mod 2147483647" "ACM_valid r"
    using ACM_Next_valid [OF position_valid [OF assms]] by blast
  have "position (Suc e) r" using r(2) assms by (simp add: position_def mod_mult_right_eq mult.commute [of _ 16807])
  with that [OF r(1)] sint_small [of r] r(3) show thesis by (simp add: position_def ACM_valid_def)
qed

lemma Uniform_position:
  assumes "position e rnd" and "0 < n"
  obtains r where "ACM_Uniform n rnd = Some (int (16807 ^ Suc e mod 2147483647) mod n, r)" "position (Suc e) r"
proof -
  from Next_position [OF assms(1)] obtain r where
    r: "ACM_Next rnd = (r, r)" "position (Suc e) r" "sint r = int (16807 ^ Suc e mod 2147483647)" .
  have "0 \<le> sint r" unfolding r(3) by (rule of_nat_0_le_iff)
  then have "sint r smod n = int (16807 ^ Suc e mod 2147483647) mod n"
    unfolding r(3) [symmetric] using assms(2) by (simp add: signed_modulo_int_def sgn_if)
  with r that assms(2) show thesis by (simp add: ACM_Uniform_def)
qed

lemma OneIn_position:
  assumes "position e rnd" and "0 < n"
  obtains r where "ACM_OneIn n rnd = Some (int (16807 ^ Suc e mod 2147483647) mod n = 0, r)" "position (Suc e) r"
  by (rule Uniform_position [OF assms]) (use that in \<open>simp add: ACM_OneIn_def\<close>)

lemma Skewed_position:
  assumes "position e rnd" and "0 \<le> k" "k < 32"
  obtains v r where "ACM_Skewed k rnd = Some (v, r)" "position (Suc (Suc e)) r" "unat v < 2 ^ nat k"
proof -
  obtain r where r: "ACM_Next rnd = (r, r)" "position (Suc e) r" using Next_position [OF assms(1)] by blast
  obtain r' where r': "ACM_Next r = (r', r')" "position (Suc (Suc e)) r'" using Next_position [OF r(2)] by blast
  obtain v s where v: "ACM_Skewed k rnd = Some (v, s)" "unat v < 2 ^ nat k"
    using ACMRandom_step(3) [OF position_valid [OF assms(1)], of k] assms(2,3) by blast
  have "s = r'" using v(1) r(1) r'(1) by (auto simp: ACM_Skewed_def assert_that_def Let_def split: if_splits)
  with that v r' show thesis by blast
qed

lemma power_mod_period: "16807 ^ (r + 2147483646 * j) mod 2147483647 = (16807 :: nat) ^ r mod 2147483647"
proof -
  have "16807 ^ (2147483646 * j) mod 2147483647 = (1 :: nat)" by (rule power_one [OF multiplier_full])
  then show ?thesis unfolding power_add by (metis mod_mult_right_eq mult.right_neutral)
qed

text \<open>
  C38: the generator has full period: from every state between 1 and M - 1 every other such state is
  reached, after less than M - 1 steps, and after M - 1 steps the sequence starts again.
\<close>

theorem ACMRandom_full_period:
  assumes "ACM_valid s"
  shows "((snd \<circ> ACM_Next) ^^ 2147483646) s = s \<and>
    (\<forall>t. ACM_valid t \<longrightarrow> (\<exists>k < 2147483646. ((snd \<circ> ACM_Next) ^^ k) s = t))"
proof -
  have run: "position (e + k) (((snd \<circ> ACM_Next) ^^ k) r)" if "position e r" for e k r
  proof (induction k)
    case (Suc k)
    then show ?case by (rule Next_position) simp
  qed (use that in simp)
  have same: "r = t" if "position e r" "position e' t" "(16807 :: nat) ^ e mod 2147483647 = 16807 ^ e' mod 2147483647" for e e' r t
    using that by (simp add: position_def word_unat_eq_iff)
  obtain i where i: "i < 2147483646" "position i s"
    using valid_position [OF assms] by blast
  have "((snd \<circ> ACM_Next) ^^ 2147483646) s = s"
    by (rule same [OF run [OF i(2)] i(2)]) (use power_mod_period [of i 1] in \<open>simp only: mult_1_right\<close>)
  moreover have "\<exists>k < 2147483646. ((snd \<circ> ACM_Next) ^^ k) s = t" if "ACM_valid t" for t
  proof -
    from that obtain j where j: "j < 2147483646" "position j t" by (metis valid_position)
    let ?k = "if i \<le> j then j - i else 2147483646 - i + j"
    have "i + ?k = j + 2147483646 * (if i \<le> j then 0 else 1)" "?k < 2147483646" using i(1) j(1) by auto
    with same [OF run [OF i(2), of ?k] j(2)] power_mod_period [of j] show ?thesis by metis
  qed
  ultimately show ?thesis by blast
qed

theorem ACMRandom_full_period_witness:
  "\<exists>k < 2147483646. ((snd \<circ> ACM_Next) ^^ k) 301 = 1"
proof -
  have "ACM_valid 301" "ACM_valid 1" by (simp_all add: ACM_valid_def)
  with ACMRandom_full_period [of 301] show ?thesis by blast
qed

end
