(* ===== verification/SnappyRandomTests.thy ===== *)
theory SnappyRandomTests
  imports SnappyPeriod SnappyUnitTests
begin

text \<open>
  The tests of \<open>snappy_unittest.cc\<close> on random data. Their loops draw until a random event happens;
  that they end rests on the full period of the generator.
\<close>

section \<open>RandomData\<close>

text \<open>A run of at most \<open>run_len\<close> equal characters, cut off at \<open>len\<close>\<close>

function push_run :: "int \<Rightarrow> byte \<Rightarrow> int \<Rightarrow> bytes \<Rightarrow> bytes" where
  "push_run run_len c len x =
     (if 0 < run_len \<and> int (length x) < len then push_run (run_len - 1) c len (x @ [c]) else x)"
  by pat_completeness auto
termination
  by (relation "measure (\<lambda>(run_len, c, len, x). nat run_len)") auto

declare push_run.simps [simp del]

definition random_char :: "nat \<Rightarrow> 32 word \<Rightarrow> (byte \<times> 32 word) option" where
  "random_char i rnd =
     (if i < 100
      then do { (c, rnd) \<leftarrow> ACM_Uniform 256 rnd; Some (of_int c, rnd) }
      else do { (c, rnd) \<leftarrow> ACM_Skewed 3 rnd; Some (ucast c, rnd) })"

definition random_run_len :: "32 word \<Rightarrow> (int \<times> 32 word) option" where
  "random_run_len rnd =
     do {
       (one, rnd) \<leftarrow> ACM_OneIn 10 rnd;
       if one then do { (r, rnd) \<leftarrow> ACM_Skewed 8 rnd; Some (sint r, rnd) }
       else Some (1, rnd)
     }"

partial_function (option) random_fill :: "nat \<Rightarrow> int \<Rightarrow> bytes \<Rightarrow> 32 word \<Rightarrow> (bytes \<times> 32 word) option" where
  "random_fill i len x rnd =
     (if int (length x) < len
      then do {
        (run_len, rnd) \<leftarrow> random_run_len rnd;
        (c, rnd) \<leftarrow> random_char i rnd;
        random_fill i len (push_run run_len c len x) rnd
      }
      else Some (x, rnd))"

definition random_len :: "nat \<Rightarrow> 32 word \<Rightarrow> (int \<times> 32 word) option" where
  "random_len i rnd =
     do {
       (len, rnd) \<leftarrow> ACM_Uniform 4096 rnd;
       if i < 100 then do { (l, rnd) \<leftarrow> ACM_Uniform 65536 rnd; Some (65536 + l, rnd) }
       else Some (len, rnd)
     }"

text \<open>\<open>n\<close> rounds from round \<open>i\<close> on\<close>

fun RandomData_loop :: "test_memory \<Rightarrow> bytes \<Rightarrow> nat \<Rightarrow> nat \<Rightarrow> 32 word \<Rightarrow> unit option" where
  "RandomData_loop tm beyond i 0 rnd = Some ()"
| "RandomData_loop tm beyond i (Suc n) rnd =
     do {
       (len, rnd) \<leftarrow> random_len i rnd;
       (x, rnd) \<leftarrow> random_fill i len [] rnd;
       Verify tm beyond x;
       RandomData_loop tm beyond (Suc i) n rnd
     }"

definition RandomData :: "test_memory \<Rightarrow> bytes \<Rightarrow> unit option" where
  "RandomData tm beyond = RandomData_loop tm beyond 0 20000 301"

section \<open>FindMatchLengthRandom\<close>

text \<open>Two strings over two characters, until an event of probability one in ten\<close>

definition random_pick :: "byte \<Rightarrow> byte \<Rightarrow> 32 word \<Rightarrow> (byte \<times> 32 word) option" where
  "random_pick a b rnd = do { (one, rnd) \<leftarrow> ACM_OneIn 2 rnd; Some (if one then a else b, rnd) }"

partial_function (option) random_pair ::
  "byte \<Rightarrow> byte \<Rightarrow> bytes \<Rightarrow> bytes \<Rightarrow> 32 word \<Rightarrow> (bytes \<times> bytes \<times> 32 word) option" where
  "random_pair a b s t rnd =
     do {
       (stop, rnd) \<leftarrow> ACM_OneIn 10 rnd;
       if stop then Some (s, t, rnd)
       else do {
         (c, rnd) \<leftarrow> random_pick a b rnd;
         (d, rnd) \<leftarrow> random_pick a b rnd;
         random_pair a b (s @ [c]) (t @ [d]) rnd
       }
     }"

definition check_match :: "bytes \<Rightarrow> bytes \<Rightarrow> unit option" where
  "check_match s t =
     do {
       matched \<leftarrow> TestFindMatchLength s t (length t);
       if matched = length t then assert_that (s = t)
       else do {
         assert_that (matched < length s \<and> matched < length t);
         assert_that (s ! matched \<noteq> t ! matched);
         assert_that (\<forall>j < matched. s ! j = t ! j)
       }
     }"

fun FindMatchLengthRandom_loop :: "nat \<Rightarrow> 32 word \<Rightarrow> unit option" where
  "FindMatchLengthRandom_loop 0 rnd = Some ()"
| "FindMatchLengthRandom_loop (Suc n) rnd =
     do {
       let (a, rnd) = ACM_Rand8 rnd;
       let (b, rnd) = ACM_Rand8 rnd;
       (s, t, rnd) \<leftarrow> random_pair a b [] [] rnd;
       check_match s t;
       FindMatchLengthRandom_loop n rnd
     }"

definition FindMatchLengthRandom :: "unit option" where
  "FindMatchLengthRandom = FindMatchLengthRandom_loop 10000 301"

section \<open>Events that are bound to happen\<close>

text \<open>
  From every position, going on in steps of three, four or five draws leads to a number that
  is, or is not, divisible by ten. The number of steps is explicit.
\<close>

lemma four_steps: "\<exists>n. (16807 :: nat) ^ (e + 4 * n) mod 2147483647 mod 10 \<noteq> 0"
proof -
  have "e + 4 * (e div 2 * 536870911) = e mod 2 + 2147483646 * (e div 2)" by presburger
  then have "(16807 :: nat) ^ (e + 4 * (e div 2 * 536870911)) mod 2147483647 = 16807 ^ (e mod 2) mod 2147483647"
    by (simp only: power_mod_period)
  moreover have "(16807 :: nat) ^ (e mod 2) mod 2147483647 mod 10 \<noteq> 0" by (cases "even e") (simp_all add: odd_iff_mod_2_eq_one)
  ultimately show ?thesis by metis
qed

lemma five_steps: "\<exists>n. (16807 :: nat) ^ (e + 5 * n) mod 2147483647 mod 10 \<noteq> 0"
proof -
  have "e + 5 * (e * 429496729) = 0 + 2147483646 * e" by simp
  then have "(16807 :: nat) ^ (e + 5 * (e * 429496729)) mod 2147483647 = 16807 ^ 0 mod 2147483647"
    by (simp only: power_mod_period)
  then have "(16807 :: nat) ^ (e + 5 * (e * 429496729)) mod 2147483647 mod 10 \<noteq> 0" by simp
  then show ?thesis by blast
qed

lemma three_steps: "\<exists>n. (16807 :: nat) ^ (e + 3 * n) mod 2147483647 mod 10 = 0"
proof -
  have hit: "\<exists>n. (16807 :: nat) ^ (e + 3 * n) mod 2147483647 mod 10 = 0"
    if "e mod 3 + 3 * q = k" "(16807 :: nat) ^ k mod 2147483647 mod 10 = 0" for q k
  proof -
    have "e + 3 * (e div 3 * 715827881 + q) = k + 2147483646 * (e div 3)" using that(1) by presburger
    then have "(16807 :: nat) ^ (e + 3 * (e div 3 * 715827881 + q)) mod 2147483647 = 16807 ^ k mod 2147483647"
      by (simp only: power_mod_period)
    with that(2) show ?thesis by metis
  qed
  have m: "(16807 :: nat) ^ 141 mod 2147483647 mod 10 = 0" "(16807 :: nat) ^ 19 mod 2147483647 mod 10 = 0"
    "(16807 :: nat) ^ 5 mod 2147483647 mod 10 = 0"
    unfolding multiplier_power [symmetric] by (simp_all add: reduce_mod_def)
  consider "e mod 3 = 0" | "e mod 3 = 1" | "e mod 3 = 2" by linarith
  then show ?thesis
  proof cases
    case 1
    then show ?thesis by (intro hit [OF _ m(1), of 47]) simp
  next
    case 2
    then show ?thesis by (intro hit [OF _ m(2), of 6]) simp
  next
    case 3
    then show ?thesis by (intro hit [OF _ m(3), of 1]) simp
  qed
qed

section \<open>RandomData ends and passes\<close>

lemma push_run_length:
  "int (length x) \<le> len \<Longrightarrow> length x \<le> length (push_run run_len c len x) \<and> int (length (push_run run_len c len x)) \<le> len"
proof (induction run_len c len x rule: push_run.induct)
  case (1 run_len c len x)
  then show ?case by (subst (1 2) push_run.simps) (fastforce simp: not_le)
qed

lemma push_run_grows:
  assumes "0 < run_len" and "int (length x) < len"
  shows "length x < length (push_run run_len c len x)"
proof -
  have "push_run run_len c len x = push_run (run_len - 1) c len (x @ [c])"
    using assms by (subst push_run.simps) simp
  with push_run_length [of "x @ [c]" len "run_len - 1" c] assms(2) show ?thesis by simp
qed

lemma random_char_position:
  assumes "position e rnd"
  shows "\<exists>c r. random_char i rnd = Some (c, r) \<and> position (e + (if i < 100 then 1 else 2)) r"
proof (cases "i < 100")
  case True
  obtain r where "ACM_Uniform 256 rnd = Some (int (16807 ^ Suc e mod 2147483647) mod 256, r)" "position (Suc e) r"
    by (rule Uniform_position [OF assms, of 256]) simp_all
  with True show ?thesis by (simp add: random_char_def)
next
  case False
  obtain v r where "ACM_Skewed 3 rnd = Some (v, r)" "position (Suc (Suc e)) r"
    by (rule Skewed_position [OF assms, of 3]) simp_all
  with False show ?thesis by (simp add: random_char_def)
qed

lemma int_mod_ten: "int v mod 10 = 0 \<longleftrightarrow> v mod 10 = 0"
  by presburger

text \<open>A round that adds nothing has drawn a multiple of ten first, and three numbers in all.\<close>

lemma random_run_len_position:
  assumes "position e rnd"
  shows "\<exists>n r e'. random_run_len rnd = Some (n, r) \<and> position e' r \<and>
    (0 < n \<or> e' = e + 3 \<and> 16807 ^ Suc e mod 2147483647 mod 10 = (0 :: nat))"
proof -
  let ?v = "16807 ^ Suc e mod 2147483647 :: nat"
  obtain r where r: "ACM_OneIn 10 rnd = Some (int ?v mod 10 = 0, r)" "position (Suc e) r"
    by (rule OneIn_position [OF assms, of 10]) simp_all
  show ?thesis
  proof (cases "int ?v mod 10 = 0")
    case True
    obtain v r' where v: "ACM_Skewed 8 r = Some (v, r')" "position (Suc (Suc (Suc e))) r'" "unat v < 2 ^ nat 8"
      by (rule Skewed_position [OF r(2), of 8]) simp_all
    have "?v mod 10 = 0" using True by (simp only: int_mod_ten)
    moreover have "0 \<le> sint v" using v(3) by (simp add: sint_small)
    ultimately show ?thesis using True r(1) v(1,2) by (force simp: random_run_len_def numeral_3_eq_3)
  next
    case False
    with r show ?thesis by (auto simp: random_run_len_def)
  qed
qed

lemma random_fill_round:
  assumes "position e rnd" and "int (length x) < len"
  shows "\<exists>y r e'. random_fill i len x rnd = random_fill i len y r \<and> position e' r \<and> int (length y) \<le> len \<and>
    (length x < length y \<or>
     y = x \<and> e' = e + (if i < 100 then 4 else 5) \<and> 16807 ^ Suc e mod 2147483647 mod 10 = (0 :: nat))"
proof -
  obtain n r e1 where n: "random_run_len rnd = Some (n, r)" "position e1 r"
    "0 < n \<or> e1 = e + 3 \<and> 16807 ^ Suc e mod 2147483647 mod 10 = (0 :: nat)"
    using random_run_len_position [OF assms(1)] by (elim exE conjE) (rule that)
  obtain c r2 where c: "random_char i r = Some (c, r2)" "position (e1 + (if i < 100 then 1 else 2)) r2"
    using random_char_position [OF n(2)] by blast
  let ?y = "push_run n c len x"
  have run: "random_fill i len x rnd = random_fill i len ?y r2"
    using assms(2) n(1) c(1) by (subst random_fill.simps) simp
  have fits: "int (length ?y) \<le> len" using push_run_length [of x len n c] assms(2) by simp
  show ?thesis
  proof (cases "0 < n")
    case True
    from push_run_grows [OF this assms(2)] run c(2) fits show ?thesis by blast
  next
    case False
    then have "?y = x" by (simp add: push_run.simps)
    with False n(3) run c(2) assms(2) show ?thesis
      by (intro exI [of _ x] exI [of _ r2] exI [of _ "e1 + (if i < 100 then 1 else 2)"]) auto
  qed
qed

lemma random_fill_ends:
  assumes "position e rnd" and "int (length x) \<le> len"
  shows "\<exists>y r e'. random_fill i len x rnd = Some (y, r) \<and> position e' r \<and> int (length y) = len"
  using assms
proof (induction "nat len - length x" arbitrary: x e rnd rule: less_induct)
  case less
  let ?d = "if i < 100 then 4 else 5 :: nat"
  have progress: "\<exists>y r e'. random_fill i len x rnd = Some (y, r) \<and> position e' r \<and> int (length y) = len"
    if "position e rnd" "int (length x) < len" "16807 ^ (Suc e + ?d * n) mod 2147483647 mod 10 \<noteq> (0 :: nat)" for e n rnd
    using that
  proof (induction n arbitrary: e rnd)
    case (0 e rnd)
    have "16807 ^ Suc e mod 2147483647 mod 10 \<noteq> (0 :: nat)" using 0(3) by simp
    with random_fill_round [OF 0(1,2)] obtain y r e' where
      y: "random_fill i len x rnd = random_fill i len y r" "position e' r" "int (length y) \<le> len" "length x < length y"
      by metis
    have "nat len - length y < nat len - length x" using y(3,4) by linarith
    from less.hyps [OF this y(2,3)] y(1) show ?case by simp
  next
    case (Suc n e rnd)
    from random_fill_round [OF Suc.prems(1,2)] obtain y r e' where
      y: "random_fill i len x rnd = random_fill i len y r" "position e' r" "int (length y) \<le> len"
        "length x < length y \<or> y = x \<and> e' = e + ?d" by blast
    from y(4) show ?case
    proof
      assume "length x < length y"
      then have "nat len - length y < nat len - length x" using y(3) by linarith
      from less.hyps [OF this y(2,3)] y(1) show ?case by simp
    next
      assume x: "y = x \<and> e' = e + ?d"
      then have "Suc e' + ?d * n = Suc e + ?d * Suc n" by simp
      with Suc.prems(3) have "16807 ^ (Suc e' + ?d * n) mod 2147483647 mod 10 \<noteq> (0 :: nat)" by metis
      from Suc.IH [OF y(2) Suc.prems(2) this] y(1) x show ?case by simp
    qed
  qed
  show ?case
  proof (cases "int (length x) < len")
    case True
    obtain n where "16807 ^ (Suc e + ?d * n) mod 2147483647 mod 10 \<noteq> (0 :: nat)"
      using four_steps [of "Suc e"] five_steps [of "Suc e"] by (cases "i < 100") auto
    from progress [OF less.prems(1) True this] show ?thesis .
  next
    case False
    with less.prems show ?thesis by (subst random_fill.simps) auto
  qed
qed

lemma random_len_position:
  assumes "position e rnd"
  shows "\<exists>len r e'. random_len i rnd = Some (len, r) \<and> position e' r \<and> 0 \<le> len \<and> len < 131072"
proof -
  obtain r where r: "ACM_Uniform 4096 rnd = Some (int (16807 ^ Suc e mod 2147483647) mod 4096, r)" "position (Suc e) r"
    by (rule Uniform_position [OF assms, of 4096]) simp_all
  show ?thesis
  proof (cases "i < 100")
    case True
    obtain r' where "ACM_Uniform 65536 r = Some (int (16807 ^ Suc (Suc e) mod 2147483647) mod 65536, r')" "position (Suc (Suc e)) r'"
      by (rule Uniform_position [OF r(2), of 65536]) simp_all
    moreover have "v mod 65536 < 65536" "0 \<le> v mod 65536" for v :: int by simp_all
    ultimately show ?thesis using True r(1) by (simp add: random_len_def) (use pos_mod_bound in \<open>force\<close>)
  next
    case False
    have "v mod 4096 < 131072" "0 \<le> v mod 4096" for v :: int using pos_mod_bound [of 4096 v] by simp_all
    with False r show ?thesis by (auto simp: random_len_def)
  qed
qed

lemma RandomData_loop_passes:
  assumes "test_memory_ok tm" and "position e rnd"
  shows "RandomData_loop tm beyond i n rnd = Some ()"
  using assms(2)
proof (induction n arbitrary: i e rnd)
  case (Suc n)
  obtain len r e1 where len: "random_len i rnd = Some (len, r)" "position e1 r" "0 \<le> len" "len < 131072"
    using random_len_position [OF Suc.prems] by blast
  obtain x r2 e2 where x: "random_fill i len [] r = Some (x, r2)" "position e2 r2" "int (length x) = len"
    using random_fill_ends [OF len(2), of "[]" len i] len(3) by auto
  have "length x < 2 ^ 27" using x(3) len(4) by simp
  from Verify_ok [OF assms(1) this] Suc.IH [OF x(2)] len(1) x(1) show ?case by simp
qed simp

lemma RandomData_ok:
  assumes "test_memory_ok tm"
  shows "RandomData tm beyond = Some ()"
proof -
  have "ACM_valid 301" by (simp add: ACM_valid_def)
  then obtain e where "position e 301" by (rule valid_position)
  from RandomData_loop_passes [OF assms this] show ?thesis unfolding RandomData_def .
qed

text \<open>
  C37: RandomData ends and passes, whatever uninitialised memory holds: the strings of random runs
  are completed, since the generator can not keep drawing multiples of ten, and Verify passes on them.
\<close>

theorem RandomData_passes:
  assumes "test_memory_ok tm"
  shows "RandomData tm beyond = Some ()"
  by (rule RandomData_ok [OF assms])

theorem RandomData_passes_witness: "RandomData calm_memory [] = Some ()"
proof -
  have "test_memory_ok calm_memory" by (simp add: test_memory_ok_def memory_ok_def calm_memory_def)
  then show ?thesis by (rule RandomData_passes)
qed

section \<open>FindMatchLengthRandom ends and passes\<close>

lemma random_pick_position:
  assumes "position e rnd"
  shows "\<exists>c r. random_pick a b rnd = Some (c, r) \<and> position (Suc e) r"
  by (rule OneIn_position [OF assms, of 2]) (simp_all add: random_pick_def)

lemma random_pair_ends:
  assumes "position e rnd" and "16807 ^ (Suc e + 3 * n) mod 2147483647 mod 10 = (0 :: nat)" and "length s = length t"
  shows "\<exists>s' t' r e'. random_pair a b s t rnd = Some (s', t', r) \<and> position e' r \<and> length s' = length t'"
  using assms
proof (induction n arbitrary: e rnd s t)
  case (0 e rnd s t)
  obtain r where r: "ACM_OneIn 10 rnd = Some (int (16807 ^ Suc e mod 2147483647) mod 10 = 0, r)" "position (Suc e) r"
    by (rule OneIn_position [OF 0(1), of 10]) simp_all
  have "int (16807 ^ Suc e mod 2147483647) mod 10 = 0" using 0(2) unfolding int_mod_ten by simp
  with r 0(3) show ?case by (subst random_pair.simps) auto
next
  case (Suc n e rnd s t)
  obtain r where r: "ACM_OneIn 10 rnd = Some (int (16807 ^ Suc e mod 2147483647) mod 10 = 0, r)" "position (Suc e) r"
    by (rule OneIn_position [OF Suc.prems(1), of 10]) simp_all
  show ?case
  proof (cases "int (16807 ^ Suc e mod 2147483647) mod 10 = 0")
    case True
    with r Suc.prems(3) show ?thesis by (subst random_pair.simps) auto
  next
    case False
    obtain c r1 where c: "random_pick a b r = Some (c, r1)" "position (Suc (Suc e)) r1"
      using random_pick_position [OF r(2)] by blast
    obtain d r2 where d: "random_pick a b r1 = Some (d, r2)" "position (Suc (Suc (Suc e))) r2"
      using random_pick_position [OF c(2)] by blast
    have "Suc (Suc (Suc (Suc e))) + 3 * n = Suc e + 3 * Suc n" by simp
    with Suc.prems(2) have hit: "16807 ^ (Suc (Suc (Suc (Suc e))) + 3 * n) mod 2147483647 mod 10 = (0 :: nat)" by metis
    have "random_pair a b s t rnd = random_pair a b (s @ [c]) (t @ [d]) r2"
      using r(1) False c(1) d(1) by (subst random_pair.simps) simp
    with Suc.IH [OF d(2) hit, of "s @ [c]" "t @ [d]"] Suc.prems(3) show ?thesis by simp
  qed
qed

lemma check_match_passes:
  assumes "length s = length t"
  shows "check_match s t = Some ()"
proof -
  obtain k where k: "TestFindMatchLength s t (length t) = Some k" "longest_match (s @ t) 0 (length s) (length s + length t) k"
    using FindMatchLength_ok [of 0 "length s" "length s + length t" "s @ t"] by (auto simp: TestFindMatchLength_def)
  have a: "\<forall>j < k. s ! j = t ! j" "k \<le> length t" "k < length t \<Longrightarrow> s ! k \<noteq> t ! k"
    using k(2) assms by (auto simp: longest_match_def agree_def nth_append)
  show ?thesis
  proof (cases "k = length t")
    case True
    with a(1) assms have "s = t" by (simp add: list_eq_iff_nth_eq)
    with True k(1) show ?thesis by (simp add: check_match_def)
  next
    case False
    with a(2) have "k < length t" by simp
    with a(1,3) assms False k(1) show ?thesis by (simp add: check_match_def)
  qed
qed

lemma FindMatchLengthRandom_loop_passes:
  assumes "position e rnd"
  shows "FindMatchLengthRandom_loop n rnd = Some ()"
  using assms
proof (induction n arbitrary: e rnd)
  case (Suc n)
  obtain r where r: "ACM_Next rnd = (r, r)" "position (Suc e) r" using Next_position [OF Suc.prems] by blast
  obtain r2 where r2: "ACM_Next r = (r2, r2)" "position (Suc (Suc e)) r2" using Next_position [OF r(2)] by blast
  obtain k where k: "16807 ^ (Suc (Suc (Suc e)) + 3 * k) mod 2147483647 mod 10 = (0 :: nat)"
    using three_steps [of "Suc (Suc (Suc e))"] by (elim exE) (rule that)
  obtain a b where ab: "ACM_Rand8 rnd = (a, r)" "ACM_Rand8 r = (b, r2)" using r(1) r2(1) by (simp add: ACM_Rand8_def)
  obtain s t r3 e3 where p: "random_pair a b [] [] r2 = Some (s, t, r3)" "position e3 r3" "length s = length t"
    using random_pair_ends [OF r2(2) k, of "[]" "[]" a b] by auto
  from ab p(1) check_match_passes [OF p(3)] Suc.IH [OF p(2)] show ?case by simp
qed simp

text \<open>
  FindMatchLengthRandom ends and passes: whatever the seed, three draws at a time lead to a
  multiple of ten, and the lengths that FindMatchLength returns are right.
\<close>

theorem FindMatchLengthRandom_passes:
  "FindMatchLengthRandom = Some () \<and> (\<forall>n rnd. ACM_valid rnd \<longrightarrow> FindMatchLengthRandom_loop n rnd = Some ())"
proof -
  have "FindMatchLengthRandom_loop n rnd = Some ()" if "ACM_valid rnd" for n rnd
    by (rule valid_position [OF that]) (rule FindMatchLengthRandom_loop_passes)
  moreover have "ACM_valid 301" by (simp add: ACM_valid_def)
  ultimately show ?thesis unfolding FindMatchLengthRandom_def by blast
qed

theorem FindMatchLengthRandom_passes_witness: "FindMatchLengthRandom_loop 500 1 = Some ()"
proof -
  have "ACM_valid 1" by (simp add: ACM_valid_def)
  with FindMatchLengthRandom_passes show ?thesis by blast
qed

end
