(* ===== verification/SnappyTestMain.thy ===== *)
theory SnappyTestMain
  imports SnappyBenchmarkSpec SnappyCorruption SnappyRandomTests
begin

text \<open>
  The test program of Snappy as a whole: \<open>main\<close> of \<open>snappy_unittest.cc\<close> and the list of tests in
  \<open>snappy-test.h\<close> that it runs when the program is built without gtest. Flags that were parsed
  are arguments.
\<close>

definition RUN_ALL_TESTS :: "test_memory \<Rightarrow> bytes \<Rightarrow> string option \<Rightarrow> nat \<Rightarrow> nat fs_run" where
  "RUN_ALL_TESTS tm beyond srcdir sizeof_pointer =
     run_bind (VerifyCorrupted tm srcdir sizeof_pointer) (\<lambda>_.
     run_bind (or_abort (do {
       SimpleTests tm beyond;
       MaxBlowup tm beyond;
       RandomData tm beyond;
       FourByteOffset tm;
       TruncatedVarint tm;
       UnterminatedVarint tm;
       ReadPastEndOfBuffer tm;
       FindMatchLength_test;
       FindMatchLengthRandom
     })) (\<lambda>_. run_done 0))"

definition test_main ::
  "('c, 'd, 'w) libraries \<Rightarrow> test_memory \<Rightarrow> bytes \<Rightarrow> string option \<Rightarrow> nat \<Rightarrow> bool \<Rightarrow> test_flags \<Rightarrow> 'w \<Rightarrow>
    string list \<Rightarrow> (bench, nat) run" where
  "test_main libs tm beyond srcdir sizeof_pointer run_microbenchmarks flags w fnames =
     run_bind (RunSpecifiedBenchmarks run_microbenchmarks tm srcdir) (\<lambda>_.
     on_files
       (if fnames \<noteq> [] then process_files libs tm flags w fnames
        else RUN_ALL_TESTS tm beyond srcdir sizeof_pointer))"

lemma or_abort_run: "run_bind (or_abort (Some x)) k = k x"
  by (rule ext) (simp add: run_bind_def or_abort_def)

lemma RUN_ALL_TESTS_eq:
  assumes "test_memory_ok tm"
  shows "RUN_ALL_TESTS tm beyond srcdir n = run_bind (VerifyCorrupted tm srcdir n) (\<lambda>_. run_done 0)"
  by (simp add: RUN_ALL_TESTS_def or_abort_run feature_tests_pass [OF assms] RandomData_ok [OF assms]
      FindMatchLengthRandom_passes [THEN conjunct1])

text \<open>
  The program. With clocks of before 2038 and data files of at most max_file bytes, and whatever
  uninitialised memory holds, the benchmarks are followed by the commands for the files named, and when none
  is named by the tests, all of which pass if the first, VerifyCorrupted, does.
\<close>

theorem test_main_runs:
  assumes "bench_invariant tm srcdir s"
  shows "\<exists>s'. bench_invariant tm srcdir s' \<and>
    test_main libs tm beyond srcdir n run flags w [] s =
      on_files (run_bind (VerifyCorrupted tm srcdir n) (\<lambda>_. run_done 0)) s' \<and>
    test_main libs tm beyond srcdir n run flags w (f # fnames) s =
      on_files (process_files libs tm flags w (f # fnames)) s'"
proof -
  have tm: "test_memory_ok tm" using assms by (simp add: bench_invariant_def bench_ready_def)
  obtain s' where s': "RunSpecifiedBenchmarks run tm srcdir s = (Done (), s')" "bench_invariant tm srcdir s'"
    using benchmarks_run_through [OF assms, of run] by (auto simp: yields_def)
  then show ?thesis by (intro exI [of _ s']) (simp add: test_main_def run_bind_def RUN_ALL_TESTS_eq [OF tm])
qed

theorem test_main_runs_witness:
  "\<exists>s'. test_main demo_libraries calm_memory [] None 8 True default_flags () [''a''] demo_bench =
    on_files (process_files demo_libraries calm_memory default_flags () [''a'']) s'"
  using test_main_runs [OF demo_bench_invariant, of demo_libraries "[]" 8 True default_flags "()"] by blast

end
